(* ===== verification/Ast.thy ===== *)
theory Ast
  imports Main "HOL-Library.Word"
begin

text \<open>
  The abstract syntax (\<open>internal/engine/parser/abstract.go\<close>): one constructor per node type of the
  interfaces \<open>Expr\<close>, \<open>AlterAction\<close> and \<open>Statement\<close>, its arguments in the order of the
  fields. A field that may be nil is an \<open>option\<close>.
\<close>

section \<open>Expressions and queries\<close>

text \<open>What the interface \<open>LiteralExpr.Value\<close> holds when it is not nil.\<close>

datatype litValue = LitInt "64 word" | LitFloat "64 word" | LitString string

datatype TableRef = TableRef (refName: string) (refAlias: string)

datatype Expr =
    LiteralExpr "litValue option" bool
  | IdentExpr string string
  | StarExpr
  | BinaryExpr string Expr Expr
  | UnaryExpr string Expr
  | FuncCallExpr string "Expr list" bool bool
  | IsNullExpr Expr bool
  | InExpr Expr "Expr list" "SelectStmt option" bool
  | LikeExpr Expr Expr "Expr option" bool
  | GlobExpr Expr Expr bool
  | BetweenExpr Expr Expr Expr bool
  | CaseExpr "Expr option" "(Expr \<times> Expr) list" "Expr option"
  | CastExpr Expr string
  | ExistsExpr SelectStmt bool
  | SubqueryExpr SelectStmt
  | RowValueExpr "Expr list"
and SelectStmt = SelectStmt (selDistinct: bool) (selColumns: "SelectColumn list") (selFrom: "TableRef list")
    (selJoins: "JoinClause list") (selWhere: "Expr option") (selGroupBy: "Expr list") (selHaving: "Expr option")
    (selOrderBy: "OrderByExpr list") (selLimit: "Expr option") (selOffset: "Expr option")
    (selCompound: "CompoundClause option") (selWith: "WithClause option")
and CompoundClause = CompoundClause string bool SelectStmt
and WithClause = WithClause bool "CTE list"
and CTE = CTE string "string list" SelectStmt
and JoinClause = JoinClause string TableRef "Expr option" "string list"
and SelectColumn = SelectColumn (colExpr: "Expr option") (colAlias: string) (colStar: bool)
and OrderByExpr = OrderByExpr (obExpr: Expr) (obDesc: bool) (obNulls: string)


text \<open>\<open>sel.With = wc\<close> and the assignments to the copies of a statement in the executor.\<close>

fun setWith :: "WithClause option \<Rightarrow> SelectStmt \<Rightarrow> SelectStmt" where
  "setWith w (SelectStmt d cs f js wh g h ob l ofs c _) = SelectStmt d cs f js wh g h ob l ofs c w"

fun setCompound :: "CompoundClause option \<Rightarrow> SelectStmt \<Rightarrow> SelectStmt" where
  "setCompound c (SelectStmt d cs f js wh g h ob l ofs _ w) = SelectStmt d cs f js wh g h ob l ofs c w"

lemma setWith_sel [simp]:
  "selWith (setWith w s) = w" "selCompound (setWith w s) = selCompound s" "selFrom (setWith w s) = selFrom s"
  "selWith (setCompound c s) = selWith s" "selCompound (setCompound c s) = c" "selFrom (setCompound c s) = selFrom s"
  by (cases s, simp)+

section \<open>Definitions of tables\<close>

record ForeignKeyRef =
  fkTable :: string
  fkColumn :: string
  fkOnDelete :: string
  fkOnUpdate :: string

record ColumnDef =
  cdName :: string
  cdType :: string
  cdPrimaryKey :: bool
  cdNotNull :: bool
  cdUnique :: bool
  cdDefault :: string
  cdAutoIncrement :: bool
  cdCheck :: "Expr option"
  cdReferences :: "ForeignKeyRef option"

record TableConstraint =
  tcType :: string
  tcColumns :: "string list"
  tcName :: string

section \<open>Statements\<close>

record InsertStmt =
  insTable :: string
  insColumns :: "string list"
  insValues :: "Expr list list"
  insOnConflict :: string
  insSelect :: "SelectStmt option"
  insOr :: string

record UpdateStmt =
  updTable :: string
  updSets :: "(string \<times> Expr) list"
  updWhere :: "Expr option"
  updOr :: string

record DeleteStmt =
  delTable :: string
  delWhere :: "Expr option"

record CreateTableStmt =
  ctTable :: string
  ctTemp :: bool
  ctIfNotExists :: bool
  ctColumns :: "ColumnDef list"
  ctConstraints :: "TableConstraint list"

record CreateIndexStmt =
  ciName :: string
  ciUnique :: bool
  ciTable :: string
  ciColumn :: string
  ciIfNotExists :: bool

record CreateViewStmt =
  cvName :: string
  cvTemp :: bool
  cvIfNotExists :: bool
  cvSelect :: "SelectStmt option"

datatype AlterAction =
    AlterAddColumn ColumnDef
  | AlterRenameTable string
  | AlterRenameColumn string string
  | AlterDropColumn string

datatype Statement =
    SelectSt SelectStmt
  | InsertSt InsertStmt
  | UpdateSt UpdateStmt
  | DeleteSt DeleteStmt
  | CreateTableSt CreateTableStmt
  | DropTableStmt string bool
  | CreateIndexSt CreateIndexStmt
  | DropIndexStmt string bool
  | AlterTableStmt string AlterAction
  | CreateViewSt CreateViewStmt
  | DropViewStmt string bool
  | BeginStmt string
  | CommitStmt
  | RollbackStmt string
  | SavepointStmt string
  | ReleaseSavepointStmt string
  | ShowTablesStmt
  | ShowIndexesStmt string
  | ExplainStmt Statement
  | PragmaStmt string string
  | VacuumStmt

end
