(* ===== verification/Prelude.thy ===== *)
theory Prelude
  imports Main "HOL-Library.Word" "HOL-Library.List_Lexorder"
begin

text \<open>
  Shared vocabulary of the development: machine bytes, the error values of the Go code,
  the error monad the fallible operations are written in, and reads and writes of
  sub-ranges of a byte array with the lemmas every byte-level proof uses.
\<close>

unbundle bit_operations_syntax

named_theorems bytes_simps
named_theorems page_simps
named_theorems cell_simps

type_synonym byte = "8 word"

section \<open>Errors\<close>

text \<open>
  The error values of the storage layer, one constructor per \<open>errors.New\<close> or
  \<open>fmt.Errorf\<close> of the source. Three more outcomes are not Go error values:
  \<open>Panic\<close> (an index or slice bound check fails), \<open>MemFault\<close> (the C code
  reads or writes outside the array it was given) and \<open>OutOfFuel\<close> (a loop or a
  recursion did not end within the fuel of the model).
\<close>

datatype err =
    ErrCorruptedDB | ErrInvalidPage "32 word" | ErrPageFull | ErrIO
  | ErrCellOffset "16 word" | ErrCellData | ErrRewrite | ErrEmptyLeaf
  | ErrRowShort | ErrRowTruncated nat | ErrValueTruncated
  | ErrIntShort | ErrRealShort | ErrValueType byte
  | ErrConvert string | ErrNotActive | ErrNoSavepoint string
  | ErrExists string | ErrMissing string | ErrNoColumn string | ErrColumn string
  | ErrConstraint string | ErrLex string | ErrParse string string int int | ErrJson
  | ErrUnknown string | ErrTx string | ErrNet | ErrAuth string | ErrReply string
  | Panic | MemFault | OutOfFuel

type_synonym 'a res = "err + 'a"

definition bindE :: "'a res \<Rightarrow> ('a \<Rightarrow> 'b res) \<Rightarrow> 'b res" where
  "bindE r f = (case r of Inl e \<Rightarrow> Inl e | Inr x \<Rightarrow> f x)"

lemma bindE_Inl [simp]: "bindE (Inl e) f = Inl e"
  by (simp add: bindE_def)

lemma bindE_Inr [simp]: "bindE (Inr x) f = f x"
  by (simp add: bindE_def)

lemma bindE_eq_Inr: "bindE r f = Inr y \<longleftrightarrow> (\<exists>x. r = Inr x \<and> f x = Inr y)"
  by (cases r) auto

lemma bindE_assoc: "bindE (bindE r f) g = bindE r (\<lambda>x. bindE (f x) g)"
  by (cases r) auto

lemma bindE_cong [fundef_cong]:
  "r = r' \<Longrightarrow> (\<And>x. r' = Inr x \<Longrightarrow> f x = f' x) \<Longrightarrow> bindE r f = bindE r' f'"
  by (cases r') (auto simp: bindE_def)

text \<open>Run an operation over a list from left to right, stopping at the first error.\<close>

fun mapE :: "('a \<Rightarrow> 'b res) \<Rightarrow> 'a list \<Rightarrow> 'b list res" where
  "mapE f [] = Inr []"
| "mapE f (x # xs) = bindE (f x) (\<lambda>y. bindE (mapE f xs) (\<lambda>ys. Inr (y # ys)))"

lemma mapE_map: "(\<And>x. x \<in> set xs \<Longrightarrow> f x = Inr (g x)) \<Longrightarrow> mapE f xs = Inr (map g xs)"
  by (induction xs) auto

lemma mapE_Inr_iff: "mapE f xs = Inr ys \<longleftrightarrow> list_all2 (\<lambda>x y. f x = Inr y) xs ys"
  by (induction xs arbitrary: ys) (auto simp: bindE_eq_Inr list_all2_Cons1)

lemma mapE_cong:
  "(\<And>x. x \<in> set xs \<Longrightarrow> f x = g x) \<Longrightarrow> mapE f xs = mapE g xs"
  by (induction xs) auto

section \<open>Ranges of an array\<close>

text \<open>\<open>slice d i n\<close> is Go's \<open>d[i:i+n]\<close>; \<open>put d i bs\<close> is the array after
  \<open>bs\<close> was copied to index \<open>i\<close>.\<close>

definition slice :: "'a list \<Rightarrow> nat \<Rightarrow> nat \<Rightarrow> 'a list" where
  "slice d i n = take n (drop i d)"

definition put :: "'a list \<Rightarrow> nat \<Rightarrow> 'a list \<Rightarrow> 'a list" where
  "put d i bs = take i d @ bs @ drop (i + length bs) d"

lemma length_slice [simp]: "length (slice d i n) = min n (length d - i)"
  by (auto simp: slice_def)

lemma nth_slice: "j < n \<Longrightarrow> i + j < length d \<Longrightarrow> slice d i n ! j = d ! (i + j)"
  by (simp add: slice_def)

lemma length_put [simp]: "i + length bs \<le> length d \<Longrightarrow> length (put d i bs) = length d"
  by (simp add: put_def)

lemma nth_put:
  assumes "i + length bs \<le> length d" and "j < length d"
  shows "put d i bs ! j = (if i \<le> j \<and> j < i + length bs then bs ! (j - i) else d ! j)"
  using assms by (auto simp: put_def nth_append)

lemma nth_put_outside:
  assumes "i + length bs \<le> length d" and "j < length d" and "j < i \<or> i + length bs \<le> j"
  shows "put d i bs ! j = d ! j"
  using assms by (auto simp: nth_put)

lemma put_Nil [simp]: "put d i [] = d"
  by (simp add: put_def)

lemma slice_put_disjoint:
  assumes "i + length bs \<le> length d" and "j + n \<le> i \<or> i + length bs \<le> j"
  shows "slice (put d i bs) j n = slice d j n"
proof (rule nth_equalityI)
  show "length (slice (put d i bs) j n) = length (slice d j n)"
    using assms(1) by simp
next
  fix k assume "k < length (slice (put d i bs) j n)"
  then have k: "k < n" "j + k < length d"
    using assms(1) by auto
  then show "slice (put d i bs) j n ! k = slice d j n ! k"
    using assms by (auto simp: nth_slice nth_put_outside)
qed

lemma slice_put_same:
  assumes "i + length bs \<le> length d" and "n = length bs"
  shows "slice (put d i bs) i n = bs"
  using assms by (simp add: slice_def put_def)

lemma slice_put_inside:
  assumes "i + length bs \<le> length d" and "k + n \<le> length bs"
  shows "slice (put d i bs) (i + k) n = slice bs k n"
proof (rule nth_equalityI)
  show "length (slice (put d i bs) (i + k) n) = length (slice bs k n)"
    using assms by simp
next
  fix j assume "j < length (slice (put d i bs) (i + k) n)"
  then show "slice (put d i bs) (i + k) n ! j = slice bs k n ! j"
    using assms by (auto simp: nth_slice nth_put add.assoc)
qed

lemma slice_append1: "n \<le> length xs \<Longrightarrow> slice (xs @ ys) 0 n = take n xs"
  by (simp add: slice_def)

lemma slice_append2: "i = length xs \<Longrightarrow> slice (xs @ ys) i n = take n ys"
  by (simp add: slice_def)

lemma slice_cong:
  assumes "length d = length d'" and "\<And>k. i \<le> k \<Longrightarrow> k < i + n \<Longrightarrow> k < length d \<Longrightarrow> d ! k = d' ! k"
  shows "slice d i n = slice d' i n"
  by (rule nth_equalityI) (use assms in \<open>auto simp: nth_slice\<close>)

section \<open>Insertion at a position of a list\<close>

definition insert_at :: "nat \<Rightarrow> 'a \<Rightarrow> 'a list \<Rightarrow> 'a list" where
  "insert_at i x xs = take i xs @ x # drop i xs"

definition remove_at :: "nat \<Rightarrow> 'a list \<Rightarrow> 'a list" where
  "remove_at i xs = take i xs @ drop (Suc i) xs"

lemma length_insert_at [simp]: "i \<le> length xs \<Longrightarrow> length (insert_at i x xs) = Suc (length xs)"
  by (simp add: insert_at_def)

lemma length_remove_at [simp]: "i < length xs \<Longrightarrow> length (remove_at i xs) = length xs - 1"
  by (simp add: remove_at_def)

lemma nth_insert_at:
  assumes "i \<le> length xs" and "j \<le> length xs"
  shows "insert_at i x xs ! j = (if j < i then xs ! j else if j = i then x else xs ! (j - 1))"
proof -
  have "j - i = Suc k \<Longrightarrow> i + k = j - Suc 0" if "\<not> j < i" for k
    using that by arith
  then show ?thesis
    using assms by (auto simp: insert_at_def nth_append nth_Cons min_def split: nat.split)
qed

lemma nth_remove_at:
  assumes "i < length xs" and "j < length xs - 1"
  shows "remove_at i xs ! j = (if j < i then xs ! j else xs ! Suc j)"
  using assms by (auto simp: remove_at_def nth_append)

lemma set_insert_at [simp]: "set (insert_at i x xs) = insert x (set xs)"
proof -
  have "set (take i xs @ drop i xs) = set xs" by simp
  then show ?thesis unfolding insert_at_def by (simp only: set_append) auto
qed

lemma map_insert_at: "map f (insert_at i x xs) = insert_at i (f x) (map f xs)"
  by (simp add: insert_at_def take_map drop_map)

lemma map_remove_at: "map f (remove_at i xs) = remove_at i (map f xs)"
  by (simp add: remove_at_def take_map drop_map)

lemma insert_at_length: "insert_at (length xs) x xs = xs @ [x]"
  by (simp add: insert_at_def)

end
