(* ===== verification/Bytes.thy ===== *)
theory Bytes
  imports Prelude
begin

text \<open>
  The byte-level primitives of \<open>internal/storage/ops.c\<close> and of Go's
  \<open>encoding/binary\<close> (big endian): fixed-width integers, key comparison and the
  memory helpers.
\<close>

section \<open>Big-endian integers\<close>

definition be16 :: "16 word \<Rightarrow> byte list" where
  "be16 v = [ucast (drop_bit 8 v), ucast v]"

definition rd16 :: "byte list \<Rightarrow> nat \<Rightarrow> 16 word" where
  "rd16 d i = push_bit 8 (ucast (d ! i)) OR ucast (d ! Suc i)"

definition be32 :: "32 word \<Rightarrow> byte list" where
  "be32 v = [ucast (drop_bit 24 v), ucast (drop_bit 16 v), ucast (drop_bit 8 v), ucast v]"

definition rd32 :: "byte list \<Rightarrow> nat \<Rightarrow> 32 word" where
  "rd32 d i = push_bit 24 (ucast (d ! i)) OR push_bit 16 (ucast (d ! (i + 1))) OR
     push_bit 8 (ucast (d ! (i + 2))) OR ucast (d ! (i + 3))"

definition be64 :: "64 word \<Rightarrow> byte list" where
  "be64 v = [ucast (drop_bit 56 v), ucast (drop_bit 48 v), ucast (drop_bit 40 v),
     ucast (drop_bit 32 v), ucast (drop_bit 24 v), ucast (drop_bit 16 v),
     ucast (drop_bit 8 v), ucast v]"

definition rd64 :: "byte list \<Rightarrow> nat \<Rightarrow> 64 word" where
  "rd64 d i = push_bit 56 (ucast (d ! i)) OR push_bit 48 (ucast (d ! (i + 1))) OR
     push_bit 40 (ucast (d ! (i + 2))) OR push_bit 32 (ucast (d ! (i + 3))) OR
     push_bit 24 (ucast (d ! (i + 4))) OR push_bit 16 (ucast (d ! (i + 5))) OR
     push_bit 8 (ucast (d ! (i + 6))) OR ucast (d ! (i + 7))"

lemma length_be [simp]: "length (be16 a) = 2" "length (be32 b) = 4" "length (be64 c) = 8"
  by (simp_all add: be16_def be32_def be64_def)

text \<open>One byte of a word, put back at its place, keeps exactly that byte's bits.\<close>

lemma bit_byte_at:
  fixes v :: "'a::len word"
  assumes "k + 8 \<le> LENGTH('a)"
  shows "bit (push_bit k (ucast (ucast (drop_bit k v) :: byte)) :: 'a word) n
    \<longleftrightarrow> k \<le> n \<and> n < k + 8 \<and> bit v n"
  using assms by (auto simp: bit_simps)

lemma bit_byte_low:
  fixes v :: "'a::len word"
  assumes "8 \<le> LENGTH('a)"
  shows "bit (ucast (ucast v :: byte) :: 'a word) n \<longleftrightarrow> n < 8 \<and> bit v n"
  using assms by (auto simp: bit_simps)

lemma rd16_be16: "rd16 (be16 v) 0 = v"
proof (rule bit_word_eqI)
  fix n assume n: "n < LENGTH(16)"
  show "bit (rd16 (be16 v) 0) n = bit v n"
    using n unfolding rd16_def be16_def
    by (cases "bit v n") (simp_all add: bit_or_iff bit_byte_at bit_byte_low, arith)
qed

lemma rd32_be32: "rd32 (be32 v) 0 = v"
proof (rule bit_word_eqI)
  fix n assume n: "n < LENGTH(32)"
  show "bit (rd32 (be32 v) 0) n = bit v n"
    using n unfolding rd32_def be32_def
    by (cases "bit v n") (simp_all add: bit_or_iff bit_byte_at bit_byte_low, arith)
qed

lemma rd64_be64: "rd64 (be64 v) 0 = v"
proof (rule bit_word_eqI)
  fix n assume n: "n < LENGTH(64)"
  show "bit (rd64 (be64 v) 0) n = bit v n"
    using n unfolding rd64_def be64_def
    by (cases "bit v n") (simp_all add: bit_or_iff bit_byte_at bit_byte_low, arith)
qed

text \<open>Reading at an offset depends on those bytes only, so writes elsewhere do not matter.\<close>

lemma rd16_put_same [bytes_simps]: "i + 2 \<le> length d \<Longrightarrow> rd16 (put d i (be16 v)) i = v"
  using rd16_be16 [of v] by (simp add: rd16_def nth_put)

lemma rd32_put_same [bytes_simps]: "i + 4 \<le> length d \<Longrightarrow> rd32 (put d i (be32 v)) i = v"
  using rd32_be32 [of v] by (simp add: rd32_def nth_put numeral_2_eq_2)

lemma rd64_put_same [bytes_simps]: "i + 8 \<le> length d \<Longrightarrow> rd64 (put d i (be64 v)) i = v"
  using rd64_be64 [of v] by (simp add: rd64_def nth_put numeral_2_eq_2)

lemma rd16_put_other [bytes_simps]:
  "i + length bs \<le> length d \<Longrightarrow> j + 2 \<le> length d \<Longrightarrow> j + 2 \<le> i \<or> i + length bs \<le> j
   \<Longrightarrow> rd16 (put d i bs) j = rd16 d j"
  by (auto simp: rd16_def nth_put)

lemma rd32_put_other [bytes_simps]:
  "i + length bs \<le> length d \<Longrightarrow> j + 4 \<le> length d \<Longrightarrow> j + 4 \<le> i \<or> i + length bs \<le> j
   \<Longrightarrow> rd32 (put d i bs) j = rd32 d j"
  by (auto simp: rd32_def nth_put)

lemma rd16_slice: "i + 2 \<le> n \<Longrightarrow> k + n \<le> length d \<Longrightarrow> rd16 (slice d k n) i = rd16 d (k + i)"
  by (simp add: rd16_def nth_slice)

lemma rd32_slice: "i + 4 \<le> n \<Longrightarrow> k + n \<le> length d \<Longrightarrow> rd32 (slice d k n) i = rd32 d (k + i)"
  by (simp add: rd32_def nth_slice add.assoc)

section \<open>Key comparison\<close>

text \<open>\<open>memcmp\<close> of the C library: the sign of the first difference within the first
  \<open>n\<close> bytes. The code uses the sign of its result only.\<close>

fun memcmp :: "byte list \<Rightarrow> byte list \<Rightarrow> nat \<Rightarrow> int" where
  "memcmp (x # xs) (y # ys) (Suc n) =
     (if x = y then memcmp xs ys n else if x < y then -1 else 1)"
| "memcmp _ _ _ = 0"

definition sqlgo_key_cmp :: "byte list \<Rightarrow> byte list \<Rightarrow> int" where
  "sqlgo_key_cmp a b =
     (let minlen = (if length a < length b then length a else length b);
          r = (if length a = 0 \<or> length b = 0 then 0 else memcmp a b minlen)
      in if r \<noteq> 0 then r
         else if length a < length b then -1
         else if length a > length b then 1
         else 0)"

definition cKeyCmp :: "byte list \<Rightarrow> byte list \<Rightarrow> int" where
  "cKeyCmp a b = sqlgo_key_cmp a b"

text \<open>It is the comparison of the lexicographic order on byte strings.\<close>

lemma memcmp_lex:
  "(if memcmp a b (min (length a) (length b)) \<noteq> 0 then memcmp a b (min (length a) (length b))
    else if length a < length b then -1 else if length a > length b then 1 else (0::int)) =
   (if a < b then -1 else if a = b then 0 else 1)"
proof (induction a arbitrary: b)
  case Nil
  then show ?case by (cases b) auto
next
  case (Cons x xs)
  show ?case
  proof (cases b)
    case (Cons y ys)
    with Cons.IH [of ys] show ?thesis
      by (cases "xs < ys"; cases "xs = ys") (auto split: if_splits)
  qed simp
qed

lemma key_cmp_lex: "sqlgo_key_cmp a b = (if a < b then -1 else if a = b then 0 else 1)"
proof (cases "a = [] \<or> b = []")
  case True
  then show ?thesis by (cases a; cases b) (auto simp: sqlgo_key_cmp_def)
next
  case False
  then have "sqlgo_key_cmp a b =
    (if memcmp a b (min (length a) (length b)) \<noteq> 0 then memcmp a b (min (length a) (length b))
     else if length a < length b then -1 else if length a > length b then 1 else 0)"
    by (simp add: sqlgo_key_cmp_def Let_def min_def)
  then show ?thesis by (simp only: memcmp_lex)
qed

section \<open>Memory helpers\<close>

text \<open>\<open>cCopyBytes dst off src\<close> copies into the Go slice \<open>dst[off:]\<close>. The C
  \<open>memcpy\<close> is given the length of the source only, so a source that does not fit
  writes past the array.\<close>

definition sqlgo_copy_bytes :: "byte list \<Rightarrow> nat \<Rightarrow> byte list \<Rightarrow> byte list res" where
  "sqlgo_copy_bytes dst off src =
     (if off + length src \<le> length dst then Inr (put dst off src) else Inl MemFault)"

definition cCopyBytes :: "byte list \<Rightarrow> nat \<Rightarrow> byte list \<Rightarrow> byte list res" where
  "cCopyBytes dst off src =
     (if length dst < off then Inl Panic
      else if length src = 0 \<or> length dst - off = 0 then Inr dst
      else sqlgo_copy_bytes dst off src)"

lemma cCopyBytes_fits:
  "off + length src \<le> length dst \<Longrightarrow> cCopyBytes dst off src = Inr (put dst off src)"
  by (cases src) (auto simp: cCopyBytes_def sqlgo_copy_bytes_def put_def)

definition sqlgo_clear_page :: "byte list \<Rightarrow> byte list" where
  "sqlgo_clear_page d = (case d of [] \<Rightarrow> [] | b # r \<Rightarrow> b # replicate (length r) 0)"

definition cClearPage :: "byte list \<Rightarrow> byte list" where
  "cClearPage d = sqlgo_clear_page d"

lemma length_clear_page [simp]: "length (cClearPage d) = length d"
  by (cases d) (simp_all add: cClearPage_def sqlgo_clear_page_def)

definition cZeroBytes :: "byte list \<Rightarrow> byte list" where
  "cZeroBytes d = replicate (length d) 0"

definition cEncodeUint64BE :: "64 word \<Rightarrow> byte list" where
  "cEncodeUint64BE v = be64 v"

definition cDecodeUint64BE :: "byte list \<Rightarrow> 64 word" where
  "cDecodeUint64BE b = rd64 b 0"

section \<open>A codec contract\<close>

text \<open>An encoder and a decoder that reads the encoding back, whatever bytes follow. The
  header, the cells, the values and the rows of the storage layer are codecs.\<close>

locale codec =
  fixes enc :: "'a \<Rightarrow> byte list"
    and dec :: "byte list \<Rightarrow> 'a res"
    and ok :: "'a \<Rightarrow> bool"
  assumes dec_enc: "ok x \<Longrightarrow> dec (enc x @ r) = Inr x"
begin

lemma round_trip: "ok x \<Longrightarrow> dec (enc x) = Inr x"
  using dec_enc [of x "[]"] by simp

lemma enc_inject: "ok x \<Longrightarrow> ok y \<Longrightarrow> enc x = enc y \<longleftrightarrow> x = y"
  by (metis round_trip sum.inject(2))

text \<open>No encoding is a proper prefix of another: records can be laid end to end.\<close>

lemma prefix_free:
  assumes "ok x" and "ok y" and "enc x @ r = enc y @ s"
  shows "x = y" and "r = s"
proof -
  from assms dec_enc [of x r] dec_enc [of y s] show "x = y" by simp
  with assms(3) show "r = s" by simp
qed

lemma mapE_dec_enc: "(\<And>x. x \<in> set xs \<Longrightarrow> ok x) \<Longrightarrow> mapE dec (map enc xs) = Inr xs"
  by (induction xs) (simp_all add: round_trip)

end

lemma be_prefix:
  "rd16 (be16 a @ r) 0 = a" "rd32 (be32 b @ r) 0 = b" "rd64 (be64 c @ r) 0 = c"
  using rd16_be16 [of a] rd32_be32 [of b] rd64_be64 [of c]
  by (simp_all add: rd16_def rd32_def rd64_def nth_append be16_def be32_def be64_def)

interpretation int64: codec be64 "\<lambda>b. Inr (cDecodeUint64BE b)" "\<lambda>_. True"
  by unfold_locales (simp add: cDecodeUint64BE_def be_prefix)

end
