(* ===== verification/Page.thy ===== *)
theory Page
  imports Bytes
begin

text \<open>
  Pages and the database header (\<open>internal/storage/pager.go\<close>, the constants, the
  \<open>Page\<close> methods and \<open>DBHeader\<close>). A page is its number, its 4096 bytes and the
  in-memory flags; every accessor reads or writes a fixed range of the bytes.
\<close>

section \<open>Constants\<close>

definition PageSize :: nat where "PageSize = 4096"
definition HeaderSize :: nat where "HeaderSize = 100"
definition MagicSize :: nat where "MagicSize = 8"
definition MagicString :: "byte list" where
  "MagicString = map (\<lambda>c. of_char c) ''SQLGO''"
definition FileVersion :: "32 word" where "FileVersion = 3"
definition InvalidPage :: "32 word" where "InvalidPage = NOT 0"
definition DefaultCacheSize :: int where "DefaultCacheSize = 2048"
definition walBufSize :: int where "walBufSize = 128"

definition PageTypeLeaf :: byte where "PageTypeLeaf = 0x0D"
definition PageTypeInternal :: byte where "PageTypeInternal = 0x05"
definition PageTypeFree :: byte where "PageTypeFree = 0x00"
definition PageTypeOverflow :: byte where "PageTypeOverflow = 0x02"

lemmas page_types = PageTypeLeaf_def PageTypeInternal_def PageTypeFree_def PageTypeOverflow_def

section \<open>Pages\<close>

record Page =
  ID :: "32 word"
  Data :: "byte list"
  Dirty :: bool
  pins :: "32 word"

text \<open>\<open>&Page{ID: id}\<close>: all bytes zero.\<close>

definition newPage :: "32 word \<Rightarrow> Page" where
  "newPage i = \<lparr>ID = i, Data = replicate PageSize 0, Dirty = False, pins = 0\<rparr>"

definition Type :: "Page \<Rightarrow> byte" where
  "Type p = Data p ! 0"

definition SetType :: "byte \<Rightarrow> Page \<Rightarrow> Page" where
  "SetType t p = p\<lparr>Data := put (Data p) 0 [t], Dirty := True\<rparr>"

definition CellCount :: "Page \<Rightarrow> 16 word" where
  "CellCount p = rd16 (Data p) 1"

definition SetCellCount :: "16 word \<Rightarrow> Page \<Rightarrow> Page" where
  "SetCellCount n p = p\<lparr>Data := put (Data p) 1 (be16 n), Dirty := True\<rparr>"

definition CellContentOffset :: "Page \<Rightarrow> 16 word" where
  "CellContentOffset p = (let v = rd16 (Data p) 3 in if v = 0 then of_nat PageSize else v)"

definition SetCellContentOffset :: "16 word \<Rightarrow> Page \<Rightarrow> Page" where
  "SetCellContentOffset off p = p\<lparr>Data := put (Data p) 3 (be16 off), Dirty := True\<rparr>"

definition RightmostPointer :: "Page \<Rightarrow> 32 word" where
  "RightmostPointer p = rd32 (Data p) 5"

definition SetRightmostPointer :: "32 word \<Rightarrow> Page \<Rightarrow> Page" where
  "SetRightmostPointer ptr p = p\<lparr>Data := put (Data p) 5 (be32 ptr), Dirty := True\<rparr>"

definition PageHeaderSize :: "16 word" where "PageHeaderSize = 9"

definition FreeSpaceStart :: "Page \<Rightarrow> 16 word" where
  "FreeSpaceStart p = PageHeaderSize + CellCount p * 2"

text \<open>\<open>sqlgo_page_free_space\<close>: all arithmetic wraps at 16 bits.\<close>

definition cPageFreeSpace :: "byte list \<Rightarrow> 16 word \<Rightarrow> 16 word \<Rightarrow> 16 word \<Rightarrow> 16 word" where
  "cPageFreeSpace d page_size header_size cell_count =
     (let content_off = rd16 d 3;
          content_off = (if content_off = 0 then page_size else content_off);
          free_start = header_size + cell_count * 2
      in if content_off \<le> free_start then 0 else content_off - free_start)"

definition FreeSpace :: "Page \<Rightarrow> 16 word" where
  "FreeSpace p = cPageFreeSpace (Data p) (of_nat PageSize) PageHeaderSize (CellCount p)"

text \<open>The slice \<open>p.Data[offset:offset+2]\<close> panics when it is not within the array.\<close>

definition CellPointer :: "Page \<Rightarrow> 16 word \<Rightarrow> 16 word res" where
  "CellPointer p idx =
     (let offset = PageHeaderSize + idx * 2
      in if unat offset + 2 \<le> length (Data p) then Inr (rd16 (Data p) (unat offset))
         else Inl Panic)"

definition SetCellPointer :: "16 word \<Rightarrow> 16 word \<Rightarrow> Page \<Rightarrow> Page res" where
  "SetCellPointer idx ptr p =
     (let offset = PageHeaderSize + idx * 2
      in if unat offset + 2 \<le> length (Data p)
         then Inr (p\<lparr>Data := put (Data p) (unat offset) (be16 ptr), Dirty := True\<rparr>)
         else Inl Panic)"

text \<open>
  \<open>sqlgo_shift_cell_pointers\<close>: the two loops copy two bytes per step, upwards from
  \<open>to_idx\<close> or downwards from \<open>from_idx\<close>; indices are taken at 16 bits.
\<close>

fun shift_right :: "16 word \<Rightarrow> nat \<Rightarrow> nat \<Rightarrow> byte list \<Rightarrow> byte list res" where
  "shift_right h from 0 d = Inr d"
| "shift_right h from (Suc i) d =
     (if Suc i > from
      then let src = unat (h + of_nat i * 2); dst = unat (h + of_nat (Suc i) * 2)
           in if src + 2 \<le> length d \<and> dst + 2 \<le> length d
              then shift_right h from i (put d dst (slice d src 2))
              else Inl MemFault
      else Inr d)"

function shift_left :: "16 word \<Rightarrow> nat \<Rightarrow> nat \<Rightarrow> byte list \<Rightarrow> byte list res" where
  "shift_left h i to d =
     (if i < to
      then let src = unat (h + of_nat (Suc i) * 2); dst = unat (h + of_nat i * 2)
           in if src + 2 \<le> length d \<and> dst + 2 \<le> length d
              then shift_left h (Suc i) to (put d dst (slice d src 2))
              else Inl MemFault
      else Inr d)"
  by pat_completeness auto
termination
  by (relation "measure (\<lambda>(h, i, to, d). to - i)") auto

declare shift_left.simps [simp del]

definition cShiftCellPointers ::
    "byte list \<Rightarrow> 16 word \<Rightarrow> 16 word \<Rightarrow> 16 word \<Rightarrow> int \<Rightarrow> byte list res" where
  "cShiftCellPointers d header_size from_idx to_idx direction =
     (if direction > 0 then shift_right header_size (unat from_idx) (unat to_idx) d
      else shift_left header_size (unat from_idx) (unat to_idx) d)"

definition InsertCellPointer :: "16 word \<Rightarrow> 16 word \<Rightarrow> Page \<Rightarrow> Page res" where
  "InsertCellPointer idx ptr p =
     (let count = CellCount p
      in bindE (if count > idx
                then bindE (cShiftCellPointers (Data p) PageHeaderSize idx count 1)
                       (\<lambda>d. Inr (p\<lparr>Data := d\<rparr>))
                else Inr p)
           (SetCellPointer idx ptr))"

definition Pin :: "Page \<Rightarrow> Page" where
  "Pin p = p\<lparr>pins := pins p + 1\<rparr>"

definition Unpin :: "Page \<Rightarrow> Page" where
  "Unpin p = p\<lparr>pins := pins p - 1\<rparr>"

definition Pinned :: "Page \<Rightarrow> bool" where
  "Pinned p \<longleftrightarrow> sint (pins p) > 0"

section \<open>The database header\<close>

record DBHeader =
  Magic :: "byte list"
  Version :: "32 word"
  hPageSize :: "32 word"
  hPageCount :: "32 word"
  FreeList :: "32 word"
  RootPage :: "32 word"
  SchemaPage :: "32 word"

definition EncodeHeader :: "DBHeader \<Rightarrow> byte list" where
  "EncodeHeader h =
     (let buf = replicate HeaderSize 0;
          buf = put buf 0 (Magic h);
          buf = put buf 8 (be32 (Version h));
          buf = put buf 12 (be32 (hPageSize h));
          buf = put buf 16 (be32 (hPageCount h));
          buf = put buf 20 (be32 (FreeList h));
          buf = put buf 24 (be32 (RootPage h));
          buf = put buf 28 (be32 (SchemaPage h))
      in buf)"

definition DecodeHeader :: "byte list \<Rightarrow> DBHeader res" where
  "DecodeHeader buf =
     (if length buf < HeaderSize then Inl ErrCorruptedDB
      else Inr \<lparr>Magic = slice buf 0 MagicSize,
                Version = rd32 buf 8,
                hPageSize = rd32 buf 12,
                hPageCount = rd32 buf 16,
                FreeList = rd32 buf 20,
                RootPage = rd32 buf 24,
                SchemaPage = rd32 buf 28\<rparr>)"

text \<open>\<open>h.Magic\<close> is an array of eight bytes.\<close>

definition header_ok :: "DBHeader \<Rightarrow> bool" where
  "header_ok h \<longleftrightarrow> length (Magic h) = MagicSize"

lemma length_EncodeHeader: "header_ok h \<Longrightarrow> length (EncodeHeader h) = HeaderSize"
  by (simp add: EncodeHeader_def header_ok_def HeaderSize_def MagicSize_def)

lemma decode_encode_header:
  assumes "header_ok h"
  shows "DecodeHeader (EncodeHeader h @ r) = Inr h"
proof -
  have l: "length (EncodeHeader h) = 100"
    using length_EncodeHeader [OF assms] by (simp add: HeaderSize_def)
  have rd: "rd32 (EncodeHeader h @ r) i = rd32 (EncodeHeader h) i" if "i + 4 \<le> 100" for i
    using that l by (simp add: rd32_def nth_append)
  have mg: "slice (EncodeHeader h @ r) 0 8 = slice (EncodeHeader h) 0 8"
    using l by (simp add: slice_def)
  have fields: "slice (EncodeHeader h) 0 8 = Magic h" "rd32 (EncodeHeader h) 8 = Version h"
    "rd32 (EncodeHeader h) 12 = hPageSize h" "rd32 (EncodeHeader h) 16 = hPageCount h"
    "rd32 (EncodeHeader h) 20 = FreeList h" "rd32 (EncodeHeader h) 24 = RootPage h"
    "rd32 (EncodeHeader h) 28 = SchemaPage h"
    using assms
    by (simp_all add: EncodeHeader_def header_ok_def HeaderSize_def MagicSize_def Let_def
        bytes_simps slice_put_disjoint slice_put_same)
  show ?thesis
    using l by (simp add: DecodeHeader_def HeaderSize_def MagicSize_def rd mg fields)
qed

interpretation header: codec EncodeHeader DecodeHeader header_ok
  by unfold_locales (rule decode_encode_header)

end
