(* ===== verification/Cells.thy ===== *)
theory Cells
  imports Page
begin

text \<open>
  Slotted pages (\<open>internal/storage/btree.go\<close>, the cell and page helpers, with the
  C routines of \<open>ops.c\<close> they call): cell encoding, the binary search over the cell
  pointers, insertion, rewriting and removal of cells. The abstraction of a page is the list
  of its cells in pointer order, which is what the code's own \<open>collectCells\<close> returns.
\<close>

section \<open>Field accessors after updates\<close>

definition page_ok :: "Page \<Rightarrow> bool" where
  "page_ok p \<longleftrightarrow> length (Data p) = PageSize"

lemma page_ok_newPage [simp]: "page_ok (newPage i)"
  by (simp add: page_ok_def newPage_def)

lemmas page_setters = SetType_def SetCellCount_def SetCellContentOffset_def SetRightmostPointer_def

lemma page_ok_set [simp]:
  assumes "page_ok p"
  shows "page_ok (SetType t p)" "page_ok (SetCellCount n p)"
    "page_ok (SetCellContentOffset off p)" "page_ok (SetRightmostPointer r p)"
  using assms by (simp_all add: page_ok_def page_setters PageSize_def)

lemma page_flags_set [simp]:
  "ID (SetType t p) = ID p" "ID (SetCellCount n p) = ID p"
  "ID (SetCellContentOffset off p) = ID p" "ID (SetRightmostPointer r p) = ID p"
  "pins (SetType t p) = pins p" "pins (SetCellCount n p) = pins p"
  "pins (SetCellContentOffset off p) = pins p" "pins (SetRightmostPointer r p) = pins p"
  "Dirty (SetType t p)" "Dirty (SetCellCount n p)"
  "Dirty (SetCellContentOffset off p)" "Dirty (SetRightmostPointer r p)"
  by (simp_all add: page_setters)

lemma Type_set [page_simps]:
  assumes "page_ok p"
  shows "Type (SetType t p) = t" "Type (SetCellCount n p) = Type p"
    "Type (SetCellContentOffset off p) = Type p" "Type (SetRightmostPointer r p) = Type p"
  using assms by (simp_all add: page_ok_def page_setters PageSize_def Type_def nth_put)

lemma CellCount_set [page_simps]:
  assumes "page_ok p"
  shows "CellCount (SetType t p) = CellCount p" "CellCount (SetCellCount n p) = n"
    "CellCount (SetCellContentOffset off p) = CellCount p"
    "CellCount (SetRightmostPointer r p) = CellCount p"
  using assms by (simp_all add: page_ok_def page_setters PageSize_def CellCount_def bytes_simps)

lemma CellContentOffset_set [page_simps]:
  assumes "page_ok p"
  shows "CellContentOffset (SetType t p) = CellContentOffset p"
    "CellContentOffset (SetCellCount n p) = CellContentOffset p"
    "CellContentOffset (SetCellContentOffset off p) = (if off = 0 then of_nat PageSize else off)"
    "CellContentOffset (SetRightmostPointer r p) = CellContentOffset p"
  using assms
  by (simp_all add: page_ok_def page_setters PageSize_def CellContentOffset_def bytes_simps)

lemma RightmostPointer_set [page_simps]:
  assumes "page_ok p"
  shows "RightmostPointer (SetType t p) = RightmostPointer p"
    "RightmostPointer (SetCellCount n p) = RightmostPointer p"
    "RightmostPointer (SetCellContentOffset off p) = RightmostPointer p"
    "RightmostPointer (SetRightmostPointer r p) = r"
  using assms
  by (simp_all add: page_ok_def page_setters PageSize_def RightmostPointer_def bytes_simps)

section \<open>Cells\<close>

definition MaxCellSize :: nat where "MaxCellSize = 512"
definition MinCellsPerPage :: nat where "MinCellsPerPage = 2"

record Cell =
  Key :: "byte list"
  Value :: "byte list"
  LeftPtr :: "32 word"

text \<open>\<open>sqlgo_encode_cell\<close>: the lengths are truncated to 16 bits and that many bytes
  are copied.\<close>

definition cEncodeCell :: "32 word \<Rightarrow> byte list \<Rightarrow> byte list \<Rightarrow> byte list" where
  "cEncodeCell left_ptr key val =
     (let key_len = (of_nat (length key) :: 16 word); val_len = (of_nat (length val) :: 16 word)
      in be32 left_ptr @ be16 key_len @ be16 val_len @
         take (unat key_len) key @ take (unat val_len) val)"

definition EncodeCell :: "Cell \<Rightarrow> byte list" where
  "EncodeCell c = cEncodeCell (LeftPtr c) (Key c) (Value c)"

definition cDecodeCellHeader :: "byte list \<Rightarrow> nat \<Rightarrow> 32 word \<times> 16 word \<times> 16 word" where
  "cDecodeCellHeader d off = (rd32 d off, rd16 d (off + 4), rd16 d (off + 6))"

definition DecodeCell :: "byte list \<Rightarrow> 16 word \<Rightarrow> Cell res" where
  "DecodeCell data offset =
     (if unat offset + 8 > length data then Inl (ErrCellOffset offset)
      else case cDecodeCellHeader data (unat offset) of (leftPtr, keyLen, valLen) \<Rightarrow>
        let end' = unat offset + 8 + unat keyLen + unat valLen
        in if end' > length data then Inl ErrCellData
           else let dataStart = unat offset + 8
                in Inr \<lparr>Key = slice data dataStart (unat keyLen),
                        Value = slice data (dataStart + unat keyLen) (unat valLen),
                        LeftPtr = leftPtr\<rparr>)"

text \<open>A cell whose encoding has room for its lengths and whose size does not wrap.\<close>

definition cell_small :: "Cell \<Rightarrow> bool" where
  "cell_small c \<longleftrightarrow> length (Key c) + length (Value c) + 10 < 2 ^ 16"

definition cell_size :: "Cell \<Rightarrow> nat" where
  "cell_size c = 8 + length (Key c) + length (Value c)"

lemma unat_len16: "n < 65536 \<Longrightarrow> unat (of_nat n :: 16 word) = n"
  by (simp add: unat_of_nat)

lemma EncodeCell_small:
  assumes "cell_small c"
  shows "EncodeCell c = be32 (LeftPtr c) @ be16 (of_nat (length (Key c))) @
    be16 (of_nat (length (Value c))) @ Key c @ Value c"
  using assms by (simp add: EncodeCell_def cEncodeCell_def cell_small_def unat_len16)

lemma length_EncodeCell [cell_simps]: "cell_small c \<Longrightarrow> length (EncodeCell c) = cell_size c"
  by (simp add: EncodeCell_small cell_size_def)

text \<open>The cell that starts at a byte offset, and that it lies within the array.\<close>

definition key_len :: "byte list \<Rightarrow> nat \<Rightarrow> nat" where
  "key_len d p = unat (rd16 d (p + 4))"

definition val_len :: "byte list \<Rightarrow> nat \<Rightarrow> nat" where
  "val_len d p = unat (rd16 d (p + 6))"

definition cell_at :: "byte list \<Rightarrow> nat \<Rightarrow> Cell" where
  "cell_at d p = \<lparr>Key = slice d (p + 8) (key_len d p),
     Value = slice d (p + 8 + key_len d p) (val_len d p), LeftPtr = rd32 d p\<rparr>"

definition cell_in :: "byte list \<Rightarrow> nat \<Rightarrow> bool" where
  "cell_in d p \<longleftrightarrow> p + 8 \<le> length d \<and> p + 8 + key_len d p + val_len d p \<le> length d"

lemma DecodeCell_in: "cell_in d (unat off) \<Longrightarrow> DecodeCell d off = Inr (cell_at d (unat off))"
  by (simp add: DecodeCell_def cDecodeCellHeader_def cell_in_def cell_at_def key_len_def
      val_len_def Let_def)

lemma cell_at_lengths:
  assumes "cell_in d p"
  shows "length (Key (cell_at d p)) = key_len d p" and "length (Value (cell_at d p)) = val_len d p"
  using assms by (auto simp: cell_in_def cell_at_def)

text \<open>A write that does not touch a cell's bytes leaves the cell.\<close>

lemma cell_frame:
  assumes "cell_in d p" and "length d' = length d"
    and "\<And>k. p \<le> k \<Longrightarrow> k < p + 8 + key_len d p + val_len d p \<Longrightarrow> d' ! k = d ! k"
  shows "cell_in d' p" and "cell_at d' p = cell_at d p"
proof -
  have h: "rd32 d' p = rd32 d p" "rd16 d' (p + 4) = rd16 d (p + 4)" "rd16 d' (p + 6) = rd16 d (p + 6)"
    using assms(3) by (simp_all add: rd32_def rd16_def)
  have l: "key_len d' p = key_len d p" "val_len d' p = val_len d p"
    using h by (simp_all add: key_len_def val_len_def)
  show "cell_in d' p"
    using assms(1,2) by (simp add: cell_in_def l)
  have "slice d' (p + 8) (key_len d p) = slice d (p + 8) (key_len d p)"
    "slice d' (p + 8 + key_len d p) (val_len d p) = slice d (p + 8 + key_len d p) (val_len d p)"
    using assms(2,3) by (auto intro!: slice_cong)
  then show "cell_at d' p = cell_at d p"
    by (simp add: cell_at_def l h)
qed

text \<open>An encoded cell, wherever it was copied to, is read back.\<close>

lemma cell_at_put:
  assumes "cell_small c" and "p + cell_size c \<le> length d"
  shows "cell_in (put d p (EncodeCell c)) p" and "cell_at (put d p (EncodeCell c)) p = c"
proof -
  let ?e = "EncodeCell c" and ?d = "put d p (EncodeCell c)"
  have l: "length ?e = cell_size c" using assms(1) by (rule length_EncodeCell)
  then have fits: "p + length ?e \<le> length d" using assms(2) by simp
  have sl: "slice ?d (p + k) n = slice ?e k n" if "k + n \<le> cell_size c" for k n
    using slice_put_inside [OF fits, of k n] that l by simp
  have r16: "rd16 ?d (p + k) = rd16 ?e k" if "k + 2 \<le> cell_size c" for k
    using that fits l by (simp add: rd16_def nth_put)
  have r32: "rd32 ?d p = rd32 ?e 0"
    using fits l by (simp add: rd32_def nth_put cell_size_def numeral_2_eq_2)
  have e: "rd32 ?e 0 = LeftPtr c" "rd16 ?e 4 = of_nat (length (Key c))"
    "rd16 ?e 6 = of_nat (length (Value c))"
    using rd32_be32 [of "LeftPtr c"] rd16_be16 [of "of_nat (length (Key c))"]
      rd16_be16 [of "of_nat (length (Value c))"]
    by (simp_all add: EncodeCell_small [OF assms(1)] rd32_def rd16_def nth_append be32_def be16_def)
  have kv: "key_len ?d p = length (Key c)" "val_len ?d p = length (Value c)"
    using assms(1) e r16 [of 4] r16 [of 6]
    by (simp_all add: key_len_def val_len_def cell_size_def cell_small_def unat_len16)
  have k: "slice ?e 8 (length (Key c)) = Key c"
    "slice ?e (8 + length (Key c)) (length (Value c)) = Value c"
    by (simp_all add: EncodeCell_small [OF assms(1)] slice_def)
  have k': "slice ?d (p + 8) (length (Key c)) = Key c"
    "slice ?d (p + 8 + length (Key c)) (length (Value c)) = Value c"
    using sl [of 8 "length (Key c)"] sl [of "8 + length (Key c)" "length (Value c)"] k
    by (simp_all add: cell_size_def add.assoc)
  show "cell_in ?d p"
    using assms(2) fits by (simp add: cell_in_def kv cell_size_def)
  show "cell_at ?d p = c"
    using k' r32 e by (simp add: cell_at_def kv)
qed

lemma decode_encode_cell: "cell_small c \<Longrightarrow> DecodeCell (EncodeCell c @ r) 0 = Inr c"
  using cell_at_put [of c 0 "EncodeCell c @ r"] DecodeCell_in [of "EncodeCell c @ r" 0]
  by (simp add: length_EncodeCell put_def)

interpretation cell: codec EncodeCell "\<lambda>b. DecodeCell b 0" cell_small
  by unfold_locales (rule decode_encode_cell)

end
