(* ===== verification/Slotted.thy ===== *)
theory Slotted
  imports Cells
begin

text \<open>
  Operations on slotted pages (\<open>internal/storage/btree.go\<close>, the functions at the end
  of the file, with the C routines of \<open>ops.c\<close> they call): collecting, inserting,
  rewriting and removing cells and the binary search over the cell pointers. The lemmas
  relate each of them to the list of cells of the page.
\<close>

section \<open>The operations\<close>

definition collectCells :: "Page \<Rightarrow> Cell list res" where
  "collectCells pg =
     mapE (\<lambda>i. bindE (CellPointer pg (of_nat i)) (DecodeCell (Data pg)))
       [0..<unat (CellCount pg)]"

fun insertSorted_idx :: "Cell list \<Rightarrow> Cell \<Rightarrow> nat \<Rightarrow> nat" where
  "insertSorted_idx [] newCell i = i"
| "insertSorted_idx (c # cs) newCell i =
     (if cKeyCmp (Key newCell) (Key c) < 0 then i else insertSorted_idx cs newCell (Suc i))"

definition insertSorted :: "Cell list \<Rightarrow> Cell \<Rightarrow> Cell list" where
  "insertSorted cells newCell = insert_at (insertSorted_idx cells newCell 0) newCell cells"

definition clearPage :: "Page \<Rightarrow> Page" where
  "clearPage pg =
     (let t = Type pg; rp = RightmostPointer pg;
          pg = pg\<lparr>Data := cClearPage (Data pg)\<rparr>
      in (SetRightmostPointer rp (SetCellContentOffset (of_nat PageSize)
           (SetCellCount 0 (SetType t pg))))\<lparr>Dirty := True\<rparr>)"

definition insertCellIntoPage :: "Page \<Rightarrow> Cell \<Rightarrow> Page res" where
  "insertCellIntoPage pg c =
     (let count = CellCount pg;
          encoded = EncodeCell c;
          needed = (of_nat (length encoded) :: 16 word) + 2
      in if FreeSpace pg < needed then Inl ErrPageFull
         else let newOffset = CellContentOffset pg - of_nat (length encoded)
              in bindE (cCopyBytes (Data pg) (unat newOffset) encoded) (\<lambda>d.
                 bindE (SetCellPointer count newOffset
                          (SetCellContentOffset newOffset (pg\<lparr>Data := d\<rparr>))) (\<lambda>pg.
                 Inr ((SetCellCount (count + 1) pg)\<lparr>Dirty := True\<rparr>))))"

definition insertCellIntoPageAt :: "Page \<Rightarrow> Cell \<Rightarrow> 16 word \<Rightarrow> Page res" where
  "insertCellIntoPageAt pg c idx =
     (let count = CellCount pg;
          encoded = EncodeCell c;
          needed = (of_nat (length encoded) :: 16 word) + 2
      in if FreeSpace pg < needed then Inl ErrPageFull
         else let newOffset = CellContentOffset pg - of_nat (length encoded)
              in bindE (cCopyBytes (Data pg) (unat newOffset) encoded) (\<lambda>d.
                 bindE (InsertCellPointer idx newOffset
                          (SetCellContentOffset newOffset (pg\<lparr>Data := d\<rparr>))) (\<lambda>pg.
                 Inr ((SetCellCount (count + 1) pg)\<lparr>Dirty := True\<rparr>))))"

definition rewriteCell :: "Page \<Rightarrow> 16 word \<Rightarrow> Cell \<Rightarrow> Page res" where
  "rewriteCell pg idx c =
     (let encoded = EncodeCell c
      in bindE (CellPointer pg idx) (\<lambda>offset.
         if unat offset + length encoded > PageSize then Inl ErrRewrite
         else bindE (cCopyBytes (Data pg) (unat offset) encoded) (\<lambda>d.
              Inr (pg\<lparr>Data := d, Dirty := True\<rparr>))))"

definition removeCellAt :: "Page \<Rightarrow> 16 word \<Rightarrow> Page res" where
  "removeCellAt pg idx =
     (let count = CellCount pg
      in bindE (cShiftCellPointers (Data pg) PageHeaderSize idx (count - 1) (-1)) (\<lambda>d.
         Inr ((SetCellCount (count - 1) (pg\<lparr>Data := d\<rparr>))\<lparr>Dirty := True\<rparr>)))"

text \<open>
  \<open>sqlgo_page_binary_search\<close>. The loop keeps \<open>lo\<close> and \<open>hi\<close> as C ints; it
  reads the cell pointer, the key length and the key from the raw page, so an offset
  outside the page is a memory fault.
\<close>

definition search_cmp :: "byte list \<Rightarrow> 16 word \<Rightarrow> byte list \<Rightarrow> int \<Rightarrow> int res" where
  "search_cmp d header_size key mid =
     (let ptr_off = unat (header_size + of_int mid * 2)
      in if ptr_off + 2 > length d then Inl MemFault
         else let p = unat (rd16 d ptr_off)
              in if p + 6 > length d then Inl MemFault
                 else let klen = unat (rd16 d (p + 4));
                          minlen = (if length key < klen then length key else klen)
                      in if minlen \<noteq> 0 \<and> p + 8 + minlen > length d then Inl MemFault
                         else let cmp = (if minlen = 0 then 0
                                         else memcmp key (slice d (p + 8) minlen) minlen)
                              in Inr (if cmp = 0
                                      then if length key < klen then -1
                                           else if length key > klen then 1 else cmp
                                      else cmp))"

function binary_search_loop ::
    "byte list \<Rightarrow> 16 word \<Rightarrow> byte list \<Rightarrow> int \<Rightarrow> int \<Rightarrow> (int \<times> bool) res" where
  "binary_search_loop d header_size key lo hi =
     (if lo \<le> hi
      then let mid = (lo + hi) div 2
           in bindE (search_cmp d header_size key mid) (\<lambda>cmp.
                if cmp = 0 then Inr (mid, True)
                else if cmp < 0 then binary_search_loop d header_size key lo (mid - 1)
                else binary_search_loop d header_size key (mid + 1) hi)
      else Inr (lo, False))"
  by pat_completeness auto
termination
  by (relation "measure (\<lambda>(d, h, key, lo, hi). nat (hi - lo + 1))") auto

declare binary_search_loop.simps [simp del]

definition cPageBinarySearch ::
    "byte list \<Rightarrow> 16 word \<Rightarrow> 16 word \<Rightarrow> byte list \<Rightarrow> (int \<times> bool) res" where
  "cPageBinarySearch d cell_count header_size key =
     binary_search_loop d header_size key 0 (int (unat cell_count) - 1)"

section \<open>Well-formed pages and their cells\<close>

definition ncells :: "Page \<Rightarrow> nat" where
  "ncells p = unat (CellCount p)"

definition ptr :: "byte list \<Rightarrow> nat \<Rightarrow> nat" where
  "ptr d i = unat (rd16 d (9 + 2 * i))"

definition content :: "Page \<Rightarrow> nat" where
  "content p = unat (CellContentOffset p)"

definition wf_page :: "Page \<Rightarrow> bool" where
  "wf_page p \<longleftrightarrow> page_ok p \<and> 9 + 2 * ncells p \<le> content p \<and> content p \<le> PageSize \<and>
     (\<forall>i < ncells p. content p \<le> ptr (Data p) i \<and> cell_in (Data p) (ptr (Data p) i))"

definition page_cells :: "Page \<Rightarrow> Cell list" where
  "page_cells p = map (\<lambda>i. cell_at (Data p) (ptr (Data p) i)) [0..<ncells p]"

definition free_bytes :: "Page \<Rightarrow> nat" where
  "free_bytes p = content p - (9 + 2 * ncells p)"

lemma length_page_cells [simp]: "length (page_cells p) = ncells p"
  by (simp add: page_cells_def)

lemma wf_pageD:
  assumes "wf_page p"
  shows "page_ok p" "length (Data p) = 4096" "9 + 2 * ncells p \<le> content p" "content p \<le> 4096"
    "ncells p \<le> 2043"
    "i < ncells p \<Longrightarrow> content p \<le> ptr (Data p) i"
    "i < ncells p \<Longrightarrow> cell_in (Data p) (ptr (Data p) i)"
  using assms by (auto simp: wf_page_def page_ok_def PageSize_def)

lemma hdr_off: "9 + 2 * i < 65536 \<Longrightarrow> unat (PageHeaderSize + of_nat i * 2) = 9 + 2 * i"
  by (simp add: PageHeaderSize_def unat_word_ariths unat_of_nat mult.commute)

lemma hdr_off_word:
  assumes "9 + 2 * unat w < 65536"
  shows "unat (PageHeaderSize + w * 2) = 9 + 2 * unat w"
  using hdr_off [OF assms] by simp

lemma CellPointer_in:
  assumes "page_ok p" and "9 + 2 * unat i + 2 \<le> 4096"
  shows "CellPointer p i = Inr (rd16 (Data p) (9 + 2 * unat i))"
  using assms by (simp add: CellPointer_def Let_def hdr_off_word page_ok_def PageSize_def)

lemma SetCellPointer_in:
  assumes "page_ok p" and "9 + 2 * unat i + 2 \<le> 4096"
  shows "SetCellPointer i v p = Inr (p\<lparr>Data := put (Data p) (9 + 2 * unat i) (be16 v), Dirty := True\<rparr>)"
  using assms by (simp add: SetCellPointer_def Let_def hdr_off_word page_ok_def PageSize_def)

lemma wf_CellPointer:
  assumes "wf_page p" and "unat i < ncells p"
  shows "bindE (CellPointer p i) (DecodeCell (Data p)) = Inr (page_cells p ! unat i)"
proof -
  have "9 + 2 * unat i + 2 \<le> 4096"
    using assms(2) wf_pageD(5) [OF assms(1)] by simp
  then have "CellPointer p i = Inr (rd16 (Data p) (9 + 2 * unat i))"
    by (rule CellPointer_in [OF wf_pageD(1) [OF assms(1)]])
  then show ?thesis
    using wf_pageD(7) [OF assms] DecodeCell_in [of "Data p" "rd16 (Data p) (9 + 2 * unat i)"]
    by (simp add: page_cells_def ptr_def assms(2))
qed

lemma collectCells_wf:
  assumes "wf_page p"
  shows "collectCells p = Inr (page_cells p)"
proof -
  have "bindE (CellPointer p (of_nat i)) (DecodeCell (Data p)) = Inr (page_cells p ! i)"
    if "i < ncells p" for i
  proof -
    have "unat (of_nat i :: 16 word) = i"
      using that wf_pageD(5) [OF assms] by (simp add: unat_len16)
    then show ?thesis
      using wf_CellPointer [OF assms, of "of_nat i"] that by simp
  qed
  then have "collectCells p = Inr (map ((!) (page_cells p)) [0..<ncells p])"
    unfolding collectCells_def ncells_def [symmetric] by (intro mapE_map) simp
  then show ?thesis
    by (metis length_page_cells map_nth)
qed

lemma FreeSpace_wf:
  assumes "wf_page p"
  shows "unat (FreeSpace p) = free_bytes p"
proof -
  let ?c = "CellContentOffset p" and ?n = "CellCount p"
  have f: "FreeSpace p = (if ?c \<le> PageHeaderSize + ?n * 2 then 0 else ?c - (PageHeaderSize + ?n * 2))"
    by (simp add: FreeSpace_def cPageFreeSpace_def CellContentOffset_def Let_def)
  have s: "unat (PageHeaderSize + ?n * 2) = 9 + 2 * ncells p"
    using wf_pageD(5) [OF assms] by (simp add: hdr_off_word ncells_def)
  show ?thesis
    using s by (auto simp: f free_bytes_def content_def word_le_nat_alt unat_sub)
qed

section \<open>Pointer shifts\<close>

lemma shift_right_bytes:
  assumes "from \<le> i" and "9 + 2 * i + 2 \<le> length d" and "9 + 2 * i + 2 < 65536"
  shows "\<exists>d'. shift_right PageHeaderSize from i d = Inr d' \<and> length d' = length d \<and>
    (\<forall>j < length d. d' ! j = (if 9 + 2 * from + 2 \<le> j \<and> j < 9 + 2 * i + 2 then d ! (j - 2) else d ! j))"
  using assms
proof (induction i arbitrary: d)
  case 0
  then show ?case by auto
next
  case (Suc i)
  show ?case
  proof (cases "from = Suc i")
    case True
    then show ?thesis by auto
  next
    case False
    with Suc.prems(1) have le: "from \<le> i" by simp
    have o: "unat (PageHeaderSize + of_nat i * 2) = 9 + 2 * i"
      "unat (PageHeaderSize + of_nat (Suc i) * 2) = 9 + 2 * Suc i"
      using Suc.prems(3) hdr_off [of i] hdr_off [of "Suc i"] by auto
    let ?d = "put d (9 + 2 * Suc i) (slice d (9 + 2 * i) 2)"
    have l: "length ?d = length d" using Suc.prems(2) by simp
    have step: "shift_right PageHeaderSize from (Suc i) d = shift_right PageHeaderSize from i ?d"
      using le Suc.prems(2) by (simp only: shift_right.simps Let_def o) simp
    from Suc.IH [OF le, of ?d] l Suc.prems(2,3) obtain d' where
      d': "shift_right PageHeaderSize from i ?d = Inr d'" "length d' = length d"
      "\<And>j. j < length d \<Longrightarrow> d' ! j = (if 9 + 2 * from + 2 \<le> j \<and> j < 9 + 2 * i + 2 then ?d ! (j - 2) else ?d ! j)"
      by auto
    have "d' ! j = (if 9 + 2 * from + 2 \<le> j \<and> j < 9 + 2 * Suc i + 2 then d ! (j - 2) else d ! j)"
      if j: "j < length d" for j
    proof -
      have b: "?d ! k = (if 9 + 2 * Suc i \<le> k \<and> k < 9 + 2 * Suc i + 2 then d ! (k - 2) else d ! k)"
        if "k < length d" for k
        using that Suc.prems(2) by (auto simp: nth_put nth_slice)
      show ?thesis
        using d'(3) [OF j] b [of j] b [of "j - 2"] j le by auto
    qed
    with d' step show ?thesis by auto
  qed
qed

lemma shift_left_bytes:
  assumes "i \<le> to" and "9 + 2 * to + 2 \<le> length d" and "9 + 2 * to + 2 < 65536"
  shows "\<exists>d'. shift_left PageHeaderSize i to d = Inr d' \<and> length d' = length d \<and>
    (\<forall>j < length d. d' ! j = (if 9 + 2 * i \<le> j \<and> j < 9 + 2 * to then d ! (j + 2) else d ! j))"
  using assms
proof (induction "to - i" arbitrary: i d)
  case 0
  then show ?case by (auto simp: shift_left.simps)
next
  case (Suc m)
  then have lt: "i < to" by simp
  have o: "unat (PageHeaderSize + of_nat i * 2) = 9 + 2 * i"
    "unat (PageHeaderSize + of_nat (Suc i) * 2) = 9 + 2 * Suc i"
    using Suc.prems(3) lt hdr_off [of i] hdr_off [of "Suc i"] by auto
  let ?d = "put d (9 + 2 * i) (slice d (9 + 2 * Suc i) 2)"
  have l: "length ?d = length d" using Suc.prems(2) lt by simp
  have step: "shift_left PageHeaderSize i to d = shift_left PageHeaderSize (Suc i) to ?d"
    using lt Suc.prems(2) by (subst shift_left.simps) (simp only: Let_def o, simp)
  from Suc.hyps(2) have m: "m = to - Suc i" by simp
  from Suc.hyps(1) [OF m, of ?d] l lt Suc.prems(2,3) obtain d' where
    d': "shift_left PageHeaderSize (Suc i) to ?d = Inr d'" "length d' = length d"
    "\<And>j. j < length d \<Longrightarrow> d' ! j = (if 9 + 2 * Suc i \<le> j \<and> j < 9 + 2 * to then ?d ! (j + 2) else ?d ! j)"
    by auto
  have "d' ! j = (if 9 + 2 * i \<le> j \<and> j < 9 + 2 * to then d ! (j + 2) else d ! j)"
    if j: "j < length d" for j
  proof -
    have b: "?d ! k = (if 9 + 2 * i \<le> k \<and> k < 9 + 2 * i + 2 then d ! (k + 2) else d ! k)"
      if "k < length d" for k
      using that Suc.prems(2) lt by (auto simp: nth_put nth_slice)
    show ?thesis
      using d'(3) [OF j] b [of j] b [of "j + 2"] j lt Suc.prems(2) by auto
  qed
  with d' step show ?case by auto
qed

section \<open>Insertion\<close>

text \<open>The bytes of the page after \<open>c\<close> was inserted at pointer index \<open>i\<close>.\<close>

definition inserted_byte :: "Page \<Rightarrow> Cell \<Rightarrow> nat \<Rightarrow> nat \<Rightarrow> byte" where
  "inserted_byte p c i j =
     (let off = content p - cell_size c
      in if 1 \<le> j \<and> j < 3 then be16 (CellCount p + 1) ! (j - 1)
         else if 3 \<le> j \<and> j < 5 then be16 (of_nat off) ! (j - 3)
         else if 9 + 2 * i \<le> j \<and> j < 11 + 2 * i then be16 (of_nat off) ! (j - (9 + 2 * i))
         else if 11 + 2 * i \<le> j \<and> j < 11 + 2 * ncells p then Data p ! (j - 2)
         else if off \<le> j \<and> j < content p then EncodeCell c ! (j - off)
         else Data p ! j)"

lemma insert_offset:
  assumes "wf_page p" and "cell_small c" and "cell_size c + 2 \<le> free_bytes p"
  shows "CellContentOffset p - of_nat (length (EncodeCell c)) = of_nat (content p - cell_size c)"
    and "unat (of_nat (content p - cell_size c) :: 16 word) = content p - cell_size c"
proof -
  have le: "cell_size c \<le> content p"
    using assms(3) by (simp add: free_bytes_def)
  have "(of_nat (content p) :: 16 word) = CellContentOffset p"
    by (simp add: content_def)
  then show "CellContentOffset p - of_nat (length (EncodeCell c)) = of_nat (content p - cell_size c)"
    using le by (simp add: length_EncodeCell [OF assms(2)] of_nat_diff)
  show "unat (of_nat (content p - cell_size c) :: 16 word) = content p - cell_size c"
    using wf_pageD(4) [OF assms(1)] by (simp add: unat_len16)
qed

lemma insert_guard:
  assumes "wf_page p" and "cell_small c"
  shows "FreeSpace p < of_nat (length (EncodeCell c)) + 2 \<longleftrightarrow> free_bytes p < cell_size c + 2"
proof -
  have "unat (of_nat (length (EncodeCell c)) + 2 :: 16 word) = cell_size c + 2"
    using assms(2)
    by (simp add: length_EncodeCell unat_word_ariths unat_of_nat cell_size_def cell_small_def)
  then show ?thesis
    by (simp add: word_less_nat_alt FreeSpace_wf [OF assms(1)])
qed

lemma insert_full:
  assumes "wf_page p" and "cell_small c" and "free_bytes p < cell_size c + 2"
  shows "insertCellIntoPageAt p c idx = Inl ErrPageFull" and "insertCellIntoPage p c = Inl ErrPageFull"
  using assms insert_guard [OF assms(1,2)]
  by (simp_all add: insertCellIntoPageAt_def insertCellIntoPage_def Let_def)

lemma insert_bytes:
  assumes wf: "wf_page p" and small: "cell_small c" and idx: "unat idx \<le> ncells p"
    and fits: "cell_size c + 2 \<le> free_bytes p"
  shows "\<exists>d. insertCellIntoPageAt p c idx = Inr (p\<lparr>Data := d, Dirty := True\<rparr>) \<and> length d = 4096 \<and>
    (\<forall>j < 4096. d ! j = inserted_byte p c (unat idx) j)"
proof -
  let ?off = "content p - cell_size c" and ?i = "unat idx" and ?n = "ncells p"
  let ?w = "of_nat ?off :: 16 word"
  note W = wf_pageD(1-5) [OF wf]
  have len: "length (EncodeCell c) = cell_size c" by (rule length_EncodeCell [OF small])
  have off: "unat ?w = ?off" by (rule insert_offset(2) [OF wf small fits])
  have room: "11 + 2 * ?n \<le> ?off" "?off + cell_size c = content p"
    using fits W(3) by (auto simp: free_bytes_def)
  then have idx_room: "11 + 2 * ?n \<le> 4096" using W(4) by simp
  let ?d1 = "put (Data p) ?off (EncodeCell c)"
  have copy: "cCopyBytes (Data p) ?off (EncodeCell c) = Inr ?d1"
    using room(2) W(2,4) len by (intro cCopyBytes_fits) simp
  have l1: "length ?d1 = 4096" using room(2) W(2,4) len by simp
  let ?p1 = "SetCellContentOffset ?w (p\<lparr>Data := ?d1\<rparr>)"
  let ?d2 = "put ?d1 3 (be16 ?w)"
  have p1: "?p1 = p\<lparr>Data := ?d2, Dirty := True\<rparr>" by (simp add: SetCellContentOffset_def)
  have ok1: "page_ok ?p1" using l1 by (simp add: p1 page_ok_def PageSize_def)
  have l2: "length ?d2 = 4096" using l1 by simp
  have cc: "CellCount ?p1 = CellCount p"
    using room l1 W(2,4) len unfolding p1 CellCount_def by (simp add: rd16_put_other)
  have shift: "\<exists>d3. (if CellCount p > idx
      then bindE (cShiftCellPointers (Data ?p1) PageHeaderSize idx (CellCount p) 1) (\<lambda>d. Inr (?p1\<lparr>Data := d\<rparr>))
      else Inr ?p1) = Inr (p\<lparr>Data := d3, Dirty := True\<rparr>) \<and> length d3 = 4096 \<and>
      (\<forall>j < 4096. d3 ! j = (if 9 + 2 * ?i + 2 \<le> j \<and> j < 9 + 2 * ?n + 2 then ?d2 ! (j - 2) else ?d2 ! j))"
  proof (cases "CellCount p > idx")
    case True
    have "\<exists>d3. shift_right PageHeaderSize ?i ?n ?d2 = Inr d3 \<and> length d3 = length ?d2 \<and>
      (\<forall>j < length ?d2. d3 ! j = (if 9 + 2 * ?i + 2 \<le> j \<and> j < 9 + 2 * ?n + 2 then ?d2 ! (j - 2) else ?d2 ! j))"
      using idx idx_room l2 by (intro shift_right_bytes) auto
    then obtain d3 where "shift_right PageHeaderSize ?i ?n ?d2 = Inr d3" "length d3 = 4096"
      "\<forall>j < 4096. d3 ! j = (if 9 + 2 * ?i + 2 \<le> j \<and> j < 9 + 2 * ?n + 2 then ?d2 ! (j - 2) else ?d2 ! j)"
      using l2 by auto
    moreover have "p\<lparr>Dirty := True, Data := d3\<rparr> = p\<lparr>Data := d3, Dirty := True\<rparr>" by simp
    ultimately show ?thesis
      using True unfolding p1 cShiftCellPointers_def ncells_def by (intro exI [of _ d3]) simp
  next
    case False
    then have "?i = ?n" using idx by (simp add: ncells_def word_less_nat_alt)
    with False l2 show ?thesis by (auto simp: p1)
  qed
  then obtain d3 where d3: "(if CellCount p > idx
      then bindE (cShiftCellPointers (Data ?p1) PageHeaderSize idx (CellCount p) 1) (\<lambda>d. Inr (?p1\<lparr>Data := d\<rparr>))
      else Inr ?p1) = Inr (p\<lparr>Data := d3, Dirty := True\<rparr>)" "length d3 = 4096"
    "\<And>j. j < 4096 \<Longrightarrow> d3 ! j = (if 9 + 2 * ?i + 2 \<le> j \<and> j < 9 + 2 * ?n + 2 then ?d2 ! (j - 2) else ?d2 ! j)"
    by blast
  let ?d4 = "put d3 (9 + 2 * ?i) (be16 ?w)" and ?k = "CellCount p + 1"
  have ins: "InsertCellPointer idx ?w ?p1 = Inr (p\<lparr>Data := ?d4, Dirty := True\<rparr>)"
    using d3(1,2) idx idx_room
    by (simp add: InsertCellPointer_def Let_def cc SetCellPointer_in page_ok_def PageSize_def)
  let ?d5 = "put ?d4 1 (be16 ?k)"
  have res: "insertCellIntoPageAt p c idx = Inr (p\<lparr>Data := ?d5, Dirty := True\<rparr>)"
    using fits copy ins insert_guard [OF wf small] insert_offset(1) [OF wf small fits] off
    by (simp add: insertCellIntoPageAt_def Let_def SetCellCount_def)
  have b: "?d5 ! j = inserted_byte p c ?i j" if j: "j < 4096" for j
  proof -
    have l4: "length ?d4 = 4096" using d3(2) idx idx_room by simp
    have e1: "?d1 ! k = (if ?off \<le> k \<and> k < content p then EncodeCell c ! (k - ?off) else Data p ! k)"
      if "k < 4096" for k
      using that room(2) W(2,4) len by (simp add: nth_put)
    have e2: "?d2 ! k = (if 3 \<le> k \<and> k < 5 then be16 ?w ! (k - 3) else ?d1 ! k)" if "k < 4096" for k
      using that l1 by (simp add: nth_put)
    have e4: "?d4 ! k = (if 9 + 2 * ?i \<le> k \<and> k < 11 + 2 * ?i then be16 ?w ! (k - (9 + 2 * ?i)) else d3 ! k)"
      if "k < 4096" for k
      using that d3(2) idx idx_room by (simp add: nth_put)
    have e5: "?d5 ! k = (if 1 \<le> k \<and> k < 3 then be16 ?k ! (k - 1) else ?d4 ! k)" if "k < 4096" for k
      using that l4 by (simp add: nth_put)
    show ?thesis
      using e1 [OF j] e1 [of "j - 2"] e2 [OF j] e2 [of "j - 2"] d3(3) [OF j] e4 [OF j] e5 [OF j] j room idx
      unfolding inserted_byte_def Let_def by (simp split del: if_split) auto
  qed
  have "length ?d5 = 4096" using d3(2) idx idx_room by simp
  with res b show ?thesis by blast
qed

text \<open>The result of an insertion that fits, and what its header, pointers and cells are.\<close>

definition inserted :: "Page \<Rightarrow> Cell \<Rightarrow> nat \<Rightarrow> byte list \<Rightarrow> bool" where
  "inserted p c i d \<longleftrightarrow> wf_page p \<and> cell_small c \<and> i \<le> ncells p \<and>
     cell_size c + 2 \<le> free_bytes p \<and> length d = 4096 \<and>
     (\<forall>j < 4096. d ! j = inserted_byte p c i j)"

lemma insertedD:
  assumes "inserted p c i d"
  shows "wf_page p" "cell_small c" "i \<le> ncells p" "length d = 4096"
    "11 + 2 * ncells p \<le> content p - cell_size c"
    "content p - cell_size c + cell_size c = content p" "content p \<le> 4096"
    "cell_size c + 2 \<le> free_bytes p"
    "j < 4096 \<Longrightarrow> d ! j = inserted_byte p c i j"
  using assms wf_pageD(3,4) [of p] by (auto simp: inserted_def free_bytes_def)

lemma inserted_header:
  assumes "inserted p c i d"
  shows "ncells (p\<lparr>Data := d, Dirty := True\<rparr>) = Suc (ncells p)"
    and "content (p\<lparr>Data := d, Dirty := True\<rparr>) = content p - cell_size c"
    and "Type (p\<lparr>Data := d, Dirty := True\<rparr>) = Type p"
    and "RightmostPointer (p\<lparr>Data := d, Dirty := True\<rparr>) = RightmostPointer p"
proof -
  note D = insertedD [OF assms]
  let ?off = "content p - cell_size c"
  have "rd16 d 1 = rd16 (be16 (CellCount p + 1)) 0"
    using D(9) [of 1] D(9) [of 2] by (simp add: rd16_def inserted_byte_def numeral_2_eq_2)
  then show "ncells (p\<lparr>Data := d, Dirty := True\<rparr>) = Suc (ncells p)"
    using wf_pageD(5) [OF D(1)] by (simp add: ncells_def CellCount_def rd16_be16 unat_word_ariths)
  have "rd16 d 3 = rd16 (be16 (of_nat ?off)) 0"
    using D(9) [of 3] D(9) [of 4] by (simp add: rd16_def inserted_byte_def del: of_nat_diff)
  then have r3: "rd16 d 3 = of_nat ?off" by (simp only: rd16_be16)
  have o: "unat (of_nat ?off :: 16 word) = ?off" using D(7) by (simp add: unat_len16 del: of_nat_diff)
  with D(5) have "(of_nat ?off :: 16 word) \<noteq> 0"
    by (metis add_is_0 le_zero_eq unat_0 zero_neq_numeral)
  with r3 o show "content (p\<lparr>Data := d, Dirty := True\<rparr>) = ?off"
    by (simp add: content_def CellContentOffset_def Let_def)
  show "Type (p\<lparr>Data := d, Dirty := True\<rparr>) = Type p"
    using D(5) D(9) [of 0] by (auto simp: Type_def inserted_byte_def Let_def)
  show "RightmostPointer (p\<lparr>Data := d, Dirty := True\<rparr>) = RightmostPointer p"
    using D(5,9) by (simp add: RightmostPointer_def rd32_def inserted_byte_def)
qed

lemma inserted_ptr:
  assumes "inserted p c i d" and "k \<le> ncells p"
  shows "ptr d k = (if k < i then ptr (Data p) k
    else if k = i then content p - cell_size c else ptr (Data p) (k - 1))"
proof -
  note D = insertedD [OF assms(1)]
  have b: "d ! (9 + 2 * k) = inserted_byte p c i (9 + 2 * k)"
    "d ! Suc (9 + 2 * k) = inserted_byte p c i (Suc (9 + 2 * k))"
    using D(5,7) assms(2) by (simp_all add: D(9))
  have w: "unat (of_nat (content p - cell_size c) :: 16 word) = content p - cell_size c"
    using D(7) by (simp add: unat_len16 del: of_nat_diff)
  consider "k = i" | "k < i" | k' where "k = Suc k'" "i < k" by (cases k) force+
  then show ?thesis
  proof cases
    case 1
    with b have "rd16 d (9 + 2 * k) = rd16 (be16 (of_nat (content p - cell_size c))) 0"
      by (simp add: rd16_def inserted_byte_def)
    with 1 w show ?thesis by (simp add: ptr_def rd16_be16 del: of_nat_diff)
  next
    case 2
    with b assms(2) D have "rd16 d (9 + 2 * k) = rd16 (Data p) (9 + 2 * k)"
      by (simp add: rd16_def inserted_byte_def)
    with 2 show ?thesis by (simp add: ptr_def)
  next
    case 3
    with b assms(2) D have "rd16 d (9 + 2 * k) = rd16 (Data p) (9 + 2 * k')"
      by (simp add: rd16_def inserted_byte_def)
    with 3 show ?thesis by (simp add: ptr_def)
  qed
qed

lemma inserted_old_cell:
  assumes "inserted p c i d" and "k < ncells p"
  shows "cell_in d (ptr (Data p) k)"
    and "cell_at d (ptr (Data p) k) = cell_at (Data p) (ptr (Data p) k)"
proof -
  note D = insertedD [OF assms(1)]
  have q: "cell_in (Data p) (ptr (Data p) k)" "content p \<le> ptr (Data p) k"
    and l: "length (Data p) = 4096"
    using assms(2) wf_pageD [OF D(1)] by auto
  have "d ! j = Data p ! j"
    if "ptr (Data p) k \<le> j" "j < ptr (Data p) k + 8 + key_len (Data p) (ptr (Data p) k) + val_len (Data p) (ptr (Data p) k)" for j
  proof -
    have "j < 4096" using that q(1) l by (simp add: cell_in_def)
    moreover have "content p \<le> j" "11 + 2 * ncells p \<le> j" using that q(2) D(5,6) by auto
    ultimately show ?thesis using D(3) by (simp add: D(9) inserted_byte_def Let_def)
  qed
  with q(1) l D(4) show "cell_in d (ptr (Data p) k)"
    "cell_at d (ptr (Data p) k) = cell_at (Data p) (ptr (Data p) k)"
    using cell_frame [of "Data p" _ d] by auto
qed

lemma inserted_new_cell:
  assumes "inserted p c i d"
  shows "cell_in d (content p - cell_size c)" and "cell_at d (content p - cell_size c) = c"
proof -
  note D = insertedD [OF assms]
  let ?off = "content p - cell_size c" and ?d1 = "put (Data p) (content p - cell_size c) (EncodeCell c)"
  have f: "?off + cell_size c \<le> length (Data p)"
    using D(6,7) wf_pageD(2) [OF D(1)] by simp
  have l: "length (EncodeCell c) = cell_size c" by (rule length_EncodeCell [OF D(2)])
  note put = cell_at_put [OF D(2) f]
  have k: "key_len ?d1 ?off = length (Key c)" "val_len ?d1 ?off = length (Value c)"
    using put cell_at_lengths [of ?d1 ?off] by auto
  have "d ! j = ?d1 ! j" if "?off \<le> j" "j < ?off + 8 + key_len ?d1 ?off + val_len ?d1 ?off" for j
    using that k D wf_pageD(2) [OF D(1)] l by (simp add: inserted_byte_def nth_put cell_size_def)
  moreover have "length d = length ?d1" using D(4) wf_pageD(2) [OF D(1)] f l by simp
  ultimately show "cell_in d ?off" "cell_at d ?off = c"
    using put cell_frame [of ?d1 ?off d] by auto
qed

lemma inserted_wf:
  assumes "inserted p c i d"
  shows "wf_page (p\<lparr>Data := d, Dirty := True\<rparr>)"
  unfolding wf_page_def
proof (intro conjI allI impI)
  note D = insertedD [OF assms] and H = inserted_header [OF assms]
  let ?p = "p\<lparr>Data := d, Dirty := True\<rparr>"
  show "page_ok ?p" "9 + 2 * ncells ?p \<le> content ?p" "content ?p \<le> PageSize"
    using D(4,5,7) by (auto simp: page_ok_def PageSize_def H)
  fix k assume "k < ncells ?p"
  then have k: "k \<le> ncells p" by (simp add: H)
  then have k1: "\<not> k < i \<Longrightarrow> k \<noteq> i \<Longrightarrow> k - 1 < ncells p" by arith
  show "content ?p \<le> ptr (Data ?p) k"
    using k k1 wf_pageD(6) [OF D(1), of k] wf_pageD(6) [OF D(1), of "k - 1"] D(3)
      inserted_ptr [OF assms k]
    by (cases "k < i"; cases "k = i") (simp_all add: H)
  show "cell_in (Data ?p) (ptr (Data ?p) k)"
    using k k1 inserted_old_cell(1) [OF assms, of k] inserted_old_cell(1) [OF assms, of "k - 1"]
      inserted_new_cell(1) [OF assms] inserted_ptr [OF assms k] D(3)
    by (cases "k < i"; cases "k = i") simp_all
qed

lemma inserted_cells:
  assumes "inserted p c i d"
  shows "page_cells (p\<lparr>Data := d, Dirty := True\<rparr>) = insert_at i c (page_cells p)"
proof (rule nth_equalityI)
  note D = insertedD [OF assms] and H = inserted_header [OF assms]
  let ?p = "p\<lparr>Data := d, Dirty := True\<rparr>"
  show "length (page_cells ?p) = length (insert_at i c (page_cells p))"
    using D(3) by (simp add: H)
  fix k assume "k < length (page_cells ?p)"
  then have k: "k \<le> ncells p" by (simp add: H)
  then have k1: "\<not> k < i \<Longrightarrow> k \<noteq> i \<Longrightarrow> k - 1 < ncells p" by arith
  from k have "page_cells ?p ! k = cell_at d (ptr d k)"
    by (simp add: page_cells_def H del: upt_Suc)
  also have "\<dots> = insert_at i c (page_cells p) ! k"
    using k k1 inserted_old_cell(2) [OF assms, of k] inserted_old_cell(2) [OF assms, of "k - 1"]
      inserted_new_cell(2) [OF assms] inserted_ptr [OF assms k] D(3)
    by (cases "k < i"; cases "k = i") (simp_all add: nth_insert_at page_cells_def)
  finally show "page_cells ?p ! k = insert_at i c (page_cells p) ! k" .
qed

text \<open>What \<open>insertCellIntoPageAt\<close> does to the list of cells.\<close>

lemma insert_refine:
  assumes "wf_page p" and "cell_small c" and "unat idx \<le> ncells p"
    and "cell_size c + 2 \<le> free_bytes p"
  obtains d where "insertCellIntoPageAt p c idx = Inr (p\<lparr>Data := d, Dirty := True\<rparr>)"
    and "wf_page (p\<lparr>Data := d, Dirty := True\<rparr>)"
    and "page_cells (p\<lparr>Data := d, Dirty := True\<rparr>) = insert_at (unat idx) c (page_cells p)"
    and "free_bytes (p\<lparr>Data := d, Dirty := True\<rparr>) = free_bytes p - (cell_size c + 2)"
    and "Type (p\<lparr>Data := d, Dirty := True\<rparr>) = Type p"
    and "RightmostPointer (p\<lparr>Data := d, Dirty := True\<rparr>) = RightmostPointer p"
proof -
  obtain d where d: "insertCellIntoPageAt p c idx = Inr (p\<lparr>Data := d, Dirty := True\<rparr>)"
    "inserted p c (unat idx) d"
    using insert_bytes [OF assms] assms by (auto simp: inserted_def)
  then have "free_bytes (p\<lparr>Data := d, Dirty := True\<rparr>) = free_bytes p - (cell_size c + 2)"
    by (simp add: free_bytes_def inserted_header)
  with d show ?thesis
    by (intro that [OF d(1)]) (simp_all add: inserted_wf inserted_cells inserted_header)
qed

text \<open>Appending is insertion after the last pointer.\<close>

lemma insertCellIntoPage_wf:
  assumes wf: "wf_page p" and small: "cell_small c"
  shows "insertCellIntoPage p c = insertCellIntoPageAt p c (CellCount p)"
proof (cases "free_bytes p < cell_size c + 2")
  case True
  with insert_full [OF assms] show ?thesis by simp
next
  case False
  let ?w = "of_nat (content p - cell_size c) :: 16 word"
  let ?d = "put (Data p) (content p - cell_size c) (EncodeCell c)"
  note W = wf_pageD(1-5) [OF wf]
  have off: "unat ?w = content p - cell_size c"
    using False by (intro insert_offset(2) [OF wf small]) simp
  have len: "length (EncodeCell c) = cell_size c" by (rule length_EncodeCell [OF small])
  have room: "11 + 2 * ncells p \<le> content p - cell_size c" "content p - cell_size c + cell_size c = content p"
    using False W(3) by (auto simp: free_bytes_def)
  have copy: "cCopyBytes (Data p) (content p - cell_size c) (EncodeCell c) = Inr ?d"
    using room W(2,4) len by (intro cCopyBytes_fits) simp
  have "CellCount (SetCellContentOffset ?w (p\<lparr>Data := ?d\<rparr>)) = CellCount p"
    using room W(2,4) len unfolding SetCellContentOffset_def CellCount_def by (simp add: rd16_put_other)
  then have "InsertCellPointer (CellCount p) ?w (SetCellContentOffset ?w (p\<lparr>Data := ?d\<rparr>)) =
    SetCellPointer (CellCount p) ?w (SetCellContentOffset ?w (p\<lparr>Data := ?d\<rparr>))"
    by (simp add: InsertCellPointer_def)
  with False copy off insert_offset(1) [OF wf small] insert_guard [OF wf small] show ?thesis
    by (simp add: insertCellIntoPage_def insertCellIntoPageAt_def Let_def del: of_nat_diff)
qed

end
