(* ===== verification/KeyList.thy ===== *)
theory KeyList
  imports Prelude
begin

text \<open>
  Association lists in strictly ascending key order: the abstract contents of a page, a
  subtree or a table. Insertion at the lower bound of a key, update in place and removal are
  the updates of the finite map the list stands for.
\<close>

definition keys_sorted :: "('k::linorder \<times> 'v) list \<Rightarrow> bool" where
  "keys_sorted xs \<longleftrightarrow> sorted_wrt (<) (map fst xs)"

text \<open>\<open>i\<close> is the position of a key that is not in the list.\<close>

definition lower_bound :: "('k::linorder \<times> 'v) list \<Rightarrow> 'k \<Rightarrow> nat \<Rightarrow> bool" where
  "lower_bound xs k i \<longleftrightarrow> i \<le> length xs \<and> (\<forall>j < i. fst (xs ! j) < k) \<and>
     (\<forall>j < length xs. i \<le> j \<longrightarrow> k < fst (xs ! j))"

lemma keys_sorted_nth:
  "keys_sorted xs \<longleftrightarrow> (\<forall>i j. i < j \<longrightarrow> j < length xs \<longrightarrow> fst (xs ! i) < fst (xs ! j))"
  by (auto simp: keys_sorted_def sorted_wrt_iff_nth_less)

lemma keys_sorted_distinct: "keys_sorted xs \<Longrightarrow> distinct (map fst xs)"
  by (simp add: keys_sorted_def strict_sorted_iff)

lemma keys_sorted_append:
  "keys_sorted (xs @ ys) \<longleftrightarrow> keys_sorted xs \<and> keys_sorted ys \<and>
    (\<forall>x \<in> set xs. \<forall>y \<in> set ys. fst x < fst y)"
  by (auto simp: keys_sorted_def sorted_wrt_append)

lemma keys_sorted_Nil [simp]: "keys_sorted []"
  by (simp add: keys_sorted_def)

lemma keys_sorted_Cons: "keys_sorted (x # xs) \<longleftrightarrow> keys_sorted xs \<and> (\<forall>y \<in> set xs. fst x < fst y)"
  by (auto simp: keys_sorted_def)

lemma set_takeE: "x \<in> set (take i xs) \<Longrightarrow> \<exists>j < length xs. j < i \<and> xs ! j = x"
  by (force simp: in_set_conv_nth)

lemma set_dropE: "x \<in> set (drop i xs) \<Longrightarrow> \<exists>j < length xs. i \<le> j \<and> xs ! j = x"
proof -
  assume "x \<in> set (drop i xs)"
  then obtain j where "j < length xs - i" "drop i xs ! j = x" by (auto simp: in_set_conv_nth)
  then show ?thesis by (intro exI [of _ "i + j"]) auto
qed

lemma lower_bound_split:
  assumes "lower_bound xs k i"
  shows "\<And>x. x \<in> set (take i xs) \<Longrightarrow> fst x < k" and "\<And>x. x \<in> set (drop i xs) \<Longrightarrow> k < fst x"
  using assms by (auto simp: lower_bound_def dest!: set_takeE set_dropE)

lemma lower_bound_not_in:
  assumes "lower_bound xs k i"
  shows "map_of xs k = None"
proof -
  have "k \<notin> fst ` set xs"
  proof
    assume "k \<in> fst ` set xs"
    then obtain j where "j < length xs" "fst (xs ! j) = k" by (auto simp: in_set_conv_nth)
    with assms show False by (cases "j < i") (auto simp: lower_bound_def)
  qed
  then show ?thesis by (simp add: map_of_eq_None_iff)
qed

lemma keys_sorted_insert_at:
  assumes "keys_sorted xs" and "lower_bound xs k i"
  shows "keys_sorted (insert_at i (k, v) xs)"
proof -
  have "keys_sorted (take i xs @ drop i xs)" using assms(1) by simp
  then have "keys_sorted (take i xs)" "keys_sorted (drop i xs)"
    "\<And>x y. x \<in> set (take i xs) \<Longrightarrow> y \<in> set (drop i xs) \<Longrightarrow> fst x < fst y"
    unfolding keys_sorted_append by blast+
  with lower_bound_split [OF assms(2)] show ?thesis
    by (auto simp: insert_at_def keys_sorted_append keys_sorted_Cons)
qed

lemma map_of_append_disjoint:
  "map_of xs k = None \<Longrightarrow> map_of (xs @ (k, v) # ys) = (map_of (xs @ ys))(k \<mapsto> v)"
  by (induction xs) (auto split: if_splits)

lemma map_of_insert_at:
  assumes "lower_bound xs k i"
  shows "map_of (insert_at i (k, v) xs) = (map_of xs)(k \<mapsto> v)"
proof -
  have "k \<notin> fst ` set (take i xs)"
    using lower_bound_split(1) [OF assms] by force
  then have "map_of (take i xs) k = None" by (simp add: map_of_eq_None_iff)
  from map_of_append_disjoint [OF this, of v "drop i xs"] show ?thesis
    by (simp add: insert_at_def)
qed

lemma split_at: "i < length xs \<Longrightarrow> xs = take i xs @ xs ! i # drop (Suc i) xs"
  by (simp add: Cons_nth_drop_Suc)

lemma keys_sorted_update:
  "keys_sorted xs \<Longrightarrow> i < length xs \<Longrightarrow> fst (xs ! i) = k \<Longrightarrow> keys_sorted (xs[i := (k, v)])"
  by (auto simp: keys_sorted_nth nth_list_update)

lemma map_of_sorted_nth:
  assumes "keys_sorted xs" and "i < length xs"
  shows "map_of xs (fst (xs ! i)) = Some (snd (xs ! i))"
  using assms keys_sorted_distinct by (intro map_of_is_SomeI) auto

lemma sorted_key_outside:
  assumes "keys_sorted xs" and "i < length xs" and "fst (xs ! i) = k"
  shows "map_of (take i xs) k = None" and "map_of (drop (Suc i) xs) k = None"
proof -
  have "fst (xs ! j) \<noteq> k" if "j < length xs" "j \<noteq> i" for j
    using assms that by (metis keys_sorted_nth linorder_neqE_nat order_less_irrefl)
  then have "fst x \<noteq> k" if "x \<in> set (take i xs) \<or> x \<in> set (drop (Suc i) xs)" for x
    using that set_takeE [of x i xs] set_dropE [of x "Suc i" xs]
    by (metis not_less_eq_eq order_less_irrefl order_refl)
  then have "k \<notin> fst ` set (take i xs)" "k \<notin> fst ` set (drop (Suc i) xs)"
    by blast+
  then show "map_of (take i xs) k = None" "map_of (drop (Suc i) xs) k = None"
    by (simp_all add: map_of_eq_None_iff)
qed

lemma map_of_update_at:
  assumes "keys_sorted xs" and "i < length xs" and "fst (xs ! i) = k"
  shows "map_of (xs[i := (k, v)]) = (map_of xs)(k \<mapsto> v)"
proof -
  have u: "xs[i := (k, v)] = take i xs @ (k, v) # drop (Suc i) xs"
    using assms(2) by (rule upd_conv_take_nth_drop)
  have x: "xs = take i xs @ (k, snd (xs ! i)) # drop (Suc i) xs"
    using split_at [OF assms(2)] assms(3) by (metis prod.collapse)
  have n: "map_of (take i xs) k = None" by (rule sorted_key_outside(1) [OF assms])
  have "map_of xs = (map_of (take i xs @ drop (Suc i) xs))(k \<mapsto> snd (xs ! i))"
    by (subst x) (rule map_of_append_disjoint [OF n])
  then show ?thesis
    unfolding u by (simp only: map_of_append_disjoint [OF n] fun_upd_upd)
qed

lemma map_of_remove_at:
  assumes "keys_sorted xs" and "i < length xs" and "fst (xs ! i) = k"
  shows "map_of (remove_at i xs) = (map_of xs)(k := None)"
proof -
  have x: "xs = take i xs @ (k, snd (xs ! i)) # drop (Suc i) xs"
    using split_at [OF assms(2)] assms(3) by (metis prod.collapse)
  note n = sorted_key_outside [OF assms]
  have m: "map_of xs = (map_of (remove_at i xs))(k \<mapsto> snd (xs ! i))"
    unfolding remove_at_def by (subst x) (rule map_of_append_disjoint [OF n(1)])
  have "map_of (remove_at i xs) k = None"
    using n by (simp add: remove_at_def map_add_def)
  then show ?thesis by (simp add: m fun_upd_idem)
qed

lemma keys_sorted_remove_at:
  assumes "keys_sorted xs" and "i < length xs"
  shows "keys_sorted (remove_at i xs)"
proof -
  have "keys_sorted (take i xs @ xs ! i # drop (Suc i) xs)"
    using assms split_at by metis
  then show ?thesis
    by (auto simp: remove_at_def keys_sorted_append keys_sorted_Cons)
qed

lemma map_of_inject:
  assumes "map fst xs = map fst ys" and "distinct (map fst xs)" and "map_of xs = map_of ys"
  shows "xs = ys"
proof -
  have l: "length xs = length ys" using assms(1) by (metis length_map)
  show ?thesis
  proof (rule nth_equalityI [OF l])
    fix i assume i: "i < length xs"
    have k: "fst (xs ! i) = fst (ys ! i)" using assms(1) i l by (metis nth_map)
    have "map_of xs (fst (xs ! i)) = Some (snd (xs ! i))"
      using assms(2) i by (intro map_of_is_SomeI) auto
    moreover have "map_of ys (fst (ys ! i)) = Some (snd (ys ! i))"
      using assms(1,2) i l by (intro map_of_is_SomeI) auto
    ultimately show "xs ! i = ys ! i"
      using assms(3) k by (simp add: prod_eq_iff)
  qed
qed

lemma keys_sorted_unique:
  assumes "keys_sorted xs" and "keys_sorted ys" and m: "map_of xs = map_of ys"
  shows "xs = ys"
proof -
  have "set (map fst xs) = set (map fst ys)"
    using arg_cong [OF m, of dom] by (simp add: dom_map_of_conv_image_fst)
  then have "map fst xs = map fst ys"
    using assms(1,2) by (intro strict_sorted_equal) (simp_all add: keys_sorted_def)
  then show ?thesis
    using keys_sorted_distinct [OF assms(1)] m by (intro map_of_inject)
qed

lemma map_of_keys_sorted_append:
  assumes "keys_sorted (xs @ ys)"
  shows "map_of (xs @ ys) = map_of xs ++ map_of ys"
proof
  fix k
  have "distinct (map fst xs @ map fst ys)"
    using keys_sorted_distinct [OF assms] by simp
  then have "map_of xs k = None \<or> map_of ys k = None"
    by (auto simp: map_of_eq_None_iff)
  then show "map_of (xs @ ys) k = (map_of xs ++ map_of ys) k"
    by (auto simp: map_add_def split: option.splits)
qed

section \<open>The ordered map contract\<close>

text \<open>
  What a client of an ordered page or of a tree relies on: the contents are an ascending
  association list and the three operations act on the map it stands for, as long as they
  succeed. \<open>fits\<close> is the provider's condition under which storing a key succeeds.
\<close>

locale ordered_store =
  fixes items :: "'s \<Rightarrow> ('k::linorder \<times> 'v) list"
    and inv :: "'s \<Rightarrow> bool"
    and fits :: "'s \<Rightarrow> 'k \<Rightarrow> 'v \<Rightarrow> bool"
    and lookup :: "'s \<Rightarrow> 'k \<Rightarrow> 'v option"
    and store :: "'s \<Rightarrow> 'k \<Rightarrow> 'v \<Rightarrow> 's"
    and delete :: "'s \<Rightarrow> 'k \<Rightarrow> 's"
  assumes inv_sorted: "inv s \<Longrightarrow> keys_sorted (items s)"
    and lookup_items: "inv s \<Longrightarrow> lookup s k = map_of (items s) k"
    and store_inv: "inv s \<Longrightarrow> fits s k v \<Longrightarrow> inv (store s k v)"
    and store_items: "inv s \<Longrightarrow> fits s k v \<Longrightarrow> map_of (items (store s k v)) = (map_of (items s))(k \<mapsto> v)"
    and delete_inv: "inv s \<Longrightarrow> inv (delete s k)"
    and delete_items: "inv s \<Longrightarrow> map_of (items (delete s k)) = (map_of (items s))(k := None)"
begin

lemma lookup_store:
  "inv s \<Longrightarrow> fits s k v \<Longrightarrow> lookup (store s k v) k' = (if k' = k then Some v else lookup s k')"
  by (simp add: lookup_items store_inv store_items)

lemma lookup_delete:
  "inv s \<Longrightarrow> lookup (delete s k) k' = (if k' = k then None else lookup s k')"
  by (simp add: lookup_items delete_inv delete_items)

text \<open>Two stores hold the same map only if they list the same items.\<close>

lemma items_unique:
  assumes "inv s" and "inv t" and "\<And>k. lookup s k = lookup t k"
  shows "items s = items t"
proof -
  have "map_of (items s) = map_of (items t)"
    using assms by (auto simp: lookup_items)
  then show ?thesis
    using assms(1,2) inv_sorted by (intro keys_sorted_unique) auto
qed

text \<open>A batch of stores that all fit leaves the last value of every key.\<close>

lemma fold_store_lookup:
  assumes "inv s" and "\<And>t k v. inv t \<Longrightarrow> (k, v) \<in> set kvs \<Longrightarrow> fits t k v"
  shows "inv (foldl (\<lambda>t (k, v). store t k v) s kvs) \<and>
    lookup (foldl (\<lambda>t (k, v). store t k v) s kvs) k' =
      (case map_of (rev kvs) k' of Some v \<Rightarrow> Some v | None \<Rightarrow> lookup s k')"
  using assms
proof (induction kvs arbitrary: s)
  case (Cons kv kvs)
  obtain k v where kv: "kv = (k, v)" by (cases kv)
  have "fits s k v" using Cons.prems kv by auto
  then have "inv (store s k v)" and l: "lookup (store s k v) k' = (if k' = k then Some v else lookup s k')"
    using Cons.prems(1) by (auto simp: store_inv lookup_store)
  with Cons.IH [of "store s k v"] Cons.prems(2) show ?case
    by (auto simp: kv map_add_def split: option.splits)
qed simp

end

end
