(* ===== verification/SlotOps.thy ===== *)
theory SlotOps
  imports Slotted KeyList
begin

text \<open>
  More of the slotted page: pages whose cells do not overlap, and what removal, rewriting,
  clearing and initialisation do to the list of cells.
\<close>

section \<open>Pages without overlapping cells\<close>

definition cell_end :: "byte list \<Rightarrow> nat \<Rightarrow> nat" where
  "cell_end d q = q + 8 + key_len d q + val_len d q"

definition tight_page :: "Page \<Rightarrow> bool" where
  "tight_page p \<longleftrightarrow> wf_page p \<and>
     (\<forall>i < ncells p. \<forall>j < ncells p. i \<noteq> j \<longrightarrow>
        cell_end (Data p) (ptr (Data p) i) \<le> ptr (Data p) j \<or>
        cell_end (Data p) (ptr (Data p) j) \<le> ptr (Data p) i)"

lemma tight_wf: "tight_page p \<Longrightarrow> wf_page p"
  by (simp add: tight_page_def)

lemma cell_end_size: "cell_in d q \<Longrightarrow> cell_end d q = q + cell_size (cell_at d q)"
  by (simp add: cell_end_def cell_size_def cell_at_lengths)

lemma inserted_tight:
  assumes "inserted p c i d" and "tight_page p"
  shows "tight_page (p\<lparr>Data := d, Dirty := True\<rparr>)"
  unfolding tight_page_def
proof (intro conjI allI impI)
  note D = insertedD [OF assms(1)] and H = inserted_header [OF assms(1)]
  let ?p = "p\<lparr>Data := d, Dirty := True\<rparr>" and ?off = "content p - cell_size c"
  show "wf_page ?p" by (rule inserted_wf [OF assms(1)])
  have new: "cell_end d ?off = content p"
    using inserted_new_cell [OF assms(1)] D(6) by (simp add: cell_end_size)
  have old: "cell_end d (ptr (Data p) k) = cell_end (Data p) (ptr (Data p) k)"
    "content p \<le> ptr (Data p) k" if "k < ncells p" for k
    using inserted_old_cell [OF assms(1) that] wf_pageD(6,7) [OF D(1) that]
    by (simp_all add: cell_end_size)
  have dis: "cell_end (Data p) (ptr (Data p) a) \<le> ptr (Data p) b \<or>
      cell_end (Data p) (ptr (Data p) b) \<le> ptr (Data p) a"
    if "a < ncells p" "b < ncells p" "a \<noteq> b" for a b
    using assms(2) that by (simp add: tight_page_def)
  fix a b assume ab: "a < ncells ?p" "b < ncells ?p" "a \<noteq> b"
  then have le: "a \<le> ncells p" "b \<le> ncells p" by (simp_all add: H)
  have pa: "ptr d k = (if k < i then ptr (Data p) k else if k = i then ?off else ptr (Data p) (k - 1))"
    and lt: "k < i \<Longrightarrow> k < ncells p" "i < k \<Longrightarrow> k - 1 < ncells p" if "k \<le> ncells p" for k
    using inserted_ptr [OF assms(1) that] D(3) that by auto
  consider "a < i" | "a = i" | "i < a" by linarith
  then have "cell_end d (ptr d a) \<le> ptr d b \<or> cell_end d (ptr d b) \<le> ptr d a"
  proof cases
    case 1
    with ab(3) le lt old dis [of a b] dis [of a "b - 1"] new show ?thesis
      by (cases "b < i"; cases "b = i") (auto simp: pa)
  next
    case 2
    with ab(3) le lt [of b] old [of b] old [of "b - 1"] new show ?thesis
      by (cases "b < i") (auto simp: pa)
  next
    case 3
    with ab(3) le lt old dis [of "a - 1" b] dis [of "a - 1" "b - 1"] new show ?thesis
      by (cases "b < i"; cases "b = i") (auto simp: pa)
  qed
  then show "cell_end (Data ?p) (ptr (Data ?p) a) \<le> ptr (Data ?p) b \<or>
      cell_end (Data ?p) (ptr (Data ?p) b) \<le> ptr (Data ?p) a" by simp
qed

text \<open>The refinement of \<open>insert_refine\<close>, for pages without overlap.\<close>

lemma insert_tight:
  assumes "tight_page p" and "cell_small c" and "unat idx \<le> ncells p"
    and "cell_size c + 2 \<le> free_bytes p"
  obtains p' where "insertCellIntoPageAt p c idx = Inr p'" and "tight_page p'"
    and "page_cells p' = insert_at (unat idx) c (page_cells p)"
    and "free_bytes p' = free_bytes p - (cell_size c + 2)"
    and "Type p' = Type p" and "RightmostPointer p' = RightmostPointer p"
    and "ID p' = ID p" and "Dirty p'" and "pins p' = pins p"
proof -
  note wf = tight_wf [OF assms(1)]
  obtain d where d: "insertCellIntoPageAt p c idx = Inr (p\<lparr>Data := d, Dirty := True\<rparr>)"
    "inserted p c (unat idx) d"
    using insert_bytes [OF wf assms(2-4)] assms wf by (auto simp: inserted_def)
  then have "free_bytes (p\<lparr>Data := d, Dirty := True\<rparr>) = free_bytes p - (cell_size c + 2)"
    by (simp add: free_bytes_def inserted_header)
  with d assms(1) show ?thesis
    by (intro that [OF d(1)]) (simp_all add: inserted_tight inserted_cells inserted_header)
qed

section \<open>Initialised and cleared pages\<close>

text \<open>The sequence of setters every new leaf page goes through.\<close>

definition initLeaf :: "Page \<Rightarrow> Page" where
  "initLeaf pg = (SetRightmostPointer InvalidPage (SetCellContentOffset (of_nat PageSize)
     (SetCellCount 0 (SetType PageTypeLeaf pg))))\<lparr>Dirty := True\<rparr>"

lemma empty_page:
  assumes "page_ok p" and "CellCount p = 0" and "CellContentOffset p = of_nat PageSize"
  shows "tight_page p" and "page_cells p = []" and "free_bytes p = 4087"
proof -
  have n: "ncells p = 0" using assms(2) by (simp add: ncells_def)
  have c: "content p = 4096" using assms(3) by (simp add: content_def PageSize_def)
  show "tight_page p" "page_cells p = []" "free_bytes p = 4087"
    using assms(1) by (simp_all add: tight_page_def wf_page_def n c PageSize_def page_cells_def free_bytes_def)
qed

lemma initLeaf_fields:
  assumes "page_ok p"
  shows "page_ok (initLeaf p)" "CellCount (initLeaf p) = 0"
    "CellContentOffset (initLeaf p) = of_nat PageSize" "Type (initLeaf p) = PageTypeLeaf"
    "RightmostPointer (initLeaf p) = InvalidPage" "ID (initLeaf p) = ID p" "Dirty (initLeaf p)"
proof -
  have e: "initLeaf p = SetRightmostPointer InvalidPage (SetCellContentOffset (of_nat PageSize)
     (SetCellCount 0 (SetType PageTypeLeaf p)))"
    by (simp add: initLeaf_def page_setters)
  show "page_ok (initLeaf p)" "CellCount (initLeaf p) = 0"
    "CellContentOffset (initLeaf p) = of_nat PageSize" "Type (initLeaf p) = PageTypeLeaf"
    "RightmostPointer (initLeaf p) = InvalidPage" "ID (initLeaf p) = ID p" "Dirty (initLeaf p)"
    using assms by (simp_all add: e page_simps)
qed

lemma initLeaf_empty:
  assumes "page_ok p"
  shows "tight_page (initLeaf p)" "page_cells (initLeaf p) = []" "free_bytes (initLeaf p) = 4087"
  using empty_page initLeaf_fields [OF assms] by auto

lemma clearPage_fields:
  assumes "page_ok p"
  shows "page_ok (clearPage p)" "CellCount (clearPage p) = 0"
    "CellContentOffset (clearPage p) = of_nat PageSize" "Type (clearPage p) = Type p"
    "RightmostPointer (clearPage p) = RightmostPointer p" "ID (clearPage p) = ID p"
    "Dirty (clearPage p)" "pins (clearPage p) = pins p"
proof -
  let ?q = "p\<lparr>Data := cClearPage (Data p)\<rparr>"
  have q: "page_ok ?q" using assms by (simp add: page_ok_def)
  have e: "clearPage p = SetRightmostPointer (RightmostPointer p) (SetCellContentOffset (of_nat PageSize)
     (SetCellCount 0 (SetType (Type p) ?q)))"
    by (simp add: clearPage_def Let_def page_setters)
  show "page_ok (clearPage p)" "CellCount (clearPage p) = 0"
    "CellContentOffset (clearPage p) = of_nat PageSize" "Type (clearPage p) = Type p"
    "RightmostPointer (clearPage p) = RightmostPointer p" "ID (clearPage p) = ID p"
    "Dirty (clearPage p)" "pins (clearPage p) = pins p"
    using q by (simp_all add: e page_simps)
qed

lemma clearPage_empty:
  assumes "page_ok p"
  shows "tight_page (clearPage p)" "page_cells (clearPage p) = []" "free_bytes (clearPage p) = 4087"
  using empty_page clearPage_fields [OF assms] by auto

section \<open>Removal\<close>

lemma remove_bytes:
  assumes wf: "wf_page p" and idx: "unat idx < ncells p"
  obtains d where "removeCellAt p idx = Inr (p\<lparr>Data := d, Dirty := True\<rparr>)" and "length d = 4096"
    and "\<And>j. j < 4096 \<Longrightarrow> d ! j =
      (if 1 \<le> j \<and> j < 3 then be16 (CellCount p - 1) ! (j - 1)
       else if 9 + 2 * unat idx \<le> j \<and> j < 9 + 2 * (ncells p - 1) then Data p ! (j + 2)
       else Data p ! j)"
proof -
  note W = wf_pageD(1-5) [OF wf]
  have m: "unat (CellCount p - 1) = ncells p - 1"
    using idx by (simp add: ncells_def unat_sub word_le_nat_alt)
  have "9 + 2 * (ncells p - 1) + 2 \<le> length (Data p)"
    using W idx by simp
  moreover have "unat idx \<le> ncells p - 1" "9 + 2 * (ncells p - 1) + 2 < 65536"
    using W(5) idx by auto
  ultimately obtain d1 where d1: "shift_left PageHeaderSize (unat idx) (ncells p - 1) (Data p) = Inr d1"
    "length d1 = 4096"
    "\<And>j. j < 4096 \<Longrightarrow> d1 ! j =
      (if 9 + 2 * unat idx \<le> j \<and> j < 9 + 2 * (ncells p - 1) then Data p ! (j + 2) else Data p ! j)"
    using shift_left_bytes [of "unat idx" "ncells p - 1" "Data p"] unfolding W(2) by blast
  let ?d = "put d1 1 (be16 (CellCount p - 1))"
  have "removeCellAt p idx = Inr (p\<lparr>Data := ?d, Dirty := True\<rparr>)"
    using d1(1) by (simp add: removeCellAt_def cShiftCellPointers_def m SetCellCount_def Let_def)
  moreover have "length ?d = 4096" using d1(2) by simp
  moreover have "?d ! j = (if 1 \<le> j \<and> j < 3 then be16 (CellCount p - 1) ! (j - 1)
       else if 9 + 2 * unat idx \<le> j \<and> j < 9 + 2 * (ncells p - 1) then Data p ! (j + 2)
       else Data p ! j)" if "j < 4096" for j
    using that d1(2) by (simp add: nth_put d1(3))
  ultimately show ?thesis by (rule that)
qed

lemma remove_tight:
  assumes tight: "tight_page p" and idx: "unat idx < ncells p"
  obtains p' where "removeCellAt p idx = Inr p'" and "tight_page p'"
    and "page_cells p' = remove_at (unat idx) (page_cells p)"
    and "Type p' = Type p" and "RightmostPointer p' = RightmostPointer p"
    and "ID p' = ID p" and "Dirty p'" and "pins p' = pins p"
    and "free_bytes p' = free_bytes p + 2"
proof -
  note wf = tight_wf [OF tight]
  note W = wf_pageD [OF wf]
  let ?i = "unat idx" and ?n = "ncells p"
  obtain d where d: "removeCellAt p idx = Inr (p\<lparr>Data := d, Dirty := True\<rparr>)" "length d = 4096"
    "\<And>j. j < 4096 \<Longrightarrow> d ! j = (if 1 \<le> j \<and> j < 3 then be16 (CellCount p - 1) ! (j - 1)
       else if 9 + 2 * ?i \<le> j \<and> j < 9 + 2 * (?n - 1) then Data p ! (j + 2) else Data p ! j)"
    using remove_bytes [OF wf idx] by blast
  let ?p = "p\<lparr>Data := d, Dirty := True\<rparr>"
  have "rd16 d 1 = rd16 (be16 (CellCount p - 1)) 0"
    using d(3) [of 1] d(3) [of 2] by (simp add: rd16_def numeral_2_eq_2)
  then have n: "ncells ?p = ?n - 1"
    using idx by (simp add: ncells_def CellCount_def rd16_be16 unat_sub word_le_nat_alt)
  have hd: "Type ?p = Type p" "RightmostPointer ?p = RightmostPointer p" "content ?p = content p"
    by (simp_all add: Type_def RightmostPointer_def rd32_def content_def CellContentOffset_def rd16_def d(3))
  have ptr: "ptr d k = ptr (Data p) (if k < ?i then k else Suc k)" if "k < ?n - 1" for k
    using that W(5) by (simp add: ptr_def rd16_def d(3))
  have cells: "cell_in d (ptr (Data p) k)" "cell_at d (ptr (Data p) k) = cell_at (Data p) (ptr (Data p) k)"
    if k: "k < ?n" for k
  proof -
    have "d ! j = Data p ! j" if "ptr (Data p) k \<le> j" "j < ptr (Data p) k + 8 + key_len (Data p) (ptr (Data p) k) + val_len (Data p) (ptr (Data p) k)" for j
    proof -
      have "content p \<le> j" "j < 4096"
        using that W(2) W(6) [OF k] W(7) [OF k] by (auto simp: cell_in_def)
      moreover have "9 + 2 * (?n - 1) \<le> content p" using W(3) by simp
      ultimately show ?thesis using W(3) k by (simp add: d(3))
    qed
    then show "cell_in d (ptr (Data p) k)" "cell_at d (ptr (Data p) k) = cell_at (Data p) (ptr (Data p) k)"
      using cell_frame [OF W(7) [OF k], of d] W(2) d(2) by auto
  qed
  have sel: "(if k < ?i then k else Suc k) < ?n" if "k < ?n - 1" for k
    using that by auto
  have wf': "wf_page ?p"
    using d(2) W(3,4) W(6,7) [OF sel] cells(1) [OF sel] idx
    by (auto simp: wf_page_def page_ok_def PageSize_def n hd ptr)
  have e: "cell_end d (ptr (Data p) k) = cell_end (Data p) (ptr (Data p) k)" if "k < ?n" for k
    using cells [OF that] W(7) [OF that] by (simp add: cell_end_size)
  have dat: "Data ?p = d" by simp
  have "tight_page ?p"
    unfolding tight_page_def
  proof (intro conjI allI impI)
    fix a b assume ab: "a < ncells ?p" "b < ncells ?p" "a \<noteq> b"
    then have l: "a < ?n - 1" "b < ?n - 1" by (simp_all add: n)
    let ?a = "if a < ?i then a else Suc a" and ?b = "if b < ?i then b else Suc b"
    have "?a \<noteq> ?b" using ab(3) by auto
    with tight sel [OF l(1)] sel [OF l(2)] have "cell_end (Data p) (ptr (Data p) ?a) \<le> ptr (Data p) ?b \<or>
        cell_end (Data p) (ptr (Data p) ?b) \<le> ptr (Data p) ?a"
      unfolding tight_page_def by blast
    then show "cell_end (Data ?p) (ptr (Data ?p) a) \<le> ptr (Data ?p) b \<or>
        cell_end (Data ?p) (ptr (Data ?p) b) \<le> ptr (Data ?p) a"
      unfolding dat ptr [OF l(1)] ptr [OF l(2)] e [OF sel [OF l(1)]] e [OF sel [OF l(2)]] .
  qed (rule wf')
  moreover have "page_cells ?p = remove_at ?i (page_cells p)"
    by (rule nth_equalityI)
       (use idx in \<open>auto simp: n nth_remove_at page_cells_def ptr cells(2)\<close>)
  moreover have "free_bytes ?p = free_bytes p + 2"
    using idx W(3) by (simp add: free_bytes_def n hd)
  ultimately show ?thesis using that d(1) hd by simp
qed

end
