(* ===== verification/Leaf.thy ===== *)
theory Leaf
  imports SlotOps
begin

text \<open>
  Searching and updating one page. The binary search of \<open>ops.c\<close> finds the position of
  a key in a page whose keys ascend; the leaf operations of \<open>btree.go\<close> that do not
  touch another page then implement an ordered map.
\<close>

section \<open>Rewriting a cell in place\<close>

lemma rewrite_eq:
  assumes wf: "wf_page p" and idx: "unat idx < ncells p" and small: "cell_small c"
    and room: "ptr (Data p) (unat idx) + cell_size c \<le> 4096"
  shows "rewriteCell p idx c =
    Inr (p\<lparr>Data := put (Data p) (ptr (Data p) (unat idx)) (EncodeCell c), Dirty := True\<rparr>)"
proof -
  note W = wf_pageD(1-5) [OF wf]
  have "CellPointer p idx = Inr (rd16 (Data p) (9 + 2 * unat idx))"
    using W(5) idx by (intro CellPointer_in [OF W(1)]) simp
  then show ?thesis
    using room W(2) by (simp add: rewriteCell_def Let_def PageSize_def length_EncodeCell [OF small]
        cCopyBytes_fits flip: ptr_def)
qed

lemma rewrite_tight:
  assumes tight: "tight_page p" and idx: "unat idx < ncells p" and small: "cell_small c"
    and le: "cell_size c \<le> cell_size (page_cells p ! unat idx)"
  obtains p' where "rewriteCell p idx c = Inr p'" and "tight_page p'"
    and "page_cells p' = (page_cells p)[unat idx := c]"
    and "Type p' = Type p" and "RightmostPointer p' = RightmostPointer p"
    and "ID p' = ID p" and "Dirty p'" and "pins p' = pins p" and "free_bytes p' = free_bytes p"
proof -
  note wf = tight_wf [OF tight]
  note W = wf_pageD [OF wf]
  let ?i = "unat idx" and ?n = "ncells p" and ?q = "ptr (Data p) (unat idx)"
  let ?d = "put (Data p) ?q (EncodeCell c)" and ?e = "?q + cell_size c"
  let ?p = "p\<lparr>Data := ?d, Dirty := True\<rparr>"
  have ci: "cell_at (Data p) ?q = page_cells p ! ?i"
    using idx by (simp add: page_cells_def)
  have eq: "?e \<le> cell_end (Data p) ?q"
    using le W(7) [OF idx] by (simp add: cell_end_size ci)
  have eq': "cell_end (Data p) ?q \<le> 4096"
    using W(7) [OF idx] W(2) by (simp add: cell_in_def cell_end_def)
  note eq = eq eq'
  have len: "length (EncodeCell c) = cell_size c" by (rule length_EncodeCell [OF small])
  have fit: "?q + length (EncodeCell c) \<le> length (Data p)" using eq W(2) len by simp
  have r: "rewriteCell p idx c = Inr ?p"
    using eq by (intro rewrite_eq [OF wf idx small]) simp
  have out: "?d ! j = Data p ! j" if "j < 4096" "j < ?q \<or> ?e \<le> j" for j
    using that fit len W(2) by (simp add: nth_put_outside)
  have qlow: "9 + 2 * ?n \<le> ?q" using W(3) W(6) [OF idx] by simp
  have n: "ncells ?p = ?n" and hd: "Type ?p = Type p" "RightmostPointer ?p = RightmostPointer p"
    "content ?p = content p"
    using qlow by (simp_all add: ncells_def CellCount_def Type_def RightmostPointer_def rd32_def
        content_def CellContentOffset_def rd16_def out)
  have ptr: "ptr ?d k = ptr (Data p) k" if "k < ?n" for k
  proof -
    have "rd16 ?d (9 + 2 * k) = rd16 (Data p) (9 + 2 * k)"
      using that qlow W(5) by (simp add: rd16_def out)
    then show ?thesis unfolding ptr_def [of ?d k] ptr_def [of "Data p" k] by simp
  qed
  have other: "cell_in ?d (ptr (Data p) k)" "cell_at ?d (ptr (Data p) k) = cell_at (Data p) (ptr (Data p) k)"
    if k: "k < ?n" "k \<noteq> ?i" for k
  proof -
    have "cell_end (Data p) (ptr (Data p) k) \<le> ?q \<or> cell_end (Data p) ?q \<le> ptr (Data p) k"
      using tight k idx by (simp add: tight_page_def)
    then have "?d ! j = Data p ! j" if "ptr (Data p) k \<le> j"
      "j < ptr (Data p) k + 8 + key_len (Data p) (ptr (Data p) k) + val_len (Data p) (ptr (Data p) k)" for j
      using that W(7) [OF k(1)] W(2) eq by (intro out) (auto simp: cell_end_def cell_in_def)
    then show "cell_in ?d (ptr (Data p) k)" "cell_at ?d (ptr (Data p) k) = cell_at (Data p) (ptr (Data p) k)"
      using cell_frame [OF W(7) [OF k(1)], of ?d] fit by auto
  qed
  have self: "cell_in ?d ?q" "cell_at ?d ?q = c"
    using cell_at_put [OF small] fit len by auto
  have cell: "cell_in ?d (ptr (Data p) k)" "cell_at ?d (ptr (Data p) k) = (page_cells p)[?i := c] ! k"
    if "k < ?n" for k
    using that other [of k] self idx by (cases "k = ?i"; simp add: page_cells_def)+
  have wf': "wf_page ?p"
    using fit W(2,3,4,6) cell(1) by (simp add: wf_page_def page_ok_def PageSize_def n hd ptr)
  have e: "cell_end ?d (ptr (Data p) k) \<le> cell_end (Data p) (ptr (Data p) k)" if "k < ?n" for k
    using that cell(1) [OF that] other [of k] self eq W(7) [OF that]
    by (cases "k = ?i") (simp_all add: cell_end_size)
  have dat: "Data ?p = ?d" by simp
  have "tight_page ?p"
    unfolding tight_page_def
  proof (intro conjI allI impI)
    fix a b assume ab: "a < ncells ?p" "b < ncells ?p" "a \<noteq> b"
    then have l: "a < ?n" "b < ?n" by (simp_all add: n)
    then have "cell_end (Data p) (ptr (Data p) a) \<le> ptr (Data p) b \<or>
        cell_end (Data p) (ptr (Data p) b) \<le> ptr (Data p) a"
      using tight ab(3) by (simp add: tight_page_def)
    then show "cell_end (Data ?p) (ptr (Data ?p) a) \<le> ptr (Data ?p) b \<or>
        cell_end (Data ?p) (ptr (Data ?p) b) \<le> ptr (Data ?p) a"
      unfolding dat ptr [OF l(1)] ptr [OF l(2)] using e [OF l(1)] e [OF l(2)] by linarith
  qed (rule wf')
  moreover have "page_cells ?p = (page_cells p)[?i := c]"
  proof (rule nth_equalityI)
    fix k assume "k < length (page_cells ?p)"
    then have "k < ?n" by (simp add: n)
    then show "page_cells ?p ! k = (page_cells p)[?i := c] ! k"
      using cell(2) by (simp add: page_cells_def [of ?p] n ptr)
  qed (simp add: n)
  moreover have "free_bytes ?p = free_bytes p" by (simp add: free_bytes_def n hd)
  ultimately show ?thesis using that r hd by simp
qed

section \<open>Binary search\<close>

lemma memcmp_take: "memcmp a (take n b) n = memcmp a b n"
  by (induction a b n rule: memcmp.induct) auto

lemma memcmp_zero [simp]: "memcmp a b 0 = 0"
  by (cases a; cases b) auto

lemma search_cmp_wf:
  assumes wf: "wf_page p" and m: "m < ncells p"
  shows "search_cmp (Data p) PageHeaderSize key (int m) =
    Inr (sqlgo_key_cmp key (Key (page_cells p ! m)))"
proof -
  note W = wf_pageD [OF wf]
  let ?q = "ptr (Data p) m" and ?kl = "key_len (Data p) (ptr (Data p) m)"
  let ?k = "Key (page_cells p ! m)" and ?m = "min (length key) ?kl"
  have off: "unat (PageHeaderSize + of_int (int m) * 2) = 9 + 2 * m"
    using W(5) m by (simp add: hdr_off)
  have q: "?q + 8 + ?kl \<le> 4096" "9 + 2 * m + 2 \<le> 4096"
    using W(2,5) W(7) [OF m] m by (auto simp: cell_in_def)
  have k: "?k = slice (Data p) (?q + 8) ?kl" using m by (simp add: page_cells_def cell_at_def)
  then have lk: "length ?k = ?kl" using q W(2) by simp
  have "slice (Data p) (?q + 8) ?m = take ?m ?k"
    using q W(2) by (simp add: k slice_def min_def)
  then have c: "memcmp key (slice (Data p) (?q + 8) ?m) ?m = memcmp key ?k ?m"
    by (simp add: memcmp_take)
  have mm: "(if length key < ?kl then length key else ?kl) = ?m" by (simp add: min_def)
  have "search_cmp (Data p) PageHeaderSize key (int m) =
    Inr (if memcmp key ?k ?m = 0
         then if length key < ?kl then -1 else if length key > ?kl then 1 else 0
         else memcmp key ?k ?m)"
    unfolding search_cmp_def Let_def off ptr_def [symmetric] key_len_def [symmetric] mm c
    using q W(2) by simp
  also have "\<dots> = Inr (sqlgo_key_cmp key ?k)"
    unfolding sqlgo_key_cmp_def Let_def lk mm by auto
  finally show ?thesis .
qed

text \<open>On a well-formed page the search ends without a fault, at a position of the page.\<close>

lemma binary_search_loop_wf:
  assumes "wf_page p" and "0 \<le> lo" and "hi < int (ncells p)" and "lo \<le> hi + 1"
  shows "\<exists>i f. binary_search_loop (Data p) PageHeaderSize key lo hi = Inr (i, f) \<and>
    lo \<le> i \<and> i \<le> hi + 1 \<and> (f \<longrightarrow> i \<le> hi \<and> Key (page_cells p ! nat i) = key)"
  using assms(2-)
proof (induction "nat (hi - lo + 1)" arbitrary: lo hi rule: less_induct)
  case less
  show ?case
  proof (cases "lo \<le> hi")
    case False
    with less.prems show ?thesis by (subst binary_search_loop.simps) auto
  next
    case True
    define mid where "mid = (lo + hi) div 2"
    have mid: "lo \<le> mid" "mid \<le> hi" using True by (auto simp: mid_def)
    let ?c = "sqlgo_key_cmp key (Key (page_cells p ! nat mid))"
    have "nat mid < ncells p" using mid less.prems by linarith
    from search_cmp_wf [OF assms(1) this, of key]
    have sc: "search_cmp (Data p) PageHeaderSize key mid = Inr ?c"
      using mid less.prems by simp
    have st: "binary_search_loop (Data p) PageHeaderSize key lo hi =
      (if ?c = 0 then Inr (mid, True)
       else if ?c < 0 then binary_search_loop (Data p) PageHeaderSize key lo (mid - 1)
       else binary_search_loop (Data p) PageHeaderSize key (mid + 1) hi)"
      using True sc by (subst binary_search_loop.simps) (simp add: Let_def flip: mid_def)
    consider "?c = 0" | "?c < 0" | "?c > 0" by linarith
    then show ?thesis
    proof cases
      case 1
      then show ?thesis using st mid by (auto simp: key_cmp_lex split: if_splits)
    next
      case 2
      with less.hyps [of "mid - 1" lo] mid less.prems st show ?thesis by force
    next
      case 3
      with less.hyps [of hi "mid + 1"] mid less.prems st show ?thesis by force
    qed
  qed
qed

definition page_items :: "Page \<Rightarrow> (byte list \<times> byte list) list" where
  "page_items p = map (\<lambda>c. (Key c, Value c)) (page_cells p)"

lemma length_page_items [simp]: "length (page_items p) = ncells p"
  by (simp add: page_items_def)

lemma nth_page_items: "i < ncells p \<Longrightarrow> page_items p ! i = (Key (page_cells p ! i), Value (page_cells p ! i))"
  by (simp add: page_items_def)

lemma binary_search_loop_sorted:
  assumes wf: "wf_page p" and sorted: "keys_sorted (page_items p)"
    and "0 \<le> lo" and "hi < int (ncells p)" and "lo \<le> hi + 1"
    and "\<forall>k < nat lo. Key (page_cells p ! k) < key"
    and "\<forall>k < ncells p. hi < int k \<longrightarrow> key < Key (page_cells p ! k)"
    and "binary_search_loop (Data p) PageHeaderSize key lo hi = Inr (i, False)"
  shows "lower_bound (page_items p) key (nat i)"
  using assms(3-)
proof (induction "nat (hi - lo + 1)" arbitrary: lo hi rule: less_induct)
  case less
  show ?case
  proof (cases "lo \<le> hi")
    case False
    then have "i = lo" using less.prems(6) by (subst (asm) binary_search_loop.simps) auto
    with False less.prems(1-5) show ?thesis
      by (auto simp: lower_bound_def nth_page_items)
  next
    case True
    define mid where "mid = (lo + hi) div 2"
    have mid: "lo \<le> mid" "mid \<le> hi" using True by (auto simp: mid_def)
    let ?k = "Key (page_cells p ! nat mid)"
    let ?c = "sqlgo_key_cmp key ?k"
    have nm: "nat mid < ncells p" using mid less.prems by linarith
    from search_cmp_wf [OF wf this, of key]
    have "search_cmp (Data p) PageHeaderSize key mid = Inr ?c"
      using mid less.prems by simp
    then have st: "binary_search_loop (Data p) PageHeaderSize key lo hi =
      (if ?c = 0 then Inr (mid, True)
       else if ?c < 0 then binary_search_loop (Data p) PageHeaderSize key lo (mid - 1)
       else binary_search_loop (Data p) PageHeaderSize key (mid + 1) hi)"
      using True by (subst binary_search_loop.simps) (simp add: Let_def flip: mid_def)
    have ord: "Key (page_cells p ! a) < Key (page_cells p ! b)" if "a < b" "b < ncells p" for a b
      using sorted that by (auto simp: keys_sorted_nth nth_page_items)
    consider "?c = 0" | "?c < 0" | "?c > 0" by linarith
    then show ?thesis
    proof cases
      case 1
      then show ?thesis using st less.prems(6) by simp
    next
      case 2
      then have "key < ?k" by (auto simp: key_cmp_lex split: if_splits)
      then have up: "\<forall>k < ncells p. mid - 1 < int k \<longrightarrow> key < Key (page_cells p ! k)"
      proof (intro allI impI)
        fix k assume k: "k < ncells p" "mid - 1 < int k"
        then have "nat mid \<le> k" using mid less.prems(1) by linarith
        with k(1) \<open>key < ?k\<close> ord [of "nat mid" k] show "key < Key (page_cells p ! k)"
          by (cases "k = nat mid") auto
      qed
      show ?thesis
        by (rule less.hyps [OF _ _ _ _ _ up]) (use 2 st mid less.prems in auto)
    next
      case 3
      then have "?k < key" by (auto simp: key_cmp_lex split: if_splits)
      then have low: "\<forall>k < nat (mid + 1). Key (page_cells p ! k) < key"
      proof (intro allI impI)
        fix k assume k: "k < nat (mid + 1)"
        then have "k \<le> nat mid" using mid less.prems(1) by linarith
        with \<open>?k < key\<close> ord [OF _ nm, of k] show "Key (page_cells p ! k) < key"
          by (cases "k = nat mid") auto
      qed
      show ?thesis
        by (rule less.hyps [OF _ _ _ _ low]) (use 3 st mid less.prems in auto)
    qed
  qed
qed

text \<open>What a search of a page with ascending keys returns.\<close>

definition leaf_find :: "Page \<Rightarrow> byte list \<Rightarrow> (int \<times> bool) res" where
  "leaf_find pg key = cPageBinarySearch (Data pg) (CellCount pg) PageHeaderSize key"

lemma leaf_find_wf:
  assumes "wf_page p"
  obtains i f where "leaf_find p key = Inr (int i, f)" and "i \<le> ncells p"
    and "f \<Longrightarrow> i < ncells p \<and> Key (page_cells p ! i) = key"
proof -
  have "\<exists>i f. leaf_find p key = Inr (i, f) \<and> 0 \<le> i \<and> i \<le> int (ncells p) \<and>
      (f \<longrightarrow> i \<le> int (ncells p) - 1 \<and> Key (page_cells p ! nat i) = key)"
    using binary_search_loop_wf [OF assms, of 0 "int (ncells p) - 1" key]
    by (simp add: leaf_find_def cPageBinarySearch_def ncells_def)
  then obtain i f where "leaf_find p key = Inr (i, f)" "0 \<le> i" "i \<le> int (ncells p)"
    "f \<longrightarrow> i \<le> int (ncells p) - 1 \<and> Key (page_cells p ! nat i) = key" by blast
  then show ?thesis using that [of "nat i" f] by auto
qed

lemma leaf_find_sorted:
  assumes wf: "wf_page p" and sorted: "keys_sorted (page_items p)"
  obtains (found) i where "leaf_find p key = Inr (int i, True)" and "i < ncells p"
      and "fst (page_items p ! i) = key" and "map_of (page_items p) key = Some (Value (page_cells p ! i))"
  | (missing) i where "leaf_find p key = Inr (int i, False)"
      and "lower_bound (page_items p) key i" and "map_of (page_items p) key = None"
proof -
  obtain i f where r: "leaf_find p key = Inr (int i, f)" "i \<le> ncells p"
    "f \<Longrightarrow> i < ncells p \<and> Key (page_cells p ! i) = key"
    using leaf_find_wf [OF wf] by blast
  show ?thesis
  proof (cases f)
    case True
    with r have "i < ncells p" "fst (page_items p ! i) = key" by (simp_all add: nth_page_items)
    with map_of_sorted_nth [OF sorted, of i] r True show ?thesis
      by (intro found [of i]) (simp_all add: nth_page_items)
  next
    case False
    have "binary_search_loop (Data p) PageHeaderSize key 0 (int (ncells p) - 1) = Inr (int i, False)"
      using r(1) False by (simp add: leaf_find_def cPageBinarySearch_def ncells_def)
    then have "lower_bound (page_items p) key (nat (int i))"
      by (intro binary_search_loop_sorted [OF wf sorted, of 0 "int (ncells p) - 1"]) simp_all
    then have lb: "lower_bound (page_items p) key i" by simp
    then show ?thesis
      using r(1) False by (intro missing [OF _ lb lower_bound_not_in]) simp_all
  qed
qed

section \<open>One page as an ordered map\<close>

text \<open>The parts of \<open>search\<close>, \<open>insertLeaf\<close> and \<open>deleteFrom\<close> that act on a
  single leaf.\<close>

definition updateLeafCell :: "Page \<Rightarrow> 16 word \<Rightarrow> byte list \<Rightarrow> byte list \<Rightarrow> Page res" where
  "updateLeafCell pg idx key val = rewriteCell pg idx \<lparr>Key = key, Value = val, LeftPtr = InvalidPage\<rparr>"

definition leaf_get :: "Page \<Rightarrow> byte list \<Rightarrow> byte list option res" where
  "leaf_get pg key = bindE (leaf_find pg key) (\<lambda>(idx, found).
     if found
     then bindE (bindE (CellPointer pg (of_int idx)) (DecodeCell (Data pg))) (\<lambda>cell.
            Inr (Some (Value cell)))
     else Inr None)"

definition leaf_put :: "Page \<Rightarrow> byte list \<Rightarrow> byte list \<Rightarrow> Page res" where
  "leaf_put pg key val = bindE (leaf_find pg key) (\<lambda>(idx, found).
     if found then updateLeafCell pg (of_int idx) key val
     else insertCellIntoPageAt pg \<lparr>Key = key, Value = val, LeftPtr = InvalidPage\<rparr> (of_int idx))"

definition leaf_del :: "Page \<Rightarrow> byte list \<Rightarrow> (Page \<times> bool) res" where
  "leaf_del pg key = bindE (leaf_find pg key) (\<lambda>(idx, found).
     if found then bindE (removeCellAt pg (of_int idx)) (\<lambda>pg. Inr (pg\<lparr>Dirty := True\<rparr>, True))
     else Inr (pg, False))"

definition leaf_inv :: "Page \<Rightarrow> bool" where
  "leaf_inv p \<longleftrightarrow> tight_page p \<and> keys_sorted (page_items p)"

text \<open>When a key can be stored: a new key needs room for its cell and pointer, an existing
  one a value that is not longer than the stored one.\<close>

definition leaf_fits :: "Page \<Rightarrow> byte list \<Rightarrow> byte list \<Rightarrow> bool" where
  "leaf_fits p key val \<longleftrightarrow> length key + length val + 10 < 2 ^ 16 \<and>
     (case map_of (page_items p) key of
        Some w \<Rightarrow> length val \<le> length w
      | None \<Rightarrow> 8 + length key + length val + 2 \<le> free_bytes p)"

lemma leaf_invD:
  assumes "leaf_inv p"
  shows "tight_page p" "wf_page p" "keys_sorted (page_items p)" "ncells p \<le> 2043"
  using assms wf_pageD(5) by (auto simp: leaf_inv_def tight_wf)

lemma idx16: "i \<le> 2043 \<Longrightarrow> unat (of_int (int i) :: 16 word) = i"
  by (simp add: unat_len16)

lemma leaf_get_items:
  assumes "leaf_inv p"
  shows "leaf_get p key = Inr (map_of (page_items p) key)"
proof -
  note L = leaf_invD [OF assms]
  show ?thesis
  proof (cases rule: leaf_find_sorted [OF L(2,3), of key, case_names found missing])
    case (found i)
    then have "unat (of_int (int i) :: 16 word) = i" using L(4) by (intro idx16) simp
    with found wf_CellPointer [OF L(2), of "of_int (int i)"] show ?thesis
      by (simp add: leaf_get_def)
  next
    case (missing i)
    then show ?thesis by (simp add: leaf_get_def)
  qed
qed

lemma leaf_put_ok:
  assumes inv: "leaf_inv p" and fits: "leaf_fits p key val"
  obtains p' where "leaf_put p key val = Inr p'" and "leaf_inv p'"
    and "map_of (page_items p') = (map_of (page_items p))(key \<mapsto> val)"
    and "Type p' = Type p" and "RightmostPointer p' = RightmostPointer p"
    and "ID p' = ID p" and "Dirty p'" and "pins p' = pins p"
proof -
  note L = leaf_invD [OF inv]
  let ?c = "\<lparr>Key = key, Value = val, LeftPtr = InvalidPage\<rparr>"
  have small: "cell_small ?c" using fits by (simp add: leaf_fits_def cell_small_def)
  show ?thesis
  proof (cases rule: leaf_find_sorted [OF L(2,3), of key, case_names found missing])
    case (found i)
    have i: "unat (of_int (int i) :: 16 word) = i" using L(4) found(2) by (intro idx16) simp
    have "cell_size ?c \<le> cell_size (page_cells p ! unat (of_int (int i) :: 16 word))"
      using fits found L(4) unfolding i by (auto simp: leaf_fits_def cell_size_def nth_page_items)
    then obtain p' where p': "rewriteCell p (of_int (int i)) ?c = Inr p'" "tight_page p'"
      "page_cells p' = (page_cells p)[i := ?c]" "Type p' = Type p"
      "RightmostPointer p' = RightmostPointer p" "ID p' = ID p" "Dirty p'" "pins p' = pins p"
      using rewrite_tight [OF L(1) _ small, of "of_int (int i)"] found(2) unfolding i by blast
    have it: "page_items p' = (page_items p)[i := (key, val)]"
      using p'(3) by (simp add: page_items_def map_update)
    have "leaf_inv p'" "map_of (page_items p') = (map_of (page_items p))(key \<mapsto> val)"
      using p'(2) found keys_sorted_update [OF L(3), of i key val] map_of_update_at [OF L(3), of i key val]
      by (simp_all add: leaf_inv_def it)
    with p' found(1) show ?thesis by (intro that [of p']) (simp_all add: leaf_put_def updateLeafCell_def)
  next
    case (missing i)
    then have le: "i \<le> ncells p" by (simp add: lower_bound_def)
    have i: "unat (of_int (int i) :: 16 word) = i" using L(4) le by (intro idx16) simp
    have "cell_size ?c + 2 \<le> free_bytes p"
      using fits missing(3) by (simp add: leaf_fits_def cell_size_def)
    then obtain p' where p': "insertCellIntoPageAt p ?c (of_int (int i)) = Inr p'" "tight_page p'"
      "page_cells p' = insert_at i ?c (page_cells p)" "Type p' = Type p"
      "RightmostPointer p' = RightmostPointer p" "ID p' = ID p" "Dirty p'" "pins p' = pins p"
      using insert_tight [OF L(1) small, of "of_int (int i)"] le unfolding i by blast
    have it: "page_items p' = insert_at i (key, val) (page_items p)"
      using p'(3) by (simp add: page_items_def map_insert_at)
    have "leaf_inv p'" "map_of (page_items p') = (map_of (page_items p))(key \<mapsto> val)"
      using p'(2) keys_sorted_insert_at [OF L(3) missing(2), of val] map_of_insert_at [OF missing(2), of val]
      by (simp_all add: leaf_inv_def it)
    with p' missing(1) show ?thesis by (intro that [of p']) (simp_all add: leaf_put_def)
  qed
qed

lemma leaf_put_full:
  assumes inv: "leaf_inv p" and small: "length key + length val + 10 < 2 ^ 16"
    and new: "map_of (page_items p) key = None"
    and full: "free_bytes p < 8 + length key + length val + 2"
  shows "leaf_put p key val = Inl ErrPageFull"
proof -
  note L = leaf_invD [OF inv]
  let ?c = "\<lparr>Key = key, Value = val, LeftPtr = InvalidPage\<rparr>"
  have "insertCellIntoPageAt p ?c idx = Inl ErrPageFull" for idx
    using small full by (intro insert_full(1) [OF L(2)]) (simp_all add: cell_small_def cell_size_def)
  then show ?thesis
    by (cases rule: leaf_find_sorted [OF L(2,3), of key, case_names found missing])
       (simp_all add: leaf_put_def new)
qed

lemma leaf_del_ok:
  assumes inv: "leaf_inv p"
  obtains p' f where "leaf_del p key = Inr (p', f)" and "leaf_inv p'"
    and "map_of (page_items p') = (map_of (page_items p))(key := None)"
    and "f \<longleftrightarrow> map_of (page_items p) key \<noteq> None"
    and "Type p' = Type p" and "RightmostPointer p' = RightmostPointer p"
    and "ID p' = ID p" and "pins p' = pins p" and "f \<Longrightarrow> Dirty p'" and "\<not> f \<Longrightarrow> p' = p"
proof -
  note L = leaf_invD [OF inv]
  show ?thesis
  proof (cases rule: leaf_find_sorted [OF L(2,3), of key, case_names found missing])
    case (found i)
    have i: "unat (of_int (int i) :: 16 word) = i" using L(4) found(2) by (intro idx16) simp
    obtain p' where p': "removeCellAt p (of_int (int i)) = Inr p'" "tight_page p'"
      "page_cells p' = remove_at i (page_cells p)" "Type p' = Type p"
      "RightmostPointer p' = RightmostPointer p" "ID p' = ID p" "Dirty p'" "pins p' = pins p"
      using remove_tight [OF L(1), of "of_int (int i)"] found(2) unfolding i by blast
    have it: "page_items p' = remove_at i (page_items p)"
      using p'(3) by (simp add: page_items_def map_remove_at)
    have "p'\<lparr>Dirty := True\<rparr> = p'" using p'(7) by simp
    moreover have "leaf_inv p'" "map_of (page_items p') = (map_of (page_items p))(key := None)"
      using p'(2) found keys_sorted_remove_at [OF L(3), of i] map_of_remove_at [OF L(3), of i key]
      by (simp_all add: leaf_inv_def it)
    ultimately show ?thesis
      using p' found by (intro that [of p' True]) (simp_all add: leaf_del_def)
  next
    case (missing i)
    then have "(map_of (page_items p))(key := None) = map_of (page_items p)" by auto
    with missing inv show ?thesis by (intro that [of p False]) (simp_all add: leaf_del_def)
  qed
qed

text \<open>As total functions, these are an ordered store.\<close>

definition leaf_lookup :: "Page \<Rightarrow> byte list \<Rightarrow> byte list option" where
  "leaf_lookup p key = (case leaf_get p key of Inr r \<Rightarrow> r | Inl _ \<Rightarrow> None)"

definition leaf_store :: "Page \<Rightarrow> byte list \<Rightarrow> byte list \<Rightarrow> Page" where
  "leaf_store p key val = (case leaf_put p key val of Inr p' \<Rightarrow> p' | Inl _ \<Rightarrow> p)"

definition leaf_remove :: "Page \<Rightarrow> byte list \<Rightarrow> Page" where
  "leaf_remove p key = (case leaf_del p key of Inr (p', _) \<Rightarrow> p' | Inl _ \<Rightarrow> p)"

interpretation leaf: ordered_store page_items leaf_inv leaf_fits leaf_lookup leaf_store leaf_remove
proof
  fix p :: Page and k v :: "byte list"
  show "leaf_inv p \<Longrightarrow> keys_sorted (page_items p)" by (rule leaf_invD(3))
  show "leaf_inv p \<Longrightarrow> leaf_lookup p k = map_of (page_items p) k"
    by (simp add: leaf_lookup_def leaf_get_items)
  show "leaf_inv p \<Longrightarrow> leaf_fits p k v \<Longrightarrow> leaf_inv (leaf_store p k v)"
    by (erule (1) leaf_put_ok) (simp add: leaf_store_def)
  show "leaf_inv p \<Longrightarrow> leaf_fits p k v \<Longrightarrow>
      map_of (page_items (leaf_store p k v)) = (map_of (page_items p))(k \<mapsto> v)"
    by (erule (1) leaf_put_ok) (simp add: leaf_store_def)
  show "leaf_inv p \<Longrightarrow> leaf_inv (leaf_remove p k)"
    by (erule leaf_del_ok [where key = k]) (simp add: leaf_remove_def)
  show "leaf_inv p \<Longrightarrow> map_of (page_items (leaf_remove p k)) = (map_of (page_items p))(k := None)"
    by (erule leaf_del_ok [where key = k]) (simp add: leaf_remove_def)
qed

lemma leaf_inv_initLeaf: "page_ok p \<Longrightarrow> leaf_inv (initLeaf p) \<and> page_items (initLeaf p) = []"
  by (simp add: leaf_inv_def page_items_def initLeaf_empty)

end
