(* ===== verification/Pager.thy ===== *)
theory Pager
  imports Cells
begin

text \<open>
  The page cache and the pager (\<open>internal/storage/pager.go\<close>). Pages are Go
  pointers: the cache, the write buffer and the callers share them, so the state holds a
  heap of page objects and passes addresses around. The file is its bytes; every file
  operation consumes one entry of \<open>p_faults\<close> and fails when it is \<open>True\<close>.
\<close>

type_synonym addr = nat

section \<open>The LRU cache\<close>

text \<open>\<open>container/list\<close> in list order (front first) and the index \<open>items\<close>: the
  ids that have a list element, whose entry holds that id.\<close>

record lruCache =
  cap :: int
  cache_items :: "32 word set"
  cache_order :: "(32 word \<times> addr) list"
  hits :: "64 word"
  misses :: "64 word"

definition newLRUCache :: "int \<Rightarrow> lruCache" where
  "newLRUCache n = \<lparr>cap = n, cache_items = {}, cache_order = [], hits = 0, misses = 0\<rparr>"

definition moveToFront :: "32 word \<Rightarrow> (32 word \<times> addr) list \<Rightarrow> (32 word \<times> addr) list" where
  "moveToFront i xs = filter (\<lambda>x. fst x = i) xs @ filter (\<lambda>x. fst x \<noteq> i) xs"

definition lru_get :: "32 word \<Rightarrow> lruCache \<Rightarrow> addr option \<times> lruCache" where
  "lru_get i c =
     (if i \<in> cache_items c
      then (map_of (cache_order c) i,
            c\<lparr>cache_order := moveToFront i (cache_order c), hits := hits c + 1\<rparr>)
      else (None, c\<lparr>misses := misses c + 1\<rparr>))"

text \<open>\<open>put\<close>: the eviction loop of the source runs at most once. \<open>pinned\<close> is
  \<open>Pinned()\<close> of the page at an address.\<close>

definition lru_put :: "(addr \<Rightarrow> bool) \<Rightarrow> 32 word \<Rightarrow> addr \<Rightarrow> lruCache \<Rightarrow> addr option \<times> lruCache" where
  "lru_put pinned i pg c =
     (if i \<in> cache_items c
      then (None, c\<lparr>cache_order := (i, pg) # filter (\<lambda>x. fst x \<noteq> i) (cache_order c)\<rparr>)
      else
        let (evicted, c') =
          (if int (length (cache_order c)) \<ge> cap c \<and> cache_order c \<noteq> []
           then let (eid, ea) = last (cache_order c)
                in if pinned ea
                   then (None, c\<lparr>cache_order := (eid, ea) # butlast (cache_order c)\<rparr>)
                   else (Some ea, c\<lparr>cache_items := cache_items c - {eid},
                                     cache_order := butlast (cache_order c)\<rparr>)
           else (None, c))
        in (evicted, c'\<lparr>cache_order := (i, pg) # cache_order c', cache_items := insert i (cache_items c')\<rparr>))"

definition lru_all :: "lruCache \<Rightarrow> addr list" where
  "lru_all c = map snd (cache_order c)"

definition lru_remove :: "32 word \<Rightarrow> lruCache \<Rightarrow> lruCache" where
  "lru_remove i c =
     (if i \<in> cache_items c
      then c\<lparr>cache_items := cache_items c - {i},
             cache_order := filter (\<lambda>x. fst x \<noteq> i) (cache_order c)\<rparr>
      else c)"

definition lru_inv :: "lruCache \<Rightarrow> bool" where
  "lru_inv c \<longleftrightarrow> distinct (map fst (cache_order c)) \<and> cache_items c = set (map fst (cache_order c))"

section \<open>The pager state and its monad\<close>

record Pager =
  p_file :: "byte list"
  p_header :: DBHeader
  p_cache :: lruCache
  p_walBuf :: "(32 word \<times> addr) list"
  p_dirtyCount :: "64 word"
  p_freePages :: "32 word list"
  p_totalReads :: "64 word"
  p_totalWrites :: "64 word"
  p_heap :: "addr \<Rightarrow> Page option"
  p_next :: addr
  p_faults :: "bool list"

type_synonym 'a pm = "Pager \<Rightarrow> 'a res \<times> Pager"

definition returnP :: "'a \<Rightarrow> 'a pm" where
  "returnP x = (\<lambda>s. (Inr x, s))"

definition failP :: "err \<Rightarrow> 'a pm" where
  "failP e = (\<lambda>s. (Inl e, s))"

definition liftP :: "'a res \<Rightarrow> 'a pm" where
  "liftP r = (\<lambda>s. (r, s))"

definition bindP :: "'a pm \<Rightarrow> ('a \<Rightarrow> 'b pm) \<Rightarrow> 'b pm" where
  "bindP m f = (\<lambda>s. case m s of (Inl e, s') \<Rightarrow> (Inl e, s') | (Inr x, s') \<Rightarrow> f x s')"

definition getsP :: "(Pager \<Rightarrow> 'a) \<Rightarrow> 'a pm" where
  "getsP g = (\<lambda>s. (Inr (g s), s))"

definition modifyP :: "(Pager \<Rightarrow> Pager) \<Rightarrow> unit pm" where
  "modifyP g = (\<lambda>s. (Inr (), g s))"

lemma pm_simps [simp]:
  "returnP x s = (Inr x, s)" "failP e s = (Inl e, s)" "liftP r s = (r, s)"
  "getsP g s = (Inr (g s), s)" "modifyP h s = (Inr (), h s)"
  by (simp_all add: returnP_def failP_def liftP_def getsP_def modifyP_def)

lemma bindP_Inr [simp]: "m s = (Inr x, s') \<Longrightarrow> bindP m f s = f x s'"
  by (simp add: bindP_def)

lemma bindP_Inl [simp]: "m s = (Inl e, s') \<Longrightarrow> bindP m f s = (Inl e, s')"
  by (simp add: bindP_def)

lemma bindP_eq_Inr:
  "bindP m f s = (Inr y, t) \<longleftrightarrow> (\<exists>x s'. m s = (Inr x, s') \<and> f x s' = (Inr y, t))"
  by (cases "m s"; cases "fst (m s)") (auto simp: bindP_def)

lemma bindP_cong [fundef_cong]:
  assumes "s = s'" and "m s' = m' s'" and "\<And>x t. m' s' = (Inr x, t) \<Longrightarrow> f x t = f' x t"
  shows "bindP m f s = bindP m' f' s'"
  using assms by (cases "m' s'"; cases "fst (m' s')") (auto simp: bindP_def)

section \<open>File and heap\<close>

text \<open>One entry of the fault schedule is used up by every file operation.\<close>

definition ioTick :: "unit pm" where
  "ioTick = (\<lambda>s. case p_faults s of
     [] \<Rightarrow> (Inr (), s)
   | b # bs \<Rightarrow> (if b then Inl ErrIO else Inr (), s\<lparr>p_faults := bs\<rparr>))"

definition fileReadAt :: "nat \<Rightarrow> nat \<Rightarrow> byte list pm" where
  "fileReadAt off n = bindP ioTick (\<lambda>_. getsP (\<lambda>s. slice (p_file s) off n))"

definition write_at :: "byte list \<Rightarrow> nat \<Rightarrow> byte list \<Rightarrow> byte list" where
  "write_at f off bs = put (f @ replicate (off - length f) 0) off bs"

definition fileWriteAt :: "byte list \<Rightarrow> nat \<Rightarrow> unit pm" where
  "fileWriteAt bs off = bindP ioTick (\<lambda>_. modifyP (\<lambda>s. s\<lparr>p_file := write_at (p_file s) off bs\<rparr>))"

definition newObj :: "Page \<Rightarrow> addr pm" where
  "newObj pg = (\<lambda>s. (Inr (p_next s), s\<lparr>p_heap := (p_heap s)(p_next s := Some pg), p_next := Suc (p_next s)\<rparr>))"

definition readObj :: "addr \<Rightarrow> Page pm" where
  "readObj a = (\<lambda>s. case p_heap s a of None \<Rightarrow> (Inl Panic, s) | Some pg \<Rightarrow> (Inr pg, s))"

definition writeObj :: "addr \<Rightarrow> Page \<Rightarrow> unit pm" where
  "writeObj a pg = modifyP (\<lambda>s. s\<lparr>p_heap := (p_heap s)(a := Some pg)\<rparr>)"

definition pageOffset :: "32 word \<Rightarrow> nat" where
  "pageOffset i = unat i * PageSize"

text \<open>Bytes read short of a page leave the rest of \<open>pg.Data\<close> zero.\<close>

definition padPage :: "byte list \<Rightarrow> byte list" where
  "padPage bs = bs @ replicate (PageSize - length bs) 0"

section \<open>Operations of the pager\<close>

definition writePage :: "addr \<Rightarrow> unit pm" where
  "writePage a =
     bindP (readObj a) (\<lambda>pg.
     bindP (modifyP (\<lambda>s. s\<lparr>p_totalWrites := p_totalWrites s + 1\<rparr>)) (\<lambda>_.
     bindP (fileWriteAt (Data pg) (pageOffset (ID pg))) (\<lambda>_.
     writeObj a (pg\<lparr>Dirty := False\<rparr>))))"

definition isPinned :: "Pager \<Rightarrow> addr \<Rightarrow> bool" where
  "isPinned s a = (case p_heap s a of None \<Rightarrow> False | Some pg \<Rightarrow> Pinned pg)"

text \<open>\<open>evicted := p.cache.put(id, pg)\<close> and writing the evicted page back.\<close>

definition cachePut :: "32 word \<Rightarrow> addr \<Rightarrow> unit pm" where
  "cachePut i a =
     bindP (\<lambda>s. case lru_put (isPinned s) i a (p_cache s) of (ev, c) \<Rightarrow> (Inr ev, s\<lparr>p_cache := c\<rparr>)) (\<lambda>ev.
       case ev of
         None \<Rightarrow> returnP ()
       | Some e \<Rightarrow> bindP (readObj e) (\<lambda>pg. if Dirty pg then writePage e else returnP ()))"

definition GetPage :: "32 word \<Rightarrow> addr pm" where
  "GetPage i =
     bindP (\<lambda>s. case lru_get i (p_cache s) of (r, c) \<Rightarrow> (Inr r, s\<lparr>p_cache := c\<rparr>)) (\<lambda>r.
     case r of Some a \<Rightarrow> returnP a
     | None \<Rightarrow>
       bindP (getsP (\<lambda>s. map_of (p_walBuf s) i)) (\<lambda>w.
       case w of Some a \<Rightarrow> returnP a
       | None \<Rightarrow>
         bindP (modifyP (\<lambda>s. s\<lparr>p_totalReads := p_totalReads s + 1\<rparr>)) (\<lambda>_.
         bindP (fileReadAt (pageOffset i) PageSize) (\<lambda>bs.
         if bs = [] then failP (ErrInvalidPage i)
         else bindP (newObj ((newPage i)\<lparr>Data := padPage bs\<rparr>)) (\<lambda>a.
              bindP (cachePut i a) (\<lambda>_. returnP a))))))"

definition AllocatePage :: "addr pm" where
  "AllocatePage =
     bindP (\<lambda>s. if p_freePages s \<noteq> []
                then (Inr (last (p_freePages s)), s\<lparr>p_freePages := butlast (p_freePages s)\<rparr>)
                else (Inr (hPageCount (p_header s)),
                      s\<lparr>p_header := (p_header s)\<lparr>hPageCount := hPageCount (p_header s) + 1\<rparr>\<rparr>)) (\<lambda>i.
     bindP (newObj (newPage i)) (\<lambda>a.
     bindP (cachePut i a) (\<lambda>_. returnP a)))"

definition FreePage :: "32 word \<Rightarrow> unit pm" where
  "FreePage i = modifyP (\<lambda>s. s\<lparr>p_freePages := p_freePages s @ [i], p_cache := lru_remove i (p_cache s)\<rparr>)"

text \<open>\<open>MarkDirty\<close>: the result says whether the background flush was started.\<close>

definition MarkDirty :: "addr \<Rightarrow> bool pm" where
  "MarkDirty a =
     bindP (readObj a) (\<lambda>pg.
     bindP (writeObj a (pg\<lparr>Dirty := True\<rparr>)) (\<lambda>_.
     bindP (modifyP (\<lambda>s. s\<lparr>p_dirtyCount := p_dirtyCount s + 1\<rparr>)) (\<lambda>_.
     getsP (\<lambda>s. sint (p_dirtyCount s) \<ge> walBufSize))))"

fun writeDirty :: "addr list \<Rightarrow> unit pm" where
  "writeDirty [] = returnP ()"
| "writeDirty (a # as) =
     bindP (readObj a) (\<lambda>pg.
     bindP (if Dirty pg then writePage a else returnP ()) (\<lambda>_. writeDirty as))"

definition flushWAL :: "unit pm" where
  "flushWAL =
     bindP (\<lambda>s. (Inr (map snd (p_walBuf s)), s\<lparr>p_walBuf := []\<rparr>)) writeDirty"

definition paddedHeader :: "DBHeader \<Rightarrow> byte list" where
  "paddedHeader h = padPage (EncodeHeader h)"

definition FlushAll :: "unit pm" where
  "FlushAll =
     bindP flushWAL (\<lambda>_.
     bindP (getsP p_header) (\<lambda>h.
     bindP (fileWriteAt (paddedHeader h) 0) (\<lambda>_.
     bindP (getsP (\<lambda>s. lru_all (p_cache s))) (\<lambda>pages.
     bindP (writeDirty pages) (\<lambda>_. ioTick)))))"

definition PageCount :: "Pager \<Rightarrow> 32 word" where
  "PageCount s = hPageCount (p_header s)"

section \<open>Opening and closing\<close>

definition initHeader :: DBHeader where
  "initHeader = \<lparr>Magic = MagicString @ replicate (MagicSize - length MagicString) 0,
     Version = FileVersion, hPageSize = of_nat PageSize, hPageCount = 2,
     FreeList = InvalidPage, RootPage = InvalidPage, SchemaPage = 1\<rparr>"

definition initDB :: "unit pm" where
  "initDB =
     bindP (modifyP (\<lambda>s. s\<lparr>p_header := initHeader\<rparr>)) (\<lambda>_.
     bindP (fileWriteAt (paddedHeader initHeader) 0) (\<lambda>_.
     bindP (newObj (SetRightmostPointer InvalidPage (SetCellContentOffset (of_nat PageSize)
              (SetCellCount 0 (SetType PageTypeLeaf (newPage 1)))))) writePage))"

definition loadHeader :: "unit pm" where
  "loadHeader =
     bindP (fileReadAt 0 PageSize) (\<lambda>bs.
     bindP (liftP (DecodeHeader (padPage bs))) (\<lambda>h.
     if take (length MagicString) (Magic h) \<noteq> MagicString then failP ErrCorruptedDB
     else modifyP (\<lambda>s. s\<lparr>p_header := h\<rparr>)))"

text \<open>\<open>disk\<close> is the file's content, \<open>None\<close> when it does not exist yet.\<close>

definition NewPagerWithCacheSize :: "byte list option \<Rightarrow> bool list \<Rightarrow> int \<Rightarrow> unit res \<times> Pager" where
  "NewPagerWithCacheSize disk faults cacheSize =
     (let p = \<lparr>p_file = (case disk of None \<Rightarrow> [] | Some f \<Rightarrow> f), p_header = initHeader,
               p_cache = newLRUCache cacheSize, p_walBuf = [], p_dirtyCount = 0, p_freePages = [],
               p_totalReads = 0, p_totalWrites = 0, p_heap = (\<lambda>_. None), p_next = 0, p_faults = faults\<rparr>
      in bindP ioTick (\<lambda>_. if disk = None then initDB else loadHeader) p)"

definition NewPager :: "byte list option \<Rightarrow> bool list \<Rightarrow> unit res \<times> Pager" where
  "NewPager disk faults = NewPagerWithCacheSize disk faults DefaultCacheSize"

definition Close :: "unit pm" where
  "Close = bindP FlushAll (\<lambda>_. ioTick)"

end
