(* ===== verification/PagerInv.thy ===== *)
theory PagerInv
  imports Pager
begin

text \<open>
  Correctness of the page cache. The contents of a page, \<open>view\<close>, is what its cached
  object holds or, if it is not cached, what the file holds; the lemmas show that fetching,
  allocating, evicting and flushing pages never change it.
\<close>

section \<open>The LRU cache\<close>

lemma lru_inv_new: "lru_inv (newLRUCache n)"
  by (simp add: lru_inv_def newLRUCache_def)

lemma set_moveToFront [simp]: "set (moveToFront i xs) = set xs"
  by (auto simp: moveToFront_def)

lemma length_moveToFront [simp]: "length (moveToFront i xs) = length xs"
  using sum_length_filter_compl [of "\<lambda>x. fst x = i" xs] by (simp add: moveToFront_def)

lemma distinct_fst_filter: "distinct (map fst xs) \<Longrightarrow> distinct (map fst (filter P xs))"
  by (induction xs) auto

lemma distinct_moveToFront:
  assumes "distinct (map fst xs)"
  shows "distinct (map fst (moveToFront i xs))"
proof -
  have "distinct (map fst (filter (\<lambda>x. fst x = i) xs))" "distinct (map fst (filter (\<lambda>x. fst x \<noteq> i) xs))"
    using assms by (simp_all add: distinct_fst_filter)
  then show ?thesis by (auto simp: moveToFront_def)
qed

lemma set_fst_moveToFront: "set (map fst (moveToFront i xs)) = set (map fst xs)"
  unfolding set_map set_moveToFront ..

lemma map_of_moveToFront:
  assumes "distinct (map fst xs)"
  shows "map_of (moveToFront i xs) = map_of xs"
proof
  fix k
  show "map_of (moveToFront i xs) k = map_of xs k"
  proof (cases "map_of xs k")
    case None
    then have "k \<notin> fst ` set (moveToFront i xs)"
      unfolding set_moveToFront map_of_eq_None_iff .
    then have "map_of (moveToFront i xs) k = None" unfolding map_of_eq_None_iff .
    with None show ?thesis by simp
  next
    case (Some a)
    then have "(k, a) \<in> set (moveToFront i xs)" by (simp add: map_of_SomeD)
    then show ?thesis using distinct_moveToFront [OF assms, of i] Some by simp
  qed
qed

lemma lru_get_inv:
  assumes "lru_inv c" and "lru_get i c = (r, c')"
  shows "lru_inv c'" and "r = map_of (cache_order c) i" and "map_of (cache_order c') = map_of (cache_order c)"
    and "set (cache_order c') = set (cache_order c)" and "cap c' = cap c"
    and "length (cache_order c') = length (cache_order c)" and "cache_items c' = cache_items c"
proof -
  have n: "i \<notin> cache_items c \<Longrightarrow> map_of (cache_order c) i = None"
    using assms(1) by (simp add: lru_inv_def map_of_eq_None_iff)
  show "lru_inv c'"
    using assms by (auto simp: lru_get_def lru_inv_def distinct_moveToFront set_fst_moveToFront simp del: set_map split: if_splits)
  show "r = map_of (cache_order c) i"
    using assms(2) n by (auto simp: lru_get_def split: if_splits)
  show "map_of (cache_order c') = map_of (cache_order c)"
    using assms by (auto simp: lru_get_def lru_inv_def map_of_moveToFront split: if_splits)
  show "set (cache_order c') = set (cache_order c)" "cap c' = cap c"
    "length (cache_order c') = length (cache_order c)" "cache_items c' = cache_items c"
    using assms(2) by (auto simp: lru_get_def split: if_splits)
qed

text \<open>A put of a page that is not cached, when nothing is pinned: at capacity the entry at
  the back of the list, the least recently used one, leaves the cache.\<close>

lemma lru_put_new:
  assumes "lru_inv c" and "i \<notin> cache_items c" and "\<And>a. a \<in> snd ` set (cache_order c) \<Longrightarrow> \<not> pinned a"
  shows "lru_put pinned i pg c =
    (if int (length (cache_order c)) \<ge> cap c \<and> cache_order c \<noteq> []
     then (Some (snd (last (cache_order c))),
           c\<lparr>cache_items := insert i (cache_items c - {fst (last (cache_order c))}),
             cache_order := (i, pg) # butlast (cache_order c)\<rparr>)
     else (None, c\<lparr>cache_items := insert i (cache_items c), cache_order := (i, pg) # cache_order c\<rparr>))"
proof (cases "int (length (cache_order c)) \<ge> cap c \<and> cache_order c \<noteq> []")
  case True
  then have "\<not> pinned (snd (last (cache_order c)))" using assms(3) by simp
  with True assms(2) show ?thesis
    by (cases "last (cache_order c)") (simp add: lru_put_def)
next
  case False
  with assms(2) show ?thesis by (auto simp: lru_put_def)
qed

lemma butlast_distinct_fst:
  assumes "distinct (map fst xs)" and "xs \<noteq> []"
  shows "distinct (map fst (butlast xs))" "set (map fst (butlast xs)) = set (map fst xs) - {fst (last xs)}"
    "set xs = insert (last xs) (set (butlast xs))"
proof -
  have x: "xs = butlast xs @ [last xs]" using assms(2) by simp
  have d: "distinct (map fst (butlast xs) @ [fst (last xs)])"
    using assms(1) by (metis x map_append list.map(1,2))
  then show "distinct (map fst (butlast xs))" by simp
  have "set (map fst xs) = set (map fst (butlast xs)) \<union> {fst (last xs)}"
    by (subst x) simp
  with d show "set (map fst (butlast xs)) = set (map fst xs) - {fst (last xs)}" by auto
  show "set xs = insert (last xs) (set (butlast xs))" by (subst x) simp
qed

lemma lru_put_inv:
  assumes "lru_inv c" and "i \<notin> cache_items c" and "\<And>a. a \<in> snd ` set (cache_order c) \<Longrightarrow> \<not> pinned a"
    and "lru_put pinned i pg c = (ev, c')"
  shows "lru_inv c'" and "cap c' = cap c"
    and "length (cache_order c') \<le> Suc (length (cache_order c))"
    and "int (length (cache_order c)) \<le> max 1 (cap c) \<Longrightarrow> int (length (cache_order c')) \<le> max 1 (cap c)"
proof -
  have "lru_put pinned i pg c = (if int (length (cache_order c)) \<ge> cap c \<and> cache_order c \<noteq> []
     then (Some (snd (last (cache_order c))),
           c\<lparr>cache_items := insert i (cache_items c - {fst (last (cache_order c))}),
             cache_order := (i, pg) # butlast (cache_order c)\<rparr>)
     else (None, c\<lparr>cache_items := insert i (cache_items c), cache_order := (i, pg) # cache_order c\<rparr>))"
    by (rule lru_put_new [OF assms(1-3)])
  note p = trans [OF this [symmetric] assms(4)]
  show "lru_inv c'"
  proof (cases "int (length (cache_order c)) \<ge> cap c \<and> cache_order c \<noteq> []")
    case True
    have d: "distinct (map fst (cache_order c))" "cache_items c = set (map fst (cache_order c))"
      using assms(1) by (auto simp: lru_inv_def)
    have c': "cache_order c' = (i, pg) # butlast (cache_order c)"
      "cache_items c' = insert i (cache_items c - {fst (last (cache_order c))})"
      using True p by auto
    have e: "cache_items c - {fst (last (cache_order c))} = set (map fst (butlast (cache_order c)))"
      using butlast_distinct_fst(2) [OF d(1)] True d(2) by simp
    have "i \<notin> set (map fst (butlast (cache_order c)))"
      using assms(2) e by blast
    then show ?thesis
      using butlast_distinct_fst(1) [OF d(1)] True
      by (simp only: lru_inv_def c' e) simp
  next
    case False
    then have c': "cache_order c' = (i, pg) # cache_order c" "cache_items c' = insert i (cache_items c)"
      using p by (auto split: if_splits)
    show ?thesis using assms(1,2) by (simp only: lru_inv_def c') simp
  qed
  show "cap c' = cap c" "length (cache_order c') \<le> Suc (length (cache_order c))"
    using p by (auto split: if_splits)
  show "int (length (cache_order c)) \<le> max 1 (cap c) \<Longrightarrow> int (length (cache_order c')) \<le> max 1 (cap c)"
    using p by (auto split: if_splits)
qed

lemma lru_remove_inv: "lru_inv c \<Longrightarrow> lru_inv (lru_remove i c)"
  by (auto simp: lru_inv_def lru_remove_def distinct_fst_filter)

section \<open>The file\<close>

definition disk :: "byte list \<Rightarrow> 32 word \<Rightarrow> byte list option" where
  "disk f i = (let bs = slice f (pageOffset i) PageSize in if bs = [] then None else Some (padPage bs))"

lemma length_padPage: "length bs \<le> PageSize \<Longrightarrow> length (padPage bs) = PageSize"
  by (simp add: padPage_def)

lemma disk_length: "disk f i = Some d \<Longrightarrow> length d = PageSize"
  by (auto simp: disk_def Let_def length_padPage split: if_splits)

lemma length_write_at:
  "length (write_at f off bs) = max (length f) (off + length bs)"
  by (auto simp: write_at_def put_def)

lemma nth_write_at:
  assumes "j < max (length f) (off + length bs)"
  shows "write_at f off bs ! j =
    (if off \<le> j \<and> j < off + length bs then bs ! (j - off) else if j < length f then f ! j else 0)"
  using assms by (auto simp: write_at_def put_def nth_append min_def)

lemma slice_eq_Nil: "slice f off n = [] \<longleftrightarrow> n = 0 \<or> length f \<le> off"
  by (auto simp: slice_def)

lemma disk_nth:
  "disk f i = Some d \<longleftrightarrow> pageOffset i < length f \<and> length d = PageSize \<and>
    (\<forall>k < PageSize. d ! k = (if pageOffset i + k < length f then f ! (pageOffset i + k) else 0))"
proof (cases "pageOffset i < length f")
  case True
  let ?b = "slice f (pageOffset i) PageSize"
  have "length (padPage ?b) = PageSize" by (simp add: length_padPage)
  moreover have "padPage ?b ! k = (if pageOffset i + k < length f then f ! (pageOffset i + k) else 0)"
    if "k < PageSize" for k
    using that by (auto simp: padPage_def nth_append nth_slice)
  moreover have "disk f i = Some (padPage ?b)"
    using True by (simp add: disk_def Let_def slice_eq_Nil PageSize_def)
  ultimately show ?thesis using True by (auto intro!: nth_equalityI)
next
  case False
  then show ?thesis by (simp add: disk_def Let_def slice_eq_Nil)
qed

lemma pageOffset_disjoint:
  assumes "i \<noteq> j"
  shows "pageOffset i + PageSize \<le> pageOffset j \<or> pageOffset j + PageSize \<le> pageOffset i"
proof -
  have "unat i \<noteq> unat j" using assms unsigned_word_eqI by blast
  then have "Suc (unat i) \<le> unat j \<or> Suc (unat j) \<le> unat i" by linarith
  then have "Suc (unat i) * 4096 \<le> unat j * 4096 \<or> Suc (unat j) * 4096 \<le> unat i * 4096"
    by (meson mult_le_mono1)
  then show ?thesis by (simp add: pageOffset_def PageSize_def add.commute)
qed

lemma disk_write_same:
  "length d = PageSize \<Longrightarrow> disk (write_at f (pageOffset i) d) i = Some d"
  by (simp add: disk_nth length_write_at nth_write_at PageSize_def max_def)

lemma disk_write_other:
  assumes "length d = PageSize" and "i \<noteq> j" and "disk f j = Some e"
  shows "disk (write_at f (pageOffset i) d) j = Some e"
  using assms(3) pageOffset_disjoint [OF assms(2)] assms(1)
  unfolding disk_nth by (auto simp: length_write_at nth_write_at)

section \<open>The invariant\<close>

definition page_valid :: "Pager \<Rightarrow> 32 word \<Rightarrow> addr \<Rightarrow> bool" where
  "page_valid s i a \<longleftrightarrow> (\<exists>pg. p_heap s a = Some pg \<and> ID pg = i \<and> page_ok pg \<and> pins pg = 0)"

definition cached :: "Pager \<Rightarrow> 32 word \<Rightarrow> addr option" where
  "cached s = map_of (cache_order (p_cache s))"

definition view :: "Pager \<Rightarrow> 32 word \<Rightarrow> byte list option" where
  "view s i = (case cached s i of Some a \<Rightarrow> map_option Data (p_heap s a) | None \<Rightarrow> disk (p_file s) i)"

text \<open>Every cached page is a valid object below the allocation pointer; apart from the
  addresses in \<open>X\<close> a page that is not dirty agrees with the file.\<close>

definition pager_inv :: "addr set \<Rightarrow> Pager \<Rightarrow> bool" where
  "pager_inv X s \<longleftrightarrow> lru_inv (p_cache s) \<and> p_walBuf s = [] \<and>
     (\<forall>i a. cached s i = Some a \<longrightarrow> page_valid s i a \<and>
        (a \<notin> X \<longrightarrow> (\<forall>pg. p_heap s a = Some pg \<longrightarrow> \<not> Dirty pg \<longrightarrow> disk (p_file s) i = Some (Data pg)))) \<and>
     (\<forall>a. p_heap s a \<noteq> None \<longrightarrow> a < p_next s)"

definition no_fault :: "Pager \<Rightarrow> bool" where
  "no_fault s \<longleftrightarrow> True \<notin> set (p_faults s)"

lemma pager_invD:
  assumes "pager_inv X s"
  shows "lru_inv (p_cache s)" "p_walBuf s = []" "p_heap s a \<noteq> None \<Longrightarrow> a < p_next s"
    "cached s i = Some b \<Longrightarrow> page_valid s i b"
    "cached s i = Some b \<Longrightarrow> b \<notin> X \<Longrightarrow> p_heap s b = Some pg \<Longrightarrow> \<not> Dirty pg \<Longrightarrow> disk (p_file s) i = Some (Data pg)"
  using assms by (auto simp: pager_inv_def)

lemma page_validE:
  assumes "page_valid s i a"
  obtains pg where "p_heap s a = Some pg" "ID pg = i" "page_ok pg" "pins pg = 0" "length (Data pg) = PageSize"
  using assms by (auto simp: page_valid_def page_ok_def)

lemma view_cached: "cached s i = Some a \<Longrightarrow> p_heap s a = Some pg \<Longrightarrow> view s i = Some (Data pg)"
  by (simp add: view_def)

lemma view_uncached: "cached s i = None \<Longrightarrow> view s i = disk (p_file s) i"
  by (simp add: view_def)

lemma view_length:
  assumes "pager_inv X s" and "view s i = Some d"
  shows "length d = PageSize"
proof (cases "cached s i")
  case None
  with assms(2) show ?thesis by (simp add: view_def disk_length)
next
  case (Some a)
  from pager_invD(4) [OF assms(1) Some] show ?thesis
    by (rule page_validE) (use Some assms(2) in \<open>auto simp: view_def\<close>)
qed

lemma cached_inj:
  assumes "pager_inv X s" and "cached s i = Some a" and "cached s j = Some a"
  shows "i = j"
  using pager_invD(4) [OF assms(1,2)] pager_invD(4) [OF assms(1,3)] by (auto simp: page_valid_def)

lemma ioTick_ok: "no_fault s \<Longrightarrow> \<exists>fs. ioTick s = (Inr (), s\<lparr>p_faults := fs\<rparr>) \<and> True \<notin> set fs"
  by (cases "p_faults s") (auto simp: ioTick_def no_fault_def intro: exI [of _ "p_faults s"])

end
