(* ===== verification/PagerOps.thy ===== *)
theory PagerOps
  imports PagerInv
begin

text \<open>
  What the operations of the pager do to the contents of pages, when no file operation
  fails: fetching and allocating keep every page, flushing makes the file agree with them.
\<close>

lemma no_fault_simps [simp]:
  "no_fault (s\<lparr>p_cache := c\<rparr>) = no_fault s" "no_fault (s\<lparr>p_heap := h\<rparr>) = no_fault s"
  "no_fault (s\<lparr>p_file := f\<rparr>) = no_fault s" "no_fault (s\<lparr>p_next := n\<rparr>) = no_fault s"
  "no_fault (s\<lparr>p_header := dh\<rparr>) = no_fault s" "no_fault (s\<lparr>p_freePages := fp\<rparr>) = no_fault s"
  "no_fault (s\<lparr>p_totalReads := w\<rparr>) = no_fault s" "no_fault (s\<lparr>p_totalWrites := w\<rparr>) = no_fault s"
  "no_fault (s\<lparr>p_walBuf := wb\<rparr>) = no_fault s" "no_fault (s\<lparr>p_faults := fs\<rparr>) = (True \<notin> set fs)"
  by (simp_all add: no_fault_def)

lemma writePage_ok:
  assumes "no_fault s" and "p_heap s a = Some pg"
  obtains fs where "True \<notin> set fs" and "writePage a s =
    (Inr (), s\<lparr>p_totalWrites := p_totalWrites s + 1, p_faults := fs,
       p_file := write_at (p_file s) (pageOffset (ID pg)) (Data pg),
       p_heap := (p_heap s)(a \<mapsto> pg\<lparr>Dirty := False\<rparr>)\<rparr>)"
proof -
  have "no_fault (s\<lparr>p_totalWrites := p_totalWrites s + 1\<rparr>)" using assms(1) by simp
  from ioTick_ok [OF this] obtain fs where f: "True \<notin> set fs"
    "ioTick (s\<lparr>p_totalWrites := p_totalWrites s + 1\<rparr>) = (Inr (), s\<lparr>p_totalWrites := p_totalWrites s + 1, p_faults := fs\<rparr>)"
    by auto
  then show ?thesis using that [of fs] assms(2)
    by (simp add: writePage_def readObj_def fileWriteAt_def writeObj_def bindP_def)
qed

lemma map_of_butlast:
  assumes "distinct (map fst xs)" and "xs \<noteq> []"
  shows "map_of (butlast xs) = (map_of xs)(fst (last xs) := None)"
proof -
  have x: "xs = butlast xs @ [last xs]" using assms(2) by simp
  have "fst (last xs) \<notin> fst ` set (butlast xs)"
    using assms(1) x by (metis butlast_distinct_fst(2) [OF assms] Diff_iff image_set insertI1)
  then have "map_of (butlast xs) (fst (last xs)) = None" by (simp only: map_of_eq_None_iff not_False_eq_True)
  moreover have "map_of xs = map_of [last xs] ++ map_of (butlast xs)"
    by (subst x) (simp only: map_of_append)
  ultimately show ?thesis
    by (cases "last xs") (auto simp: fun_eq_iff map_add_def split: option.splits)
qed

text \<open>\<open>grows s s'\<close>: pages with contents stay below the pages that had contents
  before (writing behind the end of the file fills the gap with zero pages).\<close>

definition grows :: "Pager \<Rightarrow> Pager \<Rightarrow> bool" where
  "grows s s' \<longleftrightarrow> (\<forall>j. view s' j \<noteq> None \<longrightarrow> (\<exists>e. view s e \<noteq> None \<and> j \<le> e))"

lemma grows_refl [simp]: "grows s s"
  by (auto simp: grows_def)

lemma grows_trans: "grows s t \<Longrightarrow> grows t u \<Longrightarrow> grows s u"
  unfolding grows_def
proof (intro allI impI)
  fix j
  assume st: "\<forall>j. view t j \<noteq> None \<longrightarrow> (\<exists>e. view s e \<noteq> None \<and> j \<le> e)"
    and tu: "\<forall>j. view u j \<noteq> None \<longrightarrow> (\<exists>e. view t e \<noteq> None \<and> j \<le> e)" and j: "view u j \<noteq> None"
  from tu j obtain e where e: "view t e \<noteq> None" "j \<le> e" by blast
  with st obtain e' where "view s e' \<noteq> None" "e \<le> e'" by blast
  with e(2) show "\<exists>e. view s e \<noteq> None \<and> j \<le> e" by (intro exI [of _ e']) auto
qed

lemma grows_upd: "grows s t \<Longrightarrow> view s i \<noteq> None \<Longrightarrow> view u = (view t)(i \<mapsto> d) \<Longrightarrow> grows s u"
  by (auto simp: grows_def split: if_splits)

lemma disk_write_dom:
  assumes "length d = PageSize" and "disk (write_at f (pageOffset e) d) j \<noteq> None"
  shows "disk f j \<noteq> None \<or> j \<le> e"
proof -
  have d: "disk g j \<noteq> None \<longleftrightarrow> pageOffset j < length g" for g
    by (simp add: disk_def Let_def slice_eq_Nil PageSize_def not_le)
  have "pageOffset j < length f \<or> pageOffset j < pageOffset e + PageSize"
    using assms(2) unfolding d length_write_at assms(1) by auto
  moreover have "unat j \<le> unat e" if "pageOffset j < pageOffset e + PageSize"
  proof -
    from that have "unat j * 4096 < Suc (unat e) * 4096" by (simp add: pageOffset_def PageSize_def)
    then have "unat j < Suc (unat e)" by (simp only: mult_less_cancel2)
    then show ?thesis by simp
  qed
  ultimately show ?thesis unfolding d word_le_nat_alt by blast
qed

lemma cached_view: "pager_inv X s \<Longrightarrow> cached s i = Some a \<Longrightarrow> view s i \<noteq> None"
  using pager_invD(4) [of X s i a] by (auto simp: view_def page_valid_def)

text \<open>\<open>keeps s s'\<close>: every page that had contents still has them, and nothing but the
  cache, the heap, the file and the counters changed.\<close>

definition keeps :: "Pager \<Rightarrow> Pager \<Rightarrow> bool" where
  "keeps s s' \<longleftrightarrow> view s \<subseteq>\<^sub>m view s' \<and> grows s s' \<and> p_header s' = p_header s \<and>
     p_freePages s' = p_freePages s \<and> cap (p_cache s') = cap (p_cache s)"

lemma keeps_refl [simp]: "keeps s s"
  by (simp add: keeps_def)

lemma keeps_trans: "keeps s t \<Longrightarrow> keeps t u \<Longrightarrow> keeps s u"
  by (auto simp: keeps_def intro: map_le_trans grows_trans)

lemma keeps_view: "keeps s t \<Longrightarrow> view s i = Some d \<Longrightarrow> view t i = Some d"
  by (auto simp: keeps_def map_le_def dom_def)

definition room :: "Pager \<Rightarrow> nat \<Rightarrow> bool" where
  "room s n \<longleftrightarrow> int (length (cache_order (p_cache s)) + n) \<le> cap (p_cache s)"

text \<open>Inserting a fresh object for page \<open>i\<close> into the cache, writing back the page this evicts.\<close>

lemma cachePut_ok:
  assumes inv: "pager_inv {} s" and nf: "no_fault s" and new: "cached s i = None"
    and obj: "p_heap s a = Some pg" "ID pg = i" "page_ok pg" "pins pg = 0"
    and fresh: "\<And>j. cached s j \<noteq> Some a"
    and clean: "a \<notin> X \<Longrightarrow> \<not> Dirty pg \<Longrightarrow> disk (p_file s) i = Some (Data pg)"
  obtains s' where "cachePut i a s = (Inr (), s')" and "pager_inv X s'" and "no_fault s'"
    and "cached s' i = Some a" and "p_heap s' a = Some pg"
    and "\<And>j d. j \<noteq> i \<Longrightarrow> view s j = Some d \<Longrightarrow> view s' j = Some d"
    and "p_header s' = p_header s" and "p_freePages s' = p_freePages s"
    and "cap (p_cache s') = cap (p_cache s)" and "p_next s' = p_next s"
    and "room s 1 \<Longrightarrow> cached s' = (cached s)(i \<mapsto> a) \<and> p_heap s' = p_heap s \<and> p_file s' = p_file s"
    and "room s (Suc n) \<Longrightarrow> room s' n"
    and "\<And>j. j \<noteq> i \<Longrightarrow> view s' j \<noteq> None \<Longrightarrow> \<exists>e. view s e \<noteq> None \<and> j \<le> e"
proof -
  let ?c = "p_cache s"
  note I = pager_invD [OF inv]
  have ni: "i \<notin> cache_items ?c"
    using new I(1) by (auto simp: cached_def lru_inv_def map_of_eq_None_iff)
  have d: "distinct (map fst (cache_order ?c))" using I(1) by (simp add: lru_inv_def)
  have unp: "\<not> isPinned s x" if "x \<in> snd ` set (cache_order ?c)" for x
  proof -
    from that obtain j where "(j, x) \<in> set (cache_order ?c)" by auto
    then have "cached s j = Some x" using d by (simp add: cached_def)
    from I(4) [OF this] show ?thesis by (auto simp: page_valid_def isPinned_def Pinned_def)
  qed
  note put = lru_put_new [where pinned = "isPinned s" and pg = a, OF I(1) ni unp]
  show ?thesis
  proof (cases "int (length (cache_order ?c)) \<ge> cap ?c \<and> cache_order ?c \<noteq> []")
    case False
    let ?c' = "?c\<lparr>cache_items := insert i (cache_items ?c), cache_order := (i, a) # cache_order ?c\<rparr>"
    let ?s = "s\<lparr>p_cache := ?c'\<rparr>"
    have pp: "lru_put (isPinned s) i a ?c = (None, ?c')" using put False by auto
    have c: "cached ?s = (cached s)(i \<mapsto> a)" by (simp add: cached_def)
    have "lru_inv ?c'" by (rule lru_put_inv(1) [OF I(1) ni unp pp])
    then have "pager_inv X ?s"
      using inv obj clean by (auto simp: pager_inv_def c page_valid_def)
    moreover have "cachePut i a s = (Inr (), ?s)" using pp by (simp add: cachePut_def bindP_def)
    moreover have "view ?s j = view s j" if "j \<noteq> i" for j
      using that by (simp add: view_def c split: option.split)
    moreover from this have "\<exists>e. view s e \<noteq> None \<and> j \<le> e" if "j \<noteq> i" "view ?s j \<noteq> None" for j
      using that by (intro exI [of _ j]) simp
    moreover have "room s (Suc n) \<Longrightarrow> room ?s n" by (simp add: room_def)
    ultimately show ?thesis using that [of ?s] nf c obj(1) by simp
  next
    case True
    obtain eid e where l: "last (cache_order ?c) = (eid, e)" by fastforce
    have "(eid, e) \<in> set (cache_order ?c)" using True l by (metis last_in_set)
    then have ce: "cached s eid = Some e" using d by (simp add: cached_def)
    then have ne: "eid \<noteq> i" "e \<noteq> a" using new fresh by auto
    obtain pe where pe: "p_heap s e = Some pe" "ID pe = eid" "page_ok pe" "pins pe = 0" "length (Data pe) = PageSize"
      by (rule page_validE [OF I(4) [OF ce]])
    let ?c' = "?c\<lparr>cache_items := insert i (cache_items ?c - {eid}), cache_order := (i, a) # butlast (cache_order ?c)\<rparr>"
    let ?s = "s\<lparr>p_cache := ?c'\<rparr>"
    have pp: "lru_put (isPinned s) i a ?c = (Some e, ?c')" using put True l by auto
    have linv: "lru_inv ?c'" by (rule lru_put_inv(1) [OF I(1) ni unp pp])
    have cc: "map_of (cache_order ?c') = (cached s)(eid := None, i \<mapsto> a)"
      using map_of_butlast [OF d] True l by (simp add: cached_def)
    have eu: "cached s j \<noteq> Some e" if "j \<noteq> eid" for j
      using cached_inj [OF inv ce, of j] that by auto
    have noroom: "\<not> room s 1" "\<not> room s (Suc n)" using True by (auto simp: room_def)
    show ?thesis
    proof (cases "Dirty pe")
      case False
      have c: "cached ?s = (cached s)(eid := None, i \<mapsto> a)" using cc by (simp add: cached_def)
      have de: "disk (p_file s) eid = Some (Data pe)" using I(5) [OF ce _ pe(1) False] by simp
      have "pager_inv X ?s"
        using inv obj clean linv by (auto simp: pager_inv_def c page_valid_def)
      moreover have "cachePut i a s = (Inr (), ?s)"
        using pp pe(1) False by (simp add: cachePut_def bindP_def readObj_def)
      moreover have "view ?s j = Some x" if "j \<noteq> i" "view s j = Some x" for j x
        using that de ce pe(1) by (cases "j = eid") (simp_all add: view_def c split: option.splits)
      moreover have "view s j \<noteq> None" if "j \<noteq> i" "view ?s j \<noteq> None" for j
        using that de ce pe(1) by (cases "j = eid") (auto simp add: view_def c split: option.splits)
      then have "\<exists>e. view s e \<noteq> None \<and> j \<le> e" if "j \<noteq> i" "view ?s j \<noteq> None" for j
        using that by (intro exI [of _ j]) simp
      ultimately show ?thesis using that [of ?s] nf c obj(1) noroom by simp
    next
      case dirty: True
      have "p_heap ?s e = Some pe" "no_fault ?s" using pe nf by simp_all
      then obtain fs where w: "True \<notin> set fs" "writePage e ?s =
        (Inr (), ?s\<lparr>p_totalWrites := p_totalWrites ?s + 1, p_faults := fs,
           p_file := write_at (p_file ?s) (pageOffset (ID pe)) (Data pe),
           p_heap := (p_heap ?s)(e \<mapsto> pe\<lparr>Dirty := False\<rparr>)\<rparr>)" (is "_ = (_, ?t)")
        using writePage_ok [of ?s e pe] by blast
      define t where "t = ?t"
      have r: "cachePut i a s = (Inr (), t)"
        using pp pe(1) dirty w(2) by (simp add: t_def cachePut_def bindP_def readObj_def)
      have c: "cached t = (cached s)(eid := None, i \<mapsto> a)" using cc by (simp add: t_def cached_def)
      have h: "p_heap t = (p_heap s)(e \<mapsto> pe\<lparr>Dirty := False\<rparr>)"
        and f: "p_file t = write_at (p_file s) (pageOffset eid) (Data pe)"
        and o: "p_cache t = ?c'" "p_next t = p_next s" "p_walBuf t = []" "p_header t = p_header s"
          "p_freePages t = p_freePages s" "no_fault t"
        using pe(2) I(2) w(1) by (simp_all add: t_def)
      have dk: "disk (p_file t) j = Some x" if "j \<noteq> eid" "disk (p_file s) j = Some x" for j x
        unfolding f using that by (intro disk_write_other [OF pe(5)]) auto
      have "pager_inv X t"
        unfolding pager_inv_def
      proof (intro conjI allI impI)
        fix j b assume jb: "cached t j = Some b"
        show "page_valid t j b"
        proof (cases "j = i")
          case True
          with jb c obj ne show ?thesis by (simp add: page_valid_def h)
        next
          case False
          with jb c have "cached s j = Some b" "j \<noteq> eid" by (auto split: if_splits)
          with I(4) [of j b] eu [of j] show ?thesis by (auto simp: page_valid_def h)
        qed
        fix q assume q: "b \<notin> X" "p_heap t b = Some q" "\<not> Dirty q"
        show "disk (p_file t) j = Some (Data q)"
        proof (cases "j = i")
          case True
          with jb c obj ne q clean show ?thesis by (intro dk) (auto simp: h)
        next
          case False
          with jb c have "cached s j = Some b" "j \<noteq> eid" by (auto split: if_splits)
          with I(5) [of j b q] eu [of j] q show ?thesis by (intro dk) (auto simp: h)
        qed
      next
        fix b assume "p_heap t b \<noteq> None"
        then have "p_heap s b \<noteq> None" using pe(1) by (auto simp: h split: if_splits)
        from I(3) [OF this] show "b < p_next t" by (simp add: o)
      qed (use linv o in simp_all)
      moreover have "view t j = Some x" if j: "j \<noteq> i" "view s j = Some x" for j x
      proof (cases "j = eid")
        case True
        then have "x = Data pe" using j ce pe(1) by (simp add: view_def)
        then show ?thesis
          using True ne disk_write_same [OF pe(5)] by (simp add: view_def c f)
      next
        case False
        then show ?thesis using j dk [of j x] eu [OF False]
          by (auto simp: view_def c h split: option.splits)
      qed
      moreover have "\<exists>e. view s e \<noteq> None \<and> j \<le> e" if j: "j \<noteq> i" "view t j \<noteq> None" for j
      proof (cases "view s j")
        case None
        then have "cached s j = None" using cached_view [OF inv, of j] by (cases "cached s j") auto
        with j None have "disk (write_at (p_file s) (pageOffset eid) (Data pe)) j \<noteq> None" "disk (p_file s) j = None"
          by (simp_all add: view_def c f split: if_splits)
        with disk_write_dom [OF pe(5)] have "j \<le> eid" by blast
        then show ?thesis using cached_view [OF inv ce] by blast
      next
        case (Some x)
        then show ?thesis by (intro exI [of _ j]) simp
      qed
      ultimately show ?thesis using that [of t] r o h c obj(1) ne noroom by simp
    qed
  qed
qed

section \<open>Fetching a page\<close>

lemma fileReadAt_ok:
  assumes "no_fault s"
  obtains fs where "True \<notin> set fs" and "fileReadAt off n s = (Inr (slice (p_file s) off n), s\<lparr>p_faults := fs\<rparr>)"
  using ioTick_ok [OF assms] that by (fastforce simp: fileReadAt_def bindP_def)

lemma cached_cong: "cache_order (p_cache s) = cache_order (p_cache t) \<Longrightarrow> cached s = cached t"
  by (simp add: cached_def)

lemma view_cong:
  assumes "cached s = cached t" and "p_heap s = p_heap t" and "p_file s = p_file t"
  shows "view s = view t"
  using assms by (auto simp: view_def fun_eq_iff split: option.split)

lemma page_valid_cong: "p_heap s = p_heap t \<Longrightarrow> page_valid s = page_valid t"
  by (simp add: page_valid_def fun_eq_iff)

lemma pager_inv_cong:
  assumes "pager_inv X s" and "cached t = cached s" and "lru_inv (p_cache t)" and "p_heap t = p_heap s"
    and "p_file t = p_file s" and "p_walBuf t = p_walBuf s" and "p_next s \<le> p_next t"
  shows "pager_inv X t"
  using assms(1,3-) page_valid_cong [OF assms(4)] unfolding pager_inv_def assms(2)
  by (auto intro: order_less_le_trans)

lemma inv_fresh:
  assumes "pager_inv X s"
  shows "p_heap s (p_next s) = None" and "cached s j \<noteq> Some (p_next s)"
proof -
  show n: "p_heap s (p_next s) = None" using pager_invD(3) [OF assms, of "p_next s"] by fastforce
  show "cached s j \<noteq> Some (p_next s)"
    using n pager_invD(4) [OF assms, of j "p_next s"] by (auto simp: page_valid_def)
qed

text \<open>Adding an object to the heap changes nothing that is cached.\<close>

lemma newObj_ok:
  assumes inv: "pager_inv X s" and t_def: "t = s\<lparr>p_heap := (p_heap s)(p_next s \<mapsto> pg), p_next := Suc (p_next s)\<rparr>"
  shows "pager_inv X t" and "cached t = cached s" and "view t = view s" and "p_heap t (p_next s) = Some pg"
    and "cached t j \<noteq> Some (p_next s)" and "room t = room s"
proof -
  note I = pager_invD [OF inv] and F = inv_fresh [OF inv]
  show c: "cached t = cached s" by (simp add: t_def cached_def)
  have h: "p_heap t a = p_heap s a" if "cached s i = Some a" for i a
    using that F(2) by (auto simp: t_def)
  show "p_heap t (p_next s) = Some pg" by (simp add: t_def)
  show "cached t j \<noteq> Some (p_next s)" using F(2) c by simp
  show "view t = view s"
  proof
    fix i
    have "p_file t = p_file s" by (simp add: t_def)
    then show "view t i = view s i" using h [of i] by (simp add: view_def c split: option.split)
  qed
  show "room t = room s" by (auto simp: room_def t_def fun_eq_iff)
  show "pager_inv X t"
    unfolding pager_inv_def
  proof (intro conjI allI impI)
    fix i a assume i: "cached t i = Some a"
    then show "page_valid t i a" using I(4) [of i a] h [of i a] by (simp add: c page_valid_def)
    fix q assume "a \<notin> X" "p_heap t a = Some q" "\<not> Dirty q"
    moreover have "cached s i = Some a" "p_file t = p_file s" using i c by (simp, simp add: t_def)
    ultimately show "disk (p_file t) i = Some (Data q)" using I(5) [of i a q] h [of i a] by simp
  next
    fix a assume "p_heap t a \<noteq> None"
    then show "a < p_next t" using I(3) [of a] by (auto simp: t_def less_Suc_eq split: if_splits)
  qed (use I(1,2) in \<open>simp_all add: t_def\<close>)
qed

text \<open>A page that has contents is fetched: the object returned holds them, it is in the
  cache, and every other page keeps its contents. With room in the cache nothing else moves.\<close>

lemma GetPage_ok:
  assumes inv: "pager_inv {} s" and nf: "no_fault s" and v: "view s i = Some d"
  obtains s' a pg where "GetPage i s = (Inr a, s')" and "pager_inv {} s'" and "no_fault s'"
    and "cached s' i = Some a" and "p_heap s' a = Some pg" and "Data pg = d" and "ID pg = i"
    and "keeps s s'" and "room s 1 \<Longrightarrow> cached s \<subseteq>\<^sub>m cached s'"
    and "cached s i \<noteq> None \<Longrightarrow> cached s' = cached s \<and> p_heap s' = p_heap s \<and> p_file s' = p_file s"
    and "room s (Suc n) \<Longrightarrow> room s' n"
proof -
  note I = pager_invD [OF inv]
  obtain r c where g: "lru_get i (p_cache s) = (r, c)" by fastforce
  note G = lru_get_inv [OF I(1) g]
  let ?s = "s\<lparr>p_cache := c\<rparr>"
  have cs: "cached ?s = cached s" using G(3) by (simp add: cached_def)
  have inv': "pager_inv {} ?s" by (rule pager_inv_cong [OF inv cs]) (use G(1) in simp_all)
  have vs: "view ?s = view s" by (rule view_cong [OF cs]) simp_all
  have rs: "room ?s n = room s n" for n by (simp add: room_def G)
  have r: "r = cached s i" using G(2) by (simp add: cached_def)
  show ?thesis
  proof (cases "cached s i")
    case (Some a)
    obtain pg where pg: "p_heap s a = Some pg" "ID pg = i"
      by (rule page_validE [OF I(4) [OF Some]])
    have "GetPage i s = (Inr a, ?s)" using g r Some by (simp add: GetPage_def bindP_def)
    moreover have "Data pg = d" using v Some pg by (simp add: view_def)
    moreover have "keeps s ?s" using vs G grows_refl [of s] unfolding keeps_def grows_def by simp
    moreover have "room s (Suc n) \<Longrightarrow> room ?s n" using rs by (simp add: room_def G(6) G(5))
    ultimately show ?thesis using that [of a ?s pg] pg cs inv' nf Some by simp
  next
    case None
    have dk: "disk (p_file s) i = Some d" using v None by (simp add: view_def)
    let ?bs = "slice (p_file s) (pageOffset i) PageSize"
    let ?pg = "(newPage i)\<lparr>Data := padPage ?bs\<rparr>"
    from dk have bs: "?bs \<noteq> []" "padPage ?bs = d" by (auto simp: disk_def Let_def split: if_splits)
    let ?s1 = "?s\<lparr>p_totalReads := p_totalReads s + 1\<rparr>"
    have "no_fault ?s1" using nf by simp
    then obtain fs where fs: "True \<notin> set fs"
      "fileReadAt (pageOffset i) PageSize ?s1 = (Inr (slice (p_file ?s1) (pageOffset i) PageSize), ?s1\<lparr>p_faults := fs\<rparr>)"
      using fileReadAt_ok by blast
    let ?s2 = "?s1\<lparr>p_faults := fs\<rparr>"
    have c2: "cached ?s2 = cached s" using cs by (simp add: cached_def)
    have inv2: "pager_inv {} ?s2"
      by (rule pager_inv_cong [OF inv' c2 [folded cs]]) (use G(1) in simp_all)
    let ?a = "p_next s"
    define s3 where "s3 = ?s2\<lparr>p_heap := (p_heap ?s2)(p_next ?s2 \<mapsto> ?pg), p_next := Suc (p_next ?s2)\<rparr>"
    note N = newObj_ok [OF inv2 s3_def]
    have v3: "view s3 = view s"
      unfolding N(3) by (rule view_cong [OF c2]) simp_all
    have len: "length d = PageSize" by (rule disk_length [OF dk])
    have dirt: "disk (p_file s3) i = Some (Data ?pg)" using dk bs by (simp add: s3_def)
    have e: "p_heap s3 ?a = Some ?pg" "cached s3 j \<noteq> Some ?a" "no_fault s3" "cached s3 i = None" for j
      using N(4,5) fs(1) None c2 N(2) by (simp_all add: s3_def)
    have ok: "page_ok ?pg" "ID ?pg = i" "pins ?pg = 0" using len bs by (simp_all add: page_ok_def newPage_def)
    obtain s' where s': "cachePut i ?a s3 = (Inr (), s')" "pager_inv {} s'" "no_fault s'"
      "cached s' i = Some ?a" "p_heap s' ?a = Some ?pg"
      "\<And>j d. j \<noteq> i \<Longrightarrow> view s3 j = Some d \<Longrightarrow> view s' j = Some d"
      "p_header s' = p_header s3" "p_freePages s' = p_freePages s3" "cap (p_cache s') = cap (p_cache s3)"
      "room s3 1 \<Longrightarrow> cached s' = (cached s3)(i \<mapsto> ?a) \<and> p_heap s' = p_heap s3 \<and> p_file s' = p_file s3"
      "room s3 (Suc n) \<Longrightarrow> room s' n"
      "\<And>j. j \<noteq> i \<Longrightarrow> view s' j \<noteq> None \<Longrightarrow> \<exists>e. view s3 e \<noteq> None \<and> j \<le> e"
      by (rule cachePut_ok [OF N(1) e(3,4,1) ok(2,1,3) e(2), where X = "{}" and n = n]) (use dirt in auto)
    have got: "GetPage i s = (Inr ?a, s')"
      using g r None I(2) fs(2) bs s'(1) by (simp add: GetPage_def bindP_def newObj_def s3_def)
    have dpg: "Data ?pg = d" using bs by simp
    have "view s j = Some x \<Longrightarrow> view s' j = Some x" for j x
      using s'(4,5,6) v3 v bs by (cases "j = i") (simp_all add: view_def)
    moreover have "grows s s'"
      unfolding grows_def
    proof (intro allI impI)
      fix j assume "view s' j \<noteq> None"
      then show "\<exists>e. view s e \<noteq> None \<and> j \<le> e"
        using s'(12) [of j] v v3 by (cases "j = i") auto
    qed
    ultimately have "keeps s s'" using s'(7,8,9) G(5) by (auto simp: keeps_def map_le_def s3_def dom_def)
    moreover have "room s3 m = room s m" for m by (simp add: s3_def room_def G)
    moreover have "cached s \<subseteq>\<^sub>m (cached s)(i \<mapsto> ?a)" using None by (auto simp: map_le_def)
    ultimately show ?thesis using that [of ?a s' ?pg] got dpg s' ok None N(2) c2 by simp
  qed
qed

lemma GetPage_missing:
  assumes inv: "pager_inv {} s" and nf: "no_fault s" and v: "view s i = None"
  shows "\<exists>s'. GetPage i s = (Inl (ErrInvalidPage i), s')"
proof -
  note I = pager_invD [OF inv]
  obtain r c where g: "lru_get i (p_cache s) = (r, c)" by fastforce
  have n: "cached s i = None"
    using v I(4) [of i] by (cases "cached s i") (auto simp: view_def page_valid_def)
  then have r: "r = None" using lru_get_inv(2) [OF I(1) g] by (simp add: cached_def)
  have "slice (p_file s) (pageOffset i) PageSize = []"
    using v n by (simp add: view_def disk_def Let_def split: if_splits)
  moreover have "no_fault (s\<lparr>p_cache := c, p_totalReads := p_totalReads s + 1\<rparr>)" using nf by simp
  from fileReadAt_ok [OF this, of "pageOffset i" PageSize] obtain fs where
    "fileReadAt (pageOffset i) PageSize (s\<lparr>p_cache := c, p_totalReads := p_totalReads s + 1\<rparr>) =
      (Inr (slice (p_file s) (pageOffset i) PageSize), s\<lparr>p_cache := c, p_totalReads := p_totalReads s + 1, p_faults := fs\<rparr>)"
    by auto
  ultimately show ?thesis using g r I(2) by (simp add: GetPage_def bindP_def)
qed

end
