(* ===== verification/Durable.thy ===== *)
theory Durable
  imports PagerOps
begin

text \<open>
  Allocation, changes of a cached page, and durability: after \<open>FlushAll\<close> the file holds
  the header and the contents of every page, so that opening it again gives the same database.
\<close>

section \<open>Allocating a page\<close>

text \<open>No page at or above the page count has contents.\<close>

definition alloc_ok :: "Pager \<Rightarrow> bool" where
  "alloc_ok s \<longleftrightarrow> p_freePages s = [] \<and> (\<forall>i. view s i \<noteq> None \<longrightarrow> i < hPageCount (p_header s))"

lemma alloc_ok_keeps: "alloc_ok s \<Longrightarrow> keeps s t \<Longrightarrow> alloc_ok t"
  unfolding alloc_ok_def keeps_def grows_def by (metis order_le_less_trans)

lemma alloc_ok_uncached:
  assumes "pager_inv X s" and "alloc_ok s"
  shows "cached s (hPageCount (p_header s)) = None"
  using cached_view [OF assms(1), of "hPageCount (p_header s)"] assms(2)
  by (cases "cached s (hPageCount (p_header s))") (auto simp: alloc_ok_def)

text \<open>Without recycled pages the id is the page count, which grows by one; the object is
  zeroed and in the cache, every other page keeps its contents.\<close>

lemma AllocatePage_ok:
  assumes inv: "pager_inv {} s" and nf: "no_fault s" and al: "alloc_ok s"
  defines "i \<equiv> hPageCount (p_header s)"
  obtains s' a where "AllocatePage s = (Inr a, s')" and "pager_inv {a} s'" and "no_fault s'"
    and "cached s' i = Some a" and "p_heap s' a = Some (newPage i)"
    and "\<And>j d. j \<noteq> i \<Longrightarrow> view s j = Some d \<Longrightarrow> view s' j = Some d"
    and "p_header s' = (p_header s)\<lparr>hPageCount := i + 1\<rparr>" and "p_freePages s' = []"
    and "room s 1 \<Longrightarrow> cached s' = (cached s)(i \<mapsto> a) \<and> (\<forall>b. b \<noteq> a \<longrightarrow> p_heap s' b = p_heap s b) \<and>
           p_heap s a = None \<and> p_file s' = p_file s"
    and "room s (Suc n) \<Longrightarrow> room s' n" and "cap (p_cache s') = cap (p_cache s)"
    and "\<And>j. j \<noteq> i \<Longrightarrow> view s' j \<noteq> None \<Longrightarrow> \<exists>e. view s e \<noteq> None \<and> j \<le> e"
proof -
  let ?s = "s\<lparr>p_header := (p_header s)\<lparr>hPageCount := i + 1\<rparr>\<rparr>"
  have ni: "cached s i = None" using alloc_ok_uncached [OF inv al] by (simp add: i_def)
  have c1: "cached ?s = cached s" by (simp add: cached_def)
  have inv1: "pager_inv {} ?s"
    by (rule pager_inv_cong [OF inv c1]) (use pager_invD [OF inv] in simp_all)
  let ?a = "p_next s"
  define s2 where "s2 = ?s\<lparr>p_heap := (p_heap ?s)(p_next ?s \<mapsto> newPage i), p_next := Suc (p_next ?s)\<rparr>"
  note N = newObj_ok [OF inv1 s2_def]
  have e: "p_heap s2 ?a = Some (newPage i)" "cached s2 j \<noteq> Some ?a" "no_fault s2" "cached s2 i = None" for j
    using N(4,5) nf ni N(2) c1 by (simp_all add: s2_def)
  have ok: "ID (newPage i) = i" "pins (newPage i) = 0" by (simp_all add: newPage_def)
  obtain s' where s': "cachePut i ?a s2 = (Inr (), s')" "pager_inv {?a} s'" "no_fault s'"
    "cached s' i = Some ?a" "p_heap s' ?a = Some (newPage i)"
    "\<And>j d. j \<noteq> i \<Longrightarrow> view s2 j = Some d \<Longrightarrow> view s' j = Some d"
    "p_header s' = p_header s2" "p_freePages s' = p_freePages s2" "cap (p_cache s') = cap (p_cache s2)"
    "room s2 1 \<Longrightarrow> cached s' = (cached s2)(i \<mapsto> ?a) \<and> p_heap s' = p_heap s2 \<and> p_file s' = p_file s2"
    "room s2 (Suc n) \<Longrightarrow> room s' n"
    "\<And>j. j \<noteq> i \<Longrightarrow> view s' j \<noteq> None \<Longrightarrow> \<exists>e. view s2 e \<noteq> None \<and> j \<le> e"
    by (rule cachePut_ok [OF N(1) e(3,4,1) ok(1) page_ok_newPage ok(2) e(2), where X = "{?a}" and n = n]) auto
  have v2: "view s2 = view s" unfolding N(3) by (rule view_cong [OF c1]) simp_all
  have "room s2 m = room s m" for m by (simp add: s2_def room_def)
  moreover have "AllocatePage s = (Inr ?a, s')"
    using al s'(1) by (simp add: AllocatePage_def bindP_def newObj_def s2_def i_def alloc_ok_def)
  ultimately show ?thesis
    using that [of ?a s'] s' v2 N(2) c1 al inv_fresh(1) [OF inv] by (simp add: s2_def alloc_ok_def)
qed

section \<open>Changing a cached page\<close>

lemma setObj_ok:
  assumes inv: "pager_inv X s" and c: "cached s i = Some a"
    and pg: "ID pg = i" "page_ok pg" "pins pg = 0" "Dirty pg"
  shows "pager_inv (X - {a}) (s\<lparr>p_heap := (p_heap s)(a \<mapsto> pg)\<rparr>)" (is "pager_inv _ ?t")
    and "cached (s\<lparr>p_heap := (p_heap s)(a \<mapsto> pg)\<rparr>) = cached s"
    and "view (s\<lparr>p_heap := (p_heap s)(a \<mapsto> pg)\<rparr>) = (view s)(i \<mapsto> Data pg)"
    and "room (s\<lparr>p_heap := (p_heap s)(a \<mapsto> pg)\<rparr>) n = room s n"
    and "alloc_ok (s\<lparr>p_heap := (p_heap s)(a \<mapsto> pg)\<rparr>) = alloc_ok s"
proof -
  note I = pager_invD [OF inv]
  show ct: "cached ?t = cached s" by (simp add: cached_def)
  have u: "cached s j \<noteq> Some a" if "j \<noteq> i" for j using cached_inj [OF inv c, of j] that by auto
  show vt: "view ?t = (view s)(i \<mapsto> Data pg)"
  proof
    fix j
    show "view ?t j = ((view s)(i \<mapsto> Data pg)) j"
      using u [of j] c by (cases "j = i") (auto simp: view_def ct split: option.split)
  qed
  show "room ?t n = room s n" by (simp add: room_def)
  have "view s i \<noteq> None" by (rule cached_view [OF inv c])
  with vt show "alloc_ok ?t = alloc_ok s" by (auto simp: alloc_ok_def)
  show "pager_inv (X - {a}) ?t"
    unfolding pager_inv_def
  proof (intro conjI allI impI)
    fix j b assume "cached ?t j = Some b"
    then have jb: "cached s j = Some b" by (simp add: ct)
    then show "page_valid ?t j b" using I(4) [OF jb] u [of j] pg c
      by (cases "j = i") (auto simp: page_valid_def)
    fix q assume q: "b \<notin> X - {a}" "p_heap ?t b = Some q" "\<not> Dirty q"
    with pg(4) have "b \<noteq> a" by auto
    with q I(5) [OF jb] show "disk (p_file ?t) j = Some (Data q)" by simp
  next
    fix b assume "p_heap ?t b \<noteq> None"
    moreover have "a < p_next s" using I(4) [OF c] by (intro I(3)) (auto simp: page_valid_def)
    ultimately show "b < p_next ?t" using I(3) [of b] by (cases "b = a") auto
  qed (use I(1,2) in simp_all)
qed

section \<open>Flushing\<close>

definition clean :: "Pager \<Rightarrow> addr \<Rightarrow> bool" where
  "clean s a \<longleftrightarrow> (\<forall>pg. p_heap s a = Some pg \<longrightarrow> \<not> Dirty pg)"

lemma writePage_cached:
  assumes inv: "pager_inv {} s" and nf: "no_fault s" and c: "cached s i = Some a"
  obtains s' where "writePage a s = (Inr (), s')" and "pager_inv {} s'" and "no_fault s'"
    and "p_cache s' = p_cache s" and "p_header s' = p_header s" and "p_freePages s' = p_freePages s"
    and "view s \<subseteq>\<^sub>m view s'" and "clean s' a" and "\<And>b. clean s b \<Longrightarrow> clean s' b"
    and "\<And>j d. j \<noteq> i \<Longrightarrow> disk (p_file s) j = Some d \<Longrightarrow> disk (p_file s') j = Some d"
proof -
  note I = pager_invD [OF inv]
  obtain pg where pg: "p_heap s a = Some pg" "ID pg = i" "page_ok pg" "pins pg = 0" "length (Data pg) = PageSize"
    by (rule page_validE [OF I(4) [OF c]])
  obtain fs where w: "True \<notin> set fs" "writePage a s =
    (Inr (), s\<lparr>p_totalWrites := p_totalWrites s + 1, p_faults := fs,
       p_file := write_at (p_file s) (pageOffset (ID pg)) (Data pg),
       p_heap := (p_heap s)(a \<mapsto> pg\<lparr>Dirty := False\<rparr>)\<rparr>)" (is "_ = (_, ?t)")
    using writePage_ok [OF nf pg(1)] by blast
  define t where "t = ?t"
  have h: "p_heap t = (p_heap s)(a \<mapsto> pg\<lparr>Dirty := False\<rparr>)"
    and f: "p_file t = write_at (p_file s) (pageOffset i) (Data pg)"
    and o: "p_cache t = p_cache s" "p_next t = p_next s" "p_walBuf t = []" "p_header t = p_header s"
      "p_freePages t = p_freePages s" "no_fault t"
    using pg(2) I(2) w(1) by (simp_all add: t_def)
  have ct: "cached t = cached s" by (simp add: cached_def o)
  have u: "cached s j \<noteq> Some a" if "j \<noteq> i" for j using cached_inj [OF inv c, of j] that by auto
  have dk: "disk (p_file t) j = Some d" if "j \<noteq> i" "disk (p_file s) j = Some d" for j d
    unfolding f using that by (intro disk_write_other [OF pg(5)]) auto
  have di: "disk (p_file t) i = Some (Data pg)" unfolding f by (rule disk_write_same [OF pg(5)])
  have "pager_inv {} t"
    unfolding pager_inv_def
  proof (intro conjI allI impI)
    fix j b assume "cached t j = Some b"
    then have jb: "cached s j = Some b" by (simp add: ct)
    then show "page_valid t j b" using I(4) [OF jb] u [of j] pg c
      by (cases "j = i") (auto simp: page_valid_def page_ok_def h)
    fix q assume q: "b \<notin> {}" "p_heap t b = Some q" "\<not> Dirty q"
    show "disk (p_file t) j = Some (Data q)"
    proof (cases "j = i")
      case True
      with jb c q di show ?thesis by (auto simp: h)
    next
      case False
      with q I(5) [OF jb] u [of j] jb show ?thesis by (intro dk) (auto simp: h)
    qed
  next
    fix b assume "p_heap t b \<noteq> None"
    then show "b < p_next t" using I(3) [of b] I(3) [of a] pg(1) by (auto simp: h o split: if_splits)
  qed (use I(1) o in simp_all)
  moreover have "view s \<subseteq>\<^sub>m view t"
  proof (unfold map_le_def, intro ballI)
    fix j assume "j \<in> dom (view s)"
    then obtain d where d: "view s j = Some d" by auto
    show "view s j = view t j"
    proof (cases "j = i")
      case True
      then show ?thesis using c pg(1) by (simp add: view_def ct h)
    next
      case False
      then show ?thesis using d dk [of j d] u [of j] by (auto simp: view_def ct h split: option.splits)
    qed
  qed
  moreover have "clean t a" "clean s b \<Longrightarrow> clean t b" for b by (auto simp: clean_def h)
  ultimately show ?thesis using that [of t] w(2) o dk by (simp add: t_def)
qed

lemma writeDirty_ok:
  assumes "pager_inv {} s" and "no_fault s" and "\<forall>a \<in> set as. \<exists>i. i \<noteq> 0 \<and> cached s i = Some a"
  shows "\<exists>s'. writeDirty as s = (Inr (), s') \<and> pager_inv {} s' \<and> no_fault s' \<and>
    p_cache s' = p_cache s \<and> p_header s' = p_header s \<and> p_freePages s' = p_freePages s \<and>
    view s \<subseteq>\<^sub>m view s' \<and> (\<forall>a \<in> set as. clean s' a) \<and> (\<forall>b. clean s b \<longrightarrow> clean s' b) \<and>
    (\<forall>d. disk (p_file s) 0 = Some d \<longrightarrow> disk (p_file s') 0 = Some d)"
  using assms
proof (induction as arbitrary: s)
  case Nil
  then show ?case by simp
next
  case (Cons a as)
  from Cons.prems(3) obtain i where i: "i \<noteq> 0" "cached s i = Some a" by auto
  obtain pg where pg: "p_heap s a = Some pg"
    by (rule page_validE [OF pager_invD(4) [OF Cons.prems(1) i(2)]])
  obtain t where t: "(if Dirty pg then writePage a else returnP ()) s = (Inr (), t)" "pager_inv {} t" "no_fault t"
    "p_cache t = p_cache s" "p_header t = p_header s" "p_freePages t = p_freePages s"
    "view s \<subseteq>\<^sub>m view t" "clean t a" "\<forall>b. clean s b \<longrightarrow> clean t b"
    "\<forall>d. disk (p_file s) 0 = Some d \<longrightarrow> disk (p_file t) 0 = Some d"
  proof (cases "Dirty pg")
    case True
    obtain s' where "writePage a s = (Inr (), s')" "pager_inv {} s'" "no_fault s'"
      "p_cache s' = p_cache s" "p_header s' = p_header s" "p_freePages s' = p_freePages s"
      "view s \<subseteq>\<^sub>m view s'" "clean s' a" "\<And>b. clean s b \<Longrightarrow> clean s' b"
      "\<And>j d. j \<noteq> i \<Longrightarrow> disk (p_file s) j = Some d \<Longrightarrow> disk (p_file s') j = Some d"
      by (rule writePage_cached [OF Cons.prems(1,2) i(2)]) blast
    with True i(1) show ?thesis by (intro that [of s']) auto
  next
    case False
    with pg Cons.prems show ?thesis by (intro that [of s]) (auto simp: clean_def)
  qed
  have "\<forall>a \<in> set as. \<exists>i. i \<noteq> 0 \<and> cached t i = Some a"
    using Cons.prems(3) t(4) by (simp add: cached_def)
  from Cons.IH [OF t(2,3) this] obtain s' where s': "writeDirty as t = (Inr (), s')" "pager_inv {} s'" "no_fault s'"
    "p_cache s' = p_cache t" "p_header s' = p_header t" "p_freePages s' = p_freePages t"
    "view t \<subseteq>\<^sub>m view s'" "\<forall>a \<in> set as. clean s' a" "\<forall>b. clean t b \<longrightarrow> clean s' b"
    "\<forall>d. disk (p_file t) 0 = Some d \<longrightarrow> disk (p_file s') 0 = Some d" by blast
  have "writeDirty (a # as) s = (Inr (), s')"
    using pg t(1) s'(1) by (simp add: readObj_def bindP_def)
  moreover have "view s \<subseteq>\<^sub>m view s'" by (rule map_le_trans [OF t(7) s'(7)])
  ultimately show ?case using s' t by auto
qed

text \<open>After a successful flush the file starts with the header and holds every page.\<close>

lemma padPage_header: "header_ok h \<Longrightarrow> length (paddedHeader h) = PageSize"
  by (simp add: paddedHeader_def length_padPage length_EncodeHeader HeaderSize_def PageSize_def)

lemma fileWriteAt_ok:
  assumes "no_fault s"
  obtains fs where "True \<notin> set fs"
    and "fileWriteAt bs off s = (Inr (), s\<lparr>p_faults := fs, p_file := write_at (p_file s) off bs\<rparr>)"
  using ioTick_ok [OF assms] that by (fastforce simp: fileWriteAt_def bindP_def)

lemma FlushAll_ok:
  assumes inv: "pager_inv {} s" and nf: "no_fault s" and z: "cached s 0 = None"
    and h: "header_ok (p_header s)"
  obtains s' where "FlushAll s = (Inr (), s')" and "pager_inv {} s'" and "no_fault s'"
    and "disk (p_file s') 0 = Some (paddedHeader (p_header s))"
    and "\<And>i d. i \<noteq> 0 \<Longrightarrow> view s i = Some d \<Longrightarrow> disk (p_file s') i = Some d"
    and "p_header s' = p_header s" and "p_cache s' = p_cache s" and "p_freePages s' = p_freePages s"
    and "\<And>i d. i \<noteq> 0 \<Longrightarrow> view s i = Some d \<Longrightarrow> view s' i = Some d"
    and "\<And>a. a \<in> set (lru_all (p_cache s)) \<Longrightarrow> clean s' a"
proof -
  note I = pager_invD [OF inv]
  let ?hd = "paddedHeader (p_header s)"
  have lh: "length ?hd = PageSize" by (rule padPage_header [OF h])
  obtain fs where w: "True \<notin> set fs"
    "fileWriteAt ?hd 0 s = (Inr (), s\<lparr>p_faults := fs, p_file := write_at (p_file s) 0 ?hd\<rparr>)"
    using fileWriteAt_ok [OF nf] by blast
  define t where "t = s\<lparr>p_faults := fs, p_file := write_at (p_file s) 0 ?hd\<rparr>"
  have p0: "pageOffset 0 = 0" by (simp add: pageOffset_def)
  have f: "p_file t = write_at (p_file s) (pageOffset 0) ?hd" by (simp add: t_def p0)
  have o: "p_cache t = p_cache s" "p_next t = p_next s" "p_walBuf t = []" "p_header t = p_header s"
    "p_freePages t = p_freePages s" "p_heap t = p_heap s" "no_fault t"
    using I(2) w(1) by (simp_all add: t_def)
  have ct: "cached t = cached s" by (simp add: cached_def o)
  have dk: "disk (p_file t) j = Some d" if "j \<noteq> 0" "disk (p_file s) j = Some d" for j d
    unfolding f using that by (intro disk_write_other [OF lh]) auto
  have d0: "disk (p_file t) 0 = Some ?hd" unfolding f by (rule disk_write_same [OF lh])
  have inv': "pager_inv {} t"
    unfolding pager_inv_def
  proof (intro conjI allI impI)
    fix j b assume "cached t j = Some b"
    then have jb: "cached s j = Some b" by (simp add: ct)
    then show "page_valid t j b" using I(4) [OF jb] by (simp add: page_valid_def o)
    fix q assume q: "b \<notin> {}" "p_heap t b = Some q" "\<not> Dirty q"
    from jb z have "j \<noteq> 0" by auto
    with q I(5) [OF jb] show "disk (p_file t) j = Some (Data q)" by (intro dk) (auto simp: o)
  qed (use I(1,3) o in simp_all)
  have vt: "view t j = Some d" if "j \<noteq> 0" "view s j = Some d" for j d
    using that dk [of j d] by (auto simp: view_def ct o split: option.splits)
  have al: "lru_all (p_cache s) = map snd (cache_order (p_cache s))" by (simp add: lru_all_def)
  have dist: "distinct (map fst (cache_order (p_cache s)))" using I(1) by (simp add: lru_inv_def)
  have "\<forall>a \<in> set (lru_all (p_cache s)). \<exists>i. i \<noteq> 0 \<and> cached t i = Some a"
  proof
    fix a assume "a \<in> set (lru_all (p_cache s))"
    then obtain i where "(i, a) \<in> set (cache_order (p_cache s))" by (auto simp: al)
    then have "cached t i = Some a" using dist by (simp add: cached_def o)
    then show "\<exists>i. i \<noteq> 0 \<and> cached t i = Some a" using z ct by (cases "i = 0") auto
  qed
  from writeDirty_ok [OF inv' o(7) this] obtain u where
    u: "writeDirty (lru_all (p_cache s)) t = (Inr (), u)" "pager_inv {} u" "no_fault u"
    "p_cache u = p_cache t" "p_header u = p_header t" "p_freePages u = p_freePages t" "view t \<subseteq>\<^sub>m view u"
    "\<forall>a \<in> set (lru_all (p_cache s)). clean u a"
    "\<forall>d. disk (p_file t) 0 = Some d \<longrightarrow> disk (p_file u) 0 = Some d" by blast
  obtain fs' where fin: "ioTick u = (Inr (), u\<lparr>p_faults := fs'\<rparr>)" "True \<notin> set fs'"
    using ioTick_ok [OF u(3)] by blast
  let ?s' = "u\<lparr>p_faults := fs'\<rparr>"
  have cu: "cached ?s' = cached s" "cached u = cached s" by (simp_all add: cached_def u o)
  have su: "s\<lparr>p_walBuf := []\<rparr> = s" using I(2) by simp
  have fw: "flushWAL s = (Inr (), s)" using I(2) by (simp add: flushWAL_def bindP_def su)
  have "FlushAll s = (Inr (), ?s')"
    using w(2) u(1) fin(1) by (simp add: FlushAll_def fw bindP_def o flip: t_def)
  moreover have "pager_inv {} ?s'"
    by (rule pager_inv_cong [OF u(2)]) (use cu pager_invD(1) [OF u(2)] in simp_all)
  moreover have vu: "view u i = Some d" if "i \<noteq> 0" "view s i = Some d" for i d
    using vt [OF that] u(7) by (auto simp: map_le_def dom_def)
  moreover have "disk (p_file u) i = Some d" if "i \<noteq> 0" "view s i = Some d" for i d
  proof (cases "cached u i")
    case None
    with vu [OF that] show ?thesis by (simp add: view_def)
  next
    case (Some a)
    then obtain pg where pg: "p_heap u a = Some pg"
      by (auto elim: page_validE [OF pager_invD(4) [OF u(2)]])
    have "(i, a) \<in> set (cache_order (p_cache s))" using Some by (simp add: cached_def u o map_of_SomeD)
    then have "a \<in> set (lru_all (p_cache s))" unfolding al by force
    with u(8) pg have "\<not> Dirty pg" by (simp add: clean_def)
    with pager_invD(5) [OF u(2) Some _ pg] have "disk (p_file u) i = Some (Data pg)" by simp
    moreover have "view u i = Some (Data pg)" using Some pg by (simp add: view_def)
    ultimately show ?thesis using vu [OF that] by simp
  qed
  moreover have "view ?s' = view u" by (rule view_cong) (simp_all add: cu)
  moreover have "clean ?s' a = clean u a" for a by (simp add: clean_def)
  ultimately show ?thesis
    using that [of ?s'] u(4,5,6,8,9) d0 fin(2) o by simp
qed

section \<open>Opening the file again\<close>

definition header_good :: "DBHeader \<Rightarrow> bool" where
  "header_good h \<longleftrightarrow> header_ok h \<and> take (length MagicString) (Magic h) = MagicString"

lemma loadHeader_ok:
  assumes nf: "no_fault s" and h: "header_good h" and d: "disk (p_file s) 0 = Some (paddedHeader h)"
  obtains fs where "True \<notin> set fs" and "loadHeader s = (Inr (), s\<lparr>p_faults := fs, p_header := h\<rparr>)"
proof -
  obtain fs where fs: "True \<notin> set fs" "fileReadAt 0 PageSize s = (Inr (slice (p_file s) 0 PageSize), s\<lparr>p_faults := fs\<rparr>)"
    using fileReadAt_ok [OF nf] by blast
  have "padPage (slice (p_file s) 0 PageSize) = paddedHeader h"
    using d by (simp add: disk_def pageOffset_def Let_def split: if_splits)
  moreover have "DecodeHeader (paddedHeader h) = Inr h"
    using h unfolding paddedHeader_def padPage_def header_good_def by (intro decode_encode_header) simp
  ultimately show ?thesis
    using that [of fs] fs h by (simp add: loadHeader_def bindP_def header_good_def)
qed

text \<open>The state after opening an existing file: an empty cache, the header of the file, and
  the contents of every page as the file has it.\<close>

lemma open_existing:
  assumes h: "header_good h" and d: "disk f 0 = Some (paddedHeader h)" and nf: "True \<notin> set faults"
  obtains s where "NewPagerWithCacheSize (Some f) faults n = (Inr (), s)" and "pager_inv {} s" and "no_fault s"
    and "p_header s = h" and "view s = disk f" and "p_file s = f" and "p_freePages s = []"
    and "cap (p_cache s) = n" and "cached s = (\<lambda>_. None)"
proof -
  let ?s = "\<lparr>p_file = f, p_header = initHeader, p_cache = newLRUCache n, p_walBuf = [], p_dirtyCount = 0,
    p_freePages = [], p_totalReads = 0, p_totalWrites = 0, p_heap = (\<lambda>_. None), p_next = 0, p_faults = faults\<rparr>"
  have "no_fault ?s" using nf by (simp add: no_fault_def)
  then obtain fs where t: "ioTick ?s = (Inr (), ?s\<lparr>p_faults := fs\<rparr>)" "True \<notin> set fs"
    using ioTick_ok by blast
  have "no_fault (?s\<lparr>p_faults := fs\<rparr>)" "disk (p_file (?s\<lparr>p_faults := fs\<rparr>)) 0 = Some (paddedHeader h)"
    using t(2) d by (simp_all add: no_fault_def)
  then obtain fs' where l: "True \<notin> set fs'"
    "loadHeader (?s\<lparr>p_faults := fs\<rparr>) = (Inr (), ?s\<lparr>p_faults := fs, p_faults := fs', p_header := h\<rparr>)"
    using loadHeader_ok [OF _ h] by blast
  define s where "s = ?s\<lparr>p_faults := fs, p_faults := fs', p_header := h\<rparr>"
  have c: "cached s = (\<lambda>_. None)" by (simp add: cached_def s_def newLRUCache_def fun_eq_iff)
  have "NewPagerWithCacheSize (Some f) faults n = (Inr (), s)"
    unfolding NewPagerWithCacheSize_def Let_def s_def using t(1) l(2) by (simp add: bindP_def)
  moreover have "view s = disk f" using view_uncached [of s] c by (simp add: fun_eq_iff) (simp add: s_def)
  moreover have "pager_inv {} s"
    unfolding pager_inv_def c by (simp add: s_def lru_inv_new)
  ultimately show ?thesis using that [of s] c l(1) by (simp add: s_def no_fault_def newLRUCache_def)
qed

end
