(* ===== verification/BTree.thy ===== *)
theory BTree
  imports Leaf Durable
begin

text \<open>
  The B+ tree (\<open>internal/storage/btree.go\<close>) over the pager. A page in memory is an
  address of the pager's heap, so an operation that keeps a \<open>*Page\<close> over a call keeps its
  address, also when the call evicts the page from the cache. Loops and recursions that follow
  page pointers take fuel: a cycle of pages would never end.
\<close>

definition cellOf :: "Page \<Rightarrow> 16 word \<Rightarrow> Cell res" where
  "cellOf pg idx = bindE (CellPointer pg idx) (DecodeCell (Data pg))"

definition findP :: "Page \<Rightarrow> byte list \<Rightarrow> (int \<times> bool) pm" where
  "findP pg key = liftP (cPageBinarySearch (Data pg) (CellCount pg) PageHeaderSize key)"

section \<open>Search\<close>

primrec search :: "nat \<Rightarrow> 32 word \<Rightarrow> byte list \<Rightarrow> byte list option pm" where
  "search 0 pageID key = failP OutOfFuel"
| "search (Suc n) pageID key =
     (if pageID = InvalidPage then returnP None
      else bindP (GetPage pageID) (\<lambda>a. bindP (readObj a) (\<lambda>pg.
           let count = CellCount pg; pt = Type pg
           in bindP (findP pg key) (\<lambda>(idx, found).
              if found then
                bindP (liftP (cellOf pg (of_int idx))) (\<lambda>cell.
                  if pt = PageTypeLeaf then returnP (Some (Value cell))
                  else search n (LeftPtr cell) key)
              else if pt = PageTypeInternal then
                (if idx \<ge> int (unat count) then search n (RightmostPointer pg) key
                 else bindP (liftP (cellOf pg (of_int idx))) (\<lambda>cell. search n (LeftPtr cell) key))
              else returnP None))))"

definition Get :: "nat \<Rightarrow> 32 word \<Rightarrow> byte list \<Rightarrow> byte list option pm" where
  "Get fuel root key = search fuel root key"

section \<open>Insert\<close>

definition newEmptyLeaf :: "32 word pm" where
  "newEmptyLeaf =
     bindP AllocatePage (\<lambda>a. bindP (readObj a) (\<lambda>pg.
       let pg = SetRightmostPointer InvalidPage (SetCellContentOffset (of_nat PageSize)
                  (SetCellCount 0 (SetType PageTypeLeaf pg)))
       in bindP (writeObj a (pg\<lparr>Dirty := True\<rparr>)) (\<lambda>_.
          bindP (modifyP (\<lambda>s. s\<lparr>p_header := (p_header s)\<lparr>RootPage := ID pg\<rparr>\<rparr>)) (\<lambda>_.
          returnP (ID pg)))))"

text \<open>The loops \<open>for _, c := range cells\<close> that fill a page.\<close>

primrec insertCells :: "addr \<Rightarrow> Cell list \<Rightarrow> unit pm" where
  "insertCells a [] = returnP ()"
| "insertCells a (c # cs) =
     bindP (readObj a) (\<lambda>pg.
     bindP (liftP (insertCellIntoPage pg c)) (\<lambda>pg'.
     bindP (writeObj a pg') (\<lambda>_. insertCells a cs)))"

text \<open>The results \<open>(overflow, midKey, midVal, newPage)\<close>: \<open>None\<close> without overflow.\<close>

type_synonym split = "(byte list \<times> byte list \<times> 32 word) option"

definition splitLeaf :: "addr \<Rightarrow> byte list \<Rightarrow> byte list \<Rightarrow> split pm" where
  "splitLeaf a newKey newValue =
     bindP (readObj a) (\<lambda>pg.
     bindP (liftP (collectCells pg)) (\<lambda>cells.
       let newCell = \<lparr>Key = newKey, Value = newValue, LeftPtr = InvalidPage\<rparr>;
           cells = insertSorted cells newCell;
           mid = length cells div 2
       in bindP AllocatePage (\<lambda>b. bindP (readObj b) (\<lambda>newPg.
          let newPg = SetRightmostPointer InvalidPage (SetCellContentOffset (of_nat PageSize)
                        (SetCellCount 0 (SetType PageTypeLeaf newPg)))
          in bindP (writeObj b (newPg\<lparr>Dirty := True\<rparr>)) (\<lambda>_.
             bindP (readObj a) (\<lambda>pg.
             bindP (writeObj a (clearPage pg)) (\<lambda>_.
             bindP (insertCells a (take mid cells)) (\<lambda>_.
             bindP (insertCells b (drop mid cells)) (\<lambda>_.
             returnP (Some (Key (cells ! mid), Value (cells ! mid), ID newPg)))))))))))"

definition splitInternal :: "addr \<Rightarrow> Cell \<Rightarrow> split pm" where
  "splitInternal a newCell =
     bindP (readObj a) (\<lambda>pg.
     bindP (liftP (collectCells pg)) (\<lambda>cells.
       let cells = insertSorted cells newCell;
           mid = length cells div 2;
           midCell = cells ! mid
       in bindP AllocatePage (\<lambda>b. bindP (readObj b) (\<lambda>newPg.
          let newPg = SetCellContentOffset (of_nat PageSize)
                        (SetCellCount 0 (SetType PageTypeInternal newPg))
          in bindP (writeObj b (newPg\<lparr>Dirty := True\<rparr>)) (\<lambda>_.
             bindP (readObj a) (\<lambda>pg.
             bindP (writeObj a (clearPage pg)) (\<lambda>_.
             bindP (insertCells a (take mid cells)) (\<lambda>_.
             bindP (readObj a) (\<lambda>pg.
             bindP (writeObj a (SetRightmostPointer (LeftPtr midCell) pg)) (\<lambda>_.
             bindP (if length cells > mid + 1
                    then bindP (insertCells b (butlast (drop (mid + 1) cells))) (\<lambda>_.
                         bindP (readObj b) (\<lambda>pg'.
                         writeObj b (SetRightmostPointer (LeftPtr (last cells)) pg')))
                    else returnP ()) (\<lambda>_.
             returnP (Some (Key midCell, Value midCell, ID newPg)))))))))))))"

definition insertLeaf :: "addr \<Rightarrow> byte list \<Rightarrow> byte list \<Rightarrow> split pm" where
  "insertLeaf a key val =
     bindP (readObj a) (\<lambda>pg.
     bindP (findP pg key) (\<lambda>(idx, found).
       if found
       then bindP (liftP (updateLeafCell pg (of_int idx) key val)) (\<lambda>pg'.
            bindP (writeObj a pg') (\<lambda>_. returnP None))
       else case insertCellIntoPageAt pg \<lparr>Key = key, Value = val, LeftPtr = InvalidPage\<rparr> (of_int idx) of
              Inr pg' \<Rightarrow> bindP (writeObj a pg') (\<lambda>_. returnP None)
            | Inl e \<Rightarrow> if e = ErrPageFull then splitLeaf a key val else failP e))"

text \<open>The pointer to follow for the position \<open>idx\<close> that a search gave.\<close>

definition childAt :: "Page \<Rightarrow> int \<Rightarrow> 32 word res" where
  "childAt pg idx =
     (if idx \<ge> int (unat (CellCount pg)) then Inr (RightmostPointer pg)
      else bindE (cellOf pg (of_int idx)) (\<lambda>cell. Inr (LeftPtr cell)))"

primrec insertInto :: "nat \<Rightarrow> 32 word \<Rightarrow> byte list \<Rightarrow> byte list \<Rightarrow> split pm" where
  "insertInto 0 pageID key val = failP OutOfFuel"
| "insertInto (Suc n) pageID key val =
     bindP (GetPage pageID) (\<lambda>a. bindP (readObj a) (\<lambda>pg.
     if Type pg = PageTypeLeaf then insertLeaf a key val
     else
       let count = int (unat (CellCount pg))
       in bindP (findP pg key) (\<lambda>(idx, _).
          bindP (liftP (childAt pg idx)) (\<lambda>childPtr.
          bindP (insertInto n childPtr key val) (\<lambda>r.
          case r of
            None \<Rightarrow> returnP None
          | Some (midKey, midVal, np) \<Rightarrow>
              let c = \<lparr>Key = midKey, Value = midVal, LeftPtr = childPtr\<rparr>
              in bindP (readObj a) (\<lambda>pg.
                 bindP (if idx \<ge> count then writeObj a (SetRightmostPointer np pg)
                        else bindP (liftP (cellOf pg (of_int idx))) (\<lambda>oldCell.
                             bindP (liftP (rewriteCell pg (of_int idx) (oldCell\<lparr>LeftPtr := np\<rparr>))) (\<lambda>pg'.
                             writeObj a pg'))) (\<lambda>_.
                 bindP (readObj a) (\<lambda>pg.
                 case insertCellIntoPage pg c of
                   Inr pg' \<Rightarrow> bindP (writeObj a pg') (\<lambda>_. returnP None)
                 | Inl e \<Rightarrow> if e = ErrPageFull then splitInternal a c else failP e))))))))"

text \<open>A new root above a root that was split.\<close>

definition growRoot :: "32 word \<Rightarrow> byte list \<times> byte list \<times> 32 word \<Rightarrow> 32 word pm" where
  "growRoot root = (\<lambda>(midKey, midVal, np).
     bindP AllocatePage (\<lambda>a. bindP (readObj a) (\<lambda>pg.
       let newRoot = SetRightmostPointer np (SetCellContentOffset (of_nat PageSize)
                       (SetCellCount 0 (SetType PageTypeInternal pg)))
       in bindP (writeObj a (newRoot\<lparr>Dirty := True\<rparr>)) (\<lambda>_.
          bindP (insertCells a [\<lparr>Key = midKey, Value = midVal, LeftPtr = root\<rparr>]) (\<lambda>_.
          bindP (modifyP (\<lambda>s. s\<lparr>p_header := (p_header s)\<lparr>RootPage := ID newRoot\<rparr>\<rparr>)) (\<lambda>_.
          returnP (ID newRoot)))))))"

text \<open>\<open>Insert\<close> also returns \<open>bt.rootPage\<close>, which an error leaves as the statements
  before it made it.\<close>

definition Insert :: "nat \<Rightarrow> 32 word \<Rightarrow> byte list \<Rightarrow> byte list \<Rightarrow> Pager \<Rightarrow> (unit res \<times> 32 word) \<times> Pager" where
  "Insert fuel root key val s =
     (case (if root = InvalidPage then newEmptyLeaf s else (Inr root, s)) of
        (Inl e, s1) \<Rightarrow> ((Inl e, root), s1)
      | (Inr r, s1) \<Rightarrow>
          (case insertInto fuel r key val s1 of
             (Inl e, s2) \<Rightarrow> ((Inl e, r), s2)
           | (Inr None, s2) \<Rightarrow> ((Inr (), r), s2)
           | (Inr (Some sp), s2) \<Rightarrow>
               (case growRoot r sp s2 of
                  (Inl e, s3) \<Rightarrow> ((Inl e, r), s3)
                | (Inr r', s3) \<Rightarrow> ((Inr (), r'), s3))))"

section \<open>Delete\<close>

primrec getLeftmost :: "nat \<Rightarrow> 32 word \<Rightarrow> (byte list \<times> byte list \<times> 32 word) pm" where
  "getLeftmost 0 pageID = failP OutOfFuel"
| "getLeftmost (Suc n) pageID =
     bindP (GetPage pageID) (\<lambda>a. bindP (readObj a) (\<lambda>pg.
     if Type pg = PageTypeLeaf then
       (if CellCount pg = 0 then failP ErrEmptyLeaf
        else bindP (liftP (cellOf pg 0)) (\<lambda>cell. returnP (Key cell, Value cell, pageID)))
     else bindP (liftP (cellOf pg 0)) (\<lambda>cell. getLeftmost n (LeftPtr cell))))"

primrec deleteFrom :: "nat \<Rightarrow> 32 word \<Rightarrow> byte list \<Rightarrow> bool pm" where
  "deleteFrom 0 pageID key = failP OutOfFuel"
| "deleteFrom (Suc n) pageID key =
     (if pageID = InvalidPage then returnP False
      else bindP (GetPage pageID) (\<lambda>a. bindP (readObj a) (\<lambda>pg.
           bindP (findP pg key) (\<lambda>(idx, found).
           if found then
             bindP (liftP (cellOf pg (of_int idx))) (\<lambda>cell.
             if Type pg = PageTypeLeaf then
               bindP (liftP (removeCellAt pg (of_int idx))) (\<lambda>pg'.
               bindP (writeObj a (pg'\<lparr>Dirty := True\<rparr>)) (\<lambda>_. returnP True))
             else
               bindP (getLeftmost n (LeftPtr cell)) (\<lambda>(leafKey, leafVal, leafPage).
               bindP (readObj a) (\<lambda>pg.
               bindP (liftP (rewriteCell pg (of_int idx) (cell\<lparr>Key := leafKey, Value := leafVal\<rparr>))) (\<lambda>pg'.
               bindP (writeObj a pg') (\<lambda>_.
               deleteFrom n leafPage leafKey)))))
           else if Type pg = PageTypeInternal then
             bindP (liftP (childAt pg idx)) (\<lambda>childPtr. deleteFrom n childPtr key)
           else returnP False))))"

definition Delete :: "nat \<Rightarrow> 32 word \<Rightarrow> byte list \<Rightarrow> bool pm" where
  "Delete fuel root key = deleteFrom fuel root key"

section \<open>Cursors\<close>

text \<open>\<open>c.stack\<close> with its top first.\<close>

record Cursor =
  stack :: "(32 word \<times> int) list"
  atEnd :: bool

primrec rewindFrom :: "nat \<Rightarrow> 32 word \<Rightarrow> (32 word \<times> int) list \<Rightarrow> Cursor pm" where
  "rewindFrom 0 pageID st = failP OutOfFuel"
| "rewindFrom (Suc n) pageID st =
     (if pageID = InvalidPage then returnP \<lparr>stack = st, atEnd = True\<rparr>
      else bindP (GetPage pageID) (\<lambda>a. bindP (readObj a) (\<lambda>pg.
           if Type pg = PageTypeLeaf then
             (if CellCount pg = 0 then returnP \<lparr>stack = st, atEnd = True\<rparr>
              else returnP \<lparr>stack = (pageID, 0) # st, atEnd = False\<rparr>)
           else bindP (liftP (cellOf pg 0)) (\<lambda>cell. rewindFrom n (LeftPtr cell) ((pageID, 0) # st)))))"

definition NewCursor :: "nat \<Rightarrow> 32 word \<Rightarrow> Cursor pm" where
  "NewCursor fuel root =
     (if root = InvalidPage then returnP \<lparr>stack = [], atEnd = True\<rparr> else rewindFrom fuel root [])"

definition Current :: "Cursor \<Rightarrow> Cell option pm" where
  "Current c =
     (if atEnd c \<or> stack c = [] then returnP None
      else case hd (stack c) of (pageID, idx) \<Rightarrow>
        bindP (GetPage pageID) (\<lambda>a. bindP (readObj a) (\<lambda>pg.
        bindP (liftP (cellOf pg (of_int idx))) (\<lambda>cell. returnP (Some cell)))))"

text \<open>The inner loop of \<open>Advance\<close>: push the leftmost path below \<open>pageID\<close>.\<close>

primrec descend :: "nat \<Rightarrow> 32 word \<Rightarrow> (32 word \<times> int) list \<Rightarrow> (32 word \<times> int) list pm" where
  "descend 0 pageID st = failP OutOfFuel"
| "descend (Suc n) pageID st =
     (if pageID = InvalidPage then returnP st
      else bindP (GetPage pageID) (\<lambda>a. bindP (readObj a) (\<lambda>pg.
           if Type pg = PageTypeLeaf then
             returnP (if CellCount pg > 0 then (pageID, 0) # st else st)
           else bindP (liftP (cellOf pg 0)) (\<lambda>cell. descend n (LeftPtr cell) ((pageID, 0) # st)))))"

text \<open>The outer loop pops a frame in every round that does not return.\<close>

primrec advanceStack :: "nat \<Rightarrow> (32 word \<times> int) list \<Rightarrow> Cursor pm" where
  "advanceStack n [] = returnP \<lparr>stack = [], atEnd = True\<rparr>"
| "advanceStack n (frame # st) =
     (case frame of (pageID, idx) \<Rightarrow>
     bindP (GetPage pageID) (\<lambda>a. bindP (readObj a) (\<lambda>pg.
     if Type pg = PageTypeLeaf then
       (if idx + 1 < int (unat (CellCount pg))
        then returnP \<lparr>stack = (pageID, idx + 1) # st, atEnd = False\<rparr>
        else advanceStack n st)
     else if idx + 1 > int (unat (CellCount pg)) then advanceStack n st
     else bindP (liftP (childAt pg (idx + 1))) (\<lambda>childPtr.
          bindP (descend n childPtr ((pageID, idx + 1) # st)) (\<lambda>st'.
          returnP \<lparr>stack = st', atEnd = False\<rparr>)))))"

definition Advance :: "nat \<Rightarrow> Cursor \<Rightarrow> Cursor pm" where
  "Advance fuel c = (if atEnd c then returnP c else advanceStack fuel (stack c))"

text \<open>A scan of all cells, as the callers write it:
  \<open>for !cur.AtEnd() { cur.Current(); ...; cur.Advance() }\<close>.\<close>

primrec scanFrom :: "nat \<Rightarrow> Cursor \<Rightarrow> Cell list pm" where
  "scanFrom 0 c = failP OutOfFuel"
| "scanFrom (Suc n) c =
     (if atEnd c then returnP []
      else bindP (Current c) (\<lambda>cell.
           bindP (Advance n c) (\<lambda>c'.
           bindP (scanFrom n c') (\<lambda>xs.
           returnP (case cell of None \<Rightarrow> xs | Some x \<Rightarrow> x # xs)))))"

definition scan :: "nat \<Rightarrow> 32 word \<Rightarrow> Cell list pm" where
  "scan fuel root = bindP (NewCursor fuel root) (scanFrom fuel)"

end
