(* ===== verification/PageTree.thy ===== *)
theory PageTree
  imports BTree
begin

text \<open>
  The trees that pages represent. A tree value lists the items of its leaves and the separator
  cells of its internal pages; \<open>repr v t\<close> says that the page contents \<open>v\<close> represent
  \<open>t\<close>. Search, insertion without overflow and deletion of a key that is no separator are
  then operations on tree values, for trees of any height.
\<close>

section \<open>Positions in a page\<close>

definition pos :: "(byte list \<times> byte list) list \<Rightarrow> byte list \<Rightarrow> nat" where
  "pos ks k = length (takeWhile (\<lambda>x. fst x < k) ks)"

lemma pos_le: "pos ks k \<le> length ks"
  by (simp add: pos_def length_takeWhile_le)

lemma pos_eqI:
  "i \<le> length xs \<Longrightarrow> (\<And>j. j < i \<Longrightarrow> fst (xs ! j) < k) \<Longrightarrow> (i < length xs \<Longrightarrow> \<not> fst (xs ! i) < k) \<Longrightarrow> pos xs k = i"
proof (induction xs arbitrary: i)
  case (Cons x xs)
  show ?case
  proof (cases i)
    case 0
    with Cons.prems(3) show ?thesis by (simp add: pos_def)
  next
    case (Suc m)
    have "pos xs k = m"
    proof (rule Cons.IH)
      show "fst (xs ! j) < k" if "j < m" for j using Cons.prems(2) [of "Suc j"] that Suc by simp
    qed (use Cons.prems Suc in auto)
    with Cons.prems(2) [of 0] Suc show ?thesis by (simp add: pos_def)
  qed
qed (simp add: pos_def)

lemma pos_lower_bound: "lower_bound xs k i \<Longrightarrow> pos xs k = i"
  by (rule pos_eqI) (auto simp: lower_bound_def dest: order_less_imp_not_less)

lemma pos_found: "keys_sorted xs \<Longrightarrow> i < length xs \<Longrightarrow> fst (xs ! i) = k \<Longrightarrow> pos xs k = i"
  by (rule pos_eqI) (auto simp: keys_sorted_nth)

lemma findP_sorted:
  assumes "wf_page p" and "keys_sorted (page_items p)"
  shows "findP p key s = (Inr (int (pos (page_items p) key), map_of (page_items p) key \<noteq> None), s)"
    and "map_of (page_items p) key = Some v \<Longrightarrow> pos (page_items p) key < ncells p \<and>
           page_items p ! pos (page_items p) key = (key, v)"
proof -
  have "findP p key s = (Inr (int (pos (page_items p) key), map_of (page_items p) key \<noteq> None), s) \<and>
    (\<forall>v. map_of (page_items p) key = Some v \<longrightarrow> pos (page_items p) key < ncells p \<and>
           page_items p ! pos (page_items p) key = (key, v))"
  proof (cases rule: leaf_find_sorted [OF assms, of key, case_names found missing])
    case (found i)
    then have "pos (page_items p) key = i" using assms(2) by (intro pos_found) simp_all
    with found show ?thesis by (auto simp: findP_def leaf_find_def nth_page_items)
  next
    case (missing i)
    with pos_lower_bound show ?thesis by (simp add: findP_def leaf_find_def)
  qed
  then show "findP p key s = (Inr (int (pos (page_items p) key), map_of (page_items p) key \<noteq> None), s)"
    and "map_of (page_items p) key = Some v \<Longrightarrow> pos (page_items p) key < ncells p \<and>
           page_items p ! pos (page_items p) key = (key, v)" by blast+
qed

text \<open>The child pointers of an internal page, the rightmost one last.\<close>

definition kids :: "Page \<Rightarrow> 32 word list" where
  "kids p = map LeftPtr (page_cells p) @ [RightmostPointer p]"

lemma length_kids [simp]: "length (kids p) = Suc (ncells p)"
  by (simp add: kids_def)

lemma cellOf_wf:
  assumes "wf_page p" and "i < ncells p"
  shows "cellOf p (of_int (int i)) = Inr (page_cells p ! i)"
proof -
  have "unat (of_int (int i) :: 16 word) = i"
    using assms(2) wf_pageD(5) [OF assms(1)] by (intro idx16) simp
  with wf_CellPointer [OF assms(1), of "of_int (int i)"] assms(2) show ?thesis by (simp add: cellOf_def)
qed

lemma childAt_wf:
  assumes "wf_page p" and "i \<le> ncells p"
  shows "childAt p (int i) = Inr (kids p ! i)"
proof (cases "i < ncells p")
  case True
  then have "\<not> int i \<ge> int (unat (CellCount p))" unfolding ncells_def by linarith
  with True show ?thesis
    using cellOf_wf [OF assms(1) True] by (simp only: childAt_def) (simp add: kids_def nth_append)
next
  case False
  with assms(2) have "i = ncells p" by simp
  then show ?thesis by (simp add: childAt_def kids_def nth_append) (simp add: ncells_def)
qed

text \<open>What a page holds depends on its bytes only.\<close>

lemma same_data:
  assumes "Data p = Data q"
  shows "Type p = Type q" "ncells p = ncells q" "wf_page p = wf_page q" "tight_page p = tight_page q"
    "page_cells p = page_cells q" "page_items p = page_items q" "leaf_inv p = leaf_inv q" "kids p = kids q"
    "free_bytes p = free_bytes q" "leaf_fits p = leaf_fits q"
proof -
  show a: "Type p = Type q" "ncells p = ncells q" using assms by (simp_all add: Type_def ncells_def CellCount_def)
  have c: "content p = content q" "RightmostPointer p = RightmostPointer q"
    using assms by (simp_all add: content_def CellContentOffset_def RightmostPointer_def)
  show w: "wf_page p = wf_page q" by (simp add: wf_page_def page_ok_def a c assms)
  show t: "tight_page p = tight_page q" by (simp add: tight_page_def w a assms)
  show pc: "page_cells p = page_cells q" by (simp add: page_cells_def a assms)
  show pi: "page_items p = page_items q" by (simp add: page_items_def pc)
  show "leaf_inv p = leaf_inv q" by (simp add: leaf_inv_def t pi)
  show "kids p = kids q" by (simp add: kids_def pc c)
  show f: "free_bytes p = free_bytes q" by (simp add: free_bytes_def a c)
  show "leaf_fits p = leaf_fits q" by (intro ext) (simp only: leaf_fits_def pi f)
qed

section \<open>Tree values\<close>

text \<open>A tree value holds the page ids too.\<close>

datatype tree =
    TLeaf "32 word" "(byte list \<times> byte list) list"
  | TNode "32 word" "(byte list \<times> byte list) list" "tree list"

primrec tree_id :: "tree \<Rightarrow> 32 word" where
  "tree_id (TLeaf i xs) = i"
| "tree_id (TNode i ks cs) = i"

primrec tree_ids :: "tree \<Rightarrow> 32 word list" where
  "tree_ids (TLeaf i xs) = [i]"
| "tree_ids (TNode i ks cs) = i # concat (map tree_ids cs)"

primrec height :: "tree \<Rightarrow> nat" where
  "height (TLeaf i xs) = 1"
| "height (TNode i ks cs) = Suc (foldr max (map height cs) 0)"

lemma height_child: "j < length cs \<Longrightarrow> height (cs ! j) < height (TNode i ks cs)"
proof -
  have "x \<in> set xs \<Longrightarrow> x \<le> foldr max xs 0" for x :: nat and xs
    by (induction xs) auto
  then show "j < length cs \<Longrightarrow> height (cs ! j) < height (TNode i ks cs)" by (simp add: less_Suc_eq_le)
qed

text \<open>The operations, by recursion along the path of the key. A tree that pages represent has
  one child more than separators, so the path never leaves the list of children.\<close>

definition put_items :: "(byte list \<times> byte list) list \<Rightarrow> byte list \<Rightarrow> byte list \<Rightarrow> (byte list \<times> byte list) list" where
  "put_items xs k v =
     (if map_of xs k = None then insert_at (pos xs k) (k, v) xs else xs[pos xs k := (k, v)])"

definition del_items :: "(byte list \<times> byte list) list \<Rightarrow> byte list \<Rightarrow> (byte list \<times> byte list) list" where
  "del_items xs k = (if map_of xs k = None then xs else remove_at (pos xs k) xs)"

primrec lookup :: "tree \<Rightarrow> byte list \<Rightarrow> byte list option" where
  "lookup (TLeaf i xs) k = map_of xs k"
| "lookup (TNode i ks cs) k = map (\<lambda>c. lookup c k) cs ! pos ks k"

primrec leaf_of :: "tree \<Rightarrow> byte list \<Rightarrow> 32 word" where
  "leaf_of (TLeaf i xs) k = i"
| "leaf_of (TNode i ks cs) k = map (\<lambda>c. leaf_of c k) cs ! pos ks k"

primrec upd_leaf :: "((byte list \<times> byte list) list \<Rightarrow> (byte list \<times> byte list) list) \<Rightarrow> tree \<Rightarrow> byte list \<Rightarrow> tree" where
  "upd_leaf f (TLeaf i xs) k = TLeaf i (f xs)"
| "upd_leaf f (TNode i ks cs) k = TNode i ks (cs[pos ks k := map (\<lambda>c. upd_leaf f c k) cs ! pos ks k])"

text \<open>Whether the key is one of the separators on its own path.\<close>

primrec on_path :: "tree \<Rightarrow> byte list \<Rightarrow> bool" where
  "on_path (TLeaf i xs) k = False"
| "on_path (TNode i ks cs) k = (map_of ks k \<noteq> None \<or> map (\<lambda>c. on_path c k) cs ! pos ks k)"

inductive repr :: "(32 word \<Rightarrow> byte list option) \<Rightarrow> tree \<Rightarrow> bool" for v where
  leaf: "v i = Some (Data p) \<Longrightarrow> i \<noteq> InvalidPage \<Longrightarrow> leaf_inv p \<Longrightarrow> Type p = PageTypeLeaf \<Longrightarrow>
    page_items p = xs \<Longrightarrow> repr v (TLeaf i xs)"
| node: "v i = Some (Data p) \<Longrightarrow> i \<noteq> InvalidPage \<Longrightarrow> leaf_inv p \<Longrightarrow> Type p = PageTypeInternal \<Longrightarrow>
    page_items p = ks \<Longrightarrow> map tree_id cs = kids p \<Longrightarrow> (\<And>c. c \<in> set cs \<Longrightarrow> repr v c) \<Longrightarrow> repr v (TNode i ks cs)"

inductive_cases repr_leafE: "repr v (TLeaf i xs)"
inductive_cases repr_nodeE: "repr v (TNode i ks cs)"

lemma repr_length: "repr v (TNode i ks cs) \<Longrightarrow> length cs = Suc (length ks)"
  by (erule repr_nodeE) (metis length_kids length_map length_page_items)

lemma repr_child:
  assumes "repr v (TNode i ks cs)"
  shows "pos ks k < length cs" and "repr v (cs ! pos ks k)"
proof -
  show l: "pos ks k < length cs" using repr_length [OF assms] pos_le [of ks k] by simp
  then show "repr v (cs ! pos ks k)" using assms by (auto elim: repr_nodeE)
qed

text \<open>Only the contents of the pages of the tree matter.\<close>

lemma repr_frame:
  assumes "repr v t" and "\<And>i. i \<in> set (tree_ids t) \<Longrightarrow> w i = v i"
  shows "repr w t"
  using assms
proof (induction rule: repr.induct)
  case (leaf i p xs)
  then show ?case by (intro repr.leaf [of _ _ p]) auto
next
  case (node i p ks cs)
  then show ?case by (intro repr.node [of _ _ p]) auto
qed

lemma repr_mono:
  assumes "repr v t" and "v \<subseteq>\<^sub>m w"
  shows "repr w t"
  using assms
proof (induction rule: repr.induct)
  case (leaf i p xs)
  then have "w i = Some (Data p)" by (auto simp: map_le_def dom_def)
  with leaf show ?case by (intro repr.leaf [of _ _ p]) auto
next
  case (node i p ks cs)
  then have "w i = Some (Data p)" by (auto simp: map_le_def dom_def)
  with node show ?case by (intro repr.node [of _ _ p]) auto
qed

section \<open>Search\<close>

text \<open>Fetching a page and reading the object.\<close>

lemma fetch:
  assumes inv: "pager_inv {} s" and nf: "no_fault s" and v: "view s i = Some (Data p)"
  obtains s' a pg where "\<And>f :: addr \<Rightarrow> Page \<Rightarrow> 'b pm. bindP (GetPage i) (\<lambda>a. bindP (readObj a) (f a)) s = f a pg s'" and "pager_inv {} s'"
    and "no_fault s'" and "cached s' i = Some a" and "p_heap s' a = Some pg" and "Data pg = Data p"
    and "ID pg = i" and "page_ok pg" and "pins pg = 0" and "keeps s s'" and "view s' i = Some (Data p)"
    and "room s (Suc n) \<Longrightarrow> room s' n"
proof -
  obtain s' a pg where g: "GetPage i s = (Inr a, s')" "pager_inv {} s'" "no_fault s'" "cached s' i = Some a"
    "p_heap s' a = Some pg" "Data pg = Data p" "ID pg = i" "keeps s s'" "room s (Suc n) \<Longrightarrow> room s' n"
    by (rule GetPage_ok [OF inv nf v, where n = n]) (rule that; blast)
  have "page_ok pg" "pins pg = 0"
    using pager_invD(4) [OF g(2,4)] g(5) by (auto simp: page_valid_def)
  moreover have "bindP (GetPage i) (\<lambda>a. bindP (readObj a) (f a)) s = f a pg s'" for f :: "addr \<Rightarrow> Page \<Rightarrow> 'b pm"
    using g(1,5) by (simp add: readObj_def bindP_def)
  ultimately show ?thesis using g keeps_view [OF g(8) v] that [of a pg s'] by auto
qed

text \<open>\<open>search\<close> on pages that represent a tree returns the lookup in the tree and changes no page.\<close>

lemma search_repr:
  assumes "pager_inv {} s" and "no_fault s" and "repr (view s) t" and "height t \<le> n"
  shows "\<exists>s'. search n (tree_id t) key s = (Inr (lookup t key), s') \<and> pager_inv {} s' \<and> no_fault s' \<and> keeps s s'"
  using assms
proof (induction t arbitrary: s n)
  case (TLeaf i xs)
  then obtain m where n: "n = Suc m" by (cases n) auto
  from TLeaf(3) obtain p where p: "view s i = Some (Data p)" "i \<noteq> InvalidPage" "leaf_inv p"
    "Type p = PageTypeLeaf" "page_items p = xs" by (rule repr_leafE)
  obtain s' a pg where g: "\<And>f :: addr \<Rightarrow> Page \<Rightarrow> byte list option pm. bindP (GetPage i) (\<lambda>a. bindP (readObj a) (f a)) s = f a pg s'"
    "pager_inv {} s'" "no_fault s'" "Data pg = Data p" "keeps s s'"
    by (rule fetch [OF TLeaf(1,2) p(1)]) (rule that; blast)
  note D = same_data [OF g(4)]
  have wf: "wf_page pg" "keys_sorted (page_items pg)" "page_items pg = xs" "Type pg = PageTypeLeaf"
    using leaf_invD [OF p(3)] p(4,5) by (simp_all add: D)
  note F = findP_sorted [OF wf(1,2), of key]
  have "search n i key s = (Inr (map_of xs key), s')"
  proof (cases "map_of xs key")
    case None
    then show ?thesis using p(2) wf F(1) [of s'] by (simp add: n g(1) PageTypeLeaf_def PageTypeInternal_def)
  next
    case (Some v)
    with F(2) [of v] wf cellOf_wf [OF wf(1), of "pos xs key"] have
      "cellOf pg (of_int (int (pos xs key))) = Inr (page_cells pg ! pos xs key)"
      "Value (page_cells pg ! pos xs key) = v" by (auto simp: nth_page_items)
    with Some show ?thesis using p(2) wf F(1) [of s'] by (simp add: n g(1))
  qed
  then show ?case using g by simp
next
  case (TNode i ks cs)
  then obtain m where n: "n = Suc m" by (cases n) auto
  note C = repr_child [OF TNode(4), of key]
  from TNode(4) obtain p where p: "view s i = Some (Data p)" "i \<noteq> InvalidPage" "leaf_inv p"
    "Type p = PageTypeInternal" "page_items p = ks" "map tree_id cs = kids p" by (rule repr_nodeE)
  obtain s' a pg where g: "\<And>f :: addr \<Rightarrow> Page \<Rightarrow> byte list option pm. bindP (GetPage i) (\<lambda>a. bindP (readObj a) (f a)) s = f a pg s'"
    "pager_inv {} s'" "no_fault s'" "Data pg = Data p" "keeps s s'"
    by (rule fetch [OF TNode(2,3) p(1)]) (rule that; blast)
  note D = same_data [OF g(4)]
  let ?j = "pos ks key"
  have wf: "wf_page pg" "keys_sorted (page_items pg)" "page_items pg = ks" "Type pg = PageTypeInternal"
    using leaf_invD [OF p(3)] p(4,5) by (simp_all add: D)
  note F = findP_sorted [OF wf(1,2), of key]
  have nc: "ncells pg = length ks" using length_page_items [of pg] wf(3) by simp
  have kid: "kids pg ! ?j = tree_id (cs ! ?j)" using p(6) C(1) by (simp add: D flip: p(6))
  have "search n i key s = search m (tree_id (cs ! ?j)) key s'"
  proof (cases "map_of ks key")
    case None
    have "?j \<le> ncells pg" by (simp add: nc pos_le)
    then show ?thesis using childAt_wf [OF wf(1), of ?j] None p(2) wf F(1) [of s'] kid
      by (auto simp: n g(1) childAt_def bindE_eq_Inr PageTypeLeaf_def PageTypeInternal_def split: if_splits)
  next
    case (Some v)
    with F(2) [of v] wf cellOf_wf [OF wf(1), of ?j] have
      c: "cellOf pg (of_int (int ?j)) = Inr (page_cells pg ! ?j)" and l: "?j < ncells pg" by auto
    have "LeftPtr (page_cells pg ! ?j) = tree_id (cs ! ?j)" using kid l by (simp add: kids_def nth_append)
    with Some c show ?thesis using p(2) wf F(1) [of s']
      by (simp add: n g(1) PageTypeLeaf_def PageTypeInternal_def)
  qed
  moreover have "repr (view s') (cs ! ?j)"
    using C(2) g(5) by (auto simp: keeps_def intro: repr_mono)
  moreover have "height (cs ! ?j) \<le> m" using height_child [OF C(1), of i ks] TNode(5) n by simp
  ultimately show ?case
    using TNode(1) [of "cs ! ?j" s' m] C(1) g(2,3) keeps_trans [OF g(5)] by auto
qed

end
