(* ===== verification/TreeOps.thy ===== *)
theory TreeOps
  imports PageTree
begin

text \<open>
  Insertion without overflow and deletion of a key that no internal page on its path holds:
  both change one leaf of the tree and keep every other page.
\<close>

section \<open>Lists of items\<close>

lemma pos_bounds: "j < pos xs k \<Longrightarrow> fst (xs ! j) < k" "pos xs k < length xs \<Longrightarrow> \<not> fst (xs ! pos xs k) < k"
  unfolding pos_def
  by (metis nth_mem set_takeWhileD takeWhile_nth, metis nth_length_takeWhile)

lemma lower_bound_pos:
  assumes "keys_sorted xs" and "map_of xs k = None"
  shows "lower_bound xs k (pos xs k)"
  unfolding lower_bound_def
proof (intro conjI allI impI)
  show "pos xs k \<le> length xs" by (rule pos_le)
  show "fst (xs ! j) < k" if "j < pos xs k" for j using that by (rule pos_bounds(1))
  fix j assume j: "j < length xs" "pos xs k \<le> j"
  have ne: "fst (xs ! j') \<noteq> k" if "j' < length xs" for j'
    using map_of_sorted_nth [OF assms(1) that] assms(2) by auto
  have "k < fst (xs ! pos xs k)"
    using pos_bounds(2) [of xs k] ne [of "pos xs k"] j by (metis linorder_neqE order_le_less_trans)
  also have "\<dots> \<le> fst (xs ! j)"
    using assms(1) j by (cases "pos xs k = j") (auto simp: keys_sorted_nth intro: less_imp_le)
  finally show "k < fst (xs ! j)" .
qed

lemma pos_present:
  assumes "keys_sorted xs" and "map_of xs k = Some v"
  shows "pos xs k < length xs" and "xs ! pos xs k = (k, v)"
proof -
  from assms(2) obtain i where i: "i < length xs" "xs ! i = (k, v)"
    by (metis in_set_conv_nth map_of_SomeD)
  with pos_found [OF assms(1), of i k] show "pos xs k < length xs" "xs ! pos xs k = (k, v)" by simp_all
qed

lemma put_items_sorted:
  assumes "keys_sorted xs"
  shows "keys_sorted (put_items xs k v)" and "map_of (put_items xs k v) = (map_of xs)(k \<mapsto> v)"
proof -
  have "keys_sorted (put_items xs k v) \<and> map_of (put_items xs k v) = (map_of xs)(k \<mapsto> v)"
  proof (cases "map_of xs k")
    case None
    with lower_bound_pos [OF assms None] assms show ?thesis
      by (simp add: put_items_def keys_sorted_insert_at map_of_insert_at)
  next
    case (Some w)
    with pos_present [OF assms Some] assms show ?thesis
      by (simp add: put_items_def keys_sorted_update map_of_update_at)
  qed
  then show "keys_sorted (put_items xs k v)" "map_of (put_items xs k v) = (map_of xs)(k \<mapsto> v)" by simp_all
qed

lemma del_items_sorted:
  assumes "keys_sorted xs"
  shows "keys_sorted (del_items xs k)" and "map_of (del_items xs k) = (map_of xs)(k := None)"
proof -
  have "keys_sorted (del_items xs k) \<and> map_of (del_items xs k) = (map_of xs)(k := None)"
  proof (cases "map_of xs k")
    case None
    then show ?thesis using assms by (auto simp: del_items_def)
  next
    case (Some w)
    with pos_present [OF assms Some] assms show ?thesis
      by (simp add: del_items_def keys_sorted_remove_at map_of_remove_at)
  qed
  then show "keys_sorted (del_items xs k)" "map_of (del_items xs k) = (map_of xs)(k := None)" by simp_all
qed

section \<open>Changing one leaf of a tree\<close>

lemma nth_kid [simp]: "pos ks k < length cs \<Longrightarrow> map f cs ! pos ks k = f (cs ! pos ks k)"
  by simp

lemma leaf_of_in: "repr v t \<Longrightarrow> leaf_of t k \<in> set (tree_ids t)"
proof (induction t)
  case (TNode i ks cs)
  note C = repr_child [OF TNode(2), of k]
  with TNode(1) [of "cs ! pos ks k"] show ?case by (auto intro!: bexI [of _ "cs ! pos ks k"])
qed simp

lemma map_update_same:
  assumes "j < length cs" and "f x = f (cs ! j)"
  shows "map f (cs[j := x]) = map f cs"
  by (rule nth_equalityI) (use assms in \<open>auto simp: nth_list_update\<close>)

lemma leaf_page: "repr v t \<Longrightarrow> \<exists>p. v (leaf_of t k) = Some (Data p) \<and> leaf_inv p \<and> Type p = PageTypeLeaf"
proof (induction t)
  case (TNode i ks cs)
  note C = repr_child [OF TNode(2), of k]
  with TNode(1) [of "cs ! pos ks k"] show ?case by simp
qed (auto elim: repr_leafE)

lemma upd_leaf_ids: "repr v t \<Longrightarrow> tree_id (upd_leaf f t k) = tree_id t \<and> tree_ids (upd_leaf f t k) = tree_ids t"
proof (induction t)
  case (TNode i ks cs)
  note C = repr_child [OF TNode(2), of k]
  with TNode(1) [of "cs ! pos ks k"] have "tree_ids (upd_leaf f (cs ! pos ks k) k) = tree_ids (cs ! pos ks k)" by simp
  then have "map tree_ids (cs[pos ks k := upd_leaf f (cs ! pos ks k) k]) = map tree_ids cs"
    by (rule map_update_same [OF C(1)])
  then show ?case by (simp only: upd_leaf.simps tree_id.simps tree_ids.simps nth_kid [OF C(1)] simp_thms)
qed simp

lemma distinct_concat_disjoint:
  "distinct (concat xss) \<Longrightarrow> i < length xss \<Longrightarrow> j < length xss \<Longrightarrow> i \<noteq> j \<Longrightarrow> x \<in> set (xss ! i) \<Longrightarrow> x \<notin> set (xss ! j)"
proof (induction xss arbitrary: i j)
  case (Cons ys yss)
  have d: "distinct (concat yss)" "set ys \<inter> set (concat yss) = {}" using Cons.prems(1) by simp_all
  have s: "set (yss ! m) \<subseteq> set (concat yss)" if "m < length yss" for m
    using nth_mem [OF that] by auto
  consider "i = 0" "j = 0" | m where "i = 0" "j = Suc m" | m where "i = Suc m" "j = 0" | m m' where "i = Suc m" "j = Suc m'"
    by (cases i; cases j)
  then show ?case
  proof cases
    case 1
    then show ?thesis using Cons.prems by simp
  next
    case (2 m)
    then show ?thesis using Cons.prems(3,5) d(2) s [of m] by auto
  next
    case (3 m)
    then show ?thesis using Cons.prems(2,5) d(2) s [of m] by auto
  next
    case (4 m m')
    then show ?thesis using Cons.IH [of m m'] Cons.prems d(1) by simp
  qed
qed simp

lemma repr_upd_leaf:
  assumes "repr v t" and "distinct (tree_ids t)" and "v (leaf_of t k) = Some (Data p)"
    and "leaf_inv p'" and "Type p' = PageTypeLeaf" and "page_items p' = f (page_items p)"
  shows "repr (v(leaf_of t k \<mapsto> Data p')) (upd_leaf f t k)"
  using assms
proof (induction t rule: tree.induct)
  case (TLeaf i xs)
  from TLeaf(1) obtain q where q: "v i = Some (Data q)" "i \<noteq> InvalidPage" "page_items q = xs"
    by (auto elim: repr_leafE)
  with TLeaf(3) same_data(6) [of q p] have "page_items p = xs" by simp
  with TLeaf q show ?case by (auto intro!: repr.leaf [of _ _ p'])
next
  case (TNode i ks cs)
  note R = TNode(2) and C = repr_child [OF TNode(2), of k]
  let ?c = "cs ! pos ks k" and ?j = "pos ks k"
  let ?w = "v(leaf_of ?c k \<mapsto> Data p')"
  have d: "i \<notin> set (concat (map tree_ids cs))" "distinct (concat (map tree_ids cs))"
    using TNode(3) by simp_all
  have dc: "distinct (tree_ids ?c)" using d(2) C(1) by (simp add: distinct_concat_iff)
  have lin: "leaf_of ?c k \<in> set (tree_ids ?c)" by (rule leaf_of_in [OF C(2)])
  then have ne: "leaf_of ?c k \<noteq> i" using d(1) C(1) by auto
  have sub: "repr ?w (upd_leaf f ?c k)"
    using TNode(4) by (intro TNode(1) [OF nth_mem [OF C(1)] C(2) dc _ TNode(5-7)]) (simp add: C(1))
  have oth: "repr ?w (cs ! m)" if m: "m < length cs" "m \<noteq> ?j" for m
  proof (rule repr_frame)
    show "repr v (cs ! m)" using R m by (auto elim: repr_nodeE)
    fix x assume "x \<in> set (tree_ids (cs ! m))"
    then have "x \<notin> set (tree_ids ?c)"
      using distinct_concat_disjoint [OF d(2), of m ?j x] m C(1) by simp
    with lin show "?w x = v x" by auto
  qed
  from R obtain q where q: "v i = Some (Data q)" "i \<noteq> InvalidPage" "leaf_inv q"
    "Type q = PageTypeInternal" "page_items q = ks" "map tree_id cs = kids q" by (rule repr_nodeE)
  have kids: "map tree_id (cs[?j := upd_leaf f ?c k]) = kids q"
    using map_update_same [OF C(1), of tree_id "upd_leaf f ?c k"] upd_leaf_ids [OF C(2)] q(6) by simp
  have all: "repr ?w c" if "c \<in> set (cs[?j := upd_leaf f ?c k])" for c
  proof -
    from that obtain m where "m < length cs" "cs[?j := upd_leaf f ?c k] ! m = c"
      by (auto simp: in_set_conv_nth)
    then show ?thesis using sub oth [of m] by (cases "m = ?j") auto
  qed
  have "?w i = Some (Data q)" using ne q(1) by simp
  from repr.node [of ?w, OF this q(2-5) kids all] show ?case
    by (simp only: upd_leaf.simps leaf_of.simps nth_kid [OF C(1)])
qed

text \<open>What lookups see of a change that is right on the items of the leaf.\<close>

lemma lookup_upd_leaf:
  assumes "repr v t" and "\<And>xs. keys_sorted xs \<Longrightarrow> map_of (f xs) = (map_of xs)(k := r)"
  shows "lookup (upd_leaf f t k) k' = (if k' = k then r else lookup t k')"
  using assms(1)
proof (induction t rule: tree.induct)
  case (TLeaf i xs)
  then have "keys_sorted xs" by (auto elim!: repr_leafE dest: leaf_invD)
  with assms(2) show ?case by simp
next
  case (TNode i ks cs)
  note C = repr_child [OF TNode(2), of k] and C' = repr_child [OF TNode(2), of k']
  show ?case
  proof (cases "pos ks k' = pos ks k")
    case True
    with TNode(1) [of "cs ! pos ks k"] C show ?thesis by simp
  next
    case False
    then have "k' \<noteq> k" by auto
    with False C C' show ?thesis by simp
  qed
qed

section \<open>Insertion without overflow\<close>

lemma leaf_put_items:
  assumes "leaf_inv p" and "leaf_fits p k v"
  obtains p' where "leaf_put p k v = Inr p'" and "leaf_inv p'" and "page_items p' = put_items (page_items p) k v"
    and "Type p' = Type p" and "RightmostPointer p' = RightmostPointer p" and "ID p' = ID p" and "Dirty p'"
    and "pins p' = pins p"
proof -
  obtain p' where p': "leaf_put p k v = Inr p'" "leaf_inv p'" "map_of (page_items p') = (map_of (page_items p))(k \<mapsto> v)"
    "Type p' = Type p" "RightmostPointer p' = RightmostPointer p" "ID p' = ID p" "Dirty p'" "pins p' = pins p"
    by (rule leaf_put_ok [OF assms])
  have "page_items p' = put_items (page_items p) k v"
    using leaf_invD(3) [OF p'(2)] put_items_sorted [OF leaf_invD(3) [OF assms(1)], of k v] p'(3)
    by (intro keys_sorted_unique) simp_all
  with p' show ?thesis using that by simp
qed

lemma insertLeaf_fits:
  assumes "p_heap s a = Some pg" and "leaf_put pg k v = Inr pg'"
  shows "insertLeaf a k v s = (Inr None, s\<lparr>p_heap := (p_heap s)(a \<mapsto> pg')\<rparr>)"
proof -
  obtain idx found where f: "leaf_find pg k = Inr (idx, found)"
    using assms(2) by (cases "leaf_find pg k") (auto simp: leaf_put_def)
  then show ?thesis
    using assms by (cases found)
      (auto simp: insertLeaf_def readObj_def findP_def leaf_put_def bindP_def writeObj_def simp flip: leaf_find_def)
qed

text \<open>One leaf gets the item, every other page keeps its contents.\<close>

lemma insertInto_repr:
  assumes "pager_inv {} s" and "no_fault s" and "repr (view s) t" and "height t \<le> n"
    and "\<And>p. view s (leaf_of t k) = Some (Data p) \<Longrightarrow> leaf_fits p k v"
  shows "\<exists>s' p p'. insertInto n (tree_id t) k v s = (Inr None, s') \<and> pager_inv {} s' \<and> no_fault s' \<and>
    view s (leaf_of t k) = Some (Data p) \<and> leaf_inv p' \<and> Type p' = PageTypeLeaf \<and>
    page_items p' = put_items (page_items p) k v \<and> (view s)(leaf_of t k \<mapsto> Data p') \<subseteq>\<^sub>m view s' \<and>
    p_header s' = p_header s \<and> p_freePages s' = p_freePages s \<and> grows s s'"
  using assms
proof (induction t arbitrary: s n)
  case (TLeaf i xs)
  then obtain m where n: "n = Suc m" by (cases n) auto
  from TLeaf(3) obtain p where p: "view s i = Some (Data p)" "i \<noteq> InvalidPage" "leaf_inv p"
    "Type p = PageTypeLeaf" "page_items p = xs" by (rule repr_leafE)
  obtain s1 a pg where g: "\<And>f :: addr \<Rightarrow> Page \<Rightarrow> split pm. bindP (GetPage i) (\<lambda>a. bindP (readObj a) (f a)) s = f a pg s1"
    "pager_inv {} s1" "no_fault s1" "cached s1 i = Some a" "p_heap s1 a = Some pg" "Data pg = Data p" "ID pg = i"
    "page_ok pg" "pins pg = 0" "keeps s s1"
    by (rule fetch [OF TLeaf(1,2) p(1)]) (rule that; blast)
  note D = same_data [OF g(6)]
  have pg: "leaf_inv pg" "leaf_fits pg k v" "page_items pg = xs" "Type pg = PageTypeLeaf"
    using p(1,3,4,5) TLeaf(5) [of p] by (simp_all add: D)
  obtain q where "leaf_put pg k v = Inr q" "leaf_inv q" "page_items q = put_items (page_items pg) k v"
    "Type q = Type pg" "RightmostPointer q = RightmostPointer pg" "ID q = ID pg" "Dirty q" "pins q = pins pg"
    by (rule leaf_put_items [OF pg(1,2)])
  then have q: "leaf_put pg k v = Inr q" "leaf_inv q" "page_items q = put_items xs k v"
    "Type q = PageTypeLeaf" "ID q = i" "Dirty q" "pins q = 0"
    using pg(3,4) g(7,9) by simp_all
  let ?s' = "s1\<lparr>p_heap := (p_heap s1)(a \<mapsto> q)\<rparr>"
  have "page_ok q" using leaf_invD(2) [OF q(2)] by (rule wf_pageD(1))
  note S = setObj_ok [OF g(2,4) q(5) this q(7,6)]
  have "insertInto n i k v s = (Inr None, ?s')"
    using insertLeaf_fits [OF g(5) q(1)] p(4) by (simp add: n g(1) D)
  moreover have "(view s)(i \<mapsto> Data q) \<subseteq>\<^sub>m view ?s'"
    using g(10) by (simp add: S(3) keeps_def map_le_upd)
  moreover have "pager_inv {} ?s'" "no_fault ?s'" using S(1) g(3) by simp_all
  moreover have "p_header ?s' = p_header s" "p_freePages ?s' = p_freePages s" using g(10) by (simp_all add: keeps_def)
  moreover have "grows s ?s'" using g(10) p(1) by (intro grows_upd [OF _ _ S(3)]) (simp_all add: keeps_def)
  ultimately show ?case unfolding tree_id.simps leaf_of.simps using p(1,5) q(2,3,4) by blast
next
  case (TNode i ks cs)
  then obtain m where n: "n = Suc m" by (cases n) auto
  note C = repr_child [OF TNode(4), of k]
  from TNode(4) obtain p where p: "view s i = Some (Data p)" "i \<noteq> InvalidPage" "leaf_inv p"
    "Type p = PageTypeInternal" "page_items p = ks" "map tree_id cs = kids p" by (rule repr_nodeE)
  obtain s1 a pg where g: "\<And>f :: addr \<Rightarrow> Page \<Rightarrow> split pm. bindP (GetPage i) (\<lambda>a. bindP (readObj a) (f a)) s = f a pg s1"
    "pager_inv {} s1" "no_fault s1" "Data pg = Data p" "keeps s s1"
    by (rule fetch [OF TNode(2,3) p(1)]) (rule that; blast)
  note D = same_data [OF g(4)]
  let ?j = "pos ks k" and ?c = "cs ! pos ks k"
  have wf: "wf_page pg" "keys_sorted (page_items pg)" "page_items pg = ks" "Type pg = PageTypeInternal"
    using leaf_invD [OF p(3)] p(4,5) by (simp_all add: D)
  have jl: "?j \<le> ncells pg" using length_page_items [of pg] wf(3) pos_le [of ks k] by simp
  have kid: "kids pg ! ?j = tree_id ?c" unfolding D(8) p(6) [symmetric] by (rule nth_map [OF C(1)])
  have ch: "childAt pg (int ?j) = Inr (tree_id ?c)"
    unfolding childAt_wf [OF wf(1) jl] kid ..
  note F = findP_sorted(1) [OF wf(1,2), of k s1]
  have r1: "repr (view s1) ?c" using C(2) g(5) by (auto simp: keeps_def intro: repr_mono)
  obtain q0 :: Page where q0: "view s (leaf_of ?c k) = Some (Data q0)"
    using leaf_page [OF C(2), of k] by blast
  then have q1: "view s1 (leaf_of ?c k) = Some (Data q0)" by (rule keeps_view [OF g(5)])
  have hm: "height ?c \<le> m" using height_child [OF C(1), of i ks] TNode(5) n by simp
  have fit: "leaf_fits q k v" if "view s1 (leaf_of ?c k) = Some (Data q)" for q
    using TNode(6) [of q] that q0 q1 C(1) by simp
  from TNode(1) [OF nth_mem [OF C(1)] g(2,3) r1 hm fit]
  obtain s' and p1 p' :: Page where s': "insertInto m (tree_id ?c) k v s1 = (Inr None, s')" "pager_inv {} s'" "no_fault s'"
    "view s1 (leaf_of ?c k) = Some (Data p1)" "leaf_inv p'" "Type p' = PageTypeLeaf"
    "page_items p' = put_items (page_items p1) k v" "(view s1)(leaf_of ?c k \<mapsto> Data p') \<subseteq>\<^sub>m view s'"
    "p_header s' = p_header s1" "p_freePages s' = p_freePages s1" "grows s1 s'"
    by blast
  have "insertInto n i k v s = (Inr None, s')"
    using F ch s'(1) wf(3,4) by (simp add: n g(1) PageTypeLeaf_def PageTypeInternal_def)
  moreover have "view s (leaf_of ?c k) = Some (Data p1)" using q0 q1 s'(4) by simp
  moreover have "(view s)(leaf_of ?c k \<mapsto> Data p') \<subseteq>\<^sub>m view s'"
  proof (rule map_le_trans [OF _ s'(8)])
    show "(view s)(leaf_of ?c k \<mapsto> Data p') \<subseteq>\<^sub>m (view s1)(leaf_of ?c k \<mapsto> Data p')"
      using g(5) by (simp add: keeps_def map_le_upd)
  qed
  moreover have "p_header s' = p_header s" "p_freePages s' = p_freePages s"
    using g(5) s'(9,10) by (simp_all add: keeps_def)
  moreover have "grows s s'" using g(5) s'(11) by (auto simp: keeps_def intro: grows_trans)
  ultimately show ?case
    unfolding tree_id.simps leaf_of.simps nth_kid [OF C(1)] using s'(2,3,5,6,7) by blast
qed

section \<open>Deletion\<close>

lemma leaf_del_items:
  assumes "leaf_inv p"
  obtains p' where "leaf_del p k = Inr (p', map_of (page_items p) k \<noteq> None)" and "leaf_inv p'"
    and "page_items p' = del_items (page_items p) k" and "Type p' = Type p" and "ID p' = ID p"
    and "pins p' = pins p" and "map_of (page_items p) k \<noteq> None \<Longrightarrow> Dirty p'" and "map_of (page_items p) k = None \<Longrightarrow> p' = p"
proof -
  show ?thesis
  proof (rule leaf_del_ok [OF assms, where key = k])
    fix p' f
    assume p': "leaf_del p k = Inr (p', f)" "leaf_inv p'"
      "map_of (page_items p') = (map_of (page_items p))(k := None)" "f \<longleftrightarrow> map_of (page_items p) k \<noteq> None"
      "Type p' = Type p" "RightmostPointer p' = RightmostPointer p" "ID p' = ID p" "pins p' = pins p"
      "f \<Longrightarrow> Dirty p'" "\<not> f \<Longrightarrow> p' = p"
    have "page_items p' = del_items (page_items p) k"
      using leaf_invD(3) [OF p'(2)] del_items_sorted [OF leaf_invD(3) [OF assms], of k] p'(3)
      by (intro keys_sorted_unique) simp_all
    with p' show ?thesis using that [of p'] by auto
  qed
qed

lemma deleteFrom_repr:
  assumes "pager_inv {} s" and "no_fault s" and "repr (view s) t" and "height t \<le> n" and "\<not> on_path t k"
  shows "\<exists>s' p p'. deleteFrom n (tree_id t) k s = (Inr (lookup t k \<noteq> None), s') \<and> pager_inv {} s' \<and> no_fault s' \<and>
    view s (leaf_of t k) = Some (Data p) \<and> leaf_inv p' \<and> Type p' = PageTypeLeaf \<and>
    page_items p' = del_items (page_items p) k \<and> (view s)(leaf_of t k \<mapsto> Data p') \<subseteq>\<^sub>m view s' \<and>
    p_header s' = p_header s \<and> p_freePages s' = p_freePages s \<and> grows s s'"
  using assms
proof (induction t arbitrary: s n)
  case (TLeaf i xs)
  then obtain m where n: "n = Suc m" by (cases n) auto
  from TLeaf(3) obtain p where p: "view s i = Some (Data p)" "i \<noteq> InvalidPage" "leaf_inv p"
    "Type p = PageTypeLeaf" "page_items p = xs" by (rule repr_leafE)
  obtain s1 a pg where g: "\<And>f :: addr \<Rightarrow> Page \<Rightarrow> bool pm. bindP (GetPage i) (\<lambda>a. bindP (readObj a) (f a)) s = f a pg s1"
    "pager_inv {} s1" "no_fault s1" "cached s1 i = Some a" "p_heap s1 a = Some pg" "Data pg = Data p" "ID pg = i"
    "page_ok pg" "pins pg = 0" "keeps s s1"
    by (rule fetch [OF TLeaf(1,2) p(1)]) (rule that; blast)
  note D = same_data [OF g(6)]
  have pg: "leaf_inv pg" "page_items pg = xs" "Type pg = PageTypeLeaf" using p(3,4,5) by (simp_all add: D)
  note wf = leaf_invD(2,3) [OF pg(1)]
  note F = findP_sorted(1) [OF wf, of k s1]
  have hd: "p_header s1 = p_header s" "p_freePages s1 = p_freePages s" "view s \<subseteq>\<^sub>m view s1" "grows s s1"
    using g(10) by (simp_all add: keeps_def)
  obtain q where q: "leaf_del pg k = Inr (q, map_of (page_items pg) k \<noteq> None)" "leaf_inv q"
    "page_items q = del_items (page_items pg) k" "Type q = Type pg" "ID q = ID pg" "pins q = pins pg"
    "map_of (page_items pg) k \<noteq> None \<Longrightarrow> Dirty q" "map_of (page_items pg) k = None \<Longrightarrow> q = pg"
    by (rule leaf_del_items [OF pg(1), of k]) (rule that; simp)
  have "page_ok q" using leaf_invD(2) [OF q(2)] by (rule wf_pageD(1))
  show ?case
  proof (cases "map_of xs k")
    case None
    have "deleteFrom n i k s = (Inr False, s1)"
      using F None pg p(2) by (simp add: n g(1) PageTypeLeaf_def PageTypeInternal_def)
    moreover have "(view s)(i \<mapsto> Data pg) \<subseteq>\<^sub>m view s1"
      using hd(3) p(1) g(6) by (simp add: fun_upd_idem)
    moreover have "page_items pg = del_items (page_items p) k" using None pg(2) p(5) by (simp add: del_items_def)
    ultimately show ?thesis
      unfolding tree_id.simps leaf_of.simps lookup.simps None using hd(1,2,4) g(2,3) p(1) pg(1,3)
      by - (rule exI [of _ s1], rule exI [of _ p], rule exI [of _ pg], simp del: fun_upd_apply)
  next
    case (Some v)
    with q(7) pg(2) have dq: "Dirty q" by simp
    let ?s' = "s1\<lparr>p_heap := (p_heap s1)(a \<mapsto> q)\<rparr>"
    have "ID q = i" "pins q = 0" using q(5,6) g(7,9) by simp_all
    note S = setObj_ok [OF g(2,4) \<open>ID q = i\<close> \<open>page_ok q\<close> \<open>pins q = 0\<close> dq]
    note P = pos_present [OF wf(2), of k v]
    have "leaf_find pg k = Inr (int (pos xs k), True)" using F Some pg(2) by (simp add: findP_def leaf_find_def)
    then obtain r where r: "removeCellAt pg (of_int (int (pos xs k))) = Inr r" "q = r\<lparr>Dirty := True\<rparr>"
      using q(1) by (auto simp: leaf_del_def bindE_eq_Inr)
    have "cellOf pg (of_int (int (pos xs k))) = Inr (page_cells pg ! pos xs k)"
      using P Some pg(2) length_page_items [of pg] by (intro cellOf_wf [OF wf(1)]) simp
    then have "deleteFrom n i k s = (Inr True, ?s')"
      using F Some pg r p(2) by (simp add: n g(1) writeObj_def)
    moreover have "(view s)(i \<mapsto> Data q) \<subseteq>\<^sub>m view ?s'" using hd(3) by (simp add: S(3) map_le_upd)
    moreover have "pager_inv {} ?s'" "no_fault ?s'" using S(1) g(3) by simp_all
    moreover have "p_header ?s' = p_header s" "p_freePages ?s' = p_freePages s" using hd by simp_all
    moreover have "grows s ?s'" using hd(4) p(1) by (intro grows_upd [OF _ _ S(3)]) simp_all
    moreover have "page_items q = del_items (page_items p) k" using q(3) pg(2) p(5) by simp
    ultimately show ?thesis
      unfolding tree_id.simps leaf_of.simps lookup.simps Some using q(2,4) p(1) pg(3)
      by - (rule exI [of _ "?s'"], rule exI [of _ p], rule exI [of _ q], simp del: fun_upd_apply)
  qed
next
  case (TNode i ks cs)
  then obtain m where n: "n = Suc m" by (cases n) auto
  note C = repr_child [OF TNode(4), of k]
  from TNode(4) obtain p where p: "view s i = Some (Data p)" "i \<noteq> InvalidPage" "leaf_inv p"
    "Type p = PageTypeInternal" "page_items p = ks" "map tree_id cs = kids p" by (rule repr_nodeE)
  obtain s1 a pg where g: "\<And>f :: addr \<Rightarrow> Page \<Rightarrow> bool pm. bindP (GetPage i) (\<lambda>a. bindP (readObj a) (f a)) s = f a pg s1"
    "pager_inv {} s1" "no_fault s1" "Data pg = Data p" "keeps s s1"
    by (rule fetch [OF TNode(2,3) p(1)]) (rule that; blast)
  note D = same_data [OF g(4)]
  let ?j = "pos ks k" and ?c = "cs ! pos ks k"
  have wf: "wf_page pg" "keys_sorted (page_items pg)" "page_items pg = ks" "Type pg = PageTypeInternal"
    using leaf_invD [OF p(3)] p(4,5) by (simp_all add: D)
  have jl: "?j \<le> ncells pg" using length_page_items [of pg] wf(3) pos_le [of ks k] by simp
  have kid: "kids pg ! ?j = tree_id ?c" unfolding D(8) p(6) [symmetric] by (rule nth_map [OF C(1)])
  have ch: "childAt pg (int ?j) = Inr (tree_id ?c)"
    unfolding childAt_wf [OF wf(1) jl] kid ..
  note F = findP_sorted(1) [OF wf(1,2), of k s1]
  have np: "map_of ks k = None" "\<not> on_path ?c k" using TNode(6) C(1) by simp_all
  have r1: "repr (view s1) ?c" using C(2) g(5) by (auto simp: keeps_def intro: repr_mono)
  have hm: "height ?c \<le> m" using height_child [OF C(1), of i ks] TNode(5) n by simp
  obtain q0 :: Page where q0: "view s (leaf_of ?c k) = Some (Data q0)" using leaf_page [OF C(2), of k] by blast
  then have q1: "view s1 (leaf_of ?c k) = Some (Data q0)" by (rule keeps_view [OF g(5)])
  from TNode(1) [OF nth_mem [OF C(1)] g(2,3) r1 hm np(2)]
  obtain s' and p1 p' :: Page where s': "deleteFrom m (tree_id ?c) k s1 = (Inr (lookup ?c k \<noteq> None), s')" "pager_inv {} s'" "no_fault s'"
    "view s1 (leaf_of ?c k) = Some (Data p1)" "leaf_inv p'" "Type p' = PageTypeLeaf"
    "page_items p' = del_items (page_items p1) k" "(view s1)(leaf_of ?c k \<mapsto> Data p') \<subseteq>\<^sub>m view s'"
    "p_header s' = p_header s1" "p_freePages s' = p_freePages s1" "grows s1 s'" by blast
  have "deleteFrom n i k s = (Inr (lookup ?c k \<noteq> None), s')"
    using F ch s'(1) wf(3,4) p(2) np(1) by (simp add: n g(1) PageTypeLeaf_def PageTypeInternal_def)
  moreover have "view s (leaf_of ?c k) = Some (Data p1)" using q0 q1 s'(4) by simp
  moreover have "(view s)(leaf_of ?c k \<mapsto> Data p') \<subseteq>\<^sub>m view s'"
  proof (rule map_le_trans [OF _ s'(8)])
    show "(view s)(leaf_of ?c k \<mapsto> Data p') \<subseteq>\<^sub>m (view s1)(leaf_of ?c k \<mapsto> Data p')"
      using g(5) by (simp add: keeps_def map_le_upd)
  qed
  moreover have "p_header s' = p_header s" "p_freePages s' = p_freePages s"
    using g(5) s'(9,10) by (simp_all add: keeps_def)
  moreover have "grows s s'" using g(5) s'(11) by (auto simp: keeps_def intro: grows_trans)
  ultimately show ?case
    unfolding tree_id.simps leaf_of.simps lookup.simps nth_kid [OF C(1)] using s'(2,3,5,6,7) by blast
qed

section \<open>The tree as a map\<close>

definition fits :: "Pager \<Rightarrow> tree \<Rightarrow> byte list \<Rightarrow> byte list \<Rightarrow> bool" where
  "fits s t k v \<longleftrightarrow> (\<forall>p. view s (leaf_of t k) = Some (Data p) \<longrightarrow> leaf_fits p k v)"

text \<open>A tree in the store: the pages represent it and the pager is in order.\<close>

definition tree_in :: "nat \<Rightarrow> tree \<Rightarrow> Pager \<Rightarrow> bool" where
  "tree_in n t s \<longleftrightarrow> pager_inv {} s \<and> no_fault s \<and> alloc_ok s \<and> repr (view s) t \<and> distinct (tree_ids t) \<and> height t \<le> n"

lemma tree_in_root: "tree_in n t s \<Longrightarrow> tree_id t \<noteq> InvalidPage"
  by (cases t) (auto simp: tree_in_def elim: repr_leafE repr_nodeE)

lemma height_upd_leaf: "repr v t \<Longrightarrow> height (upd_leaf f t k) = height t"
proof (induction t)
  case (TNode i ks cs)
  note C = repr_child [OF TNode(2), of k]
  with TNode(1) [of "cs ! pos ks k"] have "height (upd_leaf f (cs ! pos ks k) k) = height (cs ! pos ks k)" by simp
  then have "map height (cs[pos ks k := upd_leaf f (cs ! pos ks k) k]) = map height cs"
    by (rule map_update_same [OF C(1)])
  then show ?case by (simp only: upd_leaf.simps height.simps nth_kid [OF C(1)])
qed simp

lemma Get_tree:
  assumes "tree_in n t s"
  obtains s' where "Get n (tree_id t) k s = (Inr (lookup t k), s')" and "tree_in n t s'" and "keeps s s'"
proof -
  obtain s' where s': "search n (tree_id t) k s = (Inr (lookup t k), s')" "pager_inv {} s'" "no_fault s'" "keeps s s'"
    using search_repr [of s t n k] assms by (auto simp: tree_in_def)
  moreover have "repr (view s') t" "alloc_ok s'"
    using assms s'(4) by (auto simp: tree_in_def keeps_def intro: repr_mono alloc_ok_keeps)
  ultimately show ?thesis using that [of s'] assms by (simp add: tree_in_def Get_def)
qed

lemma change_leaf:
  assumes t: "tree_in n t s" and s': "pager_inv {} s'" "no_fault s'"
    and p: "view s (leaf_of t k) = Some (Data p)" "leaf_inv p'" "Type p' = PageTypeLeaf" "page_items p' = f (page_items p)"
    and v: "(view s)(leaf_of t k \<mapsto> Data p') \<subseteq>\<^sub>m view s'"
    and h: "p_header s' = p_header s" "p_freePages s' = p_freePages s" "grows s s'"
  shows "tree_in n (upd_leaf f t k) s'"
proof -
  have R: "repr (view s) t" "distinct (tree_ids t)" using t by (simp_all add: tree_in_def)
  have "repr (view s') (upd_leaf f t k)"
    by (rule repr_mono [OF repr_upd_leaf [where f = f, OF R p] v])
  moreover have "alloc_ok s'"
    using t h unfolding tree_in_def alloc_ok_def grows_def by (metis order_le_less_trans)
  ultimately show ?thesis using t s' upd_leaf_ids [OF R(1)] height_upd_leaf [OF R(1)] by (simp add: tree_in_def)
qed

lemma frame_ids:
  assumes "(view s)(l \<mapsto> d) \<subseteq>\<^sub>m view s'" and "l \<in> A" and "i \<notin> A" and "view s i = Some e"
  shows "view s' i = Some e"
proof -
  have "i \<noteq> l" using assms(2,3) by auto
  then have "((view s)(l \<mapsto> d)) i = Some e" using assms(4) by simp
  with assms(1) show ?thesis unfolding map_le_def by (metis domI)
qed

lemma Insert_tree:
  assumes t: "tree_in n t s" and f: "fits s t k v"
  obtains s' t' where "Insert n (tree_id t) k v s = ((Inr (), tree_id t), s')" and "tree_in n t' s'"
    and "tree_id t' = tree_id t" and "tree_ids t' = tree_ids t"
    and "\<And>k'. lookup t' k' = (if k' = k then Some v else lookup t k')"
    and "\<And>i d. i \<notin> set (tree_ids t) \<Longrightarrow> view s i = Some d \<Longrightarrow> view s' i = Some d"
    and "p_header s' = p_header s"
proof -
  have T: "pager_inv {} s" "no_fault s" "repr (view s) t" "height t \<le> n" using t by (simp_all add: tree_in_def)
  from insertInto_repr [OF T, of k v] f
  obtain s' and p p' :: Page where s': "insertInto n (tree_id t) k v s = (Inr None, s')" "pager_inv {} s'" "no_fault s'"
    "view s (leaf_of t k) = Some (Data p)" "leaf_inv p'" "Type p' = PageTypeLeaf"
    "page_items p' = put_items (page_items p) k v" "(view s)(leaf_of t k \<mapsto> Data p') \<subseteq>\<^sub>m view s'"
    "p_header s' = p_header s" "p_freePages s' = p_freePages s" "grows s s'" unfolding fits_def by blast
  let ?f = "\<lambda>xs. put_items xs k v"
  have "tree_in n (upd_leaf ?f t k) s'" by (rule change_leaf [OF t s'(2-6) _ s'(8-11)]) (rule s'(7))
  moreover have "Insert n (tree_id t) k v s = ((Inr (), tree_id t), s')"
    using tree_in_root [OF t] s'(1) by (simp add: Insert_def)
  moreover have "lookup (upd_leaf ?f t k) k' = (if k' = k then Some v else lookup t k')" for k'
    by (rule lookup_upd_leaf [OF T(3)]) (simp add: put_items_sorted)
  moreover have "view s' i = Some d" if "i \<notin> set (tree_ids t)" "view s i = Some d" for i d
    by (rule frame_ids [OF s'(8) leaf_of_in [OF T(3)] that])
  ultimately show ?thesis using that [of s' "upd_leaf ?f t k"] upd_leaf_ids [OF T(3)] s'(9) by simp
qed

lemma Delete_tree:
  assumes t: "tree_in n t s" and np: "\<not> on_path t k"
  obtains s' t' where "Delete n (tree_id t) k s = (Inr (lookup t k \<noteq> None), s')" and "tree_in n t' s'"
    and "tree_id t' = tree_id t" and "tree_ids t' = tree_ids t"
    and "\<And>k'. lookup t' k' = (if k' = k then None else lookup t k')"
    and "\<And>i d. i \<notin> set (tree_ids t) \<Longrightarrow> view s i = Some d \<Longrightarrow> view s' i = Some d"
    and "p_header s' = p_header s"
proof -
  have T: "pager_inv {} s" "no_fault s" "repr (view s) t" "height t \<le> n" using t by (simp_all add: tree_in_def)
  from deleteFrom_repr [OF T np]
  obtain s' and p p' :: Page where s': "deleteFrom n (tree_id t) k s = (Inr (lookup t k \<noteq> None), s')" "pager_inv {} s'" "no_fault s'"
    "view s (leaf_of t k) = Some (Data p)" "leaf_inv p'" "Type p' = PageTypeLeaf"
    "page_items p' = del_items (page_items p) k" "(view s)(leaf_of t k \<mapsto> Data p') \<subseteq>\<^sub>m view s'"
    "p_header s' = p_header s" "p_freePages s' = p_freePages s" "grows s s'" by blast
  let ?f = "\<lambda>xs. del_items xs k"
  have "tree_in n (upd_leaf ?f t k) s'" by (rule change_leaf [OF t s'(2-6) _ s'(8-11)]) (rule s'(7))
  moreover have "lookup (upd_leaf ?f t k) k' = (if k' = k then None else lookup t k')" for k'
    by (rule lookup_upd_leaf [OF T(3)]) (simp add: del_items_sorted)
  moreover have "view s' i = Some d" if "i \<notin> set (tree_ids t)" "view s i = Some d" for i d
    by (rule frame_ids [OF s'(8) leaf_of_in [OF T(3)] that])
  ultimately show ?thesis using that [of s' "upd_leaf ?f t k"] upd_leaf_ids [OF T(3)] s'(1,9) by (simp add: Delete_def)
qed

end
