(* ===== verification/Split.thy ===== *)
theory Split
  imports TreeOps
begin

text \<open>
  Splitting a full leaf. The cells of the leaf and the new one are divided in the middle between
  the leaf and a new page; when the leaf was the root, a new root with one separator is put
  above the two.
\<close>

section \<open>The sorted insertion of a cell\<close>

lemma cKeyCmp_less: "cKeyCmp a b < 0 \<longleftrightarrow> a < b"
  by (auto simp: cKeyCmp_def key_cmp_lex)

lemma insertSorted_idx_takeWhile:
  "insertSorted_idx cs c i = i + length (takeWhile (\<lambda>x. \<not> Key c < Key x) cs)"
  by (induction cs arbitrary: i) (auto simp: cKeyCmp_less)

lemma insertSorted_items:
  assumes "keys_sorted (page_items p)" and "map_of (page_items p) (Key c) = None"
  shows "insertSorted (page_cells p) c = insert_at (pos (page_items p) (Key c)) c (page_cells p)"
    and "map (\<lambda>c. (Key c, Value c)) (insertSorted (page_cells p) c) = put_items (page_items p) (Key c) (Value c)"
proof -
  let ?cs = "page_cells p"
  have ne: "Key x \<noteq> Key c" if "x \<in> set ?cs" for x
  proof -
    have "Key c \<notin> Key ` set ?cs"
      using assms(2) by (simp add: page_items_def map_of_eq_None_iff image_image)
    with that show ?thesis by (metis imageI)
  qed
  have "takeWhile (\<lambda>x. \<not> Key c < Key x) ?cs = takeWhile (\<lambda>x. Key x < Key c) ?cs"
    using ne by (intro takeWhile_cong) (auto simp: not_less order_le_less)
  then have "length (takeWhile (\<lambda>x. \<not> Key c < Key x) ?cs) = pos (page_items p) (Key c)"
    by (simp add: pos_def page_items_def takeWhile_map comp_def)
  then show a: "insertSorted ?cs c = insert_at (pos (page_items p) (Key c)) c ?cs"
    by (simp add: insertSorted_def insertSorted_idx_takeWhile)
  show "map (\<lambda>c. (Key c, Value c)) (insertSorted ?cs c) = put_items (page_items p) (Key c) (Value c)"
    using assms(2) by (simp add: a put_items_def map_insert_at page_items_def)
qed

section \<open>Filling a page\<close>

definition cells_bytes :: "Cell list \<Rightarrow> nat" where
  "cells_bytes cs = sum_list (map (\<lambda>c. cell_size c + 2) cs)"

lemma insertCells_ok:
  assumes "p_heap s a = Some pg" and "tight_page pg" and "\<forall>c \<in> set cs. cell_small c"
    and "cells_bytes cs \<le> free_bytes pg" and "Dirty pg"
  shows "\<exists>pg'. insertCells a cs s = (Inr (), s\<lparr>p_heap := (p_heap s)(a \<mapsto> pg')\<rparr>) \<and> tight_page pg' \<and>
    page_cells pg' = page_cells pg @ cs \<and> Type pg' = Type pg \<and> RightmostPointer pg' = RightmostPointer pg \<and>
    ID pg' = ID pg \<and> pins pg' = pins pg \<and> Dirty pg'"
  using assms
proof (induction cs arbitrary: s pg)
  case Nil
  then have "s\<lparr>p_heap := (p_heap s)(a \<mapsto> pg)\<rparr> = s" by (simp add: fun_upd_idem)
  with Nil show ?case by (intro exI [of _ pg]) (simp del: fun_upd_apply)
next
  case (Cons c cs)
  have sm: "cell_small c" using Cons.prems(3) by simp
  have b: "cell_size c + 2 \<le> free_bytes pg" "cells_bytes cs \<le> free_bytes pg - (cell_size c + 2)"
    using Cons.prems(4) by (simp_all add: cells_bytes_def)
  have n: "unat (CellCount pg) \<le> ncells pg" by (simp add: ncells_def)
  obtain q where q: "insertCellIntoPageAt pg c (CellCount pg) = Inr q" "tight_page q"
    "page_cells q = insert_at (unat (CellCount pg)) c (page_cells pg)"
    "free_bytes q = free_bytes pg - (cell_size c + 2)"
    "Type q = Type pg" "RightmostPointer q = RightmostPointer pg" "ID q = ID pg" "Dirty q" "pins q = pins pg"
    by (rule insert_tight [OF Cons.prems(2) sm n b(1)])
  have i: "insertCellIntoPage pg c = Inr q"
    using insertCellIntoPage_wf [OF tight_wf [OF Cons.prems(2)] sm] q(1) by simp
  have pc: "page_cells q = page_cells pg @ [c]"
    using q(3) insert_at_length [of "page_cells pg" c] by (simp add: ncells_def)
  let ?s = "s\<lparr>p_heap := (p_heap s)(a \<mapsto> q)\<rparr>"
  have "\<exists>pg'. insertCells a cs ?s = (Inr (), ?s\<lparr>p_heap := (p_heap ?s)(a \<mapsto> pg')\<rparr>) \<and> tight_page pg' \<and>
    page_cells pg' = page_cells q @ cs \<and> Type pg' = Type q \<and> RightmostPointer pg' = RightmostPointer q \<and>
    ID pg' = ID q \<and> pins pg' = pins q \<and> Dirty pg'"
    using Cons.prems(3) b(2) q(4) by (intro Cons.IH) (simp_all add: q(2,8))
  then obtain pg' where r: "insertCells a cs ?s = (Inr (), ?s\<lparr>p_heap := (p_heap ?s)(a \<mapsto> pg')\<rparr>)" "tight_page pg'"
    "page_cells pg' = page_cells q @ cs" "Type pg' = Type q" "RightmostPointer pg' = RightmostPointer q"
    "ID pg' = ID q" "pins pg' = pins q" "Dirty pg'" by blast
  have "insertCells a (c # cs) s = (Inr (), s\<lparr>p_heap := (p_heap s)(a \<mapsto> pg')\<rparr>)"
    using Cons.prems(1) i r(1) by (simp add: readObj_def writeObj_def bindP_def)
  with r q(5-9) pc show ?case by (intro exI [of _ pg']) (simp del: insertCells.simps fun_upd_apply)
qed

section \<open>Splitting\<close>

lemma initLeaf_pins: "pins (initLeaf p) = pins p"
  by (simp add: initLeaf_def page_setters)

text \<open>What a split needs: the new page does not push pages out of the cache, and the cells of
  each half fit into a page.\<close>

definition halves_fit :: "Cell list \<Rightarrow> bool" where
  "halves_fit cs \<longleftrightarrow> (\<forall>c \<in> set cs. cell_small c) \<and>
     cells_bytes (take (length cs div 2) cs) \<le> 4087 \<and> cells_bytes (drop (length cs div 2) cs) \<le> 4087"

lemma succ_less:
  assumes "(j :: 32 word) < InvalidPage"
  shows "j < j + 1"
proof -
  have "unat j < 4294967295"
    using assms by (simp add: InvalidPage_def word_less_nat_alt unsigned_minus_1_eq_mask mask_eq_exp_minus_1)
  then have "unat (j + 1) = unat j + 1" by (simp add: unat_word_ariths)
  then show ?thesis by (simp add: word_less_nat_alt)
qed

text \<open>Allocating a page and giving it its first contents \<open>q\<close>.\<close>

lemma alloc_init:
  assumes inv: "pager_inv {} s" and nf: "no_fault s" and al: "alloc_ok s" and rm: "room s (Suc n)"
    and j_def: "j = hPageCount (p_header s)" and jm: "j < InvalidPage"
  obtains s1 b where "AllocatePage s = (Inr b, s1)" and "p_heap s1 b = Some (newPage j)" and "cached s j = None"
    and "p_heap s b = None" and "p_header s1 = (p_header s)\<lparr>hPageCount := j + 1\<rparr>"
    and "\<And>q. ID q = j \<Longrightarrow> page_ok q \<Longrightarrow> pins q = 0 \<Longrightarrow> Dirty q \<Longrightarrow>
      (let t = s1\<lparr>p_heap := (p_heap s1)(b \<mapsto> q)\<rparr> in pager_inv {} t \<and> no_fault t \<and> alloc_ok t \<and>
         room t n \<and> cached t = (cached s)(j \<mapsto> b) \<and> p_heap t = (p_heap s)(b \<mapsto> q) \<and>
         view t = (view s)(j \<mapsto> Data q) \<and> p_header t = (p_header s)\<lparr>hPageCount := j + 1\<rparr>)"
proof -
  note I = pager_invD [OF inv]
  have rm1: "room s 1" using rm by (simp add: room_def)
  obtain s1 b where A: "AllocatePage s = (Inr b, s1)" "pager_inv {b} s1" "no_fault s1" "cached s1 j = Some b"
    "p_heap s1 b = Some (newPage j)"
    "p_header s1 = (p_header s)\<lparr>hPageCount := j + 1\<rparr>" "p_freePages s1 = []"
    "cached s1 = (cached s)(j \<mapsto> b)" "\<forall>x. x \<noteq> b \<longrightarrow> p_heap s1 x = p_heap s x" "p_heap s b = None"
    "p_file s1 = p_file s" "room s1 n" "\<forall>x. x \<noteq> j \<longrightarrow> view s1 x \<noteq> None \<longrightarrow> (\<exists>e. view s e \<noteq> None \<and> x \<le> e)"
    by (rule AllocatePage_ok [OF inv nf al, folded j_def, where n = n]) (rule that; use rm rm1 in blast)
  have cj: "cached s j = None" using alloc_ok_uncached [OF inv al] by (simp add: j_def)
  have v1: "view s1 x = view s x" if "x \<noteq> j" for x
  proof (cases "cached s x")
    case None
    then show ?thesis using that A(11) by (simp add: view_def A(8))
  next
    case (Some y)
    then have "p_heap s y \<noteq> None" using I(4) [OF Some] by (auto simp: page_valid_def)
    then have "y \<noteq> b" using A(10) by auto
    with Some that A(9) show ?thesis by (simp add: view_def A(8))
  qed
  have "x < j + 1" if "view s1 x \<noteq> None" for x
  proof (cases "x = j")
    case True
    with succ_less [OF jm] show ?thesis by simp
  next
    case False
    with A(13) that obtain e where "view s e \<noteq> None" "x \<le> e" by blast
    with al have "x < j" by (auto simp: alloc_ok_def j_def)
    from this succ_less [OF jm] show ?thesis by (rule less_trans)
  qed
  then have al1: "alloc_ok s1" by (simp add: alloc_ok_def A(6,7))
  show ?thesis
  proof (rule that [OF A(1,5) cj A(10,6)])
    fix q assume q: "ID q = j" "page_ok q" "pins q = 0" "Dirty q"
    note S = setObj_ok [OF A(2,4) q]
    have "(view s1)(j \<mapsto> Data q) = (view s)(j \<mapsto> Data q)" using v1 by (simp add: fun_eq_iff)
    moreover have "(p_heap s1)(b \<mapsto> q) = (p_heap s)(b \<mapsto> q)" using A(9) by (simp add: fun_eq_iff)
    ultimately show "let t = s1\<lparr>p_heap := (p_heap s1)(b \<mapsto> q)\<rparr> in pager_inv {} t \<and> no_fault t \<and> alloc_ok t \<and>
         room t n \<and> cached t = (cached s)(j \<mapsto> b) \<and> p_heap t = (p_heap s)(b \<mapsto> q) \<and>
         view t = (view s)(j \<mapsto> Data q) \<and> p_header t = (p_header s)\<lparr>hPageCount := j + 1\<rparr>"
      using S A(3,6,8,12) al1 by (simp add: Let_def del: fun_upd_apply)
  qed
qed

text \<open>Overwriting a cached page with a dirty one.\<close>

lemma set_page:
  assumes "pager_inv {} s" and "cached s i = Some a" and "ID q = i" and "tight_page q" and "pins q = 0" and "Dirty q"
    and t: "t = s\<lparr>p_heap := (p_heap s)(a \<mapsto> q)\<rparr>"
  shows "pager_inv {} t" and "cached t = cached s" and "view t = (view s)(i \<mapsto> Data q)" and "room t n = room s n"
    and "alloc_ok t = alloc_ok s" and "no_fault t = no_fault s" and "p_header t = p_header s"
  using setObj_ok [OF assms(1,2,3) wf_pageD(1) [OF tight_wf [OF assms(4)]] assms(5,6)] by (simp_all add: t)

lemma splitLeaf_ok:
  assumes inv: "pager_inv {} s" and nf: "no_fault s" and al: "alloc_ok s" and rm: "room s (Suc n)"
    and c: "cached s i = Some a" and pg: "p_heap s a = Some pg" "leaf_inv pg"
    and cells_def: "cells = insertSorted (page_cells pg) \<lparr>Key = k, Value = v, LeftPtr = InvalidPage\<rparr>"
    and j_def: "j = hPageCount (p_header s)"
    and fit: "halves_fit cells" and jm: "j < InvalidPage"
  obtains s' and p1 p2 :: Page where
    "splitLeaf a k v s = (Inr (Some (Key (cells ! (length cells div 2)), Value (cells ! (length cells div 2)), j)), s')"
    and "pager_inv {} s'" and "no_fault s'" and "view s' = (view s)(i \<mapsto> Data p1, j \<mapsto> Data p2)"
    and "tight_page p1" and "page_cells p1 = take (length cells div 2) cells" and "Type p1 = Type pg"
    and "tight_page p2" and "page_cells p2 = drop (length cells div 2) cells" and "Type p2 = PageTypeLeaf"
    and "p_header s' = (p_header s)\<lparr>hPageCount := j + 1\<rparr>" and "alloc_ok s'" and "room s' n" and "i \<noteq> j"
proof -
  let ?m = "length cells div 2" and ?c = "clearPage pg"
  have V: "ID pg = i" "page_ok pg" "pins pg = 0" using pager_invD(4) [OF inv c] pg(1) by (auto simp: page_valid_def)
  obtain s1 b where A: "AllocatePage s = (Inr b, s1)" "p_heap s1 b = Some (newPage j)" "cached s j = None"
    "p_heap s b = None"
    and B: "\<And>q. ID q = j \<Longrightarrow> page_ok q \<Longrightarrow> pins q = 0 \<Longrightarrow> Dirty q \<Longrightarrow>
      (let t = s1\<lparr>p_heap := (p_heap s1)(b \<mapsto> q)\<rparr> in pager_inv {} t \<and> no_fault t \<and> alloc_ok t \<and>
         room t n \<and> cached t = (cached s)(j \<mapsto> b) \<and> p_heap t = (p_heap s)(b \<mapsto> q) \<and>
         view t = (view s)(j \<mapsto> Data q) \<and> p_header t = (p_header s)\<lparr>hPageCount := j + 1\<rparr>)"
    by (rule alloc_init [OF inv nf al rm j_def jm]) (rule that)
  have ij: "i \<noteq> j" and ab: "a \<noteq> b" using c A(3,4) pg(1) by auto
  have np: "page_ok (newPage j)" "ID (newPage j) = j" "pins (newPage j) = 0"
    by (rule page_ok_newPage, simp_all add: newPage_def)
  let ?q = "initLeaf (newPage j)"
  note Q = initLeaf_fields [OF np(1)] initLeaf_empty [OF np(1)] initLeaf_pins [of "newPage j"]
  define s2 where "s2 = s1\<lparr>p_heap := (p_heap s1)(b \<mapsto> ?q)\<rparr>"
  have s2: "pager_inv {} s2" "no_fault s2" "alloc_ok s2" "room s2 n" "cached s2 = (cached s)(j \<mapsto> b)"
    "p_heap s2 = (p_heap s)(b \<mapsto> ?q)" "view s2 = (view s)(j \<mapsto> Data ?q)" "p_header s2 = (p_header s)\<lparr>hPageCount := j + 1\<rparr>"
    using B [of ?q, folded s2_def] Q np by (simp_all add: Let_def del: fun_upd_apply)
  note Cl = clearPage_fields [OF V(2)] clearPage_empty [OF V(2)]
  define s3 where "s3 = s2\<lparr>p_heap := (p_heap s2)(a \<mapsto> ?c)\<rparr>"
  have h3: "p_heap s3 a = Some ?c" by (simp add: s3_def)
  have fits: "\<forall>x \<in> set (take ?m cells). cell_small x" "\<forall>x \<in> set (drop ?m cells). cell_small x"
    "cells_bytes (take ?m cells) \<le> free_bytes ?c" "cells_bytes (drop ?m cells) \<le> free_bytes ?q"
    using fit Cl(11) Q(10) by (auto simp: halves_fit_def dest: in_set_takeD in_set_dropD)
  from insertCells_ok [OF h3 Cl(9) fits(1,3) Cl(7)] obtain p1 where
    p1: "insertCells a (take ?m cells) s3 = (Inr (), s3\<lparr>p_heap := (p_heap s3)(a \<mapsto> p1)\<rparr>)" "tight_page p1"
    "page_cells p1 = take ?m cells" "Type p1 = Type pg" "ID p1 = i" "pins p1 = 0" "Dirty p1"
    using Cl(4,6,8,10) V by auto
  define s4 where "s4 = s3\<lparr>p_heap := (p_heap s3)(a \<mapsto> p1)\<rparr>"
  have s4_eq: "s4 = s2\<lparr>p_heap := (p_heap s2)(a \<mapsto> p1)\<rparr>" by (simp add: s4_def s3_def)
  have c2: "cached s2 i = Some a" using c ij by (simp add: s2(5))
  note s4 = set_page [OF s2(1) c2 p1(5,2,6,7) s4_eq]
  have h4: "p_heap s4 b = Some ?q" using ab by (simp add: s4_eq s2(6))
  from insertCells_ok [OF h4 Q(8) fits(2,4) Q(7)] obtain p2 where
    p2: "insertCells b (drop ?m cells) s4 = (Inr (), s4\<lparr>p_heap := (p_heap s4)(b \<mapsto> p2)\<rparr>)" "tight_page p2"
    "page_cells p2 = drop ?m cells" "Type p2 = PageTypeLeaf" "ID p2 = j" "pins p2 = 0" "Dirty p2"
    using Q(4,6,9,11) np by auto
  define s5 where "s5 = s4\<lparr>p_heap := (p_heap s4)(b \<mapsto> p2)\<rparr>"
  have c4: "cached s4 j = Some b" by (simp add: s4(2) s2(5))
  note s5 = set_page [OF s4(1) c4 p2(5,2,6,7) s5_def]
  have run: "splitLeaf a k v s = (Inr (Some (Key (cells ! ?m), Value (cells ! ?m), j)), s5)"
  proof -
    have cc: "collectCells pg = Inr (page_cells pg)" by (rule collectCells_wf [OF leaf_invD(2) [OF pg(2)]])
    have e: "(SetRightmostPointer InvalidPage (SetCellContentOffset (of_nat PageSize)
        (SetCellCount 0 (SetType PageTypeLeaf (newPage j)))))\<lparr>Dirty := True\<rparr> = ?q" by (simp add: initLeaf_def)
    have id: "ID (SetRightmostPointer InvalidPage (SetCellContentOffset (of_nat PageSize)
        (SetCellCount 0 (SetType PageTypeLeaf (newPage j))))) = j" using np(2) by (simp add: page_setters)
    have w1: "writeObj b ?q s1 = (Inr (), s2)" "writeObj a ?c s2 = (Inr (), s3)" "p_heap s2 a = Some pg"
      using ab pg(1) s2(6) by (simp_all add: writeObj_def s2_def s3_def)
    show ?thesis
      unfolding splitLeaf_def Let_def
      using pg(1) cc A(1,2) w1 p1(1) p2(1) id
      by (simp add: readObj_def e cells_def [symmetric] s4_def [symmetric] s5_def [symmetric])
  qed
  have "view s5 = (view s)(i \<mapsto> Data p1, j \<mapsto> Data p2)"
    using ij by (auto simp: s5(3) s4(3) s2(7) fun_eq_iff)
  then show ?thesis
    using that [OF run s5(1)] s5 s4 s2(2,3,4,8) p1(2,3,4) p2(2,3,4) ij by simp
qed

section \<open>A new root\<close>

definition initInternal :: "32 word \<Rightarrow> Page \<Rightarrow> Page" where
  "initInternal np pg = (SetRightmostPointer np (SetCellContentOffset (of_nat PageSize)
     (SetCellCount 0 (SetType PageTypeInternal pg))))\<lparr>Dirty := True\<rparr>"

lemma initInternal_fields:
  assumes "page_ok p"
  shows "page_ok (initInternal np p)" "tight_page (initInternal np p)" "page_cells (initInternal np p) = []"
    "free_bytes (initInternal np p) = 4087" "Type (initInternal np p) = PageTypeInternal"
    "RightmostPointer (initInternal np p) = np" "ID (initInternal np p) = ID p" "pins (initInternal np p) = pins p"
    "Dirty (initInternal np p)"
proof -
  have e: "initInternal np p = SetRightmostPointer np (SetCellContentOffset (of_nat PageSize)
     (SetCellCount 0 (SetType PageTypeInternal p)))"
    by (simp add: initInternal_def page_setters)
  have f: "page_ok (initInternal np p)" "CellCount (initInternal np p) = 0"
    "CellContentOffset (initInternal np p) = of_nat PageSize"
    using assms by (simp_all add: e page_simps)
  then show "page_ok (initInternal np p)" "tight_page (initInternal np p)" "page_cells (initInternal np p) = []"
    "free_bytes (initInternal np p) = 4087" using empty_page by auto
  show "Type (initInternal np p) = PageTypeInternal" "RightmostPointer (initInternal np p) = np"
    "ID (initInternal np p) = ID p" "Dirty (initInternal np p)"
    using assms by (simp_all add: e page_simps)
  show "pins (initInternal np p) = pins p" by (simp add: initInternal_def page_setters)
qed

lemma growRoot_ok:
  assumes inv: "pager_inv {} s" and nf: "no_fault s" and al: "alloc_ok s" and rm: "room s (Suc n)"
    and r_def: "r = hPageCount (p_header s)" and rmax: "r < InvalidPage"
    and c_def: "c = \<lparr>Key = mk, Value = mv, LeftPtr = root\<rparr>" and fit: "cell_small c" "cell_size c + 2 \<le> 4087"
  obtains s' and p :: Page where "growRoot root (mk, mv, np) s = (Inr r, s')" and "pager_inv {} s'" and "no_fault s'"
    and "view s' = (view s)(r \<mapsto> Data p)" and "tight_page p" and "page_cells p = [c]" and "Type p = PageTypeInternal"
    and "RightmostPointer p = np" and "alloc_ok s'" and "room s' n"
    and "p_header s' = (p_header s)\<lparr>hPageCount := r + 1, RootPage := r\<rparr>" and "cached s r = None"
proof -
  obtain s1 b where A: "AllocatePage s = (Inr b, s1)" "p_heap s1 b = Some (newPage r)" "cached s r = None"
    "p_heap s b = None"
    and B: "\<And>q. ID q = r \<Longrightarrow> page_ok q \<Longrightarrow> pins q = 0 \<Longrightarrow> Dirty q \<Longrightarrow>
      (let t = s1\<lparr>p_heap := (p_heap s1)(b \<mapsto> q)\<rparr> in pager_inv {} t \<and> no_fault t \<and> alloc_ok t \<and>
         room t n \<and> cached t = (cached s)(r \<mapsto> b) \<and> p_heap t = (p_heap s)(b \<mapsto> q) \<and>
         view t = (view s)(r \<mapsto> Data q) \<and> p_header t = (p_header s)\<lparr>hPageCount := r + 1\<rparr>)"
    by (rule alloc_init [OF inv nf al rm r_def rmax]) (rule that)
  have n0: "page_ok (newPage r)" "ID (newPage r) = r" "pins (newPage r) = 0"
    by (rule page_ok_newPage, simp_all add: newPage_def)
  let ?q = "initInternal np (newPage r)"
  note Q = initInternal_fields [OF n0(1), of np]
  define s2 where "s2 = s1\<lparr>p_heap := (p_heap s1)(b \<mapsto> ?q)\<rparr>"
  have s2: "pager_inv {} s2" "no_fault s2" "alloc_ok s2" "room s2 n" "cached s2 = (cached s)(r \<mapsto> b)"
    "p_heap s2 = (p_heap s)(b \<mapsto> ?q)" "view s2 = (view s)(r \<mapsto> Data ?q)" "p_header s2 = (p_header s)\<lparr>hPageCount := r + 1\<rparr>"
    using B [of ?q, folded s2_def] Q n0 by (simp_all add: Let_def del: fun_upd_apply)
  have h2: "p_heap s2 b = Some ?q" "\<forall>x \<in> set [c]. cell_small x" "cells_bytes [c] \<le> free_bytes ?q" "cached s2 r = Some b"
    using fit Q(4) by (simp_all add: s2(5,6) cells_bytes_def)
  from insertCells_ok [OF h2(1) Q(2) h2(2,3) Q(9)] obtain p where
    p: "insertCells b [c] s2 = (Inr (), s2\<lparr>p_heap := (p_heap s2)(b \<mapsto> p)\<rparr>)" "tight_page p"
    "page_cells p = [c]" "Type p = PageTypeInternal" "RightmostPointer p = np" "ID p = r" "pins p = 0" "Dirty p"
    using Q(3,5,6,7,8) n0 by auto
  define s3 where "s3 = s2\<lparr>p_heap := (p_heap s2)(b \<mapsto> p)\<rparr>"
  note s3 = set_page [OF s2(1) h2(4) p(6,2,7,8) s3_def]
  define s4 where "s4 = s3\<lparr>p_header := (p_header s3)\<lparr>RootPage := r\<rparr>\<rparr>"
  have c4: "cached s4 = cached s3" by (simp add: cached_def s4_def)
  have inv4: "pager_inv {} s4"
    by (rule pager_inv_cong [OF s3(1) c4]) (use pager_invD(1) [OF s3(1)] in \<open>simp_all add: s4_def\<close>)
  have v4: "view s4 = view s3" by (rule view_cong [OF c4]) (simp_all add: s4_def)
  have al4: "alloc_ok s4 = alloc_ok s3" "room s4 n = room s3 n"
    unfolding alloc_ok_def v4 room_def by (simp_all add: s4_def)
  have e: "(SetRightmostPointer np (SetCellContentOffset (of_nat PageSize)
      (SetCellCount 0 (SetType PageTypeInternal (newPage r)))))\<lparr>Dirty := True\<rparr> = ?q" by (simp add: initInternal_def)
  have id: "ID (SetRightmostPointer np (SetCellContentOffset (of_nat PageSize)
      (SetCellCount 0 (SetType PageTypeInternal (newPage r))))) = r" using n0(2) by (simp add: page_setters)
  have "writeObj b ?q s1 = (Inr (), s2)" by (simp add: writeObj_def s2_def)
  then have "growRoot root (mk, mv, np) s = (Inr r, s4)"
    unfolding growRoot_def Let_def prod.case c_def [symmetric]
    using A(1,2) p(1) id by (simp add: readObj_def e s3_def [symmetric] s4_def del: insertCells.simps)
  moreover have "view s4 = (view s)(r \<mapsto> Data p)" using v4 s3(3) s2(7) by simp
  moreover have "p_header s4 = (p_header s)\<lparr>hPageCount := r + 1, RootPage := r\<rparr>" "no_fault s4"
    using s3(6,7) s2(2,8) by (simp_all add: s4_def)
  ultimately show ?thesis using that [of s4 p] inv4 al4 s3(4,5) s2(3,4) p A(3) by simp
qed

section \<open>The first split of a tree\<close>

lemma view_cached_obj:
  assumes "pager_inv X s" and "cached s i = Some a"
  obtains pg where "p_heap s a = Some pg" and "view s i = Some (Data pg)"
  using page_validE [OF pager_invD(4) [OF assms]] assms(2) by (metis view_cached)

text \<open>Inserting a new key into a full root leaf runs \<open>splitLeaf\<close> on it.\<close>

lemma insertLeaf_full:
  assumes "p_heap s a = Some pg" and inv: "leaf_inv pg" and "map_of (page_items pg) k = None"
    and "length k + length v + 10 < 2 ^ 16" and "free_bytes pg < 8 + length k + length v + 2"
  shows "insertLeaf a k v s = splitLeaf a k v s"
proof -
  note L = leaf_invD [OF inv]
  have "leaf_put pg k v = Inl ErrPageFull" by (rule leaf_put_full [OF assms(2,4,3,5)])
  moreover have "findP pg k s = (Inr (int (pos (page_items pg) k), False), s)"
    using findP_sorted(1) [OF L(2,3), of k s] assms(3) by simp
  ultimately show ?thesis
    using assms(1) by (simp add: insertLeaf_def readObj_def bindP_def leaf_put_def findP_def leaf_find_def)
qed

text \<open>\<open>xs\<close> split at its middle, the first key of the right half as the separator.\<close>

definition split_tree :: "32 word \<Rightarrow> 32 word \<Rightarrow> (byte list \<times> byte list) list \<Rightarrow> tree" where
  "split_tree i j xs = (let m = length xs div 2 in TNode (j + 1) [xs ! m] [TLeaf i (take m xs), TLeaf j (drop m xs)])"

definition needs_split :: "Pager \<Rightarrow> 32 word \<Rightarrow> byte list \<Rightarrow> byte list \<Rightarrow> bool" where
  "needs_split s i k v \<longleftrightarrow> (\<forall>p. view s i = Some (Data p) \<longrightarrow>
     free_bytes p < 8 + length k + length v + 2 \<and>
     halves_fit (insertSorted (page_cells p) \<lparr>Key = k, Value = v, LeftPtr = InvalidPage\<rparr>))"

lemma halves_sep:
  assumes "halves_fit cs" and "cs \<noteq> []"
  shows "cell_small (cs ! (length cs div 2))" "cell_size (cs ! (length cs div 2)) + 2 \<le> 4087"
proof -
  let ?m = "length cs div 2"
  have m: "?m < length cs" using assms(2) by (cases cs) auto
  then have d: "drop ?m cs = cs ! ?m # drop (Suc ?m) cs" by (rule Cons_nth_drop_Suc [symmetric])
  show "cell_small (cs ! ?m)" using assms(1) m by (simp add: halves_fit_def)
  show "cell_size (cs ! ?m) + 2 \<le> 4087" using assms(1) unfolding halves_fit_def d by (simp add: cells_bytes_def)
qed

lemma Insert_root_split:
  assumes t: "tree_in n (TLeaf i xs) s" and new: "map_of xs k = None" and small: "length k + length v + 10 < 2 ^ 16"
    and full: "needs_split s i k v" and rm: "room s 3"
    and j_def: "j = hPageCount (p_header s)" and jm: "j + 1 < InvalidPage" "j < InvalidPage"
  obtains s' where "Insert n i k v s = ((Inr (), j + 1), s')" and "tree_in 2 (split_tree i j (put_items xs k v)) s'"
    and "\<And>x d. x \<noteq> i \<Longrightarrow> view s x = Some d \<Longrightarrow> view s' x = Some d"
    and "p_header s' = (p_header s)\<lparr>hPageCount := j + 2, RootPage := j + 1\<rparr>"
proof -
  have T: "pager_inv {} s" "no_fault s" "alloc_ok s" "repr (view s) (TLeaf i xs)" "0 < n"
    using t by (simp_all add: tree_in_def)
  obtain m where n: "n = Suc m" using T(5) by (cases n) auto
  from T(4) obtain p where p: "view s i = Some (Data p)" "i \<noteq> InvalidPage" "leaf_inv p"
    "Type p = PageTypeLeaf" "page_items p = xs" by (rule repr_leafE)
  have rm': "room s (Suc 2)" using rm by (simp add: numeral_eq_Suc)
  obtain s1 a pg where g: "\<And>f :: addr \<Rightarrow> Page \<Rightarrow> split pm. bindP (GetPage i) (\<lambda>a. bindP (readObj a) (f a)) s = f a pg s1"
    "pager_inv {} s1" "no_fault s1" "cached s1 i = Some a" "p_heap s1 a = Some pg" "Data pg = Data p" "keeps s s1" "room s1 2"
    by (rule fetch [OF T(1,2) p(1), where n = 2]) (rule that; use rm' in blast)
  note D = same_data [OF g(6)]
  let ?c = "\<lparr>Key = k, Value = v, LeftPtr = InvalidPage\<rparr>"
  define cells where "cells = insertSorted (page_cells pg) ?c"
  have pg: "leaf_inv pg" "page_items pg = xs" "Type pg = PageTypeLeaf" using p(3,4,5) by (simp_all add: D)
  have vf: "free_bytes pg < 8 + length k + length v + 2" "halves_fit cells"
    using full p(1) unfolding needs_split_def cells_def D by auto
  have ks: "keys_sorted (page_items pg)" by (rule leaf_invD(3) [OF pg(1)])
  have it: "map (\<lambda>c. (Key c, Value c)) cells = put_items xs k v"
    using insertSorted_items(2) [OF ks, of ?c] new pg(2) by (simp add: cells_def)
  let ?m = "length cells div 2" and ?ys = "put_items xs k v"
  have ly: "length ?ys = length cells" by (simp flip: it)
  have hd1: "p_header s1 = p_header s" and al1: "alloc_ok s1"
    using g(7) alloc_ok_keeps [OF T(3)] by (simp_all add: keeps_def)
  have j1: "j = hPageCount (p_header s1)" by (simp add: j_def hd1)
  have rm1: "room s1 (Suc 1)" using g(8) by (simp add: numeral_eq_Suc)
  obtain s2 and p1 p2 :: Page where s2:
    "splitLeaf a k v s1 = (Inr (Some (Key (cells ! ?m), Value (cells ! ?m), j)), s2)"
    "pager_inv {} s2" "no_fault s2" "view s2 = (view s1)(i \<mapsto> Data p1, j \<mapsto> Data p2)"
    "tight_page p1" "page_cells p1 = take ?m cells" "Type p1 = Type pg"
    "tight_page p2" "page_cells p2 = drop ?m cells" "Type p2 = PageTypeLeaf"
    "p_header s2 = (p_header s1)\<lparr>hPageCount := j + 1\<rparr>" "alloc_ok s2" "room s2 1" "i \<noteq> j"
    by (rule splitLeaf_ok [OF g(2,3) al1 rm1 g(4,5) pg(1) cells_def j1 vf(2) jm(2)])
  have cne: "cells \<noteq> []" by (auto simp: cells_def insertSorted_def insert_at_def)
  let ?sep = "\<lparr>Key = Key (cells ! ?m), Value = Value (cells ! ?m), LeftPtr = i\<rparr>"
  have sep: "cell_small ?sep" "cell_size ?sep + 2 \<le> 4087"
    using halves_sep [OF vf(2) cne] by (simp_all add: cell_small_def cell_size_def)
  have r: "j + 1 = hPageCount (p_header s2)" by (simp add: s2(11))
  have rm2: "room s2 (Suc 0)" using s2(13) by simp
  obtain s3 and q :: Page where s3: "growRoot i (Key (cells ! ?m), Value (cells ! ?m), j) s2 = (Inr (j + 1), s3)"
    "pager_inv {} s3" "no_fault s3" "view s3 = (view s2)(j + 1 \<mapsto> Data q)" "tight_page q" "page_cells q = [?sep]"
    "Type q = PageTypeInternal" "RightmostPointer q = j" "alloc_ok s3" "room s3 0"
    "p_header s3 = (p_header s2)\<lparr>hPageCount := j + 1 + 1, RootPage := j + 1\<rparr>" "cached s2 (j + 1) = None"
    by (rule growRoot_ok [OF s2(2,3,12) rm2 r jm(1) refl sep])
  have ids: "i < j" "j < j + 1" using T(3) p(1) succ_less [OF jm(2)] by (auto simp: alloc_ok_def j_def)
  then have ne: "i \<noteq> j" "j + 1 \<noteq> i" "j + 1 \<noteq> j" by auto
  have "Insert n i k v s = ((Inr (), j + 1), s3)"
    using p(2) pg(3) insertLeaf_full [OF g(5) pg(1) _ small vf(1)] new pg(2) s2(1) s3(1)
    by (simp add: Insert_def n g(1))
  moreover have "tree_in 2 (split_tree i j ?ys) s3"
  proof -
    have sy: "keys_sorted ?ys" using put_items_sorted(1) [of xs k v] ks pg(2) by simp
    have pi: "page_items p1 = take ?m ?ys" "page_items p2 = drop ?m ?ys"
      using s2(6,9) by (simp_all add: page_items_def take_map drop_map flip: it)
    have sorted: "keys_sorted (take ?m ?ys)" "keys_sorted (drop ?m ?ys)"
      using sy keys_sorted_append [of "take ?m ?ys" "drop ?m ?ys"] by simp_all
    have l1: "repr (view s3) (TLeaf i (take ?m ?ys))"
      using ne p(2) s2(5,7) pg(3) sorted(1) pi(1)
      by (intro repr.leaf [of _ _ p1]) (simp_all add: s3(4) s2(4) leaf_inv_def)
    have l2: "repr (view s3) (TLeaf j (drop ?m ?ys))"
      using ne jm(2) s2(8,10) sorted(2) pi(2)
      by (intro repr.leaf [of _ _ p2]) (auto simp add: s3(4) s2(4) leaf_inv_def)
    have mm: "?m < length ?ys" using cne ly by (cases cells) auto
    have "page_items q = [?ys ! ?m]" using mm by (simp add: page_items_def s3(6) flip: it)
    then have "repr (view s3) (TNode (j + 1) [?ys ! ?m] [TLeaf i (take ?m ?ys), TLeaf j (drop ?m ?ys)])"
      using l1 l2 jm(1) s3(5,7,8)
      by (intro repr.node [of _ _ q]) (auto simp: s3(4) leaf_inv_def keys_sorted_Cons kids_def s3(6))
    then show ?thesis using s3(2,3,9) ne unfolding tree_in_def split_tree_def Let_def ly by simp
  qed
  moreover have "view s3 x = Some d" if x: "x \<noteq> i" "view s x = Some d" for x d
  proof -
    have "x < j" using T(3) x(2) by (auto simp: alloc_ok_def j_def)
    then have "x \<noteq> j" "x \<noteq> j + 1" using ids(2) by auto
    then show ?thesis using x keeps_view [OF g(7) x(2)] by (simp add: s3(4) s2(4))
  qed
  moreover have "p_header s3 = (p_header s)\<lparr>hPageCount := j + 2, RootPage := j + 1\<rparr>"
    by (simp add: s3(11) s2(11) hd1 add.assoc)
  ultimately show ?thesis using that by blast
qed

text \<open>What the new tree finds: every key but the separator, which its own search path misses.\<close>

lemma lookup_split_tree:
  assumes "keys_sorted xs" and "xs \<noteq> []"
  shows "lookup (split_tree i j xs) k = (if k = fst (xs ! (length xs div 2)) then None else map_of xs k)"
proof -
  let ?m = "length xs div 2"
  have m: "?m < length xs" using assms(2) by (cases xs) auto
  let ?sep = "fst (xs ! ?m)"
  have s: "keys_sorted (take ?m xs @ drop ?m xs)" using assms(1) by simp
  have lt: "fst x < ?sep" if "x \<in> set (take ?m xs)" for x
    using that assms(1) m by (auto simp: keys_sorted_nth dest!: set_takeE)
  have ge: "\<not> fst x < ?sep" if "x \<in> set (drop ?m xs)" for x
    using that assms(1) m set_dropE [OF that] by (metis keys_sorted_nth less_le_not_le nat_less_le order_less_not_sym)
  have cut: "map_of xs = map_of (take ?m xs) ++ map_of (drop ?m xs)"
    using map_of_keys_sorted_append [OF s] by simp
  have nl: "map_of (take ?m xs) k = None" if "\<not> k < ?sep"
    using that lt by (auto simp: map_of_eq_None_iff)
  have nr: "map_of (drop ?m xs) k = None" if "k < ?sep"
    using that ge by (auto simp: map_of_eq_None_iff)
  show ?thesis
  proof (cases "k = ?sep")
    case True
    then have "pos [xs ! ?m] k = 0" by (simp add: pos_def)
    with True nl show ?thesis by (simp add: split_tree_def Let_def)
  next
    case False
    show ?thesis
    proof (cases "k < ?sep")
      case True
      then have "pos [xs ! ?m] k = 0" by (simp add: pos_def)
      with True False nr show ?thesis by (simp add: split_tree_def Let_def cut map_add_def)
    next
      case ge: False
      with False have "pos [xs ! ?m] k = 1" by (simp add: pos_def)
      with ge False nl show ?thesis by (simp add: split_tree_def Let_def cut map_add_def split: option.split)
    qed
  qed
qed

end
