(* ===== verification/GoLib.thy ===== *)
theory GoLib
  imports Bytes "HOL-Library.Char_ord"
begin

text \<open>
  The parts of Go's language and standard library the program uses beyond bytes: strings as
  byte sequences, IEEE double precision numbers as their 64-bit patterns, decimal integers.
  The conversion between doubles and text and the case mapping outside ASCII are arguments of
  the model, collected in the record \<open>golib\<close>.
\<close>

section \<open>Strings\<close>

definition str_bytes :: "string \<Rightarrow> byte list" where
  "str_bytes s = map of_char s"

definition bytes_str :: "byte list \<Rightarrow> string" where
  "bytes_str bs = map (\<lambda>b. char_of (unat b)) bs"

lemma char_byte: "char_of (unat (of_char c :: byte)) = c"
proof -
  have "(of_char c :: byte) = of_nat (of_char c)" by (simp add: of_nat_of_char)
  moreover have "of_char c < (256 :: nat)" by (rule nat_of_char_less_256)
  ultimately have "unat (of_char c :: byte) = of_char c" by (simp add: unat_of_nat)
  then show ?thesis by simp
qed

lemma bytes_str_bytes [simp]: "bytes_str (str_bytes s) = s"
  by (induction s) (simp_all add: str_bytes_def bytes_str_def char_byte)

lemma length_str_bytes [simp]: "length (str_bytes s) = length s"
  by (simp add: str_bytes_def)

lemma str_bytes_inject [simp]: "str_bytes a = str_bytes b \<longleftrightarrow> a = b"
  by (metis bytes_str_bytes)

text \<open>Go compares strings bytewise.\<close>

definition str_less :: "string \<Rightarrow> string \<Rightarrow> bool" where
  "str_less a b \<longleftrightarrow> str_bytes a < str_bytes b"

section \<open>Case mapping\<close>

record golib =
  FormatFloat :: "64 word \<Rightarrow> string"
  ParseFloat :: "string \<Rightarrow> 64 word option"
  FloatOf :: "string \<Rightarrow> 64 word"
  uniLower :: "string \<Rightarrow> string"
  uniUpper :: "string \<Rightarrow> string"
  uniFold :: "string \<Rightarrow> string \<Rightarrow> bool"

definition is_ascii :: "string \<Rightarrow> bool" where
  "is_ascii s \<longleftrightarrow> (\<forall>c \<in> set s. of_char c < (128 :: nat))"

definition lower_char :: "char \<Rightarrow> char" where
  "lower_char c = (let n = of_char c :: nat in if 65 \<le> n \<and> n \<le> 90 then char_of (n + 32) else c)"

definition upper_char :: "char \<Rightarrow> char" where
  "upper_char c = (let n = of_char c :: nat in if 97 \<le> n \<and> n \<le> 122 then char_of (n - 32) else c)"

definition ToLower :: "golib \<Rightarrow> string \<Rightarrow> string" where
  "ToLower G s = (if is_ascii s then map lower_char s else uniLower G s)"

definition ToUpper :: "golib \<Rightarrow> string \<Rightarrow> string" where
  "ToUpper G s = (if is_ascii s then map upper_char s else uniUpper G s)"

definition EqualFold :: "golib \<Rightarrow> string \<Rightarrow> string \<Rightarrow> bool" where
  "EqualFold G s t = (if is_ascii s \<and> is_ascii t then map lower_char s = map lower_char t else uniFold G s t)"

definition is_space_char :: "char \<Rightarrow> bool" where
  "is_space_char c \<longleftrightarrow> of_char c \<in> {9, 10, 11, 12, 13, 32 :: nat}"

text \<open>\<open>strings.TrimSpace\<close> on ASCII white space.\<close>

definition TrimSpace :: "string \<Rightarrow> string" where
  "TrimSpace s = rev (dropWhile is_space_char (rev (dropWhile is_space_char s)))"

section \<open>Doubles\<close>

definition f_nan :: "64 word \<Rightarrow> bool" where
  "f_nan w \<longleftrightarrow> w AND 0x7FF0000000000000 = 0x7FF0000000000000 \<and> w AND 0x000FFFFFFFFFFFFF \<noteq> 0"

text \<open>Below the sign bit the patterns of non-NaN numbers are ordered like their magnitudes.\<close>

definition f_key :: "64 word \<Rightarrow> int" where
  "f_key w = (let m = uint (w AND 0x7FFFFFFFFFFFFFFF) in if bit w 63 then - m else m)"

definition f_less :: "64 word \<Rightarrow> 64 word \<Rightarrow> bool" where
  "f_less a b \<longleftrightarrow> \<not> f_nan a \<and> \<not> f_nan b \<and> f_key a < f_key b"

definition f_eq :: "64 word \<Rightarrow> 64 word \<Rightarrow> bool" where
  "f_eq a b \<longleftrightarrow> \<not> f_nan a \<and> \<not> f_nan b \<and> f_key a = f_key b"

text \<open>The number of binary digits.\<close>

fun bitlen :: "nat \<Rightarrow> nat" where
  "bitlen n = (if n = 0 then 0 else Suc (bitlen (n div 2)))"

declare bitlen.simps [simp del]

text \<open>\<open>float64(n)\<close>: round to nearest, ties to even.\<close>

definition f_of_nat :: "nat \<Rightarrow> 64 word" where
  "f_of_nat m =
     (if m = 0 then 0
      else let k = bitlen m;
               q = (if k \<le> 53 then m * 2 ^ (53 - k)
                    else let d = 2 ^ (k - 53); q = m div d; r = m mod d
                         in if 2 * r > d \<or> (2 * r = d \<and> odd q) then q + 1 else q)
           in of_nat ((k + 1022) * 2 ^ 52 + (q - 2 ^ 52)))"

definition f_of_int :: "64 word \<Rightarrow> 64 word" where
  "f_of_int w =
     (let i = sint w
      in if i < 0 then f_of_nat (nat (- i)) OR 0x8000000000000000 else f_of_nat (nat i))"

text \<open>\<open>int64(f)\<close>: truncation; out of range and NaN give the least integer, which is what
  the conversion instruction of amd64 returns (Go leaves the value open).\<close>

definition f_to_int :: "64 word \<Rightarrow> 64 word" where
  "f_to_int w =
     (let e = unat (drop_bit 52 w AND 0x7FF); m = unat (w AND 0x000FFFFFFFFFFFFF) + 2 ^ 52
      in if e < 1023 then 0
         else if e \<ge> 1086 then 0x8000000000000000
         else let a = (if e \<le> 1075 then m div 2 ^ (1075 - e) else m * 2 ^ (e - 1075))
              in if bit w 63 then - of_nat a else of_nat a)"

section \<open>Decimal integers\<close>

fun digits :: "nat \<Rightarrow> string" where
  "digits n = (if n < 10 then [char_of (n + 48)] else digits (n div 10) @ [char_of (n mod 10 + 48)])"

declare digits.simps [simp del]

definition FormatInt :: "64 word \<Rightarrow> string" where
  "FormatInt w = (if sint w < 0 then CHR ''-'' # digits (nat (- sint w)) else digits (nat (sint w)))"

definition digit_val :: "char \<Rightarrow> nat option" where
  "digit_val c = (let n = of_char c :: nat in if 48 \<le> n \<and> n \<le> 57 then Some (n - 48) else None)"

fun digits_val :: "nat \<Rightarrow> string \<Rightarrow> nat option" where
  "digits_val acc [] = Some acc"
| "digits_val acc (c # cs) = (case digit_val c of None \<Rightarrow> None | Some d \<Rightarrow> digits_val (acc * 10 + d) cs)"

text \<open>\<open>strconv.ParseInt(s, 10, 64)\<close>: an optional sign and digits, in range.\<close>

definition ParseInt :: "string \<Rightarrow> 64 word option" where
  "ParseInt s =
     (let neg = (s \<noteq> [] \<and> hd s = CHR ''-'');
         ds = (if s \<noteq> [] \<and> (hd s = CHR ''-'' \<or> hd s = CHR ''+'') then tl s else s)
      in if ds = [] then None
         else case digits_val 0 ds of
                None \<Rightarrow> None
              | Some n \<Rightarrow> if neg then (if n \<le> 2 ^ 63 then Some (- of_nat n) else None)
                          else (if n < 2 ^ 63 then Some (of_nat n) else None))"

lemma digits_val_append:
  "digits_val acc (a @ b) = (case digits_val acc a of None \<Rightarrow> None | Some n \<Rightarrow> digits_val n b)"
  by (induction a arbitrary: acc) (auto split: option.split)

lemma digit_val_char: "d < 10 \<Longrightarrow> digit_val (char_of (d + 48 :: nat)) = Some d"
  by (simp add: digit_val_def Let_def of_char_of)

lemma digits_val_digits: "digits_val 0 (digits n) = Some n"
proof (induction n rule: digits.induct)
  case (1 n)
  show ?case
  proof (cases "n < 10")
    case True
    then show ?thesis by (subst digits.simps) (simp add: digit_val_char)
  next
    case False
    with 1 have "digits_val 0 (digits (n div 10)) = Some (n div 10)" by simp
    with False show ?thesis
      by (subst digits.simps) (simp add: digits_val_append digit_val_char)
  qed
qed

lemma digits_head: "\<exists>(d :: nat) r. digits n = char_of (d + 48) # r \<and> d < 10"
proof (induction n rule: digits.induct)
  case (1 n)
  show ?case
  proof (cases "n < 10")
    case True
    then have "digits n = char_of (n + 48) # []" by (subst digits.simps) simp
    with True show ?thesis by blast
  next
    case False
    with 1 obtain d :: nat and r where "digits (n div 10) = char_of (d + 48) # r" "d < 10" by auto
    then have "digits n = char_of (d + 48) # (r @ [char_of (n mod 10 + 48)])"
      using False by (subst digits.simps) simp
    with \<open>d < 10\<close> show ?thesis by blast
  qed
qed

text \<open>Printing and parsing a 64-bit integer.\<close>

lemma ParseInt_FormatInt: "ParseInt (FormatInt w) = Some w"
proof (cases "sint w < 0")
  case True
  have "- sint w \<le> 2 ^ 63" using sint_ge [of w] by simp
  then have "nat (- sint w) \<le> 2 ^ 63" by (simp add: nat_le_iff)
  moreover have "digits (nat (- sint w)) \<noteq> []" using digits_head [of "nat (- sint w)"] by auto
  moreover have "- of_nat (nat (- sint w)) = (w :: 64 word)"
    using True by (simp flip: of_int_minus)
  ultimately show ?thesis using True by (simp add: ParseInt_def FormatInt_def digits_val_digits)
next
  case False
  obtain d :: nat and r where d: "digits (nat (sint w)) = char_of (d + 48) # r" "d < 10"
    using digits_head by blast
  have "sint w < 2 ^ 63" using sint_lt [of w] by simp
  then have r: "nat (sint w) < 2 ^ 63" using False by (simp add: nat_less_iff)
  have "char_of (d + 48 :: nat) \<noteq> CHR ''-''" "char_of (d + 48 :: nat) \<noteq> CHR ''+''"
    using d(2) by (auto dest: arg_cong [where f = "of_char :: char \<Rightarrow> nat"] simp: of_char_of)
  then show ?thesis
    using False r d digits_val_digits [of "nat (sint w)"] by (simp add: ParseInt_def FormatInt_def Let_def)
qed

end
