(* ===== verification/Row.thy ===== *)
theory Row
  imports GoLib
begin

text \<open>
  Values and rows (\<open>internal/storage/row.go\<close>): the tagged value record, its text form,
  comparison, truth and coercion, and the byte format rows are stored in.
\<close>

section \<open>Values\<close>

type_synonym ValueType = byte

definition ValNull :: ValueType where "ValNull = 0"
definition ValInteger :: ValueType where "ValInteger = 1"
definition ValReal :: ValueType where "ValReal = 2"
definition ValText :: ValueType where "ValText = 3"
definition ValBlob :: ValueType where "ValBlob = 4"

lemmas val_types = ValNull_def ValInteger_def ValReal_def ValText_def ValBlob_def

record Value =
  vType :: ValueType
  Integer :: "64 word"
  Real :: "64 word"
  Text :: string
  Blob :: "byte list"

definition NullValue :: Value where
  "NullValue = \<lparr>vType = ValNull, Integer = 0, Real = 0, Text = [], Blob = []\<rparr>"

definition IntValue :: "64 word \<Rightarrow> Value" where "IntValue v = NullValue\<lparr>vType := ValInteger, Integer := v\<rparr>"
definition RealValue :: "64 word \<Rightarrow> Value" where "RealValue v = NullValue\<lparr>vType := ValReal, Real := v\<rparr>"
definition TextValue :: "string \<Rightarrow> Value" where "TextValue v = NullValue\<lparr>vType := ValText, Text := v\<rparr>"
definition BlobValue :: "byte list \<Rightarrow> Value" where "BlobValue v = NullValue\<lparr>vType := ValBlob, Blob := v\<rparr>"

lemmas value_defs = NullValue_def IntValue_def RealValue_def TextValue_def BlobValue_def

text \<open>\<open>String()\<close>\<close>

definition value_String :: "golib \<Rightarrow> Value \<Rightarrow> string" where
  "value_String G v =
     (if vType v = ValNull then ''NULL''
      else if vType v = ValInteger then FormatInt (Integer v)
      else if vType v = ValReal then FormatFloat G (Real v)
      else if vType v = ValText then Text v
      else if vType v = ValBlob then ''<blob:'' @ digits (length (Blob v)) @ ''>''
      else '''')"

text \<open>The error of the parse is ignored: \<open>FloatOf\<close> is the first result of \<open>strconv.ParseFloat\<close>, which is
  zero for what is no number and infinite out of range.\<close>

definition ToFloat :: "golib \<Rightarrow> Value \<Rightarrow> 64 word" where
  "ToFloat G v =
     (if vType v = ValInteger then f_of_int (Integer v)
      else if vType v = ValReal then Real v
      else FloatOf G (value_String G v))"

definition is_num :: "Value \<Rightarrow> bool" where
  "is_num v \<longleftrightarrow> vType v = ValInteger \<or> vType v = ValReal"

definition value_Compare :: "golib \<Rightarrow> Value \<Rightarrow> Value \<Rightarrow> int" where
  "value_Compare G v other =
     (if vType v = ValNull \<and> vType other = ValNull then 0
      else if vType v = ValNull then -1
      else if vType other = ValNull then 1
      else if vType v = ValInteger \<and> vType other = ValInteger then
        (if Integer v <s Integer other then -1 else if Integer other <s Integer v then 1 else 0)
      else if is_num v \<and> is_num other then
        let lf = ToFloat G v; rf = ToFloat G other
        in if f_less lf rf then -1 else if f_less rf lf then 1 else 0
      else
        let ls = value_String G v; rs = value_String G other
        in if str_less ls rs then -1 else if str_less rs ls then 1 else 0)"

definition IsTrue :: "Value \<Rightarrow> bool" where
  "IsTrue v =
     (if vType v = ValNull then False
      else if vType v = ValInteger then Integer v \<noteq> 0
      else if vType v = ValReal then \<not> f_eq (Real v) 0
      else if vType v = ValText then Text v \<noteq> []
      else if vType v = ValBlob then length (Blob v) > 0
      else False)"

section \<open>Coercion\<close>

datatype ColumnType = TypeInteger | TypeText | TypeReal | TypeBlob | TypeNull | TypeOther string

definition CoerceValue :: "golib \<Rightarrow> Value \<Rightarrow> ColumnType \<Rightarrow> Value res" where
  "CoerceValue G v colType =
     (case colType of
        TypeInteger \<Rightarrow>
          (if vType v = ValNull \<or> vType v = ValInteger then Inr v
           else if vType v = ValReal then Inr (IntValue (f_to_int (Real v)))
           else if vType v = ValText then
             (case ParseInt (Text v) of
                Some i \<Rightarrow> Inr (IntValue i)
              | None \<Rightarrow> (case ParseFloat G (Text v) of
                           None \<Rightarrow> Inl (ErrConvert (Text v))
                         | Some f \<Rightarrow> Inr (IntValue (f_to_int f))))
           else Inr v)
      | TypeReal \<Rightarrow>
          (if vType v = ValNull \<or> vType v = ValReal then Inr v
           else if vType v = ValInteger then Inr (RealValue (f_of_int (Integer v)))
           else if vType v = ValText then
             (case ParseFloat G (Text v) of
                None \<Rightarrow> Inl (ErrConvert (Text v))
              | Some f \<Rightarrow> Inr (RealValue f))
           else Inr v)
      | TypeText \<Rightarrow> (if vType v = ValNull then Inr v else Inr (TextValue (value_String G v)))
      | _ \<Rightarrow> Inr v)"

section \<open>The row format\<close>

type_synonym Row = "Value list"

definition encodeValue :: "Value \<Rightarrow> byte list" where
  "encodeValue v =
     (if vType v = ValNull then [ValNull]
      else if vType v = ValInteger then ValInteger # cEncodeUint64BE (Integer v)
      else if vType v = ValReal then ValReal # cEncodeUint64BE (Real v)
      else if vType v = ValText then ValText # str_bytes (Text v)
      else if vType v = ValBlob then ValBlob # Blob v
      else [ValNull])"

definition decodeValue :: "ValueType \<Rightarrow> byte list \<Rightarrow> Value res" where
  "decodeValue vtype data =
     (if vtype = ValNull then Inr NullValue
      else if vtype = ValInteger then
        (if length data < 8 then Inl ErrIntShort else Inr (IntValue (cDecodeUint64BE data)))
      else if vtype = ValReal then
        (if length data < 8 then Inl ErrRealShort else Inr (RealValue (cDecodeUint64BE data)))
      else if vtype = ValText then Inr (TextValue (bytes_str data))
      else if vtype = ValBlob then Inr (BlobValue data)
      else Inl (ErrValueType vtype))"

definition encodePart :: "byte list \<Rightarrow> byte list" where
  "encodePart p = hd p # be32 (of_nat (length p - 1)) @ tl p"

definition EncodeRow :: "Row \<Rightarrow> byte list" where
  "EncodeRow r = be16 (of_nat (length r)) @ concat (map (\<lambda>v. encodePart (encodeValue v)) r)"

text \<open>The loop of \<open>DecodeRow\<close> from column \<open>i\<close> on; \<open>n\<close> columns are left.\<close>

fun decodeColumns :: "byte list \<Rightarrow> nat \<Rightarrow> nat \<Rightarrow> nat \<Rightarrow> Row res" where
  "decodeColumns data offset i 0 = Inr []"
| "decodeColumns data offset i (Suc n) =
     (if offset + 5 > length data then Inl (ErrRowTruncated i)
      else let vtype = data ! offset; vlen = unat (rd32 data (offset + 1)); offset = offset + 5
           in if offset + vlen > length data then Inl ErrValueTruncated
              else bindE (decodeValue vtype (slice data offset vlen)) (\<lambda>v.
                   bindE (decodeColumns data (offset + vlen) (Suc i) n) (\<lambda>vs. Inr (v # vs))))"

definition DecodeRow :: "byte list \<Rightarrow> Row res" where
  "DecodeRow data =
     (if length data < 2 then Inl ErrRowShort
      else decodeColumns data 2 0 (unat (rd16 data 0)))"

section \<open>Values and rows survive storage\<close>

text \<open>The values the constructors make.\<close>

definition value_ok :: "Value \<Rightarrow> bool" where
  "value_ok v \<longleftrightarrow> v = NullValue \<or> v = IntValue (Integer v) \<or> v = RealValue (Real v) \<or>
     v = TextValue (Text v) \<or> v = BlobValue (Blob v)"

definition payload :: "Value \<Rightarrow> nat" where
  "payload v = length (encodeValue v) - 1"

lemma encodeValue_cases:
  "encodeValue NullValue = [0]" "encodeValue (IntValue i) = 1 # be64 i" "encodeValue (RealValue f) = 2 # be64 f"
  "encodeValue (TextValue s) = 3 # str_bytes s" "encodeValue (BlobValue b) = 4 # b"
  by (simp_all add: encodeValue_def value_defs val_types cEncodeUint64BE_def)

lemma decode_encode_value:
  assumes "value_ok v"
  shows "\<exists>t bs. encodeValue v = t # bs \<and> decodeValue t bs = Inr v"
proof -
  have rd: "rd64 (be64 i) 0 = i" for i using be_prefix(3) [of i "[]"] by simp
  from assms consider "v = NullValue" | i where "v = IntValue i" | f where "v = RealValue f"
    | s where "v = TextValue s" | b where "v = BlobValue b"
    by (auto simp: value_ok_def)
  then show ?thesis
    by cases (simp_all add: encodeValue_cases decodeValue_def val_types cDecodeUint64BE_def rd)
qed

text \<open>Reading one column that sits at an offset of the data.\<close>

lemma decodeColumns_step:
  assumes "value_ok v" and "payload v < 2 ^ 32" and "drop offset data = encodePart (encodeValue v) @ r"
  shows "decodeColumns data offset i (Suc n) =
    bindE (decodeColumns data (offset + 5 + payload v) (Suc i) n) (\<lambda>vs. Inr (v # vs))"
    and "drop (offset + 5 + payload v) data = r"
proof -
  obtain t bs where e: "encodeValue v = t # bs" "decodeValue t bs = Inr v"
    using decode_encode_value [OF assms(1)] by blast
  have p: "payload v = length bs" by (simp add: payload_def e)
  have d: "drop offset data = t # be32 (of_nat (length bs)) @ bs @ r"
    using assms(3) by (simp add: encodePart_def e)
  have ne: "offset \<le> length data" using arg_cong [OF d, of length] by simp
  then have data: "data = take offset data @ t # be32 (of_nat (length bs)) @ bs @ r"
    by (metis append_take_drop_id d)
  define pre where "pre = take offset data"
  have pl: "length pre = offset" and dt: "data = pre @ t # be32 (of_nat (length bs)) @ bs @ r"
    using ne data by (simp_all add: pre_def)
  have len: "length data = offset + 5 + length bs + length r" using pl by (simp add: dt)
  have tt: "data ! offset = t" using pl by (simp add: dt nth_append)
  have "rd32 data (offset + 1) = rd32 (be32 (of_nat (length bs)) @ bs @ r) 0"
    using pl by (simp add: rd32_def dt nth_append be32_def)
  then have vl: "unat (rd32 data (offset + 1)) = length bs"
    using assms(2) p by (simp add: be_prefix unat_of_nat)
  have sl: "slice data (offset + 5) (length bs) = bs"
    using pl by (simp add: slice_def dt)
  show "decodeColumns data offset i (Suc n) =
    bindE (decodeColumns data (offset + 5 + payload v) (Suc i) n) (\<lambda>vs. Inr (v # vs))"
    using len tt vl sl e(2) p by (simp add: Let_def)
  have "drop (offset + 5 + payload v) data = drop (length bs) (drop 5 (drop offset data))"
    by (simp add: p add.commute add.left_commute)
  also have "\<dots> = r" by (simp add: d be32_def)
  finally show "drop (offset + 5 + payload v) data = r" .
qed

lemma decodeColumns_encode:
  assumes "\<And>v. v \<in> set vs \<Longrightarrow> value_ok v \<and> payload v < 2 ^ 32"
    and "drop offset data = concat (map (\<lambda>v. encodePart (encodeValue v)) vs) @ r"
  shows "decodeColumns data offset i (length vs) = Inr vs"
  using assms
proof (induction vs arbitrary: offset i)
  case (Cons v vs)
  have v: "value_ok v" "payload v < 2 ^ 32" using Cons.prems(1) [of v] by simp_all
  have d: "drop offset data = encodePart (encodeValue v) @ concat (map (\<lambda>v. encodePart (encodeValue v)) vs) @ r"
    using Cons.prems(2) by simp
  note S = decodeColumns_step [OF v d]
  have "decodeColumns data (offset + 5 + payload v) (Suc i) (length vs) = Inr vs"
    using Cons.prems(1) S(2) by (intro Cons.IH) auto
  then show ?case using S(1) [of i "length vs"] by simp
qed simp

definition row_ok :: "Row \<Rightarrow> bool" where
  "row_ok r \<longleftrightarrow> length r < 2 ^ 16 \<and> (\<forall>v \<in> set r. value_ok v \<and> payload v < 2 ^ 32)"

lemma decode_encode_row:
  assumes "row_ok r"
  shows "DecodeRow (EncodeRow r @ rest) = Inr r"
proof -
  have n: "unat (rd16 (EncodeRow r @ rest) 0) = length r"
    using assms by (simp add: EncodeRow_def be_prefix row_ok_def unat_of_nat)
  have "decodeColumns (EncodeRow r @ rest) 2 0 (length r) = Inr r"
    by (rule decodeColumns_encode [where r = rest]) (use assms in \<open>auto simp: row_ok_def EncodeRow_def\<close>)
  then show ?thesis by (simp add: DecodeRow_def n) (simp add: EncodeRow_def)
qed

interpretation row: codec EncodeRow DecodeRow row_ok
  by unfold_locales (rule decode_encode_row)

section \<open>Comparison\<close>

lemma f_less_asym: "f_less a b \<Longrightarrow> \<not> f_less b a"
  by (auto simp: f_less_def)

lemma str_less_asym: "str_less a b \<Longrightarrow> \<not> str_less b a"
  by (auto simp: str_less_def)

lemma word_sless_asym: "(a :: 'a::len word) <s b \<Longrightarrow> \<not> b <s a"
  by (simp add: word_sless_alt)

lemma compare_swap: "value_Compare G b a = - value_Compare G a b"
  using f_less_asym [of "ToFloat G a" "ToFloat G b"] str_less_asym [of "value_String G a" "value_String G b"]
    word_sless_asym [of "Integer a" "Integer b"]
  by (auto simp: value_Compare_def Let_def)

lemma compare_refl: "value_Compare G a a = 0"
  using compare_swap [of G a a] by simp

lemma compare_range: "value_Compare G a b \<in> {-1, 0, 1}"
  by (simp add: value_Compare_def Let_def)

lemma compare_ints: "value_Compare G (IntValue a) (IntValue b) = (if sint a < sint b then -1 else if sint b < sint a then 1 else 0)"
  by (simp add: value_Compare_def value_defs val_types word_sless_alt)

lemma compare_null: "vType a = ValNull \<Longrightarrow> vType b \<noteq> ValNull \<Longrightarrow> value_Compare G a b = -1"
  by (simp add: value_Compare_def)

text \<open>Values of one type, NaN apart: NULL, integers, reals, text and blobs, which are compared by their
  length written out.\<close>

definition same_kind :: "Value \<Rightarrow> Value \<Rightarrow> bool" where
  "same_kind a b \<longleftrightarrow> vType a = vType b \<and> (vType a = ValReal \<longrightarrow> \<not> f_nan (Real a) \<and> \<not> f_nan (Real b))"

lemma compare_reals:
  "vType a = ValReal \<Longrightarrow> vType b = ValReal \<Longrightarrow>
    value_Compare G a b = (if f_less (Real a) (Real b) then -1 else if f_less (Real b) (Real a) then 1 else 0)"
  by (simp add: value_Compare_def is_num_def val_types ToFloat_def)

lemma compare_strings:
  "vType a = vType b \<Longrightarrow> vType a \<notin> {ValNull, ValInteger, ValReal} \<Longrightarrow>
    value_Compare G a b \<le> 0 \<longleftrightarrow> \<not> str_less (value_String G b) (value_String G a)"
  using str_less_asym [of "value_String G a" "value_String G b"] by (simp add: value_Compare_def is_num_def Let_def)

lemma compare_trans:
  assumes "same_kind a b" and "same_kind b c" and "value_Compare G a b \<le> 0" and "value_Compare G b c \<le> 0"
  shows "value_Compare G a c \<le> 0"
proof -
  consider "vType a = ValNull" | "vType a = ValInteger" | "vType a = ValReal" | "vType a \<notin> {ValNull, ValInteger, ValReal}"
    by blast
  then show ?thesis
  proof cases
    case 1
    with assms(1,2) show ?thesis by (simp add: same_kind_def value_Compare_def)
  next
    case 2
    with assms show ?thesis
      by (simp add: same_kind_def value_Compare_def val_types word_sless_alt split: if_splits)
  next
    case 3
    then have "vType b = ValReal" "vType c = ValReal" "\<not> f_nan (Real a)" "\<not> f_nan (Real b)" "\<not> f_nan (Real c)"
      using assms(1,2) by (simp_all add: same_kind_def)
    with 3 assms(3,4) show ?thesis by (simp add: compare_reals f_less_def split: if_splits)
  next
    case 4
    then have t: "vType a = vType b" "vType b = vType c" "vType b \<notin> {ValNull, ValInteger, ValReal}"
      using assms(1,2) by (simp_all add: same_kind_def)
    have "vType a = vType c" using t by simp
    note S = compare_strings [OF t(1) 4, of G] compare_strings [OF t(2,3), of G] compare_strings [OF this 4, of G]
    show ?thesis using assms(3,4) unfolding S by (auto simp: str_less_def)
  qed
qed

section \<open>What a column lets in\<close>

text \<open>The values that \<open>CoerceValue\<close> can give for a column. That is wider than the type of the column: a
  blob goes into an \<open>INTEGER\<close> and a \<open>REAL\<close> column as it is, and a column that is not \<open>INTEGER\<close>, \<open>REAL\<close>
  or \<open>TEXT\<close> takes everything.\<close>

definition let_in :: "ColumnType \<Rightarrow> Value \<Rightarrow> bool" where
  "let_in c v \<longleftrightarrow> (case c of
     TypeInteger \<Rightarrow> vType v \<in> {ValNull, ValInteger, ValBlob}
   | TypeReal \<Rightarrow> vType v \<in> {ValNull, ValReal, ValBlob}
   | TypeText \<Rightarrow> vType v \<in> {ValNull, ValText}
   | _ \<Rightarrow> True)"

text \<open>How the value \<open>w\<close> that a column gets comes from the value \<open>v\<close> that was given.\<close>

definition coerced :: "ColumnType \<Rightarrow> Value \<Rightarrow> Value \<Rightarrow> bool" where
  "coerced c v w \<longleftrightarrow> (vType w = ValNull \<longleftrightarrow> vType v = ValNull) \<and> (case c of
     TypeInteger \<Rightarrow> vType w \<in> {ValNull, ValInteger} \<or> vType v = ValBlob \<and> w = v
   | TypeReal \<Rightarrow> vType w \<in> {ValNull, ValReal} \<or> vType v = ValBlob \<and> w = v
   | TypeText \<Rightarrow> vType w \<in> {ValNull, ValText}
   | _ \<Rightarrow> w = v)"

lemma vType_simps [simp]:
  "vType NullValue = 0" "vType (IntValue i) = 1" "vType (RealValue f) = 2" "vType (TextValue s) = 3" "vType (BlobValue b) = 4"
  "Integer (IntValue i) = i" "Real (RealValue f) = f" "Text (TextValue s) = s" "Blob (BlobValue b) = b"
  by (simp_all add: value_defs val_types)

lemma value_ok_cases:
  assumes "value_ok v"
  obtains "v = NullValue" | i where "v = IntValue i" | f where "v = RealValue f" | s where "v = TextValue s"
    | b where "v = BlobValue b"
  using assms unfolding value_ok_def by blast

lemma value_ok_simps [simp]:
  "value_ok NullValue" "value_ok (IntValue i)" "value_ok (RealValue f)" "value_ok (TextValue s)" "value_ok (BlobValue b)"
  by (simp_all add: value_ok_def)

lemma CoerceValue_simps:
  "CoerceValue G NullValue c = Inr NullValue"
  "CoerceValue G (IntValue i) c = Inr (case c of TypeReal \<Rightarrow> RealValue (f_of_int i) | TypeText \<Rightarrow> TextValue (FormatInt i) | _ \<Rightarrow> IntValue i)"
  "CoerceValue G (RealValue f) c = Inr (case c of TypeInteger \<Rightarrow> IntValue (f_to_int f) | TypeText \<Rightarrow> TextValue (FormatFloat G f) | _ \<Rightarrow> RealValue f)"
  "CoerceValue G (TextValue s) TypeText = Inr (TextValue s)"
  "CoerceValue G (TextValue s) TypeInteger = (case ParseInt s of Some i \<Rightarrow> Inr (IntValue i) | None \<Rightarrow>
     (case ParseFloat G s of None \<Rightarrow> Inl (ErrConvert s) | Some f \<Rightarrow> Inr (IntValue (f_to_int f))))"
  "CoerceValue G (TextValue s) TypeReal = (case ParseFloat G s of None \<Rightarrow> Inl (ErrConvert s) | Some f \<Rightarrow> Inr (RealValue f))"
  "c \<notin> {TypeInteger, TypeReal, TypeText} \<Longrightarrow> CoerceValue G (TextValue s) c = Inr (TextValue s)"
  "CoerceValue G (BlobValue b) c = Inr (case c of TypeText \<Rightarrow> TextValue (''<blob:'' @ digits (length b) @ ''>'') | _ \<Rightarrow> BlobValue b)"
  subgoal by (cases c) (simp_all add: CoerceValue_def val_types)
  subgoal by (cases c) (simp_all add: CoerceValue_def val_types value_String_def)
  subgoal by (cases c) (simp_all add: CoerceValue_def val_types value_String_def)
  subgoal by (simp add: CoerceValue_def val_types value_String_def)
  subgoal by (simp add: CoerceValue_def val_types split: option.split)
  subgoal by (simp add: CoerceValue_def val_types split: option.split)
  subgoal by (cases c) (simp_all add: CoerceValue_def val_types)
  subgoal by (cases c) (simp_all add: CoerceValue_def val_types value_String_def)
  done

lemma coerce_typed:
  assumes "value_ok v" and "CoerceValue G v c = Inr w"
  shows "coerced c v w \<and> value_ok w"
  using assms(1)
proof (cases rule: value_ok_cases)
  case (4 s)
  then show ?thesis using assms(2)
    by (cases c) (auto simp: CoerceValue_simps coerced_def val_types split: option.splits)
qed (use assms(2) in \<open>cases c; auto simp: CoerceValue_simps coerced_def val_types\<close>)+

lemma coerced_let_in: "coerced c v w \<Longrightarrow> let_in c w"
  by (cases c) (auto simp: coerced_def let_in_def)

lemma let_in_fixed: "value_ok v \<Longrightarrow> CoerceValue G v c = Inr v \<longleftrightarrow> let_in c v"
  using coerce_typed [of v G c v] coerced_let_in [of c v v]
  by (elim value_ok_cases; cases c; auto simp: CoerceValue_simps let_in_def val_types)

end
