(* ===== verification/Schema.thy ===== *)
theory Schema
  imports Split Row "HOL-Library.AList"
begin

text \<open>
  The catalogue (\<open>internal/storage/schema.go\<close>): table, index and view definitions, kept
  in maps in memory and as JSON values in the schema B+ tree. The maps are association lists
  with one entry per key; an operation changes a definition where Go changes it through the
  pointer the map holds. JSON and the fuel of the tree operations are fields of \<open>env\<close>.
\<close>

section \<open>Definitions of tables, indexes and views\<close>

definition NormalizeType :: "golib \<Rightarrow> string \<Rightarrow> ColumnType" where
  "NormalizeType G s =
     (let t = ToUpper G (TrimSpace s)
      in if t \<in> {''INT'', ''INTEGER'', ''TINYINT'', ''SMALLINT'', ''MEDIUMINT'', ''BIGINT'', ''UNSIGNED BIG INT'', ''INT2'', ''INT8''}
         then TypeInteger
         else if t \<in> {''REAL'', ''DOUBLE'', ''DOUBLE PRECISION'', ''FLOAT'', ''NUMERIC'', ''DECIMAL''} then TypeReal
         else if t \<in> {''TEXT'', ''VARCHAR'', ''CHAR'', ''CHARACTER'', ''CLOB'', ''NCHAR'', ''NVARCHAR'', ''VARYING CHARACTER'', ''NATIVE CHARACTER''}
         then TypeText
         else if t = ''BLOB'' then TypeBlob
         else if t \<in> {''BOOLEAN'', ''BOOL''} then TypeInteger
         else if t \<in> {''DATE'', ''DATETIME'', ''TIMESTAMP''} then TypeText
         else TypeText)"

record Column =
  cName :: string
  cType :: ColumnType
  NotNull :: bool
  PrimaryKey :: bool
  Default :: string
  cUnique :: bool
  AutoInc :: bool

record TableSchema =
  tName :: string
  Columns :: "Column list"
  tRootPage :: "32 word"
  Indexes :: "string list"
  NextAutoInc :: "64 word"

record IndexSchema =
  iName :: string
  TableName :: string
  iColumn :: string
  iUnique :: bool
  iRootPage :: "32 word"

record ViewSchema =
  vName :: string
  SQL :: string

text \<open>The loop of \<open>ColumnIndex\<close>: the first column of that name, or none.\<close>

definition ColumnIndex :: "golib \<Rightarrow> string \<Rightarrow> TableSchema \<Rightarrow> nat option" where
  "ColumnIndex G name t = find (\<lambda>i. EqualFold G (cName (Columns t ! i)) name) [0..<length (Columns t)]"

definition PrimaryKeyColumn :: "TableSchema \<Rightarrow> nat option" where
  "PrimaryKeyColumn t = find (\<lambda>i. PrimaryKey (Columns t ! i)) [0..<length (Columns t)]"

section \<open>The schema manager\<close>

record env =
  lib :: golib
  marshalTable :: "TableSchema \<Rightarrow> byte list"
  unmarshalTable :: "byte list \<Rightarrow> TableSchema option"
  marshalIndex :: "IndexSchema \<Rightarrow> byte list"
  unmarshalIndex :: "byte list \<Rightarrow> IndexSchema option"
  marshalView :: "ViewSchema \<Rightarrow> byte list"
  unmarshalView :: "byte list \<Rightarrow> ViewSchema option"
  treeFuel :: nat

type_synonym 'v smap = "(string \<times> 'v) list"

record SchemaManager =
  sm_pager :: Pager
  sm_root :: "32 word"
  tables :: "TableSchema smap"
  indexes :: "IndexSchema smap"
  views :: "ViewSchema smap"

type_synonym 'a sm = "SchemaManager \<Rightarrow> 'a res \<times> SchemaManager"

definition returnS :: "'a \<Rightarrow> 'a sm" where "returnS x = (\<lambda>s. (Inr x, s))"
definition failS :: "err \<Rightarrow> 'a sm" where "failS e = (\<lambda>s. (Inl e, s))"
definition modifyS :: "(SchemaManager \<Rightarrow> SchemaManager) \<Rightarrow> unit sm" where "modifyS f = (\<lambda>s. (Inr (), f s))"

definition bindS :: "'a sm \<Rightarrow> ('a \<Rightarrow> 'b sm) \<Rightarrow> 'b sm" where
  "bindS m f = (\<lambda>s. case m s of (Inl e, s') \<Rightarrow> (Inl e, s') | (Inr x, s') \<Rightarrow> f x s')"

definition onPager :: "'a pm \<Rightarrow> 'a sm" where
  "onPager m = (\<lambda>s. case m (sm_pager s) of (r, p) \<Rightarrow> (r, s\<lparr>sm_pager := p\<rparr>))"

lemma sm_simps [simp]:
  "returnS x s = (Inr x, s)" "failS e s = (Inl e, s)" "modifyS f s = (Inr (), f s)"
  by (simp_all add: returnS_def failS_def modifyS_def)

lemma bindS_Inr [simp]: "m s = (Inr x, s') \<Longrightarrow> bindS m f s = f x s'"
  by (simp add: bindS_def)

lemma bindS_Inl [simp]: "m s = (Inl e, s') \<Longrightarrow> bindS m f s = (Inl e, s')"
  by (simp add: bindS_def)

lemma bindS_eq_Inr: "bindS m f s = (Inr y, t) \<longleftrightarrow> (\<exists>x s'. m s = (Inr x, s') \<and> f x s' = (Inr y, t))"
  by (cases "m s"; cases "fst (m s)") (auto simp: bindS_def)

lemma onPager_eq: "m (sm_pager s) = (r, p) \<Longrightarrow> onPager m s = (r, s\<lparr>sm_pager := p\<rparr>)"
  by (simp add: onPager_def)

text \<open>\<open>sm.btree.Insert\<close> and \<open>sm.btree.Delete\<close>\<close>

definition schemaInsert :: "env \<Rightarrow> byte list \<Rightarrow> byte list \<Rightarrow> unit sm" where
  "schemaInsert E key data = (\<lambda>s.
     case Insert (treeFuel E) (sm_root s) key data (sm_pager s) of
       ((r, root), p) \<Rightarrow> (r, s\<lparr>sm_root := root, sm_pager := p\<rparr>))"

definition schemaDelete :: "env \<Rightarrow> byte list \<Rightarrow> bool sm" where
  "schemaDelete E key = (\<lambda>s. onPager (Delete (treeFuel E) (sm_root s) key) s)"

definition tableKey :: "string \<Rightarrow> byte list" where "tableKey n = str_bytes (''t:'' @ n)"
definition indexKeyOf :: "string \<Rightarrow> byte list" where "indexKeyOf n = str_bytes (''i:'' @ n)"
definition viewKey :: "string \<Rightarrow> byte list" where "viewKey n = str_bytes (''v:'' @ n)"

text \<open>One cell of the schema tree on loading.\<close>

definition loadCell :: "env \<Rightarrow> Cell \<Rightarrow> unit sm" where
  "loadCell E cell =
     (let k = bytes_str (Key cell); G = lib E
      in if take 2 k = ''t:'' then
           (case unmarshalTable E (Value cell) of
              None \<Rightarrow> failS ErrJson
            | Some ts \<Rightarrow> modifyS (\<lambda>s. s\<lparr>tables := AList.update (ToLower G (tName ts)) ts (tables s)\<rparr>))
         else if take 2 k = ''i:'' then
           (case unmarshalIndex E (Value cell) of
              None \<Rightarrow> failS ErrJson
            | Some is \<Rightarrow> modifyS (\<lambda>s. s\<lparr>indexes := AList.update (ToLower G (iName is)) is (indexes s)\<rparr>))
         else if take 2 k = ''v:'' then
           (case unmarshalView E (Value cell) of
              None \<Rightarrow> failS ErrJson
            | Some vs \<Rightarrow> modifyS (\<lambda>s. s\<lparr>views := AList.update (ToLower G (vName vs)) vs (views s)\<rparr>))
         else returnS ())"

primrec loadFrom :: "env \<Rightarrow> nat \<Rightarrow> Cursor \<Rightarrow> unit sm" where
  "loadFrom E 0 c = failS OutOfFuel"
| "loadFrom E (Suc n) c =
     (if atEnd c then returnS ()
      else bindS (onPager (Current c)) (\<lambda>cell.
           bindS (case cell of None \<Rightarrow> returnS () | Some x \<Rightarrow> loadCell E x) (\<lambda>_.
           bindS (onPager (Advance (treeFuel E) c)) (\<lambda>c'. loadFrom E n c'))))"

definition loadAll :: "env \<Rightarrow> nat \<Rightarrow> unit sm" where
  "loadAll E n = (\<lambda>s. bindS (onPager (NewCursor (treeFuel E) (sm_root s))) (loadFrom E n) s)"

definition NewSchemaManager :: "env \<Rightarrow> nat \<Rightarrow> Pager \<Rightarrow> unit res \<times> SchemaManager" where
  "NewSchemaManager E n p =
     loadAll E n \<lparr>sm_pager = p, sm_root = SchemaPage (p_header p), tables = [], indexes = [], views = []\<rparr>"

text \<open>Allocating the empty root leaf of a table or an index.\<close>

definition allocLeaf :: "32 word pm" where
  "allocLeaf =
     bindP AllocatePage (\<lambda>a. bindP (readObj a) (\<lambda>pg.
       let pg = SetRightmostPointer InvalidPage (SetCellContentOffset (of_nat PageSize)
                  (SetCellCount 0 (SetType PageTypeLeaf pg)))
       in bindP (writeObj a (pg\<lparr>Dirty := True\<rparr>)) (\<lambda>_. returnP (ID pg))))"

definition updateTableSchema :: "env \<Rightarrow> TableSchema \<Rightarrow> unit sm" where
  "updateTableSchema E ts =
     (let lname = ToLower (lib E) (tName ts)
      in bindS (modifyS (\<lambda>s. s\<lparr>tables := AList.update lname ts (tables s)\<rparr>)) (\<lambda>_.
         schemaInsert E (tableKey lname) (marshalTable E ts)))"

definition UpdateTableSchema :: "env \<Rightarrow> TableSchema \<Rightarrow> unit sm" where
  "UpdateTableSchema E ts = updateTableSchema E ts"

definition CreateTable :: "env \<Rightarrow> TableSchema \<Rightarrow> unit sm" where
  "CreateTable E ts = (\<lambda>s.
     let lname = ToLower (lib E) (tName ts)
     in if map_of (tables s) lname \<noteq> None then (Inl (ErrExists (tName ts)), s)
        else bindS (onPager allocLeaf) (\<lambda>root.
             let ts = ts\<lparr>tRootPage := root\<rparr>;
                 ts = (if NextAutoInc ts = 0 then ts\<lparr>NextAutoInc := 1\<rparr> else ts)
             in bindS (schemaInsert E (tableKey lname) (marshalTable E ts)) (\<lambda>_.
                modifyS (\<lambda>s. s\<lparr>tables := AList.update lname ts (tables s)\<rparr>))) s)"

definition DropTable :: "env \<Rightarrow> string \<Rightarrow> unit sm" where
  "DropTable E name = (\<lambda>s.
     let lname = ToLower (lib E) name
     in if map_of (tables s) lname = None then (Inl (ErrMissing name), s)
        else bindS (schemaDelete E (tableKey lname)) (\<lambda>_.
             modifyS (\<lambda>s. s\<lparr>tables := AList.delete lname (tables s)\<rparr>)) s)"

definition GetTable :: "env \<Rightarrow> string \<Rightarrow> SchemaManager \<Rightarrow> TableSchema option" where
  "GetTable E name s = map_of (tables s) (ToLower (lib E) name)"

definition GetIndex :: "env \<Rightarrow> string \<Rightarrow> SchemaManager \<Rightarrow> IndexSchema option" where
  "GetIndex E name s = map_of (indexes s) (ToLower (lib E) name)"

definition GetView :: "env \<Rightarrow> string \<Rightarrow> SchemaManager \<Rightarrow> ViewSchema option" where
  "GetView E name s = map_of (views s) (ToLower (lib E) name)"

text \<open>The listings range over a Go map: the order of the result is one of the possible ones.\<close>

definition ListTables :: "SchemaManager \<Rightarrow> TableSchema list" where
  "ListTables s = map snd (tables s)"

definition ListIndexes :: "env \<Rightarrow> string \<Rightarrow> SchemaManager \<Rightarrow> IndexSchema list" where
  "ListIndexes E tableName s = filter (\<lambda>is. EqualFold (lib E) (TableName is) tableName) (map snd (indexes s))"

definition ListViews :: "SchemaManager \<Rightarrow> ViewSchema list" where
  "ListViews s = map snd (views s)"

definition CreateIndex :: "env \<Rightarrow> IndexSchema \<Rightarrow> unit sm" where
  "CreateIndex E is = (\<lambda>s.
     let G = lib E; lname = ToLower G (iName is); tn = ToLower G (TableName is)
     in if map_of (indexes s) lname \<noteq> None then (Inl (ErrExists (iName is)), s)
        else case map_of (tables s) tn of
               None \<Rightarrow> (Inl (ErrMissing (TableName is)), s)
             | Some ts \<Rightarrow>
                 if ColumnIndex G (iColumn is) ts = None then (Inl (ErrNoColumn (iColumn is)), s)
                 else bindS (onPager allocLeaf) (\<lambda>root.
                      let is = is\<lparr>iRootPage := root\<rparr>
                      in bindS (schemaInsert E (indexKeyOf lname) (marshalIndex E is)) (\<lambda>_.
                         bindS (modifyS (\<lambda>s. s\<lparr>indexes := AList.update lname is (indexes s)\<rparr>)) (\<lambda>_.
                         let ts = ts\<lparr>Indexes := Indexes ts @ [iName is]\<rparr>
                         in bindS (modifyS (\<lambda>s. s\<lparr>tables := AList.update tn ts (tables s)\<rparr>)) (\<lambda>_.
                            updateTableSchema E ts)))) s)"

definition DropIndex :: "env \<Rightarrow> string \<Rightarrow> unit sm" where
  "DropIndex E name = (\<lambda>s.
     let G = lib E; lname = ToLower G name
     in case map_of (indexes s) lname of
          None \<Rightarrow> (Inl (ErrMissing name), s)
        | Some is \<Rightarrow>
            bindS (schemaDelete E (indexKeyOf lname)) (\<lambda>_.
            bindS (\<lambda>s. case map_of (tables s) (ToLower G (TableName is)) of
                     None \<Rightarrow> (Inr (), s)
                   | Some ts \<Rightarrow>
                       let ts = ts\<lparr>Indexes := filter (\<lambda>n. \<not> EqualFold G n name) (Indexes ts)\<rparr>
                       in bindS (modifyS (\<lambda>s. s\<lparr>tables := AList.update (ToLower G (TableName is)) ts (tables s)\<rparr>)) (\<lambda>_.
                          updateTableSchema E ts) s) (\<lambda>_.
            modifyS (\<lambda>s. s\<lparr>indexes := AList.delete lname (indexes s)\<rparr>))) s)"

definition CreateView :: "env \<Rightarrow> ViewSchema \<Rightarrow> unit sm" where
  "CreateView E vs = (\<lambda>s.
     let lname = ToLower (lib E) (vName vs)
     in if map_of (views s) lname \<noteq> None then (Inl (ErrExists (vName vs)), s)
        else bindS (schemaInsert E (viewKey lname) (marshalView E vs)) (\<lambda>_.
             modifyS (\<lambda>s. s\<lparr>views := AList.update lname vs (views s)\<rparr>)) s)"

definition DropView :: "env \<Rightarrow> string \<Rightarrow> unit sm" where
  "DropView E name = (\<lambda>s.
     let lname = ToLower (lib E) name
     in if map_of (views s) lname = None then (Inl (ErrMissing name), s)
        else bindS (schemaDelete E (viewKey lname)) (\<lambda>_.
             modifyS (\<lambda>s. s\<lparr>views := AList.delete lname (views s)\<rparr>)) s)"

text \<open>When the insertion under the new name fails, the table is in neither map entry.\<close>

definition RenameTable :: "env \<Rightarrow> string \<Rightarrow> string \<Rightarrow> unit sm" where
  "RenameTable E oldName newName = (\<lambda>s.
     let G = lib E; lold = ToLower G oldName; lnew = ToLower G newName
     in case map_of (tables s) lold of
          None \<Rightarrow> (Inl (ErrMissing oldName), s)
        | Some ts \<Rightarrow>
            if map_of (tables s) lnew \<noteq> None then (Inl (ErrExists newName), s)
            else bindS (schemaDelete E (tableKey lold)) (\<lambda>_.
                 bindS (modifyS (\<lambda>s. s\<lparr>tables := AList.delete lold (tables s)\<rparr>)) (\<lambda>_.
                 let ts = ts\<lparr>tName := newName\<rparr>
                 in bindS (schemaInsert E (tableKey lnew) (marshalTable E ts)) (\<lambda>_.
                    modifyS (\<lambda>s. s\<lparr>tables := AList.update lnew ts (tables s)\<rparr>)))) s)"

text \<open>Changing the columns of a table through the pointer in the map, then storing it.\<close>

definition alterColumns :: "env \<Rightarrow> string \<Rightarrow> TableSchema \<Rightarrow> Column list \<Rightarrow> unit sm" where
  "alterColumns E lname ts cols =
     (let ts = ts\<lparr>Columns := cols\<rparr>
      in bindS (modifyS (\<lambda>s. s\<lparr>tables := AList.update lname ts (tables s)\<rparr>)) (\<lambda>_. updateTableSchema E ts))"

definition AddColumn :: "env \<Rightarrow> string \<Rightarrow> Column \<Rightarrow> unit sm" where
  "AddColumn E tableName col = (\<lambda>s.
     let lname = ToLower (lib E) tableName
     in case map_of (tables s) lname of
          None \<Rightarrow> (Inl (ErrMissing tableName), s)
        | Some ts \<Rightarrow>
            if ColumnIndex (lib E) (cName col) ts \<noteq> None then (Inl (ErrExists (cName col)), s)
            else if NotNull col \<and> Default col = '''' then (Inl (ErrConstraint (cName col)), s)
            else alterColumns E lname ts (Columns ts @ [col]) s)"

definition RenameColumn :: "env \<Rightarrow> string \<Rightarrow> string \<Rightarrow> string \<Rightarrow> unit sm" where
  "RenameColumn E tableName oldColName newColName = (\<lambda>s.
     let lname = ToLower (lib E) tableName
     in case map_of (tables s) lname of
          None \<Rightarrow> (Inl (ErrMissing tableName), s)
        | Some ts \<Rightarrow>
            (case ColumnIndex (lib E) oldColName ts of
               None \<Rightarrow> (Inl (ErrNoColumn oldColName), s)
             | Some idx \<Rightarrow>
                 if ColumnIndex (lib E) newColName ts \<noteq> None then (Inl (ErrExists newColName), s)
                 else alterColumns E lname ts ((Columns ts)[idx := (Columns ts ! idx)\<lparr>cName := newColName\<rparr>]) s))"

definition DropColumn :: "env \<Rightarrow> string \<Rightarrow> string \<Rightarrow> unit sm" where
  "DropColumn E tableName colName = (\<lambda>s.
     let lname = ToLower (lib E) tableName
     in case map_of (tables s) lname of
          None \<Rightarrow> (Inl (ErrMissing tableName), s)
        | Some ts \<Rightarrow>
            (case ColumnIndex (lib E) colName ts of
               None \<Rightarrow> (Inl (ErrNoColumn colName), s)
             | Some idx \<Rightarrow>
                 if PrimaryKey (Columns ts ! idx) then (Inl (ErrConstraint colName), s)
                 else alterColumns E lname ts (remove_at idx (Columns ts)) s))"

end
