(* ===== verification/Float.thy ===== *)
theory Float
  imports GoLib "HOL-Library.Signed_Division"
begin

text \<open>
  Arithmetic on doubles as the evaluator uses it (the operators of \<open>float64\<close> and the exact functions
  of package \<open>math\<close>). A finite double is \<open>m * 2 ^ e\<close> with a sign; an operation computes the exact
  result on integers, or its leading bits and whether anything is left below them, and \<open>f_round\<close>
  rounds it to nearest, ties to even. A NaN result is always the bits of \<open>math.NaN()\<close>.
\<close>

section \<open>The parts of a double\<close>

definition f_NaN :: "64 word" where "f_NaN = 0x7FF8000000000001"
definition f_Inf :: "64 word" where "f_Inf = 0x7FF0000000000000"

definition f_sign :: "64 word \<Rightarrow> bool" where "f_sign w = bit w 63"
definition f_abs :: "64 word \<Rightarrow> 64 word" where "f_abs w = w AND 0x7FFFFFFFFFFFFFFF"
definition f_neg :: "64 word \<Rightarrow> 64 word" where "f_neg w = w XOR 0x8000000000000000"
definition f_inf :: "64 word \<Rightarrow> bool" where "f_inf w \<longleftrightarrow> f_abs w = f_Inf"
definition f_zero :: "64 word \<Rightarrow> bool" where "f_zero w \<longleftrightarrow> f_abs w = 0"

definition f_biased :: "64 word \<Rightarrow> nat" where "f_biased w = unat (drop_bit 52 (f_abs w))"

definition f_mant :: "64 word \<Rightarrow> nat" where
  "f_mant w = unat (w AND 0x000FFFFFFFFFFFFF) + (if f_biased w = 0 then 0 else 2 ^ 52)"

definition f_exp :: "64 word \<Rightarrow> int" where
  "f_exp w = int (max (f_biased w) 1) - 1075"

definition f_num :: "64 word \<Rightarrow> int" where
  "f_num w = (if f_sign w then - int (f_mant w) else int (f_mant w))"

definition f_signed :: "bool \<Rightarrow> 64 word \<Rightarrow> 64 word" where
  "f_signed s w = (if s then w OR 0x8000000000000000 else w)"

section \<open>Rounding\<close>

text \<open>The bits of the magnitude nearest to \<open>m * 2 ^ e\<close>, or, when \<open>sticky\<close>, to a number strictly
  between \<open>m * 2 ^ e\<close> and \<open>(m + 1) * 2 ^ e\<close>.\<close>

definition round_half_even :: "nat \<Rightarrow> nat \<Rightarrow> bool \<Rightarrow> nat" where
  "round_half_even m d sticky =
     (let n = m div d; r = m mod d
      in if 2 * r > d \<or> 2 * r = d \<and> (sticky \<or> odd n) then n + 1 else n)"

definition f_bits :: "nat \<Rightarrow> int \<Rightarrow> bool \<Rightarrow> nat" where
  "f_bits m e sticky =
     (let q = max (e + int (bitlen m) - 53) (-1074)
      in if q \<le> e then nat (q + 1074) * 2 ^ 52 + m * 2 ^ nat (e - q)
         else nat (q + 1074) * 2 ^ 52 + round_half_even m (2 ^ nat (q - e)) sticky)"

definition f_round :: "bool \<Rightarrow> nat \<Rightarrow> int \<Rightarrow> bool \<Rightarrow> 64 word" where
  "f_round s m e sticky =
     f_signed s (if m = 0 then 0
                 else let b = f_bits m e sticky in if b \<ge> 0x7FF0000000000000 then f_Inf else of_nat b)"

section \<open>Operators\<close>

definition f_add :: "64 word \<Rightarrow> 64 word \<Rightarrow> 64 word" where
  "f_add a b =
     (if f_nan a \<or> f_nan b then f_NaN
      else if f_inf a then (if f_inf b \<and> f_sign a \<noteq> f_sign b then f_NaN else a)
      else if f_inf b then b
      else if f_zero a \<and> f_zero b then (if f_sign a \<and> f_sign b then a else 0)
      else let e = min (f_exp a) (f_exp b);
               n = f_num a * 2 ^ nat (f_exp a - e) + f_num b * 2 ^ nat (f_exp b - e)
           in f_round (n < 0) (nat \<bar>n\<bar>) e False)"

definition f_sub :: "64 word \<Rightarrow> 64 word \<Rightarrow> 64 word" where
  "f_sub a b = f_add a (f_neg b)"

definition f_mul :: "64 word \<Rightarrow> 64 word \<Rightarrow> 64 word" where
  "f_mul a b =
     (let s = (f_sign a \<noteq> f_sign b)
      in if f_nan a \<or> f_nan b \<or> f_inf a \<and> f_zero b \<or> f_zero a \<and> f_inf b then f_NaN
         else if f_inf a \<or> f_inf b then f_signed s f_Inf
         else f_round s (f_mant a * f_mant b) (f_exp a + f_exp b) False)"

definition f_div :: "64 word \<Rightarrow> 64 word \<Rightarrow> 64 word" where
  "f_div a b =
     (let s = (f_sign a \<noteq> f_sign b); n = f_mant a * 2 ^ 120
      in if f_nan a \<or> f_nan b \<or> f_inf a \<and> f_inf b \<or> f_zero a \<and> f_zero b then f_NaN
         else if f_inf a \<or> f_zero b then f_signed s f_Inf
         else if f_inf b then f_signed s 0
         else f_round s (n div f_mant b) (f_exp a - f_exp b - 120) (n mod f_mant b \<noteq> 0))"

text \<open>\<open>math.Mod\<close>: the remainder is exact and has the sign of the first argument.\<close>

definition f_mod :: "64 word \<Rightarrow> 64 word \<Rightarrow> 64 word" where
  "f_mod a b =
     (if f_nan a \<or> f_nan b \<or> f_inf a \<or> f_zero b then f_NaN
      else if f_inf b then a
      else let e = min (f_exp a) (f_exp b)
           in f_round (f_sign a)
                (f_mant a * 2 ^ nat (f_exp a - e) mod (f_mant b * 2 ^ nat (f_exp b - e))) e False)"

section \<open>Rounding to integers\<close>

text \<open>What \<open>Trunc\<close>, \<open>Floor\<close>, \<open>Ceil\<close> and \<open>Round\<close> share; \<open>up s r d\<close> tells when a fraction \<open>r / d\<close>
  takes the magnitude to the next integer.\<close>

definition f_integral :: "(bool \<Rightarrow> nat \<Rightarrow> nat \<Rightarrow> bool) \<Rightarrow> 64 word \<Rightarrow> 64 word" where
  "f_integral up w =
     (if f_nan w then f_NaN
      else if f_inf w \<or> f_exp w \<ge> 0 then w
      else let d = 2 ^ nat (- f_exp w); m = f_mant w; n = m div d
           in f_round (f_sign w) (if up (f_sign w) (m mod d) d then n + 1 else n) 0 False)"

definition Trunc :: "64 word \<Rightarrow> 64 word" where "Trunc = f_integral (\<lambda>s r d. False)"
definition Floor :: "64 word \<Rightarrow> 64 word" where "Floor = f_integral (\<lambda>s r d. s \<and> r \<noteq> 0)"
definition Ceil :: "64 word \<Rightarrow> 64 word" where "Ceil = f_integral (\<lambda>s r d. \<not> s \<and> r \<noteq> 0)"
definition Round :: "64 word \<Rightarrow> 64 word" where "Round = f_integral (\<lambda>s r d. 2 * r \<ge> d)"

section \<open>Square root\<close>

fun isqrt :: "nat \<Rightarrow> nat" where
  "isqrt n = (if n = 0 then 0 else let r = 2 * isqrt (n div 4) in if (r + 1) * (r + 1) \<le> n then r + 1 else r)"

declare isqrt.simps [simp del]

definition Sqrt :: "64 word \<Rightarrow> 64 word" where
  "Sqrt w =
     (if f_nan w then f_NaN
      else if f_zero w then w
      else if f_sign w then f_NaN
      else if f_inf w then w
      else let m = (if even (f_exp w) then f_mant w else 2 * f_mant w) * 2 ^ 120;
               e = (if even (f_exp w) then f_exp w else f_exp w - 1); r = isqrt m
           in f_round False r (e div 2 - 60) (r * r \<noteq> m))"

section \<open>Conversions\<close>

text \<open>\<open>uint64(f)\<close> as amd64 computes it; Go leaves values out of range open.\<close>

definition f_to_uint :: "64 word \<Rightarrow> 64 word" where
  "f_to_uint w =
     (let top = 0x43E0000000000000
      in if f_less w top then f_to_int w else f_to_int (f_sub w top) XOR 0x8000000000000000)"

text \<open>The quotient and remainder of \<open>int64\<close> truncate towards zero; the divisor zero is \<open>None\<close>, which
  panics.\<close>

definition int_div :: "64 word \<Rightarrow> 64 word \<Rightarrow> 64 word option" where
  "int_div a b = (if b = 0 then None else Some (word_of_int (sint a sdiv sint b)))"

definition int_mod :: "64 word \<Rightarrow> 64 word \<Rightarrow> 64 word option" where
  "int_mod a b = (if b = 0 then None else Some (word_of_int (sint a smod sint b)))"

section \<open>Laws\<close>

lemma f_parts_eq:
  assumes "f_abs a = f_abs b" and "f_sign a = f_sign b"
  shows "a = b"
proof (rule bit_word_eqI)
  fix n assume n: "n < LENGTH(64)"
  have m: "(0x7FFFFFFFFFFFFFFF :: 64 word) = mask 63" by (simp add: mask_eq_exp_minus_1)
  have "bit (a AND mask 63) n = bit (b AND mask 63) n"
    using assms(1) by (simp only: f_abs_def m)
  moreover have "bit a 63 = bit b 63" using assms(2) by (simp add: f_sign_def)
  ultimately show "bit a n = bit b n"
    using n by (cases "n = 63") (auto simp: bit_and_iff bit_mask_iff)
qed

lemma f_add_commute: "f_add a b = f_add b a"
  using f_parts_eq [of a b] by (auto simp: f_add_def f_inf_def f_zero_def min.commute add.commute Let_def)

lemma f_mul_commute: "f_mul a b = f_mul b a"
proof -
  have s: "(f_sign b \<noteq> f_sign a) = (f_sign a \<noteq> f_sign b)" by blast
  show ?thesis unfolding f_mul_def s mult.commute [of "f_mant b"] add.commute [of "f_exp b"] Let_def
    by (rule if_cong) auto
qed

lemma isqrt_correct: "isqrt n * isqrt n \<le> n \<and> n < (isqrt n + 1) * (isqrt n + 1)"
proof (induction n rule: isqrt.induct)
  case (1 n)
  show ?case
  proof (cases "n = 0")
    case True
    then show ?thesis by (simp add: isqrt.simps)
  next
    case False
    define q where "q = isqrt (n div 4)"
    have q: "q * q \<le> n div 4" "n div 4 < (q + 1) * (q + 1)" using 1 [OF False] by (simp_all add: q_def)
    have e: "isqrt n = (if (2 * q + 1) * (2 * q + 1) \<le> n then 2 * q + 1 else 2 * q)"
      using False by (subst isqrt.simps) (simp add: q_def Let_def)
    have "4 * (q * q) \<le> n" using q(1) by linarith
    moreover have "n < 4 * ((q + 1) * (q + 1))" using q(2) by linarith
    ultimately show ?thesis by (auto simp: e algebra_simps)
  qed
qed

end
