(* ===== verification/Lexer.thy ===== *)
theory Lexer
  imports GoLib Prelude
begin

text \<open>
  The lexer (\<open>internal/engine/parser/lexer.go\<close>). The input is a list of runes, a token value the
  bytes of a string; a loop over the input is a recursion that ends because every round
  consumes a rune. \<open>unicode.IsSpace\<close>, \<open>IsDigit\<close> and \<open>IsLetter\<close> are written out below 256 and
  parameters above.
\<close>

section \<open>Tokens\<close>

text \<open>\<open>KW ''SELECT''\<close> stands for the constant \<open>KW_SELECT\<close>, and so on for each of them.\<close>

datatype TokenType =
    TOKEN_EOF | TOKEN_ILLEGAL | TOKEN_IDENT | TOKEN_NUMBER | TOKEN_STRING | TOKEN_COMMA
  | TOKEN_SEMICOLON | TOKEN_LPAREN | TOKEN_RPAREN | TOKEN_DOT | TOKEN_STAR | TOKEN_EQ | TOKEN_NEQ
  | TOKEN_LT | TOKEN_LTE | TOKEN_GT | TOKEN_GTE | TOKEN_PLUS | TOKEN_MINUS | TOKEN_SLASH
  | TOKEN_PERCENT | TOKEN_PIPE_PIPE | TOKEN_AMPERSAND | TOKEN_PIPE | TOKEN_TILDE | TOKEN_LSHIFT
  | TOKEN_RSHIFT | TOKEN_AND | TOKEN_OR | TOKEN_NOT | KW string

text \<open>The map \<open>keywords\<close>, in two parts.\<close>

definition keywords1 :: "(string \<times> string) list" where
  "keywords1 = [
    (''SELECT'', ''SELECT''), (''FROM'', ''FROM''), (''WHERE'', ''WHERE''), (''INSERT'', ''INSERT''),
    (''INTO'', ''INTO''), (''VALUES'', ''VALUES''), (''UPDATE'', ''UPDATE''), (''SET'', ''SET''),
    (''DELETE'', ''DELETE''), (''CREATE'', ''CREATE''), (''DROP'', ''DROP''), (''TABLE'', ''TABLE''),
    (''INDEX'', ''INDEX''), (''ON'', ''ON''), (''UNIQUE'', ''UNIQUE''), (''PRIMARY'', ''PRIMARY''),
    (''KEY'', ''KEY''), (''NULL'', ''NULL''), (''NOT'', ''NOT''), (''DEFAULT'', ''DEFAULT''),
    (''AND'', ''AND''), (''OR'', ''OR''), (''IS'', ''IS''), (''IN'', ''IN''), (''LIKE'', ''LIKE''),
    (''GLOB'', ''GLOB''), (''BETWEEN'', ''BETWEEN''), (''ORDER'', ''ORDER''), (''BY'', ''BY''),
    (''ASC'', ''ASC''), (''DESC'', ''DESC''), (''LIMIT'', ''LIMIT''), (''OFFSET'', ''OFFSET''),
    (''AS'', ''AS''), (''INNER'', ''INNER''), (''LEFT'', ''LEFT''), (''RIGHT'', ''RIGHT''),
    (''FULL'', ''FULL''), (''OUTER'', ''OUTER''), (''CROSS'', ''CROSS''), (''NATURAL'', ''NATURAL''),
    (''JOIN'', ''JOIN''), (''USING'', ''USING''), (''GROUP'', ''GROUP''), (''HAVING'', ''HAVING''),
    (''DISTINCT'', ''DISTINCT''), (''ALL'', ''ALL''), (''EXISTS'', ''EXISTS''), (''BEGIN'', ''BEGIN''),
    (''COMMIT'', ''COMMIT''), (''ROLLBACK'', ''ROLLBACK''), (''TRANSACTION'', ''TRANSACTION''),
    (''SAVEPOINT'', ''SAVEPOINT''), (''RELEASE'', ''RELEASE''), (''TO'', ''TO''), (''IF'', ''IF''),
    (''SHOW'', ''SHOW''), (''TABLES'', ''TABLES''), (''INDEXES'', ''INDEXES''), (''EXPLAIN'', ''EXPLAIN''),
    (''COUNT'', ''COUNT''), (''SUM'', ''SUM''), (''AVG'', ''AVG''), (''MIN'', ''MIN''), (''MAX'', ''MAX''),
    (''INTEGER'', ''INTEGER''), (''INT'', ''INTEGER''), (''TEXT'', ''TEXT''), (''VARCHAR'', ''TEXT''),
    (''REAL'', ''REAL''), (''FLOAT'', ''REAL''), (''DOUBLE'', ''REAL''), (''BLOB'', ''BLOB''),
    (''AUTOINCREMENT'', ''AUTOINCREMENT''), (''CASE'', ''CASE''), (''WHEN'', ''WHEN''), (''THEN'', ''THEN''),
    (''ELSE'', ''ELSE''), (''END'', ''END''), (''CAST'', ''CAST''), (''ALTER'', ''ALTER''),
    (''ADD'', ''ADD''), (''RENAME'', ''RENAME'')]"

definition keywords2 :: "(string \<times> string) list" where
  "keywords2 = [
    (''COLUMN'', ''COLUMN''), (''VIEW'', ''VIEW''), (''TEMP'', ''TEMP''), (''TEMPORARY'', ''TEMPORARY''),
    (''UNION'', ''UNION''), (''INTERSECT'', ''INTERSECT''), (''EXCEPT'', ''EXCEPT''), (''WITH'', ''WITH''),
    (''RECURSIVE'', ''RECURSIVE''), (''REPLACE'', ''REPLACE''), (''IGNORE'', ''IGNORE''),
    (''ABORT'', ''ABORT''), (''FAIL'', ''FAIL''), (''CONFLICT'', ''CONFLICT''), (''ROWID'', ''ROWID''),
    (''PRAGMA'', ''PRAGMA''), (''VACUUM'', ''VACUUM''), (''DEFERRED'', ''DEFERRED''),
    (''IMMEDIATE'', ''IMMEDIATE''), (''EXCLUSIVE'', ''EXCLUSIVE''), (''TRIGGER'', ''TRIGGER''),
    (''BEFORE'', ''BEFORE''), (''AFTER'', ''AFTER''), (''INSTEAD'', ''INSTEAD''), (''OF'', ''OF''),
    (''FOR'', ''FOR''), (''EACH'', ''EACH''), (''ROW'', ''ROW''), (''STATEMENT'', ''STATEMENT''),
    (''MATCH'', ''MATCH''), (''NO'', ''NO''), (''ACTION'', ''ACTION''), (''RESTRICT'', ''RESTRICT''),
    (''CASCADE'', ''CASCADE''), (''DEFERRABLE'', ''DEFERRABLE''), (''INITIALLY'', ''INITIALLY''),
    (''REFERENCES'', ''REFERENCES''), (''FOREIGN'', ''FOREIGN''), (''CHECK'', ''CHECK''),
    (''CONSTRAINT'', ''CONSTRAINT''), (''GENERATED'', ''GENERATED''), (''ALWAYS'', ''ALWAYS''),
    (''STORED'', ''STORED''), (''VIRTUAL'', ''VIRTUAL''), (''NOTHING'', ''NOTHING''), (''DO'', ''DO''),
    (''RETURNING'', ''RETURNING''), (''WINDOW'', ''WINDOW''), (''OVER'', ''OVER''),
    (''PARTITION'', ''PARTITION''), (''FILTER'', ''FILTER''), (''NULLS'', ''NULLS''), (''FIRST'', ''FIRST''),
    (''LAST'', ''LAST''), (''RANGE'', ''RANGE''), (''ROWS'', ''ROWS''), (''GROUPS'', ''GROUPS''),
    (''CURRENT'', ''CURRENT''), (''PRECEDING'', ''PRECEDING''), (''FOLLOWING'', ''FOLLOWING''),
    (''UNBOUNDED'', ''UNBOUNDED''), (''TIES'', ''TIES''), (''EXCLUDE'', ''EXCLUDE''),
    (''OTHERS'', ''OTHERS''), (''TRUE'', ''TRUE''), (''FALSE'', ''FALSE''), (''BOOLEAN'', ''INTEGER''),
    (''BOOL'', ''INTEGER''), (''NUMERIC'', ''REAL''), (''DECIMAL'', ''REAL''), (''CHAR'', ''TEXT''),
    (''NCHAR'', ''TEXT''), (''NVARCHAR'', ''TEXT''), (''CLOB'', ''TEXT''), (''TINYINT'', ''INTEGER''),
    (''SMALLINT'', ''INTEGER''), (''MEDIUMINT'', ''INTEGER''), (''BIGINT'', ''INTEGER''),
    (''UNSIGNED'', ''INTEGER''), (''DATE'', ''TEXT''), (''DATETIME'', ''TEXT''), (''TIMESTAMP'', ''TEXT'')]"

definition keyword :: "string \<Rightarrow> TokenType option" where
  "keyword w = map_option KW (map_of (keywords1 @ keywords2) w)"

record Token =
  tType :: TokenType
  tValue :: string
  tLine :: int
  tCol :: int

text \<open>\<open>Token{Type: TOKEN_EOF}\<close>\<close>

definition eofToken :: Token where
  "eofToken = \<lparr>tType = TOKEN_EOF, tValue = '''', tLine = 0, tCol = 0\<rparr>"

section \<open>Runes\<close>

type_synonym rune = nat

record unicode =
  uniSpace :: "rune \<Rightarrow> bool"
  uniDigit :: "rune \<Rightarrow> bool"
  uniLetter :: "rune \<Rightarrow> bool"

abbreviation R :: "char \<Rightarrow> rune" where "R c \<equiv> of_char c"

definition IsSpace :: "unicode \<Rightarrow> rune \<Rightarrow> bool" where
  "IsSpace U r = (if r < 256 then r \<in> {9, 10, 11, 12, 13, 32, 0x85, 0xA0} else uniSpace U r)"

definition IsDigit :: "unicode \<Rightarrow> rune \<Rightarrow> bool" where
  "IsDigit U r = (if r < 256 then 48 \<le> r \<and> r \<le> 57 else uniDigit U r)"

definition IsLetter :: "unicode \<Rightarrow> rune \<Rightarrow> bool" where
  "IsLetter U r = (if r < 256
     then (65 \<le> r \<and> r \<le> 90) \<or> (97 \<le> r \<and> r \<le> 122) \<or> r \<in> {0xAA, 0xB5, 0xBA} \<or>
          (0xC0 \<le> r \<and> r \<noteq> 0xD7 \<and> r \<noteq> 0xF7)
     else uniLetter U r)"

text \<open>The bytes that \<open>WriteRune\<close> and \<open>string(r)\<close> give; what is no code point is written as
  U+FFFD.\<close>

definition utf8 :: "rune \<Rightarrow> string" where
  "utf8 r =
     (let r = (if r > 0x10FFFF \<or> (0xD800 \<le> r \<and> r \<le> 0xDFFF) then 0xFFFD else r)
      in if r < 0x80 then [char_of r]
         else if r < 0x800 then [char_of (0xC0 + r div 64), char_of (0x80 + r mod 64)]
         else if r < 0x10000
         then [char_of (0xE0 + r div 4096), char_of (0x80 + r div 64 mod 64), char_of (0x80 + r mod 64)]
         else [char_of (0xF0 + r div 262144), char_of (0x80 + r div 4096 mod 64),
               char_of (0x80 + r div 64 mod 64), char_of (0x80 + r mod 64)])"

definition utf8s :: "rune list \<Rightarrow> string" where
  "utf8s rs = concat (map utf8 rs)"

text \<open>\<open>[]rune(s)\<close>: a byte that starts no valid sequence counts as one U+FFFD.\<close>

definition contByte :: "char \<Rightarrow> bool" where
  "contByte c \<longleftrightarrow> of_char c div 64 = (2 :: nat)"

text \<open>The rune at the front of \<open>a # s\<close> and how many bytes of \<open>s\<close> belong to it.\<close>

definition firstRune :: "char \<Rightarrow> string \<Rightarrow> rune \<times> nat" where
  "firstRune a s =
     (let x = of_char a; b = (\<lambda>i. of_char (s ! i) mod 64 :: nat);
          two = (x - 0xC0) * 64 + b 0;
          three = (x - 0xE0) * 4096 + b 0 * 64 + b 1;
          four = (x - 0xF0) * 262144 + b 0 * 4096 + b 1 * 64 + b 2
      in if x < 0x80 then (x, 0)
         else if 0xC2 \<le> x \<and> x < 0xE0 \<and> 1 \<le> length s \<and> contByte (s ! 0) then (two, 1)
         else if 0xE0 \<le> x \<and> x < 0xF0 \<and> 2 \<le> length s \<and> contByte (s ! 0) \<and> contByte (s ! 1) \<and>
              0x800 \<le> three \<and> \<not> (0xD800 \<le> three \<and> three \<le> 0xDFFF) then (three, 2)
         else if 0xF0 \<le> x \<and> x < 0xF5 \<and> 3 \<le> length s \<and> contByte (s ! 0) \<and> contByte (s ! 1) \<and> contByte (s ! 2) \<and>
              0x10000 \<le> four \<and> four \<le> 0x10FFFF then (four, 3)
         else (0xFFFD, 0))"

function runes :: "string \<Rightarrow> rune list" where
  "runes [] = []"
| "runes (a # s) = fst (firstRune a s) # runes (drop (snd (firstRune a s)) s)"
  by pat_completeness auto
termination by (relation "measure length") auto

section \<open>The lexer state\<close>

record Lexer =
  lx_input :: "rune list"
  lx_pos :: nat
  lx_line :: int
  lx_col :: int

definition NewLexer :: "string \<Rightarrow> Lexer" where
  "NewLexer s = \<lparr>lx_input = runes s, lx_pos = 0, lx_line = 1, lx_col = 1\<rparr>"

definition peek :: "Lexer \<Rightarrow> rune" where
  "peek l = (if lx_pos l \<ge> length (lx_input l) then 0 else lx_input l ! lx_pos l)"

definition peekAt :: "Lexer \<Rightarrow> nat \<Rightarrow> rune" where
  "peekAt l offset = (let idx = lx_pos l + offset in if idx \<ge> length (lx_input l) then 0 else lx_input l ! idx)"

definition advance :: "Lexer \<Rightarrow> rune \<times> Lexer" where
  "advance l =
     (if lx_pos l \<ge> length (lx_input l) then (0, l)
      else let ch = lx_input l ! lx_pos l; l = l\<lparr>lx_pos := lx_pos l + 1\<rparr>
           in (ch, if ch = 10 then l\<lparr>lx_line := lx_line l + 1, lx_col := 1\<rparr> else l\<lparr>lx_col := lx_col l + 1\<rparr>))"

definition skip :: "Lexer \<Rightarrow> Lexer" where
  "skip l = snd (advance l)"

text \<open>\<open>l.pos < len(l.input)\<close> with a condition on \<open>l.input[l.pos]\<close>, and on the rune after it.\<close>

definition here :: "Lexer \<Rightarrow> (rune \<Rightarrow> bool) \<Rightarrow> bool" where
  "here l P \<longleftrightarrow> lx_pos l < length (lx_input l) \<and> P (lx_input l ! lx_pos l)"

definition after :: "Lexer \<Rightarrow> (rune \<Rightarrow> bool) \<Rightarrow> bool" where
  "after l P \<longleftrightarrow> lx_pos l + 1 < length (lx_input l) \<and> P (lx_input l ! (lx_pos l + 1))"

text \<open>The runes that are left.\<close>

definition left :: "Lexer \<Rightarrow> nat" where
  "left l = length (lx_input l) - lx_pos l"

lemma left_skip: "lx_pos l < length (lx_input l) \<Longrightarrow> left (skip l) < left l"
  by (simp add: skip_def advance_def Let_def left_def)

lemma left_skip_le: "left (skip l) \<le> left l"
  by (auto simp: skip_def advance_def Let_def left_def)

lemma here_left: "here l P \<Longrightarrow> left (skip l) < left l"
  by (simp add: here_def left_skip)

lemma skip_skip_left: "lx_pos l < length (lx_input l) \<Longrightarrow> left (skip (skip l)) < left l"
  using left_skip [of l] left_skip_le [of "skip l"] by simp

text \<open>The loop \<open>for l.pos < len(l.input) && P(l.input[l.pos]) { sb.WriteRune(l.advance()) }\<close>: the runes
  it reads.\<close>

function readWhile :: "(rune \<Rightarrow> bool) \<Rightarrow> Lexer \<Rightarrow> rune list \<times> Lexer" where
  "readWhile P l =
     (if here l P then let (rs, l') = readWhile P (skip l) in (fst (advance l) # rs, l') else ([], l))"
  by pat_completeness auto
termination by (relation "measure (\<lambda>(P, l). left l)") (auto dest: here_left)

declare readWhile.simps [simp del]

section \<open>White space and comments\<close>

definition skipWhitespace :: "unicode \<Rightarrow> Lexer \<Rightarrow> Lexer" where
  "skipWhitespace U l = snd (readWhile (IsSpace U) l)"

definition skipLineComment :: "Lexer \<Rightarrow> Lexer" where
  "skipLineComment l = snd (readWhile (\<lambda>r. r \<noteq> 10) l)"

function skipCommentBody :: "Lexer \<Rightarrow> Lexer res" where
  "skipCommentBody l =
     (if lx_pos l < length (lx_input l)
      then if here l (\<lambda>r. r = R (CHR ''*'')) \<and> after l (\<lambda>r. r = R (CHR ''/'')) then Inr (skip (skip l))
           else skipCommentBody (skip l)
      else Inl (ErrLex ''unterminated block comment''))"
  by pat_completeness auto
termination by (relation "measure left") (auto dest: left_skip)

declare skipCommentBody.simps [simp del]

definition skipBlockComment :: "Lexer \<Rightarrow> Lexer res" where
  "skipBlockComment l = skipCommentBody (skip (skip l))"

section \<open>Strings, numbers and identifiers\<close>

text \<open>What a backslash and the rune after it stand for in a double-quoted string.\<close>

definition escaped :: "rune \<Rightarrow> string" where
  "escaped esc =
     (if esc = R (CHR ''n'') then [CHR 0x0A]
      else if esc = R (CHR ''t'') then [CHR 0x09]
      else if esc = R (CHR ''r'') then [CHR 0x0D]
      else if esc = 92 then [CHR 0x5C]
      else if esc = 34 then [CHR 0x22]
      else utf8 92 @ utf8 esc)"

function readStringBody :: "rune \<Rightarrow> string \<Rightarrow> Lexer \<Rightarrow> (string \<times> Lexer) res" where
  "readStringBody quote sb l =
     (if lx_pos l < length (lx_input l)
      then let ch = lx_input l ! lx_pos l
           in if ch = quote then
                (if after l (\<lambda>r. r = quote) then readStringBody quote (sb @ utf8 quote) (skip (skip l))
                 else Inr (sb, skip l))
              else if ch = 92 \<and> quote = 34 then
                (if lx_pos (skip l) < length (lx_input (skip l))
                 then readStringBody quote (sb @ escaped (fst (advance (skip l)))) (skip (skip l))
                 else readStringBody quote sb (skip l))
              else readStringBody quote (sb @ utf8 ch) (skip l)
      else Inl (ErrLex ''unterminated string literal''))"
  by pat_completeness auto
termination by (relation "measure (\<lambda>(q, sb, l). left l)") (auto dest: left_skip skip_skip_left)

declare readStringBody.simps [simp del]

definition mkToken :: "TokenType \<Rightarrow> string \<Rightarrow> Lexer \<Rightarrow> Token" where
  "mkToken t v l = \<lparr>tType = t, tValue = v, tLine = lx_line l, tCol = lx_col l\<rparr>"

definition readString :: "rune \<Rightarrow> Lexer \<Rightarrow> (Token \<times> Lexer) res" where
  "readString quote l =
     bindE (readStringBody quote '''' (skip l)) (\<lambda>(v, l'). Inr (mkToken TOKEN_STRING v l, l'))"

definition isHexDigit :: "rune \<Rightarrow> bool" where
  "isHexDigit r \<longleftrightarrow> (48 \<le> r \<and> r \<le> 57) \<or> (97 \<le> r \<and> r \<le> 102) \<or> (65 \<le> r \<and> r \<le> 70)"

text \<open>Reading one rune when it satisfies a condition.\<close>

definition readOne :: "(rune \<Rightarrow> bool) \<Rightarrow> Lexer \<Rightarrow> rune list \<times> Lexer" where
  "readOne P l = (if here l P then ([fst (advance l)], skip l) else ([], l))"

text \<open>The exponent and the digits after \<open>0x\<close>, when they follow.\<close>

definition readExponent :: "unicode \<Rightarrow> Lexer \<Rightarrow> rune list \<times> Lexer" where
  "readExponent U l =
     (if here l (\<lambda>r. r = R (CHR ''e'') \<or> r = R (CHR ''E''))
      then let (e, m1) = readOne (\<lambda>_. True) l;
               (s, m2) = readOne (\<lambda>r. r = R (CHR ''+'') \<or> r = R (CHR ''-'')) m1;
               (d, m3) = readWhile (IsDigit U) m2
           in (e @ s @ d, m3)
      else ([], l))"

definition readHex :: "rune list \<Rightarrow> Lexer \<Rightarrow> rune list \<times> Lexer" where
  "readHex sofar l =
     (if here l (\<lambda>r. r = R (CHR ''x'') \<or> r = R (CHR ''X'')) \<and> sofar = [48]
      then let (x, m1) = readOne (\<lambda>_. True) l; (h, m2) = readWhile isHexDigit m1 in (x @ h, m2)
      else ([], l))"

definition readNumber :: "unicode \<Rightarrow> Lexer \<Rightarrow> Token \<times> Lexer" where
  "readNumber U l =
     (let (a, l1) = readWhile (\<lambda>r. IsDigit U r \<or> r = R (CHR ''.'')) l;
          (b, l2) = readExponent U l1;
          (c, l3) = readHex (a @ b) l2
      in (mkToken TOKEN_NUMBER (utf8s (a @ b @ c)) l, l3))"

definition isWordRune :: "unicode \<Rightarrow> rune \<Rightarrow> bool" where
  "isWordRune U r \<longleftrightarrow> IsLetter U r \<or> IsDigit U r \<or> r = R (CHR ''_'')"

definition readIdent :: "unicode \<Rightarrow> golib \<Rightarrow> Lexer \<Rightarrow> Token \<times> Lexer" where
  "readIdent U G l =
     (let (w, l') = readWhile (isWordRune U) l; word = utf8s w; upper = ToUpper G word
      in case keyword upper of
           Some tt \<Rightarrow> (mkToken tt upper l, l')
         | None \<Rightarrow> (mkToken TOKEN_IDENT word l, l'))"

function readQuotedBody :: "rune \<Rightarrow> string \<Rightarrow> Lexer \<Rightarrow> (string \<times> Lexer) res" where
  "readQuotedBody quote sb l =
     (if lx_pos l < length (lx_input l)
      then let ch = lx_input l ! lx_pos l
           in if ch = quote then Inr (sb, skip l)
              else readQuotedBody quote (sb @ utf8 ch) (skip l)
      else Inl (ErrLex ''unterminated quoted identifier''))"
  by pat_completeness auto
termination by (relation "measure (\<lambda>(q, sb, l). left l)") (auto dest: left_skip)

declare readQuotedBody.simps [simp del]

definition readQuotedIdent :: "rune \<Rightarrow> Lexer \<Rightarrow> (Token \<times> Lexer) res" where
  "readQuotedIdent quote l =
     bindE (readQuotedBody quote '''' (skip l)) (\<lambda>(v, l'). Inr (mkToken TOKEN_IDENT v l, l'))"

section \<open>The main loop\<close>

text \<open>A token of one rune, and one of two runes when the second one follows.\<close>

definition single :: "TokenType \<Rightarrow> Lexer \<Rightarrow> (Token \<times> Lexer) res" where
  "single t l = Inr (mkToken t (utf8 (lx_input l ! lx_pos l)) l, skip l)"

definition double :: "TokenType \<Rightarrow> string \<Rightarrow> Lexer \<Rightarrow> (Token \<times> Lexer) res" where
  "double t v l = Inr (mkToken t v l, skip (skip l))"

text \<open>The switch on \<open>ch\<close>.\<close>

definition nextToken :: "unicode \<Rightarrow> golib \<Rightarrow> Lexer \<Rightarrow> (Token \<times> Lexer) res" where
  "nextToken U G l =
     (let ch = lx_input l ! lx_pos l; nxt = (\<lambda>c. here (skip l) (\<lambda>r. r = R c))
      in if ch = 39 \<or> ch = 34 then readString ch l
         else if ch = 96 then readQuotedIdent 96 l
         else if ch = R (CHR ''['') then readQuotedIdent (R (CHR '']'')) l
         else if ch = R (CHR '','') then single TOKEN_COMMA l
         else if ch = R (CHR '';'') then single TOKEN_SEMICOLON l
         else if ch = R (CHR ''('') then single TOKEN_LPAREN l
         else if ch = R (CHR '')'') then single TOKEN_RPAREN l
         else if ch = R (CHR ''.'') then single TOKEN_DOT l
         else if ch = R (CHR ''*'') then single TOKEN_STAR l
         else if ch = R (CHR ''='') then single TOKEN_EQ l
         else if ch = R (CHR ''<'') then
           (if nxt (CHR ''='') then double TOKEN_LTE ''<='' l
            else if nxt (CHR ''>'') then double TOKEN_NEQ ''<>'' l
            else if nxt (CHR ''<'') then double TOKEN_LSHIFT ''<<'' l
            else single TOKEN_LT l)
         else if ch = R (CHR ''>'') then
           (if nxt (CHR ''='') then double TOKEN_GTE ''>='' l
            else if nxt (CHR ''>'') then double TOKEN_RSHIFT ''>>'' l
            else single TOKEN_GT l)
         else if ch = R (CHR ''!'') then
           (if nxt (CHR ''='') then double TOKEN_NEQ ''!='' l else single TOKEN_ILLEGAL l)
         else if ch = R (CHR ''+'') then single TOKEN_PLUS l
         else if ch = R (CHR ''-'') then single TOKEN_MINUS l
         else if ch = R (CHR ''/'') then single TOKEN_SLASH l
         else if ch = R (CHR ''%'') then single TOKEN_PERCENT l
         else if ch = R (CHR ''&'') then single TOKEN_AMPERSAND l
         else if ch = R (CHR ''~'') then single TOKEN_TILDE l
         else if ch = R (CHR ''|'') then
           (if nxt (CHR ''|'') then double TOKEN_PIPE_PIPE ''||'' l else single TOKEN_PIPE l)
         else if IsDigit U ch then Inr (readNumber U l)
         else if IsLetter U ch \<or> ch = R (CHR ''_'') then Inr (readIdent U G l)
         else single TOKEN_ILLEGAL l)"


text \<open>The runes that a lexer has before it, and what the operations read of them.\<close>

definition rest :: "Lexer \<Rightarrow> rune list" where
  "rest l = drop (lx_pos l) (lx_input l)"

lemma left_rest: "left l = length (rest l)"
  by (simp add: left_def rest_def)

lemma rest_eq: "rest l = (if lx_pos l < length (lx_input l) then lx_input l ! lx_pos l # rest (skip l) else [])"
proof (cases "lx_pos l < length (lx_input l)")
  case True
  from Cons_nth_drop_Suc [OF this, symmetric] True show ?thesis
    by (simp add: rest_def skip_def advance_def Let_def)
qed (simp add: rest_def)

lemma rest_Nil: "rest l = [] \<longleftrightarrow> \<not> lx_pos l < length (lx_input l)"
  by (simp add: rest_def not_less)

lemma rest_Cons: "rest l = r # rs \<longleftrightarrow> lx_pos l < length (lx_input l) \<and> lx_input l ! lx_pos l = r \<and> rest (skip l) = rs"
  by (subst rest_eq) simp

lemma rest_skip [simp]: "rest (skip l) = tl (rest l)"
  by (simp add: rest_def skip_def advance_def Let_def drop_Suc tl_drop)

lemma here_rest: "here l P \<longleftrightarrow> (case rest l of [] \<Rightarrow> False | r # _ \<Rightarrow> P r)"
  by (subst rest_eq) (simp add: here_def)

lemma after_rest: "after l P \<longleftrightarrow> (case rest l of _ # r # _ \<Rightarrow> P r | _ \<Rightarrow> False)"
proof -
  have "after l P \<longleftrightarrow> Suc 0 < length (rest l) \<and> P (rest l ! 1)"
    by (auto simp: after_def rest_def less_diff_conv)
  then show ?thesis by (auto split: list.split)
qed

lemma advance_rest: "rest l = r # rs \<Longrightarrow> fst (advance l) = r"
  by (simp add: rest_Cons advance_def Let_def)

lemma readWhile_rest: "readWhile P l = (takeWhile P (rest l), snd (readWhile P l))"
  "rest (snd (readWhile P l)) = dropWhile P (rest l)"
proof (induction P l rule: readWhile.induct)
  case (1 P l)
  have "readWhile P l = (takeWhile P (rest l), snd (readWhile P l)) \<and> rest (snd (readWhile P l)) = dropWhile P (rest l)"
  proof (cases "rest l")
    case Nil
    then have "readWhile P l = ([], l)" by (subst readWhile.simps) (simp add: here_rest)
    with Nil show ?thesis by simp
  next
    case (Cons r rs)
    show ?thesis
    proof (cases "P r")
      case False
      then have "readWhile P l = ([], l)" using Cons by (subst readWhile.simps) (simp add: here_rest)
      with Cons False show ?thesis by simp
    next
      case True
      then have h: "here l P" using Cons by (simp add: here_rest)
      have "readWhile P l = (r # fst (readWhile P (skip l)), snd (readWhile P (skip l)))"
        using h advance_rest [OF Cons] by (subst readWhile.simps) (simp add: case_prod_unfold Let_def)
      then show ?thesis using 1 [OF h] Cons True by (metis fst_conv snd_conv list.sel(3) rest_skip takeWhile.simps(2) dropWhile.simps(2))
    qed
  qed
  then show "readWhile P l = (takeWhile P (rest l), snd (readWhile P l))" "rest (snd (readWhile P l)) = dropWhile P (rest l)"
    by blast+
qed


lemma left_readWhile: "left (snd (readWhile P l)) \<le> left l"
  "here l P \<Longrightarrow> left (snd (readWhile P l)) < left l"
proof -
  have d: "length (dropWhile P xs) \<le> length xs" for xs :: "rune list" by (rule length_dropWhile_le)
  show "left (snd (readWhile P l)) \<le> left l" by (simp add: left_rest readWhile_rest(2) d)
  show "here l P \<Longrightarrow> left (snd (readWhile P l)) < left l"
    using d by (auto simp: left_rest readWhile_rest(2) here_rest less_Suc_eq_le split: list.splits)
qed

lemma left_readOne: "left (snd (readOne P l)) \<le> left l"
  by (simp add: readOne_def left_skip_le)

text \<open>Every token and every comment takes at least one rune.\<close>

lemma left_skipCommentBody: "skipCommentBody l = Inr l' \<Longrightarrow> left l' \<le> left l"
proof (induction l rule: skipCommentBody.induct)
  case (1 l)
  from 1(2) show ?case
    using 1(1) left_skip_le [of l] left_skip_le [of "skip l"]
    by (subst (asm) skipCommentBody.simps) (auto split: if_splits intro: le_trans)
qed

lemma left_readStringBody: "readStringBody q sb l = Inr (v, l') \<Longrightarrow> left l' \<le> left l"
proof (induction q sb l rule: readStringBody.induct)
  case (1 q sb l)
  have le: "left x \<le> left (skip (skip l)) \<or> left x \<le> left (skip l) \<Longrightarrow> left x \<le> left l" for x
    using left_skip_le [of l] left_skip_le [of "skip l"] by linarith
  show ?case
    using 1(5) by (subst (asm) readStringBody.simps)
      (auto simp only: Let_def split: if_split_asm intro!: le dest: 1(1-4) [OF _ refl])
qed

lemma left_readQuotedBody: "readQuotedBody q sb l = Inr (v, l') \<Longrightarrow> left l' \<le> left l"
proof (induction q sb l rule: readQuotedBody.induct)
  case (1 q sb l)
  from 1(2,1) show ?case
    by (subst (asm) readQuotedBody.simps)
      (use left_skip_le [of l] in \<open>auto simp: Let_def split: if_splits intro: le_trans\<close>)
qed

lemma left_readExponent: "left (snd (readExponent U l)) \<le> left l"
proof -
  let ?m1 = "snd (readOne (\<lambda>_. True) l)"
  let ?m2 = "snd (readOne (\<lambda>r. r = R (CHR ''+'') \<or> r = R (CHR ''-'')) ?m1)"
  have "left (snd (readWhile (IsDigit U) ?m2)) \<le> left l"
    using left_readWhile(1) [of "IsDigit U" ?m2] left_readOne [of _ ?m1] left_readOne [of "\<lambda>_. True" l] le_trans by blast
  then show ?thesis by (simp add: readExponent_def Let_def case_prod_unfold)
qed

lemma left_readHex: "left (snd (readHex a l)) \<le> left l"
proof -
  have "left (snd (readWhile isHexDigit (snd (readOne (\<lambda>_. True) l)))) \<le> left l"
    using left_readWhile(1) left_readOne le_trans by blast
  then show ?thesis by (simp add: readHex_def Let_def case_prod_unfold)
qed

lemma left_readNumber: "here l (IsDigit U) \<Longrightarrow> left (snd (readNumber U l)) < left l"
proof -
  assume h: "here l (IsDigit U)"
  let ?l1 = "snd (readWhile (\<lambda>r. IsDigit U r \<or> r = R (CHR ''.'')) l)"
  have "left ?l1 < left l" using h by (intro left_readWhile(2)) (auto simp: here_def)
  moreover have "left (snd (readNumber U l)) \<le> left ?l1"
    using le_trans [OF left_readHex left_readExponent [of U ?l1]]
    by (simp add: readNumber_def Let_def case_prod_unfold)
  ultimately show ?thesis by simp
qed

lemma left_readIdent: "here l (isWordRune U) \<Longrightarrow> left (snd (readIdent U G l)) < left l"
  using left_readWhile(2) [of l "isWordRune U"]
  by (auto simp: readIdent_def Let_def case_prod_unfold split: option.split)

definition shorter :: "Lexer \<Rightarrow> (Token \<times> Lexer) res \<Rightarrow> bool" where
  "shorter l r \<longleftrightarrow> (\<forall>tok l'. r = Inr (tok, l') \<longrightarrow> left l' < left l)"

lemma shorter_if: "(c \<Longrightarrow> shorter l a) \<Longrightarrow> (\<not> c \<Longrightarrow> shorter l b) \<Longrightarrow> shorter l (if c then a else b)"
  by simp

lemma shorter_simple:
  assumes "lx_pos l < length (lx_input l)"
  shows "shorter l (readString q l)" "shorter l (readQuotedIdent q l)" "shorter l (single t l)" "shorter l (double t v l)"
    "IsDigit U (lx_input l ! lx_pos l) \<Longrightarrow> shorter l (Inr (readNumber U l))"
    "IsLetter U (lx_input l ! lx_pos l) \<or> lx_input l ! lx_pos l = R (CHR ''_'') \<Longrightarrow> shorter l (Inr (readIdent U G l))"
proof -
  note lt = left_skip [OF assms] and le = left_skip_le [of "skip l"]
  show "shorter l (readString q l)"
    using lt left_readStringBody [of q "[]" "skip l"] by (fastforce simp: shorter_def readString_def bindE_eq_Inr)
  show "shorter l (readQuotedIdent q l)"
    using lt left_readQuotedBody [of q "[]" "skip l"] by (fastforce simp: shorter_def readQuotedIdent_def bindE_eq_Inr)
  show "shorter l (single t l)" "shorter l (double t v l)"
    using lt le by (auto simp: shorter_def single_def double_def)
  show "IsDigit U (lx_input l ! lx_pos l) \<Longrightarrow> shorter l (Inr (readNumber U l))"
    using left_readNumber [of l U] assms by (auto simp: shorter_def here_def)
  show "IsLetter U (lx_input l ! lx_pos l) \<or> lx_input l ! lx_pos l = R (CHR ''_'') \<Longrightarrow> shorter l (Inr (readIdent U G l))"
    using left_readIdent [of l U G] assms by (auto simp: shorter_def here_def isWordRune_def)
qed

lemma left_nextToken:
  assumes "nextToken U G l = Inr (tok, l')" and "lx_pos l < length (lx_input l)"
  shows "left l' < left l"
proof -
  have "shorter l (nextToken U G l)"
    unfolding nextToken_def Let_def
    by (intro shorter_if shorter_simple [OF assms(2)]; assumption)
  with assms(1) show ?thesis by (simp add: shorter_def)
qed

lemma left_ws: "left (skipWhitespace U l) \<le> left l"
  by (simp add: skipWhitespace_def left_readWhile)

function tokenizeFrom :: "unicode \<Rightarrow> golib \<Rightarrow> Lexer \<Rightarrow> Token list res" where
  "tokenizeFrom U G l0 =
     (let l = skipWhitespace U l0
      in if \<not> lx_pos l < length (lx_input l) then Inr [eofToken]
         else if here l (\<lambda>r. r = R (CHR ''-'')) \<and> after l (\<lambda>r. r = R (CHR ''-'')) then tokenizeFrom U G (skipLineComment l)
         else if here l (\<lambda>r. r = R (CHR ''/'')) \<and> after l (\<lambda>r. r = R (CHR ''*'')) then
           (case skipBlockComment l of
              Inl e \<Rightarrow> Inl e
            | Inr l' \<Rightarrow> tokenizeFrom U G l')
         else (case nextToken U G l of
                 Inl e \<Rightarrow> Inl e
               | Inr (tok, l') \<Rightarrow> bindE (tokenizeFrom U G l') (\<lambda>ts. Inr (tok # ts))))"
  by pat_completeness auto
termination
proof (relation "measure (\<lambda>(U, G, l). left l)", goal_cases)
  case 1
  show ?case by simp
next
  case (2 U G l0 l)
  then have "here l (\<lambda>r. r \<noteq> 10)" by (auto simp: here_def)
  from left_readWhile(2) [OF this] left_ws [of U l0] 2(1) show ?case by (simp add: skipLineComment_def)
next
  case (3 U G l0 l l')
  then have "left l' \<le> left (skip (skip l))" by (intro left_skipCommentBody) (simp add: skipBlockComment_def)
  with 3 skip_skip_left [of l] left_ws [of U l0] show ?case by simp
next
  case (4 U G l0 l y tok l')
  then have "left l' < left l" by (intro left_nextToken [of U G l tok l']) simp_all
  with left_ws [of U l0] 4(1) show ?case by simp
qed

declare tokenizeFrom.simps [simp del]

definition Tokenize :: "unicode \<Rightarrow> golib \<Rightarrow> string \<Rightarrow> Token list res" where
  "Tokenize U G s = tokenizeFrom U G (NewLexer s)"

end
