(* ===== verification/Utf8.thy ===== *)
theory Utf8
  imports Lexer
begin

text \<open>
  Strings as sequences of UTF-8 encoded runes: cutting a string into its sequences, and the laws of
  \<open>[]rune(s)\<close> and \<open>string(rs)\<close>.
\<close>

section \<open>Runes and sequences\<close>

fun cut :: "char \<Rightarrow> string \<Rightarrow> string \<times> string" where
  "cut a s = (let k = snd (firstRune a s) in (a # take k s, drop k s))"

function chunks :: "string \<Rightarrow> (rune \<times> string) list" where
  "chunks [] = []"
| "chunks (a # s) = (fst (firstRune a s), fst (cut a s)) # chunks (snd (cut a s))"
  by pat_completeness auto
termination by (relation "measure length") (auto simp: Let_def)

definition RuneCount :: "string \<Rightarrow> nat" where "RuneCount s = length (runes s)"

text \<open>\<open>utf8.DecodeRuneInString\<close> of a string that is not empty.\<close>

definition DecodeRune :: "string \<Rightarrow> rune" where "DecodeRune s = hd (runes s)"

definition valid_rune :: "rune \<Rightarrow> bool" where
  "valid_rune r \<longleftrightarrow> r \<le> 0x10FFFF \<and> \<not> (0xD800 \<le> r \<and> r \<le> 0xDFFF)"

definition as_valid :: "rune \<Rightarrow> rune" where
  "as_valid r = (if valid_rune r then r else 0xFFFD)"

lemma chunks_runes: "map fst (chunks s) = runes s"
  by (induction s rule: runes.induct) (simp_all add: Let_def)

lemma chunks_concat: "concat (map snd (chunks s)) = s"
  by (induction s rule: runes.induct) (simp_all add: Let_def)

lemma of_char_cont:
  "(of_char (char_of (0x80 + k mod 64) :: char) :: nat) = 0x80 + k mod 64" "contByte (char_of (0x80 + k mod 64 :: nat))"
  "(0x80 + k mod 64) mod 64 = k mod (64 :: nat)"
proof -
  have "k mod 64 < 64" by simp
  then have "0x80 + k mod 64 < 256" by linarith
  then show e: "(of_char (char_of (0x80 + k mod 64) :: char) :: nat) = 0x80 + k mod 64" by (simp add: of_char_of)
  have "(0x80 + k mod 64) div 64 = (2 :: nat)" using \<open>k mod 64 < 64\<close> by (intro div_nat_eqI) simp_all
  then show "contByte (char_of (0x80 + k mod 64 :: nat))" by (simp add: contByte_def e)
  show "(0x80 + k mod 64) mod 64 = k mod (64 :: nat)"
    using mod_mult_self3 [of 2 64 "k mod 64"] by simp
qed

lemma of_char_lead: "n < 256 \<Longrightarrow> (of_char (char_of n :: char) :: nat) = n"
  by (simp add: of_char_of)

lemma div_parts:
  "r div 64 * 64 + r mod 64 = (r :: nat)"
  "r div 4096 * 4096 + r div 64 mod 64 * 64 + r mod 64 = r"
  "r div 262144 * 262144 + r div 4096 mod 64 * 4096 + r div 64 mod 64 * 64 + r mod 64 = r"
proof -
  have d: "r div 4096 = r div 64 div 64" "r div 262144 = r div 4096 div 64"
    using div_mult2_eq [of r 64 64] div_mult2_eq [of r 4096 64] by simp_all
  show a: "r div 64 * 64 + r mod 64 = r" by simp
  have "r div 64 div 64 * 64 + r div 64 mod 64 = r div 64" by simp
  then show b: "r div 4096 * 4096 + r div 64 mod 64 * 64 + r mod 64 = r" using a d(1) by linarith
  have "r div 4096 div 64 * 64 + r div 4096 mod 64 = r div 4096" by simp
  then show "r div 262144 * 262144 + r div 4096 mod 64 * 4096 + r div 64 mod 64 * 64 + r mod 64 = r"
    using b d(2) by linarith
qed

lemma firstRune2:
  assumes "0x80 \<le> r" and "r < 0x800"
  shows "firstRune (char_of (0xC0 + r div 64)) (char_of (0x80 + r mod 64) # s) = (r, 1)"
proof -
  have "2 \<le> r div 64" "r div 64 < 32" using assms by simp_all
  then show ?thesis using div_parts(1) [of r]
    by (simp add: firstRune_def of_char_lead of_char_cont Let_def)
qed

lemma firstRune3:
  assumes "0x800 \<le> r" and "r < 0x10000" and "valid_rune r"
  shows "firstRune (char_of (0xE0 + r div 4096)) (char_of (0x80 + r div 64 mod 64) # char_of (0x80 + r mod 64) # s) = (r, 2)"
proof -
  have "r div 4096 < 16" using assms by simp
  then show ?thesis using div_parts(2) [of r] assms
    by (simp add: firstRune_def of_char_lead of_char_cont Let_def valid_rune_def)
qed

lemma firstRune4:
  assumes "0x10000 \<le> r" and "valid_rune r"
  shows "firstRune (char_of (0xF0 + r div 262144)) (char_of (0x80 + r div 4096 mod 64) #
    char_of (0x80 + r div 64 mod 64) # char_of (0x80 + r mod 64) # s) = (r, 3)"
proof -
  have "r div 262144 < 5" using assms by (simp add: valid_rune_def)
  then show ?thesis using div_parts(3) [of r] assms
    by (simp add: firstRune_def of_char_lead of_char_cont Let_def valid_rune_def)
qed

lemma firstRune_utf8:
  assumes "valid_rune r"
  shows "\<exists>a k. utf8 r = a # k \<and> (\<forall>s. firstRune a (k @ s) = (r, length k))"
proof -
  have v: "\<not> (r > 0x10FFFF \<or> (0xD800 \<le> r \<and> r \<le> 0xDFFF))" using assms by (auto simp: valid_rune_def)
  consider "r < 0x80" | "0x80 \<le> r" "r < 0x800" | "0x800 \<le> r" "r < 0x10000" | "0x10000 \<le> r"
    by linarith
  then show ?thesis
  proof cases
    case 1
    then show ?thesis using v by (simp add: utf8_def firstRune_def of_char_lead Let_def)
  next
    case 2
    then show ?thesis using firstRune2 [OF 2] v by (simp add: utf8_def Let_def)
  next
    case 3
    then show ?thesis using firstRune3 [OF 3 assms] v by (auto simp: utf8_def Let_def)
  next
    case 4
    then show ?thesis using firstRune4 [OF 4 assms] v by (simp add: utf8_def Let_def)
  qed
qed

lemma utf8_as_valid: "utf8 (as_valid r) = utf8 r"
  by (auto simp: utf8_def as_valid_def valid_rune_def Let_def)

lemma valid_as_valid [simp]: "valid_rune (as_valid r)"
  by (simp add: as_valid_def valid_rune_def)

text \<open>Writing runes and reading them back.\<close>

lemma runes_utf8: "runes (utf8 r @ s) = as_valid r # runes s"
proof -
  obtain a k where "utf8 (as_valid r) = a # k" "firstRune a (k @ s) = (as_valid r, length k)"
    using firstRune_utf8 [OF valid_as_valid, of r] by blast
  then show ?thesis by (simp flip: utf8_as_valid [of r])
qed

lemma runes_utf8s: "runes (utf8s rs) = map as_valid rs"
  by (induction rs) (simp_all add: utf8s_def runes_utf8)

lemma firstRune_valid: "valid_rune (fst (firstRune a s))"
proof -
  have "(of_char a :: nat) < 256" by (rule nat_of_char_less_256)
  moreover have "x < 32 \<Longrightarrow> x * 64 + y mod 64 < 2048" for x y :: nat
    using mod_less_divisor [of 64 y] by linarith
  moreover have "x < 16 \<Longrightarrow> x * 4096 + y mod 64 * 64 + z mod 64 < 65536" for x y z :: nat
    using mod_less_divisor [of 64 y] mod_less_divisor [of 64 z] by linarith
  ultimately show ?thesis
    by (fastforce simp: firstRune_def Let_def valid_rune_def)
qed

lemma runes_valid: "\<forall>r \<in> set (runes s). valid_rune r"
  by (induction s rule: runes.induct) (simp_all add: firstRune_valid)

lemma runes_runes: "runes (utf8s (runes s)) = runes s"
proof -
  have "map as_valid (runes s) = map (\<lambda>r. r) (runes s)"
    using runes_valid [of s] by (intro map_cong) (simp_all add: as_valid_def)
  then show ?thesis by (simp add: runes_utf8s)
qed

lemma firstRune_size: "snd (firstRune a s) \<le> 3"
  by (simp add: firstRune_def Let_def)

lemma RuneCount_bounds: "RuneCount s \<le> length s \<and> length s \<le> 4 * RuneCount s"
  unfolding RuneCount_def
proof (induction s rule: runes.induct)
  case (2 a s)
  let ?t = "drop (snd (firstRune a s)) s"
  have "length ?t \<le> length s" "length s \<le> length ?t + 3" using firstRune_size [of a s] by simp_all
  moreover have "length (runes (a # s)) = Suc (length (runes ?t))" "length (a # s) = Suc (length s)" by simp_all
  ultimately show ?case using 2 by linarith
qed simp

end
