(* ===== verification/GoStrings.thy ===== *)
theory GoStrings
  imports Utf8
begin

text \<open>
  What the evaluator uses of Go's packages \<open>strings\<close> and \<open>strconv\<close>. The functions that Go defines on
  runes work on the UTF-8 sequences \<open>chunks\<close> cuts a string into.
\<close>

section \<open>Searching and replacing\<close>

text \<open>\<open>strings.Index\<close>; \<open>None\<close> is -1.\<close>

fun Index :: "string \<Rightarrow> string \<Rightarrow> nat option" where
  "Index s sep =
     (if take (length sep) s = sep then Some 0
      else case s of [] \<Rightarrow> None | _ # cs \<Rightarrow> map_option Suc (Index cs sep))"

declare Index.simps [simp del]

definition Contains :: "string \<Rightarrow> string \<Rightarrow> bool" where
  "Contains s sep \<longleftrightarrow> Index s sep \<noteq> None"

function replaceFrom :: "string \<Rightarrow> string \<Rightarrow> string \<Rightarrow> string" where
  "replaceFrom old new s =
     (case s of
        [] \<Rightarrow> []
      | c # cs \<Rightarrow>
          if old \<noteq> [] \<and> take (length old) s = old then new @ replaceFrom old new (drop (length old) s)
          else c # replaceFrom old new cs)"
  by pat_completeness auto
termination by (relation "measure (\<lambda>(_, _, s). length s)") (auto simp: diff_less)

declare replaceFrom.simps [simp del]

text \<open>\<open>strings.ReplaceAll\<close>; the empty string is found before every rune and at the end.\<close>

definition ReplaceAll :: "string \<Rightarrow> string \<Rightarrow> string \<Rightarrow> string" where
  "ReplaceAll s old new =
     (if old = [] then new @ concat (map (\<lambda>(_, c). c @ new) (chunks s)) else replaceFrom old new s)"

section \<open>Cutting and joining\<close>

function splitFrom :: "string \<Rightarrow> string \<Rightarrow> string list" where
  "splitFrom sep s =
     (case (if sep = [] then None else Index s sep) of
        None \<Rightarrow> [s]
      | Some i \<Rightarrow> if i + length sep > length s then [s] else take i s # splitFrom sep (drop (i + length sep) s))"
  by pat_completeness auto
termination
proof (relation "measure (\<lambda>(_, s). length s)", goal_cases)
  case (2 sep s i)
  then have "sep \<noteq> []" by (auto split: if_splits)
  with 2 show ?case by (cases sep) auto
qed simp

declare splitFrom.simps [simp del]

definition SplitOn :: "string \<Rightarrow> string \<Rightarrow> string list" where
  "SplitOn s sep = (if sep = [] then map snd (chunks s) else splitFrom sep s)"

fun Join :: "string list \<Rightarrow> string \<Rightarrow> string" where
  "Join [] sep = ''''"
| "Join [x] sep = x"
| "Join (x # y # xs) sep = x @ sep @ Join (y # xs) sep"

text \<open>\<open>strings.Fields\<close>: the words between runs of white space.\<close>

fun fieldsFrom :: "unicode \<Rightarrow> string \<Rightarrow> (rune \<times> string) list \<Rightarrow> string list" where
  "fieldsFrom U word [] = (if word = [] then [] else [word])"
| "fieldsFrom U word ((r, c) # ws) =
     (if IsSpace U r then (if word = [] then fieldsFrom U [] ws else word # fieldsFrom U [] ws)
      else fieldsFrom U (word @ c) ws)"

definition Fields :: "unicode \<Rightarrow> string \<Rightarrow> string list" where
  "Fields U s = fieldsFrom U [] (chunks s)"

section \<open>Trimming\<close>

definition trimLeftBy :: "(rune \<Rightarrow> bool) \<Rightarrow> (rune \<times> string) list \<Rightarrow> (rune \<times> string) list" where
  "trimLeftBy P = dropWhile (\<lambda>(r, _). P r)"

definition trimRightBy :: "(rune \<Rightarrow> bool) \<Rightarrow> (rune \<times> string) list \<Rightarrow> (rune \<times> string) list" where
  "trimRightBy P cs = rev (trimLeftBy P (rev cs))"

definition unchunk :: "(rune \<times> string) list \<Rightarrow> string" where
  "unchunk cs = concat (map snd cs)"

definition inSet :: "string \<Rightarrow> rune \<Rightarrow> bool" where
  "inSet cutset r \<longleftrightarrow> r \<in> set (runes cutset)"

definition TrimLeft :: "string \<Rightarrow> string \<Rightarrow> string" where
  "TrimLeft s cutset = unchunk (trimLeftBy (inSet cutset) (chunks s))"

definition TrimRight :: "string \<Rightarrow> string \<Rightarrow> string" where
  "TrimRight s cutset = unchunk (trimRightBy (inSet cutset) (chunks s))"

definition Trim :: "string \<Rightarrow> string \<Rightarrow> string" where
  "Trim s cutset = unchunk (trimRightBy (inSet cutset) (trimLeftBy (inSet cutset) (chunks s)))"

definition TrimSpaces :: "unicode \<Rightarrow> string \<Rightarrow> string" where
  "TrimSpaces U s = unchunk (trimRightBy (IsSpace U) (trimLeftBy (IsSpace U) (chunks s)))"

section \<open>Numbers in other bases\<close>

definition digitChar :: "nat \<Rightarrow> char" where
  "digitChar d = char_of (if d < 10 then 48 + d else 87 + d)"

fun digits_in :: "nat \<Rightarrow> nat \<Rightarrow> string" where
  "digits_in b n = (if b < 2 \<or> n < b then [digitChar n] else digits_in b (n div b) @ [digitChar (n mod b)])"

declare digits_in.simps [simp del]

text \<open>\<open>strconv.FormatInt(w, b)\<close>\<close>

definition FormatBase :: "64 word \<Rightarrow> nat \<Rightarrow> string" where
  "FormatBase w b =
     (if sint w < 0 then CHR ''-'' # digits_in b (nat (- sint w)) else digits_in b (nat (sint w)))"

text \<open>Two hexadecimal digits, and the value of one.\<close>

definition hex2 :: "byte \<Rightarrow> string" where
  "hex2 b = [digitChar (unat b div 16), digitChar (unat b mod 16)]"

definition hex_val :: "char \<Rightarrow> nat option" where
  "hex_val c =
     (let n = of_char c in
      if 48 \<le> n \<and> n \<le> 57 then Some (n - 48)
      else if 97 \<le> n \<and> n \<le> 102 then Some (n - 87)
      else if 65 \<le> n \<and> n \<le> 70 then Some (n - 55)
      else None)"

text \<open>\<open>strings.Repeat\<close> panics (\<open>None\<close>) on a negative count and when the length overflows.\<close>

definition Repeat :: "string \<Rightarrow> int \<Rightarrow> string option" where
  "Repeat s n =
     (if n < 0 \<or> int (length s) * n \<ge> 2 ^ 63 then None else Some (concat (replicate (nat n) s)))"

section \<open>Laws\<close>

lemma Join_append: "xs \<noteq> [] \<Longrightarrow> Join (xs @ [y]) sep = Join xs sep @ sep @ y"
  by (induction xs sep rule: Join.induct) auto

lemma Index_Some:
  "Index s sep = Some i \<Longrightarrow> take (length sep) (drop i s) = sep \<and> i + length sep \<le> length s"
proof (induction s arbitrary: i)
  case Nil
  then show ?case by (subst (asm) Index.simps) (auto split: if_splits)
next
  case (Cons c cs)
  show ?case
  proof (cases "take (length sep) (c # cs) = sep")
    case True
    have "length sep \<le> length (c # cs)" using arg_cong [OF True, of length] by simp
    then show ?thesis using Cons.prems True by (subst (asm) Index.simps) auto
  next
    case False
    then show ?thesis using Cons by (subst (asm) (2) Index.simps) auto
  qed
qed

text \<open>Splitting and joining with the same separator gives the string back.\<close>

lemma Join_split: "Join (splitFrom sep s) sep = s"
proof (induction sep s rule: splitFrom.induct)
  case (1 sep s)
  show ?case
  proof (cases "sep = [] \<or> Index s sep = None")
    case True
    then show ?thesis by (subst splitFrom.simps) auto
  next
    case False
    then obtain i where i: "Index s sep = Some i" "sep \<noteq> []" by auto
    note I = Index_Some [OF i(1)]
    have r: "splitFrom sep s = take i s # splitFrom sep (drop (i + length sep) s)"
      using i I by (subst splitFrom.simps) simp
    have ne: "splitFrom sep t \<noteq> []" for t by (subst splitFrom.simps) (auto split: option.split)
    have ih: "Join (splitFrom sep (drop (i + length sep) s)) sep = drop (i + length sep) s"
      using 1 [of i] i I by simp
    obtain y ys where y: "splitFrom sep (drop (i + length sep) s) = y # ys"
      using ne by (cases "splitFrom sep (drop (i + length sep) s)") auto
    have "Join (splitFrom sep s) sep = take i s @ sep @ drop (i + length sep) s"
      using ih by (simp add: r y)
    also have "\<dots> = take i s @ take (length sep) (drop i s) @ drop (length sep) (drop i s)"
      using I by (simp add: add.commute)
    finally show ?thesis by (simp only: append_take_drop_id)
  qed
qed

end
