(* ===== verification/Pattern.thy ===== *)
theory Pattern
  imports GoStrings
begin

text \<open>
  The two pattern matchers of the evaluator (\<open>sqlLikeMatch\<close> and \<open>globMatchRunes\<close> in
  \<open>internal/engine/executor/eval.go\<close>), and what they compute: a pattern is a sequence of items, and a
  string matches when it can be cut into parts that the items accept one by one.
\<close>

section \<open>The matchers\<close>

text \<open>The loop of \<open>sqlLikeMatch\<close> over what is left of the two rune slices. The recursive call encodes
  both and decodes them again.\<close>

function likeLoop :: "rune \<Rightarrow> rune list \<Rightarrow> rune list \<Rightarrow> bool" where
  "likeLoop esc s [] = (s = [])"
| "likeLoop esc s (pc # ps) =
     (if pc = esc \<and> ps \<noteq> [] then s \<noteq> [] \<and> hd s = hd ps \<and> likeLoop esc (tl s) (tl ps)
      else if pc = R (CHR ''%'') then
        ps = [] \<or> list_ex (\<lambda>i. likeLoop esc (runes (utf8s (drop i s))) (runes (utf8s ps))) [0..<Suc (length s)]
      else if pc = R (CHR ''_'') then s \<noteq> [] \<and> likeLoop esc (tl s) ps
      else s \<noteq> [] \<and> hd s = pc \<and> likeLoop esc (tl s) ps)"
  by pat_completeness auto
termination by (relation "measure (\<lambda>(_, _, ps). length ps)") (auto simp: runes_utf8s)

definition sqlLikeMatch :: "string \<Rightarrow> string \<Rightarrow> rune \<Rightarrow> bool" where
  "sqlLikeMatch str pattern esc = likeLoop esc (runes str) (runes pattern)"

text \<open>The loop over a bracket expression: whether the rune is in it, and the pattern behind it.\<close>

function globClass :: "rune \<Rightarrow> bool \<Rightarrow> rune list \<Rightarrow> bool \<times> rune list" where
  "globClass r matched ps =
     (if ps = [] then (matched, [])
      else if hd ps = R (CHR '']'') then (matched, tl ps)
      else if length ps \<ge> 3 \<and> ps ! 1 = R (CHR ''-'')
      then globClass r (matched \<or> ps ! 0 \<le> r \<and> r \<le> ps ! 2) (drop 3 ps)
      else globClass r (matched \<or> r = hd ps) (tl ps))"
  by pat_completeness auto
termination by (relation "measure (\<lambda>(_, _, ps). length ps)") auto

declare globClass.simps [simp del]

definition negated :: "rune list \<Rightarrow> bool" where
  "negated ps \<longleftrightarrow> ps \<noteq> [] \<and> hd ps = R (CHR ''^'')"

lemma globClass_length: "length (snd (globClass r m ps)) \<le> length ps"
proof (induction r m ps rule: globClass.induct)
  case (1 r m ps)
  then show ?case by (subst globClass.simps) (auto simp: Let_def)
qed

function globMatchRunes :: "rune list \<Rightarrow> rune list \<Rightarrow> bool" where
  "globMatchRunes s [] = (s = [])"
| "globMatchRunes s (pc # ps) =
     (if pc = R (CHR ''*'') then
        ps = [] \<or> list_ex (\<lambda>i. globMatchRunes (drop i s) ps) [0..<Suc (length s)]
      else if pc = R (CHR ''?'') then s \<noteq> [] \<and> globMatchRunes (tl s) ps
      else if pc = R (CHR ''['') then
        s \<noteq> [] \<and>
        fst (globClass (hd s) False (if negated ps then tl ps else ps)) \<noteq> negated ps \<and>
        globMatchRunes (tl s) (snd (globClass (hd s) False (if negated ps then tl ps else ps)))
      else s \<noteq> [] \<and> hd s = pc \<and> globMatchRunes (tl s) ps)"
  by pat_completeness auto
termination
proof (relation "measure (\<lambda>(_, ps). length ps)", goal_cases)
  case (4 s pc ps)
  show ?case using globClass_length [of "hd s" False "if negated ps then tl ps else ps"] by (auto split: if_splits)
qed auto

section \<open>Patterns as items\<close>

datatype item = AnySeq | AnyOne | Lit rune | OneOf bool "(rune \<times> rune) list"

fun accepts :: "item \<Rightarrow> rune list \<Rightarrow> bool" where
  "accepts AnySeq w = True"
| "accepts AnyOne w = (length w = 1)"
| "accepts (Lit r) w = (w = [r])"
| "accepts (OneOf neg rs) w = (\<exists>r. w = [r] \<and> (\<exists>(lo, hi) \<in> set rs. lo \<le> r \<and> r \<le> hi) \<noteq> neg)"

definition item_match :: "item list \<Rightarrow> rune list \<Rightarrow> bool" where
  "item_match is s \<longleftrightarrow> (\<exists>ws. s = concat ws \<and> list_all2 accepts is ws)"

function likeItems :: "rune \<Rightarrow> rune list \<Rightarrow> item list" where
  "likeItems esc [] = []"
| "likeItems esc (pc # ps) =
     (if pc = esc \<and> ps \<noteq> [] then Lit (hd ps) # likeItems esc (tl ps)
      else (if pc = R (CHR ''%'') then AnySeq else if pc = R (CHR ''_'') then AnyOne else Lit pc) # likeItems esc ps)"
  by pat_completeness auto
termination by (relation "measure (\<lambda>(_, ps). length ps)") auto

text \<open>The ranges of a bracket expression.\<close>

function classRanges :: "rune list \<Rightarrow> (rune \<times> rune) list \<times> rune list" where
  "classRanges ps =
     (if ps = [] then ([], [])
      else if hd ps = R (CHR '']'') then ([], tl ps)
      else if length ps \<ge> 3 \<and> ps ! 1 = R (CHR ''-'')
      then let (rs, qs) = classRanges (drop 3 ps) in ((ps ! 0, ps ! 2) # rs, qs)
      else let (rs, qs) = classRanges (tl ps) in ((hd ps, hd ps) # rs, qs))"
  by pat_completeness auto
termination by (relation "measure length") auto

declare classRanges.simps [simp del]

lemma classRanges_length: "length (snd (classRanges ps)) \<le> length ps"
proof (induction ps rule: classRanges.induct)
  case (1 ps)
  then show ?case by (subst classRanges.simps) (auto simp: split_beta Let_def)
qed

function globItems :: "rune list \<Rightarrow> item list" where
  "globItems [] = []"
| "globItems (pc # ps) =
     (if pc = R (CHR ''*'') then AnySeq # globItems ps
      else if pc = R (CHR ''?'') then AnyOne # globItems ps
      else if pc = R (CHR ''['') then
        OneOf (negated ps) (fst (classRanges (if negated ps then tl ps else ps)))
        # globItems (snd (classRanges (if negated ps then tl ps else ps)))
      else Lit pc # globItems ps)"
  by pat_completeness auto
termination
proof (relation "measure length", goal_cases)
  case (4 pc ps)
  show ?case using classRanges_length [of "if negated ps then tl ps else ps"] by (auto split: if_splits)
qed auto

section \<open>Matching items\<close>

lemma item_match_Nil [simp]: "item_match [] s \<longleftrightarrow> s = []"
  by (auto simp: item_match_def)

lemma item_match_Cons: "item_match (it # is) s \<longleftrightarrow> (\<exists>w t. s = w @ t \<and> accepts it w \<and> item_match is t)"
proof
  assume "item_match (it # is) s"
  then obtain w ws where "s = w @ concat ws" "accepts it w" "list_all2 accepts is ws"
    by (auto simp: item_match_def list_all2_Cons1)
  then show "\<exists>w t. s = w @ t \<and> accepts it w \<and> item_match is t"
    unfolding item_match_def by blast
next
  assume "\<exists>w t. s = w @ t \<and> accepts it w \<and> item_match is t"
  then obtain w ws where "s = w @ concat ws" "accepts it w" "list_all2 accepts is ws"
    by (auto simp: item_match_def)
  then have "s = concat (w # ws) \<and> list_all2 accepts (it # is) (w # ws)" by simp
  then show "item_match (it # is) s" unfolding item_match_def by blast
qed

lemma item_match_AnySeq: "item_match (AnySeq # is) s \<longleftrightarrow> (\<exists>i \<le> length s. item_match is (drop i s))"
proof
  assume "item_match (AnySeq # is) s"
  then obtain w t where "s = w @ t" "item_match is t" by (auto simp: item_match_Cons)
  then show "\<exists>i \<le> length s. item_match is (drop i s)" by (intro exI [of _ "length w"]) simp
next
  assume "\<exists>i \<le> length s. item_match is (drop i s)"
  then show "item_match (AnySeq # is) s"
    by (auto simp: item_match_Cons) (metis append_take_drop_id)
qed

lemma item_match_one:
  assumes "it \<noteq> AnySeq"
  shows "item_match (it # is) s \<longleftrightarrow> s \<noteq> [] \<and> accepts it [hd s] \<and> item_match is (tl s)"
proof -
  have "\<exists>r. w = [r]" if "accepts it w" for w
    using that assms by (cases it) (auto simp: length_Suc_conv)
  note one = this
  show ?thesis
  proof
    assume "item_match (it # is) s"
    then obtain w t where w: "s = w @ t" "accepts it w" "item_match is t" by (auto simp: item_match_Cons)
    then show "s \<noteq> [] \<and> accepts it [hd s] \<and> item_match is (tl s)" using one [OF w(2)] by auto
  next
    assume "s \<noteq> [] \<and> accepts it [hd s] \<and> item_match is (tl s)"
    moreover from this have "s = [hd s] @ tl s" by simp
    ultimately show "item_match (it # is) s" unfolding item_match_Cons by blast
  qed
qed

lemma ex_upto: "list_ex P [0..<Suc n] \<longleftrightarrow> (\<exists>i \<le> n. P i)"
  by (simp only: list_ex_iff set_upt atLeastLessThan_iff less_Suc_eq_le le0 simp_thms Bex_def)

lemma item_match_all: "item_match [AnySeq] s"
  by (auto simp: item_match_AnySeq intro: exI [of _ "length s"])

section \<open>The matchers decide the patterns\<close>

lemma likeLoop_items:
  assumes "\<forall>r \<in> set ps. valid_rune r" and "\<forall>r \<in> set s. valid_rune r"
  shows "likeLoop esc s ps \<longleftrightarrow> item_match (likeItems esc ps) s"
  using assms
proof (induction esc s ps rule: likeLoop.induct)
  case (2 esc s pc ps)
  have v: "map as_valid xs = xs" if "\<forall>r \<in> set xs. valid_rune r" for xs
    using that by (induction xs) (auto simp: as_valid_def)
  have ps: "\<forall>r \<in> set ps. valid_rune r" "runes (utf8s ps) = ps"
    using 2(5) v [of ps] by (simp_all add: runes_utf8s)
  have tails: "\<forall>r \<in> set (tl ps). valid_rune r" "\<forall>r \<in> set (tl s). valid_rune r"
    using 2(5) by (cases ps; simp) (use 2(6) in \<open>cases s; simp\<close>)
  have dr: "\<forall>r \<in> set (drop i s). valid_rune r" "runes (utf8s (drop i s)) = drop i s" for i
    using 2(6) v [of "drop i s"] by (auto simp: runes_utf8s dest: in_set_dropD)
  consider (esc) "pc = esc" "ps \<noteq> []" | (all) "\<not> (pc = esc \<and> ps \<noteq> [])" "pc = R (CHR ''%'')"
    | (one) "\<not> (pc = esc \<and> ps \<noteq> [])" "pc = R (CHR ''_'')"
    | (lit) "\<not> (pc = esc \<and> ps \<noteq> [])" "pc \<noteq> R (CHR ''%'')" "pc \<noteq> R (CHR ''_'')" by blast
  then show ?case
  proof cases
    case esc
    then show ?thesis using 2(1) tails by (simp add: item_match_one)
  next
    case all
    have ih: "likeLoop esc (drop i s) ps \<longleftrightarrow> item_match (likeItems esc ps) (drop i s)" if "ps \<noteq> []" "i \<le> length s" for i
      using 2(2) [of i] all that ps dr [of i] by (auto simp: le_less)
    show ?thesis
    proof (cases "ps = []")
      case True
      then show ?thesis using all item_match_all [of s] by simp
    next
      case False
      with all have "likeLoop esc s (pc # ps) \<longleftrightarrow> (\<exists>i \<le> length s. likeLoop esc (drop i s) ps)"
        by (simp add: ex_upto ps dr del: upt_Suc)
      also have "\<dots> \<longleftrightarrow> item_match (AnySeq # likeItems esc ps) s"
        using ih [OF False] by (auto simp: item_match_AnySeq)
      also have "AnySeq # likeItems esc ps = likeItems esc (pc # ps)" using all by auto
      finally show ?thesis .
    qed
  next
    case one
    then have "likeItems esc (pc # ps) = AnyOne # likeItems esc ps" "R (CHR ''_'') \<noteq> R (CHR ''%'')" by auto
    moreover have "likeLoop esc s (pc # ps) \<longleftrightarrow> s \<noteq> [] \<and> likeLoop esc (tl s) ps" using one by auto
    moreover have "likeLoop esc (tl s) ps \<longleftrightarrow> item_match (likeItems esc ps) (tl s)" using one 2(3) tails ps by auto
    ultimately show ?thesis by (simp only: item_match_one item.distinct not_False_eq_True accepts.simps) simp
  next
    case lit
    then have "likeItems esc (pc # ps) = Lit pc # likeItems esc ps" by auto
    moreover have "likeLoop esc s (pc # ps) \<longleftrightarrow> s \<noteq> [] \<and> hd s = pc \<and> likeLoop esc (tl s) ps" using lit by auto
    moreover have "likeLoop esc (tl s) ps \<longleftrightarrow> item_match (likeItems esc ps) (tl s)" using lit 2(4) tails ps by auto
    ultimately show ?thesis by (simp only: item_match_one item.distinct not_False_eq_True accepts.simps) simp
  qed
qed simp

lemma globClass_ranges:
  "globClass r m ps = (m \<or> (\<exists>(lo, hi) \<in> set (fst (classRanges ps)). lo \<le> r \<and> r \<le> hi), snd (classRanges ps))"
proof (induction r m ps rule: globClass.induct)
  case (1 r m ps)
  then show ?case
    by (subst globClass.simps, subst (1 2) classRanges.simps)
      (auto simp: split_beta Let_def)
qed

lemma globMatch_items: "globMatchRunes s ps \<longleftrightarrow> item_match (globItems ps) s"
proof (induction s ps rule: globMatchRunes.induct)
  case (2 s pc ps)
  consider (all) "pc = R (CHR ''*'')" | (one) "pc = R (CHR ''?'')" | (cls) "pc = R (CHR ''['')"
    | (lit) "pc \<noteq> R (CHR ''*'')" "pc \<noteq> R (CHR ''?'')" "pc \<noteq> R (CHR ''['')" by blast
  then show ?case
  proof cases
    case all
    show ?thesis
    proof (cases "ps = []")
      case True
      then show ?thesis using all item_match_all [of s] by simp
    next
      case False
      have ih: "globMatchRunes (drop i s) ps \<longleftrightarrow> item_match (globItems ps) (drop i s)" if "i \<le> length s" for i
        using 2(1) [of i] all False that by (auto simp: le_less)
      from all False have "globMatchRunes s (pc # ps) \<longleftrightarrow> (\<exists>i \<le> length s. globMatchRunes (drop i s) ps)"
        by (simp add: ex_upto del: upt_Suc)
      also have "\<dots> \<longleftrightarrow> item_match (AnySeq # globItems ps) s"
        using ih by (auto simp: item_match_AnySeq)
      finally show ?thesis using all by simp
    qed
  next
    case one
    then show ?thesis using 2(2) by (simp add: item_match_one)
  next
    case cls
    then show ?thesis using 2(3) by (simp add: item_match_one globClass_ranges)
  next
    case lit
    then show ?thesis using 2(4) by (simp add: item_match_one)
  qed
qed simp

end
