(* ===== verification/Eval.thy ===== *)
theory Eval
  imports Ast Schema Float Pattern
begin

text \<open>
  The evaluator of expressions (\<open>internal/engine/executor/eval.go\<close>), first part: its context, the calling
  convention of its functions, and the operators on values. A Go function that gives \<open>(*Value, error)\<close>
  gives a pair of a pointer and an error; a pointer may be nil even without an error. Dereferencing
  nil and the failed bound checks panic, which no caller recovers from: the whole call is \<open>None\<close>.

  Clocks, random numbers and the order in which Go ranges over a map are not determined by the
  program. They are functions of the number of earlier such requests, which every evaluation passes
  on.
\<close>

section \<open>The outside world\<close>

record evalEnv =
  evLib :: golib
  evUni :: unicode
  fmtFloat :: "char \<Rightarrow> int \<Rightarrow> 64 word \<Rightarrow> string"
  SprintfInt :: "string \<Rightarrow> 64 word \<Rightarrow> string"
  SprintfReal :: "string \<Rightarrow> 64 word \<Rightarrow> string"
  math1 :: "string \<Rightarrow> 64 word \<Rightarrow> 64 word"
  Pow :: "64 word \<Rightarrow> 64 word \<Rightarrow> 64 word"
  Atan2 :: "64 word \<Rightarrow> 64 word \<Rightarrow> 64 word"
  rxCompile :: "string \<Rightarrow> bool"
  rxMatch :: "string \<Rightarrow> string \<Rightarrow> bool"
  rxFind :: "string \<Rightarrow> string \<Rightarrow> string"
  rxReplace :: "string \<Rightarrow> string \<Rightarrow> string \<Rightarrow> string"
  Int63 :: "nat \<Rightarrow> 64 word"
  Intn256 :: "nat \<Rightarrow> byte"
  nowUnix :: "nat \<Rightarrow> 64 word"
  nowFormat :: "nat \<Rightarrow> string \<Rightarrow> string"
  rangeOrder :: "nat \<Rightarrow> string list \<Rightarrow> string list"

section \<open>Calls\<close>

type_synonym 'a ev = "nat \<Rightarrow> ('a \<times> nat) option"

type_synonym vptr = "Value option"

type_synonym vres = "vptr \<times> err option"

definition panics :: "'a ev" where "panics = (\<lambda>n. None)"
definition giveV :: "'a \<Rightarrow> 'a ev" where "giveV x = (\<lambda>n. Some (x, n))"
definition ptr :: "vptr \<Rightarrow> vres ev" where "ptr p = giveV (p, None)"
definition ret :: "Value \<Rightarrow> vres ev" where "ret v = ptr (Some v)"
definition fails :: "err \<Rightarrow> vres ev" where "fails e = giveV (None, Some e)"

definition bindV :: "'a ev \<Rightarrow> ('a \<Rightarrow> 'b ev) \<Rightarrow> 'b ev" where
  "bindV m k = (\<lambda>n. case m n of None \<Rightarrow> None | Some (x, n') \<Rightarrow> k x n')"

text \<open>One request to the outside world.\<close>

definition ask :: "(nat \<Rightarrow> 'a) \<Rightarrow> 'a ev" where "ask f = (\<lambda>n. Some (f n, n + 1))"

text \<open>\<open>v, err := m; if err != nil { return nil, err }\<close>, and \<open>v, _ := m\<close>\<close>

definition tryP :: "vres ev \<Rightarrow> (vptr \<Rightarrow> vres ev) \<Rightarrow> vres ev" where
  "tryP m k = bindV m (\<lambda>(p, e). case e of None \<Rightarrow> k p | Some e \<Rightarrow> fails e)"

definition ignoring :: "vres ev \<Rightarrow> (vptr \<Rightarrow> 'a ev) \<Rightarrow> 'a ev" where
  "ignoring m k = bindV m (\<lambda>(p, _). k p)"

definition deref :: "vptr \<Rightarrow> (Value \<Rightarrow> 'a ev) \<Rightarrow> 'a ev" where
  "deref p k = (case p of None \<Rightarrow> panics | Some v \<Rightarrow> k v)"

text \<open>The same when the value is used at once.\<close>

definition tryV :: "vres ev \<Rightarrow> (Value \<Rightarrow> vres ev) \<Rightarrow> vres ev" where
  "tryV m k = tryP m (\<lambda>p. deref p k)"

definition ignoringV :: "vres ev \<Rightarrow> (Value \<Rightarrow> 'a ev) \<Rightarrow> 'a ev" where
  "ignoringV m k = ignoring m (\<lambda>p. deref p k)"

text \<open>An element \<open>xs[i]\<close> and a part \<open>xs[lo:hi]\<close>; both panic out of bounds. The bound of a slice in the
  program is its length, never more of its capacity.\<close>

definition indexV :: "'a list \<Rightarrow> int \<Rightarrow> ('a \<Rightarrow> 'b ev) \<Rightarrow> 'b ev" where
  "indexV xs i k = (if 0 \<le> i \<and> i < int (length xs) then k (xs ! nat i) else panics)"

definition sliceV :: "'a list \<Rightarrow> int \<Rightarrow> int \<Rightarrow> ('a list \<Rightarrow> 'b ev) \<Rightarrow> 'b ev" where
  "sliceV xs lo hi k =
     (if 0 \<le> lo \<and> lo \<le> hi \<and> hi \<le> int (length xs) then k (slice xs (nat lo) (nat (hi - lo))) else panics)"

lemmas call_defs = panics_def giveV_def ptr_def ret_def fails_def bindV_def tryP_def ignoring_def deref_def
  tryV_def ignoringV_def

definition isNull :: "Value \<Rightarrow> bool" where "isNull v \<longleftrightarrow> vType v = ValNull"

definition boolValue :: "bool \<Rightarrow> Value" where
  "boolValue b = IntValue (if b then 1 else 0)"

definition IsTruthy :: "vptr \<Rightarrow> bool" where
  "IsTruthy p = (case p of None \<Rightarrow> False | Some v \<Rightarrow> \<not> isNull v \<and> IsTrue v)"

text \<open>The cache of \<open>cachedRegexp\<close> keeps what compiling the same pattern gives, so a lookup and a
  compilation are not told apart.\<close>

definition cachedRegexp :: "evalEnv \<Rightarrow> string \<Rightarrow> bool" where
  "cachedRegexp E pattern = rxCompile E pattern"

section \<open>Names\<close>

text \<open>A row of pointers: rows that a query computes may hold nil.\<close>

record tableBinding =
  tbSchema :: TableSchema
  tbRow :: "vptr list"
  tbRowID :: "64 word"

record EvalContext =
  cxRow :: "vptr list option"
  cxSchema :: "TableSchema option"
  cxTables :: "(string \<times> tableBinding) list option"
  cxRowID :: "64 word"

definition NewEvalContext :: "vptr list \<Rightarrow> TableSchema \<Rightarrow> EvalContext" where
  "NewEvalContext row schema = \<lparr>cxRow = Some row, cxSchema = Some schema, cxTables = None, cxRowID = 0\<rparr>"

text \<open>\<open>&EvalContext{}\<close>\<close>

definition emptyContext :: EvalContext where
  "emptyContext = \<lparr>cxRow = None, cxSchema = None, cxTables = None, cxRowID = 0\<rparr>"

text \<open>\<open>for _, binding := range ctx.Tables\<close>, over the keys in the order of one iteration.\<close>

primrec firstBinding :: "golib \<Rightarrow> string \<Rightarrow> (string \<times> tableBinding) list \<Rightarrow> string list \<Rightarrow> vptr" where
  "firstBinding G name tabs [] = Some NullValue"
| "firstBinding G name tabs (k # ks) =
     (case map_of tabs k of
        None \<Rightarrow> firstBinding G name tabs ks
      | Some b \<Rightarrow>
          (case ColumnIndex G name (tbSchema b) of
             None \<Rightarrow> firstBinding G name tabs ks
           | Some ci \<Rightarrow> if ci < length (tbRow b) then tbRow b ! ci else firstBinding G name tabs ks))"

text \<open>The part of \<open>resolveIdent\<close> behind the lookup of a qualified name.\<close>

definition resolveColumn :: "evalEnv \<Rightarrow> EvalContext \<Rightarrow> vptr list \<Rightarrow> string \<Rightarrow> vres ev" where
  "resolveColumn E ctx row name =
     (case cxSchema ctx of
        None \<Rightarrow> ret NullValue
      | Some schema \<Rightarrow>
          (case ColumnIndex (evLib E) name schema of
             None \<Rightarrow>
               (case cxTables ctx of
                  None \<Rightarrow> ret NullValue
                | Some tabs \<Rightarrow>
                    bindV (ask (\<lambda>n. rangeOrder E n (map fst tabs))) (\<lambda>ks.
                    ptr (firstBinding (evLib E) name tabs ks)))
           | Some i \<Rightarrow> if i < length row then ptr (row ! i) else ret NullValue))"

definition resolveIdent :: "evalEnv \<Rightarrow> EvalContext \<Rightarrow> string \<Rightarrow> string \<Rightarrow> vres ev" where
  "resolveIdent E ctx table name =
     (let G = evLib E
      in if ToUpper G name = ''ROWID'' \<and> table = '''' then ret (IntValue (cxRowID ctx))
         else case cxRow ctx of
           None \<Rightarrow> ret NullValue
         | Some row \<Rightarrow>
             (case (if table = '''' then None else Option.bind (cxTables ctx) (\<lambda>tabs. map_of tabs (ToLower G table))) of
                Some b \<Rightarrow>
                  (case ColumnIndex G name (tbSchema b) of
                     None \<Rightarrow> ret NullValue
                   | Some ci \<Rightarrow> if ci < length (tbRow b) then ptr (tbRow b ! ci) else ret NullValue)
              | None \<Rightarrow> resolveColumn E ctx row name))"

section \<open>Operators\<close>

definition evalUnary :: "evalEnv \<Rightarrow> string \<Rightarrow> vres ev \<Rightarrow> vres ev" where
  "evalUnary E op operand = tryP operand (\<lambda>p.
     if op = ''-'' then deref p (\<lambda>v.
       if vType v = ValInteger then ret (IntValue (- Integer v))
       else if vType v = ValReal then ret (RealValue (f_neg (Real v)))
       else ret NullValue)
     else if op = ''+'' then ptr p
     else if op = ''NOT'' then deref p (\<lambda>v.
       if isNull v then ret NullValue else ret (boolValue (\<not> IsTrue v)))
     else if op = ''~'' then deref p (\<lambda>v.
       if vType v = ValInteger then ret (IntValue (NOT (Integer v)))
       else ret (IntValue (NOT (f_to_int (ToFloat (evLib E) v)))))
     else ret NullValue)"

text \<open>\<open>iop\<close> is \<open>None\<close> where the operation on integers panics.\<close>

definition arith :: "golib \<Rightarrow> (64 word \<Rightarrow> 64 word \<Rightarrow> 64 word) \<Rightarrow> (64 word \<Rightarrow> 64 word \<Rightarrow> 64 word option) \<Rightarrow>
    Value \<Rightarrow> Value \<Rightarrow> vres ev" where
  "arith G fop iop l r =
     (if vType l = ValInteger \<and> vType r = ValInteger
      then (case iop (Integer l) (Integer r) of None \<Rightarrow> panics | Some i \<Rightarrow> ret (IntValue i))
      else ret (RealValue (fop (ToFloat G l) (ToFloat G r))))"

definition isComparison :: "string \<Rightarrow> bool" where
  "isComparison op \<longleftrightarrow> op \<in> {''='', ''!='', ''<>'', ''<'', ''<='', ''>'', ''>=''}"

text \<open>The comparison operators: \<open>c\<close> is the result of \<open>Compare\<close>.\<close>

definition holds :: "string \<Rightarrow> int \<Rightarrow> bool" where
  "holds op c =
     (if op = ''='' then c = 0 else if op = ''!='' \<or> op = ''<>'' then c \<noteq> 0
      else if op = ''<'' then c < 0 else if op = ''<='' then c \<le> 0
      else if op = ''>'' then c > 0 else c \<ge> 0)"

text \<open>A shift by the word's length or more leaves no bits of the argument.\<close>

definition shl :: "64 word \<Rightarrow> 64 word \<Rightarrow> 64 word" where
  "shl a k = (if unat k < 64 then push_bit (unat k) a else 0)"

definition sar :: "64 word \<Rightarrow> 64 word \<Rightarrow> 64 word" where
  "sar a k = signed_drop_bit (min (unat k) 63) a"

text \<open>The operators but \<open>AND\<close>, \<open>OR\<close> and the comparisons, on two values.\<close>

definition isOperator :: "string \<Rightarrow> bool" where
  "isOperator op \<longleftrightarrow> op \<in> {''+'', ''-'', ''*'', ''/'', ''%'', ''||'', ''&'', ''|'', ''<<'', ''>>'', ''REGEXP''}"

definition binaryValue :: "evalEnv \<Rightarrow> string \<Rightarrow> Value \<Rightarrow> Value \<Rightarrow> vres ev" where
  "binaryValue E op l r =
     (let G = evLib E; num = (\<lambda>v. f_to_int (ToFloat G v)); sh = (\<lambda>v. f_to_uint (ToFloat G v))
      in if op = ''+'' then arith G f_add (\<lambda>a b. Some (a + b)) l r
         else if op = ''-'' then arith G f_sub (\<lambda>a b. Some (a - b)) l r
         else if op = ''*'' then arith G f_mul (\<lambda>a b. Some (a * b)) l r
         else if op = ''/'' then
           (if vType r = ValInteger \<and> Integer r = 0 \<or> vType r = ValReal \<and> f_eq (Real r) 0 then ret NullValue
            else arith G f_div int_div l r)
         else if op = ''%'' then
           (if vType r = ValInteger \<and> Integer r = 0 then ret NullValue
            else arith G f_mod int_mod l r)
         else if op = ''||'' then
           (if isNull l \<or> isNull r then ret NullValue else ret (TextValue (value_String G l @ value_String G r)))
         else if op = ''&'' then ret (IntValue (num l AND num r))
         else if op = ''|'' then ret (IntValue (num l OR num r))
         else if op = ''<<'' then ret (IntValue (shl (num l) (sh r)))
         else if op = ''>>'' then ret (IntValue (sar (num l) (sh r)))
         else if op = ''REGEXP'' then
           ret (boolValue (cachedRegexp E (value_String G r) \<and> rxMatch E (value_String G r) (value_String G l)))
         else giveV (Some NullValue, Some (ErrUnknown op)))"

text \<open>\<open>evalBinary\<close> behind the evaluation of both sides. The value of the right side is not looked at
  when the left is NULL and the operator is a comparison, \<open>||\<close> or unknown.\<close>

definition binaryOp :: "evalEnv \<Rightarrow> string \<Rightarrow> Value \<Rightarrow> vptr \<Rightarrow> vres ev" where
  "binaryOp E op l q =
     (if isNull l \<and> (isComparison op \<or> op = ''||'') then ret NullValue
      else if isNull l \<and> \<not> isOperator op then giveV (Some NullValue, Some (ErrUnknown op))
      else deref q (\<lambda>r.
        if isComparison op
        then (if isNull r then ret NullValue else ret (boolValue (holds op (value_Compare (evLib E) l r))))
        else binaryValue E op l r))"

definition evalBinary :: "evalEnv \<Rightarrow> string \<Rightarrow> vres ev \<Rightarrow> vres ev \<Rightarrow> vres ev" where
  "evalBinary E op lhs rhs =
     (if op = ''AND'' then
        tryV lhs (\<lambda>l.
          if \<not> IsTrue l \<and> \<not> isNull l then ret (IntValue 0)
          else tryP rhs (\<lambda>q.
            if isNull l then ret NullValue
            else deref q (\<lambda>r. if isNull r then ret NullValue else ret (boolValue (IsTrue l \<and> IsTrue r)))))
      else if op = ''OR'' then
        tryV lhs (\<lambda>l.
          if IsTrue l then ret (IntValue 1)
          else tryV rhs (\<lambda>r.
            if IsTrue r then ret (IntValue 1)
            else if isNull l \<or> isNull r then ret NullValue
            else ret (IntValue 0)))
      else tryP lhs (\<lambda>p. tryP rhs (\<lambda>q. deref p (\<lambda>l. binaryOp E op l q))))"

text \<open>The loop of \<open>evalIn\<close> over the list.\<close>

primrec inList :: "golib \<Rightarrow> Value \<Rightarrow> bool \<Rightarrow> vres ev list \<Rightarrow> vres ev" where
  "inList G v isNot [] = ret (boolValue isNot)"
| "inList G v isNot (m # ms) =
     tryV m (\<lambda>item. if value_Compare G v item = 0 then ret (boolValue (\<not> isNot)) else inList G v isNot ms)"

definition evalIn :: "evalEnv \<Rightarrow> vres ev \<Rightarrow> vres ev list \<Rightarrow> bool \<Rightarrow> vres ev" where
  "evalIn E operand items isNot =
     tryV operand (\<lambda>v. if isNull v then ret NullValue else inList (evLib E) v isNot items)"

definition evalLike :: "evalEnv \<Rightarrow> vres ev \<Rightarrow> vres ev \<Rightarrow> vres ev option \<Rightarrow> bool \<Rightarrow> vres ev" where
  "evalLike E operand pattern escape isNot =
     (let G = evLib E;
          match = (\<lambda>v pat esc. ret (boolValue
            (sqlLikeMatch (ToLower G (value_String G v)) (ToLower G (value_String G pat)) esc \<noteq> isNot)))
      in tryP operand (\<lambda>p. tryP pattern (\<lambda>q. deref p (\<lambda>v.
         if isNull v then ret NullValue
         else deref q (\<lambda>pat.
           if isNull pat then ret NullValue
           else case escape of
             None \<Rightarrow> match v pat 92
           | Some m \<Rightarrow> tryV m (\<lambda>escVal.
               match v pat (if \<not> isNull escVal \<and> Text escVal \<noteq> [] then DecodeRune (Text escVal) else 92)))))))"

definition evalGlob :: "evalEnv \<Rightarrow> vres ev \<Rightarrow> vres ev \<Rightarrow> bool \<Rightarrow> vres ev" where
  "evalGlob E operand pattern isNot =
     (let G = evLib E
      in tryP operand (\<lambda>p. tryP pattern (\<lambda>q. deref p (\<lambda>v.
         if isNull v then ret NullValue
         else deref q (\<lambda>pat.
           if isNull pat then ret NullValue
           else ret (boolValue (globMatchRunes (runes (value_String G v)) (runes (value_String G pat)) \<noteq> isNot)))))))"

definition evalBetween :: "evalEnv \<Rightarrow> vres ev \<Rightarrow> vres ev \<Rightarrow> vres ev \<Rightarrow> bool \<Rightarrow> vres ev" where
  "evalBetween E operand low high isNot =
     (let G = evLib E
      in tryP operand (\<lambda>p. tryP low (\<lambda>l. tryP high (\<lambda>h. deref p (\<lambda>v.
         if isNull v then ret NullValue
         else deref l (\<lambda>lo.
           if value_Compare G v lo < 0 then ret (boolValue isNot)
           else deref h (\<lambda>hi. ret (boolValue ((value_Compare G v hi \<le> 0) \<noteq> isNot)))))))))"

text \<open>The loop of \<open>evalCase\<close>; \<open>base\<close> is nil when there is no base or when it evaluates to nil.\<close>

primrec caseLoop :: "golib \<Rightarrow> vptr \<Rightarrow> (vres ev \<times> vres ev) list \<Rightarrow> vres ev option \<Rightarrow> vres ev" where
  "caseLoop G base [] els = (case els of None \<Rightarrow> ret NullValue | Some m \<Rightarrow> m)"
| "caseLoop G base (w # ws) els =
     tryP (fst w) (\<lambda>c.
       case base of
         None \<Rightarrow> if IsTruthy c then snd w else caseLoop G base ws els
       | Some b \<Rightarrow> deref c (\<lambda>cond.
           if value_Compare G b cond = 0 then snd w else caseLoop G base ws els))"

definition evalCase :: "evalEnv \<Rightarrow> vres ev option \<Rightarrow> (vres ev \<times> vres ev) list \<Rightarrow> vres ev option \<Rightarrow> vres ev" where
  "evalCase E base whens els =
     (case base of
        None \<Rightarrow> caseLoop (evLib E) None whens els
      | Some m \<Rightarrow> tryP m (\<lambda>b. caseLoop (evLib E) b whens els))"

definition evalCast :: "evalEnv \<Rightarrow> vres ev \<Rightarrow> string \<Rightarrow> vres ev" where
  "evalCast E m ty = tryP m (\<lambda>p.
     let c = NormalizeType (evLib E) ty
     in if p = None \<and> c = TypeBlob then ptr None
        else deref p (\<lambda>v. case CoerceValue (evLib E) v c of Inl e \<Rightarrow> fails e | Inr w \<Rightarrow> ret w))"

definition evalIsNull :: "vres ev \<Rightarrow> bool \<Rightarrow> vres ev" where
  "evalIsNull m isNot = tryV m (\<lambda>v. ret (boolValue (isNull v \<noteq> isNot)))"

end
