(* ===== verification/Functions.thy ===== *)
theory Functions
  imports Eval
begin

text \<open>
  The built-in functions (\<open>evalFunc\<close> in \<open>internal/engine/executor/eval.go\<close>). An argument is the
  evaluation of its expression, run where the code calls \<open>EvalExpr\<close>. Each definition below is a run
  of consecutive cases of the switch; it is \<open>None\<close> for the names of the other cases.
\<close>

type_synonym args = "vres ev list"

text \<open>\<open>e.Args[i]\<close>\<close>

definition argAt :: "args \<Rightarrow> nat \<Rightarrow> vres ev" where
  "argAt as i = (if i < length as then as ! i else panics)"

definition requireArg :: "args \<Rightarrow> nat \<Rightarrow> vres ev \<Rightarrow> vres ev" where
  "requireArg as n k = (if length as \<ge> n then k else ret NullValue)"

text \<open>The argument with its error passed on or ignored, used at once.\<close>

definition arg :: "args \<Rightarrow> nat \<Rightarrow> (Value \<Rightarrow> vres ev) \<Rightarrow> vres ev" where
  "arg as i k = tryV (argAt as i) k"

definition arg' :: "args \<Rightarrow> nat \<Rightarrow> (Value \<Rightarrow> 'a ev) \<Rightarrow> 'a ev" where
  "arg' as i k = ignoringV (argAt as i) k"

definition nullOr :: "Value \<Rightarrow> vres ev \<Rightarrow> vres ev" where
  "nullOr v k = (if isNull v then ret NullValue else k)"

definition textV :: "string \<Rightarrow> vres ev" where "textV s = ret (TextValue s)"
definition realV :: "64 word \<Rightarrow> vres ev" where "realV f = ret (RealValue f)"
definition intV :: "int \<Rightarrow> vres ev" where "intV i = ret (IntValue (word_of_int i))"

abbreviation strOf :: "evalEnv \<Rightarrow> Value \<Rightarrow> string" where "strOf E \<equiv> value_String (evLib E)"
abbreviation numOf :: "evalEnv \<Rightarrow> Value \<Rightarrow> 64 word" where "numOf E \<equiv> ToFloat (evLib E)"

text \<open>The result of \<open>None\<close> is a panic of the library.\<close>

definition textOrPanic :: "string option \<Rightarrow> vres ev" where
  "textOrPanic s = (case s of None \<Rightarrow> panics | Some s \<Rightarrow> textV s)"

section \<open>From UPPER to ABS, and the choices between arguments\<close>

definition fnCase :: "evalEnv \<Rightarrow> string \<Rightarrow> args \<Rightarrow> vres ev option" where
  "fnCase E fn as =
     (let G = evLib E
      in if fn = ''UPPER'' then Some (requireArg as 1 (arg as 0 (\<lambda>v. nullOr v (textV (ToUpper G (strOf E v))))))
         else if fn = ''LOWER'' then Some (requireArg as 1 (arg as 0 (\<lambda>v. nullOr v (textV (ToLower G (strOf E v))))))
         else if fn = ''LENGTH'' then Some (requireArg as 1 (arg as 0 (\<lambda>v. nullOr v
           (if vType v = ValBlob then intV (int (length (Blob v))) else intV (int (RuneCount (strOf E v)))))))
         else if fn = ''ABS'' then Some (requireArg as 1 (arg as 0 (\<lambda>v.
           if vType v = ValInteger then (if Integer v <s 0 then ret (IntValue (- Integer v)) else ret v)
           else if vType v = ValReal then realV (f_abs (Real v))
           else ret NullValue)))
         else None)"

primrec fnCoalesce :: "args \<Rightarrow> vres ev" where
  "fnCoalesce [] = ret NullValue"
| "fnCoalesce (m # ms) = tryV m (\<lambda>v. if \<not> isNull v then ret v else fnCoalesce ms)"

definition fnChoice :: "evalEnv \<Rightarrow> string \<Rightarrow> args \<Rightarrow> vres ev option" where
  "fnChoice E fn as =
     (if fn = ''COALESCE'' then Some (fnCoalesce as)
      else if fn = ''IFNULL'' \<or> fn = ''NVL'' then
        Some (requireArg as 2 (arg as 0 (\<lambda>v. if \<not> isNull v then ret v else argAt as 1)))
      else if fn = ''NULLIF'' then
        Some (requireArg as 2 (tryP (argAt as 0) (\<lambda>p. tryP (argAt as 1) (\<lambda>q. deref p (\<lambda>v1. deref q (\<lambda>v2.
          if value_Compare (evLib E) v1 v2 = 0 then ret NullValue else ret v1))))))
      else if fn = ''IIF'' then
        Some (requireArg as 3 (tryP (argAt as 0) (\<lambda>c. if IsTruthy c then argAt as 1 else argAt as 2)))
      else None)"

section \<open>Parts of strings\<close>

text \<open>The start of \<open>SUBSTR\<close> and its end after \<open>n\<close> more runes; the sum is a machine integer.\<close>

definition substrStart :: "nat \<Rightarrow> 64 word \<Rightarrow> int" where
  "substrStart len start = max 0 (if start <s 0 then int len + sint start else sint start - 1)"

definition substrEnd :: "nat \<Rightarrow> int \<Rightarrow> 64 word \<Rightarrow> int" where
  "substrEnd len st n = max st (min (int len) (sint (word_of_int st + n)))"

definition fnSubstr :: "evalEnv \<Rightarrow> string \<Rightarrow> args \<Rightarrow> vres ev option" where
  "fnSubstr E fn as =
     (if fn = ''SUBSTR'' \<or> fn = ''SUBSTRING'' then
        Some (requireArg as 2 (arg as 0 (\<lambda>str. nullOr str (arg as 1 (\<lambda>start.
          let s = runes (strOf E str); st = substrStart (length s) (Integer start)
          in if st \<ge> int (length s) then textV ''''
             else if length as \<ge> 3 then arg as 2 (\<lambda>n.
               sliceV s st (substrEnd (length s) st (Integer n)) (\<lambda>t. textV (utf8s t)))
             else sliceV s st (int (length s)) (\<lambda>t. textV (utf8s t)))))))
      else None)"

definition blanks :: string where "blanks = [CHR '' '', CHR 0x09, CHR 0x0A, CHR 0x0D]"

definition fnTrim :: "evalEnv \<Rightarrow> string \<Rightarrow> args \<Rightarrow> vres ev option" where
  "fnTrim E fn as =
     (let trim = (\<lambda>f dflt. Some (requireArg as 1 (arg as 0 (\<lambda>v. nullOr v
            (if length as \<ge> 2 then arg' as 1 (\<lambda>chars. textV (f (strOf E v) (strOf E chars))) else textV (dflt (strOf E v)))))))
      in if fn = ''TRIM'' then trim Trim (TrimSpaces (evUni E))
         else if fn = ''LTRIM'' then trim TrimLeft (\<lambda>s. TrimLeft s blanks)
         else if fn = ''RTRIM'' then trim TrimRight (\<lambda>s. TrimRight s blanks)
         else None)"

definition fnReplace :: "evalEnv \<Rightarrow> string \<Rightarrow> args \<Rightarrow> vres ev option" where
  "fnReplace E fn as =
     (if fn = ''REPLACE'' then
        Some (requireArg as 3 (arg' as 0 (\<lambda>str. ignoring (argAt as 1) (\<lambda>old. ignoring (argAt as 2) (\<lambda>new.
          nullOr str (deref old (\<lambda>old. deref new (\<lambda>new. textV (ReplaceAll (strOf E str) (strOf E old) (strOf E new)))))))))
        )
      else None)"

section \<open>Rounding, types and bytes\<close>

definition scaled :: "evalEnv \<Rightarrow> (64 word \<Rightarrow> 64 word) \<Rightarrow> args \<Rightarrow> Value \<Rightarrow> vres ev" where
  "scaled E f as v =
     (let at = (\<lambda>precision. let factor = Pow E (f_of_int 10) (f_of_int precision)
                             in realV (f_div (f (f_mul (numOf E v) factor)) factor))
      in if length as \<ge> 2 then arg' as 1 (\<lambda>p. at (Integer p)) else at 0)"

definition typeName :: "Value \<Rightarrow> string option" where
  "typeName v =
     (if vType v = ValNull then Some ''null'' else if vType v = ValInteger then Some ''integer''
      else if vType v = ValReal then Some ''real'' else if vType v = ValText then Some ''text''
      else if vType v = ValBlob then Some ''blob'' else None)"

text \<open>The loop of \<open>UNHEX\<close> over pairs of digits.\<close>

fun unhex :: "string \<Rightarrow> byte list option" where
  "unhex (a # b # s) =
     (case (hex_val a, hex_val b, unhex s) of
        (Some x, Some y, Some bs) \<Rightarrow> Some (of_nat (16 * x + y) # bs)
      | _ \<Rightarrow> None)"
| "unhex _ = Some []"

definition upper_hex :: "byte list \<Rightarrow> string" where
  "upper_hex bs = map upper_char (concat (map hex2 bs))"

definition fnRound :: "evalEnv \<Rightarrow> string \<Rightarrow> args \<Rightarrow> vres ev option" where
  "fnRound E fn as =
     (if fn = ''ROUND'' then Some (requireArg as 1 (arg as 0 (\<lambda>v. nullOr v (scaled E Round as v))))
      else if fn = ''FLOOR'' then Some (requireArg as 1 (arg' as 0 (\<lambda>v. nullOr v (realV (Floor (numOf E v))))))
      else if fn = ''CEIL'' \<or> fn = ''CEILING'' then
        Some (requireArg as 1 (arg' as 0 (\<lambda>v. nullOr v (realV (Ceil (numOf E v))))))
      else if fn = ''TYPEOF'' then Some (requireArg as 1 (arg as 0 (\<lambda>v.
        case typeName v of Some t \<Rightarrow> textV t | None \<Rightarrow> giveV (Some NullValue, Some (ErrUnknown fn)))))
      else if fn = ''HEX'' then Some (requireArg as 1 (arg' as 0 (\<lambda>v. nullOr v
        (textV (upper_hex (if vType v = ValBlob then Blob v else str_bytes (strOf E v)))))))
      else if fn = ''UNHEX'' then Some (requireArg as 1 (arg' as 0 (\<lambda>v. nullOr v
        (if odd (length (strOf E v)) then ret NullValue
         else case unhex (strOf E v) of None \<Rightarrow> ret NullValue | Some bs \<Rightarrow> ret (BlobValue bs)))))
      else None)"

text \<open>\<open>rune(v.Integer)\<close>; what is no code point is written as U+FFFD.\<close>

definition runeOf :: "64 word \<Rightarrow> rune" where
  "runeOf w = (let i = sint (ucast w :: 32 word) in if i < 0 then 0xFFFD else nat i)"

primrec charLoop :: "string \<Rightarrow> args \<Rightarrow> vres ev" where
  "charLoop sb [] = textV sb"
| "charLoop sb (m # ms) = ignoringV m (\<lambda>v. charLoop (sb @ utf8 (runeOf (Integer v))) ms)"

definition quoted :: "string \<Rightarrow> string" where
  "quoted s = [CHR 0x27] @ ReplaceAll s [CHR 0x27] [CHR 0x27, CHR 0x27] @ [CHR 0x27]"

definition fnChars :: "evalEnv \<Rightarrow> string \<Rightarrow> args \<Rightarrow> vres ev option" where
  "fnChars E fn as =
     (if fn = ''CHAR'' then Some (charLoop '''' as)
      else if fn = ''UNICODE'' then Some (requireArg as 1 (arg' as 0 (\<lambda>v.
        if isNull v \<or> Text v = [] then ret NullValue else intV (int (DecodeRune (Text v))))))
      else if fn = ''INSTR'' then Some (requireArg as 2 (arg' as 0 (\<lambda>hay. ignoring (argAt as 1) (\<lambda>q.
        nullOr hay (deref q (\<lambda>needle. nullOr needle
          (case Index (strOf E hay) (strOf E needle) of
             None \<Rightarrow> intV 0
           | Some idx \<Rightarrow> sliceV (strOf E hay) 0 (int idx) (\<lambda>s. intV (int (RuneCount s + 1))))))))))
      else if fn = ''QUOTE'' then Some (requireArg as 1 (arg' as 0 (\<lambda>v.
        if isNull v then textV ''NULL'' else if vType v = ValText then textV (quoted (Text v)) else textV (strOf E v))))
      else None)"

section \<open>PRINTF\<close>

definition printfSpec :: "evalEnv \<Rightarrow> char \<Rightarrow> vptr \<Rightarrow> (string \<Rightarrow> vres ev) \<Rightarrow> vres ev" where
  "printfSpec E c p k =
     (if c = CHR ''d'' \<or> c = CHR ''i'' then deref p (\<lambda>v. k (FormatInt (Integer v)))
      else if c = CHR ''f'' then deref p (\<lambda>v. k (fmtFloat E c 6 (numOf E v)))
      else if c = CHR ''e'' then deref p (\<lambda>v. k (fmtFloat E c 6 (numOf E v)))
      else if c = CHR ''g'' then deref p (\<lambda>v. k (fmtFloat E c (-1) (numOf E v)))
      else if c = CHR ''s'' then deref p (\<lambda>v. k (strOf E v))
      else if c = CHR ''q'' then deref p (\<lambda>v. k (quoted (strOf E v)))
      else if c = CHR ''x'' then deref p (\<lambda>v. k (FormatBase (Integer v) 16))
      else if c = CHR ''X'' then deref p (\<lambda>v. k (map upper_char (FormatBase (Integer v) 16)))
      else if c = CHR ''o'' then deref p (\<lambda>v. k (FormatBase (Integer v) 8))
      else k [CHR ''%'', c])"

text \<open>The loop over the format; \<open>sb\<close> is what was written.\<close>

fun sqlPrintf :: "evalEnv \<Rightarrow> string \<Rightarrow> string \<Rightarrow> args \<Rightarrow> vres ev" where
  "sqlPrintf E sb [] as = textV sb"
| "sqlPrintf E sb (c # cs) as =
     (if c \<noteq> CHR ''%'' then sqlPrintf E (sb @ [c]) cs as
      else case cs of
        [] \<Rightarrow> textV sb
      | d # ds \<Rightarrow>
          if d = CHR ''%'' then sqlPrintf E (sb @ [d]) ds as
          else case as of
            [] \<Rightarrow> printfSpec E d (Some NullValue) (\<lambda>s. sqlPrintf E (sb @ s) ds [])
          | m # ms \<Rightarrow> ignoring m (\<lambda>p. printfSpec E d p (\<lambda>s. sqlPrintf E (sb @ s) ds ms)))"

section \<open>Random values and blobs\<close>

text \<open>\<open>make\<close> panics on a negative length and beyond the address space.\<close>

definition maxAlloc :: int where "maxAlloc = 2 ^ 48"

definition makeBytes :: "int \<Rightarrow> byte list option" where
  "makeBytes n = (if n < 0 \<or> n > maxAlloc then None else Some (replicate (nat n) 0))"

primrec drawBytes :: "evalEnv \<Rightarrow> nat \<Rightarrow> byte list ev" where
  "drawBytes E 0 = giveV []"
| "drawBytes E (Suc n) = bindV (ask (Intn256 E)) (\<lambda>b. bindV (drawBytes E n) (\<lambda>bs. giveV (b # bs)))"

definition fnRandom :: "evalEnv \<Rightarrow> string \<Rightarrow> args \<Rightarrow> vres ev option" where
  "fnRandom E fn as =
     (if fn = ''PRINTF'' \<or> fn = ''FORMAT'' then
        Some (requireArg as 1 (arg' as 0 (\<lambda>f. nullOr f (sqlPrintf E '''' (strOf E f) (tl as)))))
      else if fn = ''RANDOM'' then Some (bindV (ask (Int63 E)) (\<lambda>w. ret (IntValue w)))
      else if fn = ''RANDOMBLOB'' then Some (requireArg as 1 (arg' as 0 (\<lambda>n.
        if Integer n \<le>s 0 then ret (BlobValue [])
        else case makeBytes (sint (Integer n)) of
               None \<Rightarrow> panics
             | Some b \<Rightarrow> bindV (drawBytes E (length b)) (\<lambda>bs. ret (BlobValue bs)))))
      else if fn = ''ZEROBLOB'' then Some (requireArg as 1 (arg' as 0 (\<lambda>n.
        case makeBytes (sint (Integer n)) of None \<Rightarrow> panics | Some b \<Rightarrow> ret (BlobValue b))))
      else None)"

section \<open>Dates\<close>

definition dateLayout :: string where "dateLayout = ''2006-01-02''"
definition timeLayout :: string where "timeLayout = ''15:04:05''"
definition stampLayout :: string where "stampLayout = ''2006-01-02 15:04:05''"

definition nowText :: "evalEnv \<Rightarrow> string \<Rightarrow> vres ev" where
  "nowText E layout = bindV (ask (\<lambda>n. nowFormat E n layout)) textV"

definition strftimeTable :: "(char \<times> string) list" where
  "strftimeTable = [(CHR ''Y'', ''2006''), (CHR ''m'', ''01''), (CHR ''d'', ''02''), (CHR ''H'', ''15''),
     (CHR ''M'', ''04''), (CHR ''S'', ''05''), (CHR ''f'', ''05.000''), (CHR ''j'', ''002'')]"

text \<open>The replacer runs over the format from left to right.\<close>

fun sqliteStrftimeToGo :: "string \<Rightarrow> string" where
  "sqliteStrftimeToGo (c # d # s) =
     (case (if c = CHR ''%'' then map_of strftimeTable d else None) of
        Some r \<Rightarrow> r @ sqliteStrftimeToGo s
      | None \<Rightarrow> c # sqliteStrftimeToGo (d # s))"
| "sqliteStrftimeToGo s = s"

text \<open>\<open>DATE\<close>, \<open>TIME\<close> and \<open>DATETIME\<close>: the time now, or a part of the argument.\<close>

definition dateOr :: "evalEnv \<Rightarrow> string \<Rightarrow> (string \<Rightarrow> vres ev) \<Rightarrow> args \<Rightarrow> vres ev" where
  "dateOr E layout k as =
     (if as = [] then nowText E layout
      else arg' as 0 (\<lambda>v. if ToLower (evLib E) (strOf E v) = ''now'' then nowText E layout else k (strOf E v)))"

text \<open>2440587.5 and 86400.0\<close>

definition julianBase :: "64 word" where "julianBase = 0x41429EC5C0000000"
definition daySeconds :: "64 word" where "daySeconds = 0x40F5180000000000"

definition fnDate :: "evalEnv \<Rightarrow> string \<Rightarrow> args \<Rightarrow> vres ev option" where
  "fnDate E fn as =
     (if fn = ''DATE'' then
        Some (dateOr E dateLayout (\<lambda>s. sliceV s 0 10 textV) as)
      else if fn = ''TIME'' then
        Some (dateOr E timeLayout (\<lambda>s. if length s \<ge> 19 then sliceV s 11 19 textV else textV s) as)
      else if fn = ''DATETIME'' then Some (dateOr E stampLayout textV as)
      else if fn = ''JULIANDAY'' then
        Some (bindV (ask (nowUnix E)) (\<lambda>t. realV (f_add julianBase (f_div (f_of_int t) daySeconds))))
      else if fn = ''UNIXEPOCH'' then Some (bindV (ask (nowUnix E)) (\<lambda>t. ret (IntValue t)))
      else if fn = ''STRFTIME'' then
        Some (if length as < 2 then nowText E stampLayout
              else arg' as 0 (\<lambda>f. arg' as 1 (\<lambda>t.
                if ToLower (evLib E) (strOf E t) = ''now'' then nowText E (sqliteStrftimeToGo (strOf E f))
                else textV (strOf E t))))
      else if fn = ''SQLITE_VERSION'' \<or> fn = ''SQLGO_VERSION'' then Some (textV ''sqlgo-3.0'')
      else if fn = ''LAST_INSERT_ROWID'' then Some (intV 0)
      else if fn = ''CHANGES'' then Some (intV 0)
      else if fn = ''TOTAL_CHANGES'' then Some (intV 0)
      else None)"

end
