(* ===== verification/Builtins.thy ===== *)
theory Builtins
  imports Functions
begin

text \<open>
  The built-in functions, second part (\<open>evalFunc\<close> in \<open>internal/engine/executor/eval.go\<close> from \<open>MAX\<close> on),
  and the switch over all of them.
\<close>

section \<open>Extremes and aggregates outside a query\<close>

text \<open>The loop of \<open>MAX\<close>, \<open>MIN\<close>, \<open>GREATEST\<close> and \<open>LEAST\<close>; the first argument may have given nil.\<close>

primrec extreme :: "golib \<Rightarrow> (int \<Rightarrow> bool) \<Rightarrow> vptr \<Rightarrow> args \<Rightarrow> vres ev" where
  "extreme G better result [] = ptr result"
| "extreme G better result (m # ms) =
     ignoringV m (\<lambda>v.
       if isNull v then extreme G better result ms
       else deref result (\<lambda>r.
         if isNull r \<or> better (value_Compare G v r) then extreme G better (Some v) ms
         else extreme G better result ms))"

definition extremeOf :: "evalEnv \<Rightarrow> (int \<Rightarrow> bool) \<Rightarrow> args \<Rightarrow> vres ev" where
  "extremeOf E better as =
     (case as of [] \<Rightarrow> ret NullValue | m # ms \<Rightarrow> ignoring m (\<lambda>p. extreme (evLib E) better p ms))"

definition fnExtreme :: "evalEnv \<Rightarrow> string \<Rightarrow> args \<Rightarrow> vres ev option" where
  "fnExtreme E fn as =
     (if fn = ''MAX'' then Some (if length as = 1 then argAt as 0 else extremeOf E (\<lambda>c. c > 0) as)
      else if fn = ''MIN'' then Some (if length as = 1 then argAt as 0 else extremeOf E (\<lambda>c. c < 0) as)
      else if fn \<in> {''COUNT'', ''SUM'', ''TOTAL'', ''AVG'', ''GROUP_CONCAT''} then Some (intV 0)
      else if fn = ''SIGN'' then Some (requireArg as 1 (arg' as 0 (\<lambda>v. nullOr v
        (if f_less (numOf E v) 0 then intV (-1) else if f_less 0 (numOf E v) then intV 1 else intV 0))))
      else None)"

section \<open>Mathematics\<close>

text \<open>The functions of one number that package \<open>math\<close> does not compute exactly, under the names Go
  gives them.\<close>

definition mathTable :: "(string \<times> string) list" where
  "mathTable = [(''LOG2'', ''Log2''), (''LOG10'', ''Log10''), (''EXP'', ''Exp''), (''SIN'', ''Sin''),
     (''COS'', ''Cos''), (''TAN'', ''Tan''), (''ASIN'', ''Asin''), (''ACOS'', ''Acos''), (''ATAN'', ''Atan''),
     (''SINH'', ''Sinh''), (''COSH'', ''Cosh''), (''TANH'', ''Tanh'')]"

definition f_pi :: "64 word" where "f_pi = 0x400921FB54442D18"

definition fnMath :: "evalEnv \<Rightarrow> string \<Rightarrow> args \<Rightarrow> vres ev option" where
  "fnMath E fn as =
     (if fn = ''POW'' \<or> fn = ''POWER'' then
        Some (requireArg as 2 (arg' as 0 (\<lambda>b. arg' as 1 (\<lambda>e. realV (Pow E (numOf E b) (numOf E e))))))
      else if fn = ''SQRT'' then Some (requireArg as 1 (arg' as 0 (\<lambda>v. realV (Sqrt (numOf E v)))))
      else if fn = ''LOG'' \<or> fn = ''LN'' then
        Some (requireArg as 1 (ignoring (argAt as 0) (\<lambda>p.
          if length as \<ge> 2 then arg' as 0 (\<lambda>b. arg' as 1 (\<lambda>v.
            realV (f_div (math1 E ''Log'' (numOf E v)) (math1 E ''Log'' (numOf E b)))))
          else deref p (\<lambda>v. realV (math1 E ''Log'' (numOf E v))))))
      else if map_of mathTable fn \<noteq> None then
        Some (requireArg as 1 (arg' as 0 (\<lambda>v. realV (math1 E (the (map_of mathTable fn)) (numOf E v)))))
      else if fn = ''ATAN2'' then
        Some (requireArg as 2 (arg' as 0 (\<lambda>y. arg' as 1 (\<lambda>x. realV (Atan2 E (numOf E y) (numOf E x))))))
      else if fn = ''PI'' then Some (realV f_pi)
      else if fn = ''DEGREES'' then
        Some (requireArg as 1 (arg' as 0 (\<lambda>v. realV (f_div (f_mul (numOf E v) (f_of_int 180)) f_pi))))
      else if fn = ''RADIANS'' then
        Some (requireArg as 1 (arg' as 0 (\<lambda>v. realV (f_div (f_mul (numOf E v) f_pi) (f_of_int 180)))))
      else if fn = ''MOD'' then
        Some (requireArg as 2 (ignoring (argAt as 0) (\<lambda>p. arg' as 1 (\<lambda>b.
          if f_eq (numOf E b) 0 then ret NullValue
          else deref p (\<lambda>a. realV (f_mod (numOf E a) (numOf E b)))))))
      else None)"

section \<open>Putting strings together\<close>

primrec joinArgs :: "evalEnv \<Rightarrow> string \<Rightarrow> string list \<Rightarrow> args \<Rightarrow> vres ev" where
  "joinArgs E sep parts [] = textV (Join parts sep)"
| "joinArgs E sep parts (m # ms) =
     ignoringV m (\<lambda>v. joinArgs E sep (if isNull v then parts else parts @ [strOf E v]) ms)"

primrec concatArgs :: "evalEnv \<Rightarrow> string \<Rightarrow> args \<Rightarrow> vres ev" where
  "concatArgs E sb [] = textV sb"
| "concatArgs E sb (m # ms) = ignoringV m (\<lambda>v. nullOr v (concatArgs E (sb @ strOf E v) ms))"

text \<open>\<open>for utf8.RuneCountInString(s) < n\<close> of the padding functions; the padding is not empty.\<close>

function padTo :: "(string \<Rightarrow> string \<Rightarrow> string) \<Rightarrow> string \<Rightarrow> int \<Rightarrow> string \<Rightarrow> string" where
  "padTo app pad n s =
     (if int (RuneCount s) < n \<and> length (app pad s) > length s then padTo app pad n (app pad s) else s)"
  by pat_completeness auto
termination
proof (relation "measure (\<lambda>(app, pad, n, s). nat (4 * n) - length s)", goal_cases)
  case (2 app pad n s)
  have "length s \<le> 4 * RuneCount s" using RuneCount_bounds by simp
  with 2 have "length s < nat (4 * n)" by linarith
  with 2 show ?case by (simp add: diff_less_mono2)
qed simp

declare padTo.simps [simp del]

text \<open>A negative width makes the bounds of the final slice invalid, also where the difference overflows.\<close>

definition padded :: "evalEnv \<Rightarrow> bool \<Rightarrow> args \<Rightarrow> vres ev" where
  "padded E onLeft as =
     (let pad = (\<lambda>str lenVal padChar.
        let n = sint (Integer lenVal); padChar = (if padChar = '''' then '' '' else padChar);
            rs = runes (padTo (\<lambda>p s. if onLeft then p @ s else s @ p) padChar n (strOf E str))
        in if int (length rs) > n
           then (if onLeft then sliceV rs (int (length rs) - n) (int (length rs)) else sliceV rs 0 n) (\<lambda>t. textV (utf8s t))
           else textV (utf8s rs))
      in arg' as 0 (\<lambda>str. arg' as 1 (\<lambda>lenVal.
         if length as \<ge> 3 then arg' as 2 (\<lambda>pc. pad str lenVal (strOf E pc)) else pad str lenVal '' '')))"

definition fnConcat :: "evalEnv \<Rightarrow> string \<Rightarrow> args \<Rightarrow> vres ev option" where
  "fnConcat E fn as =
     (if fn = ''CONCAT_WS'' then
        Some (requireArg as 1 (arg' as 0 (\<lambda>sep. joinArgs E (strOf E sep) [] (tl as))))
      else if fn = ''CONCAT'' then Some (concatArgs E '''' as)
      else if fn = ''LPAD'' then Some (requireArg as 2 (padded E True as))
      else if fn = ''RPAD'' then Some (requireArg as 2 (padded E False as))
      else if fn = ''REPEAT'' then
        Some (requireArg as 2 (ignoring (argAt as 0) (\<lambda>p. arg' as 1 (\<lambda>times.
          if Integer times \<le>s 0 then textV ''''
          else deref p (\<lambda>str. textOrPanic (Repeat (strOf E str) (sint (Integer times))))))))
      else if fn = ''REVERSE'' then
        Some (requireArg as 1 (arg' as 0 (\<lambda>str. textV (utf8s (rev (runes (strOf E str)))))))
      else if fn = ''SPACE'' then
        Some (requireArg as 1 (arg' as 0 (\<lambda>n. textOrPanic (Repeat '' '' (sint (Integer n))))))
      else None)"

section \<open>Lengths, positions and truth values\<close>

definition fnLength :: "evalEnv \<Rightarrow> string \<Rightarrow> args \<Rightarrow> vres ev option" where
  "fnLength E fn as =
     (if fn = ''CHAR_LENGTH'' \<or> fn = ''CHARACTER_LENGTH'' then
        Some (requireArg as 1 (arg' as 0 (\<lambda>v. nullOr v (intV (int (RuneCount (strOf E v)))))))
      else if fn = ''OCTET_LENGTH'' then
        Some (requireArg as 1 (arg' as 0 (\<lambda>v. nullOr v
          (intV (int (if vType v = ValBlob then length (Blob v) else length (strOf E v)))))))
      else if fn = ''POSITION'' then
        Some (requireArg as 2 (arg' as 0 (\<lambda>needle. arg' as 1 (\<lambda>hay.
          case Index (strOf E hay) (strOf E needle) of None \<Rightarrow> intV 0 | Some idx \<Rightarrow> intV (int (idx + 1))))))
      else if fn = ''ISNULL'' then Some (requireArg as 1 (arg' as 0 (\<lambda>v. ret (boolValue (isNull v)))))
      else if fn = ''NOTNULL'' \<or> fn = ''IFNOTNULL'' then
        Some (requireArg as 1 (arg' as 0 (\<lambda>v. ret (boolValue (\<not> isNull v)))))
      else if fn = ''NOT'' then
        Some (requireArg as 1 (ignoring (argAt as 0) (\<lambda>p. ret (boolValue (\<not> IsTruthy p)))))
      else None)"

section \<open>Regular expressions and identifiers\<close>

definition fnRegexp :: "evalEnv \<Rightarrow> string \<Rightarrow> args \<Rightarrow> vres ev option" where
  "fnRegexp E fn as =
     (if fn = ''REGEXP_LIKE'' \<or> fn = ''REGEXP_MATCHES'' then
        Some (requireArg as 2 (ignoring (argAt as 0) (\<lambda>p. arg' as 1 (\<lambda>pat.
          if \<not> cachedRegexp E (strOf E pat) then intV 0
          else deref p (\<lambda>str. ret (boolValue (rxMatch E (strOf E pat) (strOf E str))))))))
      else if fn = ''REGEXP_REPLACE'' then
        Some (requireArg as 3 (ignoring (argAt as 0) (\<lambda>p. ignoring (argAt as 1) (\<lambda>q. ignoring (argAt as 2) (\<lambda>r.
          deref q (\<lambda>pat.
            if \<not> cachedRegexp E (strOf E pat) then ptr p
            else deref p (\<lambda>str. deref r (\<lambda>repl. textV (rxReplace E (strOf E pat) (strOf E str) (strOf E repl)))))))))
        )
      else if fn = ''REGEXP_SUBSTR'' then
        Some (requireArg as 2 (ignoring (argAt as 0) (\<lambda>p. arg' as 1 (\<lambda>pat.
          if \<not> cachedRegexp E (strOf E pat) then ret NullValue
          else deref p (\<lambda>str.
            if rxFind E (strOf E pat) (strOf E str) = '''' then ret NullValue
            else textV (rxFind E (strOf E pat) (strOf E str)))))))
      else None)"

text \<open>The version and variant bits of a random identifier, and its groups of digits.\<close>

definition uuidText :: "byte list \<Rightarrow> string" where
  "uuidText b0 =
     (let b = b0[6 := (b0 ! 6 AND 0x0f) OR 0x40, 8 := (b0 ! 8 AND 0x3f) OR 0x80];
          hex = (\<lambda>i n. concat (map hex2 (slice b i n)))
      in Join [hex 0 4, hex 4 2, hex 6 2, hex 8 2, hex 10 6] ''-'')"

definition fnNow :: "evalEnv \<Rightarrow> string \<Rightarrow> args \<Rightarrow> vres ev option" where
  "fnNow E fn as =
     (if fn = ''UUID'' \<or> fn = ''GEN_RANDOM_UUID'' then Some (bindV (drawBytes E 16) (\<lambda>b. textV (uuidText b)))
      else if fn = ''CURRENT_TIMESTAMP'' \<or> fn = ''NOW'' then Some (nowText E stampLayout)
      else if fn = ''CURRENT_DATE'' then Some (nowText E dateLayout)
      else if fn = ''CURRENT_TIME'' then Some (nowText E timeLayout)
      else if fn = ''TO_CHAR'' then
        Some (requireArg as 2 (arg' as 0 (\<lambda>v. ignoring (argAt as 1) (\<lambda>f.
          if vType v = ValInteger then deref f (\<lambda>f. textV (SprintfInt E (strOf E f) (Integer v)))
          else if vType v = ValReal then deref f (\<lambda>f. textV (SprintfReal E (strOf E f) (Real v)))
          else textV (strOf E v)))))
      else if fn = ''GREATEST'' then Some (extremeOf E (\<lambda>c. c > 0) as)
      else if fn = ''LEAST'' then Some (extremeOf E (\<lambda>c. c < 0) as)
      else None)"

section \<open>Truncation, words and conversions\<close>

text \<open>\<open>w[:1]\<close> is a byte.\<close>

definition capitalise :: "golib \<Rightarrow> string \<Rightarrow> string" where
  "capitalise G w = (if w = [] then w else ToUpper G (take 1 w) @ ToLower G (drop 1 w))"

definition fnWords :: "evalEnv \<Rightarrow> string \<Rightarrow> args \<Rightarrow> vres ev option" where
  "fnWords E fn as =
     (if fn = ''TRUNCATE'' \<or> fn = ''TRUNC'' then
        Some (requireArg as 1 (arg' as 0 (\<lambda>v. nullOr v (scaled E Trunc as v))))
      else if fn = ''BIT_LENGTH'' then
        Some (requireArg as 1 (arg' as 0 (\<lambda>v. intV (int (length (strOf E v) * 8)))))
      else if fn = ''INITCAP'' then
        Some (requireArg as 1 (arg' as 0 (\<lambda>v. nullOr v
          (textV (Join (map (capitalise (evLib E)) (Fields (evUni E) (strOf E v))) '' '')))))
      else if fn = ''SPLIT_PART'' then
        Some (requireArg as 3 (arg' as 0 (\<lambda>str. arg' as 1 (\<lambda>delim. arg' as 2 (\<lambda>n.
          let parts = SplitOn (strOf E str) (strOf E delim); idx = sint (Integer n - 1)
          in if idx < 0 \<or> idx \<ge> int (length parts) then textV '''' else indexV parts idx textV)))))
      else if fn = ''ARRAY_LENGTH'' \<or> fn = ''CARDINALITY'' then
        Some (requireArg as 1 (arg' as 0 (\<lambda>v. intV (int (length (SplitOn (strOf E v) '','')))))) 
      else if fn = ''BOOL'' \<or> fn = ''BOOLEAN'' then
        Some (requireArg as 1 (ignoring (argAt as 0) (\<lambda>p. ret (boolValue (IsTruthy p)))))
      else if fn = ''INT'' \<or> fn = ''INTEGER'' then
        Some (requireArg as 1 (arg' as 0 (\<lambda>v. ret (IntValue (f_to_int (numOf E v))))))
      else if fn = ''FLOAT'' \<or> fn = ''REAL'' \<or> fn = ''DOUBLE'' then
        Some (requireArg as 1 (arg' as 0 (\<lambda>v. realV (numOf E v))))
      else if fn = ''STRING'' \<or> fn = ''TEXT'' \<or> fn = ''STR'' then
        Some (requireArg as 1 (arg' as 0 (\<lambda>v. nullOr v (textV (strOf E v)))))
      else if fn \<in> {''STDDEV'', ''STDDEV_POP'', ''STDDEV_SAMP'', ''VARIANCE'', ''VAR_POP'', ''VAR_SAMP'',
                    ''BIT_AND'', ''BIT_OR'', ''BIT_XOR''} then Some (ret NullValue)
      else None)"

section \<open>The switch\<close>

definition builtins :: "(evalEnv \<Rightarrow> string \<Rightarrow> args \<Rightarrow> vres ev option) list" where
  "builtins = [fnCase, fnChoice, fnSubstr, fnTrim, fnReplace, fnRound, fnChars, fnRandom, fnDate, fnExtreme,
     fnMath, fnConcat, fnLength, fnRegexp, fnNow, fnWords]"

fun firstSome :: "('a \<Rightarrow> 'b option) list \<Rightarrow> 'a \<Rightarrow> 'b option" where
  "firstSome [] x = None"
| "firstSome (f # fs) x = (case f x of None \<Rightarrow> firstSome fs x | Some y \<Rightarrow> Some y)"

definition evalFunc :: "evalEnv \<Rightarrow> string \<Rightarrow> args \<Rightarrow> vres ev" where
  "evalFunc E name as =
     (case firstSome (map (\<lambda>f. f E (ToUpper (evLib E) name)) builtins) as of
        None \<Rightarrow> giveV (Some NullValue, Some (ErrUnknown name))
      | Some m \<Rightarrow> m)"

section \<open>Expressions\<close>

definition literalValue :: "litValue option \<Rightarrow> bool \<Rightarrow> Value" where
  "literalValue v nul =
     (if nul then NullValue
      else case v of
        None \<Rightarrow> NullValue | Some (LitInt i) \<Rightarrow> IntValue i | Some (LitFloat f) \<Rightarrow> RealValue f
      | Some (LitString s) \<Rightarrow> TextValue s)"

text \<open>A nil interface in a \<open>RowValueExpr\<close> cannot occur; the queries inside \<open>IN\<close>, \<open>EXISTS\<close> and
  parentheses are not run.\<close>

fun EvalExpr :: "evalEnv \<Rightarrow> EvalContext \<Rightarrow> Expr \<Rightarrow> vres ev" where
  "EvalExpr E ctx (LiteralExpr v nul) = ret (literalValue v nul)"
| "EvalExpr E ctx (IdentExpr table name) = resolveIdent E ctx table name"
| "EvalExpr E ctx StarExpr = ret (IntValue 1)"
| "EvalExpr E ctx (UnaryExpr op e) = evalUnary E op (EvalExpr E ctx e)"
| "EvalExpr E ctx (BinaryExpr op l r) = evalBinary E op (EvalExpr E ctx l) (EvalExpr E ctx r)"
| "EvalExpr E ctx (IsNullExpr e isNot) = evalIsNull (EvalExpr E ctx e) isNot"
| "EvalExpr E ctx (InExpr e es _ isNot) = evalIn E (EvalExpr E ctx e) (map (\<lambda>x. EvalExpr E ctx x) es) isNot"
| "EvalExpr E ctx (LikeExpr e p esc isNot) =
     evalLike E (EvalExpr E ctx e) (EvalExpr E ctx p) (map_option (\<lambda>x. EvalExpr E ctx x) esc) isNot"
| "EvalExpr E ctx (GlobExpr e p isNot) = evalGlob E (EvalExpr E ctx e) (EvalExpr E ctx p) isNot"
| "EvalExpr E ctx (BetweenExpr e l h isNot) =
     evalBetween E (EvalExpr E ctx e) (EvalExpr E ctx l) (EvalExpr E ctx h) isNot"
| "EvalExpr E ctx (FuncCallExpr name es _ _) = evalFunc E name (map (\<lambda>x. EvalExpr E ctx x) es)"
| "EvalExpr E ctx (CaseExpr b ws els) =
     evalCase E (map_option (\<lambda>x. EvalExpr E ctx x) b)
       (map (\<lambda>w. (EvalExpr E ctx (fst w), EvalExpr E ctx (snd w))) ws) (map_option (\<lambda>x. EvalExpr E ctx x) els)"
| "EvalExpr E ctx (CastExpr e ty) = evalCast E (EvalExpr E ctx e) ty"
| "EvalExpr E ctx (ExistsExpr _ _) = ret (IntValue 0)"
| "EvalExpr E ctx (SubqueryExpr _) = ret NullValue"
| "EvalExpr E ctx (RowValueExpr es) =
     (case map (\<lambda>x. EvalExpr E ctx x) es of [] \<Rightarrow> ret NullValue | m # _ \<Rightarrow> m)"

end
