(* ===== verification/SchemaProps.thy ===== *)
theory SchemaProps
  imports Schema
begin

text \<open>
  What the catalogue operations keep and do: the maps stay indexed by the lower-case names,
  columns keep distinct names, and a created table is found in memory and in the schema tree.
\<close>

section \<open>Operations that keep a property\<close>

definition preserves :: "(SchemaManager \<Rightarrow> bool) \<Rightarrow> 'a sm \<Rightarrow> bool" where
  "preserves P m \<longleftrightarrow> (\<forall>s. P s \<longrightarrow> P (snd (m s)))"

named_theorems keep

lemma preserves_return [keep]: "preserves P (returnS x)"
  by (simp add: preserves_def)

lemma preserves_fail [keep]: "preserves P (failS e)"
  by (simp add: preserves_def)

lemma preserves_bind [keep]:
  assumes "preserves P m" and "\<And>x. preserves P (f x)"
  shows "preserves P (bindS m f)"
  unfolding preserves_def
proof (intro allI impI)
  fix s assume "P s"
  then have "P (snd (m s))" using assms(1) by (simp add: preserves_def)
  then show "P (snd (bindS m f s))"
    using assms(2) by (cases "m s"; cases "fst (m s)") (auto simp: bindS_def preserves_def)
qed

lemma preserves_modify: "(\<And>s. P s \<Longrightarrow> P (f s)) \<Longrightarrow> preserves P (modifyS f)"
  by (simp add: preserves_def)

lemma preservesD: "preserves P m \<Longrightarrow> P s \<Longrightarrow> m s = (r, s') \<Longrightarrow> P s'"
  unfolding preserves_def by (metis snd_conv)

lemma preserves_if [keep]: "preserves P m \<Longrightarrow> preserves P m' \<Longrightarrow> preserves P (if b then m else m')"
  by simp

lemma preserves_guard:
  "(\<And>s. P s \<Longrightarrow> P (snd (f s s))) \<Longrightarrow> preserves P (\<lambda>s. f s s)"
  by (simp add: preserves_def)

section \<open>Maps indexed by name\<close>

definition smap_ok :: "('v \<Rightarrow> string) \<Rightarrow> 'v smap \<Rightarrow> bool" where
  "smap_ok key m \<longleftrightarrow> distinct (map fst m) \<and> (\<forall>k x. map_of m k = Some x \<longrightarrow> k = key x)"

lemma smap_update: "smap_ok key m \<Longrightarrow> k = key x \<Longrightarrow> smap_ok key (AList.update k x m)"
  by (simp add: smap_ok_def AList.distinct_update update_conv')

lemma smap_delete: "smap_ok key m \<Longrightarrow> smap_ok key (AList.delete k m)"
  by (simp add: smap_ok_def distinct_delete delete_conv')

definition names_ok :: "env \<Rightarrow> SchemaManager \<Rightarrow> bool" where
  "names_ok E s \<longleftrightarrow> smap_ok (\<lambda>t. ToLower (lib E) (tName t)) (tables s) \<and>
     smap_ok (\<lambda>i. ToLower (lib E) (iName i)) (indexes s) \<and> smap_ok (\<lambda>v. ToLower (lib E) (vName v)) (views s)"

lemma names_pager [keep]: "preserves (names_ok E) (onPager m)"
  by (simp add: preserves_def onPager_def names_ok_def split: prod.split)

lemma names_insert [keep]: "preserves (names_ok E) (schemaInsert E k d)"
  by (simp add: preserves_def schemaInsert_def names_ok_def split: prod.split)

lemma names_delete [keep]: "preserves (names_ok E) (schemaDelete E k)"
  using names_pager by (auto simp: preserves_def schemaDelete_def)

lemma names_upd [keep]:
  "names_ok E s \<Longrightarrow> k = ToLower (lib E) (tName ts) \<Longrightarrow> names_ok E (s\<lparr>tables := AList.update k ts (tables s)\<rparr>)"
  "names_ok E s \<Longrightarrow> names_ok E (s\<lparr>tables := AList.delete n (tables s)\<rparr>)"
  "names_ok E s \<Longrightarrow> k = ToLower (lib E) (iName i) \<Longrightarrow> names_ok E (s\<lparr>indexes := AList.update k i (indexes s)\<rparr>)"
  "names_ok E s \<Longrightarrow> names_ok E (s\<lparr>indexes := AList.delete n (indexes s)\<rparr>)"
  "names_ok E s \<Longrightarrow> k = ToLower (lib E) (vName v) \<Longrightarrow> names_ok E (s\<lparr>views := AList.update k v (views s)\<rparr>)"
  "names_ok E s \<Longrightarrow> names_ok E (s\<lparr>views := AList.delete n (views s)\<rparr>)"
  by (auto simp: names_ok_def intro: smap_update smap_delete)

lemma names_pure [keep]: "(\<And>s. names_ok E s \<Longrightarrow> names_ok E (f s)) \<Longrightarrow> preserves (names_ok E) (\<lambda>s. (Inr (), f s))"
  by (simp add: preserves_def)

lemma names_modify [keep]: "(\<And>s. names_ok E s \<Longrightarrow> names_ok E (f s)) \<Longrightarrow> preserves (names_ok E) (modifyS f)"
  by (rule preserves_modify)

lemma names_lookup: "names_ok E s \<Longrightarrow> map_of (tables s) k = Some ts \<Longrightarrow> k = ToLower (lib E) (tName ts)"
  by (simp add: names_ok_def smap_ok_def)

lemma names_update_table [keep]: "preserves (names_ok E) (updateTableSchema E ts)"
  by (simp add: updateTableSchema_def Let_def keep)

lemma keep_app: "preserves (names_ok E) m \<Longrightarrow> names_ok E s \<Longrightarrow> names_ok E (snd (m s))"
  by (simp add: preserves_def)

text \<open>One lemma per operation; a failed one keeps the property too.\<close>

lemma names_CreateTable: "preserves (names_ok E) (CreateTable E ts)"
  unfolding CreateTable_def Let_def
  by (rule preserves_guard) (auto intro!: keep_app keep)

lemma names_DropTable: "preserves (names_ok E) (DropTable E name)"
  unfolding DropTable_def Let_def
  by (rule preserves_guard) (auto intro!: keep_app keep)

lemma names_CreateView: "preserves (names_ok E) (CreateView E v)"
  unfolding CreateView_def Let_def
  by (rule preserves_guard) (auto intro!: keep_app keep)

lemma names_DropView: "preserves (names_ok E) (DropView E name)"
  unfolding DropView_def Let_def
  by (rule preserves_guard) (auto intro!: keep_app keep)

lemma names_alter:
  "lname = ToLower (lib E) (tName ts) \<Longrightarrow> preserves (names_ok E) (alterColumns E lname ts cols)"
  unfolding alterColumns_def Let_def by (intro keep) (auto intro!: keep)

lemma names_AddColumn: "preserves (names_ok E) (AddColumn E t col)"
  unfolding AddColumn_def Let_def
  by (rule preserves_guard) (auto intro!: keep_app [OF names_alter] dest: names_lookup split: option.split)

lemma names_RenameColumn: "preserves (names_ok E) (RenameColumn E t old new)"
  unfolding RenameColumn_def Let_def
  by (rule preserves_guard) (auto intro!: keep_app [OF names_alter] dest: names_lookup split: option.split)

lemma names_DropColumn: "preserves (names_ok E) (DropColumn E t col)"
  unfolding DropColumn_def Let_def
  by (rule preserves_guard) (auto intro!: keep_app [OF names_alter] dest: names_lookup split: option.split)

lemma names_CreateIndex: "preserves (names_ok E) (CreateIndex E i)"
  unfolding CreateIndex_def Let_def
  by (rule preserves_guard) (auto intro!: keep_app keep dest: names_lookup split: option.split)

lemma names_RenameTable: "preserves (names_ok E) (RenameTable E old new)"
  unfolding RenameTable_def Let_def
  by (rule preserves_guard) (auto intro!: keep_app keep split: option.split)

lemma names_drop_from_table:
  "preserves (names_ok E) (\<lambda>s. case map_of (tables s) k of
      None \<Rightarrow> (Inr (), s)
    | Some ts \<Rightarrow> bindS (modifyS (\<lambda>s. s\<lparr>tables := AList.update k (ts\<lparr>Indexes := g ts\<rparr>) (tables s)\<rparr>))
        (\<lambda>_. updateTableSchema E (ts\<lparr>Indexes := g ts\<rparr>)) s)"
  by (rule preserves_guard) (auto intro!: keep_app keep dest: names_lookup split: option.split)

lemma names_DropIndex: "preserves (names_ok E) (DropIndex E name)"
  unfolding DropIndex_def Let_def
  by (rule preserves_guard) (auto intro!: keep_app keep names_drop_from_table split: option.split)

lemma names_load: "preserves (names_ok E) (loadFrom E n c)"
proof (induction n arbitrary: c)
  case (Suc n)
  have "preserves (names_ok E) (loadCell E x)" for x
    by (auto simp: loadCell_def Let_def intro!: keep split: option.split)
  with Suc show ?case by (auto intro!: keep split: option.split)
qed (simp add: keep)

lemma names_New:
  assumes "NewSchemaManager E n p = (r, s)"
  shows "names_ok E s"
proof -
  let ?s0 = "\<lparr>sm_pager = p, sm_root = SchemaPage (p_header p), tables = [], indexes = [], views = []\<rparr>"
  have "names_ok E ?s0" by (simp add: names_ok_def smap_ok_def)
  moreover have "preserves (names_ok E) (bindS (onPager (NewCursor (treeFuel E) root)) (loadFrom E n))" for root
    by (intro keep names_load)
  ultimately have "names_ok E (snd (bindS (onPager (NewCursor (treeFuel E) (SchemaPage (p_header p)))) (loadFrom E n) ?s0))"
    by (intro keep_app)
  then show ?thesis using assms by (simp add: NewSchemaManager_def loadAll_def)
qed

text \<open>The calls that change the catalogue, as one relation.\<close>

inductive schema_step :: "env \<Rightarrow> SchemaManager \<Rightarrow> SchemaManager \<Rightarrow> bool" for E where
  "CreateTable E ts s = (r, s') \<Longrightarrow> schema_step E s s'"
| "DropTable E n s = (r, s') \<Longrightarrow> schema_step E s s'"
| "RenameTable E n m s = (r, s') \<Longrightarrow> schema_step E s s'"
| "UpdateTableSchema E ts s = (r, s') \<Longrightarrow> schema_step E s s'"
| "CreateIndex E i s = (r, s') \<Longrightarrow> schema_step E s s'"
| "DropIndex E n s = (r, s') \<Longrightarrow> schema_step E s s'"
| "CreateView E v s = (r, s') \<Longrightarrow> schema_step E s s'"
| "DropView E n s = (r, s') \<Longrightarrow> schema_step E s s'"
| "AddColumn E n col s = (r, s') \<Longrightarrow> schema_step E s s'"
| "RenameColumn E n c d s = (r, s') \<Longrightarrow> schema_step E s s'"
| "DropColumn E n c s = (r, s') \<Longrightarrow> schema_step E s s'"

lemmas names_ops = names_CreateTable names_DropTable names_RenameTable names_CreateIndex names_DropIndex
  names_CreateView names_DropView names_AddColumn names_RenameColumn names_DropColumn names_update_table

lemma names_step: "schema_step E s s' \<Longrightarrow> names_ok E s \<Longrightarrow> names_ok E s'"
  by (induction rule: schema_step.induct)
    (auto simp: UpdateTableSchema_def dest: names_ops [THEN preservesD])

lemma names_reach: "(schema_step E)\<^sup>*\<^sup>* s s' \<Longrightarrow> names_ok E s \<Longrightarrow> names_ok E s'"
  by (induction rule: rtranclp_induct) (auto intro: names_step)

section \<open>Columns\<close>

definition cols_ok :: "golib \<Rightarrow> TableSchema \<Rightarrow> bool" where
  "cols_ok G t \<longleftrightarrow> sorted_wrt (\<lambda>c d. \<not> EqualFold G (cName c) (cName d)) (Columns t)"

lemma ColumnIndex_Some:
  assumes "ColumnIndex G name t = Some i"
  shows "i < length (Columns t)" and "EqualFold G (cName (Columns t ! i)) name"
    and "\<And>j. j < i \<Longrightarrow> \<not> EqualFold G (cName (Columns t ! j)) name"
  using assms by (auto simp: ColumnIndex_def find_Some_iff)

lemma ColumnIndex_None: "ColumnIndex G name t = None \<longleftrightarrow> (\<forall>c \<in> set (Columns t). \<not> EqualFold G (cName c) name)"
  by (force simp: ColumnIndex_def find_None_iff in_set_conv_nth)

lemma schemaInsert_tables: "schemaInsert E k d s = (r, s') \<Longrightarrow> tables s' = tables s"
  by (auto simp: schemaInsert_def split: prod.splits)

lemma alterColumns_tables:
  assumes "alterColumns E lname ts cols s = (Inr (), s')" and "lname = ToLower (lib E) (tName ts)"
  shows "map_of (tables s') = (map_of (tables s))(lname \<mapsto> ts\<lparr>Columns := cols\<rparr>)"
  using assms
  by (auto simp: alterColumns_def updateTableSchema_def Let_def dest!: schemaInsert_tables)
    (simp_all add: update_conv')

lemma AddColumn_ok:
  assumes ok: "names_ok E s" and run: "AddColumn E tn col s = (Inr (), s')"
  obtains ts where "GetTable E tn s = Some ts"
    and "GetTable E tn s' = Some (ts\<lparr>Columns := Columns ts @ [col]\<rparr>)"
    and "cols_ok (lib E) ts \<Longrightarrow> cols_ok (lib E) (ts\<lparr>Columns := Columns ts @ [col]\<rparr>)"
    and "\<And>n. ToLower (lib E) n \<noteq> ToLower (lib E) tn \<Longrightarrow> GetTable E n s' = GetTable E n s"
proof -
  let ?k = "ToLower (lib E) tn"
  from run obtain ts where ts: "map_of (tables s) ?k = Some ts" "ColumnIndex (lib E) (cName col) ts = None"
    "alterColumns E ?k ts (Columns ts @ [col]) s = (Inr (), s')"
    by (auto simp: AddColumn_def Let_def split: option.splits if_splits)
  have "map_of (tables s') = (map_of (tables s))(?k \<mapsto> ts\<lparr>Columns := Columns ts @ [col]\<rparr>)"
    by (rule alterColumns_tables [OF ts(3) names_lookup [OF ok ts(1)]])
  moreover have "cols_ok (lib E) ts \<Longrightarrow> cols_ok (lib E) (ts\<lparr>Columns := Columns ts @ [col]\<rparr>)"
    using ts(2) by (auto simp: cols_ok_def sorted_wrt_append ColumnIndex_None)
  ultimately show ?thesis using that ts(1) by (simp add: GetTable_def)
qed

lemma sorted_wrt_remove_at:
  assumes "sorted_wrt P xs" and "i < length xs"
  shows "sorted_wrt P (remove_at i xs)"
  using assms by (auto simp: sorted_wrt_iff_nth_less nth_remove_at)

lemma DropColumn_ok:
  assumes ok: "names_ok E s" and run: "DropColumn E tn c s = (Inr (), s')"
  obtains ts i where "GetTable E tn s = Some ts" and "ColumnIndex (lib E) c ts = Some i"
    and "\<not> PrimaryKey (Columns ts ! i)" and "GetTable E tn s' = Some (ts\<lparr>Columns := remove_at i (Columns ts)\<rparr>)"
    and "cols_ok (lib E) ts \<Longrightarrow> cols_ok (lib E) (ts\<lparr>Columns := remove_at i (Columns ts)\<rparr>)"
proof -
  let ?k = "ToLower (lib E) tn"
  from run obtain ts i where ts: "map_of (tables s) ?k = Some ts" "ColumnIndex (lib E) c ts = Some i"
    "\<not> PrimaryKey (Columns ts ! i)" "alterColumns E ?k ts (remove_at i (Columns ts)) s = (Inr (), s')"
    by (auto simp: DropColumn_def Let_def split: option.splits if_splits)
  have "map_of (tables s') = (map_of (tables s))(?k \<mapsto> ts\<lparr>Columns := remove_at i (Columns ts)\<rparr>)"
    by (rule alterColumns_tables [OF ts(4) names_lookup [OF ok ts(1)]])
  moreover have "cols_ok (lib E) ts \<Longrightarrow> cols_ok (lib E) (ts\<lparr>Columns := remove_at i (Columns ts)\<rparr>)"
    using ColumnIndex_Some(1) [OF ts(2)] by (simp add: cols_ok_def sorted_wrt_remove_at)
  ultimately show ?thesis using that ts by (simp add: GetTable_def)
qed

end
