(* ===== verification/Catalogue.thy ===== *)
theory Catalogue
  imports SchemaProps
begin

text \<open>
  The catalogue on disk: a table that was created is stored under its key in the schema tree,
  its root is a new empty leaf, and neither the other entries nor any other page change.
\<close>

lemma repr_ids_view: "repr v t \<Longrightarrow> i \<in> set (tree_ids t) \<Longrightarrow> v i \<noteq> None"
  by (induction rule: repr.induct) auto

lemma allocLeaf_ok:
  assumes inv: "pager_inv {} s" and nf: "no_fault s" and al: "alloc_ok s" and rm: "room s (Suc n)"
    and j_def: "j = hPageCount (p_header s)" and jm: "j < InvalidPage"
  obtains s' where "allocLeaf s = (Inr j, s')" and "pager_inv {} s'" and "no_fault s'" and "alloc_ok s'"
    and "room s' n" and "view s' = (view s)(j \<mapsto> Data (initLeaf (newPage j)))"
    and "p_header s' = (p_header s)\<lparr>hPageCount := j + 1\<rparr>"
proof -
  let ?q = "initLeaf (newPage j)"
  have np: "page_ok (newPage j)" "ID (newPage j) = j" "pins (newPage j) = 0"
    by (rule page_ok_newPage, simp_all add: newPage_def)
  note Q = initLeaf_fields [OF np(1)] initLeaf_pins [of "newPage j"]
  obtain s1 b where A: "AllocatePage s = (Inr b, s1)" "p_heap s1 b = Some (newPage j)"
    and B: "\<And>q. ID q = j \<Longrightarrow> page_ok q \<Longrightarrow> pins q = 0 \<Longrightarrow> Dirty q \<Longrightarrow>
      (let t = s1\<lparr>p_heap := (p_heap s1)(b \<mapsto> q)\<rparr> in pager_inv {} t \<and> no_fault t \<and> alloc_ok t \<and>
         room t n \<and> cached t = (cached s)(j \<mapsto> b) \<and> p_heap t = (p_heap s)(b \<mapsto> q) \<and>
         view t = (view s)(j \<mapsto> Data q) \<and> p_header t = (p_header s)\<lparr>hPageCount := j + 1\<rparr>)"
    by (rule alloc_init [OF inv nf al rm j_def jm]) (rule that)
  define s2 where "s2 = s1\<lparr>p_heap := (p_heap s1)(b \<mapsto> ?q)\<rparr>"
  have s2: "pager_inv {} s2" "no_fault s2" "alloc_ok s2" "room s2 n" "view s2 = (view s)(j \<mapsto> Data ?q)"
    "p_header s2 = (p_header s)\<lparr>hPageCount := j + 1\<rparr>"
    using B [of ?q, folded s2_def] Q np by (simp_all add: Let_def del: fun_upd_apply)
  have "allocLeaf s = (Inr j, s2)"
    using A np(2) by (simp add: allocLeaf_def readObj_def writeObj_def Let_def s2_def bindP_def initLeaf_def page_setters)
  with s2 show ?thesis using that by blast
qed

text \<open>A tree stays in place when a fresh page is added.\<close>

lemma tree_in_new_page:
  assumes t: "tree_in n t s" and s': "pager_inv {} s'" "no_fault s'" "alloc_ok s'"
    and v: "view s' = (view s)(hPageCount (p_header s) \<mapsto> d)"
  shows "tree_in n t s'" and "fits s t k w \<Longrightarrow> fits s' t k w"
proof -
  have R: "repr (view s) t" "alloc_ok s" using t by (simp_all add: tree_in_def)
  have ne: "i \<noteq> hPageCount (p_header s)" if "i \<in> set (tree_ids t)" for i
    using repr_ids_view [OF R(1) that] R(2) by (auto simp: alloc_ok_def)
  have "repr (view s') t" by (rule repr_frame [OF R(1)]) (simp add: v ne)
  with t s' show "tree_in n t s'" by (simp add: tree_in_def)
  have "leaf_of t k \<noteq> hPageCount (p_header s)" by (rule ne [OF leaf_of_in [OF R(1)]])
  then show "fits s t k w \<Longrightarrow> fits s' t k w" by (simp add: fits_def v)
qed

lemma tree_in_leaf:
  assumes "pager_inv {} s" and "no_fault s" and "alloc_ok s" and "view s j = Some (Data (initLeaf (newPage j)))"
    and "j \<noteq> InvalidPage" and "0 < n"
  shows "tree_in n (TLeaf j []) s"
proof -
  let ?q = "initLeaf (newPage j)"
  have "page_ok (newPage j)" by (rule page_ok_newPage)
  then have q: "leaf_inv ?q" "page_items ?q = []" "Type ?q = PageTypeLeaf"
    using leaf_inv_initLeaf initLeaf_fields(4) by auto
  then have "repr (view s) (TLeaf j [])" using assms(4,5) by (intro repr.leaf [of _ _ ?q])
  then show ?thesis using assms by (simp add: tree_in_def)
qed

definition schema_tree :: "env \<Rightarrow> tree \<Rightarrow> SchemaManager \<Rightarrow> bool" where
  "schema_tree E t s \<longleftrightarrow> tree_in (treeFuel E) t (sm_pager s) \<and> sm_root s = tree_id t"

lemma schemaInsert_ok:
  assumes "schema_tree E t s" and "fits (sm_pager s) t k d"
  obtains p' t' where "schemaInsert E k d s = (Inr (), s\<lparr>sm_pager := p'\<rparr>)" and "tree_in (treeFuel E) t' p'"
    and "tree_id t' = tree_id t" and "tree_ids t' = tree_ids t"
    and "\<And>k'. lookup t' k' = (if k' = k then Some d else lookup t k')"
    and "\<And>i x. i \<notin> set (tree_ids t) \<Longrightarrow> view (sm_pager s) i = Some x \<Longrightarrow> view p' i = Some x"
proof -
  have t: "tree_in (treeFuel E) t (sm_pager s)" "sm_root s = tree_id t" using assms(1) by (simp_all add: schema_tree_def)
  obtain p' t' where p': "Insert (treeFuel E) (tree_id t) k d (sm_pager s) = ((Inr (), tree_id t), p')"
    "tree_in (treeFuel E) t' p'" "tree_id t' = tree_id t" "tree_ids t' = tree_ids t"
    "\<And>k'. lookup t' k' = (if k' = k then Some d else lookup t k')"
    "\<And>i x. i \<notin> set (tree_ids t) \<Longrightarrow> view (sm_pager s) i = Some x \<Longrightarrow> view p' i = Some x"
    by (rule Insert_tree [OF t(1) assms(2)]) (rule that, (assumption | blast)+)
  have "schemaInsert E k d s = (Inr (), s\<lparr>sm_pager := p'\<rparr>)" using p'(1) t(2) by (simp add: schemaInsert_def)
  with p' show ?thesis by (intro that [of p' t']) auto
qed

lemma schemaDelete_ok:
  assumes "schema_tree E t s" and "\<not> on_path t k"
  obtains p' t' where "schemaDelete E k s = (Inr (lookup t k \<noteq> None), s\<lparr>sm_pager := p'\<rparr>)" and "tree_in (treeFuel E) t' p'"
    and "tree_id t' = tree_id t" and "tree_ids t' = tree_ids t"
    and "\<And>k'. lookup t' k' = (if k' = k then None else lookup t k')"
    and "\<And>i x. i \<notin> set (tree_ids t) \<Longrightarrow> view (sm_pager s) i = Some x \<Longrightarrow> view p' i = Some x"
proof -
  have t: "tree_in (treeFuel E) t (sm_pager s)" "sm_root s = tree_id t" using assms(1) by (simp_all add: schema_tree_def)
  obtain p' t' where p': "Delete (treeFuel E) (tree_id t) k (sm_pager s) = (Inr (lookup t k \<noteq> None), p')"
    "tree_in (treeFuel E) t' p'" "tree_id t' = tree_id t" "tree_ids t' = tree_ids t"
    "\<And>k'. lookup t' k' = (if k' = k then None else lookup t k')"
    "\<And>i x. i \<notin> set (tree_ids t) \<Longrightarrow> view (sm_pager s) i = Some x \<Longrightarrow> view p' i = Some x"
    by (rule Delete_tree [OF t(1) assms(2)]) (rule that, (assumption | blast)+)
  have "schemaDelete E k s = (Inr (lookup t k \<noteq> None), s\<lparr>sm_pager := p'\<rparr>)"
    using p'(1) t(2) by (simp add: schemaDelete_def onPager_def)
  with p' show ?thesis by (intro that [of p' t']) auto
qed

lemma CreateTable_ok:
  assumes st: "schema_tree E t s" and new: "GetTable E (tName ts) s = None" and rm: "room (sm_pager s) 1"
    and j_def: "j = hPageCount (p_header (sm_pager s))" and jm: "j < InvalidPage" and fuel: "0 < treeFuel E"
    and ts'_def: "ts' = ts\<lparr>tRootPage := j, NextAutoInc := (if NextAutoInc ts = 0 then 1 else NextAutoInc ts)\<rparr>"
    and key_def: "key = tableKey (ToLower (lib E) (tName ts))"
    and fit: "fits (sm_pager s) t key (marshalTable E ts')"
  obtains s' t' where "CreateTable E ts s = (Inr (), s')" and "schema_tree E t' s'"
    and "\<And>k. lookup t' k = (if k = key then Some (marshalTable E ts') else lookup t k)"
    and "\<And>n. GetTable E n s' = (if ToLower (lib E) n = ToLower (lib E) (tName ts) then Some ts' else GetTable E n s)"
    and "tree_in (treeFuel E) (TLeaf j []) (sm_pager s')"
    and "\<And>i x. i \<notin> set (tree_ids t) \<Longrightarrow> view (sm_pager s) i = Some x \<Longrightarrow> view (sm_pager s') i = Some x"
proof -
  let ?ln = "ToLower (lib E) (tName ts)"
  have T: "tree_in (treeFuel E) t (sm_pager s)" "sm_root s = tree_id t" using st by (simp_all add: schema_tree_def)
  have P: "pager_inv {} (sm_pager s)" "no_fault (sm_pager s)" "alloc_ok (sm_pager s)" "repr (view (sm_pager s)) t"
    using T(1) by (simp_all add: tree_in_def)
  have rm': "room (sm_pager s) (Suc 0)" using rm by simp
  obtain p1 where p1: "allocLeaf (sm_pager s) = (Inr j, p1)" "pager_inv {} p1" "no_fault p1" "alloc_ok p1"
    "view p1 = (view (sm_pager s))(j \<mapsto> Data (initLeaf (newPage j)))"
    by (rule allocLeaf_ok [OF P(1-3) rm' j_def jm])
  let ?s1 = "s\<lparr>sm_pager := p1\<rparr>"
  have t1: "tree_in (treeFuel E) t p1" "fits p1 t key (marshalTable E ts')"
    using tree_in_new_page [OF T(1) p1(2-4) p1(5)[unfolded j_def]] fit by simp_all
  have st1: "schema_tree E t ?s1" using t1(1) T(2) by (simp add: schema_tree_def)
  have f1: "fits (sm_pager ?s1) t key (marshalTable E ts')" using t1(2) by simp
  obtain p2 t2 where p2: "schemaInsert E key (marshalTable E ts') ?s1 = (Inr (), ?s1\<lparr>sm_pager := p2\<rparr>)"
    "tree_in (treeFuel E) t2 p2" "tree_id t2 = tree_id t" "tree_ids t2 = tree_ids t"
    "\<And>k'. lookup t2 k' = (if k' = key then Some (marshalTable E ts') else lookup t k')"
    "\<And>i x. i \<notin> set (tree_ids t) \<Longrightarrow> view (sm_pager ?s1) i = Some x \<Longrightarrow> view p2 i = Some x"
    by (rule schemaInsert_ok [OF st1 f1]) (rule that, (assumption | blast)+)
  let ?s2 = "s\<lparr>sm_pager := p2, tables := AList.update ?ln ts' (tables s)\<rparr>"
  have jt: "j \<notin> set (tree_ids t)"
    using repr_ids_view [OF P(4), of j] P(3) by (auto simp: alloc_ok_def j_def)
  have "(let ts = ts\<lparr>tRootPage := j\<rparr> in if NextAutoInc ts = 0 then ts\<lparr>NextAutoInc := 1\<rparr> else ts) = ts'"
    by (simp add: ts'_def Let_def)
  then have "CreateTable E ts s = (Inr (), ?s2)"
    using new onPager_eq [of allocLeaf s, OF p1(1)] p2(1)
    by (simp add: CreateTable_def GetTable_def Let_def bindS_def key_def split: if_splits)
  moreover have "schema_tree E t2 ?s2" using p2(2,3) T(2) by (simp add: schema_tree_def)
  moreover have "tree_in (treeFuel E) (TLeaf j []) (sm_pager ?s2)"
  proof -
    have "view p2 j = Some (Data (initLeaf (newPage j)))" using jt p1(5) by (intro p2(6)) simp_all
    moreover have "j \<noteq> InvalidPage" using jm by auto
    ultimately show ?thesis using p2(2) fuel tree_in_leaf by (simp add: tree_in_def)
  qed
  moreover have "view (sm_pager ?s2) i = Some x" if "i \<notin> set (tree_ids t)" "view (sm_pager s) i = Some x" for i x
  proof -
    have "i \<noteq> j" using that(2) P(3) by (auto simp: alloc_ok_def j_def)
    with that show ?thesis using p2(6) [of i x] by (simp add: p1(5))
  qed
  ultimately show ?thesis using that [of ?s2 t2] p2(5) by (simp add: GetTable_def update_conv')
qed

lemma DropTable_ok:
  assumes st: "schema_tree E t s" and old: "GetTable E name s = Some ts"
    and key_def: "key = tableKey (ToLower (lib E) name)" and np: "\<not> on_path t key"
  obtains s' t' where "DropTable E name s = (Inr (), s')" and "schema_tree E t' s'"
    and "\<And>k. lookup t' k = (if k = key then None else lookup t k)"
    and "\<And>n. GetTable E n s' = (if ToLower (lib E) n = ToLower (lib E) name then None else GetTable E n s)"
proof -
  obtain p' t' where p': "schemaDelete E key s = (Inr (lookup t key \<noteq> None), s\<lparr>sm_pager := p'\<rparr>)"
    "tree_in (treeFuel E) t' p'" "tree_id t' = tree_id t"
    "\<And>k'. lookup t' k' = (if k' = key then None else lookup t k')"
    by (rule schemaDelete_ok [OF st np]) (rule that, (assumption | blast)+)
  let ?s = "s\<lparr>sm_pager := p', tables := AList.delete (ToLower (lib E) name) (tables s)\<rparr>"
  have "DropTable E name s = (Inr (), ?s)"
    using old p'(1) by (simp add: DropTable_def GetTable_def Let_def bindS_def key_def)
  moreover have "schema_tree E t' ?s" using p'(2,3) st by (simp add: schema_tree_def)
  ultimately show ?thesis using that [of ?s t'] p'(4) by (simp add: GetTable_def delete_conv')
qed

end
