(* ===== verification/Table.thy ===== *)
theory Table
  imports Catalogue
begin

text \<open>
  The table engine (\<open>internal/storage/table.go\<close>): rows in the B-tree of a table under the
  big-endian row id, and an entry in the tree of every index. \<open>ts\<close> and \<open>is\<close> of the code point
  into the maps of the schema manager, so a write through them is an update of the map.
\<close>

datatype ConflictAction = ConflictAbort | ConflictReplace | ConflictIgnore | ConflictFail | ConflictRollback

record TableEngine =
  te_schema :: SchemaManager
  lastInsertRowID :: "64 word"
  changes :: "64 word"

type_synonym 'a tm = "TableEngine \<Rightarrow> 'a res \<times> TableEngine"

definition NewTableEngine :: "SchemaManager \<Rightarrow> TableEngine" where
  "NewTableEngine s = \<lparr>te_schema = s, lastInsertRowID = 0, changes = 0\<rparr>"

definition bindT :: "'a tm \<Rightarrow> ('a \<Rightarrow> 'b tm) \<Rightarrow> 'b tm" where
  "bindT m f = (\<lambda>t. case m t of (Inl e, t') \<Rightarrow> (Inl e, t') | (Inr x, t') \<Rightarrow> f x t')"

definition returnT :: "'a \<Rightarrow> 'a tm" where "returnT x = (\<lambda>t. (Inr x, t))"
definition failT :: "err \<Rightarrow> 'a tm" where "failT e = (\<lambda>t. (Inl e, t))"
definition liftT :: "'a res \<Rightarrow> 'a tm" where "liftT r = (\<lambda>t. (r, t))"
definition modifyT :: "(TableEngine \<Rightarrow> TableEngine) \<Rightarrow> unit tm" where "modifyT f = (\<lambda>t. (Inr (), f t))"

definition onSchema :: "'a sm \<Rightarrow> 'a tm" where
  "onSchema m = (\<lambda>t. case m (te_schema t) of (r, s) \<Rightarrow> (r, t\<lparr>te_schema := s\<rparr>))"

text \<open>A call whose result is not looked at.\<close>

definition ignoreS :: "'a sm \<Rightarrow> unit sm" where
  "ignoreS m = (\<lambda>s. case m s of (_, s') \<Rightarrow> (Inr (), s'))"

lemma tm_simps [simp]:
  "returnT x t = (Inr x, t)" "failT e t = (Inl e, t)" "liftT r t = (r, t)" "modifyT g t = (Inr (), g t)"
  by (simp_all add: returnT_def failT_def liftT_def modifyT_def)

lemma bindT_Inr [simp]: "m t = (Inr x, t') \<Longrightarrow> bindT m f t = f x t'"
  by (simp add: bindT_def)

lemma bindT_Inl [simp]: "m t = (Inl e, t') \<Longrightarrow> bindT m f t = (Inl e, t')"
  by (simp add: bindT_def)

lemma bindT_eq_Inr: "bindT m f s = (Inr y, t) \<longleftrightarrow> (\<exists>x s'. m s = (Inr x, s') \<and> f x s' = (Inr y, t))"
  by (cases "m s"; cases "fst (m s)") (auto simp: bindT_def)

section \<open>Trees of rows\<close>

definition rowKey :: "64 word \<Rightarrow> byte list" where
  "rowKey rowid = be64 rowid"

definition indexKey :: "golib \<Rightarrow> Value \<Rightarrow> 64 word \<Rightarrow> byte list" where
  "indexKey G v rowid = str_bytes (value_String G v) @ be64 rowid"

text \<open>\<open>NewBTree(te.pager, root)\<close> and one operation on it. An insert gives the root after it.\<close>

definition treeGet :: "env \<Rightarrow> 32 word \<Rightarrow> byte list \<Rightarrow> byte list option sm" where
  "treeGet E root key = onPager (Get (treeFuel E) root key)"

definition treeInsert :: "env \<Rightarrow> 32 word \<Rightarrow> byte list \<Rightarrow> byte list \<Rightarrow> 32 word sm" where
  "treeInsert E root key val = (\<lambda>s.
     case Insert (treeFuel E) root key val (sm_pager s) of
       ((Inl e, _), p) \<Rightarrow> (Inl e, s\<lparr>sm_pager := p\<rparr>)
     | ((Inr _, root'), p) \<Rightarrow> (Inr root', s\<lparr>sm_pager := p\<rparr>))"

definition treeDelete :: "env \<Rightarrow> 32 word \<Rightarrow> byte list \<Rightarrow> bool sm" where
  "treeDelete E root key = onPager (Delete (treeFuel E) root key)"

text \<open>Writes through \<open>ts\<close> and \<open>is\<close>.\<close>

definition setTable :: "env \<Rightarrow> string \<Rightarrow> TableSchema \<Rightarrow> unit sm" where
  "setTable E name ts = modifyS (\<lambda>s. s\<lparr>tables := AList.update (ToLower (lib E) name) ts (tables s)\<rparr>)"

definition setIndex :: "env \<Rightarrow> string \<Rightarrow> IndexSchema \<Rightarrow> unit sm" where
  "setIndex E name is = modifyS (\<lambda>s. s\<lparr>indexes := AList.update (ToLower (lib E) name) is (indexes s)\<rparr>)"

section \<open>Insert\<close>

definition defaultValue :: "Column \<Rightarrow> Value" where
  "defaultValue c = (if Default c \<noteq> '''' then TextValue (Default c) else NullValue)"

text \<open>The loop over the named columns; a column named twice takes the later value.\<close>

fun assignCols :: "golib \<Rightarrow> TableSchema \<Rightarrow> (string \<times> Value) list \<Rightarrow> Row \<Rightarrow> Row res" where
  "assignCols G ts [] row = Inr row"
| "assignCols G ts ((cname, v) # rest) row =
     (case ColumnIndex G cname ts of
        None \<Rightarrow> Inl (ErrNoColumn cname)
      | Some idx \<Rightarrow>
          bindE (CoerceValue G v (cType (Columns ts ! idx))) (\<lambda>coerced.
          assignCols G ts rest (row[idx := coerced])))"

definition buildRow :: "golib \<Rightarrow> TableSchema \<Rightarrow> string list \<Rightarrow> Value list \<Rightarrow> Row res" where
  "buildRow G ts colNames vs =
     (if colNames = [] then
        (if length vs \<noteq> length (Columns ts) then Inl (ErrColumn ''column count mismatch'')
         else mapE (\<lambda>(v, c). CoerceValue G v (cType c)) (zip vs (Columns ts)))
      else if length colNames \<noteq> length vs then Inl (ErrColumn ''column count mismatch'')
      else assignCols G ts (zip colNames vs) (map defaultValue (Columns ts)))"

definition checkNotNull :: "TableSchema \<Rightarrow> Row \<Rightarrow> unit res" where
  "checkNotNull ts row =
     (case find (\<lambda>(c, v). NotNull c \<and> vType v = ValNull \<and> \<not> PrimaryKey c) (zip (Columns ts) row) of
        None \<Rightarrow> Inr ()
      | Some (c, _) \<Rightarrow> Inl (ErrConstraint (cName c)))"

text \<open>The row id, the row with the id in its primary key column, and the table with its next
  automatic id.\<close>

definition chooseRowID :: "TableSchema \<Rightarrow> Row \<Rightarrow> 64 word \<times> Row \<times> TableSchema" where
  "chooseRowID ts row =
     (let next = NextAutoInc ts; ts1 = ts\<lparr>NextAutoInc := next + 1\<rparr>
      in case PrimaryKeyColumn ts of
           None \<Rightarrow> (next, row, ts1)
         | Some i \<Rightarrow>
             let v = row ! i
             in if vType v \<noteq> ValNull \<and> Integer v \<noteq> 0
                then (Integer v, row, if next \<le>s Integer v then ts\<lparr>NextAutoInc := Integer v + 1\<rparr> else ts)
                else (next, row[i := IntValue next], ts1))"

text \<open>The loop over \<open>ts.Indexes\<close>. The new root of an index stays in memory.\<close>

primrec insertIndexes :: "env \<Rightarrow> TableSchema \<Rightarrow> Row \<Rightarrow> 64 word \<Rightarrow> string list \<Rightarrow> unit sm" where
  "insertIndexes E ts row rowid [] = returnS ()"
| "insertIndexes E ts row rowid (n # ns) = (\<lambda>s.
     case GetIndex E n s of
       None \<Rightarrow> insertIndexes E ts row rowid ns s
     | Some is \<Rightarrow>
         (case ColumnIndex (lib E) (iColumn is) ts of
            None \<Rightarrow> insertIndexes E ts row rowid ns s
          | Some ci \<Rightarrow>
              bindS (treeInsert E (iRootPage is) (indexKey (lib E) (row ! ci) rowid) (rowKey rowid)) (\<lambda>root.
              bindS (if root \<noteq> iRootPage is then setIndex E n (is\<lparr>iRootPage := root\<rparr>) else returnS ()) (\<lambda>_.
              insertIndexes E ts row rowid ns)) s))"

definition InsertWithConflict ::
    "env \<Rightarrow> string \<Rightarrow> string list \<Rightarrow> Value list \<Rightarrow> ConflictAction \<Rightarrow> unit tm" where
  "InsertWithConflict E tableName colNames vs onConflict = (\<lambda>t.
     case GetTable E tableName (te_schema t) of
       None \<Rightarrow> (Inl (ErrMissing tableName), t)
     | Some ts \<Rightarrow>
         bindT (liftT (buildRow (lib E) ts colNames vs)) (\<lambda>row.
         bindT (liftT (checkNotNull ts row)) (\<lambda>_.
         let (rowid, row, ts) = chooseRowID ts row; key = rowKey rowid
         in bindT (onSchema (setTable E tableName ts)) (\<lambda>_.
            bindT (onSchema (updateTableSchema E ts)) (\<lambda>_.
            bindT (onSchema (treeGet E (tRootPage ts) key)) (\<lambda>existing.
            if existing \<noteq> None \<and> onConflict = ConflictIgnore then returnT ()
            else bindT (if existing = None then returnT ()
                        else if onConflict = ConflictReplace
                        then bindT (onSchema (treeDelete E (tRootPage ts) key)) (\<lambda>_. returnT ())
                        else failT (ErrConstraint (FormatInt rowid))) (\<lambda>_.
                 bindT (onSchema (treeInsert E (tRootPage ts) key (EncodeRow row))) (\<lambda>root.
                 bindT (if root \<noteq> tRootPage ts
                        then bindT (onSchema (setTable E tableName (ts\<lparr>tRootPage := root\<rparr>))) (\<lambda>_.
                             onSchema (ignoreS (updateTableSchema E (ts\<lparr>tRootPage := root\<rparr>))))
                        else returnT ()) (\<lambda>_.
                 bindT (modifyT (\<lambda>t. t\<lparr>lastInsertRowID := rowid, changes := changes t + 1\<rparr>)) (\<lambda>_.
                 onSchema (insertIndexes E ts row rowid (Indexes ts))))))))))) t)"

definition InsertRow :: "env \<Rightarrow> string \<Rightarrow> string list \<Rightarrow> Value list \<Rightarrow> unit tm" where
  "InsertRow E tableName colNames vs = InsertWithConflict E tableName colNames vs ConflictAbort"

section \<open>Reading\<close>

text \<open>Rows written before a column was added are shorter than the table.\<close>

definition extendRow :: "TableSchema \<Rightarrow> Row \<Rightarrow> Row" where
  "extendRow ts row = row @ map defaultValue (drop (length row) (Columns ts))"

text \<open>\<open>binary.BigEndian.Uint64(cell.Key)\<close> panics on a key shorter than eight bytes.\<close>

definition scanCell :: "TableSchema \<Rightarrow> Cell \<Rightarrow> (64 word \<times> Row) res" where
  "scanCell ts cell =
     (if length (Key cell) < 8 then Inl Panic
      else bindE (DecodeRow (Value cell)) (\<lambda>row. Inr (rd64 (Key cell) 0, extendRow ts row)))"

primrec scanRows :: "env \<Rightarrow> TableSchema \<Rightarrow> nat \<Rightarrow> Cursor \<Rightarrow> (64 word \<times> Row) list pm" where
  "scanRows E ts 0 c = failP OutOfFuel"
| "scanRows E ts (Suc n) c =
     (if atEnd c then returnP []
      else bindP (Current c) (\<lambda>cell.
           bindP (case cell of
                    None \<Rightarrow> returnP []
                  | Some x \<Rightarrow> bindP (liftP (scanCell ts x)) (\<lambda>r. returnP [r])) (\<lambda>here.
           bindP (Advance (treeFuel E) c) (\<lambda>c'.
           bindP (scanRows E ts n c') (\<lambda>rest.
           returnP (here @ rest))))))"

definition Scan :: "env \<Rightarrow> nat \<Rightarrow> string \<Rightarrow> (64 word \<times> Row) list tm" where
  "Scan E fuel tableName = (\<lambda>t.
     case GetTable E tableName (te_schema t) of
       None \<Rightarrow> (Inl (ErrMissing tableName), t)
     | Some ts \<Rightarrow>
         onSchema (onPager (bindP (NewCursor (treeFuel E) (tRootPage ts)) (scanRows E ts fuel))) t)"

definition GetByID :: "env \<Rightarrow> string \<Rightarrow> 64 word \<Rightarrow> Row option tm" where
  "GetByID E tableName rowid = (\<lambda>t.
     case GetTable E tableName (te_schema t) of
       None \<Rightarrow> (Inl (ErrMissing tableName), t)
     | Some ts \<Rightarrow>
         bindT (onSchema (treeGet E (tRootPage ts) (rowKey rowid))) (\<lambda>data.
         case data of
           None \<Rightarrow> returnT None
         | Some d \<Rightarrow> bindT (liftT (DecodeRow d)) (\<lambda>row. returnT (Some row))) t)"

text \<open>The loop of \<open>Count\<close>.\<close>

primrec countFrom :: "env \<Rightarrow> nat \<Rightarrow> Cursor \<Rightarrow> 64 word \<Rightarrow> 64 word pm" where
  "countFrom E 0 c k = failP OutOfFuel"
| "countFrom E (Suc n) c k =
     (if atEnd c then returnP k
      else bindP (Advance (treeFuel E) c) (\<lambda>c'. countFrom E n c' (k + 1)))"

definition Count :: "env \<Rightarrow> nat \<Rightarrow> string \<Rightarrow> 64 word tm" where
  "Count E fuel tableName = (\<lambda>t.
     case GetTable E tableName (te_schema t) of
       None \<Rightarrow> (Inl (ErrMissing tableName), t)
     | Some ts \<Rightarrow>
         onSchema (onPager (bindP (NewCursor (treeFuel E) (tRootPage ts)) (\<lambda>c. countFrom E fuel c 0))) t)"

section \<open>Delete and update\<close>

text \<open>The deletions of index entries; their results are not looked at.\<close>

primrec deleteIndexes :: "env \<Rightarrow> TableSchema \<Rightarrow> Row \<Rightarrow> 64 word \<Rightarrow> string list \<Rightarrow> unit sm" where
  "deleteIndexes E ts row rowid [] = returnS ()"
| "deleteIndexes E ts row rowid (n # ns) = (\<lambda>s.
     case GetIndex E n s of
       None \<Rightarrow> deleteIndexes E ts row rowid ns s
     | Some is \<Rightarrow>
         (case ColumnIndex (lib E) (iColumn is) ts of
            None \<Rightarrow> deleteIndexes E ts row rowid ns s
          | Some ci \<Rightarrow>
              if ci \<ge> length row then deleteIndexes E ts row rowid ns s
              else bindS (ignoreS (treeDelete E (iRootPage is) (indexKey (lib E) (row ! ci) rowid))) (\<lambda>_.
                   deleteIndexes E ts row rowid ns) s))"

definition DeleteRow :: "env \<Rightarrow> string \<Rightarrow> 64 word \<Rightarrow> bool tm" where
  "DeleteRow E tableName rowid = (\<lambda>t.
     case GetTable E tableName (te_schema t) of
       None \<Rightarrow> (Inl (ErrMissing tableName), t)
     | Some ts \<Rightarrow>
         let key = rowKey rowid
         in bindT (onSchema (treeGet E (tRootPage ts) key)) (\<lambda>data.
            case data of
              None \<Rightarrow> returnT False
            | Some d \<Rightarrow>
                bindT (liftT (DecodeRow d)) (\<lambda>row.
                bindT (onSchema (deleteIndexes E ts row rowid (Indexes ts))) (\<lambda>_.
                bindT (onSchema (treeDelete E (tRootPage ts) key)) (\<lambda>deleted.
                bindT (if deleted then modifyT (\<lambda>t. t\<lparr>changes := changes t + 1\<rparr>) else returnT ()) (\<lambda>_.
                returnT deleted))))) t)"

text \<open>\<open>for colName, newVal := range updates\<close>: the list is the map in the order of one
  iteration.\<close>

fun applyUpdates :: "golib \<Rightarrow> TableSchema \<Rightarrow> (string \<times> Value) list \<Rightarrow> Row \<Rightarrow> Row res" where
  "applyUpdates G ts [] row = Inr row"
| "applyUpdates G ts ((colName, newVal) # rest) row =
     (case ColumnIndex G colName ts of
        None \<Rightarrow> Inl (ErrNoColumn colName)
      | Some idx \<Rightarrow>
          bindE (CoerceValue G newVal (cType (Columns ts ! idx))) (\<lambda>coerced.
          if NotNull (Columns ts ! idx) \<and> vType coerced = ValNull then Inl (ErrConstraint colName)
          else applyUpdates G ts rest (row[idx := coerced])))"

primrec updateIndexes ::
    "env \<Rightarrow> TableSchema \<Rightarrow> (string \<times> Value) list \<Rightarrow> Row \<Rightarrow> Row \<Rightarrow> 64 word \<Rightarrow> string list \<Rightarrow> unit sm" where
  "updateIndexes E ts updates oldRow row rowid [] = returnS ()"
| "updateIndexes E ts updates oldRow row rowid (n # ns) = (\<lambda>s.
     case GetIndex E n s of
       None \<Rightarrow> updateIndexes E ts updates oldRow row rowid ns s
     | Some is \<Rightarrow>
         (case ColumnIndex (lib E) (iColumn is) ts of
            None \<Rightarrow> updateIndexes E ts updates oldRow row rowid ns s
          | Some ci \<Rightarrow>
              if map_of updates (ToLower (lib E) (iColumn is)) \<noteq> None
              then bindS (ignoreS (treeDelete E (iRootPage is) (indexKey (lib E) (oldRow ! ci) rowid))) (\<lambda>_.
                   bindS (ignoreS (treeInsert E (iRootPage is) (indexKey (lib E) (row ! ci) rowid) (rowKey rowid))) (\<lambda>_.
                   updateIndexes E ts updates oldRow row rowid ns)) s
              else updateIndexes E ts updates oldRow row rowid ns s))"

text \<open>A new root that the last insert gives is dropped with \<open>bt\<close>.\<close>

definition UpdateRow :: "env \<Rightarrow> string \<Rightarrow> 64 word \<Rightarrow> (string \<times> Value) list \<Rightarrow> unit tm" where
  "UpdateRow E tableName rowid updates = (\<lambda>t.
     case GetTable E tableName (te_schema t) of
       None \<Rightarrow> (Inl (ErrMissing tableName), t)
     | Some ts \<Rightarrow>
         let key = rowKey rowid
         in bindT (onSchema (treeGet E (tRootPage ts) key)) (\<lambda>data.
            case data of
              None \<Rightarrow> failT (ErrMissing (FormatInt rowid))
            | Some d \<Rightarrow>
                bindT (liftT (DecodeRow d)) (\<lambda>row0.
                let oldRow = extendRow ts row0
                in bindT (liftT (applyUpdates (lib E) ts updates oldRow)) (\<lambda>row.
                   bindT (onSchema (updateIndexes E ts updates oldRow row rowid (Indexes ts))) (\<lambda>_.
                   bindT (modifyT (\<lambda>t. t\<lparr>changes := changes t + 1\<rparr>)) (\<lambda>_.
                   bindT (onSchema (treeInsert E (tRootPage ts) key (EncodeRow row))) (\<lambda>_.
                   returnT ())))))) t)"

end
