(* ===== verification/Parser.thy ===== *)
theory Parser
  imports Ast Lexer
begin

text \<open>
  The parser (\<open>internal/engine/parser/parser.go\<close>). A parser of the model maps the state to an error
  or to a result and the state after it; an error ends the parse, as in the code, so the state is
  dropped. \<open>parseExpr\<close> and \<open>parseSelect\<close> call each other through all of the grammar: every other
  function takes the two as arguments, and the recursion itself is closed at the end of the
  theory with fuel.
\<close>

section \<open>The state\<close>

record Parser =
  tokens :: "Token list"
  pos :: nat

definition NewParser :: "Token list \<Rightarrow> Parser" where
  "NewParser ts = \<lparr>tokens = ts, pos = 0\<rparr>"

definition peekP :: "Parser \<Rightarrow> Token" where
  "peekP p = (if pos p \<ge> length (tokens p) then eofToken else tokens p ! pos p)"

definition peekAtP :: "Parser \<Rightarrow> nat \<Rightarrow> Token" where
  "peekAtP p offset =
     (let idx = pos p + offset in if idx \<ge> length (tokens p) then eofToken else tokens p ! idx)"

definition advanceP :: "Parser \<Rightarrow> Token \<times> Parser" where
  "advanceP p =
     (let tok = peekP p in (tok, if tType tok \<noteq> TOKEN_EOF then p\<lparr>pos := pos p + 1\<rparr> else p))"

text \<open>\<open>p.peek().Type\<close>\<close>

definition tokType :: "Parser \<Rightarrow> TokenType" where
  "tokType p = tType (peekP p)"

type_synonym 'a pa = "Parser \<Rightarrow> ('a \<times> Parser) res"

definition bindA :: "'a pa \<Rightarrow> ('a \<Rightarrow> 'b pa) \<Rightarrow> 'b pa" where
  "bindA m f = (\<lambda>p. case m p of Inl e \<Rightarrow> Inl e | Inr (x, p') \<Rightarrow> f x p')"

definition thenA :: "'a pa \<Rightarrow> 'b pa \<Rightarrow> 'b pa" where
  "thenA m m' = bindA m (\<lambda>_. m')"

definition returnA :: "'a \<Rightarrow> 'a pa" where "returnA x = (\<lambda>p. Inr (x, p))"
definition failA :: "err \<Rightarrow> 'a pa" where "failA e = (\<lambda>p. Inl e)"
definition advanceA :: "Token pa" where "advanceA = (\<lambda>p. Inr (advanceP p))"

text \<open>A branch on the type of the next token, a branch that first consumes it, and a token that may be
  there.\<close>

definition ifState :: "(Parser \<Rightarrow> bool) \<Rightarrow> 'a pa \<Rightarrow> 'a pa \<Rightarrow> 'a pa" where
  "ifState P a b = (\<lambda>p. if P p then a p else b p)"

definition ifType :: "(TokenType \<Rightarrow> bool) \<Rightarrow> 'a pa \<Rightarrow> 'a pa \<Rightarrow> 'a pa" where
  "ifType P a b = (\<lambda>p. if P (tokType p) then a p else b p)"

definition onType :: "(TokenType \<Rightarrow> bool) \<Rightarrow> 'a pa \<Rightarrow> 'a pa \<Rightarrow> 'a pa" where
  "onType P a b = ifType P (thenA advanceA a) b"

abbreviation onTok :: "TokenType \<Rightarrow> 'a pa \<Rightarrow> 'a pa \<Rightarrow> 'a pa" where
  "onTok t \<equiv> onType (\<lambda>u. u = t)"

abbreviation ifTok :: "TokenType \<Rightarrow> 'a pa \<Rightarrow> 'a pa \<Rightarrow> 'a pa" where
  "ifTok t \<equiv> ifType (\<lambda>u. u = t)"

definition opt :: "TokenType list \<Rightarrow> bool pa" where
  "opt ts = onType (\<lambda>u. u \<in> set ts) (returnA True) (returnA False)"

text \<open>The errors of the parser carry the text of the format, and value, line and column of the token.\<close>

definition failTok :: "string \<Rightarrow> 'a pa" where
  "failTok msg = (\<lambda>p. let t = peekP p in Inl (ErrParse msg (tValue t) (tLine t) (tCol t)))"

definition failMsg :: "string \<Rightarrow> 'a pa" where
  "failMsg msg = failA (ErrParse msg '''' 0 0)"

definition expect :: "TokenType \<Rightarrow> Token pa" where
  "expect tt = ifTok tt advanceA (failTok ''expected token'')"

definition identKeywords :: "string list" where
  "identKeywords =
     [''SELECT'', ''FROM'', ''WHERE'', ''AS'', ''JOIN'', ''ON'', ''SET'',
      ''TABLES'', ''INDEXES'', ''VIEW'', ''COLUMN'', ''ADD'', ''RENAME'',
      ''TO'', ''KEY'', ''INDEX'', ''TABLE'', ''REPLACE'', ''IGNORE'',
      ''ABORT'', ''FAIL'', ''CONFLICT'', ''ACTION'', ''CASCADE'', ''NO'',
      ''RESTRICT'', ''MATCH'', ''ROWID'', ''STORED'', ''VIRTUAL'', ''ALWAYS'',
      ''NOTHING'', ''DO'', ''RETURNING'', ''NULLS'', ''FIRST'', ''LAST'',
      ''RANGE'', ''ROWS'', ''GROUPS'', ''CURRENT'', ''PRECEDING'', ''FOLLOWING'',
      ''UNBOUNDED'', ''TIES'', ''EXCLUDE'', ''OTHERS'', ''OVER'', ''PARTITION'',
      ''FILTER'', ''WINDOW'', ''BEFORE'', ''AFTER'', ''INSTEAD'', ''OF'',
      ''FOR'', ''EACH'', ''ROW'', ''STATEMENT'', ''TRIGGER'', ''REFERENCES'',
      ''FOREIGN'', ''CHECK'', ''CONSTRAINT'', ''GENERATED'', ''DEFERRABLE'',
      ''INITIALLY'', ''DEFERRED'', ''IMMEDIATE'', ''EXCLUSIVE'', ''BEGIN'',
      ''COMMIT'', ''ROLLBACK'', ''TRANSACTION'', ''SAVEPOINT'', ''RELEASE'',
      ''PRAGMA'', ''VACUUM'', ''RECURSIVE'', ''OUTER'', ''FULL'', ''NATURAL'',
      ''CROSS'', ''USING'', ''RIGHT'']"

definition tokValue :: "string pa" where
  "tokValue = bindA advanceA (\<lambda>t. returnA (tValue t))"

definition expectIdent :: "string pa" where
  "expectIdent =
     ifType (\<lambda>u. u = TOKEN_IDENT \<or> u \<in> KW ` set identKeywords) tokValue (failTok ''expected identifier'')"

text \<open>A call of \<open>expect\<close> or \<open>expectIdent\<close> whose error is not looked at: both fail without consuming.\<close>

definition ignoreA :: "'a \<Rightarrow> 'a pa \<Rightarrow> 'a pa" where
  "ignoreA d m = (\<lambda>p. case m p of Inl _ \<Rightarrow> Inr (d, p) | Inr r \<Rightarrow> Inr r)"

definition tryExpect :: "TokenType \<Rightarrow> unit pa" where
  "tryExpect tt = ignoreA () (thenA (expect tt) (returnA ()))"

definition tryIdent :: "string pa" where
  "tryIdent = ignoreA '''' expectIdent"

section \<open>Loops\<close>

text \<open>The tokens that are left.\<close>

definition remaining :: "Parser \<Rightarrow> nat" where
  "remaining p = length (tokens p) - pos p"

lemma remaining_advance: "tokType p \<noteq> TOKEN_EOF \<Longrightarrow> remaining (snd (advanceP p)) < remaining p"
  by (auto simp: tokType_def advanceP_def Let_def peekP_def remaining_def eofToken_def split: if_splits)

lemma remaining_advance_le: "remaining (snd (advanceP p)) \<le> remaining p"
  by (auto simp: advanceP_def Let_def remaining_def)

text \<open>\<open>for p.peek().Type != ... && p.peek().Type != TOKEN_EOF { p.advance() }\<close>\<close>

function skipUntil :: "TokenType \<Rightarrow> Parser \<Rightarrow> Parser" where
  "skipUntil tt p = (if tokType p \<noteq> tt \<and> tokType p \<noteq> TOKEN_EOF then skipUntil tt (snd (advanceP p)) else p)"
  by pat_completeness auto
termination by (relation "measure (\<lambda>(t, p). remaining p)") (auto dest: remaining_advance)

declare skipUntil.simps [simp del]

definition skipA :: "(Parser \<Rightarrow> Parser) \<Rightarrow> unit pa" where
  "skipA f = (\<lambda>p. Inr ((), f p))"

text \<open>\<open>for { x := m(); ...; if p.peek().Type != TOKEN_COMMA { break }; p.advance() }\<close>\<close>

primrec commaList :: "nat \<Rightarrow> 'a pa \<Rightarrow> 'a list pa" where
  "commaList 0 m = failA OutOfFuel"
| "commaList (Suc n) m = bindA m (\<lambda>x. onTok TOKEN_COMMA (bindA (commaList n m) (\<lambda>xs. returnA (x # xs))) (returnA [x]))"

text \<open>\<open>for { x := m(); ...; if RPAREN { p.advance(); break }; p.expect(TOKEN_COMMA) }\<close>\<close>

primrec parenList :: "nat \<Rightarrow> 'a pa \<Rightarrow> 'a list pa" where
  "parenList 0 m = failA OutOfFuel"
| "parenList (Suc n) m =
     bindA m (\<lambda>x. onTok TOKEN_RPAREN (returnA [x])
       (thenA (expect TOKEN_COMMA) (bindA (parenList n m) (\<lambda>xs. returnA (x # xs)))))"

text \<open>\<open>for p.peek().Type is one of ops { p.advance(); rhs := m(); lhs = f op lhs rhs }\<close>\<close>

primrec binaryLoop :: "nat \<Rightarrow> TokenType list \<Rightarrow> (string \<Rightarrow> string) \<Rightarrow> Expr pa \<Rightarrow> Expr \<Rightarrow> Expr pa" where
  "binaryLoop 0 ops name m lhs = failA OutOfFuel"
| "binaryLoop (Suc n) ops name m lhs =
     ifType (\<lambda>u. u \<in> set ops)
       (bindA tokValue (\<lambda>v. bindA m (\<lambda>rhs. binaryLoop n ops name m (BinaryExpr (name v) lhs rhs))))
       (returnA lhs)"

section \<open>Names and aliases\<close>

text \<open>\<open>AS alias\<close>, or an identifier that follows.\<close>

definition optAlias :: "string pa" where
  "optAlias = onTok (KW ''AS'') expectIdent (ifTok TOKEN_IDENT tokValue (returnA ''''))"


section \<open>Expressions\<close>

text \<open>What the grammar functions use: the library, the fuel of their loops and the two functions that
  close the recursion.\<close>

record pctx =
  pcLib :: golib
  pcFuel :: nat
  pcExpr :: "Expr pa"
  pcSelect :: "SelectStmt pa"

text \<open>\<open>strconv.ParseInt(s, 16, 64)\<close>\<close>

definition hexDigitVal :: "char \<Rightarrow> nat option" where
  "hexDigitVal c =
     (let n = of_char c :: nat
      in if 48 \<le> n \<and> n \<le> 57 then Some (n - 48)
         else if 97 \<le> n \<and> n \<le> 102 then Some (n - 87)
         else if 65 \<le> n \<and> n \<le> 70 then Some (n - 55) else None)"

fun hexVal :: "nat \<Rightarrow> string \<Rightarrow> nat option" where
  "hexVal acc [] = Some acc"
| "hexVal acc (c # cs) = (case hexDigitVal c of None \<Rightarrow> None | Some d \<Rightarrow> hexVal (acc * 16 + d) cs)"

definition ParseHex :: "string \<Rightarrow> 64 word option" where
  "ParseHex s =
     (let neg = (s \<noteq> [] \<and> hd s = CHR ''-'');
          ds = (if s \<noteq> [] \<and> (hd s = CHR ''-'' \<or> hd s = CHR ''+'') then tl s else s)
      in if ds = [] then None
         else case hexVal 0 ds of
                None \<Rightarrow> None
              | Some n \<Rightarrow> if neg then (if n \<le> 2 ^ 63 then Some (- of_nat n) else None)
                          else (if n < 2 ^ 63 then Some (of_nat n) else None))"

definition litE :: "litValue \<Rightarrow> Expr" where
  "litE v = LiteralExpr (Some v) False"

text \<open>The literal of a number token.\<close>

definition parseFloatLit :: "golib \<Rightarrow> Token \<Rightarrow> Expr res" where
  "parseFloatLit G tok =
     (case ParseFloat G (tValue tok) of
        None \<Rightarrow> Inl (ErrParse ''invalid number'' (tValue tok) (tLine tok) (tCol tok))
      | Some f \<Rightarrow> Inr (litE (LitFloat f)))"

definition parseNumber :: "golib \<Rightarrow> Token \<Rightarrow> Expr res" where
  "parseNumber G tok =
     (let v = tValue tok
      in if CHR ''.'' \<in> set v \<or> CHR ''e'' \<in> set v \<or> CHR ''E'' \<in> set v then parseFloatLit G tok
         else if take 2 (ToLower G v) = ''0x'' then
           (case ParseHex (drop 2 v) of
              None \<Rightarrow> Inl (ErrParse ''invalid hex number'' v (tLine tok) (tCol tok))
            | Some i \<Rightarrow> Inr (litE (LitInt i)))
         else (case ParseInt v of
                 None \<Rightarrow> parseFloatLit G tok
               | Some i \<Rightarrow> Inr (litE (LitInt i))))"

definition liftA :: "'a res \<Rightarrow> 'a pa" where
  "liftA r = (\<lambda>p. case r of Inl e \<Rightarrow> Inl e | Inr x \<Rightarrow> Inr (x, p))"

definition isIdentLike :: "TokenType \<Rightarrow> bool" where
  "isIdentLike tt \<longleftrightarrow> tt \<in> KW ` {''COUNT'', ''SUM'', ''AVG'', ''MIN'', ''MAX'', ''REPLACE'', ''IGNORE'', ''ROWID''}"

definition parseFuncCall :: "pctx \<Rightarrow> string \<Rightarrow> Expr pa" where
  "parseFuncCall c name =
     thenA advanceA
      (onTok TOKEN_RPAREN (returnA (FuncCallExpr name [] False False))
      (onTok TOKEN_STAR (thenA (expect TOKEN_RPAREN) (returnA (FuncCallExpr name [] False True)))
      (bindA (opt [KW ''DISTINCT'']) (\<lambda>d.
       bindA (parenList (pcFuel c) (pcExpr c)) (\<lambda>args. returnA (FuncCallExpr name args d False))))))"

text \<open>The \<open>WHEN\<close> clauses of a \<open>CASE\<close>.\<close>

primrec parseWhens :: "nat \<Rightarrow> pctx \<Rightarrow> (Expr \<times> Expr) list pa" where
  "parseWhens 0 c = failA OutOfFuel"
| "parseWhens (Suc n) c =
     onTok (KW ''WHEN'')
       (bindA (pcExpr c) (\<lambda>cond.
        thenA (expect (KW ''THEN''))
        (bindA (pcExpr c) (\<lambda>th.
         bindA (parseWhens n c) (\<lambda>ws. returnA ((cond, th) # ws))))))
       (returnA [])"

definition parseCaseExpr :: "pctx \<Rightarrow> Expr pa" where
  "parseCaseExpr c =
     thenA advanceA
      (bindA (ifTok (KW ''WHEN'') (returnA None) (bindA (pcExpr c) (\<lambda>b. returnA (Some b)))) (\<lambda>base.
       bindA (parseWhens (pcFuel c) c) (\<lambda>whens.
       bindA (onTok (KW ''ELSE'') (bindA (pcExpr c) (\<lambda>e. returnA (Some e))) (returnA None)) (\<lambda>els.
       thenA (expect (KW ''END'')) (returnA (CaseExpr base whens els))))))"

text \<open>A subquery up to its closing parenthesis, and an opening parenthesis before it.\<close>

definition selectParen :: "pctx \<Rightarrow> SelectStmt pa" where
  "selectParen c = bindA (pcSelect c) (\<lambda>sel. thenA (expect TOKEN_RPAREN) (returnA sel))"

definition parseTypeName :: "golib \<Rightarrow> string pa" where
  "parseTypeName G =
     (let parens = onTok TOKEN_LPAREN (thenA (skipA (skipUntil TOKEN_RPAREN)) (thenA (opt [TOKEN_RPAREN]) (returnA ())))
                     (returnA ());
          isIdent = (\<lambda>s p. tokType p = TOKEN_IDENT \<and> ToUpper G (tValue (peekP p)) = s)
      in ifType (\<lambda>u. u \<in> KW ` {''INTEGER'', ''TEXT'', ''REAL'', ''BLOB''})
           (bindA tokValue (\<lambda>name. thenA parens (returnA name)))
           (ifTok TOKEN_IDENT
              (bindA tokValue (\<lambda>name.
                 let upper = ToUpper G name
                 in if upper = ''UNSIGNED'' then
                      ifState (isIdent ''BIG'')
                        (thenA advanceA
                           (ifState (\<lambda>p. tokType p = KW ''INTEGER'' \<or> isIdent ''INT'' p)
                              (thenA advanceA (returnA ''INTEGER'')) (returnA ''INTEGER'')))
                        (returnA ''INTEGER'')
                    else thenA (if upper \<in> {''DOUBLE'', ''VARYING'', ''NATIVE''} then opt [TOKEN_IDENT] else returnA False)
                           (thenA parens (returnA name))))
              (returnA ''TEXT'')))"

text \<open>A name: a column, a column of a table, or a function call.\<close>

definition parseName :: "pctx \<Rightarrow> Expr pa" where
  "parseName c =
     bindA tokValue (\<lambda>name.
       onTok TOKEN_DOT (bindA expectIdent (\<lambda>field. returnA (IdentExpr name field)))
      (ifTok TOKEN_LPAREN (parseFuncCall c name)
      (returnA (IdentExpr '''' name))))"

text \<open>What follows an opening parenthesis.\<close>

definition parseParen :: "pctx \<Rightarrow> Expr pa" where
  "parseParen c =
     ifTok (KW ''SELECT'') (bindA (selectParen c) (\<lambda>sel. returnA (SubqueryExpr sel)))
      (bindA (pcExpr c) (\<lambda>e.
       onTok TOKEN_COMMA
         (bindA (commaList (pcFuel c) (pcExpr c)) (\<lambda>es.
          thenA (expect TOKEN_RPAREN) (returnA (RowValueExpr (e # es)))))
         (thenA (expect TOKEN_RPAREN) (returnA e))))"

definition parseCast :: "pctx \<Rightarrow> Expr pa" where
  "parseCast c =
     thenA (expect TOKEN_LPAREN)
      (bindA (pcExpr c) (\<lambda>e.
       thenA (expect (KW ''AS''))
      (bindA (parseTypeName (pcLib c)) (\<lambda>t.
       thenA (expect TOKEN_RPAREN) (returnA (CastExpr e t))))))"

definition parseExists :: "pctx \<Rightarrow> bool \<Rightarrow> Expr pa" where
  "parseExists c isNot =
     thenA (expect TOKEN_LPAREN) (bindA (selectParen c) (\<lambda>sel. returnA (ExistsExpr sel isNot)))"

primrec parsePrimaryExpr :: "nat \<Rightarrow> pctx \<Rightarrow> Expr pa" where
  "parsePrimaryExpr 0 c = failA OutOfFuel"
| "parsePrimaryExpr (Suc n) c =
      ifTok TOKEN_NUMBER (bindA advanceA (\<lambda>tok. liftA (parseNumber (pcLib c) tok)))
     (ifTok TOKEN_STRING (bindA tokValue (\<lambda>v. returnA (litE (LitString v))))
     (onTok (KW ''NULL'') (returnA (LiteralExpr None True))
     (onTok (KW ''TRUE'') (returnA (litE (LitInt 1)))
     (onTok (KW ''FALSE'') (returnA (litE (LitInt 0)))
     (onTok TOKEN_LPAREN (parseParen c)
     (ifTok (KW ''CASE'') (parseCaseExpr c)
     (onTok (KW ''CAST'') (parseCast c)
     (onTok (KW ''EXISTS'') (parseExists c False)
     (onTok (KW ''NOT'')
        (onTok (KW ''EXISTS'') (parseExists c True)
          (bindA (parsePrimaryExpr n c) (\<lambda>operand. returnA (UnaryExpr ''NOT'' operand))))
     (onTok TOKEN_STAR (returnA StarExpr)
     (ifTok TOKEN_IDENT (parseName c)
     (ifType isIdentLike (parseName c)
     (failTok ''unexpected token'')))))))))))))"


text \<open>\<open>IS\<close> after a primary expression.\<close>

primrec postfixLoop :: "nat \<Rightarrow> pctx \<Rightarrow> Expr \<Rightarrow> Expr pa" where
  "postfixLoop 0 c e = failA OutOfFuel"
| "postfixLoop (Suc n) c e =
     onTok (KW ''IS'')
       (bindA (opt [KW ''NOT'']) (\<lambda>isNot.
        onTok (KW ''NULL'') (postfixLoop n c (IsNullExpr e isNot))
          (bindA (parsePrimaryExpr (pcFuel c) c) (\<lambda>rhs.
           postfixLoop n c (BinaryExpr (if isNot then ''!='' else ''='') e rhs)))))
       (returnA e)"

definition parsePostfix :: "pctx \<Rightarrow> Expr pa" where
  "parsePostfix c = bindA (parsePrimaryExpr (pcFuel c) c) (postfixLoop (pcFuel c) c)"

definition parseUnary :: "pctx \<Rightarrow> Expr pa" where
  "parseUnary c =
     onTok TOKEN_MINUS (bindA (parsePostfix c) (\<lambda>e. returnA (UnaryExpr ''-'' e)))
    (onTok TOKEN_PLUS (parsePostfix c)
    (onTok TOKEN_TILDE (bindA (parsePostfix c) (\<lambda>e. returnA (UnaryExpr ''~'' e)))
    (parsePostfix c)))"

definition parseMulDiv :: "pctx \<Rightarrow> Expr pa" where
  "parseMulDiv c = bindA (parseUnary c) (binaryLoop (pcFuel c) [TOKEN_STAR, TOKEN_SLASH, TOKEN_PERCENT] id (parseUnary c))"

definition parseAddSub :: "pctx \<Rightarrow> Expr pa" where
  "parseAddSub c = bindA (parseMulDiv c) (binaryLoop (pcFuel c) [TOKEN_PLUS, TOKEN_MINUS] id (parseMulDiv c))"

definition parseBitShift :: "pctx \<Rightarrow> Expr pa" where
  "parseBitShift c = bindA (parseAddSub c) (binaryLoop (pcFuel c) [TOKEN_LSHIFT, TOKEN_RSHIFT] id (parseAddSub c))"

definition parseBitAnd :: "pctx \<Rightarrow> Expr pa" where
  "parseBitAnd c = bindA (parseBitShift c) (binaryLoop (pcFuel c) [TOKEN_AMPERSAND] (\<lambda>_. ''&'') (parseBitShift c))"

definition parseBitOr :: "pctx \<Rightarrow> Expr pa" where
  "parseBitOr c = bindA (parseBitAnd c) (binaryLoop (pcFuel c) [TOKEN_PIPE] (\<lambda>_. ''|'') (parseBitAnd c))"

definition parseConcat :: "pctx \<Rightarrow> Expr pa" where
  "parseConcat c = bindA (parseBitOr c) (binaryLoop (pcFuel c) [TOKEN_PIPE_PIPE] (\<lambda>_. ''||'') (parseBitOr c))"

section \<open>Comparisons\<close>

text \<open>The list of \<open>IN\<close>, which may be empty and may end in a comma.\<close>

primrec inItems :: "nat \<Rightarrow> pctx \<Rightarrow> Expr list pa" where
  "inItems 0 c = failA OutOfFuel"
| "inItems (Suc n) c =
     ifType (\<lambda>u. u \<noteq> TOKEN_RPAREN \<and> u \<noteq> TOKEN_EOF)
       (bindA (pcExpr c) (\<lambda>e.
        onTok TOKEN_COMMA (bindA (inItems n c) (\<lambda>es. returnA (e # es))) (returnA [e])))
       (returnA [])"

text \<open>What follows \<open>IN\<close>, \<open>LIKE\<close>, \<open>GLOB\<close> and \<open>BETWEEN\<close>.\<close>

definition parseIn :: "pctx \<Rightarrow> Expr \<Rightarrow> bool \<Rightarrow> Expr pa" where
  "parseIn c lhs isNot =
     thenA (expect TOKEN_LPAREN)
       (ifTok (KW ''SELECT'')
          (bindA (selectParen c) (\<lambda>sel. returnA (InExpr lhs [] (Some sel) isNot)))
          (bindA (inItems (pcFuel c) c) (\<lambda>es.
           thenA (expect TOKEN_RPAREN) (returnA (InExpr lhs es None isNot)))))"

text \<open>\<open>KW_ESCAPE\<close> and \<open>KW_COLLATE\<close> are declared as other names of \<open>KW_MATCH\<close>.\<close>

definition KW_ESCAPE :: TokenType where "KW_ESCAPE = KW ''MATCH''"
definition KW_COLLATE :: TokenType where "KW_COLLATE = KW ''MATCH''"

definition parseLike :: "pctx \<Rightarrow> Expr \<Rightarrow> bool \<Rightarrow> Expr pa" where
  "parseLike c lhs isNot =
     bindA (parseConcat c) (\<lambda>pat.
     bindA (onTok KW_ESCAPE (bindA (parseConcat c) (\<lambda>e. returnA (Some e))) (returnA None)) (\<lambda>esc.
     returnA (LikeExpr lhs pat esc isNot)))"

definition parseGlob :: "pctx \<Rightarrow> Expr \<Rightarrow> bool \<Rightarrow> Expr pa" where
  "parseGlob c lhs isNot = bindA (parseConcat c) (\<lambda>pat. returnA (GlobExpr lhs pat isNot))"

definition parseBetween :: "pctx \<Rightarrow> Expr \<Rightarrow> bool \<Rightarrow> Expr pa" where
  "parseBetween c lhs isNot =
     bindA (parseConcat c) (\<lambda>low.
     thenA (expect (KW ''AND''))
    (bindA (parseConcat c) (\<lambda>high. returnA (BetweenExpr lhs low high isNot))))"

definition parseIs :: "pctx \<Rightarrow> Expr \<Rightarrow> Expr pa" where
  "parseIs c lhs =
     bindA (opt [KW ''NOT'']) (\<lambda>isNot.
       let op = (if isNot then ''!='' else ''='')
       in onTok (KW ''NULL'') (returnA (IsNullExpr lhs isNot))
         (ifType (\<lambda>u. u = KW ''TRUE'' \<or> u = KW ''FALSE'')
            (bindA tokValue (\<lambda>val.
             returnA (BinaryExpr op lhs (litE (LitInt (if ToUpper (pcLib c) val = ''TRUE'' then 1 else 0))))))
            (bindA (parseConcat c) (\<lambda>rhs. returnA (BinaryExpr op lhs rhs)))))"

definition compOps :: "TokenType list" where
  "compOps = [TOKEN_EQ, TOKEN_NEQ, TOKEN_LT, TOKEN_LTE, TOKEN_GT, TOKEN_GTE]"

primrec compLoop :: "nat \<Rightarrow> pctx \<Rightarrow> Expr \<Rightarrow> Expr pa" where
  "compLoop 0 c lhs = failA OutOfFuel"
| "compLoop (Suc n) c lhs =
     ifType (\<lambda>u. u \<in> set compOps)
       (bindA tokValue (\<lambda>op. bindA (parseConcat c) (\<lambda>rhs. compLoop n c (BinaryExpr op lhs rhs))))
    (onTok (KW ''IS'') (bindA (parseIs c lhs) (compLoop n c))
    (onTok (KW ''IN'') (bindA (parseIn c lhs False) (compLoop n c))
    (onTok (KW ''NOT'')
       (onTok (KW ''IN'') (bindA (parseIn c lhs True) (compLoop n c))
       (onTok (KW ''LIKE'') (bindA (parseLike c lhs True) (compLoop n c))
       (onTok (KW ''GLOB'') (bindA (parseGlob c lhs True) (compLoop n c))
       (onTok (KW ''BETWEEN'') (bindA (parseBetween c lhs True) (compLoop n c))
       (bindA (bindA (parseConcat c) (compLoop n c)) (\<lambda>operand.
        returnA (BinaryExpr ''AND'' lhs (UnaryExpr ''NOT'' operand))))))))
    (onTok (KW ''LIKE'') (bindA (parseLike c lhs False) (compLoop n c))
    (onTok (KW ''GLOB'') (bindA (parseGlob c lhs False) (compLoop n c))
    (onTok (KW ''BETWEEN'') (bindA (parseBetween c lhs False) (compLoop n c))
    (returnA lhs)))))))"

definition parseComparison :: "pctx \<Rightarrow> Expr pa" where
  "parseComparison c = bindA (parseConcat c) (compLoop (pcFuel c) c)"

definition parseNot :: "pctx \<Rightarrow> Expr pa" where
  "parseNot c =
     onTok (KW ''NOT'') (bindA (parseComparison c) (\<lambda>e. returnA (UnaryExpr ''NOT'' e))) (parseComparison c)"

definition parseAnd :: "pctx \<Rightarrow> Expr pa" where
  "parseAnd c = bindA (parseNot c) (binaryLoop (pcFuel c) [KW ''AND''] (\<lambda>_. ''AND'') (parseNot c))"

definition parseOr :: "pctx \<Rightarrow> Expr pa" where
  "parseOr c = bindA (parseAnd c) (binaryLoop (pcFuel c) [KW ''OR''] (\<lambda>_. ''OR'') (parseAnd c))"


section \<open>Queries\<close>

definition selectColumn :: "pctx \<Rightarrow> SelectColumn pa" where
  "selectColumn c =
     onTok TOKEN_STAR (returnA (SelectColumn None '''' True))
      (bindA (pcExpr c) (\<lambda>e. bindA optAlias (\<lambda>a. returnA (SelectColumn (Some e) a False))))"

definition parseSelectColumns :: "pctx \<Rightarrow> SelectColumn list pa" where
  "parseSelectColumns c = commaList (pcFuel c) (selectColumn c)"

definition tableRef :: "TableRef pa" where
  "tableRef = bindA expectIdent (\<lambda>name. bindA optAlias (\<lambda>a. returnA (TableRef name a)))"

text \<open>The \<open>break\<close> inside the \<open>switch\<close> on the token after the comma leaves the \<open>switch\<close> only.\<close>

primrec parseTableRefs :: "nat \<Rightarrow> TableRef list pa" where
  "parseTableRefs 0 = failA OutOfFuel"
| "parseTableRefs (Suc n) =
     ifTok TOKEN_LPAREN (returnA [])
       (bindA tableRef (\<lambda>r.
        onTok TOKEN_COMMA (bindA (parseTableRefs n) (\<lambda>rs. returnA (r # rs))) (returnA [r])))"

text \<open>The words before \<open>JOIN\<close>; \<open>None\<close> when no join follows.\<close>

definition joinType :: "string option pa" where
  "joinType =
     onTok (KW ''INNER'') (returnA (Some ''INNER''))
    (onTok (KW ''LEFT'') (thenA (opt [KW ''OUTER'']) (returnA (Some ''LEFT'')))
    (onTok (KW ''RIGHT'') (thenA (opt [KW ''OUTER'']) (returnA (Some ''RIGHT'')))
    (onTok (KW ''FULL'') (thenA (opt [KW ''OUTER'']) (returnA (Some ''FULL'')))
    (onTok (KW ''CROSS'') (returnA (Some ''CROSS''))
    (onTok (KW ''NATURAL'') (returnA (Some ''NATURAL''))
    (ifTok (KW ''JOIN'') (returnA (Some ''INNER''))
    (returnA None)))))))"

definition joinClause :: "pctx \<Rightarrow> string \<Rightarrow> JoinClause pa" where
  "joinClause c jt =
     ifTok (KW ''JOIN'')
       (thenA advanceA
         (bindA tableRef (\<lambda>t.
          onTok (KW ''ON'') (bindA (pcExpr c) (\<lambda>e. returnA (JoinClause jt t (Some e) [])))
         (onTok (KW ''USING'')
            (thenA (expect TOKEN_LPAREN)
              (bindA (parenList (pcFuel c) expectIdent) (\<lambda>us. returnA (JoinClause jt t None us))))
         (returnA (JoinClause jt t None []))))))
       (failMsg ''expected JOIN keyword'')"

primrec parseJoins :: "nat \<Rightarrow> pctx \<Rightarrow> JoinClause list pa" where
  "parseJoins 0 c = failA OutOfFuel"
| "parseJoins (Suc n) c =
     bindA joinType (\<lambda>jt. case jt of
         None \<Rightarrow> returnA []
       | Some t \<Rightarrow> bindA (joinClause c t) (\<lambda>j. bindA (parseJoins n c) (\<lambda>js. returnA (j # js))))"

text \<open>A keyword with an expression after it.\<close>

definition clause :: "pctx \<Rightarrow> string \<Rightarrow> Expr option pa" where
  "clause c kw = onTok (KW kw) (bindA (pcExpr c) (\<lambda>e. returnA (Some e))) (returnA None)"

definition groupBy :: "pctx \<Rightarrow> Expr list pa" where
  "groupBy c = onTok (KW ''GROUP'') (thenA (expect (KW ''BY'')) (commaList (pcFuel c) (pcExpr c))) (returnA [])"

definition compound :: "pctx \<Rightarrow> CompoundClause option pa" where
  "compound c =
     ifType (\<lambda>u. u \<in> KW ` {''UNION'', ''INTERSECT'', ''EXCEPT''})
       (bindA tokValue (\<lambda>op.
        bindA (opt [KW ''ALL'']) (\<lambda>all.
        bindA (pcSelect c) (\<lambda>rhs. returnA (Some (CompoundClause op all rhs))))))
       (returnA None)"

definition orderItem :: "pctx \<Rightarrow> OrderByExpr pa" where
  "orderItem c =
     bindA (pcExpr c) (\<lambda>e.
     bindA (onTok (KW ''DESC'') (returnA True) (onTok (KW ''ASC'') (returnA False) (returnA False))) (\<lambda>d.
     bindA (onTok (KW ''NULLS'')
              (onTok (KW ''FIRST'') (returnA ''FIRST'') (onTok (KW ''LAST'') (returnA ''LAST'') (returnA '''')))
              (returnA '''')) (\<lambda>n.
     returnA (OrderByExpr e d n))))"

definition orderBy :: "pctx \<Rightarrow> OrderByExpr list pa" where
  "orderBy c = onTok (KW ''ORDER'') (thenA (expect (KW ''BY'')) (commaList (pcFuel c) (orderItem c))) (returnA [])"

definition fromClause :: "pctx \<Rightarrow> (TableRef list \<times> JoinClause list) pa" where
  "fromClause c =
     onTok (KW ''FROM'')
       (bindA (parseTableRefs (pcFuel c)) (\<lambda>refs.
        bindA (parseJoins (pcFuel c) c) (\<lambda>joins. returnA (refs, joins))))
       (returnA ([], []))"

definition parseSelectBody :: "pctx \<Rightarrow> SelectStmt pa" where
  "parseSelectBody c =
     thenA advanceA
    (bindA (onTok (KW ''DISTINCT'') (returnA True) (onTok (KW ''ALL'') (returnA False) (returnA False))) (\<lambda>d.
     bindA (parseSelectColumns c) (\<lambda>cols.
     bindA (fromClause c) (\<lambda>(refs, joins).
     bindA (clause c ''WHERE'') (\<lambda>wh.
     bindA (groupBy c) (\<lambda>g.
     bindA (clause c ''HAVING'') (\<lambda>h.
     bindA (compound c) (\<lambda>comp.
     bindA (orderBy c) (\<lambda>ob.
     bindA (clause c ''LIMIT'') (\<lambda>l.
     bindA (clause c ''OFFSET'') (\<lambda>ofs.
     returnA (SelectStmt d cols refs joins wh g h ob l ofs comp None))))))))))))"

section \<open>Closing the recursion\<close>

fun parseExpr :: "golib \<Rightarrow> nat \<Rightarrow> Expr pa"
and parseSelect :: "golib \<Rightarrow> nat \<Rightarrow> SelectStmt pa" where
  "parseExpr G 0 = failA OutOfFuel"
| "parseSelect G 0 = failA OutOfFuel"
| "parseExpr G (Suc n) =
     parseOr \<lparr>pcLib = G, pcFuel = Suc n, pcExpr = parseExpr G n, pcSelect = parseSelect G n\<rparr>"
| "parseSelect G (Suc n) =
     parseSelectBody \<lparr>pcLib = G, pcFuel = Suc n, pcExpr = parseExpr G n, pcSelect = parseSelect G n\<rparr>"

declare parseExpr.simps [simp del] parseSelect.simps [simp del]

definition grammar :: "golib \<Rightarrow> nat \<Rightarrow> pctx" where
  "grammar G n = \<lparr>pcLib = G, pcFuel = n, pcExpr = parseExpr G n, pcSelect = parseSelect G n\<rparr>"

section \<open>Statements that query or change rows\<close>

definition cte :: "pctx \<Rightarrow> CTE pa" where
  "cte c =
     bindA expectIdent (\<lambda>name.
     bindA (onTok TOKEN_LPAREN (parenList (pcFuel c) expectIdent) (returnA [])) (\<lambda>cols.
     thenA (expect (KW ''AS''))
    (thenA (expect TOKEN_LPAREN)
    (bindA (selectParen c) (\<lambda>sel. returnA (CTE name cols sel))))))"

definition parseWith :: "pctx \<Rightarrow> Statement pa" where
  "parseWith c =
     thenA advanceA
    (bindA (opt [KW ''RECURSIVE'']) (\<lambda>rec.
     bindA (commaList (pcFuel c) (cte c)) (\<lambda>ctes.
     bindA (pcSelect c) (\<lambda>sel. returnA (SelectSt (setWith (Some (WithClause rec ctes)) sel))))))"

text \<open>The word after \<open>OR\<close>.\<close>

definition orWord :: "string pa" where
  "orWord =
     ifType (\<lambda>u. u \<in> KW ` {''REPLACE'', ''IGNORE'', ''ABORT'', ''FAIL'', ''ROLLBACK''})
       (\<lambda>p. case tokType p of KW w \<Rightarrow> thenA advanceA (returnA w) p | _ \<Rightarrow> returnA '''' p) (returnA '''')"

definition valueRow :: "pctx \<Rightarrow> Expr list pa" where
  "valueRow c = thenA (expect TOKEN_LPAREN) (parenList (pcFuel c) (pcExpr c))"

definition parseInsert :: "pctx \<Rightarrow> Statement pa" where
  "parseInsert c =
     thenA advanceA
    (bindA (onTok (KW ''OR'') orWord (onTok (KW ''REPLACE'') (returnA ''REPLACE'') (returnA ''''))) (\<lambda>orw.
     thenA (expect (KW ''INTO''))
    (bindA expectIdent (\<lambda>table.
     bindA (onTok TOKEN_LPAREN (parenList (pcFuel c) expectIdent) (returnA [])) (\<lambda>cols.
     let stmt = \<lparr>insTable = table, insColumns = cols, insValues = [], insOnConflict = '''', insSelect = None, insOr = orw\<rparr>
     in ifTok (KW ''SELECT'')
          (bindA (pcSelect c) (\<lambda>sel. returnA (InsertSt (stmt\<lparr>insSelect := Some sel\<rparr>))))
          (thenA (expect (KW ''VALUES''))
          (bindA (commaList (pcFuel c) (valueRow c)) (\<lambda>rows.
           bindA (onTok (KW ''ON'')
                    (thenA (expect (KW ''CONFLICT'')) (thenA advanceA tokValue))
                    (returnA '''')) (\<lambda>action.
           returnA (InsertSt (stmt\<lparr>insValues := rows, insOnConflict := action\<rparr>)))))))))))"

definition setClause :: "pctx \<Rightarrow> (string \<times> Expr) pa" where
  "setClause c =
     bindA expectIdent (\<lambda>col. thenA (expect TOKEN_EQ) (bindA (pcExpr c) (\<lambda>e. returnA (col, e))))"

definition parseUpdate :: "pctx \<Rightarrow> Statement pa" where
  "parseUpdate c =
     thenA advanceA
    (bindA (onTok (KW ''OR'')
              (ifType (\<lambda>u. u \<in> KW ` {''REPLACE'', ''IGNORE'', ''ABORT'', ''FAIL'', ''ROLLBACK''}) tokValue (returnA ''''))
              (returnA '''')) (\<lambda>orw.
     bindA expectIdent (\<lambda>table.
     thenA (expect (KW ''SET''))
    (bindA (commaList (pcFuel c) (setClause c)) (\<lambda>sets.
     bindA (clause c ''WHERE'') (\<lambda>wh.
     returnA (UpdateSt \<lparr>updTable = table, updSets = sets, updWhere = wh, updOr = orw\<rparr>)))))))"

definition parseDelete :: "pctx \<Rightarrow> Statement pa" where
  "parseDelete c =
     thenA advanceA
    (thenA (expect (KW ''FROM''))
    (bindA expectIdent (\<lambda>table.
     bindA (clause c ''WHERE'') (\<lambda>wh.
     returnA (DeleteSt \<lparr>delTable = table, delWhere = wh\<rparr>)))))"


section \<open>Definitions of tables\<close>

text \<open>\<open>for depth > 0 && p.peek().Type != TOKEN_EOF\<close>: consuming up to the parenthesis that closes.\<close>

function skipDepth :: "nat \<Rightarrow> Parser \<Rightarrow> Parser" where
  "skipDepth depth p =
     (if depth > 0 \<and> tokType p \<noteq> TOKEN_EOF
      then skipDepth (if tokType p = TOKEN_LPAREN then depth + 1
                      else if tokType p = TOKEN_RPAREN then depth - 1 else depth) (snd (advanceP p))
      else p)"
  by pat_completeness auto
termination by (relation "measure (\<lambda>(d, p). remaining p)") (auto dest: remaining_advance)

declare skipDepth.simps [simp del]

definition skipBalancedParens :: "unit pa" where
  "skipBalancedParens = thenA (tryExpect TOKEN_LPAREN) (skipA (skipDepth 1))"

text \<open>The clauses after a reference.\<close>

primrec refClauses :: "nat \<Rightarrow> unit pa" where
  "refClauses 0 = failA OutOfFuel"
| "refClauses (Suc n) =
     onTok (KW ''ON'') (thenA advanceA (thenA advanceA (refClauses n)))
    (onTok (KW ''MATCH'') (thenA advanceA (refClauses n))
    (ifType (\<lambda>u. u = KW ''NOT'' \<or> u = KW ''DEFERRABLE'')
       (thenA (opt [KW ''NOT''])
       (thenA advanceA
       (onTok (KW ''INITIALLY'') (thenA advanceA (refClauses n)) (refClauses n))))
    (returnA ())))"

definition skipForeignKeyRef :: "nat \<Rightarrow> unit pa" where
  "skipForeignKeyRef n =
     onTok (KW ''REFERENCES'')
       (thenA tryIdent
       (thenA (onTok TOKEN_LPAREN (thenA (skipA (skipUntil TOKEN_RPAREN)) (opt [TOKEN_RPAREN])) (returnA False))
       (refClauses n)))
       (returnA ())"

text \<open>The column list of a table constraint: the errors of \<open>expectIdent\<close> and \<open>expect\<close> are not looked
  at, so the loop ends at a closing parenthesis only.\<close>

primrec constraintColumns :: "nat \<Rightarrow> bool \<Rightarrow> string list pa" where
  "constraintColumns 0 dir = failA OutOfFuel"
| "constraintColumns (Suc n) dir =
     bindA tryIdent (\<lambda>col.
     thenA (if dir then opt [KW ''ASC'', KW ''DESC''] else returnA False)
    (onTok TOKEN_RPAREN (returnA [col])
       (thenA (tryExpect TOKEN_COMMA)
         (bindA (constraintColumns n dir) (\<lambda>cs. returnA (col # cs))))))"

definition parseTableConstraint :: "nat \<Rightarrow> TableConstraint pa" where
  "parseTableConstraint n =
     bindA (onTok (KW ''CONSTRAINT'') tryIdent (returnA '''')) (\<lambda>name.
     let tc = \<lparr>tcType = '''', tcColumns = [], tcName = name\<rparr>
     in onTok (KW ''PRIMARY'')
          (thenA (tryExpect (KW ''KEY'')) (thenA (tryExpect TOKEN_LPAREN)
            (bindA (constraintColumns n True) (\<lambda>cs.
             returnA (tc\<lparr>tcColumns := cs, tcType := ''PRIMARY KEY''\<rparr>)))))
       (onTok (KW ''UNIQUE'')
          (thenA (tryExpect TOKEN_LPAREN)
            (bindA (constraintColumns n False) (\<lambda>cs.
             returnA (tc\<lparr>tcColumns := cs, tcType := ''UNIQUE''\<rparr>))))
       (onTok (KW ''CHECK'')
          (thenA (tryExpect TOKEN_LPAREN) (thenA skipBalancedParens (returnA (tc\<lparr>tcType := ''CHECK''\<rparr>))))
       (onTok (KW ''FOREIGN'')
          (thenA (tryExpect (KW ''KEY'')) (thenA (tryExpect TOKEN_LPAREN)
            (bindA (constraintColumns n False) (\<lambda>cs.
             thenA (skipForeignKeyRef n) (returnA (tc\<lparr>tcColumns := cs, tcType := ''FOREIGN KEY''\<rparr>))))))
       (returnA tc)))))"

text \<open>The tokens of a default in parentheses, up to the one that closes them.\<close>

function defaultText :: "nat \<Rightarrow> Parser \<Rightarrow> string \<times> Parser" where
  "defaultText depth p =
     (let depth' = (if tokType p = TOKEN_LPAREN then depth + 1
                    else if tokType p = TOKEN_RPAREN then depth - 1 else depth)
      in if depth > 0 \<and> tokType p \<noteq> TOKEN_EOF \<and> \<not> (tokType p = TOKEN_RPAREN \<and> depth' = 0)
         then let (s, p') = defaultText depth' (snd (advanceP p)) in (tValue (fst (advanceP p)) @ s, p')
         else ('''', p))"
  by pat_completeness auto
termination by (relation "measure (\<lambda>(d, p). remaining p)") (auto dest: remaining_advance)

declare defaultText.simps [simp del]

definition parseDefaultValue :: "string pa" where
  "parseDefaultValue =
     onTok TOKEN_LPAREN
       (bindA (\<lambda>p. Inr (defaultText 1 p)) (\<lambda>s. thenA advanceA (returnA (''('' @ s @ '')''))))
    (onTok (KW ''NULL'') (returnA ''NULL'')
    (onTok (KW ''TRUE'') (returnA ''1'')
    (onTok (KW ''FALSE'') (returnA ''0'')
    (onTok TOKEN_MINUS (bindA tokValue (\<lambda>v. returnA (CHR ''-'' # v)))
    tokValue))))"

text \<open>The constraints of a column. \<open>ON CONFLICT\<close> after one of them is read over.\<close>

definition onConflict :: "unit pa" where
  "onConflict = onTok (KW ''ON'') (thenA (tryExpect (KW ''CONFLICT'')) (thenA advanceA (returnA ()))) (returnA ())"

primrec columnConstraints :: "nat \<Rightarrow> ColumnDef \<Rightarrow> ColumnDef pa" where
  "columnConstraints 0 col = failA OutOfFuel"
| "columnConstraints (Suc n) col =
     onTok (KW ''PRIMARY'')
       (thenA (expect (KW ''KEY''))
       (thenA (opt [KW ''ASC'', KW ''DESC''])
       (bindA (opt [KW ''AUTOINCREMENT'']) (\<lambda>auto.
        columnConstraints n (col\<lparr>cdPrimaryKey := True, cdAutoIncrement := cdAutoIncrement col \<or> auto\<rparr>)))))
    (onTok (KW ''NOT'')
       (thenA (expect (KW ''NULL'')) (thenA onConflict (columnConstraints n (col\<lparr>cdNotNull := True\<rparr>))))
    (onTok (KW ''UNIQUE'') (thenA onConflict (columnConstraints n (col\<lparr>cdUnique := True\<rparr>)))
    (onTok (KW ''DEFAULT'') (bindA parseDefaultValue (\<lambda>d. columnConstraints n (col\<lparr>cdDefault := d\<rparr>)))
    (onTok (KW ''AUTOINCREMENT'') (columnConstraints n (col\<lparr>cdAutoIncrement := True\<rparr>))
    (onTok (KW ''CHECK'') (thenA skipBalancedParens (columnConstraints n col))
    (ifTok (KW ''REFERENCES'') (thenA (skipForeignKeyRef n) (columnConstraints n col))
    (ifType (\<lambda>u. u = KW ''GENERATED'' \<or> u = KW ''AS'')
       (thenA (onTok (KW ''GENERATED'') (tryExpect (KW ''ALWAYS'')) (returnA ()))
       (thenA (tryExpect (KW ''AS''))
       (thenA skipBalancedParens
       (thenA (opt [KW ''STORED'', KW ''VIRTUAL'']) (columnConstraints n col)))))
    (onTok KW_COLLATE (thenA tryIdent (columnConstraints n col))
    (returnA col)))))))))"

definition parseColumnDef :: "golib \<Rightarrow> nat \<Rightarrow> ColumnDef pa" where
  "parseColumnDef G n =
     bindA expectIdent (\<lambda>name.
     bindA (parseTypeName G) (\<lambda>t.
     columnConstraints n
       \<lparr>cdName = name, cdType = t, cdPrimaryKey = False, cdNotNull = False, cdUnique = False, cdDefault = '''',
        cdAutoIncrement = False, cdCheck = None, cdReferences = None\<rparr>))"

primrec tableElems :: "nat \<Rightarrow> golib \<Rightarrow> CreateTableStmt \<Rightarrow> CreateTableStmt pa" where
  "tableElems 0 G stmt = failA OutOfFuel"
| "tableElems (Suc n) G stmt =
     bindA (ifType (\<lambda>u. u \<in> KW ` {''PRIMARY'', ''UNIQUE'', ''CHECK'', ''FOREIGN'', ''CONSTRAINT''})
              (bindA (parseTableConstraint n) (\<lambda>tc. returnA (stmt\<lparr>ctConstraints := ctConstraints stmt @ [tc]\<rparr>)))
              (bindA (parseColumnDef G n) (\<lambda>col. returnA (stmt\<lparr>ctColumns := ctColumns stmt @ [col]\<rparr>)))) (\<lambda>stmt.
     onTok TOKEN_RPAREN (returnA stmt)
       (thenA (expect TOKEN_COMMA)
       (onTok TOKEN_RPAREN (returnA stmt) (tableElems n G stmt))))"

definition ifNotExistsTable :: "bool pa" where
  "ifNotExistsTable =
     onTok (KW ''IF'')
       (thenA (expect (KW ''NOT''))
         (ifState (\<lambda>p. tValue (peekP p) = ''EXISTS'' \<or> tokType p = TOKEN_IDENT)
            (thenA advanceA (returnA True)) (returnA True)))
       (returnA False)"

definition parseCreateTable :: "golib \<Rightarrow> nat \<Rightarrow> bool \<Rightarrow> Statement pa" where
  "parseCreateTable G n temp =
     thenA advanceA
    (bindA ifNotExistsTable (\<lambda>ine.
     bindA expectIdent (\<lambda>name.
     thenA (expect TOKEN_LPAREN)
    (bindA (tableElems n G \<lparr>ctTable = name, ctTemp = temp, ctIfNotExists = ine, ctColumns = [], ctConstraints = []\<rparr>) (\<lambda>stmt.
     returnA (CreateTableSt stmt))))))"

section \<open>Other definitions\<close>

definition parseCreateIndexBody :: "bool \<Rightarrow> Statement pa" where
  "parseCreateIndexBody uni =
     bindA (onTok (KW ''IF'') (thenA (expect (KW ''NOT'')) (thenA advanceA (returnA True))) (returnA False)) (\<lambda>ine.
     bindA expectIdent (\<lambda>name.
     thenA (expect (KW ''ON''))
    (bindA expectIdent (\<lambda>table.
     thenA (expect TOKEN_LPAREN)
    (bindA expectIdent (\<lambda>col.
     thenA (opt [KW ''ASC'', KW ''DESC''])
    (thenA (skipA (skipUntil TOKEN_RPAREN))
    (thenA (expect TOKEN_RPAREN)
    (thenA (onTok (KW ''WHERE'') (skipA (skipUntil TOKEN_SEMICOLON)) (returnA ()))
    (returnA (CreateIndexSt \<lparr>ciName = name, ciUnique = uni, ciTable = table, ciColumn = col, ciIfNotExists = ine\<rparr>)))))))))))"

definition parseCreateView :: "pctx \<Rightarrow> bool \<Rightarrow> Statement pa" where
  "parseCreateView c temp =
     bindA (onTok (KW ''IF'') (thenA (tryExpect (KW ''NOT'')) (thenA advanceA (returnA True))) (returnA False)) (\<lambda>ine.
     bindA expectIdent (\<lambda>name.
     thenA (expect (KW ''AS''))
    (bindA (pcSelect c) (\<lambda>sel.
     returnA (CreateViewSt \<lparr>cvName = name, cvTemp = temp, cvIfNotExists = ine, cvSelect = Some sel\<rparr>)))))"

definition parseCreate :: "pctx \<Rightarrow> Statement pa" where
  "parseCreate c =
     thenA advanceA
    (bindA (opt [KW ''TEMP'', KW ''TEMPORARY'']) (\<lambda>temp.
     ifTok (KW ''TABLE'') (parseCreateTable (pcLib c) (pcFuel c) temp)
    (onTok (KW ''UNIQUE'') (thenA (expect (KW ''INDEX'')) (parseCreateIndexBody True))
    (onTok (KW ''INDEX'') (parseCreateIndexBody False)
    (onTok (KW ''VIEW'') (parseCreateView c temp)
    (failTok ''expected TABLE, INDEX, or VIEW after CREATE''))))))"

text \<open>\<open>IF EXISTS\<close> after \<open>DROP\<close>: two tokens are consumed, whatever the second is.\<close>

definition dropRest :: "(string \<Rightarrow> bool \<Rightarrow> Statement) \<Rightarrow> Statement pa" where
  "dropRest mk =
     bindA (onTok (KW ''IF'') (thenA advanceA (returnA True)) (returnA False)) (\<lambda>ie.
     bindA expectIdent (\<lambda>name. returnA (mk name ie)))"

definition parseDrop :: "Statement pa" where
  "parseDrop =
     thenA advanceA
    (onTok (KW ''TABLE'') (dropRest DropTableStmt)
    (onTok (KW ''INDEX'') (dropRest DropIndexStmt)
    (onTok (KW ''VIEW'') (dropRest DropViewStmt)
    (failMsg ''expected TABLE, INDEX, or VIEW after DROP''))))"

definition alterRename :: "AlterAction pa" where
  "alterRename =
     onTok (KW ''TO'') (bindA expectIdent (\<lambda>n. returnA (AlterRenameTable n)))
      (thenA (opt [KW ''COLUMN''])
      (bindA expectIdent (\<lambda>old.
       thenA (expect (KW ''TO''))
      (bindA expectIdent (\<lambda>new. returnA (AlterRenameColumn old new))))))"

definition parseAlter :: "golib \<Rightarrow> nat \<Rightarrow> Statement pa" where
  "parseAlter G n =
     thenA advanceA
    (thenA (expect (KW ''TABLE''))
    (bindA expectIdent (\<lambda>table.
     bindA (onTok (KW ''ADD'') (thenA (opt [KW ''COLUMN'']) (bindA (parseColumnDef G n) (\<lambda>col. returnA (AlterAddColumn col))))
           (onTok (KW ''RENAME'') alterRename
           (onTok (KW ''DROP'') (thenA (opt [KW ''COLUMN'']) (bindA expectIdent (\<lambda>col. returnA (AlterDropColumn col))))
           (failMsg ''expected ADD, RENAME, or DROP after ALTER TABLE'')))) (\<lambda>act.
     returnA (AlterTableStmt table act)))))"

definition parseShow :: "Statement pa" where
  "parseShow =
     thenA advanceA
    (onTok (KW ''TABLES'') (returnA ShowTablesStmt)
    (onTok (KW ''INDEXES'')
       (thenA (opt [KW ''FROM'', KW ''ON'']) (bindA expectIdent (\<lambda>t. returnA (ShowIndexesStmt t))))
    (failMsg ''expected TABLES or INDEXES after SHOW'')))"

definition parsePragma :: "Statement pa" where
  "parsePragma =
     thenA advanceA
    (bindA expectIdent (\<lambda>name.
     bindA (onTok TOKEN_EQ tokValue
           (onTok TOKEN_LPAREN (bindA tokValue (\<lambda>v. thenA (tryExpect TOKEN_RPAREN) (returnA v)))
           (returnA ''''))) (\<lambda>val.
     returnA (PragmaStmt name val))))"

section \<open>Statements\<close>

definition parseBegin :: "Statement pa" where
  "parseBegin =
     thenA advanceA
    (bindA (ifType (\<lambda>u. u \<in> KW ` {''DEFERRED'', ''IMMEDIATE'', ''EXCLUSIVE''}) tokValue (returnA '''')) (\<lambda>mode.
     thenA (opt [KW ''TRANSACTION'']) (returnA (BeginStmt mode))))"

definition parseRollback :: "Statement pa" where
  "parseRollback =
     thenA advanceA
    (thenA (opt [KW ''TRANSACTION''])
    (bindA (onTok (KW ''TO'') (thenA (opt [KW ''SAVEPOINT'']) expectIdent) (returnA '''')) (\<lambda>to.
     returnA (RollbackStmt to))))"

text \<open>\<open>EXPLAIN QUERY PLAN\<close>: the two words are identifiers.\<close>

definition onWord :: "golib \<Rightarrow> string \<Rightarrow> unit pa \<Rightarrow> unit pa" where
  "onWord G w m =
     ifState (\<lambda>p. tokType p = TOKEN_IDENT \<and> ToUpper G (tValue (peekP p)) = w) (thenA advanceA m) (returnA ())"

primrec ParseStatement :: "nat \<Rightarrow> pctx \<Rightarrow> Statement pa" where
  "ParseStatement 0 c = failA OutOfFuel"
| "ParseStatement (Suc n) c =
     ifTok (KW ''SELECT'') (bindA (pcSelect c) (\<lambda>s. returnA (SelectSt s)))
    (ifTok (KW ''WITH'') (parseWith c)
    (ifTok (KW ''INSERT'') (parseInsert c)
    (ifTok (KW ''UPDATE'') (parseUpdate c)
    (ifTok (KW ''DELETE'') (parseDelete c)
    (ifTok (KW ''CREATE'') (parseCreate c)
    (ifTok (KW ''DROP'') parseDrop
    (ifTok (KW ''ALTER'') (parseAlter (pcLib c) (pcFuel c))
    (ifTok (KW ''BEGIN'') parseBegin
    (onTok (KW ''COMMIT'') (thenA (opt [KW ''TRANSACTION'']) (returnA CommitStmt))
    (ifTok (KW ''ROLLBACK'') parseRollback
    (onTok (KW ''SAVEPOINT'') (bindA expectIdent (\<lambda>name. returnA (SavepointStmt name)))
    (onTok (KW ''RELEASE'')
       (thenA (opt [KW ''SAVEPOINT'']) (bindA expectIdent (\<lambda>name. returnA (ReleaseSavepointStmt name))))
    (ifTok (KW ''SHOW'') parseShow
    (onTok (KW ''EXPLAIN'')
       (thenA (onWord (pcLib c) ''QUERY'' (onWord (pcLib c) ''PLAN'' (returnA ())))
         (bindA (ParseStatement n c) (\<lambda>s. returnA (ExplainStmt s))))
    (ifTok (KW ''PRAGMA'') parsePragma
    (onTok (KW ''VACUUM'') (returnA VacuumStmt)
    (failTok ''unexpected token''))))))))))))))))) "

primrec ParseAll :: "nat \<Rightarrow> pctx \<Rightarrow> Statement list pa" where
  "ParseAll 0 c = failA OutOfFuel"
| "ParseAll (Suc n) c =
     ifTok TOKEN_EOF (returnA [])
    (onTok TOKEN_SEMICOLON (ParseAll n c)
    (bindA (ParseStatement (pcFuel c) c) (\<lambda>s.
     thenA (opt [TOKEN_SEMICOLON])
    (bindA (ParseAll n c) (\<lambda>ss. returnA (s # ss))))))"

text \<open>\<open>Parse\<close>, with fuel for the depth and the loops of the grammar, and with the fuel that is enough.\<close>

definition ParseWith :: "nat \<Rightarrow> unicode \<Rightarrow> golib \<Rightarrow> string \<Rightarrow> Statement list res" where
  "ParseWith n U G sql =
     bindE (Tokenize U G sql) (\<lambda>ts. bindE (ParseAll n (grammar G n) (NewParser ts)) (\<lambda>(ss, p). Inr ss))"

definition Parse :: "unicode \<Rightarrow> golib \<Rightarrow> string \<Rightarrow> Statement list res" where
  "Parse U G sql =
     bindE (Tokenize U G sql) (\<lambda>ts. ParseWith (2 * length ts + 2) U G sql)"

end
