(* ===== verification/Transaction.thy ===== *)
theory Transaction
  imports Durable
begin

text \<open>
  Transactions (\<open>internal/storage/transaction.go\<close>): before-images of pages kept per
  transaction and per savepoint. A Go map has no iteration order, so the operations that range
  over one take the order as an argument; \<open>saveState\<close> is \<open>None\<close> after
  \<open>tx.saveState = nil\<close>.
\<close>

datatype TxState = TxIdle | TxActive | TxCommited | TxRolledBack

type_synonym images = "32 word \<Rightarrow> byte list option"

record savepoint =
  sp_name :: string
  sp_pages :: images

record Transaction =
  tx_state :: TxState
  saveState :: "images option"
  savepoints :: "savepoint list"

definition NewTransaction :: Transaction where
  "NewTransaction = \<lparr>tx_state = TxActive, saveState = Some Map.empty, savepoints = []\<rparr>"

text \<open>The first image of a page wins.\<close>

definition save_in :: "Page \<Rightarrow> images \<Rightarrow> images" where
  "save_in pg m = (if m (ID pg) = None then m(ID pg \<mapsto> Data pg) else m)"

text \<open>Writing to the nil map of a finished transaction panics.\<close>

definition SavePage :: "Page \<Rightarrow> Transaction \<Rightarrow> Transaction res" where
  "SavePage pg tx =
     (case saveState tx of
        None \<Rightarrow> Inl Panic
      | Some m \<Rightarrow> Inr (tx\<lparr>saveState := Some (save_in pg m),
                     savepoints := map (\<lambda>sp. sp\<lparr>sp_pages := save_in pg (sp_pages sp)\<rparr>) (savepoints tx)\<rparr>))"

definition Savepoint :: "string \<Rightarrow> Transaction \<Rightarrow> Transaction res" where
  "Savepoint name tx =
     (if tx_state tx \<noteq> TxActive then Inl ErrNotActive
      else Inr (tx\<lparr>savepoints := savepoints tx @ [\<lparr>sp_name = name, sp_pages = Map.empty\<rparr>]\<rparr>))"

text \<open>The index of the last savepoint of a name: the loops that run down from the end.\<close>

definition find_savepoint :: "string \<Rightarrow> savepoint list \<Rightarrow> nat option" where
  "find_savepoint name sps = find (\<lambda>i. sp_name (sps ! i) = name) (rev [0..<length sps])"

definition ReleaseSavepoint :: "string \<Rightarrow> Transaction \<Rightarrow> Transaction res" where
  "ReleaseSavepoint name tx =
     (case find_savepoint name (savepoints tx) of
        None \<Rightarrow> Inl (ErrNoSavepoint name)
      | Some i \<Rightarrow> Inr (tx\<lparr>savepoints := take i (savepoints tx)\<rparr>))"

text \<open>\<open>for pageID, data := range m\<close>; a page that cannot be fetched is skipped.\<close>

primrec restore :: "images \<Rightarrow> 32 word list \<Rightarrow> unit pm" where
  "restore m [] = returnP ()"
| "restore m (i # is) = (\<lambda>s. case GetPage i s of
     (Inl e, s') \<Rightarrow> restore m is s'
   | (Inr a, s') \<Rightarrow>
       (case m i of
          None \<Rightarrow> restore m is s'
        | Some d \<Rightarrow> bindP (readObj a) (\<lambda>pg. bindP (writeObj a (pg\<lparr>Data := d, Dirty := False\<rparr>)) (\<lambda>_. restore m is)) s'))"

definition RollbackToSavepoint :: "32 word list \<Rightarrow> string \<Rightarrow> Transaction \<Rightarrow> Transaction pm" where
  "RollbackToSavepoint order name tx =
     (case find_savepoint name (savepoints tx) of
        None \<Rightarrow> failP (ErrNoSavepoint name)
      | Some i \<Rightarrow>
          bindP (restore (sp_pages (savepoints tx ! i)) order) (\<lambda>_.
          returnP (tx\<lparr>savepoints := take i (savepoints tx) @ [(savepoints tx ! i)\<lparr>sp_pages := Map.empty\<rparr>]\<rparr>)))"

text \<open>\<open>Commit\<close> changes the state before it flushes, also when the flush fails.\<close>

definition Commit :: "Transaction \<Rightarrow> Pager \<Rightarrow> (unit res \<times> Transaction) \<times> Pager" where
  "Commit tx s =
     (if tx_state tx \<noteq> TxActive then ((Inl ErrNotActive, tx), s)
      else case FlushAll s of (r, s') \<Rightarrow> ((r, tx\<lparr>tx_state := TxCommited, saveState := None, savepoints := []\<rparr>), s'))"

definition Rollback :: "32 word list \<Rightarrow> Transaction \<Rightarrow> Transaction pm" where
  "Rollback order tx =
     (if tx_state tx \<noteq> TxActive then failP ErrNotActive
      else bindP (restore (case saveState tx of None \<Rightarrow> Map.empty | Some m \<Rightarrow> m) order) (\<lambda>_.
           returnP (tx\<lparr>tx_state := TxRolledBack, saveState := None, savepoints := []\<rparr>)))"

definition IsActive :: "Transaction \<Rightarrow> bool" where
  "IsActive tx \<longleftrightarrow> tx_state tx = TxActive"

section \<open>The life of a transaction\<close>

text \<open>What one call can do to the transaction value.\<close>

inductive tx_step :: "Transaction \<Rightarrow> Transaction \<Rightarrow> bool" where
  save: "SavePage pg tx = Inr tx' \<Longrightarrow> tx_step tx tx'"
| savepoint: "Savepoint name tx = Inr tx' \<Longrightarrow> tx_step tx tx'"
| release: "ReleaseSavepoint name tx = Inr tx' \<Longrightarrow> tx_step tx tx'"
| rollback_to: "RollbackToSavepoint order name tx s = (Inr tx', s') \<Longrightarrow> tx_step tx tx'"
| commit: "Commit tx s = ((r, tx'), s') \<Longrightarrow> tx_step tx tx'"
| rollback: "Rollback order tx s = (Inr tx', s') \<Longrightarrow> tx_step tx tx'"

inductive_cases tx_stepE: "tx_step tx tx'"

text \<open>A transaction that is not active has no images and no savepoints, and stays as it is.\<close>

definition tx_inv :: "Transaction \<Rightarrow> bool" where
  "tx_inv tx \<longleftrightarrow> tx_state tx \<in> {TxActive, TxCommited, TxRolledBack} \<and>
     (tx_state tx = TxActive \<longleftrightarrow> saveState tx \<noteq> None) \<and> (tx_state tx \<noteq> TxActive \<longrightarrow> savepoints tx = [])"

lemma tx_inv_new: "tx_inv NewTransaction"
  by (simp add: tx_inv_def NewTransaction_def)

lemma find_savepoint_Nil [simp]: "find_savepoint name [] = None"
  by (simp add: find_savepoint_def)

lemma tx_step_inv: "tx_step tx tx' \<Longrightarrow> tx_inv tx \<Longrightarrow> tx_inv tx'"
  by (erule tx_stepE)
    (auto simp: tx_inv_def SavePage_def Savepoint_def ReleaseSavepoint_def RollbackToSavepoint_def Commit_def
      Rollback_def bindP_eq_Inr split: option.splits if_splits prod.splits)

lemma tx_step_final: "tx_step tx tx' \<Longrightarrow> tx_inv tx \<Longrightarrow> tx_state tx \<noteq> TxActive \<Longrightarrow> tx' = tx"
  by (erule tx_stepE)
    (auto simp: tx_inv_def SavePage_def Savepoint_def ReleaseSavepoint_def RollbackToSavepoint_def Commit_def
      Rollback_def split: option.splits if_splits)

lemma tx_reach_inv: "tx_step\<^sup>*\<^sup>* NewTransaction tx \<Longrightarrow> tx_inv tx"
  by (induction rule: rtranclp_induct) (auto intro: tx_inv_new tx_step_inv)

lemma tx_final: "tx_step\<^sup>*\<^sup>* tx tx' \<Longrightarrow> tx_inv tx \<Longrightarrow> tx_state tx \<noteq> TxActive \<Longrightarrow> tx' = tx"
  by (induction rule: rtranclp_induct) (auto dest: tx_step_final)

section \<open>Savepoints\<close>

lemma find_savepoint_Some:
  assumes "find_savepoint name sps = Some i"
  shows "i < length sps" and "sp_name (sps ! i) = name" and "\<And>j. i < j \<Longrightarrow> j < length sps \<Longrightarrow> sp_name (sps ! j) \<noteq> name"
proof -
  let ?r = "rev [0..<length sps]"
  from assms obtain m where m: "m < length ?r" "sp_name (sps ! (?r ! m)) = name" "i = ?r ! m"
    "\<And>m'. m' < m \<Longrightarrow> sp_name (sps ! (?r ! m')) \<noteq> name"
    unfolding find_savepoint_def find_Some_iff by blast
  have i: "i = length sps - Suc m" "m < length sps" using m(1,3) by (simp_all add: rev_nth)
  then show "i < length sps" "sp_name (sps ! i) = name" using m(2,3) by simp_all
  fix j assume j: "i < j" "j < length sps"
  then have "?r ! (length sps - Suc j) = j" "length sps - Suc j < m" using i by (simp_all add: rev_nth)
  with m(4) [of "length sps - Suc j"] show "sp_name (sps ! j) \<noteq> name" by simp
qed

lemma find_savepoint_None: "find_savepoint name sps = None \<longleftrightarrow> name \<notin> sp_name ` set sps"
  by (force simp: find_savepoint_def find_None_iff in_set_conv_nth)

section \<open>Before-images\<close>

text \<open>A page saved twice keeps its first image; a new savepoint collects images of its own.\<close>

lemma save_first: "m i = Some d \<Longrightarrow> save_in pg m i = Some d"
  by (auto simp: save_in_def)

lemma GetPage_cached:
  assumes "lru_inv (p_cache s)" and "cached s i = Some a"
  obtains c where "GetPage i s = (Inr a, s\<lparr>p_cache := c\<rparr>)" and "lru_inv c"
    and "cached (s\<lparr>p_cache := c\<rparr>) = cached s"
proof -
  obtain r c where g: "lru_get i (p_cache s) = (r, c)" by fastforce
  note G = lru_get_inv [OF assms(1) g]
  have "r = Some a" using G(2) assms(2) by (simp add: cached_def)
  then have "GetPage i s = (Inr a, s\<lparr>p_cache := c\<rparr>)" using g by (simp add: GetPage_def bindP_def)
  with G show ?thesis by (intro that [of c]) (simp_all add: cached_def)
qed

lemma restore_ok:
  assumes "lru_inv (p_cache s)" and "\<forall>i \<in> set order. \<exists>a. cached s i = Some a \<and> p_heap s a \<noteq> None"
    and "inj_on (cached s) (dom (cached s))" and "\<forall>i \<in> set order. m i \<noteq> None"
  shows "\<exists>s'. restore m order s = (Inr (), s') \<and> cached s' = cached s \<and> p_file s' = p_file s \<and>
    p_header s' = p_header s \<and> (\<forall>i. view s' i = (if i \<in> set order then m i else view s i))"
  using assms
proof (induction order arbitrary: s)
  case (Cons i order)
  from Cons.prems(2) obtain a pg where a: "cached s i = Some a" "p_heap s a = Some pg" by auto
  from Cons.prems(4) obtain d where d: "m i = Some d" by auto
  obtain c where c: "GetPage i s = (Inr a, s\<lparr>p_cache := c\<rparr>)" "lru_inv c" "cached (s\<lparr>p_cache := c\<rparr>) = cached s"
    by (rule GetPage_cached [OF Cons.prems(1) a(1)])
  define t where "t = s\<lparr>p_cache := c, p_heap := (p_heap s)(a \<mapsto> pg\<lparr>Data := d, Dirty := False\<rparr>)\<rparr>"
  have ct: "cached t = cached s" using c(3) by (simp add: t_def cached_def)
  have pt: "p_heap t = (p_heap s)(a \<mapsto> pg\<lparr>Data := d, Dirty := False\<rparr>)" "p_file t = p_file s" "p_header t = p_header s"
    "p_cache t = c" by (simp_all add: t_def)
  have other: "cached s j \<noteq> Some a" if "j \<noteq> i" for j
    using Cons.prems(3) a(1) that by (metis domI inj_onD)
  have vt: "view t j = (if j = i then Some d else view s j)" for j
    using other [of j] a by (auto simp: view_def ct pt split: option.split)
  have "\<exists>s'. restore m order t = (Inr (), s') \<and> cached s' = cached t \<and> p_file s' = p_file t \<and>
      p_header s' = p_header t \<and> (\<forall>i. view s' i = (if i \<in> set order then m i else view t i))"
  proof (rule Cons.IH)
    show "\<forall>i \<in> set order. \<exists>b. cached t i = Some b \<and> p_heap t b \<noteq> None"
    proof
      fix i assume "i \<in> set order"
      with Cons.prems(2) obtain b where "cached s i = Some b" "p_heap s b \<noteq> None" by auto
      then show "\<exists>b. cached t i = Some b \<and> p_heap t b \<noteq> None" by (intro exI [of _ b]) (simp add: ct pt)
    qed
  qed (use Cons.prems(3,4) c(2) in \<open>simp_all add: ct pt\<close>)
  then obtain s' where s': "restore m order t = (Inr (), s')" "cached s' = cached t" "p_file s' = p_file t"
    "p_header s' = p_header t" "\<forall>i. view s' i = (if i \<in> set order then m i else view t i)" by blast
  have "restore m (i # order) s = (Inr (), s')"
    using c(1) d a(2) s'(1) by (simp add: readObj_def writeObj_def bindP_def flip: t_def)
  moreover have "\<forall>j. view s' j = (if j \<in> set (i # order) then m j else view s j)"
    using s'(5) vt d by auto
  ultimately show ?case using s'(2,3,4) ct pt by auto
qed simp

text \<open>With its pages in the cache, a rolled back transaction gives them their saved contents.\<close>

lemma Rollback_ok:
  assumes "pager_inv X s" and "tx_state tx = TxActive" and "saveState tx = Some m" and "set order = dom m"
    and "\<And>i. m i \<noteq> None \<Longrightarrow> cached s i \<noteq> None"
  obtains s' where "Rollback order tx s = (Inr (tx\<lparr>tx_state := TxRolledBack, saveState := None, savepoints := []\<rparr>), s')"
    and "view s' = view s ++ m" and "p_file s' = p_file s" and "p_header s' = p_header s"
proof -
  have "\<forall>i \<in> set order. \<exists>a. cached s i = Some a \<and> p_heap s a \<noteq> None"
  proof
    fix i assume "i \<in> set order"
    then obtain a where "cached s i = Some a" using assms(4,5) by fastforce
    with pager_invD(4) [OF assms(1) this] show "\<exists>a. cached s i = Some a \<and> p_heap s a \<noteq> None"
      by (auto simp: page_valid_def)
  qed
  moreover have "inj_on (cached s) (dom (cached s))"
    using cached_inj [OF assms(1)] by (auto intro!: inj_onI)
  moreover have "\<forall>i \<in> set order. m i \<noteq> None" using assms(4) by auto
  ultimately obtain s' where s': "restore m order s = (Inr (), s')" "p_file s' = p_file s" "p_header s' = p_header s"
    "\<forall>i. view s' i = (if i \<in> set order then m i else view s i)"
    using restore_ok [OF pager_invD(1) [OF assms(1)], of order m] by blast
  have "view s' = view s ++ m"
    using s'(4) assms(4) by (auto simp: fun_eq_iff map_add_def dom_def split: option.split)
  then show ?thesis using that [of s'] s' assms(2,3) by (simp add: Rollback_def bindP_def)
qed

end
