(* ===== verification/Query.thy ===== *)
theory Query
  imports Builtins Table Parser Transaction
begin

text \<open>
  Queries (\<open>internal/engine/executor/executor.go\<close>, the part behind \<open>SELECT\<close>): where the rows come from,
  joins, filters, projections, aggregates, groups, ordering and limits. A row of a query is a list of
  pointers. The state is the executor with the storage below it; a panic of the evaluator is the
  error \<open>Panic\<close> here, which ends the process.
\<close>

section \<open>The executor\<close>

text \<open>\<open>draws\<close> counts the requests to the outside world; it is no field of the Go struct, and \<open>planCache\<close>
  is never used.\<close>

record Executor =
  xTable :: TableEngine
  xInTx :: bool
  xTx :: "Transaction option"
  draws :: nat

text \<open>What the model leaves open: storage and evaluation environments, the fuel of scans and of nested
  views, \<open>%v\<close> of a double, the order of a range over page images, and the counters of
  \<open>Pager.Stats\<close>.\<close>

record xenv =
  xeEnv :: env
  xeEval :: evalEnv
  scanFuel :: nat
  viewFuel :: nat
  fmtV :: "64 word \<Rightarrow> string"
  pageOrder :: "nat \<Rightarrow> 32 word list"
  statsRows :: "nat \<Rightarrow> Pager \<Rightarrow> string list list"

abbreviation xlib :: "xenv \<Rightarrow> golib" where "xlib X \<equiv> evLib (xeEval X)"

type_synonym 'a xm = "Executor \<Rightarrow> 'a res \<times> Executor"

definition bindX :: "'a xm \<Rightarrow> ('a \<Rightarrow> 'b xm) \<Rightarrow> 'b xm" where
  "bindX m k = (\<lambda>x. case m x of (Inl e, x') \<Rightarrow> (Inl e, x') | (Inr a, x') \<Rightarrow> k a x')"

definition returnX :: "'a \<Rightarrow> 'a xm" where "returnX a = (\<lambda>x. (Inr a, x))"
definition failX :: "err \<Rightarrow> 'a xm" where "failX e = (\<lambda>x. (Inl e, x))"

definition onTable :: "'a tm \<Rightarrow> 'a xm" where
  "onTable m = (\<lambda>x. case m (xTable x) of (r, t) \<Rightarrow> (r, x\<lparr>xTable := t\<rparr>))"

definition onCatalogue :: "'a sm \<Rightarrow> 'a xm" where "onCatalogue m = onTable (onSchema m)"

definition onStorage :: "'a pm \<Rightarrow> 'a xm" where "onStorage m = onCatalogue (onPager m)"

definition lookupX :: "(SchemaManager \<Rightarrow> 'a) \<Rightarrow> 'a xm" where
  "lookupX f = (\<lambda>x. (Inr (f (te_schema (xTable x))), x))"

text \<open>An evaluation: as it is, with its error passed on, and with its error ignored.\<close>

definition evalX :: "'a ev \<Rightarrow> 'a xm" where
  "evalX m = (\<lambda>x. case m (draws x) of None \<Rightarrow> (Inl Panic, x) | Some (a, n) \<Rightarrow> (Inr a, x\<lparr>draws := n\<rparr>))"

definition valueX :: "vres ev \<Rightarrow> vptr xm" where
  "valueX m = bindX (evalX m) (\<lambda>(p, e). case e of None \<Rightarrow> returnX p | Some e \<Rightarrow> failX e)"

text \<open>A loop over a list that collects the results.\<close>

primrec mapX :: "('a \<Rightarrow> 'b xm) \<Rightarrow> 'a list \<Rightarrow> 'b list xm" where
  "mapX f [] = returnX []"
| "mapX f (a # as) = bindX (f a) (\<lambda>b. bindX (mapX f as) (\<lambda>bs. returnX (b # bs)))"

primrec foldX :: "('a \<Rightarrow> 'b \<Rightarrow> 'b xm) \<Rightarrow> 'a list \<Rightarrow> 'b \<Rightarrow> 'b xm" where
  "foldX f [] b = returnX b"
| "foldX f (a # as) b = bindX (f a b) (foldX f as)"

section \<open>Contexts and names\<close>

type_synonym row = "vptr list"

type_synonym bindings = "(string \<times> tableBinding) list"

definition makeCtxForRow :: "row \<Rightarrow> TableSchema option \<Rightarrow> bindings option \<Rightarrow> EvalContext" where
  "makeCtxForRow r schema tabs = \<lparr>cxRow = Some r, cxSchema = schema, cxTables = tabs, cxRowID = 0\<rparr>"

definition exprName :: "xenv \<Rightarrow> Expr option \<Rightarrow> string" where
  "exprName X e =
     (case e of
        Some (IdentExpr _ name) \<Rightarrow> name
      | Some (FuncCallExpr name _ _ _) \<Rightarrow> name
      | Some (LiteralExpr v nul) \<Rightarrow>
          (if nul then ''NULL''
           else case v of None \<Rightarrow> ''<nil>'' | Some (LitInt i) \<Rightarrow> FormatInt i | Some (LitFloat f) \<Rightarrow> fmtV X f
                        | Some (LitString s) \<Rightarrow> s)
      | Some (CastExpr _ _) \<Rightarrow> ''CAST''
      | Some (CaseExpr _ _ _) \<Rightarrow> ''CASE''
      | Some (BinaryExpr op _ _) \<Rightarrow> op
      | _ \<Rightarrow> ''?'')"

definition columnName :: "xenv \<Rightarrow> SelectColumn \<Rightarrow> string" where
  "columnName X col = (if colAlias col \<noteq> '''' then colAlias col else exprName X (colExpr col))"

definition resolveColumnNames :: "xenv \<Rightarrow> SelectStmt \<Rightarrow> TableSchema option \<Rightarrow> string list" where
  "resolveColumnNames X stmt schema =
     concat (map (\<lambda>col. if colStar col
       then (case schema of None \<Rightarrow> [] | Some s \<Rightarrow> map cName (Columns s))
       else [columnName X col]) (selColumns stmt))"

text \<open>\<open>EvalExpr\<close> on a column's expression, which is nil for a star.\<close>

definition evalColumn :: "xenv \<Rightarrow> EvalContext \<Rightarrow> Expr option \<Rightarrow> vptr xm" where
  "evalColumn X ctx e =
     (case e of None \<Rightarrow> failX (ErrUnknown ''expression'') | Some e \<Rightarrow> valueX (EvalExpr (xeEval X) ctx e))"

section \<open>Filter and projection\<close>

text \<open>\<open>err == nil && IsTruthy(val)\<close>\<close>

definition passes :: "xenv \<Rightarrow> EvalContext \<Rightarrow> Expr \<Rightarrow> bool xm" where
  "passes X ctx e = bindX (evalX (EvalExpr (xeEval X) ctx e)) (\<lambda>(p, err). returnX (err = None \<and> IsTruthy p))"

primrec filterX :: "('a \<Rightarrow> bool xm) \<Rightarrow> 'a list \<Rightarrow> 'a list xm" where
  "filterX f [] = returnX []"
| "filterX f (a # as) = bindX (f a) (\<lambda>b. bindX (filterX f as) (\<lambda>bs. returnX (if b then a # bs else bs)))"

definition filterRows :: "xenv \<Rightarrow> row list \<Rightarrow> Expr option \<Rightarrow> TableSchema option \<Rightarrow> bindings \<Rightarrow> row list xm" where
  "filterRows X rows cond schema tabs =
     (case cond of
        None \<Rightarrow> returnX rows
      | Some e \<Rightarrow> filterX (\<lambda>r. passes X (makeCtxForRow r schema (Some tabs)) e) rows)"

definition projectRow :: "xenv \<Rightarrow> EvalContext \<Rightarrow> SelectStmt \<Rightarrow> row xm" where
  "projectRow X ctx stmt =
     bindX (mapX (\<lambda>col. if colStar col
         then returnX (case cxRow ctx of None \<Rightarrow> [] | Some r \<Rightarrow> r)
         else bindX (evalColumn X ctx (colExpr col)) (\<lambda>v. returnX [v])) (selColumns stmt))
       (\<lambda>vs. returnX (concat vs))"

definition evalSelectNoFrom :: "xenv \<Rightarrow> SelectStmt \<Rightarrow> (row list \<times> string list) xm" where
  "evalSelectNoFrom X stmt =
     (let cols = filter (\<lambda>c. \<not> colStar c) (selColumns stmt)
      in bindX (mapX (\<lambda>c. evalColumn X emptyContext (colExpr c)) cols) (\<lambda>vs.
         returnX ([vs], map (columnName X) cols)))"

section \<open>Distinct rows, order and limits\<close>

definition ptrString :: "golib \<Rightarrow> vptr \<Rightarrow> string" where
  "ptrString G p = (case p of None \<Rightarrow> ''NULL'' | Some v \<Rightarrow> value_String G v)"

definition rowText :: "golib \<Rightarrow> row \<Rightarrow> string" where
  "rowText G r = Join (map (ptrString G) r) [CHR 0x00]"

text \<open>The loop over the rows with the set of the keys it has seen.\<close>

fun keepNew :: "('a \<Rightarrow> string) \<Rightarrow> string list \<Rightarrow> 'a list \<Rightarrow> 'a list" where
  "keepNew key seen [] = []"
| "keepNew key seen (r # rs) =
     (if key r \<in> set seen then keepNew key seen rs else r # keepNew key (key r # seen) rs)"

definition dedup :: "golib \<Rightarrow> row list \<Rightarrow> row list" where
  "dedup G rows = keepNew (rowText G) [] rows"

definition isNil :: "vptr \<Rightarrow> bool" where
  "isNil p = (case p of None \<Rightarrow> True | Some v \<Rightarrow> isNull v)"

text \<open>The first column with the name of an identifier.\<close>

definition orderColumn :: "golib \<Rightarrow> string list \<Rightarrow> string \<Rightarrow> row \<Rightarrow> vptr option" where
  "orderColumn G colNames name r =
     map_option (\<lambda>i. r ! i) (find (\<lambda>i. EqualFold G (colNames ! i) name \<and> i < length r) [0..<length colNames])"

definition evalOrderByExpr ::
    "xenv \<Rightarrow> Expr \<Rightarrow> row \<Rightarrow> TableSchema option \<Rightarrow> bindings \<Rightarrow> string list \<Rightarrow> vptr xm" where
  "evalOrderByExpr X e r schema tabs colNames =
     (case (case e of IdentExpr _ name \<Rightarrow> orderColumn (xlib X) colNames name r | _ \<Rightarrow> None) of
        Some p \<Rightarrow> returnX p
      | None \<Rightarrow> valueX (EvalExpr (xeEval X) (makeCtxForRow r schema (Some tabs)) e))"

text \<open>What the comparison of one key decides; \<open>None\<close> goes on with the next key.\<close>

definition orderDecides :: "golib \<Rightarrow> bool \<Rightarrow> vptr \<Rightarrow> vptr \<Rightarrow> bool option" where
  "orderDecides G desc p q =
     (if isNil p then (if isNil q then None else Some (\<not> desc))
      else if isNil q then Some desc
      else let c = value_Compare G (the p) (the q)
           in if c = 0 then None else Some (if desc then c > 0 else c < 0))"

primrec lessRow :: "xenv \<Rightarrow> TableSchema option \<Rightarrow> bindings \<Rightarrow> string list \<Rightarrow> OrderByExpr list \<Rightarrow> row \<Rightarrow> row \<Rightarrow> bool xm" where
  "lessRow X schema tabs names [] r s = returnX False"
| "lessRow X schema tabs names (ob # obs) r s =
     bindX (evalOrderByExpr X (obExpr ob) r schema tabs names) (\<lambda>p.
     bindX (evalOrderByExpr X (obExpr ob) s schema tabs names) (\<lambda>q.
     case orderDecides (xlib X) (obDesc ob) p q of
       Some b \<Rightarrow> returnX b
     | None \<Rightarrow> lessRow X schema tabs names obs r s))"

text \<open>\<open>sort.SliceStable\<close>: an element moves to the left while it is smaller than its neighbour (the list
  is the sorted prefix backwards). Go does this in blocks of twenty and merges them, which gives the
  same for a comparison that is a strict weak order. An error of the comparison ends the sort, as
  the callers drop the rows.\<close>

primrec insertX :: "('a \<Rightarrow> 'a \<Rightarrow> bool xm) \<Rightarrow> 'a \<Rightarrow> 'a list \<Rightarrow> 'a list xm" where
  "insertX lt a [] = returnX [a]"
| "insertX lt a (b # bs) =
     bindX (lt a b) (\<lambda>c. if c then bindX (insertX lt a bs) (\<lambda>cs. returnX (b # cs)) else returnX (a # b # bs))"

definition stableSortX :: "('a \<Rightarrow> 'a \<Rightarrow> bool xm) \<Rightarrow> 'a list \<Rightarrow> 'a list xm" where
  "stableSortX lt as = bindX (foldX (insertX lt) as []) (\<lambda>bs. returnX (rev bs))"

definition sortRows :: "xenv \<Rightarrow> SelectStmt \<Rightarrow> row list \<Rightarrow> TableSchema option \<Rightarrow> bindings \<Rightarrow> row list xm" where
  "sortRows X stmt rows schema tabs =
     stableSortX (lessRow X schema tabs (resolveColumnNames X stmt schema) (selOrderBy stmt)) rows"

text \<open>The number an \<open>OFFSET\<close> or \<open>LIMIT\<close> gives; an error leaves it out.\<close>

definition limitValue :: "xenv \<Rightarrow> Expr option \<Rightarrow> int option xm" where
  "limitValue X e =
     (case e of
        None \<Rightarrow> returnX None
      | Some e \<Rightarrow>
          bindX (evalX (EvalExpr (xeEval X) emptyContext e)) (\<lambda>(p, err).
          returnX (if err = None then map_option (\<lambda>v. sint (Integer v)) p else None)))"

definition dropRows :: "int option \<Rightarrow> 'a list \<Rightarrow> 'a list" where
  "dropRows n rows = (case n of None \<Rightarrow> rows | Some n \<Rightarrow> drop (nat n) rows)"

definition takeRows :: "int option \<Rightarrow> 'a list \<Rightarrow> 'a list" where
  "takeRows n rows = (case n of None \<Rightarrow> rows | Some n \<Rightarrow> if n \<ge> 0 then take (nat n) rows else rows)"

definition applyLimitOffset :: "xenv \<Rightarrow> SelectStmt \<Rightarrow> row list \<Rightarrow> row list xm" where
  "applyLimitOffset X stmt rows =
     bindX (limitValue X (selOffset stmt)) (\<lambda>offset.
     bindX (limitValue X (selLimit stmt)) (\<lambda>limit.
     returnX (takeRows limit (dropRows offset rows))))"

end
