(* ===== verification/Select.thy ===== *)
theory Select
  imports Query
begin

text \<open>
  \<open>SELECT\<close> (\<open>internal/engine/executor/executor.go\<close>): aggregates and groups, the rows of tables, views
  and common table expressions, joins, and \<open>evalSelect\<close>. A query that reads a view evaluates the
  view's text; this recursion has fuel, because nothing stops a stored view from naming itself.
\<close>

section \<open>Aggregates\<close>

definition aggregateNames :: "string list" where
  "aggregateNames = [''COUNT'', ''SUM'', ''AVG'', ''MIN'', ''MAX'', ''TOTAL'', ''GROUP_CONCAT'', ''STDDEV'', ''VARIANCE'',
     ''BIT_AND'', ''BIT_OR'', ''BIT_XOR'']"

fun containsAggregate :: "golib \<Rightarrow> Expr \<Rightarrow> bool" where
  "containsAggregate G (FuncCallExpr name _ _ _) = (ToUpper G name \<in> set aggregateNames)"
| "containsAggregate G (BinaryExpr _ l r) = (containsAggregate G l \<or> containsAggregate G r)"
| "containsAggregate G (UnaryExpr _ e) = containsAggregate G e"
| "containsAggregate G _ = False"

definition columnAggregate :: "golib \<Rightarrow> SelectColumn \<Rightarrow> bool" where
  "columnAggregate G col = (case colExpr col of None \<Rightarrow> False | Some e \<Rightarrow> containsAggregate G e)"

definition hasAggregates :: "golib \<Rightarrow> SelectStmt \<Rightarrow> bool" where
  "hasAggregates G stmt \<longleftrightarrow> list_ex (columnAggregate G) (selColumns stmt)"

record simpleAgg =
  agName :: string
  agCount :: "64 word"
  agSum :: "64 word"
  agIsum :: "64 word"
  agIsInt :: bool
  agMin :: vptr
  agMax :: vptr
  agParts :: "string list"
  agSep :: string
  agSumSq :: "64 word"
  agBitAnd :: "64 word"
  agBitOr :: "64 word"
  agBitXor :: "64 word"
  agBitInit :: bool

definition newAgg :: "string \<Rightarrow> simpleAgg" where
  "newAgg name = \<lparr>agName = name, agCount = 0, agSum = 0, agIsum = 0, agIsInt = False, agMin = None, agMax = None,
     agParts = [], agSep = '''', agSumSq = 0, agBitAnd = 0, agBitOr = 0, agBitXor = 0, agBitInit = False\<rparr>"

definition better :: "golib \<Rightarrow> (int \<Rightarrow> bool) \<Rightarrow> Value \<Rightarrow> vptr \<Rightarrow> vptr" where
  "better G P v best = (case best of None \<Rightarrow> Some v | Some b \<Rightarrow> if P (value_Compare G v b) then Some v else best)"

definition accumulateValue :: "golib \<Rightarrow> Value \<Rightarrow> simpleAgg \<Rightarrow> simpleAgg" where
  "accumulateValue G v a =
     (let name = agName a; f = ToFloat G v
      in if name = ''COUNT'' then a\<lparr>agCount := agCount a + 1\<rparr>
         else if name = ''SUM'' \<or> name = ''TOTAL'' then
           (let a = (if vType v = ValInteger then a\<lparr>agIsum := agIsum a + Integer v, agIsInt := True\<rparr> else a)
            in a\<lparr>agSum := f_add (agSum a) f, agCount := agCount a + 1\<rparr>)
         else if name = ''AVG'' \<or> name = ''STDDEV'' \<or> name = ''VARIANCE'' then
           a\<lparr>agSum := f_add (agSum a) f, agSumSq := f_add (agSumSq a) (f_mul f f), agCount := agCount a + 1\<rparr>
         else if name = ''MIN'' then a\<lparr>agMin := better G (\<lambda>c. c < 0) v (agMin a)\<rparr>
         else if name = ''MAX'' then a\<lparr>agMax := better G (\<lambda>c. c > 0) v (agMax a)\<rparr>
         else if name = ''GROUP_CONCAT'' then a\<lparr>agParts := agParts a @ [value_String G v]\<rparr>
         else if name = ''BIT_AND'' then
           (if agBitInit a then a\<lparr>agBitAnd := agBitAnd a AND Integer v\<rparr>
            else a\<lparr>agBitAnd := Integer v, agBitInit := True\<rparr>)
         else if name = ''BIT_OR'' then a\<lparr>agBitOr := agBitOr a OR Integer v\<rparr>
         else if name = ''BIT_XOR'' then a\<lparr>agBitXor := agBitXor a XOR Integer v\<rparr>
         else a)"

definition accumulate :: "golib \<Rightarrow> vptr \<Rightarrow> simpleAgg \<Rightarrow> simpleAgg" where
  "accumulate G p a = (case p of None \<Rightarrow> a | Some v \<Rightarrow> if isNull v then a else accumulateValue G v a)"

definition meanOf :: "simpleAgg \<Rightarrow> 64 word" where
  "meanOf a = f_div (agSum a) (f_of_int (agCount a))"

definition varianceOf :: "simpleAgg \<Rightarrow> 64 word" where
  "varianceOf a = f_sub (f_div (agSumSq a) (f_of_int (agCount a))) (f_mul (meanOf a) (meanOf a))"

definition orNull :: "vptr \<Rightarrow> Value" where
  "orNull p = (case p of None \<Rightarrow> NullValue | Some v \<Rightarrow> v)"

definition result :: "simpleAgg \<Rightarrow> Value" where
  "result a =
     (let name = agName a
      in if name = ''COUNT'' then IntValue (agCount a)
         else if name = ''SUM'' then
           (if agCount a = 0 then NullValue else if agIsInt a then IntValue (agIsum a) else RealValue (agSum a))
         else if name = ''TOTAL'' then RealValue (agSum a)
         else if name = ''AVG'' then (if agCount a = 0 then NullValue else RealValue (meanOf a))
         else if name = ''STDDEV'' then
           (if agCount a <s 2 then NullValue
            else RealValue (Sqrt (if f_less (varianceOf a) 0 then 0 else varianceOf a)))
         else if name = ''VARIANCE'' then (if agCount a <s 2 then NullValue else RealValue (varianceOf a))
         else if name = ''MIN'' then orNull (agMin a)
         else if name = ''MAX'' then orNull (agMax a)
         else if name = ''GROUP_CONCAT'' then
           (if agParts a = [] then NullValue
            else TextValue (Join (agParts a) (if agSep a = '''' then '','' else agSep a)))
         else if name = ''BIT_AND'' then (if agBitInit a then IntValue (agBitAnd a) else NullValue)
         else if name = ''BIT_OR'' then IntValue (agBitOr a)
         else if name = ''BIT_XOR'' then IntValue (agBitXor a)
         else NullValue)"

section \<open>Queries with aggregates\<close>

text \<open>The aggregate of a column, with its separator; a column that only contains one has none.\<close>

definition startAgg :: "xenv \<Rightarrow> SelectColumn \<Rightarrow> simpleAgg option xm" where
  "startAgg X col =
     (if columnAggregate (xlib X) col then
        (case colExpr col of
           Some (FuncCallExpr name es _ _) \<Rightarrow>
             (let agg = newAgg (ToUpper (xlib X) name)
              in if length es \<ge> 2 \<and> agName agg = ''GROUP_CONCAT''
                 then bindX (evalX (EvalExpr (xeEval X) emptyContext (es ! 1))) (\<lambda>(p, _).
                      returnX (Some (case p of None \<Rightarrow> agg | Some v \<Rightarrow> agg\<lparr>agSep := value_String (xlib X) v\<rparr>)))
                 else returnX (Some agg))
         | _ \<Rightarrow> returnX None)
      else returnX None)"

text \<open>One row into the aggregate of one column; \<open>DISTINCT\<close> makes no difference.\<close>

definition stepAgg :: "xenv \<Rightarrow> EvalContext \<Rightarrow> SelectColumn \<times> simpleAgg option \<Rightarrow> simpleAgg option xm" where
  "stepAgg X ctx = (\<lambda>(col, agg).
     case agg of
       None \<Rightarrow> returnX None
     | Some a \<Rightarrow>
         (case colExpr col of
            Some (FuncCallExpr _ es dist star) \<Rightarrow>
              bindX (if star \<or> es = [] then returnX (Some (IntValue 1)) else valueX (EvalExpr (xeEval X) ctx (hd es)))
                (\<lambda>p. returnX (Some (accumulate (xlib X) p a)))
          | _ \<Rightarrow> failX Panic))"

definition finishAgg :: "xenv \<Rightarrow> EvalContext \<Rightarrow> SelectColumn \<times> simpleAgg option \<Rightarrow> vptr xm" where
  "finishAgg X ctx = (\<lambda>(col, agg).
     case agg of Some a \<Rightarrow> returnX (Some (result a)) | None \<Rightarrow> evalColumn X ctx (colExpr col))"

definition evalAggregate :: "xenv \<Rightarrow> SelectStmt \<Rightarrow> row list \<Rightarrow> TableSchema option \<Rightarrow> bindings \<Rightarrow> row list xm" where
  "evalAggregate X stmt rows schema tabs =
     (let cols = selColumns stmt; ctx = (\<lambda>r. makeCtxForRow r schema (Some tabs))
      in bindX (mapX (startAgg X) cols) (\<lambda>aggs.
         bindX (foldX (\<lambda>r aggs. mapX (stepAgg X (ctx r)) (zip cols aggs)) rows aggs) (\<lambda>aggs.
         bindX (mapX (finishAgg X (case rows of [] \<Rightarrow> emptyContext | r # _ \<Rightarrow> ctx r)) (zip cols aggs)) (\<lambda>vs.
         returnX [vs]))))"

text \<open>The groups in the order of their first rows.\<close>

fun addToGroup :: "string \<Rightarrow> 'a \<Rightarrow> (string \<times> 'a list) list \<Rightarrow> (string \<times> 'a list) list" where
  "addToGroup k r [] = [(k, [r])]"
| "addToGroup k r ((k', rs) # gs) = (if k' = k then (k', rs @ [r]) # gs else (k', rs) # addToGroup k r gs)"

definition groupKey :: "xenv \<Rightarrow> Expr list \<Rightarrow> EvalContext \<Rightarrow> string xm" where
  "groupKey X gbs ctx =
     bindX (mapX (\<lambda>e. valueX (EvalExpr (xeEval X) ctx e)) gbs) (\<lambda>ps.
     returnX (Join (map (ptrString (xlib X)) ps) [CHR 0x00]))"

definition groupRows :: "xenv \<Rightarrow> Expr list \<Rightarrow> row list \<Rightarrow> TableSchema option \<Rightarrow> bindings \<Rightarrow> (string \<times> row list) list xm" where
  "groupRows X gbs rows schema tabs =
     foldX (\<lambda>r gs. bindX (groupKey X gbs (makeCtxForRow r schema (Some tabs))) (\<lambda>k. returnX (addToGroup k r gs))) rows []"

text \<open>\<open>HAVING\<close> is evaluated on the computed row with no schema.\<close>

definition havingRows :: "xenv \<Rightarrow> Expr option \<Rightarrow> row list \<Rightarrow> row list xm" where
  "havingRows X having rows =
     (case having of
        None \<Rightarrow> returnX rows
      | Some e \<Rightarrow> filterX (\<lambda>r. bindX (valueX (EvalExpr (xeEval X) (makeCtxForRow r None None) e)) (\<lambda>p.
                    returnX (IsTruthy p))) rows)"

definition evalGroupBy :: "xenv \<Rightarrow> SelectStmt \<Rightarrow> row list \<Rightarrow> TableSchema option \<Rightarrow> bindings \<Rightarrow> (row list \<times> string list) xm" where
  "evalGroupBy X stmt rows schema tabs =
     bindX (groupRows X (selGroupBy stmt) rows schema tabs) (\<lambda>groups.
     bindX (mapX (\<lambda>(k, rs). bindX (evalAggregate X stmt rs schema tabs) (havingRows X (selHaving stmt))) groups) (\<lambda>rss.
     bindX (if selOrderBy stmt \<noteq> [] then sortRows X stmt (concat rss) schema tabs else returnX (concat rss)) (\<lambda>rows.
     bindX (applyLimitOffset X stmt rows) (\<lambda>rows.
     returnX (rows, resolveColumnNames X stmt schema)))))"

section \<open>The rows of a name\<close>

type_synonym ctes = "(string \<times> string list \<times> row list) list"

type_synonym select = "SelectStmt \<Rightarrow> ctes \<Rightarrow> (row list \<times> string list) xm"

definition fakeSchema :: "string \<Rightarrow> string list \<Rightarrow> TableSchema" where
  "fakeSchema name cols = \<lparr>tName = name,
     Columns = map (\<lambda>c. \<lparr>cName = c, cType = TypeText, NotNull = False, PrimaryKey = False, Default = '''',
                         cUnique = False, AutoInc = False\<rparr>) cols,
     tRootPage = 0, Indexes = [], NextAutoInc = 0\<rparr>"

text \<open>Rows that a query computed are numbered from one.\<close>

definition numbered :: "row list \<Rightarrow> (row \<times> 64 word) list" where
  "numbered rows = zip rows (map (\<lambda>i. of_nat (i + 1)) [0..<length rows])"

definition getTableRows :: "xenv \<Rightarrow> select \<Rightarrow> string \<Rightarrow> ctes \<Rightarrow> ((row \<times> 64 word) list \<times> TableSchema) xm" where
  "getTableRows X sel name cteMap =
     (case map_of cteMap (ToLower (xlib X) name) of
        Some (cols, rows) \<Rightarrow> returnX (numbered rows, fakeSchema name cols)
      | None \<Rightarrow>
          bindX (lookupX (GetView (xeEnv X) name)) (\<lambda>view.
          case view of
            Some vs \<Rightarrow>
              (case Parse (evUni (xeEval X)) (xlib X) (SQL vs) of
                 Inl e \<Rightarrow> failX e
               | Inr [] \<Rightarrow> returnX ([], fakeSchema name [])
               | Inr (SelectSt s # _) \<Rightarrow>
                   bindX (sel s cteMap) (\<lambda>(rows, cols). returnX (numbered rows, fakeSchema name cols))
               | Inr _ \<Rightarrow> failX (ErrUnknown name))
          | None \<Rightarrow>
              bindX (onTable (Scan (xeEnv X) (scanFuel X) name)) (\<lambda>scans.
              bindX (lookupX (GetTable (xeEnv X) name)) (\<lambda>ts.
              case ts of
                None \<Rightarrow> failX (ErrMissing name)
              | Some ts \<Rightarrow> returnX (map (\<lambda>(rowid, r). (map Some r, rowid)) scans, ts)))))"

section \<open>Joins\<close>

definition getValueFromRow :: "golib \<Rightarrow> row \<Rightarrow> TableSchema \<Rightarrow> string \<Rightarrow> vptr" where
  "getValueFromRow G vs schema col =
     (case ColumnIndex G col schema of None \<Rightarrow> None | Some i \<Rightarrow> if i < length vs then vs ! i else None)"

definition usingMatch :: "golib \<Rightarrow> TableSchema \<Rightarrow> TableSchema \<Rightarrow> row \<Rightarrow> row \<Rightarrow> string \<Rightarrow> bool" where
  "usingMatch G ls rs l r col =
     (case (getValueFromRow G l ls col, getValueFromRow G r rs col) of
        (Some a, Some b) \<Rightarrow> value_Compare G a b = 0
      | _ \<Rightarrow> False)"

definition refAliasOf :: "TableRef \<Rightarrow> string" where
  "refAliasOf t = (if refAlias t = '''' then refName t else refAlias t)"

text \<open>Whether one pair of rows is joined.\<close>

definition joins :: "xenv \<Rightarrow> JoinClause \<Rightarrow> TableSchema \<Rightarrow> TableSchema \<Rightarrow> row \<Rightarrow> row \<Rightarrow> bindings \<Rightarrow> bool xm" where
  "joins X join mainSchema rightSchema l r tabs =
     (case join of JoinClause _ _ on using \<Rightarrow>
        (case on of
           Some e \<Rightarrow> bindX (valueX (EvalExpr (xeEval X) (makeCtxForRow (l @ r) (Some mainSchema) (Some tabs)) e))
                       (\<lambda>p. returnX (IsTruthy p))
         | None \<Rightarrow> returnX (list_all (usingMatch (xlib X) mainSchema rightSchema l r) using)))"

text \<open>The inner loop for one left row: the combined rows, and the bindings, which keep the last right
  row.\<close>

primrec joinRow :: "xenv \<Rightarrow> JoinClause \<Rightarrow> string \<Rightarrow> TableSchema \<Rightarrow> TableSchema \<Rightarrow> row \<Rightarrow> (row \<times> 64 word) list \<Rightarrow> bindings \<Rightarrow>
    (row list \<times> bindings) xm" where
  "joinRow X join alias ms rs l [] tabs = returnX ([], tabs)"
| "joinRow X join alias ms rs l (r # rrows) tabs =
     (let tabs = AList.update alias \<lparr>tbSchema = rs, tbRow = fst r, tbRowID = snd r\<rparr> tabs
      in bindX (joins X join ms rs l (fst r) tabs) (\<lambda>ok.
         bindX (joinRow X join alias ms rs l rrows tabs) (\<lambda>(out, tabs).
         returnX (if ok then (l @ fst r) # out else out, tabs))))"

primrec joinRows :: "xenv \<Rightarrow> JoinClause \<Rightarrow> bool \<Rightarrow> string \<Rightarrow> TableSchema \<Rightarrow> TableSchema \<Rightarrow> (row \<times> 64 word) list \<Rightarrow> row list \<Rightarrow>
    bindings \<Rightarrow> (row list \<times> bindings) xm" where
  "joinRows X join outer alias ms rs rrows [] tabs = returnX ([], tabs)"
| "joinRows X join outer alias ms rs rrows (l # ls) tabs =
     bindX (joinRow X join alias ms rs l rrows tabs) (\<lambda>(here, tabs).
     bindX (joinRows X join outer alias ms rs rrows ls tabs) (\<lambda>(out, tabs).
     returnX ((if here = [] \<and> outer then [l @ replicate (length (Columns rs)) (Some NullValue)] else here) @ out, tabs)))"

definition applyJoin :: "xenv \<Rightarrow> select \<Rightarrow> row list \<Rightarrow> JoinClause \<Rightarrow> TableSchema \<Rightarrow> bindings \<Rightarrow> ctes \<Rightarrow> (row list \<times> bindings) xm" where
  "applyJoin X sel leftRows join mainSchema tabs cteMap =
     (case join of JoinClause ty t _ _ \<Rightarrow>
        bindX (getTableRows X sel (refName t) cteMap) (\<lambda>(rightRows, rightSchema).
        joinRows X join (Contains ty ''LEFT'') (ToLower (xlib X) (refAliasOf t)) mainSchema rightSchema rightRows leftRows tabs))"

text \<open>The loop over the main rows binds the alias again and again: the last row stays bound.\<close>

definition bindLast :: "string \<Rightarrow> TableSchema \<Rightarrow> (row \<times> 64 word) list \<Rightarrow> bindings \<Rightarrow> bindings" where
  "bindLast alias schema rows tabs =
     (if rows = [] then tabs
      else AList.update alias \<lparr>tbSchema = schema, tbRow = fst (last rows), tbRowID = snd (last rows)\<rparr> tabs)"

text \<open>The further tables of \<open>FROM\<close>: all pairs of rows, without a binding.\<close>

definition crossRows :: "xenv \<Rightarrow> select \<Rightarrow> ctes \<Rightarrow> TableRef \<Rightarrow> row list \<Rightarrow> row list xm" where
  "crossRows X sel cteMap t rows =
     bindX (getTableRows X sel (refName t) cteMap) (\<lambda>(rows2, _).
     returnX (concat (map (\<lambda>r1. map (\<lambda>r2. r1 @ fst r2) rows2) rows)))"

definition gatherRows :: "xenv \<Rightarrow> select \<Rightarrow> SelectStmt \<Rightarrow> ctes \<Rightarrow> (row list \<times> TableSchema \<times> bindings) xm" where
  "gatherRows X sel stmt cteMap =
     (let t = hd (selFrom stmt)
      in bindX (getTableRows X sel (refName t) cteMap) (\<lambda>(mainRows, mainSchema).
         let tabs = bindLast (ToLower (xlib X) (refAliasOf t)) mainSchema mainRows []
         in bindX (foldX (crossRows X sel cteMap) (tl (selFrom stmt)) (map fst mainRows)) (\<lambda>rows.
            bindX (foldX (\<lambda>join (rows, tabs). applyJoin X sel rows join mainSchema tabs cteMap) (selJoins stmt) (rows, tabs))
              (\<lambda>(rows, tabs). returnX (rows, mainSchema, tabs)))))"

section \<open>SELECT\<close>

definition evalSelectWith :: "xenv \<Rightarrow> select \<Rightarrow> select" where
  "evalSelectWith X sel stmt cteMap =
     (if selFrom stmt = [] then evalSelectNoFrom X stmt
      else bindX (gatherRows X sel stmt cteMap) (\<lambda>(allRows, mainSchema, tabs).
           bindX (filterRows X allRows (selWhere stmt) (Some mainSchema) tabs) (\<lambda>filtered.
           if selGroupBy stmt \<noteq> [] then evalGroupBy X stmt filtered (Some mainSchema) tabs
           else let names = resolveColumnNames X stmt (Some mainSchema)
                in if hasAggregates (xlib X) stmt
                   then bindX (evalAggregate X stmt filtered (Some mainSchema) tabs) (\<lambda>rows. returnX (rows, names))
                   else bindX (mapX (\<lambda>r. projectRow X (makeCtxForRow r (Some mainSchema) (Some tabs)) stmt) filtered) (\<lambda>rows.
                        let rows = (if selDistinct stmt then dedup (xlib X) rows else rows)
                        in bindX (if selOrderBy stmt \<noteq> [] then sortRows X stmt rows (Some mainSchema) tabs
                                  else returnX rows) (\<lambda>rows.
                           bindX (applyLimitOffset X stmt rows) (\<lambda>rows.
                           returnX (rows, names)))))))"

primrec evalSelect :: "xenv \<Rightarrow> nat \<Rightarrow> select" where
  "evalSelect X 0 = (\<lambda>stmt cteMap. failX OutOfFuel)"
| "evalSelect X (Suc n) = evalSelectWith X (evalSelect X n)"

end
