(* ===== verification/Executor.thy ===== *)
theory Executor
  imports Select
begin

text \<open>
  The statements (\<open>internal/engine/executor/executor.go\<close>): compound queries, changes of rows, definitions,
  transactions, listings and pragmas, and \<open>Execute\<close>, which parses a text and runs its statements in
  order up to the first error.
\<close>

section \<open>Results\<close>

text \<open>The duration is left out.\<close>

record ResultSet =
  rsColumns :: "string list"
  rsRows :: "string list list"
  RowsAffected :: "64 word"
  LastInsertID :: "64 word"

definition emptyResult :: ResultSet where
  "emptyResult = \<lparr>rsColumns = [], rsRows = [], RowsAffected = 0, LastInsertID = 0\<rparr>"

definition tableOf :: "string list \<Rightarrow> string list list \<Rightarrow> ResultSet" where
  "tableOf cols rows = emptyResult\<lparr>rsColumns := cols, rsRows := rows\<rparr>"

definition NewExecutor :: "SchemaManager \<Rightarrow> Executor" where
  "NewExecutor s = \<lparr>xTable = NewTableEngine s, xInTx = False, xTx = None, draws = 0\<rparr>"

text \<open>An operation whose result is \<open>&ResultSet{}\<close> and its error.\<close>

definition done_with :: "'a xm \<Rightarrow> ResultSet xm" where
  "done_with m = bindX m (\<lambda>_. returnX emptyResult)"

text \<open>A result computed on the side.\<close>

definition resultX :: "'a res \<Rightarrow> 'a xm" where "resultX r = (\<lambda>x. (r, x))"

section \<open>Queries\<close>

definition rowKeyText :: "string list \<Rightarrow> string" where
  "rowKeyText r = Join r [CHR 0x00]"

definition compoundRows :: "string \<Rightarrow> bool \<Rightarrow> string list list \<Rightarrow> string list list \<Rightarrow> string list list" where
  "compoundRows op all ls rs =
     (let inRight = (\<lambda>r. rowKeyText r \<in> set (map rowKeyText rs))
      in if op = ''UNION'' then (if all then ls @ rs else keepNew rowKeyText [] (ls @ rs))
         else if op = ''INTERSECT'' then filter inRight ls
         else if op = ''EXCEPT'' then filter (\<lambda>r. \<not> inRight r) ls
         else ls)"

definition execPlain :: "xenv \<Rightarrow> SelectStmt \<Rightarrow> ResultSet xm" where
  "execPlain X stmt =
     bindX (evalSelect X (viewFuel X) stmt []) (\<lambda>(rows, cols).
     returnX (tableOf cols (map (map (ptrString (xlib X))) rows)))"

text \<open>The common table expressions see the earlier ones; the query behind them sees none.\<close>

definition evalCTEs :: "xenv \<Rightarrow> WithClause option \<Rightarrow> unit xm" where
  "evalCTEs X w =
     (case w of
        None \<Rightarrow> returnX ()
      | Some (WithClause _ cs) \<Rightarrow>
          bindX (foldX (\<lambda>c cteMap. case c of CTE name _ q \<Rightarrow>
              bindX (evalSelect X (viewFuel X) q cteMap) (\<lambda>(rows, cols).
              returnX (AList.update (ToLower (xlib X) name) (cols, rows) cteMap))) cs [])
            (\<lambda>_. returnX ()))"

text \<open>\<open>execSelect\<close> with \<open>execWithSelect\<close> and \<open>execCompound\<close>\<close>

function execSelect :: "xenv \<Rightarrow> SelectStmt \<Rightarrow> ResultSet xm" where
  "execSelect X stmt =
     bindX (evalCTEs X (selWith stmt)) (\<lambda>_.
     case selCompound stmt of
       None \<Rightarrow> execPlain X stmt
     | Some (CompoundClause op all rhs) \<Rightarrow>
         bindX (execPlain X (setCompound None (setWith None stmt))) (\<lambda>l.
         bindX (execSelect X rhs) (\<lambda>r.
         returnX (l\<lparr>rsRows := compoundRows (ToUpper (xlib X) op) all (rsRows l) (rsRows r)\<rparr>))))"
  by pat_completeness auto
termination
proof (relation "measure (\<lambda>(X, s). size s)", goal_cases)
  case (2 X stmt u c op all rhs)
  then show ?case by (cases stmt) auto
qed simp

declare execSelect.simps [simp del]

section \<open>Changing rows\<close>

definition conflictOf :: "golib \<Rightarrow> string \<Rightarrow> ConflictAction" where
  "conflictOf G s =
     (let u = ToUpper G s
      in if u = ''REPLACE'' then ConflictReplace else if u = ''IGNORE'' then ConflictIgnore
         else if u = ''FAIL'' then ConflictFail else if u = ''ROLLBACK'' then ConflictRollback
         else ConflictAbort)"

text \<open>\<open>InsertWithConflict\<close> on pointers. \<open>CoerceValue\<close> reads the type of a nil value only for the columns
  that it converts; the other columns keep the nil, which the checks and \<open>EncodeRow\<close> read later.\<close>

definition coercePtr :: "golib \<Rightarrow> vptr \<Rightarrow> ColumnType \<Rightarrow> vptr res" where
  "coercePtr G p colType =
     (case p of
        None \<Rightarrow> if colType \<in> {TypeInteger, TypeReal, TypeText} then Inl Panic else Inr None
      | Some v \<Rightarrow> bindE (CoerceValue G v colType) (\<lambda>w. Inr (Some w)))"

fun assignPtrs :: "golib \<Rightarrow> TableSchema \<Rightarrow> (string \<times> vptr) list \<Rightarrow> row \<Rightarrow> row res" where
  "assignPtrs G ts [] row = Inr row"
| "assignPtrs G ts ((cname, p) # ps) row =
     (case ColumnIndex G cname ts of
        None \<Rightarrow> Inl (ErrNoColumn cname)
      | Some idx \<Rightarrow>
          bindE (coercePtr G p (cType (Columns ts ! idx))) (\<lambda>q. assignPtrs G ts ps (row[idx := q])))"

definition buildPtrs :: "golib \<Rightarrow> TableSchema \<Rightarrow> string list \<Rightarrow> row \<Rightarrow> row res" where
  "buildPtrs G ts colNames ps =
     (if colNames = [] then
        (if length ps \<noteq> length (Columns ts) then Inl (ErrColumn ''column count mismatch'')
         else mapE (\<lambda>(p, c). coercePtr G p (cType c)) (zip ps (Columns ts)))
      else if length colNames \<noteq> length ps then Inl (ErrColumn ''column count mismatch'')
      else assignPtrs G ts (zip colNames ps) (map (\<lambda>c. Some (defaultValue c)) (Columns ts)))"

definition checkPtrs :: "TableSchema \<Rightarrow> row \<Rightarrow> unit res" where
  "checkPtrs ts row =
     (case find (\<lambda>(c, p). NotNull c \<and> (case p of None \<Rightarrow> True | Some v \<Rightarrow> vType v = ValNull \<and> \<not> PrimaryKey c))
             (zip (Columns ts) row) of
        None \<Rightarrow>
          (case PrimaryKeyColumn ts of
             None \<Rightarrow> Inr ()
           | Some i \<Rightarrow> if row ! i = None then Inl Panic else Inr ())
      | Some (c, None) \<Rightarrow> Inl Panic
      | Some (c, Some _) \<Rightarrow> Inl (ErrConstraint (cName c)))"

definition orNil :: "vptr \<Rightarrow> Value" where
  "orNil p = (case p of None \<Rightarrow> NullValue | Some v \<Rightarrow> v)"

text \<open>A row with a nil value outside the primary key: the schema is stored and an old row is deleted
  before \<open>EncodeRow\<close> panics.\<close>

definition insertNil :: "env \<Rightarrow> string \<Rightarrow> TableSchema \<Rightarrow> row \<Rightarrow> ConflictAction \<Rightarrow> unit tm" where
  "insertNil E tableName ts row c =
     bindT (liftT (checkPtrs ts row)) (\<lambda>_.
     let (rowid, _, ts) = chooseRowID ts (map orNil row); key = rowKey rowid
     in bindT (onSchema (setTable E tableName ts)) (\<lambda>_.
        bindT (onSchema (updateTableSchema E ts)) (\<lambda>_.
        bindT (onSchema (treeGet E (tRootPage ts) key)) (\<lambda>existing.
        if existing \<noteq> None \<and> c = ConflictIgnore then returnT ()
        else bindT (if existing = None then returnT ()
                    else if c = ConflictReplace
                    then bindT (onSchema (treeDelete E (tRootPage ts) key)) (\<lambda>_. returnT ())
                    else failT (ErrConstraint (FormatInt rowid))) (\<lambda>_.
             failT Panic)))))"

text \<open>A nil value that a later value of the same column replaces is as good as \<open>NULL\<close>.\<close>

definition insertX' :: "xenv \<Rightarrow> string \<Rightarrow> string list \<Rightarrow> row \<Rightarrow> ConflictAction \<Rightarrow> unit xm" where
  "insertX' X table cols vs c =
     (if None \<in> set vs then
        bindX (lookupX (GetTable (xeEnv X) table)) (\<lambda>ts.
        case ts of
          None \<Rightarrow> failX (ErrMissing table)
        | Some ts \<Rightarrow>
            bindX (resultX (buildPtrs (xlib X) ts cols vs)) (\<lambda>row.
            if None \<in> set row then onTable (insertNil (xeEnv X) table ts row c)
            else onTable (InsertWithConflict (xeEnv X) table cols (map orNil vs) c)))
      else onTable (InsertWithConflict (xeEnv X) table cols (map the vs) c))"

definition affected :: "bool \<Rightarrow> ResultSet xm" where
  "affected withId = (\<lambda>x. (Inr (emptyResult\<lparr>RowsAffected := changes (xTable x),
     LastInsertID := (if withId then lastInsertRowID (xTable x) else 0)\<rparr>), x))"

definition execInsert :: "xenv \<Rightarrow> InsertStmt \<Rightarrow> ResultSet xm" where
  "execInsert X stmt =
     (let c = conflictOf (xlib X) (insOr stmt);
          put = (\<lambda>vs. insertX' X (insTable stmt) (insColumns stmt) vs c)
      in case insSelect stmt of
           Some q \<Rightarrow>
             bindX (evalSelect X (viewFuel X) q []) (\<lambda>(rows, _).
             bindX (mapX put rows) (\<lambda>_. affected False))
         | None \<Rightarrow>
             bindX (mapX (\<lambda>es. bindX (mapX (\<lambda>e. valueX (EvalExpr (xeEval X) emptyContext e)) es) put) (insValues stmt))
               (\<lambda>_. affected True))"

text \<open>The rows of a statement with a condition: its error ends the statement.\<close>

definition rowContext :: "64 word \<Rightarrow> Row \<Rightarrow> TableSchema \<Rightarrow> EvalContext" where
  "rowContext rowid r ts = (NewEvalContext (map Some r) ts)\<lparr>cxRowID := rowid\<rparr>"

definition selected :: "xenv \<Rightarrow> EvalContext \<Rightarrow> Expr option \<Rightarrow> bool xm" where
  "selected X ctx cond =
     (case cond of
        None \<Rightarrow> returnX True
      | Some e \<Rightarrow> bindX (valueX (EvalExpr (xeEval X) ctx e)) (\<lambda>p. returnX (IsTruthy p)))"

definition scanTable :: "xenv \<Rightarrow> string \<Rightarrow> ((64 word \<times> Row) list \<times> TableSchema) xm" where
  "scanTable X table =
     bindX (onTable (Scan (xeEnv X) (scanFuel X) table)) (\<lambda>scans.
     bindX (lookupX (GetTable (xeEnv X) table)) (\<lambda>ts.
     case ts of None \<Rightarrow> failX (ErrMissing table) | Some ts \<Rightarrow> returnX (scans, ts)))"

text \<open>The map of the new values, then its entries in the order of one range; nil panics.\<close>

definition newValues :: "xenv \<Rightarrow> EvalContext \<Rightarrow> (string \<times> Expr) list \<Rightarrow> (string \<times> vptr) list xm" where
  "newValues X ctx sets =
     foldX (\<lambda>(col, e) ups. bindX (valueX (EvalExpr (xeEval X) ctx e)) (\<lambda>p.
       returnX (AList.update (ToLower (xlib X) col) p ups))) sets []"

definition inRangeOrder :: "xenv \<Rightarrow> (string \<times> 'a) list \<Rightarrow> (string \<times> 'a) list xm" where
  "inRangeOrder X m =
     bindX (evalX (ask (\<lambda>n. rangeOrder (xeEval X) n (map fst m)))) (\<lambda>ks.
     returnX (concat (map (\<lambda>k. case map_of m k of None \<Rightarrow> [] | Some v \<Rightarrow> [(k, v)]) ks)))"

definition updateRow :: "xenv \<Rightarrow> UpdateStmt \<Rightarrow> TableSchema \<Rightarrow> 64 word \<times> Row \<Rightarrow> unit xm" where
  "updateRow X stmt ts = (\<lambda>(rowid, r).
     let ctx = rowContext rowid r ts
     in bindX (selected X ctx (updWhere stmt)) (\<lambda>ok.
        if \<not> ok then returnX ()
        else bindX (newValues X ctx (updSets stmt)) (\<lambda>ups.
             bindX (inRangeOrder X ups) (\<lambda>ups.
             if None \<in> snd ` set ups then failX Panic
             else onTable (UpdateRow (xeEnv X) (updTable stmt) rowid (map (\<lambda>(k, p). (k, the p)) ups))))))"

definition execUpdate :: "xenv \<Rightarrow> UpdateStmt \<Rightarrow> ResultSet xm" where
  "execUpdate X stmt =
     bindX (scanTable X (updTable stmt)) (\<lambda>(scans, ts).
     bindX (mapX (updateRow X stmt ts) scans) (\<lambda>_. affected False))"

definition deleteRow :: "xenv \<Rightarrow> DeleteStmt \<Rightarrow> TableSchema \<Rightarrow> 64 word \<times> Row \<Rightarrow> unit xm" where
  "deleteRow X stmt ts = (\<lambda>(rowid, r).
     bindX (selected X (rowContext rowid r ts) (delWhere stmt)) (\<lambda>ok.
     if \<not> ok then returnX ()
     else bindX (onTable (DeleteRow (xeEnv X) (delTable stmt) rowid)) (\<lambda>_. returnX ())))"

definition execDelete :: "xenv \<Rightarrow> DeleteStmt \<Rightarrow> ResultSet xm" where
  "execDelete X stmt =
     bindX (scanTable X (delTable stmt)) (\<lambda>(scans, ts).
     bindX (mapX (deleteRow X stmt ts) scans) (\<lambda>_. affected False))"

section \<open>Definitions\<close>

definition columnOf :: "golib \<Rightarrow> ColumnDef \<Rightarrow> Column" where
  "columnOf G c = \<lparr>cName = cdName c, cType = NormalizeType G (cdType c), NotNull = cdNotNull c,
     PrimaryKey = cdPrimaryKey c, Default = cdDefault c, cUnique = cdUnique c, AutoInc = cdAutoIncrement c\<rparr>"

text \<open>The primary key constraints of the table mark their columns; the other constraints do nothing.\<close>

definition markKeys :: "golib \<Rightarrow> TableConstraint list \<Rightarrow> Column \<Rightarrow> Column" where
  "markKeys G tcs c =
     (if list_ex (\<lambda>tc. tcType tc = ''PRIMARY KEY'' \<and> list_ex (EqualFold G (cName c)) (tcColumns tc)) tcs
      then c\<lparr>PrimaryKey := True\<rparr> else c)"

definition schemaOf :: "golib \<Rightarrow> CreateTableStmt \<Rightarrow> TableSchema" where
  "schemaOf G stmt = \<lparr>tName = ctTable stmt, Columns = map (markKeys G (ctConstraints stmt) \<circ> columnOf G) (ctColumns stmt),
     tRootPage = 0, Indexes = [], NextAutoInc = 1\<rparr>"

text \<open>The head of the \<open>CREATE\<close> and \<open>DROP\<close> statements.\<close>

definition creating :: "(SchemaManager \<Rightarrow> 'a option) \<Rightarrow> bool \<Rightarrow> string \<Rightarrow> unit sm \<Rightarrow> ResultSet xm" where
  "creating get ifNotExists name m =
     bindX (lookupX get) (\<lambda>found.
     if found \<noteq> None then (if ifNotExists then returnX emptyResult else failX (ErrExists name))
     else done_with (onCatalogue m))"

definition dropping :: "(SchemaManager \<Rightarrow> 'a option) \<Rightarrow> bool \<Rightarrow> string \<Rightarrow> unit sm \<Rightarrow> ResultSet xm" where
  "dropping get ifExists name m =
     bindX (lookupX get) (\<lambda>found.
     if found = None then (if ifExists then returnX emptyResult else failX (ErrMissing name))
     else done_with (onCatalogue m))"

definition execCreateTable :: "xenv \<Rightarrow> CreateTableStmt \<Rightarrow> ResultSet xm" where
  "execCreateTable X stmt =
     creating (GetTable (xeEnv X) (ctTable stmt)) (ctIfNotExists stmt) (ctTable stmt)
       (CreateTable (xeEnv X) (schemaOf (xlib X) stmt))"

definition execDropTable :: "xenv \<Rightarrow> string \<Rightarrow> bool \<Rightarrow> ResultSet xm" where
  "execDropTable X table ifExists =
     dropping (GetTable (xeEnv X) table) ifExists table (DropTable (xeEnv X) table)"

definition execCreateIndex :: "xenv \<Rightarrow> CreateIndexStmt \<Rightarrow> ResultSet xm" where
  "execCreateIndex X stmt =
     creating (GetIndex (xeEnv X) (ciName stmt)) (ciIfNotExists stmt) (ciName stmt)
       (CreateIndex (xeEnv X) \<lparr>iName = ciName stmt, TableName = ciTable stmt, iColumn = ciColumn stmt,
          iUnique = ciUnique stmt, iRootPage = 0\<rparr>)"

definition execDropIndex :: "xenv \<Rightarrow> string \<Rightarrow> bool \<Rightarrow> ResultSet xm" where
  "execDropIndex X name ifExists = dropping (GetIndex (xeEnv X) name) ifExists name (DropIndex (xeEnv X) name)"

text \<open>The text that is stored does not depend on the query.\<close>

definition sqlForView :: "SelectStmt option \<Rightarrow> string" where
  "sqlForView stmt = (case stmt of None \<Rightarrow> '''' | Some _ \<Rightarrow> ''SELECT 1'')"

definition execCreateView :: "xenv \<Rightarrow> CreateViewStmt \<Rightarrow> ResultSet xm" where
  "execCreateView X stmt =
     creating (GetView (xeEnv X) (cvName stmt)) (cvIfNotExists stmt) (cvName stmt)
       (CreateView (xeEnv X) \<lparr>vName = cvName stmt, SQL = sqlForView (cvSelect stmt)\<rparr>)"

definition execDropView :: "xenv \<Rightarrow> string \<Rightarrow> bool \<Rightarrow> ResultSet xm" where
  "execDropView X name ifExists = dropping (GetView (xeEnv X) name) ifExists name (DropView (xeEnv X) name)"

definition execAlterTable :: "xenv \<Rightarrow> string \<Rightarrow> AlterAction \<Rightarrow> ResultSet xm" where
  "execAlterTable X table action =
     (case action of
        AlterAddColumn c \<Rightarrow> done_with (onCatalogue (AddColumn (xeEnv X) table (columnOf (xlib X) c)))
      | AlterRenameTable n \<Rightarrow> done_with (onCatalogue (RenameTable (xeEnv X) table n))
      | AlterRenameColumn old new \<Rightarrow> done_with (onCatalogue (RenameColumn (xeEnv X) table old new))
      | AlterDropColumn c \<Rightarrow> done_with (onCatalogue (DropColumn (xeEnv X) table c)))"

section \<open>Transactions\<close>

definition setTx :: "bool \<Rightarrow> Transaction option \<Rightarrow> unit xm" where
  "setTx b tx = (\<lambda>x. (Inr (), x\<lparr>xInTx := b, xTx := tx\<rparr>))"

definition getTx :: "(bool \<times> Transaction option) xm" where
  "getTx = (\<lambda>x. (Inr (xInTx x, xTx x), x))"

definition attempt :: "'a xm \<Rightarrow> 'a res xm" where
  "attempt m = (\<lambda>x. case m x of (r, x') \<Rightarrow> (Inr r, x'))"

definition execBegin :: "ResultSet xm" where
  "execBegin = bindX getTx (\<lambda>(inTx, _).
     if inTx then failX (ErrTx ''already in a transaction'')
     else done_with (setTx True (Some NewTransaction)))"

definition commitTx :: "Transaction \<Rightarrow> unit xm" where
  "commitTx tx = (\<lambda>x. case Commit tx (sm_pager (te_schema (xTable x))) of
     ((r, _), p) \<Rightarrow> (r, x\<lparr>xTable := (xTable x)\<lparr>te_schema := (te_schema (xTable x))\<lparr>sm_pager := p\<rparr>\<rparr>\<rparr>))"

definition execCommit :: "ResultSet xm" where
  "execCommit = bindX getTx (\<lambda>(inTx, tx).
     if \<not> inTx then done_with (onStorage FlushAll)
     else case tx of
       None \<Rightarrow> failX Panic
     | Some tx \<Rightarrow> bindX (attempt (commitTx tx)) (\<lambda>r. bindX (setTx False None) (\<lambda>_. done_with (resultX r))))"

text \<open>A range over page images visits their keys, in some order.\<close>

definition orderX :: "xenv \<Rightarrow> images \<Rightarrow> 32 word list xm" where
  "orderX X m = evalX (ask (\<lambda>n. filter (\<lambda>i. m i \<noteq> None) (pageOrder X n)))"

definition imagesFor :: "string \<Rightarrow> Transaction \<Rightarrow> images" where
  "imagesFor to tx =
     (if to = '''' then (case saveState tx of None \<Rightarrow> Map.empty | Some m \<Rightarrow> m)
      else case find_savepoint to (savepoints tx) of
             None \<Rightarrow> Map.empty | Some i \<Rightarrow> sp_pages (savepoints tx ! i))"

definition execRollback :: "xenv \<Rightarrow> string \<Rightarrow> ResultSet xm" where
  "execRollback X to = bindX getTx (\<lambda>(inTx, tx).
     if \<not> inTx then returnX emptyResult
     else case tx of
       None \<Rightarrow> failX Panic
     | Some tx \<Rightarrow>
         bindX (orderX X (imagesFor to tx)) (\<lambda>order.
         if to \<noteq> '''' then
           bindX (onStorage (RollbackToSavepoint order to tx)) (\<lambda>tx'. done_with (setTx True (Some tx')))
         else bindX (attempt (onStorage (Rollback order tx))) (\<lambda>r.
              bindX (setTx False None) (\<lambda>_. done_with (resultX r)))))"

definition execSavepoint :: "string \<Rightarrow> ResultSet xm" where
  "execSavepoint name =
     bindX getTx (\<lambda>(inTx, tx0).
     bindX (if inTx then returnX () else setTx True (Some NewTransaction)) (\<lambda>_.
     case (if inTx then tx0 else Some NewTransaction) of
       None \<Rightarrow> failX Panic
     | Some tx \<Rightarrow> bindX (resultX (Savepoint name tx)) (\<lambda>tx'. done_with (setTx True (Some tx')))))"

definition execReleaseSavepoint :: "string \<Rightarrow> ResultSet xm" where
  "execReleaseSavepoint name =
     bindX getTx (\<lambda>(inTx, tx).
     if \<not> inTx then failX (ErrTx ''not in a transaction'')
     else case tx of
       None \<Rightarrow> failX Panic
     | Some tx \<Rightarrow> bindX (resultX (ReleaseSavepoint name tx)) (\<lambda>tx'. done_with (setTx True (Some tx'))))"


section \<open>Listings\<close>

definition flag :: "bool \<Rightarrow> string" where "flag b = (if b then ''1'' else ''0'')"

definition execShowTables :: "ResultSet xm" where
  "execShowTables =
     bindX (lookupX ListTables) (\<lambda>ts.
     bindX (lookupX ListViews) (\<lambda>vs.
     returnX (tableOf [''name'', ''columns'', ''indexes'']
       (sort_key (\<lambda>r. str_bytes (hd r)) (map (\<lambda>t. [tName t, digits (length (Columns t)), digits (length (Indexes t))]) ts)
        @ map (\<lambda>v. [vName v @ '' (view)'', ''-'', ''-'']) vs))))"

definition execShowIndexes :: "xenv \<Rightarrow> string \<Rightarrow> ResultSet xm" where
  "execShowIndexes X table =
     bindX (lookupX (ListIndexes (xeEnv X) table)) (\<lambda>is.
     returnX (tableOf [''name'', ''table_name'', ''column'', ''unique'']
       (map (\<lambda>i. [iName i, TableName i, iColumn i, flag (iUnique i)]) is)))"

definition indexMatchesWhere :: "golib \<Rightarrow> string \<Rightarrow> Expr \<Rightarrow> bool" where
  "indexMatchesWhere G col e =
     (case e of BinaryExpr _ (IdentExpr _ name) _ \<Rightarrow> EqualFold G name col | _ \<Rightarrow> False)"

definition buildSelectPlan :: "xenv \<Rightarrow> SelectStmt \<Rightarrow> SchemaManager \<Rightarrow> string" where
  "buildSelectPlan X stmt s =
     (case selFrom stmt of
        [] \<Rightarrow> ''CONSTANT ROW''
      | t # _ \<Rightarrow>
          (case GetTable (xeEnv X) (refName t) s of
             None \<Rightarrow> ''FULL SCAN '' @ refName t
           | Some ts \<Rightarrow>
               let usable = (\<lambda>e n. case GetIndex (xeEnv X) n s of
                     None \<Rightarrow> False | Some i \<Rightarrow> indexMatchesWhere (xlib X) (iColumn i) e);
                   full = ''FULL SCAN '' @ refName t @ '' ('' @ digits (length (Columns ts)) @ '' columns)''
               in case selWhere stmt of
                    None \<Rightarrow> full
                  | Some e \<Rightarrow> (case find (usable e) (Indexes ts) of
                      None \<Rightarrow> full
                    | Some n \<Rightarrow> ''INDEX SCAN '' @ refName t @ '' USING '' @ n)))"

text \<open>\<open>%T\<close> of a statement\<close>

definition statementType :: "Statement \<Rightarrow> string" where
  "statementType s = ''*parser.'' @
     (case s of
        SelectSt _ \<Rightarrow> ''SelectStmt'' | InsertSt _ \<Rightarrow> ''InsertStmt'' | UpdateSt _ \<Rightarrow> ''UpdateStmt''
      | DeleteSt _ \<Rightarrow> ''DeleteStmt'' | CreateTableSt _ \<Rightarrow> ''CreateTableStmt'' | DropTableStmt _ _ \<Rightarrow> ''DropTableStmt''
      | CreateIndexSt _ \<Rightarrow> ''CreateIndexStmt'' | DropIndexStmt _ _ \<Rightarrow> ''DropIndexStmt''
      | AlterTableStmt _ _ \<Rightarrow> ''AlterTableStmt'' | CreateViewSt _ \<Rightarrow> ''CreateViewStmt''
      | DropViewStmt _ _ \<Rightarrow> ''DropViewStmt'' | BeginStmt _ \<Rightarrow> ''BeginStmt'' | CommitStmt \<Rightarrow> ''CommitStmt''
      | RollbackStmt _ \<Rightarrow> ''RollbackStmt'' | SavepointStmt _ \<Rightarrow> ''SavepointStmt''
      | ReleaseSavepointStmt _ \<Rightarrow> ''ReleaseSavepointStmt'' | ShowTablesStmt \<Rightarrow> ''ShowTablesStmt''
      | ShowIndexesStmt _ \<Rightarrow> ''ShowIndexesStmt'' | ExplainStmt _ \<Rightarrow> ''ExplainStmt''
      | PragmaStmt _ _ \<Rightarrow> ''PragmaStmt'' | VacuumStmt \<Rightarrow> ''VacuumStmt'')"

definition execExplain :: "xenv \<Rightarrow> Statement \<Rightarrow> ResultSet xm" where
  "execExplain X inner =
     bindX (lookupX (\<lambda>s. case inner of SelectSt q \<Rightarrow> buildSelectPlan X q s
                       | _ \<Rightarrow> ''STATEMENT TYPE: '' @ statementType inner)) (\<lambda>plan.
     returnX (tableOf [''id'', ''operation'', ''detail''] [[''1'', ''SCAN'', plan]]))"

definition typeText :: "ColumnType \<Rightarrow> string" where
  "typeText c = (case c of TypeInteger \<Rightarrow> ''INTEGER'' | TypeText \<Rightarrow> ''TEXT'' | TypeReal \<Rightarrow> ''REAL'' | TypeBlob \<Rightarrow> ''BLOB''
     | TypeNull \<Rightarrow> ''NULL'' | TypeOther s \<Rightarrow> s)"

definition tableInfo :: "TableSchema \<Rightarrow> string list list" where
  "tableInfo ts = map (\<lambda>(i, c). [digits i, cName c, typeText (cType c), flag (NotNull c), Default c, flag (PrimaryKey c)])
     (zip [0..<length (Columns ts)] (Columns ts))"

definition indexList :: "xenv \<Rightarrow> TableSchema \<Rightarrow> SchemaManager \<Rightarrow> string list list" where
  "indexList X ts s =
     concat (map (\<lambda>(i, n). case GetIndex (xeEnv X) n s of
         None \<Rightarrow> [] | Some is \<Rightarrow> [[digits i, n, flag (iUnique is), ''c'', ''0'']])
       (zip [0..<length (Indexes ts)] (Indexes ts)))"

definition execPragma :: "xenv \<Rightarrow> string \<Rightarrow> string \<Rightarrow> ResultSet xm" where
  "execPragma X name val =
     (let p = ToLower (xlib X) name; one = (\<lambda>col v. returnX (tableOf [col] [[v]]))
      in if p = ''table_info'' then
           bindX (lookupX (GetTable (xeEnv X) val)) (\<lambda>ts.
           case ts of
             None \<Rightarrow> failX (ErrMissing val)
           | Some ts \<Rightarrow> returnX (tableOf [''cid'', ''name'', ''type'', ''notnull'', ''dflt_value'', ''pk''] (tableInfo ts)))
         else if p = ''table_list'' then
           bindX (lookupX ListTables) (\<lambda>tss.
           returnX (tableOf [''schema'', ''name'', ''type'', ''ncol'', ''wr'', ''strict'']
             (map (\<lambda>t. [''main'', tName t, ''table'', digits (length (Columns t)), ''0'', ''0'']) tss)))
         else if p = ''foreign_key_list'' then
           returnX (tableOf [''id'', ''seq'', ''table'', ''from'', ''to'', ''on_update'', ''on_delete'', ''match''] [])
         else if p = ''index_list'' then
           bindX (lookupX (\<lambda>s. case GetTable (xeEnv X) val s of None \<Rightarrow> [] | Some ts \<Rightarrow> indexList X ts s)) (\<lambda>rows.
           returnX (tableOf [''seq'', ''name'', ''unique'', ''origin'', ''partial''] rows))
         else if p = ''integrity_check'' \<or> p = ''quick_check'' then one name ''ok''
         else if p = ''journal_mode'' then one ''journal_mode'' ''wal''
         else if p = ''wal_checkpoint'' then
           returnX (tableOf [''busy'', ''log'', ''checkpointed''] [[''0'', ''0'', ''0'']])
         else if p = ''page_size'' then one ''page_size'' (digits PageSize)
         else if p = ''page_count'' then
           bindX (lookupX (\<lambda>s. PageCount (sm_pager s))) (\<lambda>n. one ''page_count'' (digits (unat n)))
         else if p = ''cache_size'' then one ''cache_size'' (digits (nat DefaultCacheSize))
         else if p = ''stats'' then
           bindX (lookupX sm_pager) (\<lambda>pg. bindX (evalX (ask (\<lambda>n. statsRows X n pg))) (\<lambda>rows.
           returnX (tableOf [''key'', ''value''] rows)))
         else one name ''0'')"

section \<open>Statements\<close>

definition execStatement :: "xenv \<Rightarrow> Statement \<Rightarrow> ResultSet xm" where
  "execStatement X stmt =
     (case stmt of
        SelectSt s \<Rightarrow> execSelect X s
      | InsertSt s \<Rightarrow> execInsert X s
      | UpdateSt s \<Rightarrow> execUpdate X s
      | DeleteSt s \<Rightarrow> execDelete X s
      | CreateTableSt s \<Rightarrow> execCreateTable X s
      | DropTableStmt t b \<Rightarrow> execDropTable X t b
      | CreateIndexSt s \<Rightarrow> execCreateIndex X s
      | DropIndexStmt n b \<Rightarrow> execDropIndex X n b
      | CreateViewSt s \<Rightarrow> execCreateView X s
      | DropViewStmt n b \<Rightarrow> execDropView X n b
      | AlterTableStmt t a \<Rightarrow> execAlterTable X t a
      | BeginStmt _ \<Rightarrow> execBegin
      | CommitStmt \<Rightarrow> execCommit
      | RollbackStmt to \<Rightarrow> execRollback X to
      | SavepointStmt n \<Rightarrow> execSavepoint n
      | ReleaseSavepointStmt n \<Rightarrow> execReleaseSavepoint n
      | ShowTablesStmt \<Rightarrow> execShowTables
      | ShowIndexesStmt t \<Rightarrow> execShowIndexes X t
      | ExplainStmt s \<Rightarrow> execExplain X s
      | PragmaStmt n v \<Rightarrow> execPragma X n v
      | VacuumStmt \<Rightarrow> done_with (onStorage FlushAll))"

text \<open>The result of the last statement; an empty text has none.\<close>

primrec runAll :: "xenv \<Rightarrow> Statement list \<Rightarrow> ResultSet option \<Rightarrow> ResultSet option xm" where
  "runAll X [] acc = returnX acc"
| "runAll X (s # ss) acc = bindX (execStatement X s) (\<lambda>rs. runAll X ss (Some rs))"

definition Execute :: "xenv \<Rightarrow> string \<Rightarrow> ResultSet option xm" where
  "Execute X sql =
     (case Parse (evUni (xeEval X)) (xlib X) sql of
        Inl e \<Rightarrow> failX e
      | Inr stmts \<Rightarrow> runAll X stmts None)"

definition ex_LastInsertRowID :: "Executor \<Rightarrow> 64 word" where "ex_LastInsertRowID x = lastInsertRowID (xTable x)"
definition ex_Changes :: "Executor \<Rightarrow> 64 word" where "ex_Changes x = changes (xTable x)"
definition ex_FlushAll :: "unit xm" where "ex_FlushAll = onStorage FlushAll"

end
