(* ===== verification/Sha256.thy ===== *)
theory Sha256
  imports GoStrings
begin

text \<open>
  \<open>crypto/sha256\<close> and \<open>encoding/hex\<close> of Go's library, which authorization uses: the SHA-256 digest of a
  byte list (FIPS 180-4) and its text in hexadecimal.
\<close>

unbundle bit_operations_syntax

section \<open>The compression function\<close>

definition shaK :: "32 word list" where
  "shaK =
     [0x428a2f98, 0x71374491, 0xb5c0fbcf, 0xe9b5dba5, 0x3956c25b, 0x59f111f1, 0x923f82a4, 0xab1c5ed5,
      0xd807aa98, 0x12835b01, 0x243185be, 0x550c7dc3, 0x72be5d74, 0x80deb1fe, 0x9bdc06a7, 0xc19bf174,
      0xe49b69c1, 0xefbe4786, 0xfc19dc6, 0x240ca1cc, 0x2de92c6f, 0x4a7484aa, 0x5cb0a9dc, 0x76f988da,
      0x983e5152, 0xa831c66d, 0xb00327c8, 0xbf597fc7, 0xc6e00bf3, 0xd5a79147, 0x6ca6351, 0x14292967,
      0x27b70a85, 0x2e1b2138, 0x4d2c6dfc, 0x53380d13, 0x650a7354, 0x766a0abb, 0x81c2c92e, 0x92722c85,
      0xa2bfe8a1, 0xa81a664b, 0xc24b8b70, 0xc76c51a3, 0xd192e819, 0xd6990624, 0xf40e3585, 0x106aa070,
      0x19a4c116, 0x1e376c08, 0x2748774c, 0x34b0bcb5, 0x391c0cb3, 0x4ed8aa4a, 0x5b9cca4f, 0x682e6ff3,
      0x748f82ee, 0x78a5636f, 0x84c87814, 0x8cc70208, 0x90befffa, 0xa4506ceb, 0xbef9a3f7, 0xc67178f2]"

definition shaH :: "32 word list" where
  "shaH = [0x6a09e667, 0xbb67ae85, 0x3c6ef372, 0xa54ff53a, 0x510e527f, 0x9b05688c, 0x1f83d9ab, 0x5be0cd19]"

definition bigSigma0 :: "32 word \<Rightarrow> 32 word" where
  "bigSigma0 x = word_rotr 2 x XOR word_rotr 13 x XOR word_rotr 22 x"

definition bigSigma1 :: "32 word \<Rightarrow> 32 word" where
  "bigSigma1 x = word_rotr 6 x XOR word_rotr 11 x XOR word_rotr 25 x"

definition sigma0 :: "32 word \<Rightarrow> 32 word" where
  "sigma0 x = word_rotr 7 x XOR word_rotr 18 x XOR drop_bit 3 x"

definition sigma1 :: "32 word \<Rightarrow> 32 word" where
  "sigma1 x = word_rotr 17 x XOR word_rotr 19 x XOR drop_bit 10 x"

definition shaCh :: "32 word \<Rightarrow> 32 word \<Rightarrow> 32 word \<Rightarrow> 32 word" where
  "shaCh x y z = (x AND y) XOR (NOT x AND z)"

definition shaMaj :: "32 word \<Rightarrow> 32 word \<Rightarrow> 32 word \<Rightarrow> 32 word" where
  "shaMaj x y z = (x AND y) XOR (x AND z) XOR (y AND z)"

text \<open>The message schedule, its newest word first.\<close>

primrec shaExtend :: "nat \<Rightarrow> 32 word list \<Rightarrow> 32 word list" where
  "shaExtend 0 ws = ws"
| "shaExtend (Suc n) ws = shaExtend n ((sigma1 (ws ! 1) + ws ! 6 + sigma0 (ws ! 14) + ws ! 15) # ws)"

type_synonym shaState =
  "32 word \<times> 32 word \<times> 32 word \<times> 32 word \<times> 32 word \<times> 32 word \<times> 32 word \<times> 32 word"

fun shaRound :: "32 word \<times> 32 word \<Rightarrow> shaState \<Rightarrow> shaState" where
  "shaRound (k, w) (a, b, c, d, e, f, g, h) =
     (let t1 = h + bigSigma1 e + shaCh e f g + k + w; t2 = bigSigma0 a + shaMaj a b c
      in (t1 + t2, a, b, c, d + t1, e, f, g))"

fun stateList :: "shaState \<Rightarrow> 32 word list" where
  "stateList (a, b, c, d, e, f, g, h) = [a, b, c, d, e, f, g, h]"

definition shaBlock :: "32 word list \<Rightarrow> 32 word list \<Rightarrow> 32 word list" where
  "shaBlock block hs =
     (let s = (hs ! 0, hs ! 1, hs ! 2, hs ! 3, hs ! 4, hs ! 5, hs ! 6, hs ! 7)
      in map2 (+) hs (stateList (fold shaRound (zip shaK (rev (shaExtend 48 (rev block)))) s)))"

section \<open>The digest\<close>

definition shaPad :: "byte list \<Rightarrow> byte list" where
  "shaPad bs = bs @ 0x80 # replicate ((119 - length bs mod 64) mod 64) 0 @ be64 (of_nat (8 * length bs))"

fun words32 :: "byte list \<Rightarrow> 32 word list" where
  "words32 (a # b # c # d # bs) = rd32 [a, b, c, d] 0 # words32 bs"
| "words32 _ = []"

function blocks :: "32 word list \<Rightarrow> 32 word list list" where
  "blocks ws = (if ws = [] then [] else take 16 ws # blocks (drop 16 ws))"
  by pat_completeness auto
termination by (relation "measure length") auto

declare blocks.simps [simp del]

definition Sum256 :: "byte list \<Rightarrow> byte list" where
  "Sum256 bs = concat (map be32 (fold shaBlock (blocks (words32 (shaPad bs))) shaH))"

definition hexText :: "byte list \<Rightarrow> string" where
  "hexText bs = concat (map hex2 bs)"


section \<open>Laws\<close>

lemma length_stateList: "length (stateList s) = 8"
  by (cases s rule: stateList.cases) simp

lemma length_shaBlock: "length hs = 8 \<Longrightarrow> length (shaBlock b hs) = 8"
  by (simp add: shaBlock_def length_stateList)

lemma length_Sum256: "length (Sum256 bs) = 32"
proof -
  have "length (fold shaBlock bls hs) = 8" if "length hs = 8" for bls hs
    using that by (induction bls arbitrary: hs) (simp_all add: length_shaBlock)
  then have l: "length (fold shaBlock (blocks (words32 (shaPad bs))) shaH) = 8" by (simp add: shaH_def)
  have "length (concat (map be32 ws)) = 4 * length ws" for ws by (induction ws) simp_all
  with l show ?thesis by (simp add: Sum256_def)
qed

lemma digitChar_inj: "a < 16 \<Longrightarrow> b < 16 \<Longrightarrow> digitChar a = digitChar b \<longleftrightarrow> a = b"
  by (auto simp: digitChar_def split: if_splits)

lemma hex2_inj: "hex2 a = hex2 b \<longleftrightarrow> a = b"
proof
  assume h: "hex2 a = hex2 b"
  have l: "unat a div 16 < 16" "unat b div 16 < 16"
    using unsigned_less [of a, where 'a = nat] unsigned_less [of b, where 'a = nat] by simp_all
  then have "unat a div 16 = unat b div 16" "unat a mod 16 = unat b mod 16"
    using h by (simp_all add: hex2_def digitChar_inj)
  then have "unat a = unat b" by (metis mult_div_mod_eq)
  then show "a = b" by (rule unsigned_word_eqI)
qed simp

lemma hexText_inj: "hexText a = hexText b \<longleftrightarrow> a = b"
proof
  show "a = b" if "hexText a = hexText b" using that
  proof (induction a arbitrary: b)
    case Nil
    then show ?case by (cases b) (simp_all add: hexText_def hex2_def)
  next
    case (Cons x xs)
    show ?case
    proof (cases b)
      case Nil
      with Cons.prems show ?thesis by (simp add: hexText_def hex2_def)
    next
      case (Cons y ys)
      then have "hex2 x = hex2 y" "hexText xs = hexText ys"
        using Cons.prems by (simp_all add: hexText_def hex2_def)
      then show ?thesis using Cons Cons.IH by (simp add: hex2_inj)
    qed
  qed
qed simp

end
