(* ===== verification/Auth.thy ===== *)
theory Auth
  imports Sha256 Lexer
begin

text \<open>
  Authorization (\<open>internal/connector/authorization.go\<close>): credentials, their checks, the file they are
  kept in, the two sides of the handshake, and the dialogue that creates a credential. What the code
  takes from outside is a parameter: the random bytes, the JSON encoding of the messages and of the
  file, and the two ends of a connection.
\<close>

section \<open>Credentials\<close>

definition tokenLength :: nat where "tokenLength = 32"
definition saltLength :: nat where "saltLength = 16"
definition protoVersion :: "64 word" where "protoVersion = 1"

definition ModeNone :: string where "ModeNone = ''none''"
definition ModePassword :: string where "ModePassword = ''password''"
definition ModeToken :: string where "ModeToken = ''token''"

text \<open>A mode is any string: the file may hold an unknown one.\<close>

record Credential =
  crMode :: string
  PasswordHash :: string
  Salt :: string
  Tokens :: "string list"

record HandshakeReq =
  hrVersion :: "64 word"
  hrPassword :: string
  hrToken :: string

record HandshakeResp =
  hpOK :: bool
  hpMessage :: string

text \<open>\<open>rand.Read\<close>: the bytes of the n-th read of a length, or an error.\<close>

type_synonym random = "nat \<Rightarrow> nat \<Rightarrow> byte list option"

definition randomHex :: "random \<Rightarrow> nat \<Rightarrow> nat \<Rightarrow> string res" where
  "randomHex rnd n len = (case rnd n len of None \<Rightarrow> Inl ErrIO | Some b \<Rightarrow> Inr (hexText b))"

definition GenerateSalt :: "random \<Rightarrow> nat \<Rightarrow> string res" where
  "GenerateSalt rnd n = randomHex rnd n saltLength"

definition GenerateToken :: "random \<Rightarrow> nat \<Rightarrow> string res" where
  "GenerateToken rnd n = randomHex rnd n tokenLength"

definition sha256Hex :: "string \<Rightarrow> string" where
  "sha256Hex s = hexText (Sum256 (str_bytes s))"

definition HashPassword :: "string \<Rightarrow> string \<Rightarrow> string" where
  "HashPassword password salt = sha256Hex (salt @ '':'' @ password)"

definition NewPasswordCredential :: "random \<Rightarrow> nat \<Rightarrow> string \<Rightarrow> Credential res" where
  "NewPasswordCredential rnd n password =
     bindE (GenerateSalt rnd n) (\<lambda>salt.
     Inr \<lparr>crMode = ModePassword, PasswordHash = HashPassword password salt, Salt = salt, Tokens = []\<rparr>)"

definition NewTokenCredential :: "string list \<Rightarrow> Credential" where
  "NewTokenCredential tokens = \<lparr>crMode = ModeToken, PasswordHash = '''', Salt = '''', Tokens = map sha256Hex tokens\<rparr>"

definition noCredential :: Credential where
  "noCredential = \<lparr>crMode = ModeNone, PasswordHash = '''', Salt = '''', Tokens = []\<rparr>"

section \<open>Checks\<close>

text \<open>\<open>subtle.ConstantTimeCompare(a, b) == 1\<close> is equality.\<close>

definition CheckPassword :: "Credential \<Rightarrow> string \<Rightarrow> bool" where
  "CheckPassword c password \<longleftrightarrow>
     (if crMode c \<noteq> ModePassword then False else HashPassword password (Salt c) = PasswordHash c)"

definition CheckToken :: "Credential \<Rightarrow> string \<Rightarrow> bool" where
  "CheckToken c token \<longleftrightarrow>
     (if crMode c \<noteq> ModeToken then False else list_ex (\<lambda>t. sha256Hex token = t) (Tokens c))"

definition Check :: "Credential \<Rightarrow> HandshakeReq \<Rightarrow> bool" where
  "Check c req \<longleftrightarrow>
     (if crMode c = ModeNone then True
      else if crMode c = ModePassword then CheckPassword c (hrPassword req)
      else if crMode c = ModeToken then CheckToken c (hrToken req)
      else False)"

section \<open>Messages\<close>

text \<open>One line of JSON for each message. \<open>decChallenge\<close> gives whether the field \<open>require\<close> is the boolean true;
  \<open>None\<close> stands for an error of \<open>json.Unmarshal\<close>.\<close>

record authWire =
  encChallenge :: "64 word \<Rightarrow> string \<Rightarrow> bool \<Rightarrow> string"
  decChallenge :: "string \<Rightarrow> bool option"
  encReq :: "HandshakeReq \<Rightarrow> string"
  decReq :: "string \<Rightarrow> HandshakeReq option"
  encResp :: "HandshakeResp \<Rightarrow> string"
  decResp :: "string \<Rightarrow> HandshakeResp option"
  encCred :: "Credential \<Rightarrow> string"
  decCred :: "string \<Rightarrow> Credential option"

text \<open>The ends of a connection: sending a line may fail, reading one may find the connection closed. The
  state is that of everything outside the process.\<close>

record 'w link =
  lSend :: "string \<Rightarrow> 'w \<Rightarrow> bool \<times> 'w"
  lScan :: "'w \<Rightarrow> string option \<times> 'w"

section \<open>The handshake\<close>

definition sendAuthResp :: "authWire \<Rightarrow> 'w link \<Rightarrow> bool \<Rightarrow> string \<Rightarrow> 'w \<Rightarrow> unit res \<times> 'w" where
  "sendAuthResp J L ok msg w =
     (case lSend L (encResp J \<lparr>hpOK = ok, hpMessage = msg\<rparr>) w of (b, w) \<Rightarrow> (if b then Inr () else Inl ErrNet, w))"

definition ServerHandshake :: "authWire \<Rightarrow> 'w link \<Rightarrow> Credential \<Rightarrow> 'w \<Rightarrow> unit res \<times> 'w" where
  "ServerHandshake J L cred w =
     (case lSend L (encChallenge J protoVersion (crMode cred) (crMode cred \<noteq> ModeNone)) w of
        (False, w) \<Rightarrow> (Inl ErrNet, w)
      | (True, w) \<Rightarrow>
          if crMode cred = ModeNone then (Inr (), w)
          else
            (case lScan L w of
               (None, w) \<Rightarrow> (Inl ErrNet, w)
             | (Some line, w) \<Rightarrow>
                 (case decReq J line of
                    None \<Rightarrow> (Inl ErrJson, snd (sendAuthResp J L False ''invalid auth payload'' w))
                  | Some req \<Rightarrow>
                      if \<not> Check cred req
                      then (Inl (ErrAuth ''authentication failed''), snd (sendAuthResp J L False ''authentication failed'' w))
                      else sendAuthResp J L True ''authenticated'' w)))"

definition ClientHandshake :: "authWire \<Rightarrow> 'w link \<Rightarrow> string \<Rightarrow> string \<Rightarrow> 'w \<Rightarrow> unit res \<times> 'w" where
  "ClientHandshake J L password token w =
     (case lScan L w of
        (None, w) \<Rightarrow> (Inl ErrNet, w)
      | (Some line, w) \<Rightarrow>
          (case decChallenge J line of
             None \<Rightarrow> (Inl ErrJson, w)
           | Some require \<Rightarrow>
               if \<not> require then (Inr (), w)
               else
                 (case lSend L (encReq J \<lparr>hrVersion = protoVersion, hrPassword = password, hrToken = token\<rparr>) w of
                    (False, w) \<Rightarrow> (Inl ErrNet, w)
                  | (True, w) \<Rightarrow>
                      (case lScan L w of
                         (None, w) \<Rightarrow> (Inl ErrNet, w)
                       | (Some line, w) \<Rightarrow>
                           (case decResp J line of
                              None \<Rightarrow> (Inl ErrJson, w)
                            | Some resp \<Rightarrow>
                                if \<not> hpOK resp then (Inl (ErrAuth (hpMessage resp)), w) else (Inr (), w))))))"

section \<open>The file\<close>

datatype fileRead = FileMissing | FileError | FileData string

definition SaveCredential :: "authWire \<Rightarrow> bool \<Rightarrow> Credential \<Rightarrow> unit res \<times> string option" where
  "SaveCredential J writable cred = (if writable then (Inr (), Some (encCred J cred)) else (Inl ErrIO, None))"

definition LoadCredential :: "authWire \<Rightarrow> fileRead \<Rightarrow> Credential res" where
  "LoadCredential J f =
     (case f of
        FileMissing \<Rightarrow> Inr noCredential
      | FileError \<Rightarrow> Inl ErrIO
      | FileData s \<Rightarrow> (case decCred J s of None \<Rightarrow> Inl ErrJson | Some c \<Rightarrow> Inr c))"

section \<open>Creating a credential\<close>

text \<open>\<open>fmt.Sscanf(line, "%d", &n)\<close> on a trimmed line; \<open>None\<close> leaves \<open>n\<close> as it is.\<close>

definition scanDecimal :: "string \<Rightarrow> 64 word option" where
  "scanDecimal s =
     (let signed = s \<noteq> [] \<and> (hd s = CHR ''-'' \<or> hd s = CHR ''+''); ds = takeWhile (\<lambda>c. digit_val c \<noteq> None) (if signed then tl s else s)
      in ParseInt ((if signed then [hd s] else []) @ ds))"

text \<open>The loop that creates tokens.\<close>

primrec newTokens :: "random \<Rightarrow> nat \<Rightarrow> nat \<Rightarrow> string list res" where
  "newTokens rnd n 0 = Inr []"
| "newTokens rnd n (Suc k) =
     bindE (GenerateToken rnd n) (\<lambda>t. bindE (newTokens rnd (n + 1) k) (\<lambda>ts. Inr (t # ts)))"

text \<open>The lines of the terminal, where a missing one is empty; the result, and the text written to the
  file. \<open>make\<close> panics on a negative number of tokens.\<close>

definition readLine :: "string list \<Rightarrow> nat \<Rightarrow> string" where
  "readLine lines i = (if i < length lines then lines ! i else '''')"

definition InitAuthInteractive ::
    "authWire \<Rightarrow> unicode \<Rightarrow> golib \<Rightarrow> random \<Rightarrow> string list \<Rightarrow> bool \<Rightarrow> unit res \<times> string option" where
  "InitAuthInteractive J U G rnd lines writable =
     (let mode = TrimSpaces U (ToLower G (readLine lines 0)); answer = TrimSpaces U (readLine lines 1)
      in if mode = ModeNone then SaveCredential J writable noCredential
         else if mode = ModePassword then
           (if answer = '''' then (Inl (ErrAuth ''password cannot be empty''), None)
            else case NewPasswordCredential rnd 0 answer of
                   Inl e \<Rightarrow> (Inl e, None)
                 | Inr cred \<Rightarrow> SaveCredential J writable cred)
         else if mode = ModeToken then
           (let n = (if answer = '''' then 1 else case scanDecimal answer of None \<Rightarrow> 1 | Some n \<Rightarrow> n)
            in if n <s 0 then (Inl Panic, None)
               else case newTokens rnd 0 (unat n) of
                      Inl e \<Rightarrow> (Inl e, None)
                    | Inr tokens \<Rightarrow> SaveCredential J writable (NewTokenCredential tokens))
         else (Inl (ErrUnknown mode), None))"

end
