(* ===== verification/Server.thy ===== *)
theory Server
  imports Executor Auth "HOL-Library.Sublist"
begin

text \<open>
  The server (\<open>internal/connector/server.go\<close>) as a state machine. Connections are numbered; each has its
  own executor, and all executors work on one pager and one catalogue. A request is read in one step,
  waits for \<open>writeMu\<close> if it needs it, and is executed in a later step, so that requests of several
  connections overlap. The execution itself is one step: the data races of requests that run without
  the lock are not shown. Deadlines, the slow query log and the unused fields \<open>bytesSent\<close> and
  \<open>workerPool\<close> are left out.
\<close>

section \<open>Requests and responses\<close>

definition maxIdleConns :: "64 word" where "maxIdleConns = 512"

record Request =
  rqSQL :: string
  rqReadOnly :: bool

record Response =
  rpColumns :: "string list"
  rpRows :: "string list list"
  rpError :: string
  rpAffected :: "64 word"
  rpLastID :: "64 word"
  rpQueryID :: "64 word"

text \<open>JSON, and the texts of errors. \<open>decRequest\<close> gives whether \<open>json.Unmarshal\<close> fails, and the fields it
  has set, which are set even when it fails later.\<close>

record serverWire =
  swAuth :: authWire
  decRequest :: "string \<Rightarrow> bool \<times> Request"
  errText :: "err \<Rightarrow> string"

definition isReadOnlySQL :: "unicode \<Rightarrow> golib \<Rightarrow> string \<Rightarrow> bool" where
  "isReadOnlySQL U G sql =
     (let trimmed = TrimSpaces U (ToUpper G sql)
      in prefix ''SELECT'' trimmed \<or> prefix ''EXPLAIN'' trimmed \<or> prefix ''SHOW'' trimmed \<or> prefix ''PRAGMA'' trimmed)"

section \<open>The state\<close>

text \<open>A connection before its handshake, between two requests, with a request that waits for the lock, and
  with one that is executed: its text, its number, and whether it holds the lock.\<close>

datatype phase =
    Greeting
  | Serving Executor
  | Waiting Executor string "64 word"
  | Running Executor string "64 word" bool

record Server =
  svSchema :: SchemaManager
  svCred :: Credential
  svConns :: "nat \<Rightarrow> phase option"
  svWriter :: "nat option"
  connCount :: "64 word"
  queryCount :: "64 word"
  authFails :: "64 word"
  errorCount :: "64 word"
  bytesRecv :: "64 word"
  svStopped :: bool
  svDown :: bool

definition NewServer :: "SchemaManager \<Rightarrow> Credential option \<Rightarrow> Server" where
  "NewServer s cred = \<lparr>svSchema = s, svCred = (case cred of None \<Rightarrow> noCredential | Some c \<Rightarrow> c), svConns = Map.empty,
     svWriter = None, connCount = 0, queryCount = 0, authFails = 0, errorCount = 0, bytesRecv = 0,
     svStopped = False, svDown = False\<rparr>"

definition setConn :: "nat \<Rightarrow> phase option \<Rightarrow> Server \<Rightarrow> Server" where
  "setConn c ph s = s\<lparr>svConns := (svConns s)(c := ph)\<rparr>"

section \<open>Connections\<close>

text \<open>What \<open>Start\<close> does with an accepted connection; beyond the limit it is closed at once.\<close>

definition acceptConn :: "nat \<Rightarrow> Server \<Rightarrow> Server" where
  "acceptConn c s =
     (let count = connCount s + 1
      in if maxIdleConns <s count then s else setConn c (Some Greeting) (s\<lparr>connCount := count\<rparr>))"

text \<open>The deferred end of \<open>handleConn\<close>.\<close>

definition closeConn :: "nat \<Rightarrow> Server \<Rightarrow> Server" where
  "closeConn c s = setConn c None (s\<lparr>connCount := connCount s - 1\<rparr>)"

text \<open>The other end of a connection, as far as the handshake sees it: the lines that come, and which of the
  sends succeed. The scanner of the handshake may read more than its line; what it has read beyond is
  lost to the reader that \<open>handleConn\<close> creates after it.\<close>

record script =
  scLines :: "string list"
  scSends :: "bool list"
  scSent :: "string list"

definition scriptLink :: "script link" where
  "scriptLink = \<lparr>
     lSend = (\<lambda>line w. case scSends w of
         [] \<Rightarrow> (True, w\<lparr>scSent := scSent w @ [line]\<rparr>)
       | ok # oks \<Rightarrow> (ok, w\<lparr>scSends := oks, scSent := scSent w @ (if ok then [line] else [])\<rparr>)),
     lScan = (\<lambda>w. case scLines w of [] \<Rightarrow> (None, w) | line # ls \<Rightarrow> (Some line, w\<lparr>scLines := ls\<rparr>))\<rparr>"

definition authConn :: "authWire \<Rightarrow> nat \<Rightarrow> script \<Rightarrow> Server \<Rightarrow> Server" where
  "authConn J c w s =
     (case fst (ServerHandshake J scriptLink (svCred s) w) of
        Inl _ \<Rightarrow> closeConn c (s\<lparr>authFails := authFails s + 1\<rparr>)
      | Inr _ \<Rightarrow> setConn c (Some (Serving (NewExecutor (svSchema s)))) s)"

section \<open>Requests\<close>

text \<open>A line with its newline, up to the decision on the lock.\<close>

definition beginRequest :: "xenv \<Rightarrow> serverWire \<Rightarrow> nat \<Rightarrow> string \<Rightarrow> Executor \<Rightarrow> Server \<Rightarrow> Server" where
  "beginRequest X J c line x s =
     (let U = evUni (xeEval X);
          text = TrimSpaces U line;
          (bad, req) = decRequest J text;
          sql = (if bad then text else rqSQL req);
          lock = (\<not> (rqReadOnly req \<or> isReadOnlySQL U (xlib X) sql));
          s1 = s\<lparr>bytesRecv := bytesRecv s + of_nat (length line)\<rparr>;
          s2 = s1\<lparr>queryCount := queryCount s1 + 1\<rparr>
      in if text = '''' \<or> sql = '''' then s1
         else setConn c (Some (if lock then Waiting x sql (queryCount s2) else Running x sql (queryCount s2) False)) s2)"

definition onShared :: "SchemaManager \<Rightarrow> Executor \<Rightarrow> Executor" where
  "onShared m x = x\<lparr>xTable := (xTable x)\<lparr>te_schema := m\<rparr>\<rparr>"

definition emptyResponse :: Response where
  "emptyResponse = \<lparr>rpColumns = [], rpRows = [], rpError = '''', rpAffected = 0, rpLastID = 0, rpQueryID = 0\<rparr>"

text \<open>The execution and the answer. A panic has no answer: it ends the process, with all connections. An
  execution that runs out of fuel, as on a text that the parser never finishes, leaves the request
  running, with the lock.\<close>

definition finishRequest ::
    "xenv \<Rightarrow> serverWire \<Rightarrow> nat \<Rightarrow> Executor \<Rightarrow> string \<Rightarrow> 64 word \<Rightarrow> bool \<Rightarrow> Server \<Rightarrow> Response option \<times> Server" where
  "finishRequest X J c x sql qid lock s =
     (case Execute X sql (onShared (svSchema s) x) of (r, x') \<Rightarrow>
        let s1 = setConn c (Some (Serving x')) (s\<lparr>svSchema := te_schema (xTable x'),
              svWriter := (if lock then None else svWriter s)\<rparr>);
            resp = emptyResponse\<lparr>rpQueryID := qid\<rparr>
        in case r of
             Inl e \<Rightarrow>
               if e = OutOfFuel then (None, s)
               else if e = Panic \<or> e = MemFault then (None, s1\<lparr>svDown := True\<rparr>)
               else (Some (resp\<lparr>rpError := errText J e\<rparr>), s1\<lparr>errorCount := errorCount s1 + 1\<rparr>)
           | Inr None \<Rightarrow> (Some resp, s1)
           | Inr (Some rs) \<Rightarrow>
               (Some (resp\<lparr>rpColumns := rsColumns rs, rpRows := rsRows rs, rpLastID := ex_LastInsertRowID x',
                  rpAffected := ex_Changes x'\<rparr>), s1))"

text \<open>\<open>Stop\<close>: the connections are closed, so that no further line arrives; the result of \<open>FlushAll\<close> is not
  looked at.\<close>

definition StopServer :: "Server \<Rightarrow> Server" where
  "StopServer s = s\<lparr>svStopped := True, svSchema := snd (onPager FlushAll (svSchema s))\<rparr>"

section \<open>Steps\<close>

datatype event =
    Accept nat
  | AcceptError
  | Answer nat script
  | Receive nat string
  | Lock nat
  | Finish nat
  | Hangup nat
  | Shutdown

definition serverStep :: "xenv \<Rightarrow> serverWire \<Rightarrow> event \<Rightarrow> Server \<Rightarrow> (Response option \<times> Server) option" where
  "serverStep X J ev s =
     (if svDown s then None
      else case ev of
        Accept c \<Rightarrow> if svStopped s \<or> svConns s c \<noteq> None then None else Some (None, acceptConn c s)
      | AcceptError \<Rightarrow> if svStopped s then None else Some (None, s\<lparr>errorCount := errorCount s + 1\<rparr>)
      | Answer c w \<Rightarrow> if svConns s c = Some Greeting then Some (None, authConn (swAuth J) c w s) else None
      | Receive c line \<Rightarrow>
          (case svConns s c of
             Some (Serving x) \<Rightarrow>
               if svStopped s then None else Some (None, beginRequest X J c line x s)
           | _ \<Rightarrow> None)
      | Lock c \<Rightarrow>
          (case svConns s c of
             Some (Waiting x sql qid) \<Rightarrow>
               if svWriter s \<noteq> None then None
               else Some (None, setConn c (Some (Running x sql qid True)) (s\<lparr>svWriter := Some c\<rparr>))
           | _ \<Rightarrow> None)
      | Finish c \<Rightarrow>
          (case svConns s c of
             Some (Running x sql qid lock) \<Rightarrow> Some (finishRequest X J c x sql qid lock s)
           | _ \<Rightarrow> None)
      | Hangup c \<Rightarrow>
          (case svConns s c of Some (Serving x) \<Rightarrow> Some (None, closeConn c s) | _ \<Rightarrow> None)
      | Shutdown \<Rightarrow> Some (None, StopServer s))"

text \<open>The states after the events of a trace.\<close>

inductive serves :: "xenv \<Rightarrow> serverWire \<Rightarrow> Server \<Rightarrow> event list \<Rightarrow> Server \<Rightarrow> bool" for X J s0 where
  start: "serves X J s0 [] s0"
| step: "serves X J s0 es s \<Longrightarrow> serverStep X J ev s = Some (resp, s') \<Longrightarrow> serves X J s0 (es @ [ev]) s'"

end
