(* ===== verification/Client.thy ===== *)
theory Client
  imports Server
begin

text \<open>
  The client library (\<open>internal/connector/connector.go\<close> and \<open>main.go\<close>): where a target points to, the
  remote connection with its retries, and the local database. The network is a parameter: dialling,
  closing, and the two ends of each connection. Timeouts and the mutexes are left out.
\<close>

section \<open>Paths\<close>

text \<open>\<open>strings.TrimPrefix\<close>, and \<open>path/filepath\<close> of a Unix system.\<close>

definition TrimPrefix :: "string \<Rightarrow> string \<Rightarrow> string" where
  "TrimPrefix s p = (if prefix p s then drop (length p) s else s)"

definition IsAbs :: "string \<Rightarrow> bool" where
  "IsAbs p = prefix ''/'' p"

definition Base :: "string \<Rightarrow> string" where
  "Base p =
     (if p = '''' then ''.''
      else let q = rev (dropWhile (\<lambda>c. c = CHR ''/'') (rev p));
               b = rev (takeWhile (\<lambda>c. c \<noteq> CHR ''/'') (rev q))
           in if b = '''' then ''/'' else b)"

text \<open>The elements of a path, the last one first: \<open>.\<close> and empty ones go, \<open>..\<close> removes the one before it.\<close>

fun cleanStep :: "bool \<Rightarrow> string list \<Rightarrow> string \<Rightarrow> string list" where
  "cleanStep rooted out e =
     (if e = '''' \<or> e = ''.'' then out
      else if e = ''..'' then
        (case out of
           [] \<Rightarrow> if rooted then [] else [e]
         | o1 # os \<Rightarrow> if o1 = ''..'' then e # out else os)
      else e # out)"

definition Clean :: "string \<Rightarrow> string" where
  "Clean p =
     (let rooted = prefix ''/'' p;
          out = Join (rev (foldl (cleanStep rooted) [] (SplitOn p ''/''))) ''/''
      in if rooted then ''/'' @ out else if out = '''' then ''.'' else out)"

definition JoinPath :: "string \<Rightarrow> string \<Rightarrow> string" where
  "JoinPath a b = (if a \<noteq> '''' then Clean (a @ ''/'' @ b) else if b \<noteq> '''' then Clean b else '''')"

section \<open>Targets\<close>

definition isLocal :: "string \<Rightarrow> bool" where
  "isLocal target \<longleftrightarrow>
     (if prefix ''file://'' target then True
      else if suffix ''.db'' target then True
      else if CHR ''/'' \<in> set target \<or> CHR 0x5C \<in> set target then True
      else if CHR '':'' \<notin> set target then True
      else False)"

text \<open>The working directory is \<open>None\<close> when \<open>os.Getwd\<close> fails.\<close>

definition ensureCurrentDir :: "string option \<Rightarrow> string \<Rightarrow> string" where
  "ensureCurrentDir wd path =
     (let path = TrimPrefix path ''file://'';
          path = (if IsAbs path then Base path else path);
          path = TrimPrefix path ''/'';
          path = TrimPrefix path [CHR 0x5C]
      in case wd of None \<Rightarrow> path | Some d \<Rightarrow> JoinPath d path)"

section \<open>The remote connection\<close>

definition defaultMaxRetries :: nat where "defaultMaxRetries = 3"

record Result =
  rColumns :: "string list"
  rRows :: "string list list"
  rError :: string
  rAffected :: "64 word"
  rLastID :: "64 word"

record Options =
  oPassword :: string
  oToken :: string

definition DefaultOptions :: Options where
  "DefaultOptions = \<lparr>oPassword = '''', oToken = ''''\<rparr>"

definition WithPassword :: "string \<Rightarrow> Options \<Rightarrow> Options" where "WithPassword p o1 = o1\<lparr>oPassword := p\<rparr>"
definition WithToken :: "string \<Rightarrow> Options \<Rightarrow> Options" where "WithToken t o1 = o1\<lparr>oToken := t\<rparr>"

text \<open>The network, and JSON: \<open>None\<close> stands for an error of \<open>json.Unmarshal\<close>.\<close>

record 'w net =
  nDial :: "string \<Rightarrow> 'w \<Rightarrow> nat option \<times> 'w"
  nClose :: "nat \<Rightarrow> 'w \<Rightarrow> 'w"
  nLink :: "nat \<Rightarrow> 'w link"

record clientWire =
  cwAuth :: authWire
  encSQL :: "string \<Rightarrow> string"
  decResult :: "string \<Rightarrow> Result option"

record Connector =
  cAddr :: string
  cOpts :: Options
  cConn :: "nat option"

type_synonym ('a, 'w) cm = "Connector \<times> 'w \<Rightarrow> 'a res \<times> Connector \<times> 'w"

definition dial :: "clientWire \<Rightarrow> 'w net \<Rightarrow> (unit, 'w) cm" where
  "dial J N = (\<lambda>(c, w).
     case nDial N (cAddr c) w of
       (None, w) \<Rightarrow> (Inl ErrNet, c, w)
     | (Some k, w) \<Rightarrow>
         (case ClientHandshake (cwAuth J) (nLink N k) (oPassword (cOpts c)) (oToken (cOpts c)) w of
            (Inl e, w) \<Rightarrow> (Inl e, c, nClose N k w)
          | (Inr _, w) \<Rightarrow> (Inr (), c\<lparr>cConn := Some k\<rparr>, w)))"

definition openRemote :: "clientWire \<Rightarrow> 'w net \<Rightarrow> string \<Rightarrow> Options \<Rightarrow> 'w \<Rightarrow> unit res \<times> Connector \<times> 'w" where
  "openRemote J N addr opts w = dial J N (\<lparr>cAddr = addr, cOpts = opts, cConn = None\<rparr>, w)"

definition reconnect :: "clientWire \<Rightarrow> 'w net \<Rightarrow> (unit, 'w) cm" where
  "reconnect J N = (\<lambda>(c, w). dial J N (c, case cConn c of None \<Rightarrow> w | Some k \<Rightarrow> nClose N k w))"

definition execOnce :: "clientWire \<Rightarrow> 'w net \<Rightarrow> string \<Rightarrow> (Result, 'w) cm" where
  "execOnce J N sql = (\<lambda>(c, w).
     case cConn c of
       None \<Rightarrow> (Inl ErrNet, c, w)
     | Some k \<Rightarrow>
         (case lSend (nLink N k) (encSQL J sql) w of
            (False, w) \<Rightarrow> (Inl ErrNet, c, w)
          | (True, w) \<Rightarrow>
              (case lScan (nLink N k) w of
                 (None, w) \<Rightarrow> (Inl ErrNet, c, w)
               | (Some line, w) \<Rightarrow>
                   (case decResult J line of
                      None \<Rightarrow> (Inl ErrJson, c, w)
                    | Some res \<Rightarrow> (if rError res \<noteq> '''' then Inl (ErrReply (rError res)) else Inr res, c, w)))))"

text \<open>The loop of \<open>Exec\<close>: any error is followed by a new connection and another try; the error of a
  reconnection is overwritten by that of the next try.\<close>

primrec execTries :: "clientWire \<Rightarrow> 'w net \<Rightarrow> string \<Rightarrow> nat \<Rightarrow> (Result, 'w) cm" where
  "execTries J N sql 0 st = execOnce J N sql st"
| "execTries J N sql (Suc n) st =
     (case execOnce J N sql st of
        (Inr res, st) \<Rightarrow> (Inr res, st)
      | (Inl _, st) \<Rightarrow> execTries J N sql n (snd (reconnect J N st)))"

definition Exec :: "clientWire \<Rightarrow> 'w net \<Rightarrow> string \<Rightarrow> (Result, 'w) cm" where
  "Exec J N sql = execTries J N sql defaultMaxRetries"

text \<open>The statements up to the first error, for a way to execute one.\<close>

primrec execAll :: "(string \<Rightarrow> 's \<Rightarrow> 'r res \<times> 's) \<Rightarrow> string list \<Rightarrow> 's \<Rightarrow> ('r list \<times> err option) \<times> 's" where
  "execAll run [] st = (([], None), st)"
| "execAll run (sql # sqls) st =
     (case run sql st of
        (Inl e, st) \<Rightarrow> (([], Some e), st)
      | (Inr r, st) \<Rightarrow> (case execAll run sqls st of ((rs, e), st) \<Rightarrow> ((r # rs, e), st)))"

definition ExecBatch :: "clientWire \<Rightarrow> 'w net \<Rightarrow> string list \<Rightarrow> Connector \<times> 'w \<Rightarrow> (Result list \<times> err option) \<times> Connector \<times> 'w" where
  "ExecBatch J N = execAll (Exec J N)"

definition Ping :: "clientWire \<Rightarrow> 'w net \<Rightarrow> (unit, 'w) cm" where
  "Ping J N st = (case Exec J N ''SELECT 1'' st of (r, st) \<Rightarrow> (map_sum id (\<lambda>_. ()) r, st))"

definition closeConnector :: "'w net \<Rightarrow> Connector \<times> 'w \<Rightarrow> Connector \<times> 'w" where
  "closeConnector N = (\<lambda>(c, w). (c, case cConn c of None \<Rightarrow> w | Some k \<Rightarrow> nClose N k w))"

section \<open>The database interface\<close>

text \<open>The Go interface \<open>DB\<close>: a way to execute a text, a batch that stops at the first error, and what every
  execution keeps of the state.\<close>

locale database =
  fixes run :: "string \<Rightarrow> 's \<Rightarrow> 'r res \<times> 's"
    and batch :: "string list \<Rightarrow> 's \<Rightarrow> ('r list \<times> err option) \<times> 's"
    and kept :: "'s \<Rightarrow> bool"
  assumes batch_Nil: "batch [] st = (([], None), st)"
    and batch_fails: "run sql st = (Inl e, st') \<Longrightarrow> batch (sql # sqls) st = (([], Some e), st')"
    and batch_goes_on: "run sql st = (Inr r, st') \<Longrightarrow> batch sqls st' = ((rs, failure), st'') \<Longrightarrow>
      batch (sql # sqls) st = ((r # rs, failure), st'')"
    and run_kept: "kept st \<Longrightarrow> kept (snd (run sql st))"
begin

lemma batch_prefix:
  assumes "batch sqls st = ((rs, e), st')"
  shows "length rs \<le> length sqls \<and> (e = None \<longleftrightarrow> length rs = length sqls) \<and>
    (\<exists>st1. batch (take (length rs) sqls) st = ((rs, None), st1) \<and>
      (case e of None \<Rightarrow> st' = st1 | Some err \<Rightarrow> run (sqls ! length rs) st1 = (Inl err, st')))"
  using assms
proof (induction sqls arbitrary: st rs)
  case Nil
  then show ?case by (simp add: batch_Nil)
next
  case (Cons sql sqls)
  obtain r st1 where r: "run sql st = (r, st1)" by fastforce
  show ?case
  proof (cases r)
    case (Inl err)
    then show ?thesis using Cons.prems batch_fails [of sql st err st1 sqls] r by (auto simp: batch_Nil)
  next
    case (Inr a)
    obtain rs1 e1 st2 where b: "batch sqls st1 = ((rs1, e1), st2)" by (metis prod.collapse)
    then have e: "rs = a # rs1" "e1 = e" "st2 = st'" using Cons.prems batch_goes_on [of sql st a st1 sqls] r Inr by auto
    obtain st3 where t: "batch (take (length rs1) sqls) st1 = ((rs1, None), st3)"
      "case e of None \<Rightarrow> st' = st3 | Some err \<Rightarrow> run (sqls ! length rs1) st3 = (Inl err, st')"
      "length rs1 \<le> length sqls" "e = None \<longleftrightarrow> length rs1 = length sqls"
      using Cons.IH [of st1 rs1] b e by blast
    have "batch (sql # take (length rs1) sqls) st = ((a # rs1, None), st3)"
      using batch_goes_on [OF _ t(1)] r Inr by simp
    with t e(1) show ?thesis by auto
  qed
qed

lemma batch_kept: "kept st \<Longrightarrow> kept (snd (batch sqls st))"
proof (induction sqls arbitrary: st)
  case Nil
  then show ?case by (simp add: batch_Nil)
next
  case (Cons sql sqls)
  obtain r st1 where r: "run sql st = (r, st1)" by fastforce
  have k: "kept st1" using run_kept [OF Cons.prems, of sql] r by simp
  show ?case
  proof (cases r)
    case (Inl e)
    then show ?thesis using batch_fails r k by simp
  next
    case (Inr a)
    obtain rs e st2 where "batch sqls st1 = ((rs, e), st2)" by (metis prod.collapse)
    then show ?thesis using batch_goes_on r Inr Cons.IH [OF k] by (metis snd_conv)
  qed
qed

end

text \<open>The remote connection keeps its address and its options.\<close>

definition targets :: "string \<Rightarrow> Options \<Rightarrow> Connector \<times> 'w \<Rightarrow> bool" where
  "targets a opts st \<longleftrightarrow> cAddr (fst st) = a \<and> cOpts (fst st) = opts"

lemma targets_reconnect: "targets a opts st \<Longrightarrow> targets a opts (snd (reconnect J N st))"
  by (auto simp: targets_def reconnect_def dial_def split: prod.split option.split sum.split)

lemma targets_once: "targets a opts st \<Longrightarrow> targets a opts (snd (execOnce J N sql st))"
  by (auto simp: targets_def execOnce_def split: prod.split option.split bool.split)

lemma targets_tries: "targets a opts st \<Longrightarrow> targets a opts (snd (execTries J N sql n st))"
proof (induction n arbitrary: st)
  case 0
  then show ?case by (simp add: targets_once)
next
  case (Suc n)
  obtain r st1 where "execOnce J N sql st = (r, st1)" using prod.exhaust by blast
  then show ?case using Suc.IH [OF targets_reconnect] targets_once [OF Suc.prems, of J N sql] by (cases r) simp_all
qed

interpretation remote: database "Exec J N" "ExecBatch J N" "targets a opts" for J N a opts
  by unfold_locales (simp_all add: ExecBatch_def Exec_def targets_tries)

section \<open>The local database\<close>

text \<open>The executor with the pager and the catalogue below it, and the pager as it is left when opening
  fails.\<close>

definition openLocal :: "env \<Rightarrow> nat \<Rightarrow> byte list option \<Rightarrow> bool list \<Rightarrow> Executor res \<times> Pager" where
  "openLocal E n stored faults =
     (case NewPager stored faults of
        (Inl e, p) \<Rightarrow> (Inl e, p)
      | (Inr _, p) \<Rightarrow>
          (case NewSchemaManager E n p of
             (Inl e, s) \<Rightarrow> (Inl e, snd (Close (sm_pager s)))
           | (Inr _, s) \<Rightarrow> (Inr (NewExecutor s), sm_pager s)))"

definition emptyResultC :: Result where
  "emptyResultC = \<lparr>rColumns = [], rRows = [], rError = '''', rAffected = 0, rLastID = 0\<rparr>"

definition local_Exec :: "xenv \<Rightarrow> string \<Rightarrow> Executor \<Rightarrow> Result res \<times> Executor" where
  "local_Exec X sql x =
     (case Execute X sql x of
        (Inl e, x) \<Rightarrow> (Inl e, x)
      | (Inr None, x) \<Rightarrow> (Inr emptyResultC, x)
      | (Inr (Some rs), x) \<Rightarrow>
          (Inr (emptyResultC\<lparr>rColumns := rsColumns rs, rRows := rsRows rs, rLastID := ex_LastInsertRowID x,
             rAffected := ex_Changes x\<rparr>), x))"

definition local_ExecBatch :: "xenv \<Rightarrow> string list \<Rightarrow> Executor \<Rightarrow> (Result list \<times> err option) \<times> Executor" where
  "local_ExecBatch X = execAll (local_Exec X)"

definition local_Ping :: "Executor \<Rightarrow> unit res \<times> Executor" where "local_Ping x = (Inr (), x)"

definition local_Close :: "unit xm" where "local_Close = onStorage Close"

text \<open>\<open>Open\<close>: the database behind a target, with its file when it is local.\<close>

datatype 'w DB = Local Executor | Remote Connector 'w

definition Open :: "clientWire \<Rightarrow> 'w net \<Rightarrow> env \<Rightarrow> nat \<Rightarrow> string option \<Rightarrow> (string \<Rightarrow> byte list option) \<Rightarrow> bool list \<Rightarrow>
    string \<Rightarrow> (Options \<Rightarrow> Options) list \<Rightarrow> 'w \<Rightarrow> 'w DB res" where
  "Open J N E n wd files faults target opts w =
     (if isLocal target
      then map_sum id Local (fst (openLocal E n (files (ensureCurrentDir wd target)) faults))
      else case openRemote J N target (fold (\<lambda>f. f) opts DefaultOptions) w of
             (Inl e, _) \<Rightarrow> Inl e
           | (Inr _, c, w) \<Rightarrow> Inr (Remote c w))"

end
