(* ===== verification/Command.thy ===== *)
theory Command
  imports Client
begin

text \<open>
  The command (\<open>cmd/server/main.go\<close>): what each combination of flags and arguments does, with its exit
  code, what it prints on its standard output, and the database file it leaves. The dialogue of
  \<open>-init-auth\<close>, the messages on the standard error, the usage text and the signal handler are left
  out.
\<close>

record flags =
  fInit :: bool
  fServer :: bool
  fCache :: int
  fArgs :: "string list"

text \<open>A command that ends, with the content of the database file if it has opened one, a server that starts,
  and a command that the fuel does not finish. A panic exits with code 2.\<close>

datatype outcome = Exit int string "byte list option" | Starts Server | Unfinished

definition failed :: "err \<Rightarrow> byte list option \<Rightarrow> outcome" where
  "failed e file =
     (if e = OutOfFuel then Unfinished else Exit (if e = Panic \<or> e = MemFault then 2 else 1) '''' file)"

text \<open>The lines of a result: columns, then rows, with bars between the values.\<close>

definition printLine :: "string list \<Rightarrow> string" where
  "printLine vs = Join vs ''|'' @ [CHR 0x0A]"

definition printResult :: "ResultSet \<Rightarrow> string" where
  "printResult rs =
     (if rsColumns rs \<noteq> [] then printLine (rsColumns rs) else '''') @ concat (map printLine (rsRows rs))"

definition closed :: "Pager \<Rightarrow> byte list" where
  "closed p = p_file (snd (Close p))"

definition pagerOf :: "Executor \<Rightarrow> Pager" where
  "pagerOf x = sm_pager (te_schema (xTable x))"

text \<open>One statement text on an opened database. The deferred \<open>Close\<close> runs when \<open>main\<close> returns and when it
  panics, but \<open>os.Exit\<close> after an error skips it.\<close>

definition mainExec :: "xenv \<Rightarrow> string \<Rightarrow> SchemaManager \<Rightarrow> outcome" where
  "mainExec X sql s =
     (case Execute X sql (NewExecutor s) of
        (Inl e, x) \<Rightarrow>
          failed e (Some (if e = Panic \<or> e = MemFault then closed (pagerOf x) else p_file (pagerOf x)))
      | (Inr None, x) \<Rightarrow> Exit 0 '''' (Some (closed (pagerOf x)))
      | (Inr (Some rs), x) \<Rightarrow> Exit 0 (printResult rs) (Some (closed (pagerOf x))))"

definition mainCommand ::
    "xenv \<Rightarrow> authWire \<Rightarrow> random \<Rightarrow> string list \<Rightarrow> bool \<Rightarrow> fileRead \<Rightarrow> (string \<Rightarrow> byte list option) \<Rightarrow> bool list \<Rightarrow> nat \<Rightarrow>
     flags \<Rightarrow> outcome" where
  "mainCommand X J rnd stdin writable authFile files faults fuel f =
     (if fInit f then
        (case fst (InitAuthInteractive J (evUni (xeEval X)) (xlib X) rnd stdin writable) of
           Inl e \<Rightarrow> failed e None
         | Inr _ \<Rightarrow> Exit 0 '''' None)
      else case fArgs f of
        [] \<Rightarrow> Exit 1 '''' None
      | dbFile # more_args \<Rightarrow>
          (case NewPagerWithCacheSize (files dbFile) faults (fCache f) of
             (Inl e, p) \<Rightarrow> failed e (Some (p_file p))
           | (Inr _, p) \<Rightarrow>
               (case NewSchemaManager (xeEnv X) fuel p of
                  (Inl e, s) \<Rightarrow>
                    failed e (Some (if e = Panic \<or> e = MemFault then p_file (sm_pager s) else closed (sm_pager s)))
                | (Inr _, s) \<Rightarrow>
                    if fServer f then
                      (case LoadCredential J authFile of
                         Inl e \<Rightarrow> failed e (Some (closed (sm_pager s)))
                       | Inr cred \<Rightarrow> Starts (NewServer s (Some cred)))
                    else (case more_args of
                            [] \<Rightarrow> Exit 1 '''' (Some (closed (sm_pager s)))
                          | sql # _ \<Rightarrow> mainExec X sql s))))"

end
