(* ===== verification/ExecFrame.thy ===== *)
theory ExecFrame
  imports Executor
begin

text \<open>
  Which operations of the executor leave its transaction alone: everything but the five transaction
  statements. The rules follow the structure of the definitions.
\<close>

definition keeps_tx :: "'a xm \<Rightarrow> bool" where
  "keeps_tx m \<longleftrightarrow> (\<forall>x. xTx (snd (m x)) = xTx x \<and> xInTx (snd (m x)) = xInTx x)"

named_theorems keeps

lemma keeps_basic [keeps]:
  "keeps_tx (returnX a)" "keeps_tx (failX e)" "keeps_tx (resultX r)" "keeps_tx (lookupX f)" "keeps_tx (affected b)"
  by (simp_all add: keeps_tx_def returnX_def failX_def resultX_def lookupX_def affected_def)

lemma keeps_lifts [keeps]: "keeps_tx (onTable t)" "keeps_tx (onCatalogue s)" "keeps_tx (onStorage p)" "keeps_tx (evalX v)"
  by (auto simp: keeps_tx_def onTable_def onCatalogue_def onStorage_def evalX_def split: prod.split option.split)

lemma keeps_bind [keeps]:
  assumes "keeps_tx m" and "\<And>a. keeps_tx (k a)"
  shows "keeps_tx (bindX m k)"
proof -
  have "xTx (snd (bindX m k x)) = xTx x \<and> xInTx (snd (bindX m k x)) = xInTx x" for x
  proof (cases "m x")
    case (Pair r x')
    then have "xTx x' = xTx x" "xInTx x' = xInTx x" using assms(1) by (metis keeps_tx_def snd_conv)+
    with Pair assms(2) show ?thesis by (cases r) (simp_all add: bindX_def keeps_tx_def)
  qed
  then show ?thesis by (simp add: keeps_tx_def)
qed

lemma keeps_if [keeps]: "(c \<Longrightarrow> keeps_tx a) \<Longrightarrow> (\<not> c \<Longrightarrow> keeps_tx b) \<Longrightarrow> keeps_tx (if c then a else b)"
  by simp

lemma keeps_option [keeps]:
  "(p = None \<Longrightarrow> keeps_tx a) \<Longrightarrow> (\<And>v. p = Some v \<Longrightarrow> keeps_tx (b v)) \<Longrightarrow> keeps_tx (case p of None \<Rightarrow> a | Some v \<Rightarrow> b v)"
  by (cases p) simp_all

lemma keeps_prod [keeps]: "(\<And>a b. keeps_tx (f a b)) \<Longrightarrow> keeps_tx (case p of (a, b) \<Rightarrow> f a b)"
  by (cases p) simp

lemma keeps_map [keeps]: "(\<And>a. keeps_tx (f a)) \<Longrightarrow> keeps_tx (mapX f as)"
  by (induction as) (simp_all add: keeps)

lemma keeps_fold [keeps]: "(\<And>a b. keeps_tx (f a b)) \<Longrightarrow> keeps_tx (foldX f as b)"
  by (induction as arbitrary: b) (simp_all add: keeps)

lemma keeps_filter [keeps]: "(\<And>a. keeps_tx (f a)) \<Longrightarrow> keeps_tx (filterX f as)"
  by (induction as) (simp_all add: keeps)

lemma keeps_value [keeps]: "keeps_tx (valueX m)"
  unfolding valueX_def by (intro keeps)

lemma keeps_column [keeps]: "keeps_tx (evalColumn X ctx e)"
  unfolding evalColumn_def by (intro keeps)

lemma keeps_passes [keeps]: "keeps_tx (passes X ctx e)"
  unfolding passes_def by (intro keeps)

lemma keeps_filterRows [keeps]: "keeps_tx (filterRows X rows c s tabs)"
  unfolding filterRows_def by (intro keeps)

lemma keeps_project [keeps]: "keeps_tx (projectRow X ctx stmt)"
  unfolding projectRow_def by (intro keeps)

lemma keeps_orderBy [keeps]: "keeps_tx (evalOrderByExpr X e r s tabs names)"
  unfolding evalOrderByExpr_def by (intro keeps)

lemma keeps_less [keeps]: "keeps_tx (lessRow X s tabs names obs r r')"
  by (induction obs) (simp_all add: keeps)

lemma keeps_insert [keeps]: "(\<And>a b. keeps_tx (lt a b)) \<Longrightarrow> keeps_tx (insertX lt a as)"
  by (induction as) (simp_all add: keeps)

lemma keeps_sort [keeps]: "keeps_tx (sortRows X stmt rows s tabs)"
  unfolding sortRows_def stableSortX_def by (intro keeps)

lemma keeps_limit [keeps]: "keeps_tx (applyLimitOffset X stmt rows)"
  unfolding applyLimitOffset_def limitValue_def by (intro keeps)

lemma keeps_aggregate [keeps]: "keeps_tx (evalAggregate X stmt rows s tabs)"
proof -
  have "keeps_tx (startAgg X col)" for col
    unfolding startAgg_def Let_def by (intro keeps) (auto split: Expr.split option.split intro!: keeps)
  moreover have "keeps_tx (stepAgg X ctx ca)" for ctx ca
    unfolding stepAgg_def by (auto split: prod.split Expr.split option.split intro!: keeps)
  moreover have "keeps_tx (finishAgg X ctx ca)" for ctx ca
    unfolding finishAgg_def by (auto split: prod.split option.split intro!: keeps)
  ultimately show ?thesis unfolding evalAggregate_def Let_def by (intro keeps)
qed

lemma keeps_groupBy [keeps]: "keeps_tx (evalGroupBy X stmt rows s tabs)"
  unfolding evalGroupBy_def groupRows_def groupKey_def havingRows_def by (intro keeps)

lemma keeps_noFrom [keeps]: "keeps_tx (evalSelectNoFrom X stmt)"
  unfolding evalSelectNoFrom_def Let_def by (intro keeps)

section \<open>Sources and queries\<close>

lemma keeps_source:
  assumes "\<And>s c. keeps_tx (sel s c)"
  shows "keeps_tx (getTableRows X sel name ctes)"
  unfolding getTableRows_def
  by (auto intro!: keeps assms split: option.split sum.split list.split Statement.split)

lemma keeps_joinRows: "keeps_tx (joinRows X join outer alias ms rs rrows ls tabs)"
proof -
  have "keeps_tx (joins X join ms rs l r tabs)" for l r tabs
    unfolding joins_def by (auto intro!: keeps split: JoinClause.split)
  then have "keeps_tx (joinRow X join alias ms rs l rr tabs)" for l rr tabs
    by (induction rr arbitrary: tabs) (auto simp: Let_def intro!: keeps)
  then show ?thesis by (induction ls arbitrary: tabs) (auto intro!: keeps)
qed

lemma keeps_gather:
  assumes "\<And>s c. keeps_tx (sel s c)"
  shows "keeps_tx (gatherRows X sel stmt ctes)"
proof -
  have "keeps_tx (applyJoin X sel rows j ms tabs ctes)" for rows j ms tabs
    unfolding applyJoin_def by (auto intro!: keeps keeps_source keeps_joinRows assms split: JoinClause.split)
  then show ?thesis
    unfolding gatherRows_def crossRows_def Let_def by (auto intro!: keeps keeps_source assms)
qed

lemma keeps_selectWith:
  assumes "\<And>s c. keeps_tx (sel s c)"
  shows "keeps_tx (evalSelectWith X sel stmt ctes)"
  unfolding evalSelectWith_def Let_def by (intro keeps keeps_gather assms)

lemma keeps_evalSelect [keeps]: "keeps_tx (evalSelect X n stmt ctes)"
  by (induction n arbitrary: stmt ctes) (simp_all add: keeps keeps_selectWith)

lemma keeps_execPlain [keeps]: "keeps_tx (execPlain X stmt)"
  unfolding execPlain_def by (intro keeps)

lemma keeps_CTEs [keeps]: "keeps_tx (evalCTEs X w)"
  unfolding evalCTEs_def by (auto intro!: keeps split: option.split WithClause.split CTE.split)

lemma keeps_execSelect [keeps]: "keeps_tx (execSelect X stmt)"
proof (induction X stmt rule: execSelect.induct)
  case (1 X stmt)
  show ?case
    by (subst execSelect.simps) (auto intro!: keeps 1 split: option.split CompoundClause.split)
qed

section \<open>Statements\<close>

lemma keeps_done [keeps]: "keeps_tx m \<Longrightarrow> keeps_tx (done_with m)"
  unfolding done_with_def by (intro keeps)

lemma keeps_insert' [keeps]: "keeps_tx (insertX' X t cols vs c)"
  unfolding insertX'_def by (intro keeps)

lemma keeps_selected [keeps]: "keeps_tx (selected X ctx c)"
  unfolding selected_def by (intro keeps)

lemma keeps_scanTable [keeps]: "keeps_tx (scanTable X t)"
  unfolding scanTable_def by (intro keeps)

lemma keeps_update [keeps]: "keeps_tx (updateRow X stmt ts r)"
  unfolding updateRow_def newValues_def inRangeOrder_def Let_def by (auto intro!: keeps)

lemma keeps_delete [keeps]: "keeps_tx (deleteRow X stmt ts r)"
  unfolding deleteRow_def by (auto intro!: keeps)

lemma keeps_changes [keeps]: "keeps_tx (execInsert X ins)" "keeps_tx (execUpdate X upd)" "keeps_tx (execDelete X dele)"
  unfolding execInsert_def execUpdate_def execDelete_def Let_def by (intro keeps)+

lemma keeps_definitions [keeps]:
  "keeps_tx (creating get b n m)" "keeps_tx (dropping get b n m)" "keeps_tx (execAlterTable X t a)"
  unfolding creating_def dropping_def execAlterTable_def by (auto intro!: keeps split: AlterAction.split)

lemma keeps_listings [keeps]:
  "keeps_tx execShowTables" "keeps_tx (execShowIndexes X t)" "keeps_tx (execExplain X s)" "keeps_tx (execPragma X n v)"
  unfolding execShowTables_def execShowIndexes_def execExplain_def execPragma_def Let_def by (intro keeps)+

text \<open>The statements that are not about transactions.\<close>

definition tx_statement :: "Statement \<Rightarrow> bool" where
  "tx_statement s = (case s of BeginStmt _ \<Rightarrow> True | CommitStmt \<Rightarrow> True | RollbackStmt _ \<Rightarrow> True
     | SavepointStmt _ \<Rightarrow> True | ReleaseSavepointStmt _ \<Rightarrow> True | _ \<Rightarrow> False)"

lemma keeps_statement: "\<not> tx_statement s \<Longrightarrow> keeps_tx (execStatement X s)"
  unfolding execStatement_def tx_statement_def
  by (cases s) (simp_all add: keeps execCreateTable_def execDropTable_def execCreateIndex_def execDropIndex_def
      execCreateView_def execDropView_def)

end
