(* ===== verification/NewDB.thy ===== *)
theory NewDB
  imports Catalogue
begin

text \<open>
  A new database file (\<open>initDB\<close>, \<open>internal/storage/pager.go\<close>): it holds the header page and one
  empty leaf, the root of the schema tree, and nothing else; the pager then meets the
  invariant all other operations start from.
\<close>

definition newFile :: "byte list" where
  "newFile = paddedHeader initHeader @ Data (initLeaf (newPage 1))"

lemma header_ok_init: "header_ok initHeader" "header_good initHeader"
  by (simp_all add: header_good_def header_ok_def initHeader_def MagicSize_def MagicString_def)

lemma length_newFile_parts:
  "length (paddedHeader initHeader) = PageSize" "length (Data (initLeaf (newPage i))) = PageSize"
  using padPage_header [OF header_ok_init(1)] initLeaf_fields(1) [OF page_ok_newPage [of i]]
  by (simp_all add: page_ok_def)

text \<open>A file of two pages.\<close>

lemma disk_two:
  assumes "length h = PageSize" and "length d = PageSize"
  shows "disk (h @ d) = [0 \<mapsto> h, 1 \<mapsto> d]"
proof
  fix i :: "32 word"
  have ne: "h \<noteq> []" "d \<noteq> []" using assms by (auto simp: PageSize_def)
  consider "i = 0" | "i = 1" | "2 \<le> unat i"
    by (metis One_nat_def Suc_1 not_less_eq_eq le_less_Suc_eq not_less unsigned_1 unsigned_0 word_unat_eq_iff less_one linorder_not_le)
  then show "disk (h @ d) i = ([0 \<mapsto> h, 1 \<mapsto> d]) i"
  proof cases
    case 3
    then have "length (h @ d) \<le> pageOffset i" and "i \<noteq> 0" "i \<noteq> 1"
      using assms by (auto simp: pageOffset_def PageSize_def)
    then show ?thesis by (simp add: disk_def slice_def)
  qed (use assms in \<open>simp_all add: ne disk_def slice_def pageOffset_def padPage_def PageSize_def Let_def\<close>)
qed

lemma disk_newFile: "disk newFile = [0 \<mapsto> paddedHeader initHeader, 1 \<mapsto> Data (initLeaf (newPage 1))]"
  unfolding newFile_def by (intro disk_two length_newFile_parts)

lemma initDB_ok:
  assumes nf: "True \<notin> set faults"
  obtains s where "NewPagerWithCacheSize None faults n = (Inr (), s)" and "pager_inv {} s" and "no_fault s"
    and "p_header s = initHeader" and "p_file s = newFile" and "view s = disk newFile" and "alloc_ok s"
    and "cached s = (\<lambda>_. None)" and "p_cache s = newLRUCache n"
proof -
  let ?s = "\<lparr>p_file = [], p_header = initHeader, p_cache = newLRUCache n, p_walBuf = [], p_dirtyCount = 0,
    p_freePages = [], p_totalReads = 0, p_totalWrites = 0, p_heap = (\<lambda>_. None), p_next = 0, p_faults = faults\<rparr>"
  let ?q = "initLeaf (newPage 1)"
  have q: "SetRightmostPointer InvalidPage (SetCellContentOffset (of_nat PageSize)
      (SetCellCount 0 (SetType PageTypeLeaf (newPage 1)))) = ?q" by (simp add: initLeaf_def)
  have tick: "\<exists>fs. ioTick s = (Inr (), s\<lparr>p_faults := fs\<rparr>) \<and> True \<notin> set fs" if "True \<notin> set (p_faults s)" for s
    using that ioTick_ok [of s] by (simp add: no_fault_def)
  obtain f1 where f1: "ioTick ?s = (Inr (), ?s\<lparr>p_faults := f1\<rparr>)" "True \<notin> set f1" using tick [of ?s] nf by auto
  let ?s1 = "?s\<lparr>p_faults := f1\<rparr>"
  obtain f2 where f2: "ioTick ?s1 = (Inr (), ?s1\<lparr>p_faults := f2\<rparr>)" "True \<notin> set f2" using tick [of ?s1] f1 by auto
  let ?s2 = "?s\<lparr>p_faults := f2, p_file := write_at [] 0 (paddedHeader initHeader), p_heap := [0 \<mapsto> ?q], p_next := 1, p_totalWrites := 1\<rparr>"
  obtain f3 where f3: "ioTick ?s2 = (Inr (), ?s2\<lparr>p_faults := f3\<rparr>)" "True \<notin> set f3" using tick [of ?s2] f2 by auto
  have w: "write_at (write_at [] 0 (paddedHeader initHeader)) (pageOffset 1) (Data ?q) = newFile"
    using length_newFile_parts by (simp add: write_at_def put_def newFile_def pageOffset_def PageSize_def)
  have id: "ID ?q = 1" using initLeaf_fields [OF page_ok_newPage [of 1]] by (simp add: newPage_def)
  define s where "s = ?s2\<lparr>p_faults := f3, p_file := newFile, p_heap := [0 \<mapsto> ?q\<lparr>Dirty := False\<rparr>]\<rparr>"
  have "NewPagerWithCacheSize None faults n = (Inr (), s)"
    using f1(1) f2(1) f3(1) w id
    by (simp add: NewPagerWithCacheSize_def Let_def bindP_def initDB_def fileWriteAt_def newObj_def writePage_def
      readObj_def writeObj_def q s_def del: fun_upd_apply) (simp add: fun_upd_def fun_eq_iff)
  moreover have c: "cached s = (\<lambda>_. None)" by (simp add: cached_def s_def newLRUCache_def fun_eq_iff)
  moreover have v: "view s = disk newFile" using view_uncached [of s] c by (simp add: fun_eq_iff) (simp add: s_def)
  moreover have "alloc_ok s" unfolding alloc_ok_def v disk_newFile by (auto simp: s_def initHeader_def split: if_splits)
  moreover have "pager_inv {} s" unfolding pager_inv_def c by (simp add: s_def lru_inv_new split: if_splits)
  ultimately show ?thesis using that [of s] f3(2) by (simp add: s_def no_fault_def)
qed

text \<open>Its page 1 is an empty tree.\<close>

lemma initDB_tree:
  assumes "view s = disk newFile" and "pager_inv {} s" and "no_fault s" and "alloc_ok s"
  shows "tree_in (Suc n) (TLeaf 1 []) s"
  by (rule tree_in_leaf [OF assms(2-4)]) (simp_all add: assms(1) disk_newFile InvalidPage_def)

end
