(* ===== verification/StorageProps.thy ===== *)
theory StorageProps
  imports NewDB Transaction
begin

text \<open>
  The properties of the storage layer: the B-tree as a map on disk, the split of a full root,
  what a flush makes durable, opening new, existing and corrupted files, the slotted page as
  an ordered store, and transactions. The witnesses run the operations on a new database.
\<close>

text \<open>The state of a new database, used by the witnesses.\<close>

definition newDB :: Pager where
  "newDB = snd (NewPagerWithCacheSize None [] 10)"

lemma newDB_ok:
  "pager_inv {} newDB" "no_fault newDB" "p_header newDB = initHeader" "view newDB = disk newFile"
  "alloc_ok newDB" "cached newDB = (\<lambda>_. None)" "room newDB 5" "p_file newDB = newFile"
proof -
  obtain s where "NewPagerWithCacheSize None [] 10 = (Inr (), s)" "pager_inv {} s" "no_fault s"
    "p_header s = initHeader" "p_file s = newFile" "view s = disk newFile" "alloc_ok s"
    "cached s = (\<lambda>_. None)" "p_cache s = newLRUCache 10"
    by (rule initDB_ok [of "[]" 10]) simp_all
  then show "pager_inv {} newDB" "no_fault newDB" "p_header newDB = initHeader" "view newDB = disk newFile"
    "alloc_ok newDB" "cached newDB = (\<lambda>_. None)" "room newDB 5" "p_file newDB = newFile"
    by (simp_all add: newDB_def room_def newLRUCache_def)
qed

lemma newDB_tree: "tree_in 1 (TLeaf 1 []) newDB"
  using initDB_tree [OF newDB_ok(4,1,2,5), of 0] by simp

lemma newDB_fits:
  assumes "length k + length v + 10 \<le> 4087"
  shows "fits newDB (TLeaf 1 []) k v"
proof -
  have "leaf_fits p k v" if "Data p = Data (initLeaf (newPage 1))" for p
    using same_data(10) [OF that] leaf_inv_initLeaf [OF page_ok_newPage [of 1]]
      initLeaf_empty(3) [OF page_ok_newPage [of 1]] assms
    by (simp add: leaf_fits_def)
  then show ?thesis by (simp add: fits_def newDB_ok disk_newFile)
qed

text \<open>A database whose root leaf holds one long cell.\<close>

definition bigPage :: Page where
  "bigPage = leaf_store (initLeaf (newPage 1)) [1] (replicate 3000 0)"

definition bigDB :: Pager where
  "bigDB = newDB\<lparr>p_file := paddedHeader initHeader @ Data bigPage\<rparr>"

lemma bigPage_ok:
  "leaf_inv bigPage" "page_items bigPage = [([1], replicate 3000 0)]" "Type bigPage = PageTypeLeaf"
  "length (Data bigPage) = PageSize"
proof -
  let ?q = "initLeaf (newPage 1)"
  have q: "leaf_inv ?q" "page_items ?q = []" "Type ?q = PageTypeLeaf" "free_bytes ?q = 4087"
    using leaf_inv_initLeaf [OF page_ok_newPage] initLeaf_fields(4) [OF page_ok_newPage]
      initLeaf_empty(3) [OF page_ok_newPage] by auto
  have "leaf_fits ?q [1] (replicate 3000 0)" using q by (simp add: leaf_fits_def)
  then obtain p where p: "leaf_put ?q [1] (replicate 3000 0) = Inr p" "leaf_inv p"
    "map_of (page_items p) = (map_of (page_items ?q))([1] \<mapsto> replicate 3000 0)" "Type p = Type ?q"
    using leaf_put_ok [OF q(1)] by metis
  then have b: "bigPage = p" by (simp add: bigPage_def leaf_store_def)
  have "map_of (page_items p) = map_of [([1], replicate 3000 0)]" by (simp add: p(3) q)
  with p(2) show "page_items bigPage = [([1], replicate 3000 0)]"
    unfolding b by (intro keys_sorted_unique) (simp_all add: leaf_inv_def keys_sorted_def)
  show "leaf_inv bigPage" "Type bigPage = PageTypeLeaf" using p(2,4) q(3) b by simp_all
  then show "length (Data bigPage) = PageSize"
    by (simp add: leaf_inv_def tight_page_def wf_page_def page_ok_def)
qed

lemma bigDB_ok:
  "tree_in 1 (TLeaf 1 [([1], replicate 3000 0)]) bigDB" "room bigDB 3" "p_header bigDB = initHeader"
  "view bigDB 1 = Some (Data bigPage)"
proof -
  have c: "cached bigDB = (\<lambda>_. None)" using newDB_ok(6) by (simp add: bigDB_def cached_def)
  have v: "view bigDB = [0 \<mapsto> paddedHeader initHeader, 1 \<mapsto> Data bigPage]"
    using view_uncached [of bigDB] c disk_two [OF length_newFile_parts(1) bigPage_ok(4)]
    by (simp add: fun_eq_iff) (simp add: bigDB_def)
  show "view bigDB 1 = Some (Data bigPage)" by (simp add: v)
  have "repr (view bigDB) (TLeaf 1 [([1], replicate 3000 0)])"
    using bigPage_ok by (intro repr.leaf [of _ _ bigPage]) (simp_all add: v InvalidPage_def)
  moreover have "pager_inv {} bigDB" "no_fault bigDB"
    using newDB_ok(1,2) c unfolding pager_inv_def by (simp_all add: bigDB_def no_fault_def)
  moreover show h: "p_header bigDB = initHeader" "room bigDB 3"
    using newDB_ok(3,7) by (simp_all add: bigDB_def room_def)
  moreover have "alloc_ok bigDB"
    using newDB_ok(5) unfolding alloc_ok_def v h by (auto simp: bigDB_def initHeader_def split: if_splits)
  ultimately show "tree_in 1 (TLeaf 1 [([1], replicate 3000 0)]) bigDB" by (simp add: tree_in_def)
qed

lemma bigDB_split: "needs_split bigDB 1 [2] (replicate 3000 0)"
proof -
  let ?c = "\<lparr>Key = [2], Value = replicate 3000 0, LeftPtr = InvalidPage\<rparr>"
  have "free_bytes p < 1100 \<and> halves_fit (insertSorted (page_cells p) ?c)" if "Data p = Data bigPage" for p :: Page
  proof -
    note S = same_data [OF that]
    have it: "page_items p = [([1], replicate 3000 0)]" "wf_page p"
      using S(3,6) bigPage_ok tight_wf by (simp_all add: leaf_inv_def)
    then obtain c where c: "page_cells p = [c]" "Key c = [1]" "Value c = replicate 3000 0"
      by (auto simp: page_items_def)
    have n: "ncells p = 1" using c(1) length_page_cells [of p] by simp
    have "content p \<le> ptr (Data p) 0" "cell_in (Data p) (ptr (Data p) 0)" "length (Data p) = PageSize"
      using it(2) n by (auto simp: wf_page_def page_ok_def)
    moreover have "cell_at (Data p) (ptr (Data p) 0) = c" using c(1) n by (simp add: page_cells_def)
    ultimately have "content p + 3009 \<le> 4096"
      using cell_end_size [of "Data p" "ptr (Data p) 0"] c
      by (simp add: cell_end_def cell_size_def cell_in_def PageSize_def)
    then have "free_bytes p < 1100" using n by (simp add: free_bytes_def)
    moreover have "cKeyCmp [2] [1 :: byte] \<ge> 0" using cKeyCmp_less [of "[2]" "[1]"] by simp
    then have "insertSorted (page_cells p) ?c = [c, ?c]"
      using c by (simp add: insertSorted_def insert_at_def)
    ultimately show ?thesis
      using c by (simp add: halves_fit_def cell_small_def cells_bytes_def cell_size_def)
  qed
  then show ?thesis by (fastforce simp: needs_split_def bigDB_ok)
qed

section \<open>The B-tree as a map\<close>

text \<open>C1. \<open>BTree.Insert\<close> on a tree of any height whose pages the pager holds: when the leaf on
  the key's path has room, the insert succeeds and keeps the root, the tree then maps the key
  to the value and every other key as before, and no page outside the tree changes.\<close>

theorem insert_updates_map:
  assumes "tree_in n t s" and "fits s t k v"
  shows "\<exists>s' t'. Insert n (tree_id t) k v s = ((Inr (), tree_id t), s') \<and> tree_in n t' s' \<and>
    tree_id t' = tree_id t \<and> tree_ids t' = tree_ids t \<and>
    (\<forall>k'. lookup t' k' = (if k' = k then Some v else lookup t k')) \<and>
    (\<forall>i d. i \<notin> set (tree_ids t) \<longrightarrow> view s i = Some d \<longrightarrow> view s' i = Some d)"
  by (rule Insert_tree [OF assms]) blast

lemma insert_updates_map_witness:
  "\<exists>s'. Insert 1 1 [1] [2] newDB = ((Inr (), 1), s') \<and> view s' 0 = Some (paddedHeader initHeader)"
  using insert_updates_map [OF newDB_tree newDB_fits, of "[1]" "[2]"] by (auto simp: newDB_ok disk_newFile)

text \<open>C2. \<open>BTree.Get\<close> returns the value the tree maps the key to, \<open>None\<close> when it has none, and
  changes neither the tree nor any page or header field.\<close>

theorem get_reads_map:
  assumes "tree_in n t s"
  shows "\<exists>s'. Get n (tree_id t) k s = (Inr (lookup t k), s') \<and> tree_in n t s' \<and> keeps s s'"
  by (rule Get_tree [OF assms]) blast

lemma get_reads_map_witness: "\<exists>s'. Get 1 1 [1] newDB = (Inr None, s') \<and> p_header s' = initHeader"
  using get_reads_map [OF newDB_tree, of "[1]"] by (auto simp: keeps_def newDB_ok)

text \<open>C3. \<open>BTree.Delete\<close> of a key that is not a separator on its own path: it reports whether
  the key was there, the tree then has every other key as before and not this one, and no page
  outside the tree changes.\<close>

theorem delete_removes_key:
  assumes "tree_in n t s" and "\<not> on_path t k"
  shows "\<exists>s' t'. Delete n (tree_id t) k s = (Inr (lookup t k \<noteq> None), s') \<and> tree_in n t' s' \<and>
    tree_id t' = tree_id t \<and> tree_ids t' = tree_ids t \<and>
    (\<forall>k'. lookup t' k' = (if k' = k then None else lookup t k')) \<and>
    (\<forall>i d. i \<notin> set (tree_ids t) \<longrightarrow> view s i = Some d \<longrightarrow> view s' i = Some d)"
  by (rule Delete_tree [OF assms]) blast

lemma delete_removes_key_witness: "\<exists>s'. Delete 1 1 [1] newDB = (Inr False, s')"
  using delete_removes_key [OF newDB_tree, of "[1]"] by auto

text \<open>C28. The first split: inserting a new key into a full root leaf moves the upper half of the
  cells to a fresh page and makes another fresh page the root. After it \<open>Get\<close> finds every key
  of the old leaf and the new one, except the separator, the first key of the right page:
  the search goes left on equality and reports that key as missing.\<close>

theorem root_split_get:
  assumes "tree_in n (TLeaf i xs) s" and "map_of xs k = None" and "length k + length v + 10 < 2 ^ 16"
    and "needs_split s i k v" and "room s 3" and "hPageCount (p_header s) + 1 < InvalidPage"
    and "hPageCount (p_header s) < InvalidPage"
  shows "\<exists>s'. Insert n i k v s = ((Inr (), hPageCount (p_header s) + 1), s') \<and>
    (\<forall>k'. fst (Get 2 (hPageCount (p_header s) + 1) k' s') =
       Inr (let ys = put_items xs k v in if k' = fst (ys ! (length ys div 2)) then None else map_of ys k'))"
proof -
  let ?j = "hPageCount (p_header s)" and ?ys = "put_items xs k v"
  obtain s' where s': "Insert n i k v s = ((Inr (), ?j + 1), s')" "tree_in 2 (split_tree i ?j ?ys) s'"
    by (rule Insert_root_split [OF assms(1-5) refl assms(6,7)])
  have "repr (view s) (TLeaf i xs)" using assms(1) by (simp add: tree_in_def)
  then have "keys_sorted xs" by (auto elim: repr_leafE simp: leaf_inv_def)
  then have ys: "keys_sorted ?ys" by (rule put_items_sorted)
  have "?ys \<noteq> []" using assms(2) by (simp add: put_items_def insert_at_def)
  note L = lookup_split_tree [OF ys this, of i ?j]
  have "fst (Get 2 (?j + 1) k' s') = Inr (lookup (split_tree i ?j ?ys) k')" for k'
    using Get_tree [OF s'(2), of k'] by (force simp: split_tree_def Let_def)
  with s'(1) L show ?thesis by (auto simp: Let_def)
qed

lemma root_split_get_witness:
  "\<exists>s'. Insert 1 1 [2] (replicate 3000 0) bigDB = ((Inr (), 3), s') \<and>
     fst (Get 2 3 [1] s') = Inr (Some (replicate 3000 0)) \<and> fst (Get 2 3 [2] s') = Inr None"
proof -
  have h: "hPageCount initHeader = 2" by (simp add: initHeader_def)
  have ys: "put_items [([1], replicate 3000 0)] [2] (replicate 3000 0) = [([1], replicate 3000 0), ([2], replicate 3000 (0::byte))]"
    by (simp add: put_items_def pos_def insert_at_def)
  show ?thesis
    using root_split_get [OF bigDB_ok(1) _ _ bigDB_split bigDB_ok(2)]
    by (auto simp: bigDB_ok(3) h ys InvalidPage_def)
qed


section \<open>The file\<close>

text \<open>C11. \<open>FlushAll\<close> and opening the file again, when no I/O error occurs: the reopened pager has the
  header of the flushed one, every page has the contents the cache or the file had before the
  flush, and so every B-tree is still there.\<close>

theorem flush_then_open:
  assumes "pager_inv {} s" and "no_fault s" and "cached s 0 = None" and "header_good (p_header s)"
    and "True \<notin> set faults"
  shows "\<exists>s' s2. FlushAll s = (Inr (), s') \<and> NewPagerWithCacheSize (Some (p_file s')) faults n = (Inr (), s2) \<and>
    pager_inv {} s2 \<and> p_header s2 = p_header s \<and>
    (\<forall>i d. i \<noteq> 0 \<longrightarrow> view s i = Some d \<longrightarrow> view s2 i = Some d) \<and>
    (\<forall>t. repr (view s) t \<longrightarrow> 0 \<notin> set (tree_ids t) \<longrightarrow> repr (view s2) t)"
proof -
  have h: "header_ok (p_header s)" using assms(4) by (simp add: header_good_def)
  obtain s' where s': "FlushAll s = (Inr (), s')" "disk (p_file s') 0 = Some (paddedHeader (p_header s))"
    "\<And>i d. i \<noteq> 0 \<Longrightarrow> view s i = Some d \<Longrightarrow> disk (p_file s') i = Some d"
    by (rule FlushAll_ok [OF assms(1-3) h]) (rule that, (assumption | blast)+)
  obtain s2 where s2: "NewPagerWithCacheSize (Some (p_file s')) faults n = (Inr (), s2)" "pager_inv {} s2"
    "p_header s2 = p_header s" "view s2 = disk (p_file s')"
    by (rule open_existing [OF assms(4) s'(2) assms(5)])
  have v: "view s2 i = Some d" if "i \<noteq> 0" "view s i = Some d" for i d using s'(3) [OF that] by (simp add: s2(4))
  have "repr (view s2) t" if r: "repr (view s) t" and z: "0 \<notin> set (tree_ids t)" for t
  proof (rule repr_frame [OF r])
    fix i assume i: "i \<in> set (tree_ids t)"
    then obtain d where "view s i = Some d" using repr_ids_view [OF r i] by blast
    moreover have "i \<noteq> 0" using i z by auto
    ultimately show "view s2 i = view s i" using v by simp
  qed
  with s'(1) s2 v show ?thesis by blast
qed

lemma flush_then_open_witness:
  "\<exists>s' s2. FlushAll newDB = (Inr (), s') \<and> NewPagerWithCacheSize (Some (p_file s')) [] 5 = (Inr (), s2) \<and>
     repr (view s2) (TLeaf 1 [])"
proof -
  have "cached newDB 0 = None" "header_good (p_header newDB)" by (simp_all add: newDB_ok header_ok_init)
  moreover have "repr (view newDB) (TLeaf 1 [])" using newDB_tree by (simp add: tree_in_def)
  ultimately show ?thesis using flush_then_open [OF newDB_ok(1,2), of "[]" 5] by force
qed

text \<open>C12. Opening a file that does not exist, when no I/O error occurs: the pager holds the header
  of a new database and an empty leaf as page 1, the root of the schema tree, on disk and in the
  view, has nothing else, and meets the invariant that the operations of the pager and of the
  tree start from.\<close>

theorem new_file_ready:
  assumes "True \<notin> set faults"
  shows "\<exists>s. NewPagerWithCacheSize None faults n = (Inr (), s) \<and> tree_in 1 (TLeaf 1 []) s \<and>
    p_header s = initHeader \<and> SchemaPage (p_header s) = 1 \<and> (\<forall>i. view s i \<noteq> None \<longleftrightarrow> i < PageCount s)"
proof -
  obtain s where s: "NewPagerWithCacheSize None faults n = (Inr (), s)" "pager_inv {} s" "no_fault s"
    "p_header s = initHeader" "view s = disk newFile" "alloc_ok s"
    by (rule initDB_ok [OF assms]) (rule that)
  have "i < 2 \<longleftrightarrow> i = 0 \<or> i = 1" for i :: "32 word"
    unfolding word_less_nat_alt word_unat_eq_iff by auto
  then have "view s i \<noteq> None \<longleftrightarrow> i < PageCount s" for i
    by (auto simp: s(4,5) disk_newFile PageCount_def initHeader_def)
  moreover have "tree_in 1 (TLeaf 1 []) s" using initDB_tree [OF s(5,2,3,6), of 0] by simp
  ultimately show ?thesis using s(1,4) by (auto simp: initHeader_def)
qed

lemma new_file_ready_witness: "\<exists>s. NewPagerWithCacheSize None [False] 100 = (Inr (), s) \<and> PageCount s = 2"
  using new_file_ready [of "[False]" 100] by (auto simp: PageCount_def initHeader_def)

text \<open>Opening a file whose first bytes are not the magic string fails with
  \<open>ErrCorruptedDB\<close> and leaves the file as it is.\<close>

theorem open_rejects_bad_magic:
  assumes "True \<notin> set faults" and "take (length MagicString) (padPage (slice f 0 PageSize)) \<noteq> MagicString"
  shows "\<exists>s. NewPagerWithCacheSize (Some f) faults n = (Inl ErrCorruptedDB, s) \<and> p_file s = f"
proof -
  let ?s = "\<lparr>p_file = f, p_header = initHeader, p_cache = newLRUCache n, p_walBuf = [], p_dirtyCount = 0,
    p_freePages = [], p_totalReads = 0, p_totalWrites = 0, p_heap = (\<lambda>_. None), p_next = 0, p_faults = faults\<rparr>"
  obtain fs where t: "ioTick ?s = (Inr (), ?s\<lparr>p_faults := fs\<rparr>)" "True \<notin> set fs"
    using ioTick_ok [of ?s] assms(1) by (auto simp: no_fault_def)
  then have "no_fault (?s\<lparr>p_faults := fs\<rparr>)" by (simp add: no_fault_def)
  from fileReadAt_ok [OF this, of 0 PageSize] obtain fs' where
    l: "fileReadAt 0 PageSize (?s\<lparr>p_faults := fs\<rparr>) = (Inr (slice f 0 PageSize), ?s\<lparr>p_faults := fs, p_faults := fs'\<rparr>)"
    by auto
  have len: "HeaderSize \<le> length (padPage (slice f 0 PageSize))"
    by (simp add: padPage_def HeaderSize_def PageSize_def)
  have mg: "take (length MagicString) (slice x 0 MagicSize) = take (length MagicString) x" for x
    by (simp add: slice_def MagicSize_def MagicString_def)
  show ?thesis
    using t l len assms(2)
    by (simp add: NewPagerWithCacheSize_def Let_def bindP_def loadHeader_def DecodeHeader_def not_less
      mg)
qed

lemma open_rejects_bad_magic_witness:
  "\<exists>s. NewPagerWithCacheSize (Some [83, 81, 76]) [] 10 = (Inl ErrCorruptedDB, s) \<and> p_file s = [83, 81, 76]"
  by (rule open_rejects_bad_magic) (simp_all add: padPage_def slice_def PageSize_def MagicString_def)

text \<open>\<open>GetPage\<close> of a page that is neither cached nor in the file returns the error
  \<open>invalid page\<close> with its id.\<close>

theorem get_page_beyond_file:
  assumes "pager_inv {} s" and "no_fault s" and "view s i = None"
  shows "\<exists>s'. GetPage i s = (Inl (ErrInvalidPage i), s')"
  using GetPage_missing [OF assms] .

lemma get_page_beyond_file_witness: "\<exists>s'. GetPage 7 newDB = (Inl (ErrInvalidPage 7), s')"
  by (rule get_page_beyond_file [OF newDB_ok(1,2)]) (simp add: newDB_ok disk_newFile)


section \<open>Pages and codecs\<close>

text \<open>\<open>insertCellIntoPageAt\<close> on a page whose cells lie inside it and do not overlap: if the
  free space holds the cell and its pointer, the cell is inserted at the index, the cells
  behind it move up by one, the free space shrinks by that amount and the page stays well
  formed; otherwise the result is \<open>ErrPageFull\<close>.\<close>

theorem insert_cell_at:
  assumes "tight_page p" and "cell_small c" and "unat idx \<le> ncells p"
  shows "if cell_size c + 2 \<le> free_bytes p
    then \<exists>p'. insertCellIntoPageAt p c idx = Inr p' \<and> tight_page p' \<and> Type p' = Type p \<and>
           page_cells p' = insert_at (unat idx) c (page_cells p) \<and> free_bytes p' = free_bytes p - (cell_size c + 2)
    else insertCellIntoPageAt p c idx = Inl ErrPageFull"
proof (cases "cell_size c + 2 \<le> free_bytes p")
  case True
  then show ?thesis using insert_tight [OF assms True] by (metis (no_types))
next
  case False
  then show ?thesis using insert_full(1) [OF tight_wf [OF assms(1)] assms(2)] by simp
qed

lemma insert_cell_at_witness:
  "\<exists>p'. insertCellIntoPageAt (initLeaf (newPage 3)) \<lparr>Key = [1], Value = [2, 3], LeftPtr = 0\<rparr> 0 = Inr p' \<and>
     page_cells p' = [\<lparr>Key = [1], Value = [2, 3], LeftPtr = 0\<rparr>] \<and> free_bytes p' = 4074"
  using insert_cell_at [OF initLeaf_empty(1) [OF page_ok_newPage [of 3]], of "\<lparr>Key = [1], Value = [2, 3], LeftPtr = 0\<rparr>" 0]
    initLeaf_empty [OF page_ok_newPage [of 3]]
  by (auto simp: cell_small_def cell_size_def insert_at_def)

text \<open>\<open>removeCellAt\<close> removes exactly the cell of the index, keeps the order of the others, and
  gives back the two bytes of the pointer but not the bytes of the cell.\<close>

theorem remove_cell_at:
  assumes "tight_page p" and "unat idx < ncells p"
  shows "\<exists>p'. removeCellAt p idx = Inr p' \<and> tight_page p' \<and> Type p' = Type p \<and>
    page_cells p' = remove_at (unat idx) (page_cells p) \<and> free_bytes p' = free_bytes p + 2"
  using remove_tight [OF assms] by (metis (no_types))

lemma remove_cell_at_witness: "\<exists>p'. removeCellAt bigPage 0 = Inr p' \<and> page_cells p' = []"
proof -
  have n: "ncells bigPage = 1" using bigPage_ok(2) length_page_items [of bigPage] by simp
  then have "length (page_cells bigPage) = 1" by simp
  with remove_cell_at [of bigPage 0] bigPage_ok(1) n show ?thesis
    by (auto simp: leaf_inv_def remove_at_def length_Suc_conv)
qed

text \<open>A leaf page is a map: after storing a key that fits, a search on the page finds the
  new value under the key and every other key as before; after removing one, every key but it.\<close>

theorem leaf_page_map:
  assumes "leaf_inv p" and "leaf_fits p k v"
  shows "\<exists>p' p'' f. leaf_put p k v = Inr p' \<and> leaf_del p' k = Inr (p'', f) \<and> f \<and> leaf_inv p'' \<and>
    (\<forall>k'. leaf_get p' k' = Inr (if k' = k then Some v else map_of (page_items p) k')) \<and>
    (\<forall>k'. leaf_get p'' k' = Inr (if k' = k then None else map_of (page_items p) k'))"
proof -
  obtain p' where p': "leaf_put p k v = Inr p'" "leaf_inv p'" "map_of (page_items p') = (map_of (page_items p))(k \<mapsto> v)"
    by (rule leaf_put_ok [OF assms])
  obtain p'' f where p'': "leaf_del p' k = Inr (p'', f)" "leaf_inv p''"
    "map_of (page_items p'') = (map_of (page_items p'))(k := None)" "f \<longleftrightarrow> map_of (page_items p') k \<noteq> None"
    by (rule leaf_del_ok [OF p'(2)])
  have "f" using p''(4) by (simp add: p'(3))
  then show ?thesis
    using p' p'' leaf_get_items [OF p'(2)] leaf_get_items [OF p''(2)] 
    by (intro exI [of _ p'] exI [of _ p''] exI [of _ f]) auto
qed

lemma leaf_page_map_witness:
  "\<exists>p'. leaf_put (initLeaf (newPage 3)) [1] [2, 3] = Inr p' \<and> leaf_get p' [1] = Inr (Some [2, 3]) \<and> leaf_get p' [2] = Inr None"
  using leaf_page_map [of "initLeaf (newPage 3)" "[1]" "[2, 3]"] leaf_inv_initLeaf [OF page_ok_newPage [of 3]]
    initLeaf_empty(3) [OF page_ok_newPage [of 3]]
  by (fastforce simp: leaf_fits_def)

text \<open>C38. The C binary search over the raw page: on a page whose keys are sorted it answers
  with the index of the key, or with the index where the key belongs, without a read outside
  the page.\<close>

theorem page_binary_search:
  assumes "wf_page p" and "keys_sorted (page_items p)"
  shows "\<exists>i f. cPageBinarySearch (Data p) (CellCount p) PageHeaderSize key = Inr (int i, f) \<and>
    (if f then i < ncells p \<and> fst (page_items p ! i) = key
     else map_of (page_items p) key = None \<and> lower_bound (page_items p) key i)"
  by (rule leaf_find_sorted [OF assms, of key]) (fastforce simp: leaf_find_def)+

lemma page_binary_search_witness:
  "\<exists>i f. cPageBinarySearch (Data bigPage) (CellCount bigPage) PageHeaderSize [1] = Inr (int i, f) \<and> f"
  using page_binary_search [of bigPage "[1]"] bigPage_ok(1) tight_wf [of bigPage]
  by (fastforce simp: leaf_inv_def bigPage_ok(2) split: if_splits)

text \<open>Reading back an encoded database header gives the header, whatever bytes follow.\<close>

theorem header_roundtrip:
  assumes "header_ok h"
  shows "DecodeHeader (EncodeHeader h @ rest) = Inr h"
  by (rule decode_encode_header [OF assms])

lemma header_roundtrip_witness: "DecodeHeader (EncodeHeader initHeader @ [1, 2]) = Inr initHeader"
  by (rule header_roundtrip [OF header_ok_init(1)])

text \<open>Reading back an encoded cell gives the cell, whatever bytes follow it, for keys and
  values whose lengths fit the 16-bit length fields.\<close>

theorem cell_roundtrip:
  assumes "cell_small c"
  shows "DecodeCell (EncodeCell c @ rest) 0 = Inr c"
  by (rule decode_encode_cell [OF assms])

lemma cell_roundtrip_witness:
  "DecodeCell (EncodeCell \<lparr>Key = [1], Value = [2, 3], LeftPtr = 9\<rparr> @ [7]) 0 = Inr \<lparr>Key = [1], Value = [2, 3], LeftPtr = 9\<rparr>"
  by (rule cell_roundtrip) (simp add: cell_small_def)

section \<open>The cache\<close>

text \<open>C39. A page put into the cache when no cached page is pinned: the cache holds each id once
  and at most \<open>cap\<close> pages, the new one first, and a page leaves only when the cache is full,
  the least recently used one.\<close>

theorem lru_put_bounded:
  assumes "lru_inv c" and "i \<notin> cache_items c" and "\<forall>a \<in> snd ` set (cache_order c). \<not> pinned a"
    and "int (length (cache_order c)) \<le> max 1 (cap c)"
  shows "\<exists>ev c'. lru_put pinned i pg c = (ev, c') \<and> lru_inv c' \<and> int (length (cache_order c')) \<le> max 1 (cap c) \<and>
    cache_order c' = (i, pg) # (if ev = None then cache_order c else butlast (cache_order c)) \<and>
    (ev \<noteq> None \<longleftrightarrow> cap c \<le> int (length (cache_order c)) \<and> cache_order c \<noteq> []) \<and>
    (\<forall>a. ev = Some a \<longrightarrow> a = snd (last (cache_order c)))"
proof -
  obtain ev c' where r: "lru_put pinned i pg c = (ev, c')" by fastforce
  note n = lru_put_new [OF assms(1,2), of pinned pg]
  show ?thesis
    using r lru_put_inv(1,4) [OF assms(1,2) _ r] assms(3,4) n
    by (intro exI [of _ ev] exI [of _ c']) (auto split: if_splits)
qed

lemma lru_put_bounded_witness:
  "\<exists>c'. lru_put (\<lambda>_. False) 3 30 \<lparr>cap = 2, cache_items = {2, 1}, cache_order = [(2, 20), (1, 10)], hits = 0, misses = 0\<rparr> =
     (Some 10, c') \<and> cache_order c' = [(3, 30), (2, 20)]"
  using lru_put_bounded [of "\<lparr>cap = 2, cache_items = {2, 1}, cache_order = [(2, 20), (1, 10)], hits = 0, misses = 0\<rparr>" 3 "\<lambda>_. False" 30]
  by (auto simp: lru_inv_def)

section \<open>Transactions\<close>

text \<open>C40. A transaction, whatever calls are made on it: it is active, committed or rolled back,
  has its images exactly while it is active, and no savepoint afterwards; once it is committed
  or rolled back no call changes it.\<close>

theorem transaction_lifecycle:
  assumes "tx_step\<^sup>*\<^sup>* NewTransaction tx"
  shows "tx_state tx \<in> {TxActive, TxCommited, TxRolledBack} \<and> (IsActive tx \<longleftrightarrow> saveState tx \<noteq> None) \<and>
    (\<not> IsActive tx \<longrightarrow> savepoints tx = [] \<and> (\<forall>tx'. tx_step\<^sup>*\<^sup>* tx tx' \<longrightarrow> tx' = tx))"
  using tx_reach_inv [OF assms] tx_final [of tx] unfolding tx_inv_def IsActive_def by blast

lemma transaction_lifecycle_witness:
  "\<exists>tx. Savepoint ''a'' NewTransaction = Inr tx \<and> IsActive tx \<and> saveState tx \<noteq> None"
proof -
  obtain tx where tx: "Savepoint ''a'' NewTransaction = Inr tx" "tx_state tx = TxActive"
    by (simp add: Savepoint_def NewTransaction_def)
  then have "tx_step\<^sup>*\<^sup>* NewTransaction tx" by (blast intro: tx_step.savepoint)
  from transaction_lifecycle [OF this] tx show ?thesis by (auto simp: IsActive_def)
qed

text \<open>\<open>Rollback\<close> of an active transaction whose saved pages are cached: the contents of every
  saved page are the saved ones again, every other page, the header and the file are
  unchanged, and the transaction is finished. The order in which the map of images is
  iterated does not matter.\<close>

theorem rollback_restores:
  assumes "pager_inv X s" and "tx_state tx = TxActive" and "saveState tx = Some m" and "set order = dom m"
    and "\<forall>i \<in> dom m. cached s i \<noteq> None"
  shows "\<exists>s' tx'. Rollback order tx s = (Inr tx', s') \<and> tx_state tx' = TxRolledBack \<and> saveState tx' = None \<and>
    view s' = view s ++ m \<and> p_file s' = p_file s \<and> p_header s' = p_header s"
proof -
  have "m i \<noteq> None \<Longrightarrow> cached s i \<noteq> None" for i using assms(5) by auto
  from Rollback_ok [OF assms(1-4) this] show ?thesis by fastforce
qed


lemma rollback_restores_witness:
  "\<exists>s a pg tx s' tx'. GetPage 1 newDB = (Inr a, s) \<and> p_heap s a = Some pg \<and> SavePage pg NewTransaction = Inr tx \<and>
     Rollback [1] tx (s\<lparr>p_heap := (p_heap s)(a \<mapsto> pg\<lparr>Data := Data bigPage, Dirty := True\<rparr>)\<rparr>) = (Inr tx', s') \<and>
     view s' 1 = view newDB 1"
proof -
  have v: "view newDB 1 = Some (Data (initLeaf (newPage 1)))" by (simp add: newDB_ok disk_newFile)
  obtain a s and pg :: Page where g: "GetPage 1 newDB = (Inr a, s)" "pager_inv {} s" "no_fault s" "cached s 1 = Some a"
    "p_heap s a = Some pg" "Data pg = Data (initLeaf (newPage 1))" "ID pg = 1"
    by (rule GetPage_ok [OF newDB_ok(1,2) v, where n = 1]) (rule that, assumption+)
  let ?q = "pg\<lparr>Data := Data bigPage, Dirty := True\<rparr>" and ?m = "[1 \<mapsto> Data pg]"
  let ?s = "s\<lparr>p_heap := (p_heap s)(a \<mapsto> ?q)\<rparr>" and ?tx = "NewTransaction\<lparr>saveState := Some ?m\<rparr>"
  have "page_ok ?q" "pins ?q = 0"
    using bigPage_ok(4) pager_invD(4) [OF g(2,4)] g(5) by (auto simp: page_ok_def page_valid_def)
  then have s: "pager_inv ({} - {a}) ?s" "cached ?s = cached s"
    using setObj_ok [OF g(2,4), of ?q] g(7) by simp_all
  have tx: "SavePage pg NewTransaction = Inr ?tx"
    using g(7) by (simp add: SavePage_def NewTransaction_def save_in_def)
  have "\<exists>s' tx'. Rollback [1] ?tx ?s = (Inr tx', s') \<and> tx_state tx' = TxRolledBack \<and> saveState tx' = None \<and>
      view s' = view ?s ++ ?m \<and> p_file s' = p_file ?s \<and> p_header s' = p_header ?s"
    by (rule rollback_restores [OF s(1)]) (use s(2) g(4) in \<open>simp_all add: NewTransaction_def\<close>)
  then obtain s' tx' where r: "Rollback [1] ?tx ?s = (Inr tx', s')" "view s' = view ?s ++ ?m" by blast
  have "view s' 1 = view newDB 1" using g(6) v unfolding r(2) by simp
  with g(1,5) tx r(1) show ?thesis by (intro exI conjI)
qed

end
