(* ===== verification/CatalogProps.thy ===== *)
theory CatalogProps
  imports StorageProps
begin

text \<open>
  The properties of values, rows and the catalogue. The witnesses use a library whose
  functions on non-ASCII text and on decimal fractions are simple stand-ins, and a schema
  encoding that writes the lower-cased name.
\<close>

definition plainLib :: golib where
  "plainLib = \<lparr>FormatFloat = (\<lambda>_. ''0''), ParseFloat = (\<lambda>s. map_option f_of_int (ParseInt s)), FloatOf = (\<lambda>s. case ParseInt s of None \<Rightarrow> 0 | Some i \<Rightarrow> f_of_int i),
     uniLower = (\<lambda>s. s), uniUpper = (\<lambda>s. s), uniFold = (\<lambda>a b. a = b)\<rparr>"

definition plainEnv :: env where
  "plainEnv = \<lparr>lib = plainLib,
     marshalTable = (\<lambda>t. str_bytes (tName t)),
     unmarshalTable = (\<lambda>b. Some \<lparr>tName = bytes_str b, Columns = [], tRootPage = 0, Indexes = [], NextAutoInc = 1\<rparr>),
     marshalIndex = (\<lambda>i. str_bytes (iName i)), unmarshalIndex = (\<lambda>_. None),
     marshalView = (\<lambda>v. str_bytes (vName v)), unmarshalView = (\<lambda>_. None), treeFuel = 1\<rparr>"

section \<open>Keys, values and rows\<close>

text \<open>The C comparison of two keys, \<open>sqlgo_key_cmp\<close>, is the lexicographic order of their
  bytes.\<close>

theorem key_order:
  "sqlgo_key_cmp a b = (if a < b then -1 else if a = b then 0 else 1)"
  by (rule key_cmp_lex)

text \<open>C22. \<open>DecodeRow\<close> reads back the row that \<open>EncodeRow\<close> wrote, whatever bytes follow it.\<close>

theorem row_roundtrip:
  assumes "row_ok r"
  shows "DecodeRow (EncodeRow r @ rest) = Inr r"
  by (rule decode_encode_row [OF assms])

lemma row_roundtrip_witness:
  "DecodeRow (EncodeRow [NullValue, IntValue (-1), TextValue ''ab'', BlobValue [0, 255]] @ [9]) =
     Inr [NullValue, IntValue (-1), TextValue ''ab'', BlobValue [0, 255]]"
  by (rule row_roundtrip) (simp add: row_ok_def payload_def encodeValue_cases str_bytes_def be64_def)

text \<open>Printing an integer value and coercing the text back to an integer column gives the
  same integer, over the whole 64-bit range.\<close>

theorem integer_text_roundtrip:
  "CoerceValue G (TextValue (value_String G (IntValue w))) TypeInteger = Inr (IntValue w)"
  by (simp add: CoerceValue_simps value_String_def val_types ParseInt_FormatInt)

text \<open>C36. \<open>CoerceValue\<close> on a well-formed value: it leaves the value alone exactly when the column lets it
  in, and fails only on a text for an \<open>INTEGER\<close> or \<open>REAL\<close> column. What it gives is well formed, is NULL
  exactly when the value was, and coercing it once more does not change it. For an \<open>INTEGER\<close> (\<open>REAL\<close>)
  column it is NULL, an integer (a real), or the blob that was given: blobs are not converted. For a
  \<open>TEXT\<close> column it is NULL or a text, and for a column of any other type the value itself, whatever
  its type.\<close>

theorem coerce_idempotent:
  assumes "value_ok v"
  shows "(CoerceValue G v c = Inr v \<longleftrightarrow> let_in c v) \<and>
    (\<forall>w. CoerceValue G v c = Inr w \<longrightarrow> value_ok w \<and> CoerceValue G w c = Inr w \<and> coerced c v w) \<and>
    (\<forall>e. CoerceValue G v c = Inl e \<longrightarrow> vType v = ValText \<and> c \<in> {TypeInteger, TypeReal})"
proof (intro conjI allI impI)
  show "CoerceValue G v c = Inr v \<longleftrightarrow> let_in c v" by (rule let_in_fixed [OF assms])
next
  fix w assume w: "CoerceValue G v c = Inr w"
  note C = coerce_typed [OF assms w]
  then show "value_ok w" "coerced c v w" by simp_all
  show "CoerceValue G w c = Inr w" using C let_in_fixed [of w G c] coerced_let_in [of c v w] by simp
next
  fix e assume "CoerceValue G v c = Inl e"
  then show "vType v = ValText" "c \<in> {TypeInteger, TypeReal}"
    using assms by (elim value_ok_cases; cases c; simp add: CoerceValue_simps val_types)+
qed

lemma coerce_idempotent_witness:
  "CoerceValue plainLib (TextValue ''12'') TypeInteger = Inr (IntValue 12) \<and> coerced TypeInteger (TextValue ''12'') (IntValue 12) \<and>
   CoerceValue plainLib (BlobValue [1]) TypeInteger = Inr (BlobValue [1])"
proof -
  have "ParseInt ''12'' = Some 12" by (simp add: ParseInt_def digit_val_def)
  then have "CoerceValue plainLib (TextValue ''12'') TypeInteger = Inr (IntValue 12)"
    by (simp add: CoerceValue_simps)
  with coerce_idempotent [of "TextValue ''12''" plainLib TypeInteger] coerce_idempotent [of "BlobValue [1]" plainLib TypeInteger]
  show ?thesis by (simp add: let_in_def val_types)
qed

text \<open>C37. \<open>Value.Compare\<close> is antisymmetric on all values, and transitive on values of one type, whatever
  the type is (NULL, integers, reals, text, and blobs, which are compared by their length written
  out), as long as no real among them is a NaN. A NaN is equal to every real, so that 1.0 is at
  most NaN and NaN at most 0.5. Across types the order is not transitive either: 2 is less than
  10, 10 less than the text 1a, and 1a less than 2.\<close>

theorem compare_order:
  "value_Compare G b a = - value_Compare G a b \<and> value_Compare G a b \<in> {-1, 0, 1} \<and>
   (vType a = vType b \<and> vType b = vType c \<and> (vType a = ValReal \<longrightarrow> \<not> f_nan (Real a) \<and> \<not> f_nan (Real b) \<and> \<not> f_nan (Real c)) \<and>
      value_Compare G a b \<le> 0 \<and> value_Compare G b c \<le> 0 \<longrightarrow> value_Compare G a c \<le> 0) \<and>
   (f_nan x \<longrightarrow> value_Compare G (RealValue y) (RealValue x) = 0) \<and>
   value_Compare G (RealValue 0x3FF0000000000000) (RealValue 0x3FE0000000000000) = 1 \<and>
   value_Compare G (IntValue 2) (IntValue 10) = -1 \<and> value_Compare G (IntValue 10) (TextValue ''1a'') = -1 \<and>
   value_Compare G (TextValue ''1a'') (IntValue 2) = -1"
proof -
  have "FormatInt 10 = ''10''" "FormatInt 2 = ''2''" by (simp_all add: FormatInt_def digits.simps char_of_def bit_0)
  moreover have "str_less ''10'' ''1a''" "str_less ''1a'' ''2''" by (simp_all add: str_less_def str_bytes_def)
  ultimately have "value_Compare G (IntValue 10) (TextValue ''1a'') = -1" "value_Compare G (TextValue ''1a'') (IntValue 2) = -1"
    by (simp_all add: value_Compare_def value_String_def val_types is_num_def)
  moreover have "value_Compare G (IntValue 2) (IntValue 10) = -1" by (simp add: compare_ints)
  moreover have "f_less 0x3FE0000000000000 0x3FF0000000000000" by code_simp
  then have "value_Compare G (RealValue 0x3FF0000000000000) (RealValue 0x3FE0000000000000) = 1"
    using f_less_asym [of "0x3FE0000000000000" "0x3FF0000000000000"] by (simp add: compare_reals val_types)
  moreover have "f_nan x \<Longrightarrow> value_Compare G (RealValue y) (RealValue x) = 0"
    by (simp add: compare_reals val_types f_less_def)
  ultimately show ?thesis using compare_range [of G a b] compare_trans [of a b c G]
    by (intro conjI impI) (auto intro: compare_swap simp: same_kind_def)
qed

lemma compare_order_witness:
  "value_Compare plainLib (TextValue ''a'') (TextValue ''c'') \<le> 0"
proof -
  have s: "str_less ''a'' ''b''" "str_less ''b'' ''c''" by (simp_all add: str_less_def str_bytes_def)
  then have "value_Compare plainLib (TextValue ''a'') (TextValue ''b'') \<le> 0"
    "value_Compare plainLib (TextValue ''b'') (TextValue ''c'') \<le> 0"
    by (simp_all add: value_Compare_def value_String_def val_types is_num_def)
  then show ?thesis
    using compare_order [where a = "TextValue ''a''" and b = "TextValue ''b''" and c = "TextValue ''c''" and G = plainLib]
    by (simp add: val_types)
qed

section \<open>The catalogue\<close>

text \<open>C23. Whatever calls change the catalogue, and whether they succeed or not, starting from
  a manager that was loaded from a database: the tables, indexes and views are kept under their
  own lower-cased names, each name once.\<close>

theorem catalogue_names:
  assumes "NewSchemaManager E n p = (r, s)" and "(schema_step E)\<^sup>*\<^sup>* s s'"
  shows "names_ok E s'"
  by (rule names_reach [OF assms(2) names_New [OF assms(1)]])

lemma catalogue_names_witness:
  "\<exists>s s'. snd (NewSchemaManager plainEnv 3 newDB) = s \<and> schema_step plainEnv s s' \<and> names_ok plainEnv s'"
proof -
  obtain r s where s: "NewSchemaManager plainEnv 3 newDB = (r, s)" by fastforce
  obtain q s' where "DropTable plainEnv ''t'' s = (q, s')" by fastforce
  then have st: "schema_step plainEnv s s'" by (rule schema_step.intros(2))
  then have "(schema_step plainEnv)\<^sup>*\<^sup>* s s'" by (rule r_into_rtranclp)
  from catalogue_names [OF s this] s st show ?thesis by auto
qed


text \<open>C24. \<open>CreateTable\<close> of a table that does not exist, on a schema tree that the pager holds and
  whose leaf has room: the new table is found under its name in any letter case, with a fresh
  root page that is an empty tree and an auto-increment counter of at least 1; its encoding is
  in the schema tree under the table's key; every other table and every other entry of the
  schema tree is as before, and no page outside the schema tree changes.\<close>

theorem create_table_stored:
  assumes "schema_tree E t s" and "GetTable E (tName ts) s = None" and "room (sm_pager s) 1"
    and "hPageCount (p_header (sm_pager s)) < InvalidPage" and "0 < treeFuel E"
    and "fits (sm_pager s) t (tableKey (ToLower (lib E) (tName ts))) (marshalTable E
      (ts\<lparr>tRootPage := hPageCount (p_header (sm_pager s)), NextAutoInc := (if NextAutoInc ts = 0 then 1 else NextAutoInc ts)\<rparr>))"
  shows "let j = hPageCount (p_header (sm_pager s));
             ts' = ts\<lparr>tRootPage := j, NextAutoInc := (if NextAutoInc ts = 0 then 1 else NextAutoInc ts)\<rparr>;
             ln = ToLower (lib E) (tName ts)
    in \<exists>s' t'. CreateTable E ts s = (Inr (), s') \<and> schema_tree E t' s' \<and> tree_in (treeFuel E) (TLeaf j []) (sm_pager s') \<and>
       (\<forall>n. GetTable E n s' = (if ToLower (lib E) n = ln then Some ts' else GetTable E n s)) \<and>
       (\<forall>k. lookup t' k = (if k = tableKey ln then Some (marshalTable E ts') else lookup t k)) \<and>
       (\<forall>i d. i \<notin> set (tree_ids t) \<longrightarrow> view (sm_pager s) i = Some d \<longrightarrow> view (sm_pager s') i = Some d)"
  unfolding Let_def
  by (rule CreateTable_ok [OF assms(1-3) refl assms(4,5) refl refl assms(6)]) blast

text \<open>A catalogue without tables on a new database, and a table for it.\<close>

definition emptyCatalogue :: SchemaManager where
  "emptyCatalogue = \<lparr>sm_pager = newDB, sm_root = 1, tables = [], indexes = [], views = []\<rparr>"

definition usersTable :: TableSchema where
  "usersTable = \<lparr>tName = ''Users'',
     Columns = [\<lparr>cName = ''id'', cType = TypeInteger, NotNull = True, PrimaryKey = True, Default = [], cUnique = True, AutoInc = True\<rparr>,
                \<lparr>cName = ''name'', cType = TypeText, NotNull = False, PrimaryKey = False, Default = [], cUnique = False, AutoInc = False\<rparr>],
     tRootPage = 0, Indexes = [], NextAutoInc = 0\<rparr>"

lemma emptyCatalogue_ok:
  "schema_tree plainEnv (TLeaf 1 []) emptyCatalogue" "room (sm_pager emptyCatalogue) 1"
  "p_header (sm_pager emptyCatalogue) = initHeader"
  using newDB_tree newDB_ok(3,7) by (simp_all add: schema_tree_def emptyCatalogue_def plainEnv_def room_def)

lemma lower_users: "ToLower plainLib ''Users'' = ''users''" "ToLower plainLib ''USERS'' = ''users''" "ToLower plainLib ''NAME'' = ''name''"
  by code_simp+

lemma create_table_stored_witness:
  "\<exists>s'. CreateTable plainEnv usersTable emptyCatalogue = (Inr (), s') \<and>
     GetTable plainEnv ''USERS'' s' = Some (usersTable\<lparr>tRootPage := 2, NextAutoInc := 1\<rparr>)"
proof -
  have h: "hPageCount initHeader = 2" "lib plainEnv = plainLib" "tName usersTable = ''Users''" "NextAutoInc usersTable = 0"
    by (simp_all add: initHeader_def plainEnv_def usersTable_def)
  have f: "fits (sm_pager emptyCatalogue) (TLeaf 1 []) (tableKey ''users'') (marshalTable plainEnv (usersTable\<lparr>tRootPage := 2, NextAutoInc := 1\<rparr>))"
    using newDB_fits by (simp add: emptyCatalogue_def tableKey_def plainEnv_def usersTable_def)
  have "GetTable plainEnv (tName usersTable) emptyCatalogue = None" by (simp add: GetTable_def emptyCatalogue_def)
  from create_table_stored [OF emptyCatalogue_ok(1) this emptyCatalogue_ok(2)] f show ?thesis
    by (auto simp: emptyCatalogue_ok(3) h InvalidPage_def lower_users Let_def plainEnv_def)
qed

text \<open>\<open>AddColumn\<close> that succeeds adds exactly the column at the end of the table and leaves the
  other tables as they are, and \<open>DropColumn\<close> that succeeds removes exactly the named column,
  which is not the primary key; both keep the column names of the table pairwise different
  up to letter case.\<close>

theorem alter_columns:
  assumes "names_ok E s" and "cols_ok (lib E) ts" and "GetTable E tn s = Some ts"
  shows "(\<forall>s'. AddColumn E tn col s = (Inr (), s') \<longrightarrow>
      GetTable E tn s' = Some (ts\<lparr>Columns := Columns ts @ [col]\<rparr>) \<and> cols_ok (lib E) (ts\<lparr>Columns := Columns ts @ [col]\<rparr>) \<and>
      (\<forall>n. ToLower (lib E) n \<noteq> ToLower (lib E) tn \<longrightarrow> GetTable E n s' = GetTable E n s)) \<and>
    (\<forall>s'. DropColumn E tn c s = (Inr (), s') \<longrightarrow>
      (\<exists>i. ColumnIndex (lib E) c ts = Some i \<and> \<not> PrimaryKey (Columns ts ! i) \<and>
        GetTable E tn s' = Some (ts\<lparr>Columns := remove_at i (Columns ts)\<rparr>) \<and> cols_ok (lib E) (ts\<lparr>Columns := remove_at i (Columns ts)\<rparr>)))"
proof (intro conjI allI impI)
  fix s' assume r: "AddColumn E tn col s = (Inr (), s')"
  obtain ts0 where a: "GetTable E tn s = Some ts0" "GetTable E tn s' = Some (ts0\<lparr>Columns := Columns ts0 @ [col]\<rparr>)"
    "cols_ok (lib E) ts0 \<Longrightarrow> cols_ok (lib E) (ts0\<lparr>Columns := Columns ts0 @ [col]\<rparr>)"
    "\<And>n. ToLower (lib E) n \<noteq> ToLower (lib E) tn \<Longrightarrow> GetTable E n s' = GetTable E n s"
    by (rule AddColumn_ok [OF assms(1) r]) (rule that, (assumption | blast)+)
  show "GetTable E tn s' = Some (ts\<lparr>Columns := Columns ts @ [col]\<rparr>)" "cols_ok (lib E) (ts\<lparr>Columns := Columns ts @ [col]\<rparr>)"
    using a(1-3) assms(2,3) by simp_all
  show "GetTable E n s' = GetTable E n s" if "ToLower (lib E) n \<noteq> ToLower (lib E) tn" for n by (rule a(4) [OF that])
next
  fix s' assume r: "DropColumn E tn c s = (Inr (), s')"
  show "\<exists>i. ColumnIndex (lib E) c ts = Some i \<and> \<not> PrimaryKey (Columns ts ! i) \<and>
        GetTable E tn s' = Some (ts\<lparr>Columns := remove_at i (Columns ts)\<rparr>) \<and> cols_ok (lib E) (ts\<lparr>Columns := remove_at i (Columns ts)\<rparr>)"
    by (rule DropColumn_ok [OF assms(1) r]) (use assms(2,3) in auto)
qed


definition ageColumn :: Column where
  "ageColumn = \<lparr>cName = ''age'', cType = TypeInteger, NotNull = False, PrimaryKey = False, Default = [], cUnique = False, AutoInc = False\<rparr>"

lemma alter_columns_witness:
  "\<exists>s'. AddColumn plainEnv ''USERS'' ageColumn (emptyCatalogue\<lparr>tables := [(''users'', usersTable)]\<rparr>) = (Inr (), s') \<and>
     GetTable plainEnv ''USERS'' s' = Some (usersTable\<lparr>Columns := Columns usersTable @ [ageColumn]\<rparr>)"
proof -
  let ?ts = "usersTable\<lparr>Columns := Columns usersTable @ [ageColumn]\<rparr>"
  let ?s = "emptyCatalogue\<lparr>tables := [(''users'', usersTable)]\<rparr>" and ?u = "emptyCatalogue\<lparr>tables := [(''users'', ?ts)]\<rparr>"
  have L: "lib plainEnv = plainLib" by (simp add: plainEnv_def)
  have fold: "EqualFold plainLib ''id'' ''age'' = False" "EqualFold plainLib ''name'' ''age'' = False"
    "EqualFold plainLib ''id'' ''name'' = False" by code_simp+
  have g: "names_ok plainEnv ?s" "cols_ok (lib plainEnv) usersTable" "GetTable plainEnv ''USERS'' ?s = Some usersTable"
    using fold
    by (simp_all add: names_ok_def smap_ok_def emptyCatalogue_def usersTable_def L lower_users cols_ok_def GetTable_def)
  have ci: "ColumnIndex plainLib ''age'' usersTable = None"
    using fold by (simp add: ColumnIndex_def usersTable_def upt_rec)
  have "schema_tree plainEnv (TLeaf 1 []) ?u" using emptyCatalogue_ok(1) by (simp add: schema_tree_def emptyCatalogue_def)
  moreover have "fits (sm_pager ?u) (TLeaf 1 []) (tableKey ''users'') (marshalTable plainEnv ?ts)"
    using newDB_fits by (simp add: emptyCatalogue_def tableKey_def plainEnv_def usersTable_def)
  ultimately obtain p where "schemaInsert plainEnv (tableKey ''users'') (marshalTable plainEnv ?ts) ?u = (Inr (), ?u\<lparr>sm_pager := p\<rparr>)"
    by (rule schemaInsert_ok)
  then have r: "AddColumn plainEnv ''USERS'' ageColumn ?s = (Inr (), ?u\<lparr>sm_pager := p\<rparr>)"
    using ci by (simp add: AddColumn_def alterColumns_def Let_def L lower_users bindS_def updateTableSchema_def
      emptyCatalogue_def ageColumn_def) (simp add: usersTable_def lower_users)
  then show ?thesis using alter_columns [OF g] by blast
qed

end
