(* ===== verification/EvalProps.thy ===== *)
theory EvalProps
  imports Builtins CatalogProps
begin

text \<open>
  What the evaluator guarantees: which expressions cannot panic and which do, the truth tables of its
  operators, what the pattern operators decide, and the laws of its string functions.
\<close>

section \<open>Calls that return\<close>

text \<open>A call that does not panic, and gives a value whenever it gives no error; when \<open>sure\<close>, it gives
  no error.\<close>

definition returns :: "bool \<Rightarrow> vres ev \<Rightarrow> bool" where
  "returns sure m \<longleftrightarrow> (\<forall>n. \<exists>p e n'. m n = Some ((p, e), n') \<and> (e = None \<longrightarrow> p \<noteq> None) \<and> (sure \<longrightarrow> e = None))"

named_theorems returns_intros

lemma returns_ret [returns_intros]: "returns b (ret v)"
  by (simp add: returns_def call_defs)

lemma returns_error: "\<not> b \<Longrightarrow> returns b (fails e)" "\<not> b \<Longrightarrow> returns b (giveV (p, Some e))"
  by (simp_all add: returns_def call_defs)

lemma returns_mono: "returns True m \<Longrightarrow> returns b m"
  unfolding returns_def by blast

lemma returns_try [returns_intros]:
  assumes "returns b m" and "\<And>v. returns b (k (Some v))"
  shows "returns b (tryP m k)"
  unfolding returns_def
proof
  fix n
  obtain p e n' where m: "m n = Some ((p, e), n')" "e = None \<longrightarrow> p \<noteq> None" "b \<longrightarrow> e = None"
    using assms(1) [unfolded returns_def, THEN spec, of n] by (elim exE conjE) (rule that)
  show "\<exists>p e n'. tryP m k n = Some ((p, e), n') \<and> (e = None \<longrightarrow> p \<noteq> None) \<and> (b \<longrightarrow> e = None)"
  proof (cases e)
    case None
    then obtain v where "p = Some v" using m(2) by auto
    then show ?thesis using assms(2) [of v] m(1) None by (simp add: tryP_def bindV_def returns_def)
  next
    case (Some x)
    then show ?thesis using m(1,3) by (simp add: tryP_def bindV_def fails_def giveV_def)
  qed
qed

text \<open>An error may be ignored when there is none.\<close>

lemma returns_ignoring:
  assumes "returns True m" and "\<And>v. returns b (k (Some v))"
  shows "returns b (ignoring m k)"
  unfolding returns_def
proof
  fix n
  obtain v n' where "m n = Some ((Some v, None), n')"
    using assms(1) [unfolded returns_def, THEN spec, of n] by auto
  then show "\<exists>p e n'. ignoring m k n = Some ((p, e), n') \<and> (e = None \<longrightarrow> p \<noteq> None) \<and> (b \<longrightarrow> e = None)"
    using assms(2) [of v] by (simp add: ignoring_def bindV_def returns_def)
qed

lemma returns_deref [returns_intros]: "returns b (k v) \<Longrightarrow> returns b (deref (Some v) k)"
  by (simp add: deref_def)

lemma returns_tryV [returns_intros]: "returns b m \<Longrightarrow> (\<And>v. returns b (k v)) \<Longrightarrow> returns b (tryV m k)"
  unfolding tryV_def by (intro returns_intros)

lemma returns_ignoringV: "returns True m \<Longrightarrow> (\<And>v. returns b (k v)) \<Longrightarrow> returns b (ignoringV m k)"
  unfolding ignoringV_def by (intro returns_ignoring returns_intros)

lemma returns_if [returns_intros]: "(c \<Longrightarrow> returns b x) \<Longrightarrow> (\<not> c \<Longrightarrow> returns b y) \<Longrightarrow> returns b (if c then x else y)"
  by simp

lemma returns_option [returns_intros]:
  "(z = None \<Longrightarrow> returns b x) \<Longrightarrow> (\<And>u. z = Some u \<Longrightarrow> returns b (y u)) \<Longrightarrow> returns b (case z of None \<Rightarrow> x | Some u \<Rightarrow> y u)"
  by (cases z) simp_all

lemma returns_ptr [returns_intros]: "returns b (ptr (Some v))"
  by (simp add: returns_def call_defs)

lemma returns_ask [returns_intros]: "(\<And>x. returns b (k x)) \<Longrightarrow> returns b (bindV (ask f) k)"
  by (simp add: returns_def bindV_def ask_def)

text \<open>Indices and slices within their bounds.\<close>

lemma returns_index: "0 \<le> i \<Longrightarrow> i < int (length xs) \<Longrightarrow> (\<And>x. returns b (k x)) \<Longrightarrow> returns b (indexV xs i k)"
  by (simp add: indexV_def)

lemma returns_slice:
  "0 \<le> lo \<Longrightarrow> lo \<le> hi \<Longrightarrow> hi \<le> int (length xs) \<Longrightarrow> (\<And>ys. returns b (k ys)) \<Longrightarrow> returns b (sliceV xs lo hi k)"
  by (simp add: sliceV_def)

section \<open>Operators return\<close>

lemma returns_unary: "returns b m \<Longrightarrow> returns b (evalUnary E op m)"
  unfolding evalUnary_def by (intro returns_intros)

lemma returns_arith:
  "(vType r = ValInteger \<Longrightarrow> iop (Integer l) (Integer r) \<noteq> None) \<Longrightarrow> returns b (arith G fop iop l r)"
  by (auto simp: arith_def intro!: returns_intros)

lemma returns_binaryValue: "isOperator op \<or> \<not> b \<Longrightarrow> returns b (binaryValue E op l r)"
  unfolding binaryValue_def Let_def
  by (intro returns_intros returns_arith returns_error) (auto simp: int_div_def int_mod_def isOperator_def)

definition known_op :: "string \<Rightarrow> bool" where
  "known_op op \<longleftrightarrow> isOperator op \<or> isComparison op \<or> op = ''AND'' \<or> op = ''OR''"

lemma returns_binaryOp: "isOperator op \<or> isComparison op \<or> \<not> b \<Longrightarrow> returns b (binaryOp E op l (Some r))"
  unfolding binaryOp_def by (intro returns_intros returns_binaryValue returns_error) auto

lemma returns_binary: "returns b l \<Longrightarrow> returns b r \<Longrightarrow> known_op op \<or> \<not> b \<Longrightarrow> returns b (evalBinary E op l r)"
  unfolding evalBinary_def by (intro returns_intros returns_binaryOp) (auto simp: known_op_def)

lemma returns_inList: "(\<And>m. m \<in> set ms \<Longrightarrow> returns b m) \<Longrightarrow> returns b (inList G v neg ms)"
  by (induction ms) (auto intro!: returns_intros)

lemma returns_in: "returns b m \<Longrightarrow> (\<And>x. x \<in> set ms \<Longrightarrow> returns b x) \<Longrightarrow> returns b (evalIn E m ms neg)"
  unfolding evalIn_def by (intro returns_intros returns_inList)

lemma returns_like:
  assumes "returns b m" and "returns b p" and "\<And>x. esc = Some x \<Longrightarrow> returns b x"
  shows "returns b (evalLike E m p esc neg)"
  unfolding evalLike_def Let_def using assms
  by (cases esc) (simp_all add: returns_intros)

lemma returns_glob: "returns b m \<Longrightarrow> returns b p \<Longrightarrow> returns b (evalGlob E m p neg)"
  unfolding evalGlob_def Let_def by (intro returns_intros)

lemma returns_between: "returns b m \<Longrightarrow> returns b l \<Longrightarrow> returns b h \<Longrightarrow> returns b (evalBetween E m l h neg)"
  unfolding evalBetween_def Let_def by (intro returns_intros)

lemma returns_caseLoop:
  assumes "\<And>w. w \<in> set ws \<Longrightarrow> returns b (fst w) \<and> returns b (snd w)" and "\<And>x. els = Some x \<Longrightarrow> returns b x"
  shows "returns b (caseLoop G base ws els)"
  using assms
proof (induction ws)
  case Nil
  then show ?case by (cases els) (simp_all add: returns_intros)
next
  case (Cons w ws)
  then show ?case by (cases base) (simp_all add: returns_intros)
qed

lemma returns_case:
  assumes "\<And>x. base = Some x \<Longrightarrow> returns b x" and "\<And>w. w \<in> set ws \<Longrightarrow> returns b (fst w) \<and> returns b (snd w)"
    and "\<And>x. els = Some x \<Longrightarrow> returns b x"
  shows "returns b (evalCase E base ws els)"
proof -
  have "returns b (caseLoop (evLib E) p ws els)" for p using assms(2,3) by (rule returns_caseLoop)
  then show ?thesis using assms(1) unfolding evalCase_def by (cases base) (simp_all add: returns_intros)
qed

lemma returns_cast: "returns False m \<Longrightarrow> returns False (evalCast E m ty)"
  unfolding evalCast_def Let_def
  by (rule returns_try) (simp_all add: deref_def returns_intros returns_error split: sum.split)

lemma returns_isNull: "returns b m \<Longrightarrow> returns b (evalIsNull m neg)"
  unfolding evalIsNull_def by (intro returns_intros)

section \<open>Names\<close>

text \<open>A context without nil: every row is a row of values.\<close>

definition ctx_ok :: "EvalContext \<Rightarrow> bool" where
  "ctx_ok ctx \<longleftrightarrow> (\<forall>row. cxRow ctx = Some row \<longrightarrow> None \<notin> set row) \<and>
     (\<forall>tabs b. cxTables ctx = Some tabs \<longrightarrow> b \<in> snd ` set tabs \<longrightarrow> None \<notin> set (tbRow b))"

lemma nth_not_None: "None \<notin> set xs \<Longrightarrow> i < length xs \<Longrightarrow> \<exists>v. xs ! i = Some v"
  by (metis not_None_eq nth_mem)

lemma firstBinding_value:
  assumes "\<forall>b \<in> snd ` set tabs. None \<notin> set (tbRow b)"
  shows "\<exists>v. firstBinding G name tabs ks = Some v"
proof (induction ks)
  case (Cons k ks)
  have "\<exists>v. tbRow b ! i = Some v" if "map_of tabs k = Some b" "i < length (tbRow b)" for b i
    using assms that by (intro nth_not_None) (force dest: map_of_SomeD)+
  with Cons show ?case by (auto split: option.split)
qed simp

lemma returns_ident:
  assumes "ctx_ok ctx"
  shows "returns b (resolveIdent E ctx table name)"
proof -
  have col: "returns b (resolveColumn E ctx row name)" if r: "cxRow ctx = Some row" for row
  proof -
    have row: "None \<notin> set row" using assms r by (simp add: ctx_ok_def)
    have "returns b (ptr (row ! i))" if "i < length row" for i
      using nth_not_None [OF row that] by (auto intro: returns_intros)
    moreover have "returns b (bindV (ask f) (\<lambda>ks. ptr (firstBinding (evLib E) name tabs ks)))" if "cxTables ctx = Some tabs" for tabs f
    proof (rule returns_ask)
      fix ks
      have "\<forall>b \<in> snd ` set tabs. None \<notin> set (tbRow b)" using assms that by (simp add: ctx_ok_def)
      then obtain v where "firstBinding (evLib E) name tabs ks = Some v" using firstBinding_value by blast
      then show "returns b (ptr (firstBinding (evLib E) name tabs ks))" by (simp add: returns_intros)
    qed
    ultimately show ?thesis
      unfolding resolveColumn_def by (auto intro: returns_ret split: option.split)
  qed
  have tab: "returns b (ptr (tbRow u ! i))"
    if t: "cxTables ctx = Some tabs" "map_of tabs k = Some u" "i < length (tbRow u)" for tabs k u i
  proof -
    have "None \<notin> set (tbRow u)" using assms t(1) map_of_SomeD [OF t(2)] by (force simp: ctx_ok_def)
    from nth_not_None [OF this t(3)] show ?thesis by (auto intro: returns_intros)
  qed
  show ?thesis
    unfolding resolveIdent_def Let_def
    by (auto intro!: returns_ret col tab split: option.split simp: bind_eq_Some_conv split: if_splits)
qed

section \<open>Functions that return\<close>

text \<open>The functions that give a constant, or what the clock and the random numbers give, and evaluate
  no argument.\<close>

definition argless :: "string list" where
  "argless = [''COUNT'', ''SUM'', ''TOTAL'', ''AVG'', ''GROUP_CONCAT'', ''PI'', ''RANDOM'', ''JULIANDAY'', ''UNIXEPOCH'',
     ''SQLITE_VERSION'', ''SQLGO_VERSION'', ''LAST_INSERT_ROWID'', ''CHANGES'', ''TOTAL_CHANGES'', ''UUID'', ''GEN_RANDOM_UUID'',
     ''CURRENT_TIMESTAMP'', ''NOW'', ''CURRENT_DATE'', ''CURRENT_TIME'', ''STDDEV'', ''STDDEV_POP'', ''STDDEV_SAMP'',
     ''VARIANCE'', ''VAR_POP'', ''VAR_SAMP'', ''BIT_AND'', ''BIT_OR'', ''BIT_XOR'']"

text \<open>The functions that pass every error of an argument on, and those that use an argument without
  looking at its error but take nil for false. The functions of the second list pass on only the error of their first
  argument, and \<open>TYPEOF\<close> has an error of its own for a value of no type.\<close>

definition careful :: "string list" where
  "careful = [''UPPER'', ''LOWER'', ''LENGTH'', ''ABS'', ''COALESCE'', ''IFNULL'', ''NVL'', ''NULLIF'', ''IIF'',
     ''SUBSTR'', ''SUBSTRING'']"

definition careful_first :: "string list" where
  "careful_first = [''TRIM'', ''LTRIM'', ''RTRIM'', ''ROUND'', ''MAX'', ''MIN'']"

text \<open>The functions that drop the error of an argument and can use every value. Not among them are
  \<open>DATE\<close>, which slices its argument without a look at its length, \<open>LPAD\<close> and \<open>RPAD\<close>, which slice with a
  negative width, and \<open>REPEAT\<close>, \<open>SPACE\<close>, \<open>RANDOMBLOB\<close> and \<open>ZEROBLOB\<close>, which take any number for a length.\<close>

definition text_fns :: "string list" where
  "text_fns = [''TRIM'', ''LTRIM'', ''RTRIM'', ''REPLACE'', ''HEX'', ''UNHEX'', ''CHAR'', ''UNICODE'', ''INSTR'', ''QUOTE'',
     ''PRINTF'', ''FORMAT'', ''TIME'', ''DATETIME'', ''STRFTIME'', ''CONCAT_WS'', ''CONCAT'', ''REVERSE'', ''CHAR_LENGTH'',
     ''CHARACTER_LENGTH'', ''OCTET_LENGTH'', ''POSITION'', ''REGEXP_LIKE'', ''REGEXP_MATCHES'', ''REGEXP_REPLACE'',
     ''REGEXP_SUBSTR'', ''TO_CHAR'', ''BIT_LENGTH'', ''INITCAP'', ''SPLIT_PART'', ''ARRAY_LENGTH'', ''CARDINALITY'',
     ''STRING'', ''TEXT'', ''STR'']"

definition number_fns :: "string list" where
  "number_fns = [''ROUND'', ''FLOOR'', ''CEIL'', ''CEILING'', ''MAX'', ''MIN'', ''SIGN'', ''POW'', ''POWER'', ''SQRT'', ''LOG'', ''LN'',
     ''LOG2'', ''LOG10'', ''EXP'', ''SIN'', ''COS'', ''TAN'', ''ASIN'', ''ACOS'', ''ATAN'', ''SINH'', ''COSH'', ''TANH'', ''ATAN2'',
     ''DEGREES'', ''RADIANS'', ''MOD'', ''ISNULL'', ''NOTNULL'', ''IFNOTNULL'', ''NOT'', ''GREATEST'', ''LEAST'',
     ''TRUNCATE'', ''TRUNC'', ''BOOL'', ''BOOLEAN'', ''INT'', ''INTEGER'', ''FLOAT'', ''REAL'', ''DOUBLE'']"

lemmas switch_defs = fnCase_def fnChoice_def fnSubstr_def fnTrim_def fnReplace_def fnRound_def fnChars_def
  fnRandom_def fnDate_def fnExtreme_def fnMath_def fnConcat_def fnLength_def fnRegexp_def fnNow_def fnWords_def

lemma argAt_less [simp]: "i < length as \<Longrightarrow> argAt as i = as ! i"
  by (simp add: argAt_def)

lemma returns_require: "(length as \<ge> n \<Longrightarrow> returns b k) \<Longrightarrow> returns b (requireArg as n k)"
  by (simp add: requireArg_def returns_intros)

lemma returns_argAt: "i < length as \<Longrightarrow> (\<And>m. m \<in> set as \<Longrightarrow> returns b m) \<Longrightarrow> returns b (argAt as i)"
  by simp

lemma returns_arg: "returns b (argAt as i) \<Longrightarrow> (\<And>v. returns b (k v)) \<Longrightarrow> returns b (arg as i k)"
  unfolding arg_def by (intro returns_intros)

lemma returns_arg': "returns True (argAt as i) \<Longrightarrow> (\<And>v. returns b (k v)) \<Longrightarrow> returns b (arg' as i k)"
  unfolding arg'_def by (rule returns_ignoringV)

lemma returns_nullOr: "returns b k \<Longrightarrow> returns b (nullOr v k)"
  by (simp add: nullOr_def returns_intros)

lemma returns_texts: "returns b (textV s)" "returns b (realV f)" "returns b (intV i)"
  by (simp_all add: textV_def realV_def intV_def returns_intros)

lemma returns_nowText: "returns b (nowText E layout)"
  unfolding nowText_def by (intro returns_intros returns_texts)

lemma returns_coalesce: "(\<And>m. m \<in> set as \<Longrightarrow> returns b m) \<Longrightarrow> returns b (fnCoalesce as)"
  by (induction as) (auto intro!: returns_intros)

lemma returns_draw: "(\<And>bs. returns b (k bs)) \<Longrightarrow> returns b (bindV (drawBytes E n) k)"
proof (induction n arbitrary: k)
  case 0
  then show ?case by (simp add: bindV_def giveV_def returns_def)
next
  case (Suc n)
  have "bindV (drawBytes E (Suc n)) k = bindV (ask (Intn256 E)) (\<lambda>x. bindV (drawBytes E n) (\<lambda>bs. k (x # bs)))"
    by (rule ext) (simp add: bindV_def giveV_def ask_def split: option.split)
  then show ?case using Suc.IH Suc.prems by (auto intro!: returns_ask)
qed

text \<open>The loops over arguments that give values.\<close>

lemma returns_charLoop: "(\<And>m. m \<in> set as \<Longrightarrow> returns True m) \<Longrightarrow> returns b (charLoop sb as)"
  by (induction as arbitrary: sb) (auto intro!: returns_ignoringV returns_texts)

lemma returns_joinArgs: "(\<And>m. m \<in> set as \<Longrightarrow> returns True m) \<Longrightarrow> returns b (joinArgs E sep parts as)"
proof (induction as arbitrary: parts)
  case (Cons m ms)
  then have "returns b (joinArgs E sep ps ms)" for ps by simp
  with Cons.prems show ?case unfolding joinArgs.simps by (intro returns_ignoringV) auto
qed (simp add: returns_texts)

lemma returns_concatArgs: "(\<And>m. m \<in> set as \<Longrightarrow> returns True m) \<Longrightarrow> returns b (concatArgs E sb as)"
  by (induction as arbitrary: sb) (auto intro!: returns_ignoringV returns_texts returns_nullOr)

lemma returns_extreme: "(\<And>m. m \<in> set as \<Longrightarrow> returns True m) \<Longrightarrow> returns b (extreme G better (Some r) as)"
  by (induction as arbitrary: r) (auto intro!: returns_ignoringV returns_intros)

lemma returns_extremeOf: "(\<And>m. m \<in> set as \<Longrightarrow> returns True m) \<Longrightarrow> returns b (extremeOf E better as)"
  unfolding extremeOf_def by (cases as) (auto intro!: returns_intros returns_ignoring returns_extreme)

lemma returns_printfSpec: "(\<And>s. returns b (k s)) \<Longrightarrow> returns b (printfSpec E c (Some v) k)"
  by (simp add: printfSpec_def deref_def)

lemma returns_printf: "(\<And>m. m \<in> set as \<Longrightarrow> returns True m) \<Longrightarrow> returns b (sqlPrintf E sb cs as)"
proof (induction E sb cs as rule: sqlPrintf.induct)
  case (2 E sb c cs as)
  show ?case
  proof (cases "c = CHR ''%''")
    case False
    with 2 show ?thesis by simp
  next
    case c: True
    show ?thesis
    proof (cases cs)
      case Nil
      then show ?thesis using c by (simp add: returns_texts)
    next
      case (Cons d ds)
      show ?thesis
      proof (cases "d = CHR ''%'' \<or> as = []")
        case True
        then show ?thesis using c Cons 2 by (auto intro!: returns_printfSpec)
      next
        case False
        then obtain m ms where as: "as = m # ms" by (cases as) auto
        have "returns b (sqlPrintf E (sb @ s) ds ms)" for s
          using 2(4) [of d ds m ms s] c Cons False as 2(5) by simp
        then show ?thesis using c Cons False as 2(5)
          by (auto intro!: returns_ignoring returns_printfSpec)
      qed
    qed
  qed
qed (simp add: returns_texts)

lemma Index_le: "Index s p = Some i \<Longrightarrow> i \<le> length s"
proof (induction s arbitrary: i)
  case Nil
  then show ?case using Index.simps [of "[]" p] by (simp split: if_splits)
next
  case (Cons c s)
  then show ?case using Index.simps [of "c # s" p] by (auto split: if_splits)
qed

lemmas returns_fn = returns_require returns_arg returns_nullOr returns_texts returns_nowText

lemma returns_careful:
  assumes as: "\<And>m. m \<in> set as \<Longrightarrow> returns b m"
    and fn: "ToUpper (evLib E) name \<in> set careful \<or> ToUpper (evLib E) name \<in> set careful_first \<and> length as \<le> 1"
  shows "returns b (evalFunc E name as)"
proof -
  have nth: "returns b (argAt as i)" "returns b (as ! i)" if "i < length as" for i using as that by simp_all
  have co: "returns b (fnCoalesce as)" by (rule returns_coalesce) (rule as)
  have st: "0 \<le> substrStart n w" "st \<le> substrEnd n st w" "st < int n \<Longrightarrow> substrEnd n st w \<le> int n" for n st w
    by (simp_all add: substrStart_def substrEnd_def)
  from fn show ?thesis
  proof
    assume "ToUpper (evLib E) name \<in> set careful"
    then show ?thesis
      unfolding careful_def list.set
      by (elim insertE emptyE; simp add: evalFunc_def builtins_def fnCase_def fnChoice_def fnSubstr_def Let_def;
          intro returns_fn returns_intros returns_slice nth co st; auto simp: st)
  next
    assume c: "ToUpper (evLib E) name \<in> set careful_first \<and> length as \<le> 1"
    then have l: "as = [] \<or> length as = 1" by (cases as) auto
    have x: "extremeOf E better [] = ret NullValue" for better by (simp add: extremeOf_def)
    show ?thesis
      using c [THEN conjunct1] l unfolding careful_first_def list.set
      by (elim insertE emptyE disjE; simp add: evalFunc_def builtins_def switch_defs scaled_def x Let_def;
          intro returns_fn returns_intros nth; auto)
  qed
qed

lemma returns_argless:
  assumes "ToUpper (evLib E) name \<in> set argless"
  shows "returns b (evalFunc E name as)"
  using assms unfolding argless_def list.set
  by (elim insertE emptyE; simp add: evalFunc_def builtins_def switch_defs mathTable_def;
      intro returns_fn returns_intros returns_draw)

lemma returns_text_fn:
  assumes as: "\<And>m. m \<in> set as \<Longrightarrow> returns True m" and fn: "ToUpper (evLib E) name \<in> set text_fns"
  shows "returns b (evalFunc E name as)"
proof -
  have nth: "returns c (argAt as i)" "returns c (as ! i)" if "i < length as" for i c
    using as that returns_mono [of "as ! i"] by simp_all
  have tl: "returns True m" if "m \<in> set (tl as)" for m using as that by (cases as) auto
  note loops = returns_charLoop [of as, OF as] returns_concatArgs [of as, OF as] returns_joinArgs [of "tl as", OF tl]
    returns_printf [of "tl as", OF tl]
  show ?thesis
    using fn unfolding text_fns_def list.set
    by (elim insertE emptyE; simp add: evalFunc_def builtins_def switch_defs mathTable_def scaled_def dateOr_def Let_def;
        intro conjI impI returns_fn returns_arg' returns_ignoring returns_intros returns_slice returns_index nth loops;
        auto simp: Index_le)
qed

lemma returns_number_fn:
  assumes as: "\<And>m. m \<in> set as \<Longrightarrow> returns True m" and fn: "ToUpper (evLib E) name \<in> set number_fns"
  shows "returns b (evalFunc E name as)"
proof -
  have nth: "returns c (argAt as i)" "returns c (as ! i)" if "i < length as" for i c
    using as that returns_mono [of "as ! i"] by simp_all
  note loops = returns_extremeOf [of as, OF as]
  show ?thesis
    using fn unfolding number_fns_def list.set
    by (elim insertE emptyE; simp add: evalFunc_def builtins_def switch_defs mathTable_def scaled_def dateOr_def Let_def;
        intro conjI impI returns_fn returns_arg' returns_ignoring returns_intros returns_slice returns_index nth loops;
        auto simp: Index_le)
qed

text \<open>The names of the switch, case by case. Any other name is an error.\<close>

definition fnNames :: "string list" where
  "fnNames =
     [''UPPER'', ''LOWER'', ''LENGTH'', ''ABS''] @
     [''COALESCE'', ''IFNULL'', ''NVL'', ''NULLIF'', ''IIF''] @
     [''SUBSTR'', ''SUBSTRING''] @
     [''TRIM'', ''LTRIM'', ''RTRIM''] @
     [''REPLACE''] @
     [''ROUND'', ''FLOOR'', ''CEIL'', ''CEILING'', ''TYPEOF'', ''HEX'', ''UNHEX''] @
     [''CHAR'', ''UNICODE'', ''INSTR'', ''QUOTE''] @
     [''PRINTF'', ''FORMAT'', ''RANDOM'', ''RANDOMBLOB'', ''ZEROBLOB''] @
     [''DATE'', ''TIME'', ''DATETIME'', ''JULIANDAY'', ''UNIXEPOCH'', ''STRFTIME'', ''SQLITE_VERSION'',
       ''SQLGO_VERSION'', ''LAST_INSERT_ROWID'', ''CHANGES'', ''TOTAL_CHANGES''] @
     [''MAX'', ''MIN'', ''COUNT'', ''SUM'', ''TOTAL'', ''AVG'', ''GROUP_CONCAT'', ''SIGN''] @
     [''POW'', ''POWER'', ''SQRT'', ''LOG'', ''LN'', ''LOG2'', ''LOG10'', ''EXP'', ''SIN'', ''COS'',
       ''TAN'', ''ASIN'', ''ACOS'', ''ATAN'', ''SINH'', ''COSH'', ''TANH'', ''ATAN2'', ''PI'',
       ''DEGREES'', ''RADIANS'', ''MOD''] @
     [''CONCAT_WS'', ''CONCAT'', ''LPAD'', ''RPAD'', ''REPEAT'', ''REVERSE'', ''SPACE''] @
     [''CHAR_LENGTH'', ''CHARACTER_LENGTH'', ''OCTET_LENGTH'', ''POSITION'', ''ISNULL'', ''NOTNULL'',
       ''IFNOTNULL'', ''NOT''] @
     [''REGEXP_LIKE'', ''REGEXP_MATCHES'', ''REGEXP_REPLACE'', ''REGEXP_SUBSTR''] @
     [''UUID'', ''GEN_RANDOM_UUID'', ''CURRENT_TIMESTAMP'', ''NOW'', ''CURRENT_DATE'', ''CURRENT_TIME'',
       ''TO_CHAR'', ''GREATEST'', ''LEAST''] @
     [''TRUNCATE'', ''TRUNC'', ''BIT_LENGTH'', ''INITCAP'', ''SPLIT_PART'', ''ARRAY_LENGTH'',
       ''CARDINALITY'', ''BOOL'', ''BOOLEAN'', ''INT'', ''INTEGER'', ''FLOAT'', ''REAL'', ''DOUBLE'',
       ''STRING'', ''TEXT'', ''STR'', ''STDDEV'', ''STDDEV_POP'', ''STDDEV_SAMP'', ''VARIANCE'',
       ''VAR_POP'', ''VAR_SAMP'', ''BIT_AND'', ''BIT_OR'', ''BIT_XOR'']"

lemma switch_names:
  "fn \<notin> set [''UPPER'', ''LOWER'', ''LENGTH'', ''ABS''] \<Longrightarrow> fnCase E fn as = None"
  "fn \<notin> set [''COALESCE'', ''IFNULL'', ''NVL'', ''NULLIF'', ''IIF''] \<Longrightarrow> fnChoice E fn as = None"
  "fn \<notin> set [''SUBSTR'', ''SUBSTRING''] \<Longrightarrow> fnSubstr E fn as = None"
  "fn \<notin> set [''TRIM'', ''LTRIM'', ''RTRIM''] \<Longrightarrow> fnTrim E fn as = None"
  "fn \<notin> set [''REPLACE''] \<Longrightarrow> fnReplace E fn as = None"
  "fn \<notin> set [''ROUND'', ''FLOOR'', ''CEIL'', ''CEILING'', ''TYPEOF'', ''HEX'', ''UNHEX''] \<Longrightarrow> fnRound E fn as = None"
  "fn \<notin> set [''CHAR'', ''UNICODE'', ''INSTR'', ''QUOTE''] \<Longrightarrow> fnChars E fn as = None"
  "fn \<notin> set [''PRINTF'', ''FORMAT'', ''RANDOM'', ''RANDOMBLOB'', ''ZEROBLOB''] \<Longrightarrow> fnRandom E fn as = None"
  "fn \<notin> set [''DATE'', ''TIME'', ''DATETIME'', ''JULIANDAY'', ''UNIXEPOCH'', ''STRFTIME'', ''SQLITE_VERSION'',
       ''SQLGO_VERSION'', ''LAST_INSERT_ROWID'', ''CHANGES'', ''TOTAL_CHANGES''] \<Longrightarrow> fnDate E fn as = None"
  "fn \<notin> set [''MAX'', ''MIN'', ''COUNT'', ''SUM'', ''TOTAL'', ''AVG'', ''GROUP_CONCAT'', ''SIGN''] \<Longrightarrow> fnExtreme E fn as = None"
  "fn \<notin> set [''POW'', ''POWER'', ''SQRT'', ''LOG'', ''LN'', ''LOG2'', ''LOG10'', ''EXP'', ''SIN'', ''COS'',
       ''TAN'', ''ASIN'', ''ACOS'', ''ATAN'', ''SINH'', ''COSH'', ''TANH'', ''ATAN2'', ''PI'',
       ''DEGREES'', ''RADIANS'', ''MOD''] \<Longrightarrow> fnMath E fn as = None"
  "fn \<notin> set [''CONCAT_WS'', ''CONCAT'', ''LPAD'', ''RPAD'', ''REPEAT'', ''REVERSE'', ''SPACE''] \<Longrightarrow> fnConcat E fn as = None"
  "fn \<notin> set [''CHAR_LENGTH'', ''CHARACTER_LENGTH'', ''OCTET_LENGTH'', ''POSITION'', ''ISNULL'', ''NOTNULL'',
       ''IFNOTNULL'', ''NOT''] \<Longrightarrow> fnLength E fn as = None"
  "fn \<notin> set [''REGEXP_LIKE'', ''REGEXP_MATCHES'', ''REGEXP_REPLACE'', ''REGEXP_SUBSTR''] \<Longrightarrow> fnRegexp E fn as = None"
  "fn \<notin> set [''UUID'', ''GEN_RANDOM_UUID'', ''CURRENT_TIMESTAMP'', ''NOW'', ''CURRENT_DATE'', ''CURRENT_TIME'',
       ''TO_CHAR'', ''GREATEST'', ''LEAST''] \<Longrightarrow> fnNow E fn as = None"
  "fn \<notin> set [''TRUNCATE'', ''TRUNC'', ''BIT_LENGTH'', ''INITCAP'', ''SPLIT_PART'', ''ARRAY_LENGTH'',
       ''CARDINALITY'', ''BOOL'', ''BOOLEAN'', ''INT'', ''INTEGER'', ''FLOAT'', ''REAL'', ''DOUBLE'',
       ''STRING'', ''TEXT'', ''STR'', ''STDDEV'', ''STDDEV_POP'', ''STDDEV_SAMP'', ''VARIANCE'',
       ''VAR_POP'', ''VAR_SAMP'', ''BIT_AND'', ''BIT_OR'', ''BIT_XOR''] \<Longrightarrow> fnWords E fn as = None"
  subgoal by (simp add: fnCase_def)
  subgoal by (simp add: fnChoice_def)
  subgoal by (simp add: fnSubstr_def)
  subgoal by (simp add: fnTrim_def)
  subgoal by (simp add: fnReplace_def)
  subgoal by (simp add: fnRound_def)
  subgoal by (simp add: fnChars_def)
  subgoal by (simp add: fnRandom_def)
  subgoal by (simp add: fnDate_def)
  subgoal by (simp add: fnExtreme_def)
  subgoal by (simp add: fnMath_def mathTable_def)
  subgoal by (simp add: fnConcat_def)
  subgoal by (simp add: fnLength_def)
  subgoal by (simp add: fnRegexp_def)
  subgoal by (simp add: fnNow_def)
  subgoal by (simp add: fnWords_def)
  done

lemma returns_unknown:
  assumes "ToUpper (evLib E) name \<notin> set fnNames"
  shows "returns False (evalFunc E name as)"
proof -
  have "evalFunc E name as = giveV (Some NullValue, Some (ErrUnknown name))"
    using assms unfolding fnNames_def set_append Un_iff de_Morgan_disj
    by (elim conjE, simp only: evalFunc_def builtins_def list.map firstSome.simps switch_names option.case)
  then show ?thesis by (simp add: returns_error)
qed

lemma returns_typeof:
  assumes as: "\<And>m. m \<in> set as \<Longrightarrow> returns False m" and fn: "ToUpper (evLib E) name = ''TYPEOF''"
  shows "returns False (evalFunc E name as)"
proof -
  have nth: "returns False (argAt as i)" if "i < length as" for i using as that by simp
  show ?thesis
    by (simp add: evalFunc_def builtins_def switch_defs fn; intro returns_fn returns_intros returns_error nth; auto)
qed

section \<open>Expressions that return\<close>

text \<open>When the call of a function returns: \<open>sure\<close> and \<open>ok\<close> tell whether all its arguments give values, or
  return.\<close>

definition call_returns :: "bool \<Rightarrow> evalEnv \<Rightarrow> string \<Rightarrow> nat \<Rightarrow> bool \<Rightarrow> bool \<Rightarrow> bool" where
  "call_returns b E name n ok sure \<longleftrightarrow>
     (let fn = ToUpper (evLib E) name
      in fn \<in> set argless \<or> (fn \<in> set careful \<or> fn \<in> set careful_first \<and> n \<le> 1) \<and> ok \<or> (fn \<in> set text_fns \<or> fn \<in> set number_fns) \<and> sure \<or>
         \<not> b \<and> (fn = ''TYPEOF'' \<and> ok \<or> fn \<notin> set fnNames))"

lemma returns_call:
  assumes "call_returns b E name (length as) ok sure"
    and "ok \<Longrightarrow> \<forall>m \<in> set as. returns b m" and "sure \<Longrightarrow> \<forall>m \<in> set as. returns True m"
  shows "returns b (evalFunc E name as)"
proof -
  let ?fn = "ToUpper (evLib E) name"
  from assms(1) consider "?fn \<in> set argless" | "?fn \<in> set careful \<or> ?fn \<in> set careful_first \<and> length as \<le> 1" "ok"
    | "?fn \<in> set text_fns \<or> ?fn \<in> set number_fns" "sure" | "\<not> b" "?fn = ''TYPEOF''" "ok" | "\<not> b" "?fn \<notin> set fnNames"
    unfolding call_returns_def Let_def by blast
  then show ?thesis
  proof cases
    case 1
    then show ?thesis by (rule returns_argless)
  next
    case 2
    show ?thesis by (rule returns_careful [OF _ 2(1)]) (use assms(2) 2(2) in blast)
  next
    case 3
    have "\<And>m. m \<in> set as \<Longrightarrow> returns True m" using assms(3) 3(2) by blast
    with 3(1) returns_text_fn [of as E name b] returns_number_fn [of as E name b] show ?thesis by blast
  next
    case 4
    then have "returns False (evalFunc E name as)" by (intro returns_typeof) (use assms(2) in auto)
    with 4(1) show ?thesis by simp
  next
    case 5
    with returns_unknown [of E name as] show ?thesis by simp
  qed
qed

text \<open>The expressions that return, and that give a value when \<open>b\<close>.\<close>

fun expr_returns :: "bool \<Rightarrow> evalEnv \<Rightarrow> Expr \<Rightarrow> bool" where
  "expr_returns b E (UnaryExpr op e) = expr_returns b E e"
| "expr_returns b E (BinaryExpr op l r) = (expr_returns b E l \<and> expr_returns b E r \<and> (known_op op \<or> \<not> b))"
| "expr_returns b E (IsNullExpr e neg) = expr_returns b E e"
| "expr_returns b E (InExpr e es s neg) = (expr_returns b E e \<and> (\<forall>x \<in> set es. expr_returns b E x))"
| "expr_returns b E (LikeExpr e p esc neg) =
     (expr_returns b E e \<and> expr_returns b E p \<and> (case esc of None \<Rightarrow> True | Some x \<Rightarrow> expr_returns b E x))"
| "expr_returns b E (GlobExpr e p neg) = (expr_returns b E e \<and> expr_returns b E p)"
| "expr_returns b E (BetweenExpr e l h neg) = (expr_returns b E e \<and> expr_returns b E l \<and> expr_returns b E h)"
| "expr_returns b E (FuncCallExpr name es d s) =
     call_returns b E name (length es) (\<forall>x \<in> set es. expr_returns b E x) (\<forall>x \<in> set es. expr_returns True E x)"
| "expr_returns b E (CaseExpr base ws els) =
     ((case base of None \<Rightarrow> True | Some x \<Rightarrow> expr_returns b E x) \<and>
      (\<forall>w \<in> set ws. expr_returns b E (fst w) \<and> expr_returns b E (snd w)) \<and>
      (case els of None \<Rightarrow> True | Some x \<Rightarrow> expr_returns b E x))"
| "expr_returns b E (CastExpr e ty) = (\<not> b \<and> expr_returns b E e)"
| "expr_returns b E (RowValueExpr es) = (\<forall>x \<in> set es. expr_returns b E x)"
| "expr_returns b E _ = True"

lemma EvalExpr_returns:
  assumes "ctx_ok ctx" and "expr_returns b E e"
  shows "returns b (EvalExpr E ctx e)"
  using assms
proof (induction E ctx e arbitrary: b rule: EvalExpr.induct)
  case (7 E ctx e es s isNot)
  then show ?case by (auto intro!: returns_in)
next
  case (8 E ctx e p esc isNot)
  then show ?case by (auto intro!: returns_like)
next
  case (11 E ctx name es u v)
  from 11(3) show ?case
    by (simp, elim returns_call [where as = "map (\<lambda>x. EvalExpr E ctx x) es", simplified]) (use 11(1,2) in auto)
next
  case (12 E ctx base ws els)
  then show ?case by (simp, intro returns_case) (auto simp: image_iff)
next
  case (13 E ctx e ty)
  then show ?case by (cases b) (auto intro!: returns_cast)
next
  case (16 E ctx es)
  then show ?case by (cases es) (simp_all add: returns_intros)
qed (simp_all add: returns_intros returns_ident returns_unary returns_binary returns_isNull returns_glob
      returns_between)


section \<open>A concrete outside world\<close>

definition plainEval :: evalEnv where
  "plainEval = \<lparr>evLib = plainLib, evUni = \<lparr>uniSpace = (\<lambda>_. False), uniDigit = (\<lambda>_. False), uniLetter = (\<lambda>_. False)\<rparr>,
     fmtFloat = (\<lambda>_ _ _. ''0''), SprintfInt = (\<lambda>_ i. FormatInt i), SprintfReal = (\<lambda>_ _. ''0''),
     math1 = (\<lambda>_ x. x), Pow = (\<lambda>x _. x), Atan2 = (\<lambda>x _. x),
     rxCompile = (\<lambda>_. False), rxMatch = (\<lambda>_ _. False), rxFind = (\<lambda>_ _. ''''), rxReplace = (\<lambda>_ s _. s),
     Int63 = of_nat, Intn256 = of_nat, nowUnix = of_nat, nowFormat = (\<lambda>_ layout. layout), rangeOrder = (\<lambda>_ ks. ks)\<rparr>"

lemma evLib_plain [simp]: "evLib plainEval = plainLib"
  by (simp add: plainEval_def)

lemma ToUpper_ascii: "is_ascii s \<Longrightarrow> ToUpper G s = map upper_char s"
  by (simp add: ToUpper_def)

section \<open>Errors that are ignored\<close>

text \<open>The functions of one argument that ignore its error and use the value.\<close>

definition careless :: "string list" where
  "careless = [''FLOOR'', ''CEIL'', ''CEILING'', ''HEX'', ''UNHEX'', ''UNICODE'', ''QUOTE'', ''RANDOMBLOB'', ''ZEROBLOB'',
     ''DATE'', ''TIME'', ''DATETIME'', ''SIGN'', ''SQRT'', ''LOG'', ''LN'', ''LOG2'', ''LOG10'', ''EXP'', ''SIN'', ''COS'',
     ''TAN'', ''ASIN'', ''ACOS'', ''ATAN'', ''SINH'', ''COSH'', ''TANH'', ''DEGREES'', ''RADIANS'', ''REVERSE'', ''SPACE'',
     ''CHAR_LENGTH'', ''OCTET_LENGTH'', ''ISNULL'', ''NOTNULL'', ''TRUNC'', ''BIT_LENGTH'', ''INITCAP'',
     ''ARRAY_LENGTH'', ''INT'', ''FLOAT'', ''STRING'']"

lemma ignoring_nil: "m n = Some ((None, e), n') \<Longrightarrow> ignoringV m k n = None"
  by (simp add: call_defs)

lemma ignoring_nil': "m n = Some ((None, e), n') \<Longrightarrow> ignoring m (\<lambda>p. deref p k) n = None"
  by (simp add: call_defs)

lemma careless_panics:
  assumes "ToUpper (evLib E) name \<in> set careless" and "m n = Some ((None, e), n')"
  shows "evalFunc E name [m] n = None"
  using assms(1) unfolding careless_def list.set
  by (elim insertE emptyE; simp add: evalFunc_def builtins_def switch_defs requireArg_def arg'_def dateOr_def
      mathTable_def ignoring_nil [of m, OF assms(2)] ignoring_nil' [of m, OF assms(2)])


section \<open>Hexadecimal text\<close>

lemma hex_val_digit:
  assumes "d < 16"
  shows "hex_val (upper_char (digitChar d)) = Some d"
proof -
  have "d \<in> {0, 1, 2, 3, 4, 5, 6, 7, 8, 9, 10, 11, 12, 13, 14, 15}"
    using assms by (simp add: numeral_eq_Suc less_Suc_eq)
  then show ?thesis
    by (elim insertE emptyE; simp add: hex_val_def upper_char_def digitChar_def of_char_of Let_def)
qed

lemma unhex_hex: "unhex (upper_hex bs) = Some bs"
proof (induction bs)
  case Nil
  then show ?case by (simp add: upper_hex_def)
next
  case (Cons b bs)
  have b: "unat b < 256" using unsigned_less [of b, where 'a = nat] by simp
  then have "unat b div 16 < 16" "unat b mod 16 < 16" by simp_all
  note D = hex_val_digit [OF this(1)] hex_val_digit [OF this(2)]
  have "16 * (unat b div 16) + unat b mod 16 = unat b" by (rule mult_div_mod_eq)
  then have "(of_nat (16 * (unat b div 16) + unat b mod 16) :: byte) = b" by simp
  moreover have "upper_hex (b # bs) =
      upper_char (digitChar (unat b div 16)) # upper_char (digitChar (unat b mod 16)) # upper_hex bs"
    by (simp add: upper_hex_def hex2_def)
  ultimately show ?case using Cons D by simp
qed

lemma even_hex: "even (length (upper_hex bs))"
  by (induction bs) (simp_all add: upper_hex_def hex2_def)

section \<open>Padding\<close>

lemma padTo_count:
  assumes "\<And>s. length (app pad s) > length s"
  shows "n \<le> int (RuneCount (padTo app pad n s))"
  using assms
proof (induction app pad n s rule: padTo.induct)
  case (1 app pad n s)
  show ?case
  proof (cases "int (RuneCount s) < n \<and> length (app pad s) > length s")
    case True
    then show ?thesis using 1 by (subst padTo.simps) simp
  next
    case False
    then have "n \<le> int (RuneCount s)" using 1(2) [of s] by auto
    then show ?thesis using False by (subst padTo.simps) auto
  qed
qed

section \<open>Division\<close>

lemma word_div_mod:
  assumes "int_div a b = Some q" and "int_mod a b = Some r"
  shows "q * b + r = (a :: 64 word)"
proof -
  have "word_of_int (sint a sdiv sint b * sint b + sint a smod sint b) = (word_of_int (sint a) :: 64 word)"
    by (simp add: sdiv_mult_smod_eq)
  then show ?thesis using assms by (auto simp: int_div_def int_mod_def split: if_splits)
qed

lemma sint_int_mod:
  assumes "int_mod a b = Some r"
  shows "sint r = sint a smod sint b"
proof -
  have b: "b \<noteq> 0" "r = word_of_int (sint a smod sint b)" using assms by (auto simp: int_mod_def split: if_splits)
  have "\<bar>sint b\<bar> \<le> 2 ^ 63" using sint_ge [of b] sint_lt [of b] by simp
  moreover have "- \<bar>sint b\<bar> + 1 \<le> sint a smod sint b \<and> sint a smod sint b \<le> \<bar>sint b\<bar> - 1 \<or> sint b = 0"
    using smod_int_range [of "sint b" "sint a"] by auto
  moreover have "sint b \<noteq> 0" using b(1) by (metis signed_eq_0_iff)
  ultimately have "- (2 ^ 63) \<le> sint a smod sint b" "sint a smod sint b < 2 ^ 63" by linarith+
  then show ?thesis
    using signed_take_bit_int_eq_self [of 63 "sint a smod sint b"] by (simp add: b(2) sint_sbintrunc')
qed


section \<open>Truth values\<close>

text \<open>The truth value of a value, and the three-valued connectives.\<close>

definition truth :: "Value \<Rightarrow> bool option" where
  "truth v = (if isNull v then None else Some (IsTrue v))"

definition of_truth :: "bool option \<Rightarrow> Value" where
  "of_truth b = (case b of None \<Rightarrow> NullValue | Some x \<Rightarrow> boolValue x)"

definition or3 :: "bool option \<Rightarrow> bool option \<Rightarrow> bool option" where
  "or3 a b = (if a = Some True \<or> b = Some True then Some True
     else if a = None \<or> b = None then None else Some False)"

definition not3 :: "bool option \<Rightarrow> bool option" where
  "not3 a = map_option Not a"

definition and3 :: "bool option \<Rightarrow> bool option \<Rightarrow> bool option" where
  "and3 a b = not3 (or3 (not3 a) (not3 b))"

lemma IsTrue_null: "isNull v \<Longrightarrow> \<not> IsTrue v"
  by (simp add: isNull_def IsTrue_def)

lemma ret_steps [simp]:
  "tryP (ret v) kp = kp (Some v)" "tryV (ret v) kv = kv v" "ignoring (ret v) ip = ip (Some v)" "ignoringV (ret v) iv = iv v"
  "deref (Some v) iv = iv v"
  by (simp_all add: call_defs)

lemma RuneCount_utf8s: "RuneCount (utf8s rs) = length rs"
  by (simp add: RuneCount_def runes_utf8s)

lemma sliceV_right: "n < 0 \<Longrightarrow> sliceV xs (int (length xs) - n) (int (length xs)) k = panics"
  "0 \<le> n \<Longrightarrow> n \<le> int (length xs) \<Longrightarrow> sliceV xs (int (length xs) - n) (int (length xs)) k = k (drop (length xs - nat n) xs)"
proof -
  show "n < 0 \<Longrightarrow> sliceV xs (int (length xs) - n) (int (length xs)) k = panics" by (simp add: sliceV_def)
  assume n: "0 \<le> n" "n \<le> int (length xs)"
  then have "nat (int (length xs) - n) = length xs - nat n" by linarith
  with n show "sliceV xs (int (length xs) - n) (int (length xs)) k = k (drop (length xs - nat n) xs)"
    by (simp add: sliceV_def slice_def)
qed

lemma sliceV_left: "n < 0 \<Longrightarrow> sliceV xs 0 n k = panics"
  "0 \<le> n \<Longrightarrow> n \<le> int (length xs) \<Longrightarrow> sliceV xs 0 n k = k (take (nat n) xs)"
  by (simp_all add: sliceV_def slice_def)

lemma padded_width:
  "padded E onLeft [ret (TextValue s), ret (IntValue n), ret (TextValue p)] = panics \<and> n <s 0 \<or>
   (\<exists>t. padded E onLeft [ret (TextValue s), ret (IntValue n), ret (TextValue p)] = ret (TextValue t) \<and>
     int (RuneCount t) = sint n \<and> \<not> n <s 0)"
proof -
  define app where "app = (\<lambda>p s :: string. if onLeft then p @ s else s @ p)"
  define pad where "pad = (if p = '''' then '' '' else p)"
  define rs where "rs = runes (padTo app pad (sint n) s)"
  have "length (app pad t) > length t" for t by (simp add: app_def pad_def)
  then have c: "sint n \<le> int (length rs)" using padTo_count unfolding rs_def RuneCount_def by blast
  have e: "padded E onLeft [ret (TextValue s), ret (IntValue n), ret (TextValue p)] =
      (if int (length rs) > sint n
       then (if sint n < 0 then panics
             else textV (utf8s (if onLeft then drop (length rs - nat (sint n)) rs else take (nat (sint n)) rs)))
       else textV (utf8s rs))"
    by (simp add: padded_def arg'_def value_String_def val_types rs_def app_def [symmetric] pad_def [symmetric] Let_def
        sliceV_left sliceV_right)
  show ?thesis
  proof (cases "sint n < 0")
    case True
    then show ?thesis by (simp add: e word_sless_alt)
  next
    case False
    then show ?thesis using c by (auto simp: e word_sless_alt textV_def RuneCount_utf8s)
  qed
qed

section \<open>Properties\<close>

text \<open>C17. \<open>sqlLikeMatch\<close> and \<open>globMatchRunes\<close> decide their patterns: a string matches exactly when it can
  be cut into parts that the items of the pattern accept one after the other, where \<open>%\<close> and \<open>*\<close>
  accept anything, \<open>_\<close> and \<open>?\<close> one rune, a bracket expression one rune inside (or outside) its
  ranges, and everything else, or what follows the escape rune, itself.\<close>

theorem patterns_decided:
  "(sqlLikeMatch s p esc \<longleftrightarrow> (\<exists>ws. runes s = concat ws \<and> list_all2 accepts (likeItems esc (runes p)) ws)) \<and>
   (globMatchRunes (runes s) (runes p) \<longleftrightarrow> (\<exists>ws. runes s = concat ws \<and> list_all2 accepts (globItems (runes p)) ws))"
  using likeLoop_items [OF runes_valid runes_valid] globMatch_items
  by (simp add: sqlLikeMatch_def item_match_def)

text \<open>C18. Over rows of values, evaluating an expression gives an error or a value, and never panics,
  neither from nil nor from a zero divisor or a bound, when it is built from literals, names, \<open>CASE\<close>, \<open>CAST\<close>, \<open>IN\<close>,
  \<open>LIKE\<close>, \<open>GLOB\<close>, \<open>BETWEEN\<close>, \<open>IS NULL\<close>, all unary and binary operators and these functions: those that
  evaluate no argument; those that pass the errors of the arguments they are called with on (\<open>UPPER\<close>, \<open>LOWER\<close>, \<open>LENGTH\<close>,
  \<open>ABS\<close>, \<open>COALESCE\<close>, \<open>IFNULL\<close>, \<open>NVL\<close>, \<open>NULLIF\<close>, \<open>IIF\<close>, \<open>SUBSTR\<close>, \<open>SUBSTRING\<close>, \<open>TYPEOF\<close>, and with at most
  one argument \<open>TRIM\<close>, \<open>LTRIM\<close>, \<open>RTRIM\<close>, \<open>ROUND\<close>, \<open>MAX\<close> and \<open>MIN\<close>); unknown ones; and all others, except
  \<open>DATE\<close>, \<open>LPAD\<close>, \<open>RPAD\<close>, \<open>REPEAT\<close>, \<open>SPACE\<close>, \<open>RANDOMBLOB\<close> and \<open>ZEROBLOB\<close>, on arguments that cannot fail. With
  neither a \<open>CAST\<close>, an unknown function or operator nor \<open>TYPEOF\<close>, it cannot fail: it gives a value.\<close>

theorem evaluation_returns:
  assumes "ctx_ok ctx" and "expr_returns b E e"
  shows "\<exists>p err n'. EvalExpr E ctx e n = Some ((p, err), n') \<and> (err = None \<longrightarrow> p \<noteq> None) \<and> (b \<longrightarrow> err = None)"
  using EvalExpr_returns [OF assms] by (simp add: returns_def)

theorem evaluation_returns_witness:
  "\<exists>p err n'. EvalExpr plainEval emptyContext
     (BinaryExpr ''/'' (FuncCallExpr ''FLOOR'' [IdentExpr '''' ''a''] False False)
        (FuncCallExpr ''SUBSTR'' [LiteralExpr (Some (LitString ''ab'')) False, LiteralExpr (Some (LitInt (-5))) False] False False)) 0 =
       Some ((p, err), n') \<and> (err = None \<longrightarrow> p \<noteq> None) \<and> (True \<longrightarrow> err = None)"
  by (rule evaluation_returns)
    (simp_all add: ctx_ok_def emptyContext_def call_returns_def careful_def number_fns_def known_op_def isOperator_def
      ToUpper_def is_ascii_def upper_char_def)

text \<open>C34. A function that drops the error of its argument (\<open>v, _ := EvalExpr(...)\<close>) dereferences nil: when
  the argument's evaluation gives an error and no value, the call panics.\<close>

theorem ignored_error_panics:
  assumes "ToUpper (evLib E) name \<in> set careless" and "EvalExpr E ctx e n = Some ((None, err), n')"
  shows "EvalExpr E ctx (FuncCallExpr name [e] d s) n = None"
  using careless_panics [OF assms(1), of "EvalExpr E ctx e", OF assms(2)] by simp

theorem ignored_error_panics_witness:
  "EvalExpr plainEval emptyContext
     (FuncCallExpr ''FLOOR'' [CastExpr (LiteralExpr (Some (LitString ''abc'')) False) ''INTEGER''] False False) 0 = None"
proof (rule ignored_error_panics)
  show "ToUpper (evLib plainEval) ''FLOOR'' \<in> set careless"
    by (simp add: careless_def ToUpper_def is_ascii_def upper_char_def)
  have "NormalizeType plainLib ''INTEGER'' = TypeInteger"
    by (simp add: NormalizeType_def TrimSpace_def is_space_char_def ToUpper_def is_ascii_def upper_char_def Let_def)
  moreover have "ParseInt ''abc'' = None" by (simp add: ParseInt_def digit_val_def)
  ultimately show "EvalExpr plainEval emptyContext
      (CastExpr (LiteralExpr (Some (LitString ''abc'')) False) ''INTEGER'') 0 = Some ((None, Some (ErrConvert ''abc'')), 0)"
    by (simp add: evalCast_def literalValue_def CoerceValue_simps plainLib_def fails_def giveV_def Let_def)
qed

text \<open>The logical operators on two values: \<open>OR\<close> and \<open>NOT\<close> are the connectives of three-valued logic;
  \<open>AND\<close> is too, except that NULL on the left makes the result NULL even when the right side is
  false.\<close>

theorem logic_operators:
  "evalBinary E ''OR'' (ret l) (ret r) = ret (of_truth (or3 (truth l) (truth r))) \<and>
   evalUnary E ''NOT'' (ret l) = ret (of_truth (not3 (truth l))) \<and>
   evalBinary E ''AND'' (ret l) (ret r) =
     ret (of_truth (if truth l = None then None else and3 (truth l) (truth r))) \<and>
   and3 None (Some False) = Some False"
  by (auto simp: evalBinary_def evalUnary_def truth_def of_truth_def or3_def not3_def and3_def boolValue_def
      dest: IsTrue_null)

text \<open>\<open>/\<close> and \<open>%\<close> on integers: a zero divisor gives NULL; otherwise the quotient and the remainder
  make up the dividend, and the remainder is smaller than the divisor and has the sign of the dividend.\<close>

theorem integer_division:
  "binaryValue E ''/'' (IntValue a) (IntValue 0) = ret NullValue \<and>
   binaryValue E ''%'' (IntValue a) (IntValue 0) = ret NullValue \<and>
   (b \<noteq> 0 \<longrightarrow> (\<exists>q r. binaryValue E ''/'' (IntValue a) (IntValue b) = ret (IntValue q) \<and>
      binaryValue E ''%'' (IntValue a) (IntValue b) = ret (IntValue r) \<and> q * b + r = a \<and>
      \<bar>sint r\<bar> < \<bar>sint b\<bar> \<and> (r = 0 \<or> (r <s 0 \<longleftrightarrow> a <s 0))))"
proof (intro conjI impI)
  assume b: "b \<noteq> 0"
  then obtain q r where qr: "int_div a b = Some q" "int_mod a b = Some r" by (simp add: int_div_def int_mod_def)
  have m: "sint r = sgn (sint a) * (\<bar>sint a\<bar> mod \<bar>sint b\<bar>)"
    using sint_int_mod [OF qr(2)] by (simp add: signed_modulo_int_def)
  have sb: "\<bar>sint b\<bar> > 0" using b by (metis signed_eq_0_iff zero_less_abs_iff)
  have ab: "0 \<le> \<bar>sint a\<bar> mod \<bar>sint b\<bar>" "\<bar>sint a\<bar> mod \<bar>sint b\<bar> < \<bar>sint b\<bar>" using sb by simp_all
  have "\<bar>sint r\<bar> < \<bar>sint b\<bar>"
    unfolding m using ab sb by (cases "sint a" "0 :: int" rule: linorder_cases) simp_all
  moreover have "r = 0 \<or> (r <s 0 \<longleftrightarrow> a <s 0)"
  proof (cases "r = 0")
    case False
    then have "sint r \<noteq> 0" by (metis signed_eq_0_iff)
    then show ?thesis unfolding word_sless_alt m using ab
      by (cases "sint a" "0 :: int" rule: linorder_cases) simp_all
  qed simp
  ultimately show "\<exists>q r. binaryValue E ''/'' (IntValue a) (IntValue b) = ret (IntValue q) \<and>
      binaryValue E ''%'' (IntValue a) (IntValue b) = ret (IntValue r) \<and> q * b + r = a \<and>
      \<bar>sint r\<bar> < \<bar>sint b\<bar> \<and> (r = 0 \<or> (r <s 0 \<longleftrightarrow> a <s 0))"
    using b word_div_mod [OF qr]
    by (intro exI [of _ q] exI [of _ r]) (simp add: binaryValue_def arith_def val_types qr Let_def)
qed (simp_all add: binaryValue_def val_types)

theorem integer_division_witness:
  "\<exists>q r. binaryValue plainEval ''/'' (IntValue (- 7)) (IntValue 2) = ret (IntValue q) \<and>
      binaryValue plainEval ''%'' (IntValue (- 7)) (IntValue 2) = ret (IntValue r) \<and> q * 2 + r = - 7 \<and>
      \<bar>sint r\<bar> < \<bar>sint (2 :: 64 word)\<bar> \<and> (r = 0 \<or> (r <s 0 \<longleftrightarrow> (- 7 :: 64 word) <s 0))"
  using integer_division [of plainEval "- 7" 2] by simp

text \<open>\<open>UNHEX\<close> of \<open>HEX\<close> gives the bytes of a blob back, and the bytes of a text.\<close>

theorem hex_roundtrip:
  "evalFunc E ''UNHEX'' [evalFunc E ''HEX'' [ret (BlobValue bs)]] = ret (BlobValue bs) \<and>
   evalFunc E ''UNHEX'' [evalFunc E ''HEX'' [ret (TextValue s)]] = ret (BlobValue (str_bytes s))"
proof -
  have u: "ToUpper (evLib E) ''UNHEX'' = ''UNHEX''" "ToUpper (evLib E) ''HEX'' = ''HEX''"
    by (simp_all add: ToUpper_def is_ascii_def upper_char_def)
  show ?thesis
    by (simp add: evalFunc_def u builtins_def switch_defs requireArg_def arg'_def nullOr_def isNull_def val_types
        textV_def value_String_def even_hex unhex_hex)
qed

text \<open>\<open>LPAD\<close> and \<open>RPAD\<close> give exactly the requested number of runes, and panic on a negative width.\<close>

theorem padding_width:
  "if n <s 0 then evalFunc E ''LPAD'' [ret (TextValue s), ret (IntValue n), ret (TextValue p)] = panics \<and>
     evalFunc E ''RPAD'' [ret (TextValue s), ret (IntValue n), ret (TextValue p)] = panics
   else (\<exists>t. evalFunc E ''LPAD'' [ret (TextValue s), ret (IntValue n), ret (TextValue p)] = ret (TextValue t) \<and>
          int (RuneCount t) = sint n) \<and>
        (\<exists>t. evalFunc E ''RPAD'' [ret (TextValue s), ret (IntValue n), ret (TextValue p)] = ret (TextValue t) \<and>
          int (RuneCount t) = sint n)"
proof -
  have u: "ToUpper (evLib E) ''LPAD'' = ''LPAD''" "ToUpper (evLib E) ''RPAD'' = ''RPAD''"
    by (simp_all add: ToUpper_def is_ascii_def upper_char_def)
  have f: "evalFunc E ''LPAD'' as = requireArg as 2 (padded E True as)"
    "evalFunc E ''RPAD'' as = requireArg as 2 (padded E False as)" for as
    by (simp_all add: evalFunc_def u builtins_def switch_defs mathTable_def)
  show ?thesis
    using padded_width [of E True s n p] padded_width [of E False s n p]
    by (cases "n <s 0") (simp_all add: f requireArg_def)
qed

end
