(* ===== verification/KVStore.thy ===== *)
theory KVStore
  imports Table
begin

text \<open>
  The contract between the B-tree and its clients: a store of several trees in one file, each a
  map named by its root page. What a client needs is that an operation on one tree reads or
  changes that tree as a map and leaves the others, and the room in them, alone.
\<close>

locale kv_store =
  fixes holds :: "('r \<Rightarrow> ('k \<Rightarrow> 'v option) option) \<Rightarrow> 's \<Rightarrow> bool"
    and get :: "'r \<Rightarrow> 'k \<Rightarrow> 's \<Rightarrow> 'v option res \<times> 's"
    and put :: "'r \<Rightarrow> 'k \<Rightarrow> 'v \<Rightarrow> 's \<Rightarrow> 'r res \<times> 's"
    and del :: "'r \<Rightarrow> 'k \<Rightarrow> 's \<Rightarrow> bool res \<times> 's"
    and can_put :: "'r \<Rightarrow> 'k \<Rightarrow> 'v \<Rightarrow> 's \<Rightarrow> bool"
    and can_del :: "'r \<Rightarrow> 'k \<Rightarrow> 's \<Rightarrow> bool"
  assumes get_law: "holds F s \<Longrightarrow> F r = Some m \<Longrightarrow>
      \<exists>s'. get r k s = (Inr (m k), s') \<and> holds F s' \<and>
        (\<forall>r' k' v'. F r' \<noteq> None \<longrightarrow> can_put r' k' v' s \<longrightarrow> can_put r' k' v' s') \<and>
        (\<forall>r' k'. F r' \<noteq> None \<longrightarrow> can_del r' k' s \<longrightarrow> can_del r' k' s')"
    and put_law: "holds F s \<Longrightarrow> F r = Some m \<Longrightarrow> can_put r k v s \<Longrightarrow>
      \<exists>s'. put r k v s = (Inr r, s') \<and> holds (F(r \<mapsto> m(k \<mapsto> v))) s' \<and>
        (\<forall>r' k' v'. r' \<noteq> r \<longrightarrow> F r' \<noteq> None \<longrightarrow> can_put r' k' v' s \<longrightarrow> can_put r' k' v' s') \<and>
        (\<forall>r' k'. r' \<noteq> r \<longrightarrow> F r' \<noteq> None \<longrightarrow> can_del r' k' s \<longrightarrow> can_del r' k' s')"
    and del_law: "holds F s \<Longrightarrow> F r = Some m \<Longrightarrow> can_del r k s \<Longrightarrow>
      \<exists>s'. del r k s = (Inr (m k \<noteq> None), s') \<and> holds (F(r \<mapsto> m(k := None))) s' \<and>
        (\<forall>r' k' v'. r' \<noteq> r \<longrightarrow> F r' \<noteq> None \<longrightarrow> can_put r' k' v' s \<longrightarrow> can_put r' k' v' s') \<and>
        (\<forall>r' k'. r' \<noteq> r \<longrightarrow> F r' \<noteq> None \<longrightarrow> can_del r' k' s \<longrightarrow> can_del r' k' s')"
begin

lemma getE:
  assumes "holds F s" and "F r = Some m"
  obtains s' where "get r k s = (Inr (m k), s')" and "holds F s'"
    and "\<forall>r' k' v'. F r' \<noteq> None \<longrightarrow> can_put r' k' v' s \<longrightarrow> can_put r' k' v' s'"
    and "\<forall>r' k'. F r' \<noteq> None \<longrightarrow> can_del r' k' s \<longrightarrow> can_del r' k' s'"
  using get_law [OF assms, of k] that by blast

lemma putE:
  assumes "holds F s" and "F r = Some m" and "can_put r k v s"
  obtains s' where "put r k v s = (Inr r, s')" and "holds (F(r \<mapsto> m(k \<mapsto> v))) s'"
    and "\<forall>r' k' v'. r' \<noteq> r \<longrightarrow> F r' \<noteq> None \<longrightarrow> can_put r' k' v' s \<longrightarrow> can_put r' k' v' s'"
  using put_law [OF assms] that by blast

lemma delE:
  assumes "holds F s" and "F r = Some m" and "can_del r k s"
  obtains s' where "del r k s = (Inr (m k \<noteq> None), s')" and "holds (F(r \<mapsto> m(k := None))) s'"
    and "\<forall>r' k'. r' \<noteq> r \<longrightarrow> F r' \<noteq> None \<longrightarrow> can_del r' k' s \<longrightarrow> can_del r' k' s'"
  using del_law [OF assms] that by blast

lemma fst_get: "holds F s \<Longrightarrow> F r = Some m \<Longrightarrow> fst (get r k s) = Inr (m k)"
  using get_law [of F s r m k] by auto

text \<open>Two puts on different trees, as the table engine makes them.\<close>

lemma put_putE:
  assumes "holds F s" and "F r = Some m" and "F r' = Some m'" and "r \<noteq> r'" and "can_put r k v s" and "can_put r' k' v' s"
  obtains s1 s2 where "put r k v s = (Inr r, s1)" and "put r' k' v' s1 = (Inr r', s2)"
    and "holds (F(r \<mapsto> m(k \<mapsto> v), r' \<mapsto> m'(k' \<mapsto> v'))) s2"
proof -
  obtain s1 where s1: "put r k v s = (Inr r, s1)" "holds (F(r \<mapsto> m(k \<mapsto> v))) s1"
    "\<forall>r' k' v'. r' \<noteq> r \<longrightarrow> F r' \<noteq> None \<longrightarrow> can_put r' k' v' s \<longrightarrow> can_put r' k' v' s1"
    by (rule putE [OF assms(1,2,5)])
  then have c: "can_put r' k' v' s1" using assms(3,4,6) by (metis option.distinct(1))
  have "(F(r \<mapsto> m(k \<mapsto> v))) r' = Some m'" using assms(3,4) by simp
  from putE [OF s1(2) this c] s1(1) that show ?thesis by metis
qed

end

section \<open>The trees of a database file\<close>

lemma repr_unique: "repr v t \<Longrightarrow> repr v t' \<Longrightarrow> tree_id t = tree_id t' \<Longrightarrow> t = t'"
proof (induction arbitrary: t' rule: repr.induct)
  case (leaf i p xs)
  from leaf.prems show ?case
  proof (cases rule: repr.cases)
    case (leaf j q ys)
    then show ?thesis using leaf.hyps leaf.prems same_data(6) [of p q] by auto
  next
    case (node j q ks cs)
    then have "Type p = Type q" using leaf.hyps leaf.prems by (intro same_data(1)) auto
    then show ?thesis using node leaf.hyps by (simp add: PageTypeLeaf_def PageTypeInternal_def)
  qed
next
  case (node i p ks cs)
  from node.prems(1) show ?case
  proof (cases rule: repr.cases)
    case (leaf j q ys)
    then have "Type p = Type q" using node.hyps node.prems by (intro same_data(1)) auto
    then show ?thesis using leaf node.hyps by (simp add: PageTypeLeaf_def PageTypeInternal_def)
  next
    case (node j q ls ds)
    then have d: "Data p = Data q" using node.hyps node.prems by auto
    have ids: "map tree_id cs = map tree_id ds" using node.hyps(6) node(7) same_data(8) [OF d] by simp
    have "cs = ds"
    proof (rule nth_equalityI)
      show l: "length cs = length ds" using map_eq_imp_length_eq [OF ids] .
      fix n assume n: "n < length cs"
      then have "tree_id (cs ! n) = tree_id (ds ! n)" using ids l by (metis nth_map)
      then show "cs ! n = ds ! n" using node.IH [of "cs ! n" "ds ! n"] node(8) n l by simp
    qed
    with d node node.prems node.hyps same_data(6) [OF d] show ?thesis by simp
  qed
qed

text \<open>\<open>forest E F s\<close>: the file holds disjoint trees with the roots and contents that \<open>F\<close> names.\<close>

definition forest_of :: "env \<Rightarrow> (32 word \<Rightarrow> tree option) \<Rightarrow> Pager \<Rightarrow> bool" where
  "forest_of E T p \<longleftrightarrow> (\<forall>r t. T r = Some t \<longrightarrow> tree_in (treeFuel E) t p \<and> tree_id t = r) \<and>
     (\<forall>r r' t t'. T r = Some t \<longrightarrow> T r' = Some t' \<longrightarrow> r \<noteq> r' \<longrightarrow> set (tree_ids t) \<inter> set (tree_ids t') = {})"

definition forest :: "env \<Rightarrow> (32 word \<Rightarrow> (byte list \<Rightarrow> byte list option) option) \<Rightarrow> SchemaManager \<Rightarrow> bool" where
  "forest E F s \<longleftrightarrow> (\<exists>T. forest_of E T (sm_pager s) \<and> F = (\<lambda>r. map_option lookup (T r)))"

definition can_put :: "32 word \<Rightarrow> byte list \<Rightarrow> byte list \<Rightarrow> SchemaManager \<Rightarrow> bool" where
  "can_put r k v s \<longleftrightarrow> (\<forall>t. repr (view (sm_pager s)) t \<longrightarrow> tree_id t = r \<longrightarrow> fits (sm_pager s) t k v)"

definition can_del :: "32 word \<Rightarrow> byte list \<Rightarrow> SchemaManager \<Rightarrow> bool" where
  "can_del r k s \<longleftrightarrow> (\<forall>t. repr (view (sm_pager s)) t \<longrightarrow> tree_id t = r \<longrightarrow> \<not> on_path t k)"

lemma tree_inD: "tree_in n t p \<Longrightarrow> repr (view p) t"
  by (simp add: tree_in_def)

lemma can_put_fits: "tree_in n t (sm_pager s) \<Longrightarrow> can_put (tree_id t) k v s \<longleftrightarrow> fits (sm_pager s) t k v"
  unfolding can_put_def using repr_unique tree_inD by metis

lemma can_del_path: "tree_in n t (sm_pager s) \<Longrightarrow> can_del (tree_id t) k s \<longleftrightarrow> \<not> on_path t k"
  unfolding can_del_def using repr_unique tree_inD by metis

text \<open>A tree whose pages do not change stays, with the room in its leaves.\<close>

lemma tree_in_same_pages:
  assumes t: "tree_in n t p" and p': "tree_in m u p'"
    and v: "\<And>i d. i \<in> set (tree_ids t) \<Longrightarrow> view p i = Some d \<Longrightarrow> view p' i = Some d"
  shows "tree_in n t p'" and "fits p t k w \<Longrightarrow> fits p' t k w"
proof -
  note R = tree_inD [OF t]
  have e: "view p' i = view p i" if "i \<in> set (tree_ids t)" for i
    using repr_ids_view [OF R that] v [OF that] by auto
  have "repr (view p') t" by (rule repr_frame [OF R]) (rule e)
  with t p' show "tree_in n t p'" by (simp add: tree_in_def)
  show "fits p t k w \<Longrightarrow> fits p' t k w" using e [OF leaf_of_in [OF R]] by (simp add: fits_def)
qed

lemma forest_change:
  assumes F: "forest_of E T p" and T: "T r = Some t" and t': "tree_in (treeFuel E) t' p'" "tree_id t' = tree_id t"
    "tree_ids t' = tree_ids t"
    and v: "\<And>i d. i \<notin> set (tree_ids t) \<Longrightarrow> view p i = Some d \<Longrightarrow> view p' i = Some d"
  shows "forest_of E (T(r \<mapsto> t')) p'"
    and "r' \<noteq> r \<Longrightarrow> T r' = Some u \<Longrightarrow> fits p u k w \<Longrightarrow> fits p' u k w"
proof -
  have dj: "set (tree_ids t) \<inter> set (tree_ids u) = {}" if "r' \<noteq> r" "T r' = Some u" for r' u
    using F T that unfolding forest_of_def by blast
  have st: "tree_in (treeFuel E) u p'" "fits p u k w \<Longrightarrow> fits p' u k w" if "r' \<noteq> r" "T r' = Some u" for r' u k w
  proof -
    have "tree_in (treeFuel E) u p" using F that unfolding forest_of_def by blast
    note K = tree_in_same_pages [OF this t'(1)]
    from K(1) v dj [OF that] show "tree_in (treeFuel E) u p'" by blast
    from K(2) v dj [OF that] show "fits p u k w \<Longrightarrow> fits p' u k w" by blast
  qed
  have id: "tree_id t = r" "\<And>r' u. T r' = Some u \<Longrightarrow> tree_id u = r'" using F T unfolding forest_of_def by blast+
  show "forest_of E (T(r \<mapsto> t')) p'"
    unfolding forest_of_def
  proof (intro conjI allI impI)
    fix r' u assume "(T(r \<mapsto> t')) r' = Some u"
    then show "tree_in (treeFuel E) u p'" "tree_id u = r'"
      using st(1) t'(1,2) id by (auto split: if_splits)
  next
    fix a b u w assume "(T(r \<mapsto> t')) a = Some u" "(T(r \<mapsto> t')) b = Some w" "a \<noteq> b"
    then show "set (tree_ids u) \<inter> set (tree_ids w) = {}"
      using dj [of a u] dj [of b w] F t'(3) unfolding forest_of_def by (auto split: if_splits)
  qed
  show "r' \<noteq> r \<Longrightarrow> T r' = Some u \<Longrightarrow> fits p u k w \<Longrightarrow> fits p' u k w" by (rule st(2))
qed


text \<open>Reading through \<open>keeps\<close> moves pages into the cache only.\<close>

lemma forest_keeps:
  assumes F: "forest_of E T p" and k: "keeps p p'" and p': "tree_in n u p'"
  shows "forest_of E T p'" and "T r = Some t \<Longrightarrow> fits p t k' w \<Longrightarrow> fits p' t k' w"
proof -
  have st: "tree_in (treeFuel E) t p'" "fits p t k' w \<Longrightarrow> fits p' t k' w" if "T r = Some t" for r t k' w
  proof -
    have "tree_in (treeFuel E) t p" using F that unfolding forest_of_def by blast
    note K = tree_in_same_pages [OF this p' keeps_view [OF k]]
    from K show "tree_in (treeFuel E) t p'" "fits p t k' w \<Longrightarrow> fits p' t k' w" by blast+
  qed
  then show "forest_of E T p'" using F unfolding forest_of_def by blast
  show "T r = Some t \<Longrightarrow> fits p t k' w \<Longrightarrow> fits p' t k' w" by (rule st(2))
qed

lemma forest_roots:
  assumes "forest_of E T p" and "F = (\<lambda>r. map_option lookup (T r))" and "F r \<noteq> None"
  obtains t where "T r = Some t" and "tree_in (treeFuel E) t p" and "tree_id t = r"
  using assms unfolding forest_of_def by fastforce

text \<open>The room for a key in a tree that is in the forest before and after.\<close>

lemma forest_can:
  assumes "forest_of E T (sm_pager s)" and "T r = Some u" and "forest_of E T' (sm_pager s')" and "T' r = Some u"
  shows "(fits (sm_pager s) u k v \<Longrightarrow> fits (sm_pager s') u k v) \<Longrightarrow> can_put r k v s \<Longrightarrow> can_put r k v s'"
    and "can_del r k s \<Longrightarrow> can_del r k s'"
proof -
  have u: "tree_in (treeFuel E) u (sm_pager s)" "tree_in (treeFuel E) u (sm_pager s')" "tree_id u = r"
    using assms unfolding forest_of_def by blast+
  show "(fits (sm_pager s) u k v \<Longrightarrow> fits (sm_pager s') u k v) \<Longrightarrow> can_put r k v s \<Longrightarrow> can_put r k v s'"
    using can_put_fits [OF u(1), of k v] can_put_fits [OF u(2), of k v] u(3) by simp
  show "can_del r k s \<Longrightarrow> can_del r k s'"
    using can_del_path [OF u(1), of k] can_del_path [OF u(2), of k] u(3) by simp
qed

lemma forestE:
  assumes "forest E F s" and "F r = Some m"
  obtains T t where "forest_of E T (sm_pager s)" and "F = (\<lambda>r. map_option lookup (T r))" and "T r = Some t"
    and "tree_in (treeFuel E) t (sm_pager s)" and "tree_id t = r" and "m = lookup t"
proof -
  obtain T where T: "forest_of E T (sm_pager s)" "F = (\<lambda>r. map_option lookup (T r))"
    using assms(1) unfolding forest_def by blast
  obtain t where t: "T r = Some t" "tree_in (treeFuel E) t (sm_pager s)" "tree_id t = r"
    by (rule forest_roots [OF T, of r]) (use assms(2) in auto)
  have "m = lookup t" using assms(2) T(2) t(1) by simp
  with T t that show ?thesis by blast
qed

lemma trees_get:
  assumes "forest E F s" and "F r = Some m"
  shows "\<exists>s'. treeGet E r k s = (Inr (m k), s') \<and> forest E F s' \<and>
      (\<forall>r' k' v'. F r' \<noteq> None \<longrightarrow> can_put r' k' v' s \<longrightarrow> can_put r' k' v' s') \<and>
      (\<forall>r' k'. F r' \<noteq> None \<longrightarrow> can_del r' k' s \<longrightarrow> can_del r' k' s')"
proof -
  obtain T t where T: "forest_of E T (sm_pager s)" "F = (\<lambda>r. map_option lookup (T r))"
    and t: "T r = Some t" "tree_in (treeFuel E) t (sm_pager s)" "tree_id t = r" "m = lookup t"
    by (rule forestE [OF assms])
  obtain p where p: "Get (treeFuel E) r k (sm_pager s) = (Inr (m k), p)" "tree_in (treeFuel E) t p" "keeps (sm_pager s) p"
    using Get_tree [OF t(2), of k] t(3,4) by metis
  define s' where "s' = s\<lparr>sm_pager := p\<rparr>"
  note K = forest_keeps [OF T(1) p(3,2)]
  have "treeGet E r k s = (Inr (m k), s')" using p(1) by (simp add: treeGet_def onPager_def s'_def)
  moreover have F': "forest_of E T (sm_pager s')" using K(1) by (simp add: s'_def)
  then have "forest E F s'" using T(2) unfolding forest_def by blast
  moreover have "can_put r' k' v' s'" if a: "F r' \<noteq> None" and b: "can_put r' k' v' s" for r' k' v'
  proof -
    obtain u where u: "T r' = Some u" by (rule forest_roots [OF T a])
    have "fits (sm_pager s) u k' v' \<Longrightarrow> fits (sm_pager s') u k' v'" unfolding s'_def by simp (rule K(2) [OF u])
    from forest_can(1) [OF T(1) u F' u this b] show ?thesis .
  qed
  moreover have "can_del r' k' s'" if a: "F r' \<noteq> None" and b: "can_del r' k' s" for r' k'
  proof -
    obtain u where u: "T r' = Some u" by (rule forest_roots [OF T a])
    from forest_can(2) [OF T(1) u F' u b] show ?thesis .
  qed
  ultimately show ?thesis by blast
qed

text \<open>What a put and a delete have in common.\<close>

lemma trees_change:
  assumes T: "forest_of E T (sm_pager s)" "F = (\<lambda>r. map_option lookup (T r))" and t: "T r = Some t"
    and p: "tree_in (treeFuel E) t' p" "tree_id t' = tree_id t" "tree_ids t' = tree_ids t" "lookup t' = m'"
    and v: "\<And>i d. i \<notin> set (tree_ids t) \<Longrightarrow> view (sm_pager s) i = Some d \<Longrightarrow> view p i = Some d"
  shows "forest E (F(r \<mapsto> m')) (s\<lparr>sm_pager := p\<rparr>)"
    and "(\<forall>r' k' v'. r' \<noteq> r \<longrightarrow> F r' \<noteq> None \<longrightarrow> can_put r' k' v' s \<longrightarrow> can_put r' k' v' (s\<lparr>sm_pager := p\<rparr>)) \<and>
      (\<forall>r' k'. r' \<noteq> r \<longrightarrow> F r' \<noteq> None \<longrightarrow> can_del r' k' s \<longrightarrow> can_del r' k' (s\<lparr>sm_pager := p\<rparr>))"
proof -
  let ?s = "s\<lparr>sm_pager := p\<rparr>"
  note C = forest_change [OF T(1) t p(1-3)]
  have "forest_of E (T(r \<mapsto> t')) p" by (rule C(1)) (rule v)
  then have F': "forest_of E (T(r \<mapsto> t')) (sm_pager ?s)" by simp
  moreover have "F(r \<mapsto> m') = (\<lambda>a. map_option lookup ((T(r \<mapsto> t')) a))" by (auto simp: T(2) p(4) fun_eq_iff)
  ultimately show "forest E (F(r \<mapsto> m')) ?s" unfolding forest_def by blast
  show "(\<forall>r' k' v'. r' \<noteq> r \<longrightarrow> F r' \<noteq> None \<longrightarrow> can_put r' k' v' s \<longrightarrow> can_put r' k' v' ?s) \<and>
    (\<forall>r' k'. r' \<noteq> r \<longrightarrow> F r' \<noteq> None \<longrightarrow> can_del r' k' s \<longrightarrow> can_del r' k' ?s)"
  proof (intro conjI allI impI)
    fix r' k' v' assume a: "r' \<noteq> r" and b: "F r' \<noteq> None" and c: "can_put r' k' v' s"
    obtain u where u: "T r' = Some u" by (rule forest_roots [OF T b])
    have "(T(r \<mapsto> t')) r' = Some u" using u a by simp
    moreover have "fits (sm_pager ?s) u k' v'" if "fits (sm_pager s) u k' v'"
      using C(2) [OF _ a u that] v by simp
    ultimately show "can_put r' k' v' ?s" using forest_can(1) [OF T(1) u F' _ _ c] by blast
  next
    fix r' k' assume a: "r' \<noteq> r" and b: "F r' \<noteq> None" and c: "can_del r' k' s"
    obtain u where u: "T r' = Some u" by (rule forest_roots [OF T b])
    have "(T(r \<mapsto> t')) r' = Some u" using u a by simp
    from forest_can(2) [OF T(1) u F' this c] show "can_del r' k' ?s" .
  qed
qed

lemma trees_put:
  assumes "forest E F s" and "F r = Some m" and c: "can_put r k v s"
  shows "\<exists>s'. treeInsert E r k v s = (Inr r, s') \<and> forest E (F(r \<mapsto> m(k \<mapsto> v))) s' \<and>
      (\<forall>r' k' v'. r' \<noteq> r \<longrightarrow> F r' \<noteq> None \<longrightarrow> can_put r' k' v' s \<longrightarrow> can_put r' k' v' s') \<and>
      (\<forall>r' k'. r' \<noteq> r \<longrightarrow> F r' \<noteq> None \<longrightarrow> can_del r' k' s \<longrightarrow> can_del r' k' s')"
proof -
  obtain T t where T: "forest_of E T (sm_pager s)" "F = (\<lambda>r. map_option lookup (T r))"
    and t: "T r = Some t" "tree_in (treeFuel E) t (sm_pager s)" "tree_id t = r" "m = lookup t"
    by (rule forestE [OF assms(1,2)])
  have f: "fits (sm_pager s) t k v" using c can_put_fits [OF t(2)] t(3) by simp
  obtain p t' where p: "Insert (treeFuel E) (tree_id t) k v (sm_pager s) = ((Inr (), tree_id t), p)"
    "tree_in (treeFuel E) t' p" "tree_id t' = tree_id t" "tree_ids t' = tree_ids t"
    "\<And>k'. lookup t' k' = (if k' = k then Some v else lookup t k')"
    "\<And>i d. i \<notin> set (tree_ids t) \<Longrightarrow> view (sm_pager s) i = Some d \<Longrightarrow> view p i = Some d"
    by (rule Insert_tree [OF t(2) f]) (rule that, (assumption | blast)+)
  have "lookup t' = m(k \<mapsto> v)" using p(5) t(4) by (simp add: fun_eq_iff)
  note C = trees_change [OF T t(1) p(2-4) this p(6)]
  have "treeInsert E r k v s = (Inr r, s\<lparr>sm_pager := p\<rparr>)" using p(1) t(3) by (simp add: treeInsert_def)
  with C show ?thesis by blast
qed

lemma trees_del:
  assumes "forest E F s" and "F r = Some m" and c: "can_del r k s"
  shows "\<exists>s'. treeDelete E r k s = (Inr (m k \<noteq> None), s') \<and> forest E (F(r \<mapsto> m(k := None))) s' \<and>
      (\<forall>r' k' v'. r' \<noteq> r \<longrightarrow> F r' \<noteq> None \<longrightarrow> can_put r' k' v' s \<longrightarrow> can_put r' k' v' s') \<and>
      (\<forall>r' k'. r' \<noteq> r \<longrightarrow> F r' \<noteq> None \<longrightarrow> can_del r' k' s \<longrightarrow> can_del r' k' s')"
proof -
  obtain T t where T: "forest_of E T (sm_pager s)" "F = (\<lambda>r. map_option lookup (T r))"
    and t: "T r = Some t" "tree_in (treeFuel E) t (sm_pager s)" "tree_id t = r" "m = lookup t"
    by (rule forestE [OF assms(1,2)])
  have f: "\<not> on_path t k" using c can_del_path [OF t(2)] t(3) by simp
  obtain p t' where p: "Delete (treeFuel E) (tree_id t) k (sm_pager s) = (Inr (lookup t k \<noteq> None), p)"
    "tree_in (treeFuel E) t' p" "tree_id t' = tree_id t" "tree_ids t' = tree_ids t"
    "\<And>k'. lookup t' k' = (if k' = k then None else lookup t k')"
    "\<And>i d. i \<notin> set (tree_ids t) \<Longrightarrow> view (sm_pager s) i = Some d \<Longrightarrow> view p i = Some d"
    by (rule Delete_tree [OF t(2) f]) (rule that, (assumption | blast)+)
  have "lookup t' = m(k := None)" using p(5) t(4) by (simp add: fun_eq_iff)
  note C = trees_change [OF T t(1) p(2-4) this p(6)]
  have "treeDelete E r k s = (Inr (m k \<noteq> None), s\<lparr>sm_pager := p\<rparr>)" using p(1) t(3,4) by (simp add: treeDelete_def onPager_def)
  with C show ?thesis by blast
qed

interpretation trees: kv_store "forest E" "treeGet E" "treeInsert E" "treeDelete E" can_put can_del for E
  by unfold_locales (rule trees_get trees_put trees_del; assumption)+

end
