(* ===== verification/TableOps.thy ===== *)
theory TableOps
  imports KVStore
begin

text \<open>
  The table engine over the trees of a file: what an insert, a lookup, a delete and an update do
  to the rows of a table, as maps from row keys to encoded rows. The proofs use the trees
  through the laws of \<open>kv_store\<close> only.
\<close>

lemma rowKey_inject [simp]: "rowKey a = rowKey b \<longleftrightarrow> a = b"
  by (metis rd64_be64 rowKey_def append_Nil2)

lemma onSchema_eq: "m (te_schema t) = (r, s) \<Longrightarrow> onSchema m t = (r, t\<lparr>te_schema := s\<rparr>)"
  by (simp add: onSchema_def)

lemma forest_cong: "sm_pager s = sm_pager s' \<Longrightarrow> forest E F s = forest E F s'"
  by (simp add: forest_def)

lemma can_cong: "sm_pager s = sm_pager s' \<Longrightarrow> can_put r k v s = can_put r k v s'"
  "sm_pager s = sm_pager s' \<Longrightarrow> can_del r k s = can_del r k s'"
  by (simp_all add: can_put_def can_del_def)

lemma tree_op_fields:
  "treeGet E r k s = (x, s') \<Longrightarrow> s' = s\<lparr>sm_pager := sm_pager s'\<rparr>"
  "treeInsert E r k v s = (y, s') \<Longrightarrow> s' = s\<lparr>sm_pager := sm_pager s'\<rparr>"
  "treeDelete E r k s = (z, s') \<Longrightarrow> s' = s\<lparr>sm_pager := sm_pager s'\<rparr>"
  by (auto simp: treeGet_def treeInsert_def treeDelete_def onPager_def split: prod.splits sum.splits)

lemma tree_op_table:
  assumes "s' = s\<lparr>sm_pager := sm_pager s'\<rparr>"
  shows "GetTable E n s' = GetTable E n s" "sm_root s' = sm_root s"
  by (subst assms, simp add: GetTable_def)+

lemma schemaInsert_put: "treeInsert E (sm_root s) k d s = (Inr (sm_root s), s') \<Longrightarrow> schemaInsert E k d s = (Inr (), s')"
  by (auto simp: treeInsert_def schemaInsert_def split: prod.splits sum.splits)

section \<open>Storing the schema of a table\<close>

lemma store_schema:
  assumes F: "forest E F s" and m: "F (sm_root s) = Some m" and ln: "ToLower (lib E) (tName ts) = ln" "ToLower (lib E) name = ln"
    and c: "can_put (sm_root s) (tableKey ln) (marshalTable E ts) s"
  obtains s1 s2 where "setTable E name ts s = (Inr (), s1)" and "updateTableSchema E ts s1 = (Inr (), s2)"
    and "forest E (F(sm_root s \<mapsto> m(tableKey ln \<mapsto> marshalTable E ts))) s2" and "sm_root s2 = sm_root s"
    and "\<forall>n. GetTable E n s2 = (if ToLower (lib E) n = ln then Some ts else GetTable E n s)"
    and "\<forall>r k v. r \<noteq> sm_root s \<longrightarrow> F r \<noteq> None \<longrightarrow> can_put r k v s \<longrightarrow> can_put r k v s2" and "indexes s2 = indexes s"
proof -
  let ?s1 = "s\<lparr>tables := AList.update ln ts (tables s)\<rparr>"
  let ?u = "?s1\<lparr>tables := AList.update ln ts (tables ?s1)\<rparr>"
  have u: "forest E F ?u" "F (sm_root ?u) = Some m" "can_put (sm_root ?u) (tableKey ln) (marshalTable E ts) ?u"
    using F m c forest_cong [of s ?u] can_cong(1) [of s ?u] by simp_all
  obtain s2 where s2: "treeInsert E (sm_root ?u) (tableKey ln) (marshalTable E ts) ?u = (Inr (sm_root ?u), s2)"
    "forest E (F(sm_root ?u \<mapsto> m(tableKey ln \<mapsto> marshalTable E ts))) s2"
    "\<forall>r' k' v'. r' \<noteq> sm_root ?u \<longrightarrow> F r' \<noteq> None \<longrightarrow> can_put r' k' v' ?u \<longrightarrow> can_put r' k' v' s2"
    by (rule trees.putE [OF u])
  note G = tree_op_table [OF tree_op_fields(2) [OF s2(1)]]
  have "setTable E name ts s = (Inr (), ?s1)" using ln by (simp add: setTable_def)
  moreover have "updateTableSchema E ts ?s1 = (Inr (), s2)"
    using schemaInsert_put [OF s2(1)] ln by (simp add: updateTableSchema_def Let_def bindS_def)
  moreover have "GetTable E n s2 = (if ToLower (lib E) n = ln then Some ts else GetTable E n s)" for n
    unfolding G(1) by (simp add: GetTable_def update_conv')
  moreover have "can_put r k v ?u = can_put r k v s" for r k v by (rule can_cong) simp
  moreover have "indexes s2 = indexes s" by (subst tree_op_fields(2) [OF s2(1)]) simp
  ultimately show ?thesis using that [of ?s1 s2] s2(2,3) G(2) by auto
qed

section \<open>The entries of the indexes\<close>

text \<open>The entries that a row has in the trees of the indexes of its table: the root of the tree and
  the key.\<close>

definition index_entry :: "env \<Rightarrow> TableSchema \<Rightarrow> Row \<Rightarrow> 64 word \<Rightarrow> SchemaManager \<Rightarrow> string \<Rightarrow> (32 word \<times> byte list) option" where
  "index_entry E ts row rowid s n =
     (case GetIndex E n s of
        None \<Rightarrow> None
      | Some is \<Rightarrow>
          (case ColumnIndex (lib E) (iColumn is) ts of
             None \<Rightarrow> None
           | Some ci \<Rightarrow> if ci < length row then Some (iRootPage is, indexKey (lib E) (row ! ci) rowid) else None))"

definition index_entries :: "env \<Rightarrow> TableSchema \<Rightarrow> Row \<Rightarrow> 64 word \<Rightarrow> SchemaManager \<Rightarrow> string list \<Rightarrow> (32 word \<times> byte list) list" where
  "index_entries E ts row rowid s ns = List.map_filter (index_entry E ts row rowid s) ns"

lemma index_entries_cong: "indexes s = indexes s' \<Longrightarrow> index_entries E ts row rowid s ns = index_entries E ts row rowid s' ns"
  unfolding index_entries_def
  by (rule arg_cong [where f = "\<lambda>f. List.map_filter f ns"]) (simp add: fun_eq_iff index_entry_def GetIndex_def)

lemma index_entries_table: "Columns ts = Columns ts' \<Longrightarrow> index_entries E ts row rowid s ns = index_entries E ts' row rowid s ns"
  unfolding index_entries_def
  by (rule arg_cong [where f = "\<lambda>f. List.map_filter f ns"])
    (simp add: fun_eq_iff index_entry_def ColumnIndex_def cong: option.case_cong)

lemma index_entries_simps [simp]:
  "index_entries E ts row rowid s [] = []"
  "index_entries E ts row rowid s (n # ns) =
     (case index_entry E ts row rowid s n of None \<Rightarrow> [] | Some e \<Rightarrow> [e]) @ index_entries E ts row rowid s ns"
  by (simp_all add: index_entries_def List.map_filter_def split: option.split)

text \<open>The trees with a value, or nothing, under the given entries.\<close>

definition with_entries :: "(32 word \<times> byte list) set \<Rightarrow> byte list option \<Rightarrow>
    (32 word \<Rightarrow> (byte list \<Rightarrow> byte list option) option) \<Rightarrow> 32 word \<Rightarrow> (byte list \<Rightarrow> byte list option) option" where
  "with_entries S v F = (\<lambda>r. map_option (\<lambda>m k. if (r, k) \<in> S then v else m k) (F r))"

lemma with_entries_empty [simp]: "with_entries {} v F = F"
  by (simp add: with_entries_def option.map_ident)

lemma with_entries_upd: "F r = Some m \<Longrightarrow> with_entries S v (F(r \<mapsto> m(k := v))) = with_entries (insert (r, k) S) v F"
  by (auto simp: with_entries_def fun_eq_iff)

lemma with_entries_other: "r \<notin> fst ` S \<Longrightarrow> with_entries S v F r = F r"
  by (cases "F r") (force simp: with_entries_def)+

lemma with_entries_dom [simp]: "with_entries S v F r = None \<longleftrightarrow> F r = None"
  by (simp add: with_entries_def)

text \<open>The entries are in different trees, each of which is in the file.\<close>

definition separate :: "(32 word \<Rightarrow> (byte list \<Rightarrow> byte list option) option) \<Rightarrow> (32 word \<times> byte list) list \<Rightarrow> bool" where
  "separate F es \<longleftrightarrow> distinct (map fst es) \<and> (\<forall>(r, k) \<in> set es. F r \<noteq> None)"

lemma separate_Cons: "separate F ((r, k) # es) \<longleftrightarrow> F r \<noteq> None \<and> r \<notin> fst ` set es \<and> separate F es"
  by (auto simp: separate_def)

lemma separate_upd: "separate F es \<Longrightarrow> separate (F(r \<mapsto> m)) es"
  by (auto simp: separate_def)

lemma ColumnIndex_less: "ColumnIndex G n ts = Some i \<Longrightarrow> i < length (Columns ts)"
  by (auto simp: ColumnIndex_def find_Some_iff)

text \<open>The loops over the indexes make these changes one after the other.\<close>

lemma insertIndexes_entries:
  assumes "forest E F s" and "separate F (index_entries E ts row rowid s ns)" and "length row = length (Columns ts)"
    and "\<forall>(r, k) \<in> set (index_entries E ts row rowid s ns). can_put r k (rowKey rowid) s"
  obtains s' where "insertIndexes E ts row rowid ns s = (Inr (), s')" and "s' = s\<lparr>sm_pager := sm_pager s'\<rparr>"
    and "forest E (with_entries (set (index_entries E ts row rowid s ns)) (Some (rowKey rowid)) F) s'"
proof -
  have "\<exists>s'. insertIndexes E ts row rowid ns s = (Inr (), s') \<and> s' = s\<lparr>sm_pager := sm_pager s'\<rparr> \<and>
      forest E (with_entries (set (index_entries E ts row rowid s ns)) (Some (rowKey rowid)) F) s'"
    using assms(1,2,4)
  proof (induction ns arbitrary: F s)
    case Nil
    then show ?case by (simp add: returnS_def)
  next
    case (Cons n ns)
    show ?case
    proof (cases "index_entry E ts row rowid s n")
      case None
      have "ci < length row" if "ColumnIndex (lib E) c ts = Some ci" for c ci
        using ColumnIndex_less [OF that] assms(3) by simp
      then have "insertIndexes E ts row rowid (n # ns) s = insertIndexes E ts row rowid ns s"
        using None by (auto simp: index_entry_def split: option.splits if_splits)
      with Cons.IH [of F s] Cons.prems None show ?thesis by simp
    next
      case (Some e)
      then obtain r k i ci where e: "e = (r, k)" "GetIndex E n s = Some i" "ColumnIndex (lib E) (iColumn i) ts = Some ci"
        "r = iRootPage i" "k = indexKey (lib E) (row ! ci) rowid"
        by (auto simp: index_entry_def split: option.splits if_splits)
      have P: "F r \<noteq> None" "r \<notin> fst ` set (index_entries E ts row rowid s ns)" "separate F (index_entries E ts row rowid s ns)"
        "can_put r k (rowKey rowid) s"
        using Cons.prems(2,3) Some unfolding e(1) by (simp_all add: separate_Cons)
      then obtain m where m: "F r = Some m" by blast
      obtain s1 where s1: "treeInsert E r k (rowKey rowid) s = (Inr r, s1)" "forest E (F(r \<mapsto> m(k \<mapsto> rowKey rowid))) s1"
        "\<forall>r' k' v'. r' \<noteq> r \<longrightarrow> F r' \<noteq> None \<longrightarrow> can_put r' k' v' s \<longrightarrow> can_put r' k' v' s1"
        by (rule trees.putE [OF Cons.prems(1) m P(4)])
      note f = tree_op_fields(2) [OF s1(1)]
      have ix: "index_entries E ts row rowid s1 ns = index_entries E ts row rowid s ns"
        by (rule index_entries_cong) (subst f, simp)
      have "\<forall>(r, k) \<in> set (index_entries E ts row rowid s1 ns). can_put r k (rowKey rowid) s1"
        using Cons.prems(3) P(2,3) s1(3) Some unfolding ix by (fastforce simp: separate_def)
      with Cons.IH [OF s1(2)] separate_upd [OF P(3)] obtain s' where s': "insertIndexes E ts row rowid ns s1 = (Inr (), s')"
        "s' = s1\<lparr>sm_pager := sm_pager s'\<rparr>"
        "forest E (with_entries (set (index_entries E ts row rowid s ns)) (Some (rowKey rowid)) (F(r \<mapsto> m(k \<mapsto> rowKey rowid)))) s'"
        unfolding ix by blast
      have "insertIndexes E ts row rowid (n # ns) s = (Inr (), s')"
        using s1(1) s'(1) e by (simp add: bindS_def returnS_def)
      moreover have "s' = s\<lparr>sm_pager := sm_pager s'\<rparr>" by (subst s'(2), subst f) simp
      moreover have "forest E (with_entries (set (index_entries E ts row rowid s (n # ns))) (Some (rowKey rowid)) F) s'"
        using s'(3) Some e(1) by (simp add: with_entries_upd [of F r m, OF m])
      ultimately show ?thesis by blast
    qed
  qed
  then show ?thesis using that by blast
qed

lemma deleteIndexes_entries:
  assumes "forest E F s" and "separate F (index_entries E ts row rowid s ns)"
    and "\<forall>(r, k) \<in> set (index_entries E ts row rowid s ns). can_del r k s"
  obtains s' where "deleteIndexes E ts row rowid ns s = (Inr (), s')" and "s' = s\<lparr>sm_pager := sm_pager s'\<rparr>"
    and "forest E (with_entries (set (index_entries E ts row rowid s ns)) None F) s'"
    and "\<forall>r k. r \<notin> fst ` set (index_entries E ts row rowid s ns) \<longrightarrow> F r \<noteq> None \<longrightarrow> can_del r k s \<longrightarrow> can_del r k s'"
proof -
  have "\<exists>s'. deleteIndexes E ts row rowid ns s = (Inr (), s') \<and> s' = s\<lparr>sm_pager := sm_pager s'\<rparr> \<and>
      forest E (with_entries (set (index_entries E ts row rowid s ns)) None F) s' \<and>
      (\<forall>r k. r \<notin> fst ` set (index_entries E ts row rowid s ns) \<longrightarrow> F r \<noteq> None \<longrightarrow> can_del r k s \<longrightarrow> can_del r k s')"
    using assms
  proof (induction ns arbitrary: F s)
    case Nil
    then show ?case by (simp add: returnS_def)
  next
    case (Cons n ns)
    show ?case
    proof (cases "index_entry E ts row rowid s n")
      case None
      then have "deleteIndexes E ts row rowid (n # ns) s = deleteIndexes E ts row rowid ns s"
        by (auto simp: index_entry_def split: option.splits if_splits)
      with Cons.IH [of F s] Cons.prems None show ?thesis by simp
    next
      case (Some e)
      then obtain r k i ci where e: "e = (r, k)" "GetIndex E n s = Some i" "ColumnIndex (lib E) (iColumn i) ts = Some ci"
        "ci < length row" "r = iRootPage i" "k = indexKey (lib E) (row ! ci) rowid"
        by (auto simp: index_entry_def split: option.splits if_splits)
      have P: "F r \<noteq> None" "r \<notin> fst ` set (index_entries E ts row rowid s ns)" "separate F (index_entries E ts row rowid s ns)"
        "can_del r k s"
        using Cons.prems(2,3) Some unfolding e(1) by (simp_all add: separate_Cons)
      then obtain m where m: "F r = Some m" by blast
      obtain s1 where s1: "treeDelete E r k s = (Inr (m k \<noteq> None), s1)" "forest E (F(r \<mapsto> m(k := None))) s1"
        "\<forall>r' k'. r' \<noteq> r \<longrightarrow> F r' \<noteq> None \<longrightarrow> can_del r' k' s \<longrightarrow> can_del r' k' s1"
        by (rule trees.delE [OF Cons.prems(1) m P(4)])
      note f = tree_op_fields(3) [OF s1(1)]
      have ix: "index_entries E ts row rowid s1 ns = index_entries E ts row rowid s ns"
        by (rule index_entries_cong) (subst f, simp)
      have "\<forall>(r, k) \<in> set (index_entries E ts row rowid s1 ns). can_del r k s1"
        using Cons.prems(3) P(2,3) s1(3) Some unfolding ix by (fastforce simp: separate_def)
      with Cons.IH [OF s1(2)] separate_upd [OF P(3)] obtain s' where s': "deleteIndexes E ts row rowid ns s1 = (Inr (), s')"
        "s' = s1\<lparr>sm_pager := sm_pager s'\<rparr>"
        "forest E (with_entries (set (index_entries E ts row rowid s ns)) None (F(r \<mapsto> m(k := None)))) s'"
        "\<forall>r' k'. r' \<notin> fst ` set (index_entries E ts row rowid s ns) \<longrightarrow> (F(r \<mapsto> m(k := None))) r' \<noteq> None \<longrightarrow>
           can_del r' k' s1 \<longrightarrow> can_del r' k' s'"
        unfolding ix by blast
      have "deleteIndexes E ts row rowid (n # ns) s = (Inr (), s')"
        using s1(1) s'(1) e by (simp add: bindS_def ignoreS_def)
      moreover have "s' = s\<lparr>sm_pager := sm_pager s'\<rparr>" by (subst s'(2), subst f) simp
      moreover have "forest E (with_entries (set (index_entries E ts row rowid s (n # ns))) None F) s'"
        using s'(3) Some e(1) by (simp add: with_entries_upd [of F r m, OF m])
      moreover have "can_del r' k' s'" if "r' \<notin> fst ` set (index_entries E ts row rowid s (n # ns))" "F r' \<noteq> None" "can_del r' k' s" for r' k'
        using that s'(4) s1(3) Some e(1) by auto
      ultimately show ?thesis by blast
    qed
  qed
  then show ?thesis using that by blast
qed

section \<open>Rows\<close>

lemma mapE_nth: "mapE f xs = Inr ys \<Longrightarrow> length ys = length xs \<and> (\<forall>i < length xs. f (xs ! i) = Inr (ys ! i))"
proof (induction xs arbitrary: ys)
  case (Cons x xs)
  then obtain y ys' where "f x = Inr y" "mapE f xs = Inr ys'" "ys = y # ys'" by (auto simp: bindE_eq_Inr)
  with Cons.IH [of ys'] show ?case by (auto simp: nth_Cons split: nat.split)
qed simp

lemma chooseRowID_fields:
  assumes "chooseRowID ts row0 = (rowid, row, ts')"
  shows "tName ts' = tName ts" "tRootPage ts' = tRootPage ts" "Indexes ts' = Indexes ts" "Columns ts' = Columns ts"
  using assms by (auto simp: chooseRowID_def Let_def split: option.splits if_splits)

definition get_row :: "byte list option \<Rightarrow> Row option res" where
  "get_row d = (case d of None \<Rightarrow> Inr None | Some x \<Rightarrow> bindE (DecodeRow x) (\<lambda>row. Inr (Some row)))"

lemma GetByID_map:
  assumes "GetTable E name (te_schema t) = Some ts" and "forest E F (te_schema t)" and "F (tRootPage ts) = Some m"
  shows "fst (GetByID E name rowid t) = get_row (m (rowKey rowid))"
proof -
  obtain s' where "treeGet E (tRootPage ts) (rowKey rowid) (te_schema t) = (Inr (m (rowKey rowid)), s')"
    by (rule trees.getE [OF assms(2,3)])
  from onSchema_eq [of "treeGet E (tRootPage ts) (rowKey rowid)", OF this] show ?thesis using assms(1)
    by (cases "m (rowKey rowid)") (auto simp: GetByID_def get_row_def bindE_def bindT_def split: sum.split)
qed

lemma get_row_encode: "row_ok row \<Longrightarrow> get_row (Some (EncodeRow row)) = Inr (Some row)"
  using decode_encode_row [of row "[]"] by (simp add: get_row_def)

text \<open>The state in which the operations on rows are looked at: the schema tree and the tree of
  the table are two trees of the file.\<close>

definition table_in :: "env \<Rightarrow> string \<Rightarrow> TableSchema \<Rightarrow> (32 word \<Rightarrow> (byte list \<Rightarrow> byte list option) option) \<Rightarrow>
    (byte list \<Rightarrow> byte list option) \<Rightarrow> TableEngine \<Rightarrow> bool" where
  "table_in E name ts F m t \<longleftrightarrow> GetTable E name (te_schema t) = Some ts \<and>
     ToLower (lib E) (tName ts) = ToLower (lib E) name \<and> forest E F (te_schema t) \<and>
     F (tRootPage ts) = Some m \<and> F (sm_root (te_schema t)) \<noteq> None \<and> tRootPage ts \<noteq> sm_root (te_schema t)"

lemma table_inD:
  assumes "table_in E name ts F m t"
  shows "GetTable E name (te_schema t) = Some ts" "ToLower (lib E) (tName ts) = ToLower (lib E) name"
    "forest E F (te_schema t)" "F (tRootPage ts) = Some m" "F (sm_root (te_schema t)) \<noteq> None"
    "tRootPage ts \<noteq> sm_root (te_schema t)"
  using assms by (simp_all add: table_in_def)

text \<open>The part of an insert up to the lookup of the key.\<close>

lemma insert_prefix:
  assumes T: "table_in E name ts F m t" and c: "chooseRowID ts row0 = (rowid, row, ts')"
    and p: "can_put (sm_root (te_schema t)) (tableKey (ToLower (lib E) name)) (marshalTable E ts') (te_schema t)"
  obtains s1 s2 s3 F' where "setTable E name ts' (te_schema t) = (Inr (), s1)" and "updateTableSchema E ts' s1 = (Inr (), s2)"
    and "treeGet E (tRootPage ts) (rowKey rowid) s2 = (Inr (m (rowKey rowid)), s3)"
    and "\<And>r k v. r \<noteq> sm_root (te_schema t) \<Longrightarrow> F r \<noteq> None \<Longrightarrow> can_put r k v (te_schema t) \<Longrightarrow> can_put r k v s3"
    and "\<And>t'. te_schema t' = s3 \<Longrightarrow> table_in E name ts' F' m t'" and "F' (tRootPage ts) = Some m"
    and "\<And>sm. F (sm_root (te_schema t)) = Some sm \<Longrightarrow>
      F' (sm_root (te_schema t)) = Some (sm(tableKey (ToLower (lib E) name) \<mapsto> marshalTable E ts'))"
    and "indexes s3 = indexes (te_schema t)"
    and "forest E F' s3" and "sm_root s3 = sm_root (te_schema t)"
    and "\<And>r. r \<noteq> sm_root (te_schema t) \<Longrightarrow> F' r = F r"
    and "\<And>n. GetTable E n s3 = (if ToLower (lib E) n = ToLower (lib E) name then Some ts' else GetTable E n (te_schema t))"
proof -
  note D = table_inD [OF T]
  note C = chooseRowID_fields [OF c]
  obtain sm where sm: "F (sm_root (te_schema t)) = Some sm" using D(5) by blast
  let ?F = "F(sm_root (te_schema t) \<mapsto> sm(tableKey (ToLower (lib E) name) \<mapsto> marshalTable E ts'))"
  obtain s1 s2 where s: "setTable E name ts' (te_schema t) = (Inr (), s1)" "updateTableSchema E ts' s1 = (Inr (), s2)"
    "forest E ?F s2" "sm_root s2 = sm_root (te_schema t)"
    "\<forall>n. GetTable E n s2 = (if ToLower (lib E) n = ToLower (lib E) name then Some ts' else GetTable E n (te_schema t))"
    "\<forall>r k v. r \<noteq> sm_root (te_schema t) \<longrightarrow> F r \<noteq> None \<longrightarrow> can_put r k v (te_schema t) \<longrightarrow> can_put r k v s2"
    "indexes s2 = indexes (te_schema t)"
    by (rule store_schema [OF D(3) sm _ refl p]) (use C D(2) in auto)
  have Fr: "?F (tRootPage ts) = Some m" using D(4,6) by simp
  obtain s3 where s3: "treeGet E (tRootPage ts) (rowKey rowid) s2 = (Inr (m (rowKey rowid)), s3)" "forest E ?F s3"
    "\<forall>r' k' v'. ?F r' \<noteq> None \<longrightarrow> can_put r' k' v' s2 \<longrightarrow> can_put r' k' v' s3"
    by (rule trees.getE [OF s(3) Fr])
  note G = tree_op_table [OF tree_op_fields(1) [OF s3(1)]]
  have "can_put r k v s3" if "r \<noteq> sm_root (te_schema t)" "F r \<noteq> None" "can_put r k v (te_schema t)" for r k v
  proof -
    have "can_put r k v s2" using s(6) that by simp
    with s3(3) that show ?thesis by simp
  qed
  moreover have "indexes s3 = indexes (te_schema t)" by (subst tree_op_fields(1) [OF s3(1)]) (simp add: s(7))
  moreover have "table_in E name ts' ?F m t'" if "te_schema t' = s3" for t'
    using that s3(2) Fr D(2,6) C G s(4,5) by (simp add: table_in_def)
  ultimately show ?thesis using that [of s1 s2 s3 ?F] s(1,2,4,5) s3(1,2) Fr G sm by auto
qed

text \<open>A row under a new id.\<close>

lemma buildRow_length:
  assumes "buildRow G ts cols vs = Inr row"
  shows "length row = length (Columns ts)"
proof (cases "cols = []")
  case True
  then show ?thesis using assms mapE_nth [of "\<lambda>(v, c). CoerceValue G v (cType c)" "zip vs (Columns ts)" row]
    by (auto simp: buildRow_def split: if_splits)
next
  case False
  have "length row' = length row0" if "assignCols G ts cvs row0 = Inr row'" for cvs row0 row'
    using that by (induction G ts cvs row0 rule: assignCols.induct) (auto simp: bindE_eq_Inr split: option.splits)
  with False assms show ?thesis by (fastforce simp: buildRow_def split: if_splits)
qed

lemma chooseRowID_length: "chooseRowID ts row0 = (rowid, row, ts') \<Longrightarrow> length row = length row0"
  by (auto simp: chooseRowID_def Let_def split: option.splits if_splits)

lemma Insert_new:
  assumes T: "table_in E name ts F m t"
    and b: "buildRow (lib E) ts cols vs = Inr row0" "checkNotNull ts row0 = Inr ()" "chooseRowID ts row0 = (rowid, row, ts')"
    and es: "es = index_entries E ts row rowid (te_schema t) (Indexes ts)"
    and sep: "separate F es" "tRootPage ts \<notin> fst ` set es" "sm_root (te_schema t) \<notin> fst ` set es"
    and p: "can_put (sm_root (te_schema t)) (tableKey (ToLower (lib E) name)) (marshalTable E ts') (te_schema t)"
    and q: "can_put (tRootPage ts) (rowKey rowid) (EncodeRow row) (te_schema t)"
    and ix: "\<forall>(r, k) \<in> set es. can_put r k (rowKey rowid) (te_schema t)" and new: "m (rowKey rowid) = None"
  obtains t' F' where "InsertWithConflict E name cols vs act t = (Inr (), t')"
    and "table_in E name ts' F' (m(rowKey rowid \<mapsto> EncodeRow row)) t'" and "lastInsertRowID t' = rowid"
    and "changes t' = changes t + 1"
    and "\<And>r. r \<noteq> sm_root (te_schema t) \<Longrightarrow> r \<noteq> tRootPage ts \<Longrightarrow> F' r = with_entries (set es) (Some (rowKey rowid)) F r"
    and "\<And>n. GetTable E n (te_schema t') = (if ToLower (lib E) n = ToLower (lib E) name then Some ts' else GetTable E n (te_schema t))"
    and "sm_root (te_schema t') = sm_root (te_schema t)"
    and "\<And>sm. F (sm_root (te_schema t)) = Some sm \<Longrightarrow>
      F' (sm_root (te_schema t)) = Some (sm(tableKey (ToLower (lib E) name) \<mapsto> marshalTable E ts'))"
proof -
  note D = table_inD [OF T]
  note C = chooseRowID_fields [OF b(3)]
  let ?r = "tRootPage ts" and ?k = "rowKey rowid" and ?S = "sm_root (te_schema t)"
  obtain s1 s2 s3 F1 where s: "setTable E name ts' (te_schema t) = (Inr (), s1)" "updateTableSchema E ts' s1 = (Inr (), s2)"
    "treeGet E ?r ?k s2 = (Inr (m ?k), s3)"
    "\<And>r k v. r \<noteq> ?S \<Longrightarrow> F r \<noteq> None \<Longrightarrow> can_put r k v (te_schema t) \<Longrightarrow> can_put r k v s3"
    "F1 ?r = Some m" "forest E F1 s3" "sm_root s3 = ?S" "\<And>r. r \<noteq> ?S \<Longrightarrow> F1 r = F r"
    "\<And>n. GetTable E n s3 = (if ToLower (lib E) n = ToLower (lib E) name then Some ts' else GetTable E n (te_schema t))"
    and T1: "\<And>t'. te_schema t' = s3 \<Longrightarrow> table_in E name ts' F1 m t'" and i3: "indexes s3 = indexes (te_schema t)"
    and S1: "\<And>sm. F ?S = Some sm \<Longrightarrow> F1 ?S = Some (sm(tableKey (ToLower (lib E) name) \<mapsto> marshalTable E ts'))"
    by (rule insert_prefix [OF T b(3) p]) blast
  have "can_put ?r ?k (EncodeRow row) s3" using s(4) [OF D(6) _ q] D(4) by simp
  then obtain s4 where s4: "treeInsert E ?r ?k (EncodeRow row) s3 = (Inr ?r, s4)"
    "forest E (F1(?r \<mapsto> m(?k \<mapsto> EncodeRow row))) s4"
    "\<forall>r' k' v'. r' \<noteq> ?r \<longrightarrow> F1 r' \<noteq> None \<longrightarrow> can_put r' k' v' s3 \<longrightarrow> can_put r' k' v' s4"
    by (rule trees.putE [OF s(6,5)])
  note f4 = tree_op_fields(2) [OF s4(1)]
  note G = tree_op_table [OF f4]
  let ?F2 = "F1(?r \<mapsto> m(?k \<mapsto> EncodeRow row))"
  have "indexes s4 = indexes (te_schema t)" by (subst f4) (simp add: i3)
  then have es4: "index_entries E ts' row rowid s4 (Indexes ts') = es"
    unfolding es C(3) using index_entries_cong [of s4 "te_schema t" E ts' row rowid "Indexes ts"] index_entries_table [OF C(4)] by simp
  have root: "r \<noteq> ?S \<and> r \<noteq> ?r" if "(r, k) \<in> set es" for r k using that sep(2,3) by force
  have "separate ?F2 es" unfolding separate_def
    using sep(1) root s(8) by (fastforce simp: separate_def)
  moreover have "\<forall>(r, k) \<in> set es. can_put r k (rowKey rowid) s4"
  proof (clarify)
    fix r k assume e: "(r, k) \<in> set es"
    then have "F r \<noteq> None" using sep(1) by (auto simp: separate_def)
    with e root [OF e] ix s(4,8) s4(3) show "can_put r k (rowKey rowid) s4" by fastforce
  qed
  moreover have "length row = length (Columns ts')"
    using buildRow_length [OF b(1)] chooseRowID_length [OF b(3)] C(4) by simp
  ultimately obtain s5 where s5: "insertIndexes E ts' row rowid (Indexes ts') s4 = (Inr (), s5)" "s5 = s4\<lparr>sm_pager := sm_pager s5\<rparr>"
    "forest E (with_entries (set es) (Some (rowKey rowid)) ?F2) s5"
    using insertIndexes_entries [OF s4(2), of ts' row rowid "Indexes ts'"] unfolding es4 by metis
  note G5 = tree_op_table [OF s5(2)]
  let ?F3 = "with_entries (set es) (Some (rowKey rowid)) ?F2"
  let ?t' = "t\<lparr>te_schema := s5, lastInsertRowID := rowid, changes := changes t + 1\<rparr>"
  have w: "?F3 ?r = Some (m(?k \<mapsto> EncodeRow row))" "?F3 ?S = F1 ?S"
    using with_entries_other [OF sep(2), of "Some (rowKey rowid)" ?F2] with_entries_other [OF sep(3), of "Some (rowKey rowid)" ?F2] D(6)
    by simp_all
  have "InsertWithConflict E name cols vs act t = (Inr (), ?t')"
    using D(1) b s(1-3) s4(1) s5(1) new C
    by (simp add: InsertWithConflict_def bindT_def onSchema_def Let_def returnS_def)
  moreover have "table_in E name ts' ?F3 (m(?k \<mapsto> EncodeRow row)) ?t'"
    using T1 [of "t\<lparr>te_schema := s3\<rparr>"] s5(3) G G5 C w s(7) by (simp add: table_in_def)
  moreover have "GetTable E n (te_schema ?t') = (if ToLower (lib E) n = ToLower (lib E) name then Some ts' else GetTable E n (te_schema t))" for n
    using G(1) G5(1) s(9) by simp
  moreover have "?F3 r = with_entries (set es) (Some (rowKey rowid)) F r" if "r \<noteq> ?S" "r \<noteq> ?r" for r
    using that s(8) by (simp add: with_entries_def)
  moreover have "sm_root (te_schema ?t') = ?S" using G(2) G5(2) s(7) by simp
  ultimately show ?thesis using S1 w(2)
    by (intro that [of ?t' ?F3]) simp_all
qed

text \<open>A row whose id is taken.\<close>

lemma Insert_taken:
  assumes T: "table_in E name ts F m t"
    and b: "buildRow (lib E) ts cols vs = Inr row0" "checkNotNull ts row0 = Inr ()" "chooseRowID ts row0 = (rowid, row, ts')"
    and p: "can_put (sm_root (te_schema t)) (tableKey (ToLower (lib E) name)) (marshalTable E ts') (te_schema t)"
    and old: "m (rowKey rowid) \<noteq> None" and act: "act \<noteq> ConflictReplace"
  obtains t' F' where "InsertWithConflict E name cols vs act t =
      (if act = ConflictIgnore then Inr () else Inl (ErrConstraint (FormatInt rowid)), t')"
    and "table_in E name ts' F' m t'" and "lastInsertRowID t' = lastInsertRowID t" and "changes t' = changes t"
    and "\<And>r. r \<noteq> sm_root (te_schema t) \<Longrightarrow> F' r = F r"
proof -
  note D = table_inD [OF T]
  note C = chooseRowID_fields [OF b(3)]
  obtain s1 s2 s3 F1 where s: "setTable E name ts' (te_schema t) = (Inr (), s1)" "updateTableSchema E ts' s1 = (Inr (), s2)"
    "treeGet E (tRootPage ts) (rowKey rowid) s2 = (Inr (m (rowKey rowid)), s3)"
    "\<And>r. r \<noteq> sm_root (te_schema t) \<Longrightarrow> F1 r = F r"
    and T1: "\<And>t'. te_schema t' = s3 \<Longrightarrow> table_in E name ts' F1 m t'"
    by (rule insert_prefix [OF T b(3) p]) blast
  let ?t' = "t\<lparr>te_schema := s3\<rparr>"
  have "InsertWithConflict E name cols vs act t =
      (if act = ConflictIgnore then Inr () else Inl (ErrConstraint (FormatInt rowid)), ?t')"
    using D(1) b s(1-3) old act C
    by (cases "m (rowKey rowid)") (simp_all add: InsertWithConflict_def bindT_def onSchema_def Let_def)
  moreover have "table_in E name ts' F1 m ?t'" by (rule T1) simp
  ultimately show ?thesis using s(4) by (intro that [of ?t' F1]) auto
qed


text \<open>Deleting a row with its index entries, and updating one whose indexed columns stay.\<close>

definition old_row :: "byte list option \<Rightarrow> Row" where
  "old_row d = (case d of None \<Rightarrow> [] | Some x \<Rightarrow> projr (DecodeRow x))"

lemma DeleteRow_map:
  assumes T: "table_in E name ts F m t" and p: "can_del (tRootPage ts) (rowKey rowid) (te_schema t)"
    and old: "\<forall>d. m (rowKey rowid) = Some d \<longrightarrow> (\<exists>row. DecodeRow d = Inr row)"
    and es: "es = index_entries E ts (old_row (m (rowKey rowid))) rowid (te_schema t) (Indexes ts)"
    and sep: "separate F es" "tRootPage ts \<notin> fst ` set es" "sm_root (te_schema t) \<notin> fst ` set es"
    and ix: "\<forall>(r, k) \<in> set es. can_del r k (te_schema t)"
  obtains t' F' where "DeleteRow E name rowid t = (Inr (m (rowKey rowid) \<noteq> None), t')"
    and "table_in E name ts F' (m(rowKey rowid := None)) t'"
    and "F' = (if m (rowKey rowid) = None then F else with_entries (insert (tRootPage ts, rowKey rowid) (set es)) None F)"
    and "changes t' = (if m (rowKey rowid) = None then changes t else changes t + 1)"
    and "lastInsertRowID t' = lastInsertRowID t"
proof -
  note D = table_inD [OF T]
  let ?k = "rowKey rowid" and ?r = "tRootPage ts"
  obtain s1 where s1: "treeGet E ?r ?k (te_schema t) = (Inr (m ?k), s1)" "forest E F s1"
    "\<forall>r' k'. F r' \<noteq> None \<longrightarrow> can_del r' k' (te_schema t) \<longrightarrow> can_del r' k' s1"
    by (rule trees.getE [OF D(3,4)])
  note f1 = tree_op_fields(1) [OF s1(1)]
  note G1 = tree_op_table [OF f1]
  show ?thesis
  proof (cases "m ?k")
    case None
    then have e: "m(?k := None) = m" by auto
    have "DeleteRow E name rowid t = (Inr False, t\<lparr>te_schema := s1\<rparr>)"
      using D(1) s1(1) None by (simp add: DeleteRow_def bindT_def onSchema_def)
    moreover have "table_in E name ts F m (t\<lparr>te_schema := s1\<rparr>)" using T s1(2) G1 by (simp add: table_in_def)
    ultimately show ?thesis using that [of "t\<lparr>te_schema := s1\<rparr>" F] None unfolding e by simp
  next
    case (Some d)
    then obtain row where row: "DecodeRow d = Inr row" using old by blast
    have "indexes s1 = indexes (te_schema t)" by (subst f1) simp
    from index_entries_cong [OF this, of E ts row rowid "Indexes ts"]
    have es1: "index_entries E ts row rowid s1 (Indexes ts) = es" by (simp add: es old_row_def Some row)
    have "\<forall>(r, k) \<in> set es. can_del r k s1" using ix s1(3) sep(1) by (fastforce simp: separate_def)
    then obtain s2 where s2: "deleteIndexes E ts row rowid (Indexes ts) s1 = (Inr (), s2)" "s2 = s1\<lparr>sm_pager := sm_pager s2\<rparr>"
      "forest E (with_entries (set es) None F) s2"
      "\<forall>r k. r \<notin> fst ` set es \<longrightarrow> F r \<noteq> None \<longrightarrow> can_del r k s1 \<longrightarrow> can_del r k s2"
      using deleteIndexes_entries [OF s1(2), of ts row rowid "Indexes ts"] sep(1) unfolding es1 by metis
    note G2 = tree_op_table [OF s2(2)]
    let ?F2 = "with_entries (set es) None F"
    have Fr: "?F2 ?r = Some m" "?F2 (sm_root (te_schema t)) = F (sm_root (te_schema t))"
      using with_entries_other [OF sep(2), of None F] with_entries_other [OF sep(3), of None F] D(4) by simp_all
    have "can_del ?r ?k s2" using s2(4) s1(3) sep(2) D(4) p by simp
    then obtain s3 where s3: "treeDelete E ?r ?k s2 = (Inr (m ?k \<noteq> None), s3)" "forest E (?F2(?r \<mapsto> m(?k := None))) s3"
      by (rule trees.delE [OF s2(3) Fr(1)])
    note G3 = tree_op_table [OF tree_op_fields(3) [OF s3(1)]]
    let ?t' = "t\<lparr>te_schema := s3, changes := changes t + 1\<rparr>"
    have "DeleteRow E name rowid t = (Inr True, ?t')"
      using D(1) s1(1) s2(1) s3(1) Some row by (simp add: DeleteRow_def bindT_def onSchema_def returnS_def)
    moreover have F': "?F2(?r \<mapsto> m(?k := None)) = with_entries (insert (?r, ?k) (set es)) None F"
      using D(4) sep(2) by (force simp: with_entries_def fun_eq_iff)
    moreover have "table_in E name ts (?F2(?r \<mapsto> m(?k := None))) (m(?k := None)) ?t'"
      using T s3(2) G1 G2 G3 Fr by (simp add: table_in_def)
    ultimately show ?thesis using that [of ?t' "?F2(?r \<mapsto> m(?k := None))"] Some by simp
  qed
qed

lemma updateIndexes_other:
  assumes "\<forall>n \<in> set ns. \<forall>i. GetIndex E n s = Some i \<longrightarrow> map_of updates (ToLower (lib E) (iColumn i)) = None"
  shows "updateIndexes E ts updates oldRow row rowid ns s = (Inr (), s)"
  using assms by (induction ns) (auto simp: returnS_def split: option.split)

lemma UpdateRow_map:
  assumes T: "table_in E name ts F m t"
    and ix: "\<forall>n \<in> set (Indexes ts). \<forall>i. GetIndex E n (te_schema t) = Some i \<longrightarrow> map_of updates (ToLower (lib E) (iColumn i)) = None"
    and old: "m (rowKey rowid) = Some d" "DecodeRow d = Inr row0"
    and u: "applyUpdates (lib E) ts updates (extendRow ts row0) = Inr row"
    and p: "can_put (tRootPage ts) (rowKey rowid) (EncodeRow row) (te_schema t)"
  obtains t' where "UpdateRow E name rowid updates t = (Inr (), t')"
    and "table_in E name ts (F(tRootPage ts \<mapsto> m(rowKey rowid \<mapsto> EncodeRow row))) (m(rowKey rowid \<mapsto> EncodeRow row)) t'"
    and "changes t' = changes t + 1" and "lastInsertRowID t' = lastInsertRowID t"
proof -
  note D = table_inD [OF T]
  let ?k = "rowKey rowid" and ?r = "tRootPage ts"
  obtain s1 where s1: "treeGet E ?r ?k (te_schema t) = (Inr (m ?k), s1)" "forest E F s1"
    "\<forall>r' k' v'. F r' \<noteq> None \<longrightarrow> can_put r' k' v' (te_schema t) \<longrightarrow> can_put r' k' v' s1"
    by (rule trees.getE [OF D(3,4)])
  note f1 = tree_op_fields(1) [OF s1(1)]
  note G1 = tree_op_table [OF f1]
  have "GetIndex E n s1 = GetIndex E n (te_schema t)" for n unfolding GetIndex_def by (subst f1) simp
  with ix have u1: "updateIndexes E ts updates (extendRow ts row0) row rowid (Indexes ts) s1 = (Inr (), s1)"
    by (intro updateIndexes_other) simp
  have "can_put ?r ?k (EncodeRow row) s1" using s1(3) D(4) p by simp
  then obtain s2 where s2: "treeInsert E ?r ?k (EncodeRow row) s1 = (Inr ?r, s2)"
    "forest E (F(?r \<mapsto> m(?k \<mapsto> EncodeRow row))) s2"
    by (rule trees.putE [OF s1(2) D(4)])
  note G2 = tree_op_table [OF tree_op_fields(2) [OF s2(1)]]
  let ?t' = "t\<lparr>te_schema := s2, changes := changes t + 1\<rparr>"
  have "UpdateRow E name rowid updates t = (Inr (), ?t')"
    using D(1) s1(1) s2(1) old u u1 by (simp add: UpdateRow_def bindT_def onSchema_def returnS_def Let_def)
  moreover have "table_in E name ts (F(?r \<mapsto> m(?k \<mapsto> EncodeRow row))) (m(?k \<mapsto> EncodeRow row)) ?t'"
    using T s2(2) G1 G2 by (simp add: table_in_def)
  ultimately show ?thesis using that [of ?t'] by simp
qed

section \<open>The row that an insert builds\<close>

text \<open>The value that an insert gives for a column: the only one of its position without column names,
  and otherwise the last one under a name of the column.\<close>

definition named_value :: "golib \<Rightarrow> TableSchema \<Rightarrow> (string \<times> Value) list \<Rightarrow> nat \<Rightarrow> Value option" where
  "named_value G ts cvs i = map_of (rev (map (\<lambda>(n, v). (ColumnIndex G n ts, v)) cvs)) (Some i)"

definition given_value :: "golib \<Rightarrow> TableSchema \<Rightarrow> string list \<Rightarrow> Value list \<Rightarrow> nat \<Rightarrow> Value option" where
  "given_value G ts cols vs i = (if cols = [] then Some (vs ! i) else named_value G ts (zip cols vs) i)"

lemma assignCols_given:
  assumes "assignCols G ts cvs row = Inr row'" and "length row = length (Columns ts)" and "i < length row"
  shows "case named_value G ts cvs i of None \<Rightarrow> row' ! i = row ! i
    | Some v \<Rightarrow> CoerceValue G v (cType (Columns ts ! i)) = Inr (row' ! i)"
  using assms
proof (induction cvs arbitrary: row)
  case Nil
  then show ?case by (simp add: named_value_def)
next
  case (Cons cv cvs)
  obtain n v where cv: "cv = (n, v)" by fastforce
  from Cons.prems(1) obtain k w where k: "ColumnIndex G n ts = Some k" "CoerceValue G v (cType (Columns ts ! k)) = Inr w"
    "assignCols G ts cvs (row[k := w]) = Inr row'"
    unfolding cv by (auto simp: bindE_eq_Inr split: option.splits)
  have "named_value G ts (cv # cvs) i =
      (case named_value G ts cvs i of None \<Rightarrow> if i = k then Some v else None | Some u \<Rightarrow> Some u)"
    by (simp add: named_value_def cv k(1) map_add_def split: option.split)
  with Cons.IH [OF k(3)] Cons.prems(2,3) k(2) show ?case
    by (cases "i = k") (auto split: option.splits)
qed

lemma buildRow_given:
  assumes "buildRow G ts cols vs = Inr row" and "i < length (Columns ts)"
  shows "case given_value G ts cols vs i of None \<Rightarrow> row ! i = defaultValue (Columns ts ! i)
    | Some v \<Rightarrow> CoerceValue G v (cType (Columns ts ! i)) = Inr (row ! i)"
proof (cases "cols = []")
  case True
  then have l: "length vs = length (Columns ts)" and m: "mapE (\<lambda>(v, c). CoerceValue G v (cType c)) (zip vs (Columns ts)) = Inr row"
    using assms(1) by (auto simp: buildRow_def split: if_splits)
  have "CoerceValue G (vs ! i) (cType (Columns ts ! i)) = Inr (row ! i)" using mapE_nth [OF m] l assms(2) by simp
  with True show ?thesis by (simp add: given_value_def)
next
  case False
  then have a: "assignCols G ts (zip cols vs) (map defaultValue (Columns ts)) = Inr row"
    using assms(1) by (simp add: buildRow_def split: if_splits)
  from assignCols_given [OF a, of i] False assms(2) show ?thesis by (simp add: given_value_def cong: option.case_cong)
qed

lemma given_value_in:
  assumes "buildRow G ts cols vs = Inr row" and "i < length (Columns ts)" and "given_value G ts cols vs i = Some v"
  shows "v \<in> set vs"
proof (cases "cols = []")
  case True
  then have "length vs = length (Columns ts)" using assms(1) by (auto simp: buildRow_def split: if_splits)
  with True assms(2,3) show ?thesis by (auto simp: given_value_def)
next
  case False
  with assms(3) have "(Some i, v) \<in> set (rev (map (\<lambda>(n, v). (ColumnIndex G n ts, v)) (zip cols vs)))"
    using map_of_SomeD [of _ "Some i" v] by (simp add: given_value_def named_value_def del: set_rev set_map)
  then show ?thesis by (auto dest: set_zip_rightD)
qed

lemma value_ok_default: "value_ok (defaultValue c)"
  by (simp add: defaultValue_def)

lemma checkNotNull_ok:
  assumes "checkNotNull ts row = Inr ()" and "length row = length (Columns ts)" and "i < length row"
    and "NotNull (Columns ts ! i)" and "\<not> PrimaryKey (Columns ts ! i)"
  shows "vType (row ! i) \<noteq> ValNull"
proof
  assume n: "vType (row ! i) = ValNull"
  have "(Columns ts ! i, row ! i) \<in> set (zip (Columns ts) row)"
    using assms(2,3) by (metis length_zip min.idem nth_mem nth_zip)
  moreover have "find (\<lambda>(c, v). NotNull c \<and> vType v = ValNull \<and> \<not> PrimaryKey c) (zip (Columns ts) row) = None"
    using assms(1) by (auto simp: checkNotNull_def split: option.splits)
  ultimately show False using n assms(4,5) by (fastforce simp: find_None_iff)
qed

end
