(* ===== verification/Scan.thy ===== *)
theory Scan
  imports TableOps
begin

text \<open>
  Cursors over a tree (\<open>NewCursor\<close>, \<open>Current\<close>, \<open>Advance\<close>): on a tree in which every leaf
  holds a cell and every internal page a separator, the loops that the callers run over a
  cursor end and visit the cells of all leaves from left to right, each once.
\<close>

primrec items :: "tree \<Rightarrow> (byte list \<times> byte list) list" where
  "items (TLeaf i xs) = xs"
| "items (TNode i ks cs) = concat (map items cs)"

primrec full :: "tree \<Rightarrow> bool" where
  "full (TLeaf i xs) = (xs \<noteq> [])"
| "full (TNode i ks cs) = (ks \<noteq> [] \<and> (\<forall>b \<in> set (map full cs). b))"

definition ready :: "Pager \<Rightarrow> bool" where
  "ready s \<longleftrightarrow> pager_inv {} s \<and> no_fault s"

lemma readyD: "ready s \<Longrightarrow> pager_inv {} s" "ready s \<Longrightarrow> no_fault s"
  by (simp_all add: ready_def)

section \<open>One page\<close>

lemma bind_page:
  "GetPage i s = (Inr a, s') \<Longrightarrow> p_heap s' a = Some pg \<Longrightarrow> bindP (GetPage i) (\<lambda>a. bindP (readObj a) (f a)) s = f a pg s'"
  by (simp add: bindP_def readObj_def)

lemma fetch_leaf:
  assumes r: "ready s" and t: "repr (view s) (TLeaf i xs)"
  obtains s' a and pg :: Page where "GetPage i s = (Inr a, s')" and "p_heap s' a = Some pg" and "ready s'" and "keeps s s'" and "i \<noteq> InvalidPage" and "Type pg = PageTypeLeaf" and "unat (CellCount pg) = length xs"
    and "\<And>k. k < length xs \<Longrightarrow> \<exists>c. cellOf pg (of_int (int k)) = Inr c \<and> (Key c, Value c) = xs ! k"
proof -
  obtain p where p: "view s i = Some (Data p)" "i \<noteq> InvalidPage" "leaf_inv p" "Type p = PageTypeLeaf" "page_items p = xs"
    using t by (rule repr_leafE)
  obtain s' a and pg :: Page where g: "GetPage i s = (Inr a, s')" "p_heap s' a = Some pg"
    "pager_inv {} s'" "no_fault s'" "Data pg = Data p" "keeps s s'"
    by (rule GetPage_ok [OF readyD [OF r] p(1)]) (rule that; assumption)
  note D = same_data [OF g(5)]
  have wf: "wf_page pg" "page_items pg = xs" "Type pg = PageTypeLeaf" using leaf_invD [OF p(3)] p(4,5) by (simp_all add: D)
  have n: "ncells pg = length xs" using length_page_items [of pg] wf(2) by simp
  have "\<exists>c. cellOf pg (of_int (int k)) = Inr c \<and> (Key c, Value c) = xs ! k" if "k < length xs" for k
    using cellOf_wf [OF wf(1), of k] nth_page_items [of k pg] that n wf(2) by auto
  with g p(2) wf(3) n show ?thesis by (intro that [of a s' pg]) (simp_all add: ready_def ncells_def)
qed


lemma fetch_node:
  assumes r: "ready s" and t: "repr (view s) (TNode i ks cs)"
  obtains s' a and pg :: Page where "GetPage i s = (Inr a, s')" and "p_heap s' a = Some pg" and "ready s'" and "keeps s s'" and "i \<noteq> InvalidPage" and "Type pg = PageTypeInternal"
    and "unat (CellCount pg) = length ks" and "\<And>j. j < length cs \<Longrightarrow> childAt pg (int j) = Inr (tree_id (cs ! j))"
proof -
  obtain p where p: "view s i = Some (Data p)" "i \<noteq> InvalidPage" "leaf_inv p" "Type p = PageTypeInternal" "page_items p = ks"
    "map tree_id cs = kids p"
    using t by (rule repr_nodeE)
  obtain s' a and pg :: Page where g: "GetPage i s = (Inr a, s')" "p_heap s' a = Some pg"
    "pager_inv {} s'" "no_fault s'" "Data pg = Data p" "keeps s s'"
    by (rule GetPage_ok [OF readyD [OF r] p(1)]) (rule that; assumption)
  note D = same_data [OF g(5)]
  have wf: "wf_page pg" "page_items pg = ks" "Type pg = PageTypeInternal" "kids pg = map tree_id cs"
    using leaf_invD [OF p(3)] p(4-6) by (simp_all add: D)
  have n: "ncells pg = length ks" using length_page_items [of pg] wf(2) by simp
  have "childAt pg (int j) = Inr (tree_id (cs ! j))" if "j < length cs" for j
    using childAt_wf [OF wf(1), of j] repr_length [OF t] that n wf(4) by simp
  with g p(2) wf(3) n show ?thesis by (intro that [of a s' pg]) (simp_all add: ready_def ncells_def)
qed

lemma childAt_cell:
  assumes "childAt pg 0 = Inr p" and "0 < unat (CellCount pg)"
  shows "\<exists>c. cellOf pg 0 = Inr c \<and> LeftPtr c = p"
proof -
  have "\<not> 0 \<ge> int (unat (CellCount pg))" using assms(2) by linarith
  with assms(1) show ?thesis by (simp only: childAt_def) (auto simp: bindE_eq_Inr)
qed

section \<open>Positions\<close>

text \<open>\<open>path v n st r\<close>: the frames below the top of a stack; \<open>r\<close> are the cells to the right of
  them. \<open>n\<close> bounds the height of the trees that are still to be entered.\<close>

inductive path :: "(32 word \<Rightarrow> byte list option) \<Rightarrow> nat \<Rightarrow> (32 word \<times> int) list \<Rightarrow> (byte list \<times> byte list) list \<Rightarrow> bool"
  for v n where
  empty: "path v n [] []"
| frame: "path v n st r \<Longrightarrow> repr v (TNode i ks cs) \<Longrightarrow> j < length cs \<Longrightarrow> (\<forall>c \<in> set cs. full c \<and> height c \<le> n) \<Longrightarrow>
    path v n ((i, int j) # st) (concat (map items (drop (Suc j) cs)) @ r)"

inductive_cases pathE: "path v n (f # st) r"

lemma path_mono: "path v n st r \<Longrightarrow> v \<subseteq>\<^sub>m w \<Longrightarrow> path w n st r"
proof (induction rule: path.induct)
  case empty
  show ?case by (rule path.empty)
next
  case (frame st r i ks cs j)
  from path.frame [OF frame.IH [OF frame.prems] repr_mono [OF frame.hyps(2) frame.prems] frame.hyps(3,4)] show ?case .
qed

definition leaf_pos :: "(32 word \<Rightarrow> byte list option) \<Rightarrow> nat \<Rightarrow> (32 word \<times> int) list \<Rightarrow> (byte list \<times> byte list) list \<Rightarrow> bool" where
  "leaf_pos v n st rest \<longleftrightarrow> (\<exists>i xs k st' r. st = (i, int k) # st' \<and> repr v (TLeaf i xs) \<and> k < length xs \<and>
     path v n st' r \<and> rest = drop k xs @ r)"

definition cursor_at :: "(32 word \<Rightarrow> byte list option) \<Rightarrow> nat \<Rightarrow> Cursor \<Rightarrow> (byte list \<times> byte list) list \<Rightarrow> bool" where
  "cursor_at v n c rest \<longleftrightarrow> (if atEnd c then rest = [] else leaf_pos v n (stack c) rest)"

lemma keeps_le: "keeps s s' \<Longrightarrow> view s \<subseteq>\<^sub>m view s'"
  by (simp add: keeps_def)

lemma leaf_pos_mono: "leaf_pos v n st rest \<Longrightarrow> v \<subseteq>\<^sub>m w \<Longrightarrow> leaf_pos w n st rest"
  unfolding leaf_pos_def by (elim exE conjE, intro exI conjI) (assumption | erule (1) repr_mono path_mono)+

lemma full_node:
  assumes "full (TNode i ks cs)" and "height (TNode i ks cs) \<le> n"
  shows "ks \<noteq> []" and "\<forall>c \<in> set cs. full c \<and> height c \<le> n" and "c \<in> set cs \<Longrightarrow> height c < height (TNode i ks cs)"
proof -
  show "ks \<noteq> []" using assms(1) by simp
  have h: "height c < height (TNode i ks cs)" if "c \<in> set cs" for c
    using height_child [of _ cs i ks] that by (metis in_set_conv_nth)
  then show "c \<in> set cs \<Longrightarrow> height c < height (TNode i ks cs)" .
  show "\<forall>c \<in> set cs. full c \<and> height c \<le> n" using assms h by force
qed

text \<open>Down the left edge of a tree.\<close>

lemma descend_ok:
  assumes "ready s" and "repr (view s) t" and "full t" and "height t \<le> m" and "height t \<le> n" and "path (view s) n st r"
  shows "\<exists>st' s'. descend m (tree_id t) st s = (Inr st', s') \<and>
    rewindFrom m (tree_id t) st s = (Inr \<lparr>stack = st', atEnd = False\<rparr>, s') \<and>
    leaf_pos (view s') n st' (items t @ r) \<and> ready s' \<and> keeps s s'"
  using assms
proof (induction t arbitrary: s st r m rule: tree.induct)
  case (TLeaf i xs)
  then obtain m' where m: "m = Suc m'" by (cases m) auto
  obtain s' a and pg :: Page where g: "GetPage i s = (Inr a, s')" "p_heap s' a = Some pg" "ready s'" "keeps s s'"
    "i \<noteq> InvalidPage" "Type pg = PageTypeLeaf" "unat (CellCount pg) = length xs"
    by (rule fetch_leaf [OF TLeaf.prems(1,2)])
  have c: "CellCount pg > 0" "CellCount pg \<noteq> 0" using g(7) TLeaf.prems(3) by (auto simp: word_greater_zero_iff)
  have "repr (view s') (TLeaf i xs)" "path (view s') n st r"
    using repr_mono [OF TLeaf.prems(2) keeps_le [OF g(4)]] path_mono [OF TLeaf.prems(6) keeps_le [OF g(4)]] by simp_all
  then have "leaf_pos (view s') n ((i, 0) # st) (items (TLeaf i xs) @ r)"
    using TLeaf.prems(3) unfolding leaf_pos_def
    by (intro exI [of _ i] exI [of _ xs] exI [of _ 0] exI [of _ st] exI [of _ r]) simp
  with g c show ?case
    by (intro exI [of _ "(i, 0) # st"] exI [of _ s']) (simp add: m bind_page [OF g(1,2)])
next
  case (TNode i ks cs)
  then obtain m' where m: "m = Suc m'" by (cases m) auto
  obtain s' a and pg :: Page where g: "GetPage i s = (Inr a, s')" "p_heap s' a = Some pg" "ready s'" "keeps s s'"
    "i \<noteq> InvalidPage" "Type pg = PageTypeInternal" "unat (CellCount pg) = length ks"
    "\<And>j. j < length cs \<Longrightarrow> childAt pg (int j) = Inr (tree_id (cs ! j))"
    by (rule fetch_node [OF TNode.prems(1,2)]) (rule that, assumption+)
  note N = full_node [OF TNode.prems(3,5)]
  have l: "0 < length cs" using repr_length [OF TNode.prems(2)] by simp
  then obtain c where c: "cellOf pg 0 = Inr c" "LeftPtr c = tree_id (cs ! 0)"
    using childAt_cell [of pg "tree_id (cs ! 0)"] g(8) [of 0] g(7) N(1) by auto
  have v: "repr (view s') (TNode i ks cs)" "path (view s') n st r"
    using repr_mono [OF TNode.prems(2) keeps_le [OF g(4)]] path_mono [OF TNode.prems(6) keeps_le [OF g(4)]] by simp_all
  have c0: "cs ! 0 \<in> set cs" using l by simp
  have r0: "repr (view s') (cs ! 0)" using v(1) c0 by (auto elim: repr_nodeE)
  have P: "path (view s') n ((i, 0) # st) (concat (map items (drop 1 cs)) @ r)"
    using path.frame [OF v(2,1) l N(2)] by simp
  have h: "height (cs ! 0) \<le> m'" "height (cs ! 0) \<le> n" "full (cs ! 0)"
    using N(2) N(3) [OF c0] c0 TNode.prems(4) unfolding m by simp_all
  obtain st' s'' where D: "descend m' (tree_id (cs ! 0)) ((i, 0) # st) s' = (Inr st', s'')"
    "rewindFrom m' (tree_id (cs ! 0)) ((i, 0) # st) s' = (Inr \<lparr>stack = st', atEnd = False\<rparr>, s'')"
    "leaf_pos (view s'') n st' (items (cs ! 0) @ concat (map items (drop 1 cs)) @ r)" "ready s''" "keeps s' s''"
    using TNode.IH [OF c0 g(3) r0 h(3,1,2) P] by blast
  have "items (cs ! 0) @ concat (map items (drop 1 cs)) = items (TNode i ks cs)"
    using l by (cases cs) simp_all
  with D(3) have "leaf_pos (view s'') n st' (items (TNode i ks cs) @ r)" by (metis append_assoc)
  moreover have "keeps s s''" by (rule keeps_trans [OF g(4) D(5)])
  ultimately show ?case using D g(5,6) c
    by (intro exI [of _ st'] exI [of _ s''])
      (simp add: m bind_page [OF g(1,2)] PageTypeLeaf_def PageTypeInternal_def)
qed


section \<open>The cursor as an iterator\<close>

lemma rewindFrom_empty:
  assumes "ready s" and "repr (view s) (TLeaf i [])"
  shows "\<exists>s'. rewindFrom (Suc m) i st s = (Inr \<lparr>stack = st, atEnd = True\<rparr>, s') \<and> ready s' \<and> keeps s s'"
proof -
  obtain s' a and pg :: Page where g: "GetPage i s = (Inr a, s')" "p_heap s' a = Some pg" "ready s'" "keeps s s'"
    "i \<noteq> InvalidPage" "Type pg = PageTypeLeaf" "unat (CellCount pg) = length ([] :: (byte list \<times> byte list) list)"
    by (rule fetch_leaf [OF assms])
  then have "CellCount pg = 0" by (simp add: unat_eq_0)
  with g show ?thesis by (intro exI [of _ s']) (simp add: bind_page [OF g(1,2)])
qed

lemma NewCursor_ok:
  assumes "ready s" and "repr (view s) t" and "full t \<or> (\<exists>i. t = TLeaf i [])" and "height t \<le> m"
  shows "\<exists>c s'. NewCursor m (tree_id t) s = (Inr c, s') \<and> cursor_at (view s') m c (items t) \<and> ready s' \<and> keeps s s'"
proof -
  have id: "tree_id t \<noteq> InvalidPage" using assms(2) by (cases rule: repr.cases) auto
  show ?thesis
  proof (cases "full t")
    case True
    from descend_ok [OF assms(1,2) True assms(4,4) path.empty] id show ?thesis
      by (fastforce simp: NewCursor_def cursor_at_def)
  next
    case False
    then obtain i where t: "t = TLeaf i []" using assms(3) by blast
    obtain m' where m: "m = Suc m'" using assms(4) t by (cases m) auto
    from assms(2) have "repr (view s) (TLeaf i [])" by (simp add: t)
    from rewindFrom_empty [OF assms(1) this, of m' "[]"] obtain s' where
      "rewindFrom (Suc m') i [] s = (Inr \<lparr>stack = [], atEnd = True\<rparr>, s')" "ready s'" "keeps s s'" by blast
    then show ?thesis using id
      by (intro exI [of _ "\<lparr>stack = [], atEnd = True\<rparr>"] exI [of _ s'])
        (simp add: NewCursor_def cursor_at_def t m del: rewindFrom.simps)
  qed
qed

lemma Current_ok:
  assumes "ready s" and "cursor_at (view s) n c (x # rest)"
  shows "\<exists>cell s'. Current c s = (Inr (Some cell), s') \<and> (Key cell, Value cell) = x \<and> ready s' \<and> keeps s s'"
proof -
  obtain i xs k st r where p: "\<not> atEnd c" "stack c = (i, int k) # st" "repr (view s) (TLeaf i xs)" "k < length xs"
    "x # rest = drop k xs @ r"
    using assms(2) unfolding cursor_at_def leaf_pos_def by (auto split: if_splits)
  obtain s' a and pg :: Page where g: "GetPage i s = (Inr a, s')" "p_heap s' a = Some pg" "ready s'" "keeps s s'"
    "\<And>k. k < length xs \<Longrightarrow> \<exists>c. cellOf pg (of_int (int k)) = Inr c \<and> (Key c, Value c) = xs ! k"
    by (rule fetch_leaf [OF assms(1) p(3)]) (rule that, assumption+)
  from g(5) [OF p(4)] obtain cell where c: "cellOf pg (of_int (int k)) = Inr cell" "(Key cell, Value cell) = xs ! k" by blast
  have "x = xs ! k" using p(4,5) by (simp add: Cons_nth_drop_Suc [symmetric])
  moreover have "Current c s = (Inr (Some cell), s')"
    unfolding Current_def using p(1,2) c(1) by (simp add: bind_page [OF g(1,2)] del: of_int_of_nat_eq)
  ultimately show ?thesis using c(2) g(3,4) by auto
qed

text \<open>Popping the frames that are used up.\<close>

lemma advanceStack_path:
  assumes "ready s" and "path (view s) n st r" and "n \<le> m"
  shows "\<exists>c s'. advanceStack m st s = (Inr c, s') \<and> cursor_at (view s') n c r \<and> ready s' \<and> keeps s s'"
  using assms
proof (induction st arbitrary: s r)
  case Nil
  from Nil.prems(2) have "r = []" by cases
  with Nil show ?case by (simp add: cursor_at_def)
next
  case (Cons f st)
  from Cons.prems(2) obtain r0 i ks cs j where f: "f = (i, int j)" "r = concat (map items (drop (Suc j) cs)) @ r0"
    and P: "path (view s) n st r0" and t: "repr (view s) (TNode i ks cs)" and j: "j < length cs"
    and cs: "\<forall>c \<in> set cs. full c \<and> height c \<le> n" by (rule pathE)
  obtain s' a and pg :: Page where g: "GetPage i s = (Inr a, s')" "p_heap s' a = Some pg" "ready s'" "keeps s s'"
    "Type pg = PageTypeInternal" "unat (CellCount pg) = length ks"
    "\<And>j. j < length cs \<Longrightarrow> childAt pg (int j) = Inr (tree_id (cs ! j))"
    by (rule fetch_node [OF Cons.prems(1) t]) (rule that, assumption+)
  have v: "repr (view s') (TNode i ks cs)" "path (view s') n st r0"
    using repr_mono [OF t keeps_le [OF g(4)]] path_mono [OF P keeps_le [OF g(4)]] by simp_all
  have ty: "Type pg \<noteq> PageTypeLeaf" using g(5) by (simp add: PageTypeLeaf_def PageTypeInternal_def)
  note l = repr_length [OF t]
  show ?case
  proof (cases "Suc j < length cs")
    case True
    let ?t = "cs ! Suc j"
    have in_cs: "?t \<in> set cs" using True by simp
    have h: "full ?t" "height ?t \<le> m" "height ?t \<le> n" using cs in_cs Cons.prems(3) by auto
    have rt: "repr (view s') ?t" using v(1) in_cs by (auto elim: repr_nodeE)
    have "path (view s') n ((i, int (Suc j)) # st) (concat (map items (drop (Suc (Suc j)) cs)) @ r0)"
      by (rule path.frame [OF v(2,1) True cs])
    from descend_ok [OF g(3) rt h this] obtain st' s'' where
      D: "descend m (tree_id ?t) ((i, int (Suc j)) # st) s' = (Inr st', s'')"
      "leaf_pos (view s'') n st' (items ?t @ concat (map items (drop (Suc (Suc j)) cs)) @ r0)" "ready s''" "keeps s' s''"
      by blast
    have e: "items ?t @ concat (map items (drop (Suc (Suc j)) cs)) @ r0 = r"
      unfolding f(2) using True by (simp add: Cons_nth_drop_Suc [symmetric])
    have "childAt pg (int j + 1) = Inr (tree_id ?t)" using g(7) [OF True] by (simp add: add.commute)
    moreover have "\<not> int j + 1 > int (unat (CellCount pg))" using True l g(6) by linarith
    ultimately have "advanceStack m ((i, int j) # st) s = (Inr \<lparr>stack = st', atEnd = False\<rparr>, s'')"
      using D(1) ty by (simp add: bind_page [OF g(1,2)] add.commute)
    then show ?thesis using D(2-4) keeps_trans [OF g(4) D(4)] unfolding e
      by (intro exI [of _ "\<lparr>stack = st', atEnd = False\<rparr>"] exI [of _ s'']) (simp add: cursor_at_def f(1))
  next
    case False
    then have "int j + 1 > int (unat (CellCount pg))" using l g(6) by linarith
    then have "advanceStack m ((i, int j) # st) s = advanceStack m st s'"
      using ty by (simp add: bind_page [OF g(1,2)])
    moreover obtain c s'' where "advanceStack m st s' = (Inr c, s'')" "cursor_at (view s'') n c r0" "ready s''" "keeps s' s''"
      using Cons.IH [OF g(3) v(2) Cons.prems(3)] by blast
    moreover have "r = r0" using False f(2) by simp
    ultimately show ?thesis using keeps_trans [OF g(4)] unfolding f(1) by metis
  qed
qed


lemma Advance_ok:
  assumes "ready s" and "cursor_at (view s) n c (x # rest)" and "n \<le> m"
  shows "\<exists>c' s'. Advance m c s = (Inr c', s') \<and> cursor_at (view s') n c' rest \<and> ready s' \<and> keeps s s'"
proof -
  obtain i xs k st r where p: "\<not> atEnd c" "stack c = (i, int k) # st" "repr (view s) (TLeaf i xs)" "k < length xs"
    "path (view s) n st r" "x # rest = drop k xs @ r"
    using assms(2) unfolding cursor_at_def leaf_pos_def by (auto split: if_splits)
  have rest: "rest = drop (Suc k) xs @ r" using p(4,6) by (simp add: Cons_nth_drop_Suc [symmetric])
  obtain s' a and pg :: Page where g: "GetPage i s = (Inr a, s')" "p_heap s' a = Some pg" "ready s'" "keeps s s'"
    "Type pg = PageTypeLeaf" "unat (CellCount pg) = length xs"
    by (rule fetch_leaf [OF assms(1) p(3)])
  note v = repr_mono [OF p(3) keeps_le [OF g(4)]] path_mono [OF p(5) keeps_le [OF g(4)]]
  show ?thesis
  proof (cases "Suc k < length xs")
    case True
    then have "int k + 1 < int (unat (CellCount pg))" using g(6) by linarith
    then have "Advance m c s = (Inr \<lparr>stack = (i, int k + 1) # st, atEnd = False\<rparr>, s')"
      using p(1,2) g(5) by (simp add: Advance_def bind_page [OF g(1,2)])
    moreover have "leaf_pos (view s') n ((i, int (Suc k)) # st) rest"
      using True v rest unfolding leaf_pos_def by blast
    ultimately show ?thesis using g(3,4) by (auto simp: cursor_at_def add.commute)
  next
    case False
    then have "\<not> int k + 1 < int (unat (CellCount pg))" using g(6) by linarith
    then have "Advance m c s = advanceStack m st s'"
      using p(1,2) g(5) by (simp add: Advance_def bind_page [OF g(1,2)])
    moreover have "rest = r" using False rest by simp
    ultimately show ?thesis
      using advanceStack_path [OF g(3) v(2) assms(3)] keeps_trans [OF g(4)] by metis
  qed
qed

text \<open>A tree whose first leaf is empty, whatever the others hold: the new cursor is at its end.\<close>

primrec starts_empty :: "tree \<Rightarrow> bool" where
  "starts_empty (TLeaf i xs) = (xs = [])"
| "starts_empty (TNode i ks cs) = (ks \<noteq> [] \<and> map starts_empty cs ! 0)"

lemma rewindFrom_starts_empty:
  assumes "ready s" and "repr (view s) t" and "starts_empty t" and "height t \<le> m"
  shows "\<exists>st' s'. rewindFrom m (tree_id t) st s = (Inr \<lparr>stack = st', atEnd = True\<rparr>, s')"
  using assms
proof (induction t arbitrary: s st m rule: tree.induct)
  case (TLeaf i xs)
  then obtain m' where m: "m = Suc m'" by (cases m) auto
  from TLeaf.prems have "repr (view s) (TLeaf i [])" by simp
  from rewindFrom_empty [OF TLeaf.prems(1) this, of m' st] show ?case by (auto simp: m simp del: rewindFrom.simps)
next
  case (TNode i ks cs)
  then obtain m' where m: "m = Suc m'" by (cases m) auto
  obtain s' a and pg :: Page where g: "GetPage i s = (Inr a, s')" "p_heap s' a = Some pg" "ready s'" "keeps s s'"
    "i \<noteq> InvalidPage" "Type pg = PageTypeInternal" "unat (CellCount pg) = length ks"
    "\<And>j. j < length cs \<Longrightarrow> childAt pg (int j) = Inr (tree_id (cs ! j))"
    by (rule fetch_node [OF TNode.prems(1,2)]) (rule that, assumption+)
  have l: "0 < length cs" using repr_length [OF TNode.prems(2)] by simp
  then obtain c where c: "cellOf pg 0 = Inr c" "LeftPtr c = tree_id (cs ! 0)"
    using childAt_cell [of pg "tree_id (cs ! 0)"] g(8) [of 0] g(7) TNode.prems(3) by auto
  have c0: "cs ! 0 \<in> set cs" using l by simp
  have r0: "repr (view s') (cs ! 0)"
    using repr_mono [OF TNode.prems(2) keeps_le [OF g(4)]] c0 by (auto elim: repr_nodeE)
  have "height (cs ! 0) < height (TNode i ks cs)" by (rule height_child [OF l])
  then have h: "height (cs ! 0) \<le> m'" using TNode.prems(4) m by linarith
  have e: "starts_empty (cs ! 0)" using TNode.prems(3) l by simp
  obtain st' s'' where "rewindFrom m' (tree_id (cs ! 0)) ((i, 0) # st) s' = (Inr \<lparr>stack = st', atEnd = True\<rparr>, s'')"
    using TNode.IH [OF c0 g(3) r0 e h] by blast
  then show ?case using g(5,6) c
    by (intro exI [of _ st'] exI [of _ s''])
      (simp add: m bind_page [OF g(1,2)] PageTypeLeaf_def PageTypeInternal_def)
qed

lemma NewCursor_starts_empty:
  assumes "ready s" and "repr (view s) t" and "starts_empty t" and "height t \<le> m"
  shows "\<exists>c s'. NewCursor m (tree_id t) s = (Inr c, s') \<and> atEnd c"
proof -
  have "tree_id t \<noteq> InvalidPage" using assms(2) by (cases rule: repr.cases) auto
  with rewindFrom_starts_empty [OF assms, of "[]"] show ?thesis by (fastforce simp: NewCursor_def)
qed

section \<open>The order of the cells\<close>

text \<open>When every cell is where a lookup of its key finds it, and no key has two cells, the cells of
  the leaves from left to right are in the order of their keys.\<close>

definition placed :: "tree \<Rightarrow> bool" where
  "placed t \<longleftrightarrow> distinct (map fst (items t)) \<and> (\<forall>(k, d) \<in> set (items t). lookup t k = Some d)"

lemma lookup_items: "repr v t \<Longrightarrow> lookup t k = Some d \<Longrightarrow> (k, d) \<in> set (items t)"
proof (induction t)
  case (TLeaf i xs)
  then show ?case by (simp add: map_of_SomeD)
next
  case (TNode i ks cs)
  note C = repr_child [OF TNode.prems(1), of k]
  have "cs ! pos ks k \<in> set cs" using C(1) by simp
  with TNode.IH [OF this C(2)] TNode.prems(2) C(1) show ?case by auto
qed

lemma distinct_concat_nth:
  "distinct (concat (map f xs)) \<Longrightarrow> i < length xs \<Longrightarrow> j < length xs \<Longrightarrow> y \<in> set (f (xs ! i)) \<Longrightarrow> y \<in> set (f (xs ! j)) \<Longrightarrow> i = j"
proof (induction xs arbitrary: i j)
  case (Cons x xs)
  have x: "y \<notin> set (f x)" if "n < length xs" "y \<in> set (f (xs ! n))" for n
    using Cons.prems(1) that nth_mem by fastforce
  show ?case
    using Cons.IH Cons.prems x by (cases i; cases j) auto
qed simp

lemma sorted_wrt_concat:
  assumes "\<And>x. x \<in> set xs \<Longrightarrow> sorted_wrt P (f x)"
    and "\<And>i j a b. i < j \<Longrightarrow> j < length xs \<Longrightarrow> a \<in> set (f (xs ! i)) \<Longrightarrow> b \<in> set (f (xs ! j)) \<Longrightarrow> P a b"
  shows "sorted_wrt P (concat (map f xs))"
  using assms
proof (induction xs)
  case (Cons x xs)
  have "P a b" if a: "a \<in> set (f x)" and b: "b \<in> set (concat (map f xs))" for a b
  proof -
    from b obtain y where "y \<in> set xs" "b \<in> set (f y)" by auto
    then obtain j where "j < length xs" "b \<in> set (f (xs ! j))" by (metis in_set_conv_nth)
    with Cons.prems(2) [of 0 "Suc j" a b] a show ?thesis by simp
  qed
  moreover have "sorted_wrt P (concat (map f xs))"
  proof (rule Cons.IH)
    show "sorted_wrt P (f y)" if "y \<in> set xs" for y using Cons.prems(1) that by simp
    show "P a b" if "i < j" "j < length xs" "a \<in> set (f (xs ! i))" "b \<in> set (f (xs ! j))" for i j a b
      using Cons.prems(2) [of "Suc i" "Suc j" a b] that by simp
  qed
  ultimately show ?case using Cons.prems(1) [of x] by (simp add: sorted_wrt_append)
qed simp

lemma pos_less: "keys_sorted ks \<Longrightarrow> pos ks a < pos ks b \<Longrightarrow> a < b"
proof (rule ccontr)
  assume "\<not> a < b"
  then have "\<forall>x \<in> set ks. fst x < b \<longrightarrow> fst x < a" by auto
  then have "length (takeWhile (\<lambda>x. fst x < b) ks) \<le> length (takeWhile (\<lambda>x. fst x < a) ks)"
    by (induction ks) auto
  moreover assume "pos ks a < pos ks b"
  ultimately show False by (simp add: pos_def)
qed

lemma placed_sorted: "repr v t \<Longrightarrow> placed t \<Longrightarrow> keys_sorted (items t)"
proof (induction t)
  case (TLeaf i xs)
  then show ?case by (auto elim: repr_leafE dest: leaf_invD)
next
  case (TNode i ks cs)
  have ks: "keys_sorted ks" using TNode.prems(1) by (auto elim: repr_nodeE dest: leaf_invD)
  have d: "distinct (concat (map (\<lambda>c. map fst (items c)) cs))"
    using TNode.prems(2) by (simp add: placed_def map_concat o_def)
  have at: "pos ks k = j \<and> lookup (cs ! j) k = Some x" if "j < length cs" "(k, x) \<in> set (items (cs ! j))" for j k x
  proof -
    have "(k, x) \<in> set (items (TNode i ks cs))" using that by auto
    then have "lookup (TNode i ks cs) k = Some x" using TNode.prems(2) unfolding placed_def by blast
    then have l: "lookup (cs ! pos ks k) k = Some x" using repr_child(1) [OF TNode.prems(1), of k] by simp
    then have "(k, x) \<in> set (items (cs ! pos ks k))" by (rule lookup_items [OF repr_child(2) [OF TNode.prems(1)]])
    then have "k \<in> set (map fst (items (cs ! pos ks k)))" "k \<in> set (map fst (items (cs ! j)))" using that(2) by force+
    then have "pos ks k = j" by (rule distinct_concat_nth [OF d repr_child(1) [OF TNode.prems(1)] that(1)])
    with l show ?thesis by simp
  qed
  have "sorted_wrt (<) (concat (map (\<lambda>c. map fst (items c)) cs))"
  proof (rule sorted_wrt_concat)
    fix c assume c: "c \<in> set cs"
    then obtain j where j: "j < length cs" "c = cs ! j" by (auto simp: in_set_conv_nth)
    have "distinct (map fst (items c))" using d c by (auto simp: distinct_concat_iff)
    then have "placed c" using at [OF j(1)] unfolding placed_def j(2) by auto
    moreover have "repr v c" using TNode.prems(1) c by (auto elim: repr_nodeE)
    ultimately show "sorted_wrt (<) (map fst (items c))" using TNode.IH [OF c] by (simp add: keys_sorted_def)
  next
    fix i' j a b assume h: "i' < j" "j < length cs" "a \<in> set (map fst (items (cs ! i')))" "b \<in> set (map fst (items (cs ! j)))"
    then have "pos ks a = i'" "pos ks b = j" using at by auto
    with h(1) show "a < b" by (intro pos_less [OF ks]) simp
  qed
  then show ?case by (simp add: keys_sorted_def map_concat o_def)
qed

section \<open>Row keys in their order\<close>

primrec bytes_of :: "nat \<Rightarrow> nat \<Rightarrow> byte list" where
  "bytes_of 0 n = []"
| "bytes_of (Suc c) n = of_nat (n div 256 ^ c) # bytes_of c n"

lemma bytes_of_less: "bytes_of c n < bytes_of c m \<longleftrightarrow> n mod 256 ^ c < m mod 256 ^ c"
proof (induction c)
  case (Suc c)
  define q where "q = (256 :: nat) ^ c"
  have q: "q > 0" by (simp add: q_def)
  have e: "x mod 256 ^ Suc c = q * (x div q mod 256) + x mod q" for x :: nat
    using mod_mult2_eq [of x q 256] by (simp add: q_def mult.commute)
  have b: "unat (of_nat (x div q) :: byte) = x div q mod 256" for x by (simp add: unat_of_nat)
  have cmp: "q * a + r < q * b + t \<longleftrightarrow> a < b \<or> a = b \<and> r < t" if "r < q" "t < q" for a b r t :: nat
  proof (cases a b rule: linorder_cases)
    case less
    then have "q * Suc a \<le> q * b" by (intro mult_le_mono2) simp
    with that less show ?thesis by simp
  next
    case greater
    then have "q * Suc b \<le> q * a" by (intro mult_le_mono2) simp
    with that greater show ?thesis by simp
  qed simp
  have "bytes_of (Suc c) n < bytes_of (Suc c) m \<longleftrightarrow>
      n div q mod 256 < m div q mod 256 \<or> n div q mod 256 = m div q mod 256 \<and> n mod q < m mod q"
    using Suc.IH b [of n] b [of m] by (simp add: q_def [symmetric] word_less_nat_alt word_unat_eq_iff)
  then show ?case unfolding e using cmp q by simp
qed simp

lemma be64_bytes: "be64 v = bytes_of (Suc (Suc (Suc (Suc (Suc (Suc (Suc (Suc 0)))))))) (unat v)"
proof -
  have u: "unat (drop_bit k v) = unat v div 2 ^ k" for k unfolding unat_drop_bit_eq by (rule drop_bit_eq_div)
  have "(ucast (drop_bit k v) :: byte) = of_nat (unat v div 2 ^ k)" for k
    by (simp add: word_unat_eq_iff unsigned_ucast_eq unat_of_nat take_bit_eq_mod u)
  moreover have "(ucast v :: byte) = of_nat (unat v)"
    by (simp add: word_unat_eq_iff unsigned_ucast_eq unat_of_nat take_bit_eq_mod)
  ultimately show ?thesis by (simp add: be64_def)
qed

lemma rowKey_less: "rowKey a < rowKey b \<longleftrightarrow> a < b"
  using unsigned_less [of a, where 'a = nat] unsigned_less [of b, where 'a = nat]
  unfolding rowKey_def be64_bytes bytes_of_less by (simp add: word_less_nat_alt)

section \<open>The loops over a cursor\<close>

text \<open>An iterator: a state that stands before a list of elements, a look at the first and a
  step. What the loops of the callers need of the cursor.\<close>

locale iterator =
  fixes at :: "'s \<Rightarrow> 'c \<Rightarrow> 'a list \<Rightarrow> bool"
    and fin :: "'c \<Rightarrow> bool"
    and cur :: "'c \<Rightarrow> 's \<Rightarrow> 'b res \<times> 's"
    and step :: "'c \<Rightarrow> 's \<Rightarrow> 'c res \<times> 's"
    and shows_elem :: "'b \<Rightarrow> 'a \<Rightarrow> bool"
    and same :: "'s \<Rightarrow> 's \<Rightarrow> bool"
  assumes at_done: "at s c xs \<Longrightarrow> fin c \<longleftrightarrow> xs = []"
    and cur_law: "at s c (x # xs) \<Longrightarrow> \<exists>b s'. cur c s = (Inr b, s') \<and> shows_elem b x \<and> at s' c (x # xs) \<and> same s s'"
    and step_law: "at s c (x # xs) \<Longrightarrow> \<exists>c' s'. step c s = (Inr c', s') \<and> at s' c' xs \<and> same s s'"
    and same_refl: "same s s"
    and same_trans: "same s t \<Longrightarrow> same t u \<Longrightarrow> same s u"
begin

text \<open>A loop body \<open>loop\<close> that is over at the end, and otherwise steps and goes on.\<close>

lemma count_loop:
  assumes "at s c xs" and "length xs < n"
    and stop: "\<And>n c k s. fin c \<Longrightarrow> loop (Suc n) c k s = (Inr k, s)"
    and go: "\<And>n c k s c' s'. \<not> fin c \<Longrightarrow> step c s = (Inr c', s') \<Longrightarrow> loop (Suc n) c k s = loop n c' (f k) s'"
  shows "\<exists>s'. loop n c k s = (Inr ((f ^^ length xs) k), s') \<and> same s s'"
  using assms(1,2)
proof (induction xs arbitrary: n c k s)
  case Nil
  then obtain m where "n = Suc m" by (cases n) auto
  with stop at_done [OF Nil(1)] same_refl show ?case by auto
next
  case (Cons x xs)
  then obtain m where n: "n = Suc m" by (cases n) auto
  obtain c' s' where st: "step c s = (Inr c', s')" "at s' c' xs" "same s s'" using step_law [OF Cons.prems(1)] by blast
  have "\<not> fin c" using at_done [OF Cons.prems(1)] by simp
  from go [OF this st(1), of m k] Cons.IH [OF st(2), of m "f k"] Cons.prems(2) n st(3) show ?case
    by (auto simp: funpow_swap1 intro: same_trans)
qed

lemma collect_loop:
  assumes "at s c xs" and "length xs < n" and "\<And>x. x \<in> set xs \<Longrightarrow> ok x"
    and stop: "\<And>n c s. fin c \<Longrightarrow> loop (Suc n) c s = (Inr [], s)"
    and go: "\<And>n c s b s1 c' s2 rest s3 x. \<not> fin c \<Longrightarrow> cur c s = (Inr b, s1) \<Longrightarrow> shows_elem b x \<Longrightarrow> ok x \<Longrightarrow>
      step c s1 = (Inr c', s2) \<Longrightarrow> loop n c' s2 = (Inr rest, s3) \<Longrightarrow> loop (Suc n) c s = (Inr (g x # rest), s3)"
  shows "\<exists>s'. loop n c s = (Inr (map g xs), s') \<and> same s s'"
  using assms(1,2,3)
proof (induction xs arbitrary: n c s)
  case Nil
  then obtain m where "n = Suc m" by (cases n) auto
  with stop at_done [OF Nil(1)] same_refl show ?case by auto
next
  case (Cons x xs)
  then obtain m where n: "n = Suc m" by (cases n) auto
  obtain b s1 where b: "cur c s = (Inr b, s1)" "shows_elem b x" "at s1 c (x # xs)" "same s s1"
    using cur_law [OF Cons.prems(1)] by blast
  obtain c' s2 where st: "step c s1 = (Inr c', s2)" "at s2 c' xs" "same s1 s2" using step_law [OF b(3)] by blast
  have "length xs < m" using Cons.prems(2) n by simp
  then obtain s3 where r: "loop m c' s2 = (Inr (map g xs), s3)" "same s2 s3"
    using Cons.IH [OF st(2)] Cons.prems(3) by auto
  have "\<not> fin c" using at_done [OF Cons.prems(1)] by simp
  from go [OF this b(1,2) Cons.prems(3) st(1) r(1)] n b(4) st(3) r(2) show ?case
    by (auto intro: same_trans)
qed

end

definition cursor_in :: "nat \<Rightarrow> Pager \<Rightarrow> Cursor \<Rightarrow> (byte list \<times> byte list) list \<Rightarrow> bool" where
  "cursor_in n s c rest \<longleftrightarrow> ready s \<and> cursor_at (view s) n c rest"

definition shows_cell :: "Cell option \<Rightarrow> byte list \<times> byte list \<Rightarrow> bool" where
  "shows_cell b x \<longleftrightarrow> (case b of None \<Rightarrow> False | Some c \<Rightarrow> (Key c, Value c) = x)"

lemma cursor_at_mono: "cursor_at v n c rest \<Longrightarrow> v \<subseteq>\<^sub>m w \<Longrightarrow> cursor_at w n c rest"
  by (auto simp: cursor_at_def intro: leaf_pos_mono split: if_splits)

interpretation cursor: iterator "cursor_in n" atEnd Current "Advance n" shows_cell keeps for n
proof
  fix s c and x :: "byte list \<times> byte list" and xs
  show "cursor_in n s c xs \<Longrightarrow> atEnd c \<longleftrightarrow> xs = []"
    by (auto simp: cursor_in_def cursor_at_def leaf_pos_def split: if_splits)
  show "\<exists>b s'. Current c s = (Inr b, s') \<and> shows_cell b x \<and> cursor_in n s' c (x # xs) \<and> keeps s s'" if a: "cursor_in n s c (x # xs)"
  proof -
    from a have a': "ready s" "cursor_at (view s) n c (x # xs)" by (simp_all add: cursor_in_def)
    from Current_ok [OF a'] obtain cell s' where b: "Current c s = (Inr (Some cell), s')" "(Key cell, Value cell) = x" "ready s'" "keeps s s'" by blast
    then have "cursor_in n s' c (x # xs)" using cursor_at_mono [OF a'(2) keeps_le] by (simp add: cursor_in_def)
    with b show ?thesis by (intro exI [of _ "Some cell"] exI [of _ s']) (simp add: shows_cell_def)
  qed
  show "\<exists>c' s'. Advance n c s = (Inr c', s') \<and> cursor_in n s' c' xs \<and> keeps s s'" if a: "cursor_in n s c (x # xs)"
    using Advance_ok [of s n c x xs n] a unfolding cursor_in_def by blast
  show "keeps s s" by simp
  show "keeps s t \<Longrightarrow> keeps t u \<Longrightarrow> keeps s u" for t u by (rule keeps_trans)
qed

end
