(* ===== verification/TableProps.thy ===== *)
theory TableProps
  imports CatalogProps Scan
begin

text \<open>
  The properties of the table engine. The witnesses run on a file of four pages: the header, an
  empty schema leaf, a leaf with one row of a table, and a leaf with the entry of that row in an
  index of the table.
\<close>

section \<open>A database with one row\<close>

lemma slice_concat:
  assumes "\<forall>p \<in> set ps. length p = n"
  shows "slice (concat ps) (k * n) n = (if k < length ps then ps ! k else [])"
  using assms
proof (induction ps arbitrary: k)
  case (Cons p ps)
  show ?case
  proof (cases k)
    case 0
    with Cons.prems show ?thesis by (simp add: slice_def)
  next
    case (Suc m)
    with Cons show ?thesis by (simp add: slice_def)
  qed
qed (simp add: slice_def)

lemma disk_concat:
  assumes "\<forall>p \<in> set ps. length p = PageSize"
  shows "disk (concat ps) i = (if unat i < length ps then Some (ps ! unat i) else None)"
proof (cases "unat i < length ps")
  case True
  then have "length (ps ! unat i) = PageSize" using assms by simp
  then show ?thesis using True slice_concat [OF assms, of "unat i"]
    by (auto simp: disk_def pageOffset_def padPage_def PageSize_def Let_def)
next
  case False
  then show ?thesis using slice_concat [OF assms, of "unat i"] by (simp add: disk_def pageOffset_def)
qed

text \<open>A leaf with one short cell.\<close>

definition cellPage :: "32 word \<Rightarrow> Cell \<Rightarrow> Page" where
  "cellPage i c = (case insertCellIntoPageAt (initLeaf (newPage i)) c 0 of Inr p \<Rightarrow> p | Inl _ \<Rightarrow> newPage i)"

lemma cellPage_ok:
  assumes "cell_small c" and "cell_size c \<le> 100"
  shows "leaf_inv (cellPage i c)" "page_items (cellPage i c) = [(Key c, Value c)]" "Type (cellPage i c) = PageTypeLeaf"
    "length (Data (cellPage i c)) = PageSize" "3900 \<le> free_bytes (cellPage i c)"
proof -
  note I = initLeaf_empty [OF page_ok_newPage [of i]]
  have n: "ncells (initLeaf (newPage i)) = 0" using I(2) length_page_cells [of "initLeaf (newPage i)"] by simp
  obtain p where p: "insertCellIntoPageAt (initLeaf (newPage i)) c 0 = Inr p" "tight_page p"
    "page_cells p = insert_at (unat (0 :: 16 word)) c (page_cells (initLeaf (newPage i)))"
    "free_bytes p = free_bytes (initLeaf (newPage i)) - (cell_size c + 2)" "Type p = Type (initLeaf (newPage i))"
    using insert_tight [OF I(1) assms(1), of 0] I(3) assms(2) by auto
  have r: "cellPage i c = p" by (simp add: cellPage_def p(1))
  show it: "page_items (cellPage i c) = [(Key c, Value c)]"
    using p(3) I(2) by (simp add: r page_items_def insert_at_def)
  show "leaf_inv (cellPage i c)" using p(2) it by (simp add: r leaf_inv_def keys_sorted_def)
  show "Type (cellPage i c) = PageTypeLeaf" using p(5) initLeaf_fields(4) [OF page_ok_newPage] by (simp add: r)
  show "length (Data (cellPage i c)) = PageSize" using p(2) by (simp add: r tight_page_def wf_page_def page_ok_def)
  show "3900 \<le> free_bytes (cellPage i c)" using p(4) I(3) assms(2) by (simp add: r)
qed

text \<open>The row of Ann, and its entry in the index on the column \<open>id\<close>.\<close>

abbreviation annRow :: Row where "annRow \<equiv> [IntValue 1, TextValue ''ann'']"

definition annEntry :: "byte list" where "annEntry = [0x31, 0, 0, 0, 0, 0, 0, 0, 1]"

definition rowPage :: Page where
  "rowPage = cellPage 2 \<lparr>Key = rowKey 1, Value = EncodeRow annRow, LeftPtr = InvalidPage\<rparr>"

definition indexPage :: Page where
  "indexPage = cellPage 3 \<lparr>Key = annEntry, Value = rowKey 1, LeftPtr = InvalidPage\<rparr>"

lemmas row_bytes = rowKey_def EncodeRow_def encodePart_def encodeValue_cases cEncodeUint64BE_def str_bytes_def
  be64_def be32_def be16_def

lemma annEntry_key: "indexKey G (IntValue 1) 1 = annEntry"
proof -
  have "FormatInt 1 = ''1''" by code_simp
  then show ?thesis by (simp add: annEntry_def indexKey_def value_String_def val_types str_bytes_def be64_def)
qed

lemma rowPage_ok:
  "leaf_inv rowPage" "page_items rowPage = [(rowKey 1, EncodeRow annRow)]"
  "Type rowPage = PageTypeLeaf" "length (Data rowPage) = PageSize" "3900 \<le> free_bytes rowPage"
proof -
  let ?c = "\<lparr>Key = rowKey 1, Value = EncodeRow annRow, LeftPtr = InvalidPage\<rparr>"
  have "cell_small ?c" "cell_size ?c \<le> 100" by (simp_all add: cell_small_def cell_size_def row_bytes)
  note C = cellPage_ok [OF this, of 2, folded rowPage_def]
  show "leaf_inv rowPage" "page_items rowPage = [(rowKey 1, EncodeRow annRow)]" "Type rowPage = PageTypeLeaf"
    "length (Data rowPage) = PageSize" "3900 \<le> free_bytes rowPage" using C by simp_all
qed

lemma indexPage_ok:
  "leaf_inv indexPage" "page_items indexPage = [(annEntry, rowKey 1)]"
  "Type indexPage = PageTypeLeaf" "length (Data indexPage) = PageSize" "3900 \<le> free_bytes indexPage"
proof -
  let ?c = "\<lparr>Key = annEntry, Value = rowKey 1, LeftPtr = InvalidPage\<rparr>"
  have "cell_small ?c" "cell_size ?c \<le> 100" by (simp_all add: cell_small_def cell_size_def annEntry_def row_bytes)
  note C = cellPage_ok [OF this, of 3, folded indexPage_def]
  show "leaf_inv indexPage" "page_items indexPage = [(annEntry, rowKey 1)]" "Type indexPage = PageTypeLeaf"
    "length (Data indexPage) = PageSize" "3900 \<le> free_bytes indexPage" using C by simp_all
qed

definition shopTable :: TableSchema where
  "shopTable = usersTable\<lparr>tRootPage := 2, Indexes := [''users_id''], NextAutoInc := 2\<rparr>"

definition shopIndex :: IndexSchema where
  "shopIndex = \<lparr>iName = ''users_id'', TableName = ''Users'', iColumn = ''id'', iUnique = False, iRootPage = 3\<rparr>"

definition shopPager :: Pager where
  "shopPager = newDB\<lparr>p_file := concat [paddedHeader initHeader, Data (initLeaf (newPage 1)), Data rowPage, Data indexPage],
     p_header := initHeader\<lparr>hPageCount := 4\<rparr>\<rparr>"

definition shop :: TableEngine where
  "shop = NewTableEngine \<lparr>sm_pager = shopPager, sm_root = 1, tables = [(''users'', shopTable)],
     indexes = [(''users_id'', shopIndex)], views = []\<rparr>"

definition shopRows :: "byte list \<Rightarrow> byte list option" where
  "shopRows = [rowKey 1 \<mapsto> EncodeRow annRow]"

definition shopTrees :: "32 word \<Rightarrow> (byte list \<Rightarrow> byte list option) option" where
  "shopTrees = [1 \<mapsto> Map.empty, 2 \<mapsto> shopRows, 3 \<mapsto> [annEntry \<mapsto> rowKey 1]]"

lemma shopPager_view:
  "view shopPager 1 = Some (Data (initLeaf (newPage 1)))" "view shopPager 2 = Some (Data rowPage)"
  "view shopPager 3 = Some (Data indexPage)"
  "view shopPager i \<noteq> None \<Longrightarrow> i < 4" "cached shopPager = (\<lambda>_. None)"
proof -
  let ?ps = "[paddedHeader initHeader, Data (initLeaf (newPage 1)), Data rowPage, Data indexPage]"
  show c: "cached shopPager = (\<lambda>_. None)" using newDB_ok(6) by (simp add: shopPager_def cached_def)
  have l: "\<forall>p \<in> set ?ps. length p = PageSize"
    using length_newFile_parts(1) length_newFile_parts(2) [of 1] rowPage_ok(4) indexPage_ok(4) by simp
  have v: "view shopPager i = disk (p_file shopPager) i" for i using view_uncached c by simp
  have "view shopPager i = (if unat i < 4 then Some (?ps ! unat i) else None)" for i
    unfolding v using disk_concat [OF l] by (simp add: shopPager_def)
  then show "view shopPager 1 = Some (Data (initLeaf (newPage 1)))" "view shopPager 2 = Some (Data rowPage)"
    "view shopPager 3 = Some (Data indexPage)"
    "view shopPager i \<noteq> None \<Longrightarrow> i < 4" by (auto simp: word_less_nat_alt split: if_splits)
qed

abbreviation rowTree :: tree where "rowTree \<equiv> TLeaf 2 [(rowKey 1, EncodeRow annRow)]"
abbreviation indexTree :: tree where "indexTree \<equiv> TLeaf 3 [(annEntry, rowKey 1)]"

lemma shop_trees:
  "tree_in 1 (TLeaf 1 []) shopPager" "tree_in 1 rowTree shopPager" "tree_in 1 indexTree shopPager"
proof -
  have P: "pager_inv {} shopPager" "no_fault shopPager" "alloc_ok shopPager"
    using newDB_ok(1,2,5) shopPager_view(4,5) unfolding pager_inv_def alloc_ok_def
    by (simp_all add: shopPager_def no_fault_def)
  show "tree_in 1 (TLeaf 1 []) shopPager"
    using tree_in_leaf [OF P, of 1 1] shopPager_view(1) by (simp add: InvalidPage_def)
  have "repr (view shopPager) rowTree"
    using rowPage_ok shopPager_view(2) by (intro repr.leaf [of _ _ rowPage]) (simp_all add: InvalidPage_def)
  with P show "tree_in 1 rowTree shopPager" by (simp add: tree_in_def)
  have "repr (view shopPager) indexTree"
    using indexPage_ok shopPager_view(3) by (intro repr.leaf [of _ _ indexPage]) (simp_all add: InvalidPage_def)
  with P show "tree_in 1 indexTree shopPager" by (simp add: tree_in_def)
qed

lemma shop_table_in: "table_in plainEnv ''Users'' shopTable shopTrees shopRows shop"
proof -
  let ?T = "[1 \<mapsto> TLeaf 1 [], 2 \<mapsto> rowTree, 3 \<mapsto> indexTree]"
  have "forest_of plainEnv ?T shopPager"
    using shop_trees by (auto simp: forest_of_def plainEnv_def split: if_splits)
  moreover have "shopTrees = (\<lambda>r. map_option lookup (?T r))"
    by (auto simp: fun_eq_iff shopTrees_def shopRows_def)
  ultimately have "forest plainEnv shopTrees (te_schema shop)"
    unfolding forest_def by (auto simp: shop_def NewTableEngine_def)
  moreover have "lib plainEnv = plainLib" by (simp add: plainEnv_def)
  ultimately show ?thesis
    by (simp add: table_in_def shop_def NewTableEngine_def GetTable_def lower_users shopTable_def usersTable_def shopTrees_def)
qed

text \<open>Room for any short entry in the trees.\<close>

lemma shop_room:
  assumes "length k + length v \<le> 3000"
  shows "can_put 1 k v (te_schema shop)"
    and "k \<noteq> rowKey 1 \<Longrightarrow> can_put 2 k v (te_schema shop)" and "k \<noteq> annEntry \<Longrightarrow> can_put 3 k v (te_schema shop)"
proof -
  have p: "sm_pager (te_schema shop) = shopPager" by (simp add: shop_def NewTableEngine_def)
  note T = shop_trees
  have "leaf_fits q k v" if "Data q = Data (initLeaf (newPage 1))" for q
    using same_data(10) [OF that] leaf_inv_initLeaf [OF page_ok_newPage [of 1]]
      initLeaf_empty(3) [OF page_ok_newPage [of 1]] assms by (simp add: leaf_fits_def)
  then have "fits shopPager (TLeaf 1 []) k v" by (simp add: fits_def shopPager_view)
  with can_put_fits [of 1 "TLeaf 1 []" "te_schema shop" k v] T(1) p show "can_put 1 k v (te_schema shop)" by simp
  assume k: "k \<noteq> rowKey 1"
  have "leaf_fits q k v" if "Data q = Data rowPage" for q
    using same_data(10) [OF that] rowPage_ok(2,5) assms k by (simp add: leaf_fits_def)
  then have "fits shopPager rowTree k v" by (simp add: fits_def shopPager_view)
  with can_put_fits [of 1 rowTree "te_schema shop" k v] T(2) p show "can_put 2 k v (te_schema shop)" by simp
next
  have p: "sm_pager (te_schema shop) = shopPager" by (simp add: shop_def NewTableEngine_def)
  assume k: "k \<noteq> annEntry"
  have "leaf_fits q k v" if "Data q = Data indexPage" for q
    using same_data(10) [OF that] indexPage_ok(2,5) assms k by (simp add: leaf_fits_def)
  then have "fits shopPager indexTree k v" by (simp add: fits_def shopPager_view)
  with can_put_fits [of 1 indexTree "te_schema shop" k v] shop_trees(3) p show "can_put 3 k v (te_schema shop)" by simp
qed

lemma shop_can_del: "can_del r k (te_schema shop)" if "r \<in> {1, 2, 3}"
  using that can_del_path [of 1 "TLeaf 1 []" "te_schema shop"] can_del_path [of 1 rowTree "te_schema shop"]
    can_del_path [of 1 indexTree "te_schema shop"] shop_trees
  by (auto simp: shop_def NewTableEngine_def)

lemma plain_lib: "lib plainEnv = plainLib" "marshalTable plainEnv u = str_bytes (tName u)"
  by (simp_all add: plainEnv_def)

lemma shop_table:
  "Indexes shopTable = [''users_id'']" "tRootPage shopTable = 2" "sm_root (te_schema shop) = 1" "tName shopTable = ''Users''"
  by (simp_all add: shopTable_def usersTable_def shop_def NewTableEngine_def)

text \<open>The entry of a row in the index.\<close>

lemma shop_entries:
  "index_entries plainEnv shopTable (v # row) rowid (te_schema shop) (Indexes shopTable) = [(3, indexKey plainLib v rowid)]"
proof -
  have "ToLower plainLib ''users_id'' = ''users_id''" "EqualFold plainLib ''id'' ''id''" by code_simp+
  then show ?thesis
    by (simp add: shop_table index_entry_def GetIndex_def plain_lib shop_def NewTableEngine_def shopIndex_def
        ColumnIndex_def shopTable_def usersTable_def upt_rec)
qed

section \<open>The loop of a scan\<close>

lemma scan_loop:
  assumes "cursor_in (treeFuel E) s c xs" and "length xs < n"
    and "\<forall>(k, d) \<in> set xs. 8 \<le> length k \<and> (\<exists>row. DecodeRow d = Inr row)"
  shows "\<exists>s'. scanRows E ts n c s = (Inr (map (\<lambda>(k, d). (rd64 k 0, extendRow ts (projr (DecodeRow d)))) xs), s') \<and> keeps s s'"
proof (rule cursor.collect_loop [OF assms(1,2), where ok = "\<lambda>(k, d). 8 \<le> length k \<and> (\<exists>row. DecodeRow d = Inr row)"])
  show "\<And>x. x \<in> set xs \<Longrightarrow> (\<lambda>(k, d). 8 \<le> length k \<and> (\<exists>row. DecodeRow d = Inr row)) x" using assms(3) by auto
  show "atEnd c \<Longrightarrow> scanRows E ts (Suc n) c s = (Inr [], s)" for n c s by simp
  fix n c s b s1 c' s2 rest s3 and x :: "byte list \<times> byte list"
  assume a: "\<not> atEnd c" "Current c s = (Inr b, s1)" "shows_cell b x"
    "(\<lambda>(k, d). 8 \<le> length k \<and> (\<exists>row. DecodeRow d = Inr row)) x" "Advance (treeFuel E) c s1 = (Inr c', s2)"
    "scanRows E ts n c' s2 = (Inr rest, s3)"
  then obtain cell where b: "b = Some cell" "x = (Key cell, Value cell)" by (auto simp: shows_cell_def split: option.splits)
  then obtain row where "8 \<le> length (Key cell)" "DecodeRow (Value cell) = Inr row" using a(4) by auto
  with a b show "scanRows E ts (Suc n) c s = (Inr ((\<lambda>(k, d). (rd64 k 0, extendRow ts (projr (DecodeRow d)))) x # rest), s3)"
    by (simp add: bindP_def scanCell_def)
qed

section \<open>The properties\<close>

lemma sless_Suc:
  fixes w :: "64 word"
  assumes "w \<noteq> 0x7FFFFFFFFFFFFFFF"
  shows "w <s w + 1"
proof -
  have "sint w \<noteq> 2 ^ 63 - 1"
  proof
    assume "sint w = 2 ^ 63 - 1"
    then have "word_of_int (sint w) = (word_of_int (2 ^ 63 - 1) :: 64 word)" by simp
    with assms show False by simp
  qed
  moreover have "sint w < 2 ^ 63" "- (2 ^ 63) \<le> sint w" using sint_lt [of w] sint_ge [of w] by simp_all
  ultimately have "sint (w + 1) = sint w + 1"
    using signed_take_bit_int_eq_self [of 63 "sint w + 1"] by (simp add: sint_word_ariths)
  then show ?thesis by (simp add: word_sless_alt)
qed

lemma chooseRowID_spec:
  assumes "pk = Option.bind (PrimaryKeyColumn ts)
      (\<lambda>i. if vType (row0 ! i) = ValNull \<or> Integer (row0 ! i) = 0 then None else Some (Integer (row0 ! i)))"
    and "rowid = (case pk of None \<Rightarrow> NextAutoInc ts | Some i \<Rightarrow> i)"
    and "row = (case (pk, PrimaryKeyColumn ts) of (None, Some i) \<Rightarrow> row0[i := IntValue rowid] | _ \<Rightarrow> row0)"
    and "next = (if rowid <s NextAutoInc ts then NextAutoInc ts else rowid + 1)"
  shows "chooseRowID ts row0 = (rowid, row, ts\<lparr>NextAutoInc := next\<rparr>)"
  using assms by (auto simp: chooseRowID_def Let_def word_sless_alt word_sle_eq split: option.splits if_splits)

text \<open>C5. Inserting a row that the table accepts, under a row id that no row has: the id is the integer
  in the primary key column, unless that is NULL or zero or there is no such column; then it is
  the next automatic id of the table, and the primary key column gets it. The row read back
  under the id is the row that was built, and all other rows of the table are as before. The
  next automatic id becomes the one after the row id, if it was not beyond it already, in memory
  and in the table's entry of the schema tree, so no later automatic id is the same until the
  integers overflow. Every index of the table gets an entry that leads to the id, all other
  entries of all trees are as before, one change is counted and the id is remembered. Conditions:
  the trees of the schema, the table and its indexes are different ones, and in each of them the
  leaf of the new key has room, so that no page is split.\<close>

theorem insert_stores_row:
  assumes "table_in E name ts F m t" and "buildRow (lib E) ts cols vs = Inr row0" and "checkNotNull ts row0 = Inr ()"
    and "pk = Option.bind (PrimaryKeyColumn ts)
      (\<lambda>i. if vType (row0 ! i) = ValNull \<or> Integer (row0 ! i) = 0 then None else Some (Integer (row0 ! i)))"
    and "rowid = (case pk of None \<Rightarrow> NextAutoInc ts | Some i \<Rightarrow> i)"
    and "row = (case (pk, PrimaryKeyColumn ts) of (None, Some i) \<Rightarrow> row0[i := IntValue rowid] | _ \<Rightarrow> row0)"
    and "next = (if rowid <s NextAutoInc ts then NextAutoInc ts else rowid + 1)"
    and "row_ok row" and "m (rowKey rowid) = None"
    and "es = index_entries E ts row rowid (te_schema t) (Indexes ts)" and "separate F es"
    and "tRootPage ts \<notin> fst ` set es" and "sm_root (te_schema t) \<notin> fst ` set es"
    and "can_put (sm_root (te_schema t)) (tableKey (ToLower (lib E) name)) (marshalTable E (ts\<lparr>NextAutoInc := next\<rparr>)) (te_schema t)"
    and "can_put (tRootPage ts) (rowKey rowid) (EncodeRow row) (te_schema t)"
    and "\<forall>(r, k) \<in> set es. can_put r k (rowKey rowid) (te_schema t)"
  shows "\<exists>t'. InsertWithConflict E name cols vs act t = (Inr (), t') \<and>
    (\<forall>i. fst (GetByID E name i t') = (if i = rowid then Inr (Some row) else fst (GetByID E name i t))) \<and>
    GetTable E name (te_schema t') = Some (ts\<lparr>NextAutoInc := next\<rparr>) \<and>
    fst (treeGet E (sm_root (te_schema t)) (tableKey (ToLower (lib E) name)) (te_schema t')) =
      Inr (Some (marshalTable E (ts\<lparr>NextAutoInc := next\<rparr>))) \<and>
    (rowid \<noteq> 0x7FFFFFFFFFFFFFFF \<longrightarrow> rowid <s next) \<and>
    (\<forall>r k. F r \<noteq> None \<and> r \<noteq> tRootPage ts \<and> (r, k) \<noteq> (sm_root (te_schema t), tableKey (ToLower (lib E) name)) \<longrightarrow>
      fst (treeGet E r k (te_schema t')) =
        (if (r, k) \<in> set es then Inr (Some (rowKey rowid)) else fst (treeGet E r k (te_schema t)))) \<and>
    lastInsertRowID t' = rowid \<and> changes t' = changes t + 1"
proof -
  let ?S = "sm_root (te_schema t)" and ?ts = "ts\<lparr>NextAutoInc := next\<rparr>" and ?K = "tableKey (ToLower (lib E) name)"
  have c: "chooseRowID ts row0 = (rowid, row, ?ts)" by (rule chooseRowID_spec [OF assms(4-7)])
  obtain t' F' where t': "InsertWithConflict E name cols vs act t = (Inr (), t')"
    "table_in E name ?ts F' (m(rowKey rowid \<mapsto> EncodeRow row)) t'" "lastInsertRowID t' = rowid" "changes t' = changes t + 1"
    "\<And>r. r \<noteq> ?S \<Longrightarrow> r \<noteq> tRootPage ts \<Longrightarrow> F' r = with_entries (set es) (Some (rowKey rowid)) F r"
    "\<And>sm. F ?S = Some sm \<Longrightarrow> F' ?S = Some (sm(?K \<mapsto> marshalTable E ?ts))"
    by (rule Insert_new [OF assms(1-3) c assms(10-16,9)]) blast
  note D = table_inD [OF assms(1)] and D' = table_inD [OF t'(2)]
  obtain sm where sm: "F ?S = Some sm" using D(5) by blast
  have "fst (GetByID E name i t') = (if i = rowid then Inr (Some row) else fst (GetByID E name i t))" for i
    using GetByID_map [OF D(1,3,4), of i] GetByID_map [OF D'(1,3,4), of i] get_row_encode [OF assms(8)] by simp
  moreover have "fst (treeGet E ?S ?K (te_schema t')) = Inr (Some (marshalTable E ?ts))"
    using trees.fst_get [OF D'(3) t'(6) [OF sm], of ?K] by simp
  moreover have "fst (treeGet E r k (te_schema t')) =
      (if (r, k) \<in> set es then Inr (Some (rowKey rowid)) else fst (treeGet E r k (te_schema t)))"
    if a: "F r \<noteq> None" and "r \<noteq> tRootPage ts" and "(r, k) \<noteq> (?S, ?K)" for r k
  proof (cases "r = ?S")
    case True
    then have "(r, k) \<notin> set es" using assms(13) by force
    with True that(3) sm show ?thesis
      using trees.fst_get [OF D'(3) t'(6) [OF sm], of k] trees.fst_get [OF D(3) sm, of k] by simp
  next
    case False
    obtain x where x: "F r = Some x" using a by blast
    with t'(5) [OF False that(2)] have "F' r = Some (\<lambda>k. if (r, k) \<in> set es then Some (rowKey rowid) else x k)"
      by (simp add: with_entries_def)
    from trees.fst_get [OF D'(3) this, of k] trees.fst_get [OF D(3) x, of k] show ?thesis by simp
  qed
  moreover have "rowid \<noteq> 0x7FFFFFFFFFFFFFFF \<longrightarrow> rowid <s next" using assms(7) sless_Suc [of rowid] by simp
  ultimately show ?thesis using t'(1,3,4) D'(1) by blast
qed

lemma shop_key: "shopRows (rowKey 2) = None" "length (tableKey n) = length n + 2" "rowKey 2 \<noteq> rowKey 1"
  "length (rowKey i) = 8"
  by (simp add: shopRows_def, simp add: tableKey_def str_bytes_def, simp, simp add: rowKey_def)

lemma bob_row:
  "buildRow plainLib shopTable [''name''] [TextValue ''bob''] = Inr [NullValue, TextValue ''bob'']"
  "checkNotNull shopTable [NullValue, TextValue ''bob''] = Inr ()"
  "PrimaryKeyColumn shopTable = Some 0" "NextAutoInc shopTable = 2"
  "row_ok [IntValue 2, TextValue ''bob'']" "length (EncodeRow [IntValue 2, TextValue ''bob'']) \<le> 100"
proof -
  have f: "EqualFold plainLib ''name'' ''name''" "\<not> EqualFold plainLib ''id'' ''name''" by code_simp+
  then show "buildRow plainLib shopTable [''name''] [TextValue ''bob''] = Inr [NullValue, TextValue ''bob'']"
    by (simp add: buildRow_def ColumnIndex_def shopTable_def usersTable_def upt_rec defaultValue_def CoerceValue_simps)
  show "checkNotNull shopTable [NullValue, TextValue ''bob''] = Inr ()"
    by (simp add: checkNotNull_def shopTable_def usersTable_def val_types)
  show "PrimaryKeyColumn shopTable = Some 0" "NextAutoInc shopTable = 2"
    by (simp_all add: shopTable_def usersTable_def PrimaryKeyColumn_def upt_rec)
  show "row_ok [IntValue 2, TextValue ''bob'']"
    by (simp add: row_ok_def payload_def encodeValue_cases str_bytes_def be64_def)
  show "length (EncodeRow [IntValue 2, TextValue ''bob'']) \<le> 100" by (simp add: row_bytes)
qed

text \<open>Bob gets the automatic id 2, the next one is 3, and the index leads from his id to his row.\<close>

lemma insert_stores_row_witness:
  "\<exists>t'. InsertWithConflict plainEnv ''Users'' [''name''] [TextValue ''bob''] ConflictAbort shop = (Inr (), t') \<and>
     fst (GetByID plainEnv ''Users'' 2 t') = Inr (Some [IntValue 2, TextValue ''bob'']) \<and>
     GetTable plainEnv ''Users'' (te_schema t') = Some (shopTable\<lparr>NextAutoInc := 3\<rparr>) \<and>
     fst (treeGet plainEnv 3 (indexKey plainLib (IntValue 2) 2) (te_schema t')) = Inr (Some (rowKey 2))"
proof -
  let ?r = "[IntValue 2, TextValue ''bob'']" and ?ts = "shopTable\<lparr>NextAutoInc := 3\<rparr>"
  let ?es = "[(3, indexKey plainLib (IntValue 2) 2)]"
  have "FormatInt 2 = ''2''" by code_simp
  then have k: "indexKey plainLib (IntValue 2) 2 \<noteq> annEntry" "length (indexKey plainLib (IntValue 2) 2) = 9"
    by (simp_all add: annEntry_def indexKey_def value_String_def val_types str_bytes_def be64_def)
  have "can_put 1 (tableKey ''users'') (str_bytes (tName ?ts)) (te_schema shop)"
    by (rule shop_room) (simp add: shop_key shop_table str_bytes_def)
  then have p: "can_put (sm_root (te_schema shop)) (tableKey (ToLower (lib plainEnv) ''Users'')) (marshalTable plainEnv ?ts) (te_schema shop)"
    by (simp add: plain_lib lower_users shop_table)
  have q: "can_put (tRootPage shopTable) (rowKey 2) (EncodeRow ?r) (te_schema shop)"
    using bob_row(6) shop_key(3) unfolding shop_table by (intro shop_room) (simp_all add: rowKey_def)
  have x: "\<forall>(r, k) \<in> set ?es. can_put r k (rowKey 2) (te_schema shop)"
    using k shop_room(3) [of "indexKey plainLib (IntValue 2) 2" "rowKey 2"] by (simp add: shop_key)
  have b: "buildRow (lib plainEnv) shopTable [''name''] [TextValue ''bob''] = Inr [NullValue, TextValue ''bob'']"
    by (simp add: plain_lib bob_row(1))
  have e: "?es = index_entries plainEnv shopTable ?r 2 (te_schema shop) (Indexes shopTable)" by (simp add: shop_entries)
  have sep: "separate shopTrees ?es" "tRootPage shopTable \<notin> fst ` set ?es" "sm_root (te_schema shop) \<notin> fst ` set ?es"
    by (simp_all add: separate_def shopTrees_def shop_table)
  note I = insert_stores_row [OF shop_table_in b bob_row(2) refl _ _ _ bob_row(5) shop_key(1) e sep p q x, of ConflictAbort]
  obtain t' where "InsertWithConflict plainEnv ''Users'' [''name''] [TextValue ''bob''] ConflictAbort shop = (Inr (), t')"
    "\<forall>i. fst (GetByID plainEnv ''Users'' i t') = (if i = 2 then Inr (Some ?r) else fst (GetByID plainEnv ''Users'' i shop))"
    "GetTable plainEnv ''Users'' (te_schema t') = Some ?ts"
    "\<forall>r k. shopTrees r \<noteq> None \<and> r \<noteq> tRootPage shopTable \<and>
        (r, k) \<noteq> (sm_root (te_schema shop), tableKey (ToLower (lib plainEnv) ''Users'')) \<longrightarrow>
      fst (treeGet plainEnv r k (te_schema t')) =
        (if (r, k) \<in> set ?es then Inr (Some (rowKey 2)) else fst (treeGet plainEnv r k (te_schema shop)))"
    using I by (simp add: bob_row(3,4) val_types word_sless_alt) blast
  then show ?thesis by (intro exI [of _ t']) (simp add: shopTrees_def shop_table)
qed

text \<open>Inserting a row whose id is in use, unless the action is to replace it: with \<open>IGNORE\<close> the
  call succeeds, otherwise it fails with the duplicate id, and in both cases no row of the table
  and no other tree of the file changes, and the counters stay.\<close>

theorem insert_conflict_keeps_rows:
  assumes "table_in E name ts F m t" and "buildRow (lib E) ts cols vs = Inr row0"
    and "checkNotNull ts row0 = Inr ()" and "chooseRowID ts row0 = (rowid, row, ts')"
    and "can_put (sm_root (te_schema t)) (tableKey (ToLower (lib E) name)) (marshalTable E ts') (te_schema t)"
    and "m (rowKey rowid) \<noteq> None" and "act \<noteq> ConflictReplace"
  shows "\<exists>t' F'. InsertWithConflict E name cols vs act t =
      (if act = ConflictIgnore then Inr () else Inl (ErrConstraint (FormatInt rowid)), t') \<and>
    table_in E name ts' F' m t' \<and> lastInsertRowID t' = lastInsertRowID t \<and> changes t' = changes t \<and>
    (\<forall>i. fst (GetByID E name i t') = fst (GetByID E name i t)) \<and> (\<forall>r. r \<noteq> sm_root (te_schema t) \<longrightarrow> F' r = F r)"
proof -
  obtain t' F' where t': "InsertWithConflict E name cols vs act t =
      (if act = ConflictIgnore then Inr () else Inl (ErrConstraint (FormatInt rowid)), t')"
    "table_in E name ts' F' m t'" "lastInsertRowID t' = lastInsertRowID t" "changes t' = changes t"
    "\<And>r. r \<noteq> sm_root (te_schema t) \<Longrightarrow> F' r = F r"
    by (rule Insert_taken [OF assms]) (rule that, (assumption | blast)+)
  note D = table_inD [OF assms(1)] and D' = table_inD [OF t'(2)]
  have "fst (GetByID E name i t') = fst (GetByID E name i t)" for i
    using GetByID_map [OF D(1,3,4), of i] GetByID_map [OF D'(1,3,4), of i] by simp
  with t' show ?thesis by blast
qed

lemma insert_conflict_keeps_rows_witness:
  "\<exists>t'. InsertWithConflict plainEnv ''Users'' [] [IntValue 1, TextValue ''eve''] ConflictAbort shop =
      (Inl (ErrConstraint (FormatInt 1)), t') \<and>
     fst (GetByID plainEnv ''Users'' 1 t') = fst (GetByID plainEnv ''Users'' 1 shop)"
proof -
  have b: "buildRow plainLib shopTable [] [IntValue 1, TextValue ''eve''] = Inr [IntValue 1, TextValue ''eve'']"
    by (simp add: buildRow_def shopTable_def usersTable_def CoerceValue_simps)
  have c: "checkNotNull shopTable [IntValue 1, TextValue ''eve''] = Inr ()"
    by (simp add: checkNotNull_def shopTable_def usersTable_def val_types)
  have r: "chooseRowID shopTable [IntValue 1, TextValue ''eve''] = (1, [IntValue 1, TextValue ''eve''], shopTable)"
    by (simp add: chooseRowID_def shopTable_def usersTable_def PrimaryKeyColumn_def upt_rec val_types Let_def word_sle_eq)
  have "can_put 1 (tableKey ''users'') (str_bytes (tName shopTable)) (te_schema shop)"
    by (rule shop_room) (simp add: shop_key shop_table str_bytes_def)
  then have p: "can_put (sm_root (te_schema shop)) (tableKey (ToLower (lib plainEnv) ''Users'')) (marshalTable plainEnv shopTable) (te_schema shop)"
    by (simp add: plain_lib lower_users shop_table)
  have "shopRows (rowKey 1) \<noteq> None" by (simp add: shopRows_def)
  from insert_conflict_keeps_rows [OF shop_table_in _ c r p this, of "[]" "[IntValue 1, TextValue ''eve'']" ConflictAbort] b
  show ?thesis by (auto simp: plain_lib)
qed

text \<open>C6. Deleting the row with an id: the call says whether there was such a row, no row has the id
  afterwards, all other rows of the table are as before, and a change is counted exactly when
  the row was there. With the row, its entry is deleted from every index of the table, and all other
  entries of all trees stay. Conditions: the row can be decoded; the trees of the schema, the
  table and its indexes are different ones; and neither the key of the row nor that of an entry
  is a separator on its path in the tree, since the code does not delete separators.\<close>

theorem delete_removes_row:
  assumes "table_in E name ts F m t" and "can_del (tRootPage ts) (rowKey rowid) (te_schema t)"
    and "\<forall>d. m (rowKey rowid) = Some d \<longrightarrow> (\<exists>row. DecodeRow d = Inr row)"
    and "es = index_entries E ts (old_row (m (rowKey rowid))) rowid (te_schema t) (Indexes ts)" and "separate F es"
    and "tRootPage ts \<notin> fst ` set es" and "sm_root (te_schema t) \<notin> fst ` set es"
    and "\<forall>(r, k) \<in> set es. can_del r k (te_schema t)"
  shows "\<exists>t'. DeleteRow E name rowid t = (Inr (m (rowKey rowid) \<noteq> None), t') \<and>
    (\<forall>i. fst (GetByID E name i t') = (if i = rowid then Inr None else fst (GetByID E name i t))) \<and>
    (\<forall>r k. F r \<noteq> None \<and> r \<noteq> tRootPage ts \<longrightarrow>
      fst (treeGet E r k (te_schema t')) = (if (r, k) \<in> set es then Inr None else fst (treeGet E r k (te_schema t)))) \<and>
    changes t' = (if m (rowKey rowid) = None then changes t else changes t + 1)"
proof -
  obtain t' F' where t': "DeleteRow E name rowid t = (Inr (m (rowKey rowid) \<noteq> None), t')"
    "table_in E name ts F' (m(rowKey rowid := None)) t'"
    "F' = (if m (rowKey rowid) = None then F else with_entries (insert (tRootPage ts, rowKey rowid) (set es)) None F)"
    "changes t' = (if m (rowKey rowid) = None then changes t else changes t + 1)"
    by (rule DeleteRow_map [OF assms])
  note D = table_inD [OF assms(1)] and D' = table_inD [OF t'(2)]
  have "fst (GetByID E name i t') = (if i = rowid then Inr None else fst (GetByID E name i t))" for i
    using GetByID_map [OF D(1,3,4), of i] GetByID_map [OF D'(1,3,4), of i] by (simp add: get_row_def)
  moreover have "fst (treeGet E r k (te_schema t')) = (if (r, k) \<in> set es then Inr None else fst (treeGet E r k (te_schema t)))"
    if a: "F r \<noteq> None" and "r \<noteq> tRootPage ts" for r k
  proof -
    obtain x where x: "F r = Some x" using a by blast
    have "index_entries E ts [] rowid (te_schema t) ns = []" for ns
      by (induction ns) (simp_all add: index_entry_def split: option.split)
    then have "m (rowKey rowid) = None \<Longrightarrow> es = []" using assms(4) by (simp add: old_row_def)
    then have "F' r = Some (\<lambda>k. if (r, k) \<in> set es then None else x k)"
      using x that(2) by (auto simp: t'(3) with_entries_def)
    from trees.fst_get [OF D'(3) this, of k] trees.fst_get [OF D(3) x, of k] show ?thesis by simp
  qed
  ultimately show ?thesis using t'(1,4) by blast
qed

text \<open>The row of Ann goes, and its entry in the index.\<close>

lemma delete_removes_row_witness:
  "\<exists>t'. DeleteRow plainEnv ''Users'' 1 shop = (Inr True, t') \<and> fst (GetByID plainEnv ''Users'' 1 t') = Inr None \<and>
     fst (treeGet plainEnv 3 annEntry (te_schema t')) = Inr None"
proof -
  have d: "DecodeRow (EncodeRow annRow) = Inr annRow"
    using decode_encode_row [of annRow "[]"]
    by (simp add: row_ok_def payload_def encodeValue_cases str_bytes_def be64_def)
  have m: "shopRows (rowKey 1) = Some (EncodeRow annRow)" by (simp add: shopRows_def)
  have e: "[(3, annEntry)] = index_entries plainEnv shopTable (old_row (shopRows (rowKey 1))) 1 (te_schema shop) (Indexes shopTable)"
    by (simp add: old_row_def m d shop_entries annEntry_key)
  have sep: "separate shopTrees [(3, annEntry)]" by (simp add: separate_def shopTrees_def)
  have c: "can_del (tRootPage shopTable) (rowKey 1) (te_schema shop)" by (simp add: shop_can_del shop_table)
  from delete_removes_row [OF shop_table_in c _ e sep] m d show ?thesis
    by (force simp: shop_table shop_can_del shopTrees_def)
qed


lemma ann_row:
  "DecodeRow (EncodeRow annRow) = Inr annRow"
  "row_ok [IntValue 1, TextValue ''eva'']"
  "length (EncodeRow [IntValue 1, TextValue ''eva'']) = length (EncodeRow [IntValue 1, TextValue ''ann''])"
  "length (EncodeRow [IntValue 1, TextValue ''eva'']) \<le> 100"
  using decode_encode_row [of "[IntValue 1, TextValue ''ann'']" "[]"]
  by (simp_all add: row_ok_def payload_def encodeValue_cases str_bytes_def be64_def EncodeRow_def encodePart_def be32_def be16_def)


text \<open>C25. The row that an insert builds from well-formed values has one value for each column. A column
  that was given no value has its default, taken as text or NULL whatever the type of the column
  is. A column that was given values has the last of them, as \<open>CoerceValue\<close> converts it: for an
  \<open>INTEGER\<close> (\<open>REAL\<close>) column NULL, an integer (a real) or the blob that was given, for a \<open>TEXT\<close>
  column NULL or a text, and for a column of any other type the given value, whatever its type.
  No NOT NULL column holds NULL, unless it is a primary key. The primary key column then gets the
  row id: when its value has no integer other than zero in it, as every text has, that value is
  replaced by the next automatic id.\<close>

theorem built_row_typed:
  assumes "buildRow G ts cols vs = Inr row" and "\<forall>v \<in> set vs. value_ok v" and "checkNotNull ts row = Inr ()"
  shows "length row = length (Columns ts) \<and>
    (\<forall>i < length (Columns ts). let c = Columns ts ! i in value_ok (row ! i) \<and>
      (case given_value G ts cols vs i of
         None \<Rightarrow> row ! i = (if Default c = [] then NullValue else TextValue (Default c))
       | Some v \<Rightarrow> CoerceValue G v (cType c) = Inr (row ! i) \<and> coerced (cType c) v (row ! i)) \<and>
      (NotNull c \<and> \<not> PrimaryKey c \<longrightarrow> vType (row ! i) \<noteq> ValNull)) \<and>
    (\<forall>i x. PrimaryKeyColumn ts = Some i \<and> row ! i = TextValue x \<longrightarrow>
       chooseRowID ts row = (NextAutoInc ts, row[i := IntValue (NextAutoInc ts)], ts\<lparr>NextAutoInc := NextAutoInc ts + 1\<rparr>))"
proof -
  have l: "length row = length (Columns ts)" by (rule buildRow_length [OF assms(1)])
  have g: "value_ok (row ! i) \<and> (case given_value G ts cols vs i of
         None \<Rightarrow> row ! i = (if Default (Columns ts ! i) = [] then NullValue else TextValue (Default (Columns ts ! i)))
       | Some v \<Rightarrow> CoerceValue G v (cType (Columns ts ! i)) = Inr (row ! i) \<and> coerced (cType (Columns ts ! i)) v (row ! i))"
    if i: "i < length (Columns ts)" for i
  proof (cases "given_value G ts cols vs i")
    case None
    with buildRow_given [OF assms(1) i] show ?thesis by (simp add: defaultValue_def)
  next
    case (Some v)
    then have "value_ok v" using given_value_in [OF assms(1) i] assms(2) by blast
    with buildRow_given [OF assms(1) i] Some coerce_typed [of v G "cType (Columns ts ! i)" "row ! i"]
    show ?thesis by simp
  qed
  have "Integer (TextValue x) = 0" for x by (simp add: value_defs)
  then show ?thesis
    using g checkNotNull_ok [OF assms(3) l] l by (simp add: chooseRowID_def Let_def)
qed

definition codesTable :: TableSchema where
  "codesTable = \<lparr>tName = ''codes'',
     Columns = [\<lparr>cName = ''code'', cType = TypeText, NotNull = False, PrimaryKey = True, Default = [], cUnique = True, AutoInc = False\<rparr>],
     tRootPage = 2, Indexes = [], NextAutoInc = 1\<rparr>"

lemma built_row_typed_witness:
  "chooseRowID codesTable [TextValue ''abc''] = (1, [IntValue 1], codesTable\<lparr>NextAutoInc := 2\<rparr>)"
proof -
  have "buildRow plainLib codesTable [] [TextValue ''abc''] = Inr [TextValue ''abc'']"
    by (simp add: buildRow_def codesTable_def CoerceValue_simps)
  moreover have "checkNotNull codesTable [TextValue ''abc''] = Inr ()" by (simp add: checkNotNull_def codesTable_def)
  moreover have "PrimaryKeyColumn codesTable = Some 0" "NextAutoInc codesTable = 1"
    by (simp_all add: PrimaryKeyColumn_def codesTable_def)
  ultimately show ?thesis using built_row_typed [of plainLib codesTable "[]" "[TextValue ''abc'']" "[TextValue ''abc'']"] by auto
qed

lemma Scan_ok:
  assumes "GetTable E name (te_schema t) = Some ts" and "tree_in (treeFuel E) tr (sm_pager (te_schema t))"
    and "tree_id tr = tRootPage ts" and "full tr \<or> (\<exists>i. tr = TLeaf i [])" and "length (items tr) < fuel"
    and "\<forall>(k, d) \<in> set (items tr). 8 \<le> length k \<and> (\<exists>row. DecodeRow d = Inr row)"
  shows "\<exists>p. Scan E fuel name t = (Inr (map (\<lambda>(k, d). (rd64 k 0, extendRow ts (projr (DecodeRow d)))) (items tr)),
    t\<lparr>te_schema := (te_schema t)\<lparr>sm_pager := p\<rparr>\<rparr>)"
proof -
  let ?s = "sm_pager (te_schema t)" and ?n = "treeFuel E"
  have r: "ready ?s" "repr (view ?s) tr" "height tr \<le> ?n" using assms(2) by (simp_all add: tree_in_def ready_def)
  obtain c s1 where c: "NewCursor ?n (tRootPage ts) ?s = (Inr c, s1)" "cursor_in ?n s1 c (items tr)"
    using NewCursor_ok [OF r(1,2) assms(4) r(3)] assms(3) unfolding cursor_in_def by auto
  obtain s2 where "scanRows E ts fuel c s1 = (Inr (map (\<lambda>(k, d). (rd64 k 0, extendRow ts (projr (DecodeRow d)))) (items tr)), s2)"
    using scan_loop [OF c(2) assms(5,6)] by blast
  then show ?thesis using assms(1) c(1)
    by (intro exI [of _ s2]) (simp add: Scan_def onSchema_def onPager_def bindP_def)
qed

lemma GetByID_tree:
  assumes "GetTable E name (te_schema t) = Some ts" and "tree_in (treeFuel E) tr (sm_pager (te_schema t))"
    and "tree_id tr = tRootPage ts"
  shows "fst (GetByID E name i t) = get_row (lookup tr (rowKey i))"
proof -
  have "forest_of E [tRootPage ts \<mapsto> tr] (sm_pager (te_schema t))"
    using assms(2,3) by (auto simp: forest_of_def split: if_splits)
  moreover have "[tRootPage ts \<mapsto> lookup tr] = (\<lambda>r. map_option lookup ([tRootPage ts \<mapsto> tr] r))" by (auto simp: fun_eq_iff)
  ultimately have "forest E [tRootPage ts \<mapsto> lookup tr] (te_schema t)" unfolding forest_def by blast
  from GetByID_map [OF assms(1) this, of "lookup tr" i] show ?thesis by simp
qed

text \<open>The rows of a tree from left to right, as \<open>Scan\<close> gives them.\<close>

definition leafRows :: "TableSchema \<Rightarrow> tree \<Rightarrow> (64 word \<times> Row) list" where
  "leafRows ts tr = map (\<lambda>(k, d). (rd64 k 0, extendRow ts (projr (DecodeRow d)))) (items tr)"

lemma leafRows_sorted:
  assumes "repr v tr" and "placed tr" and "\<forall>(k, d) \<in> set (items tr). \<exists>i. k = rowKey i"
  shows "sorted_wrt (<) (map fst (leafRows ts tr))"
proof -
  have "sorted_wrt (<) (map fst (items tr))" using placed_sorted [OF assms(1,2)] by (simp add: keys_sorted_def)
  then show ?thesis
    unfolding leafRows_def map_map sorted_wrt_map
  proof (rule sorted_wrt_mono_rel [rotated])
    fix x y assume x: "x \<in> set (items tr)" and y: "y \<in> set (items tr)" and l: "fst x < fst y"
    obtain i j where "fst x = rowKey i" "fst y = rowKey j" using assms(3) x y by fastforce
    with l show "(fst \<circ> (\<lambda>(k, d). (rd64 k 0, extendRow ts (projr (DecodeRow d))))) x
        < (fst \<circ> (\<lambda>(k, d). (rd64 k 0, extendRow ts (projr (DecodeRow d))))) y"
      by (simp add: rowKey_less case_prod_unfold) (simp add: rowKey_def rd64_be64)
  qed
qed

lemma leafRows_lookup:
  assumes "repr v tr" and "placed tr" and "\<forall>(k, d) \<in> set (items tr). (\<exists>i. k = rowKey i) \<and> (\<exists>row. DecodeRow d = Inr row)"
  shows "(i, row) \<in> set (leafRows ts tr) \<longleftrightarrow> (\<exists>r. get_row (lookup tr (rowKey i)) = Inr (Some r) \<and> row = extendRow ts r)"
proof
  assume "(i, row) \<in> set (leafRows ts tr)"
  then obtain k d where k: "(k, d) \<in> set (items tr)" "i = rd64 k 0" "row = extendRow ts (projr (DecodeRow d))"
    by (auto simp: leafRows_def)
  then obtain j r where "k = rowKey j" "DecodeRow d = Inr r" using assms(3) by fastforce
  moreover have "lookup tr k = Some d" using assms(2) k(1) by (auto simp: placed_def)
  ultimately show "\<exists>r. get_row (lookup tr (rowKey i)) = Inr (Some r) \<and> row = extendRow ts r"
    using k(2,3) by (simp add: get_row_def rowKey_def rd64_be64)
next
  assume "\<exists>r. get_row (lookup tr (rowKey i)) = Inr (Some r) \<and> row = extendRow ts r"
  then obtain d r where d: "lookup tr (rowKey i) = Some d" "DecodeRow d = Inr r" "row = extendRow ts r"
    by (auto simp: get_row_def bindE_eq_Inr split: option.splits)
  from lookup_items [OF assms(1) d(1)] have "(rowKey i, d) \<in> set (items tr)" .
  with d(2,3) show "(i, row) \<in> set (leafRows ts tr)"
    by (force simp: leafRows_def rowKey_def rd64_be64)
qed

lemma Scan_starts_empty:
  assumes "GetTable E name (te_schema t) = Some ts" and "tree_in (treeFuel E) tr (sm_pager (te_schema t))"
    and "tree_id tr = tRootPage ts" and "starts_empty tr" and "0 < fuel"
  shows "\<exists>p. Scan E fuel name t = (Inr [], t\<lparr>te_schema := (te_schema t)\<lparr>sm_pager := p\<rparr>\<rparr>)"
    and "fst (Count E fuel name t) = Inr 0"
proof -
  let ?s = "sm_pager (te_schema t)"
  have r: "ready ?s" "repr (view ?s) tr" "height tr \<le> treeFuel E" using assms(2) by (simp_all add: tree_in_def ready_def)
  obtain c s1 where c: "NewCursor (treeFuel E) (tRootPage ts) ?s = (Inr c, s1)" "atEnd c"
    using NewCursor_starts_empty [OF r(1,2) assms(4) r(3)] assms(3) by auto
  obtain n where n: "fuel = Suc n" using assms(5) by (cases fuel) auto
  show "\<exists>p. Scan E fuel name t = (Inr [], t\<lparr>te_schema := (te_schema t)\<lparr>sm_pager := p\<rparr>\<rparr>)"
    using assms(1) c by (intro exI [of _ s1]) (simp add: Scan_def onSchema_def onPager_def bindP_def n returnP_def)
  show "fst (Count E fuel name t) = Inr 0"
    using assms(1) c by (simp add: Count_def onSchema_def onPager_def bindP_def n returnP_def)
qed



end
