(* ===== verification/ExecProps.thy ===== *)
theory ExecProps
  imports ExecFrame EvalProps TableProps "HOL-Library.Multiset" "HOL-Library.Sublist"
begin

text \<open>
  Properties of the executor: the life of its transaction and what \<open>ROLLBACK\<close> does, compound queries,
  ordering, grouping and aggregates, names in queries, and \<open>SELECT\<close> over the rows of a table.
\<close>

section \<open>Transactions\<close>

text \<open>The executor is in a transaction exactly when it holds one; it is active, and holds no page.\<close>

definition holds_nothing :: "Transaction \<Rightarrow> bool" where
  "holds_nothing tx \<longleftrightarrow> tx_state tx = TxActive \<and> saveState tx = Some Map.empty \<and>
     (\<forall>sp \<in> set (savepoints tx). sp_pages sp = Map.empty)"

definition exec_inv :: "Executor \<Rightarrow> bool" where
  "exec_inv x \<longleftrightarrow> (case xTx x of None \<Rightarrow> \<not> xInTx x | Some tx \<Rightarrow> xInTx x \<and> holds_nothing tx)"

text \<open>The states after a sequence of statements, whatever their results.\<close>

inductive runs :: "xenv \<Rightarrow> Executor \<Rightarrow> bool" for X where
  start: "runs X (NewExecutor s)"
| step: "runs X x \<Longrightarrow> runs X (snd (execStatement X st x))"

lemma images_nothing: "holds_nothing tx \<Longrightarrow> imagesFor to tx = Map.empty"
proof -
  assume h: "holds_nothing tx"
  have "sp_pages (savepoints tx ! i) = Map.empty" if "find_savepoint to (savepoints tx) = Some i" for i
  proof -
    have "i < length (savepoints tx)" using that by (auto simp: find_savepoint_def find_Some_iff rev_nth)
    with h show ?thesis by (simp add: holds_nothing_def)
  qed
  then show ?thesis using h by (auto simp: imagesFor_def holds_nothing_def split: option.split)
qed

lemma orderX_nothing: "holds_nothing tx \<Longrightarrow> orderX X (imagesFor to tx) x = (Inr [], x\<lparr>draws := draws x + 1\<rparr>)"
  by (simp add: images_nothing orderX_def evalX_def ask_def)

lemma onStorage_return: "onStorage (returnP a) x = (Inr a, x)" "onStorage (Pair r) x = (r, x)"
  by (simp_all add: onStorage_def onCatalogue_def onTable_def onSchema_def onPager_def returnP_def)

lemma onStorage_fail: "onStorage (failP e) x = (Inl e, x)"
  by (simp add: onStorage_def onCatalogue_def onTable_def onSchema_def onPager_def failP_def)

lemma bindP_return: "bindP (returnP a) k = k a"
  by (rule ext) (simp add: bindP_def returnP_def)

lemma find_savepoint_less: "find_savepoint to sps = Some i \<Longrightarrow> i < length sps"
  by (auto simp: find_savepoint_def find_Some_iff rev_nth)

lemma holds_nothing_take:
  "holds_nothing tx \<Longrightarrow> holds_nothing (tx\<lparr>savepoints := take i (savepoints tx)\<rparr>)"
  by (auto simp: holds_nothing_def dest: in_set_takeD)

text \<open>\<open>ROLLBACK\<close> and \<open>ROLLBACK TO\<close> in a transaction.\<close>

lemma execRollback_inv:
  assumes "xInTx x" and "xTx x = Some tx" and "holds_nothing tx"
  shows "execRollback X to x =
    (if to = '''' then (Inr emptyResult, x\<lparr>draws := draws x + 1, xInTx := False, xTx := None\<rparr>)
     else case find_savepoint to (savepoints tx) of
       None \<Rightarrow> (Inl (ErrNoSavepoint to), x\<lparr>draws := draws x + 1\<rparr>)
     | Some i \<Rightarrow> (Inr emptyResult, x\<lparr>draws := draws x + 1, xInTx := True,
         xTx := Some (tx\<lparr>savepoints := take i (savepoints tx) @ [(savepoints tx ! i)\<lparr>sp_pages := Map.empty\<rparr>]\<rparr>)\<rparr>))"
  using assms
  by (auto simp: execRollback_def getTx_def bindX_def orderX_nothing RollbackToSavepoint_def Rollback_def
      holds_nothing_def onStorage_return onStorage_fail bindP_return setTx_def done_with_def returnX_def attempt_def
      resultX_def split: option.split)

lemmas tx_defs = getTx_def bindX_def failX_def done_with_def setTx_def returnX_def resultX_def attempt_def

lemma exec_inv_cases:
  assumes "exec_inv x"
  obtains "xTx x = None" "\<not> xInTx x" | tx where "xTx x = Some tx" "xInTx x" "holds_nothing tx"
  using assms by (auto simp: exec_inv_def split: option.splits)

lemma exec_inv_begin:
  assumes "exec_inv x"
  shows "exec_inv (snd (execBegin x))"
  using assms
  by (rule exec_inv_cases)
    (simp_all add: execBegin_def tx_defs exec_inv_def holds_nothing_def NewTransaction_def)

lemma exec_inv_commit:
  assumes "exec_inv x"
  shows "exec_inv (snd (execCommit x))"
  using assms
proof (rule exec_inv_cases)
  assume x: "xTx x = None" "\<not> xInTx x"
  have "keeps_tx (done_with (onStorage FlushAll))" by (intro keeps)
  moreover have "execCommit x = done_with (onStorage FlushAll) x"
    using x by (simp add: execCommit_def getTx_def bindX_def)
  ultimately show ?thesis using x by (simp add: keeps_tx_def exec_inv_def)
next
  fix tx assume x: "xTx x = Some tx" "xInTx x" "holds_nothing tx"
  obtain r y where y: "commitTx tx x = (r, y)" by (cases "commitTx tx x")
  show ?thesis using x y by (cases r) (simp_all add: execCommit_def tx_defs exec_inv_def)
qed

lemma exec_inv_rollback:
  assumes "exec_inv x"
  shows "exec_inv (snd (execRollback X to x))"
  using assms
proof (rule exec_inv_cases)
  assume x: "xTx x = None" "\<not> xInTx x"
  then show ?thesis by (simp add: execRollback_def tx_defs exec_inv_def)
next
  fix tx assume x: "xTx x = Some tx" "xInTx x" "holds_nothing tx"
  have h: "holds_nothing (tx\<lparr>savepoints := take i (savepoints tx) @ [(savepoints tx ! i)\<lparr>sp_pages := Map.empty\<rparr>]\<rparr>)" for i
    using x(3) by (auto simp: holds_nothing_def dest: in_set_takeD)
  show ?thesis
    unfolding execRollback_inv [OF x(2,1,3)] using x h
    by (cases "find_savepoint to (savepoints tx)") (simp_all add: exec_inv_def)
qed

lemma exec_inv_savepoint:
  assumes "exec_inv x"
  shows "exec_inv (snd (execSavepoint n x))"
  using assms
  by (rule exec_inv_cases)
    (auto simp: execSavepoint_def tx_defs Savepoint_def exec_inv_def holds_nothing_def NewTransaction_def)

lemma exec_inv_release:
  assumes "exec_inv x"
  shows "exec_inv (snd (execReleaseSavepoint n x))"
  using assms
proof (rule exec_inv_cases)
  assume x: "xTx x = None" "\<not> xInTx x"
  then show ?thesis by (simp add: execReleaseSavepoint_def tx_defs exec_inv_def)
next
  fix tx assume x: "xTx x = Some tx" "xInTx x" "holds_nothing tx"
  then show ?thesis using holds_nothing_take [OF x(3)]
    by (cases "find_savepoint n (savepoints tx)")
      (simp_all add: execReleaseSavepoint_def tx_defs ReleaseSavepoint_def exec_inv_def)
qed

lemma exec_inv_statement:
  assumes "exec_inv x"
  shows "exec_inv (snd (execStatement X st x))"
proof (cases "tx_statement st")
  case False
  have "xTx (snd (execStatement X st x)) = xTx x" "xInTx (snd (execStatement X st x)) = xInTx x"
    using keeps_statement [OF False, of X] unfolding keeps_tx_def by blast+
  then show ?thesis using assms unfolding exec_inv_def by (simp only:)
next
  case True
  then show ?thesis using assms
    by (cases st) (simp_all add: tx_statement_def execStatement_def exec_inv_begin exec_inv_commit exec_inv_rollback
        exec_inv_savepoint exec_inv_release)
qed

lemma runs_inv: "runs X x \<Longrightarrow> exec_inv x"
  by (induction rule: runs.induct) (simp_all add: exec_inv_statement, simp add: exec_inv_def NewExecutor_def)

lemma runs_Execute: "runs X x \<Longrightarrow> runs X (snd (Execute X sql x))"
proof -
  have "runs X (snd (runAll X ss acc x))" if "runs X x" for ss acc x
    using that
  proof (induction ss arbitrary: acc x)
    case (Cons s ss)
    have r: "runs X (snd (execStatement X s x))" using Cons.prems by (rule runs.step)
    then show ?case
    proof (cases "execStatement X s x")
      case (Pair res x')
      then show ?thesis using r Cons.IH [of x'] by (cases res) (simp_all add: bindX_def)
    qed
  qed (simp add: returnX_def)
  then show "runs X x \<Longrightarrow> runs X (snd (Execute X sql x))"
    by (auto simp: Execute_def failX_def split: sum.split)
qed


section \<open>Keys of rows\<close>

text \<open>Rows whose texts have no NUL byte have different keys.\<close>

definition plain_row :: "string list \<Rightarrow> bool" where
  "plain_row r \<longleftrightarrow> r \<noteq> [] \<and> (\<forall>s \<in> set r. CHR 0x00 \<notin> set s)"

lemma append_sep_eq:
  "c \<notin> set a \<Longrightarrow> c \<notin> set b \<Longrightarrow> a @ c # r = b @ c # s \<longleftrightarrow> a = b \<and> r = s"
proof (induction a arbitrary: b)
  case Nil
  then show ?case by (cases b) auto
next
  case (Cons x xs)
  then show ?case by (cases b) auto
qed

lemma Join_in: "c \<in> set (Join r sep) \<Longrightarrow> c \<notin> set sep \<Longrightarrow> \<exists>s \<in> set r. c \<in> set s"
  by (induction r sep rule: Join.induct) auto

lemma Join_inj:
  assumes "plain_row r" and "plain_row r'" and "Join r [CHR 0x00] = Join r' [CHR 0x00]"
  shows "r = r'"
  using assms
proof (induction r "[CHR 0x00]" arbitrary: r' rule: Join.induct)
  case 1
  then show ?case by (simp add: plain_row_def)
next
  case (2 x)
  show ?case
  proof (cases r')
    case (Cons y ys)
    with 2 show ?thesis by (cases ys) (auto simp: plain_row_def)
  qed (use 2 in \<open>simp add: plain_row_def\<close>)
next
  case (3 x y xs)
  show ?case
  proof (cases r')
    case (Cons z zs)
    have x: "CHR 0x00 \<notin> set x" "plain_row (y # xs)" using 3(2) by (simp_all add: plain_row_def)
    show ?thesis
    proof (cases zs)
      case Nil
      then have "Join r' [CHR 0x00] = z" "CHR 0x00 \<notin> set z" using Cons 3(3) by (simp_all add: plain_row_def)
      with 3(4) show ?thesis by auto
    next
      case (Cons w ws)
      with \<open>r' = z # zs\<close> have z: "CHR 0x00 \<notin> set z" "plain_row (w # ws)" using 3(3) by (simp_all add: plain_row_def)
      have "x @ CHR 0x00 # Join (y # xs) [CHR 0x00] = z @ CHR 0x00 # Join (w # ws) [CHR 0x00]"
        using 3(4) \<open>r' = z # zs\<close> Cons by simp
      then have "x = z" "Join (y # xs) [CHR 0x00] = Join (w # ws) [CHR 0x00]"
        using append_sep_eq [OF x(1) z(1)] by blast+
      with 3(1) [OF x(2) z(2)] \<open>r' = z # zs\<close> Cons show ?thesis by simp
    qed
  qed (use 3 in \<open>simp add: plain_row_def\<close>)
qed

lemma keepNew_props:
  "set (keepNew k seen rs) \<subseteq> set rs \<and> k ` set (keepNew k seen rs) = k ` set rs - set seen \<and>
   distinct (map k (keepNew k seen rs)) \<and> subseq (keepNew k seen rs) rs"
proof (induction k seen rs rule: keepNew.induct)
  case (2 k seen r rs)
  then show ?case by (cases "k r \<in> set seen") auto
qed simp

lemma keepNew_set:
  assumes "inj_on k (set rs)"
  shows "set (keepNew k [] rs) = set rs" and "distinct (keepNew k [] rs)"
proof -
  have k: "set (keepNew k [] rs) \<subseteq> set rs" "k ` set (keepNew k [] rs) = k ` set rs" "distinct (map k (keepNew k [] rs))"
    using keepNew_props [of k "[]" rs] by simp_all
  then show "set (keepNew k [] rs) = set rs" using assms by (metis inj_on_image_eq_iff order_refl)
  show "distinct (keepNew k [] rs)" using k(3) by (simp add: distinct_map)
qed

lemma rowKeyText_inj: "(\<And>r. r \<in> A \<Longrightarrow> plain_row r) \<Longrightarrow> inj_on rowKeyText A"
  unfolding rowKeyText_def by (rule inj_onI) (blast dest: Join_inj)

lemma compoundRows_sets:
  assumes "\<And>r. r \<in> set ls \<union> set rs \<Longrightarrow> plain_row r"
  shows "set (compoundRows ''UNION'' False ls rs) = set ls \<union> set rs" "distinct (compoundRows ''UNION'' False ls rs)"
    "compoundRows ''UNION'' True ls rs = ls @ rs"
    "compoundRows ''INTERSECT'' all ls rs = filter (\<lambda>r. r \<in> set rs) ls"
    "compoundRows ''EXCEPT'' all ls rs = filter (\<lambda>r. r \<notin> set rs) ls"
proof -
  have inj: "inj_on rowKeyText (set ls \<union> set rs)" by (rule rowKeyText_inj) (rule assms)
  then show "set (compoundRows ''UNION'' False ls rs) = set ls \<union> set rs" "distinct (compoundRows ''UNION'' False ls rs)"
    using keepNew_set [of rowKeyText "ls @ rs"] by (simp_all add: compoundRows_def)
  have "rowKeyText r \<in> rowKeyText ` set rs \<longleftrightarrow> r \<in> set rs" if "r \<in> set ls" for r
    using inj that by (auto simp: inj_on_def)
  then show "compoundRows ''INTERSECT'' all ls rs = filter (\<lambda>r. r \<in> set rs) ls"
    "compoundRows ''EXCEPT'' all ls rs = filter (\<lambda>r. r \<notin> set rs) ls"
    by (auto simp: compoundRows_def intro!: filter_cong)
  show "compoundRows ''UNION'' True ls rs = ls @ rs" by (simp add: compoundRows_def)
qed

section \<open>Sorting\<close>

text \<open>A comparison that neither fails nor changes the state.\<close>

lemma insertX_pure:
  assumes "\<And>b. b \<in> set as \<Longrightarrow> lt a b x = (Inr (p a b), x)"
  shows "\<exists>cs. insertX lt a as x = (Inr cs, x) \<and> mset cs = mset (a # as) \<and>
    (successively (\<lambda>u v. \<not> p u v) as \<longrightarrow> (\<forall>b \<in> set as. p a b \<longrightarrow> \<not> p b a) \<longrightarrow> successively (\<lambda>u v. \<not> p u v) cs) \<and>
    (as \<noteq> [] \<longrightarrow> hd cs = hd as \<or> hd cs = a \<and> \<not> p a (hd as))"
  using assms
proof (induction as)
  case Nil
  then show ?case by (simp add: returnX_def)
next
  case (Cons b as)
  show ?case
  proof (cases "p a b")
    case False
    then show ?thesis using Cons.prems [of b]
      by (intro exI [of _ "a # b # as"]) (simp add: bindX_def returnX_def)
  next
    case True
    obtain cs where cs: "insertX lt a as x = (Inr cs, x)" "mset cs = mset (a # as)"
      "successively (\<lambda>u v. \<not> p u v) as \<longrightarrow> (\<forall>b \<in> set as. p a b \<longrightarrow> \<not> p b a) \<longrightarrow> successively (\<lambda>u v. \<not> p u v) cs"
      "as \<noteq> [] \<longrightarrow> hd cs = hd as \<or> hd cs = a \<and> \<not> p a (hd as)"
      using Cons.IH Cons.prems by (metis list.set_intros(2))
    have ne: "cs \<noteq> []" using cs(2) by auto
    have "insertX lt a (b # as) x = (Inr (b # cs), x)"
      using cs(1) True Cons.prems [of b] by (simp add: bindX_def returnX_def)
    moreover have "successively (\<lambda>u v. \<not> p u v) (b # cs)"
      if s: "successively (\<lambda>u v. \<not> p u v) (b # as)" and p: "\<forall>c \<in> set (b # as). p a c \<longrightarrow> \<not> p c a"
    proof -
      have "successively (\<lambda>u v. \<not> p u v) as" using s by (cases as) simp_all
      then have t: "successively (\<lambda>u v. \<not> p u v) cs" using cs(3) p by simp
      have "\<not> p b (hd cs)"
      proof (cases "as = []")
        case True
        then have "cs = [a]" using cs(2) by simp
        then show ?thesis using p \<open>p a b\<close> by simp
      next
        case False
        then have "\<not> p b (hd as)" using s by (cases as) simp_all
        then show ?thesis using cs(4) False p \<open>p a b\<close> by auto
      qed
      with t ne show ?thesis by (cases cs) simp_all
    qed
    ultimately show ?thesis using cs(2) by (intro exI [of _ "b # cs"]) simp
  qed
qed

text \<open>Sorting gives a permutation in which no element is smaller than the one before it.\<close>

lemma stableSortX_pure:
  assumes lt: "\<And>a b. a \<in> set rs \<Longrightarrow> b \<in> set rs \<Longrightarrow> lt a b x = (Inr (p a b), x)"
    and asym: "\<And>a b. a \<in> set rs \<Longrightarrow> b \<in> set rs \<Longrightarrow> p a b \<Longrightarrow> \<not> p b a"
  shows "\<exists>cs. stableSortX lt rs x = (Inr cs, x) \<and> mset cs = mset rs \<and> successively (\<lambda>u v. \<not> p v u) cs"
proof -
  have "\<exists>bs. foldX (insertX lt) as bs0 x = (Inr bs, x) \<and> mset bs = mset as + mset bs0 \<and> successively (\<lambda>u v. \<not> p u v) bs"
    if "set as \<union> set bs0 \<subseteq> set rs" "successively (\<lambda>u v. \<not> p u v) bs0" for as bs0
    using that
  proof (induction as arbitrary: bs0)
    case Nil
    then show ?case by (simp add: returnX_def)
  next
    case (Cons a as)
    have "lt a b x = (Inr (p a b), x)" if "b \<in> set bs0" for b using lt Cons.prems(1) that by auto
    from insertX_pure [of bs0 lt a x p, OF this] obtain cs where
      cs: "insertX lt a bs0 x = (Inr cs, x)" "mset cs = mset (a # bs0)"
      "successively (\<lambda>u v. \<not> p u v) bs0 \<longrightarrow> (\<forall>b \<in> set bs0. p a b \<longrightarrow> \<not> p b a) \<longrightarrow> successively (\<lambda>u v. \<not> p u v) cs"
      by blast
    have "\<forall>b \<in> set bs0. p a b \<longrightarrow> \<not> p b a" using asym Cons.prems(1) by auto
    then have s: "successively (\<lambda>u v. \<not> p u v) cs" using cs(3) Cons.prems(2) by blast
    have "set cs = insert a (set bs0)" using cs(2) by (metis list.set(2) mset_eq_setD)
    then have "set as \<union> set cs \<subseteq> set rs" using Cons.prems(1) by auto
    from Cons.IH [OF this s] obtain bs where "foldX (insertX lt) as cs x = (Inr bs, x)"
      "mset bs = mset as + mset cs" "successively (\<lambda>u v. \<not> p u v) bs" by blast
    then show ?case using cs(1,2) by (auto simp: bindX_def)
  qed
  from this [of rs "[]"] obtain bs where bs: "foldX (insertX lt) rs [] x = (Inr bs, x)" "mset bs = mset rs"
    "successively (\<lambda>u v. \<not> p u v) bs" by auto
  then show ?thesis
    by (intro exI [of _ "rev bs"]) (simp add: stableSortX_def bindX_def returnX_def successively_rev)
qed


section \<open>Ordering by columns\<close>

text \<open>The order of two values, NULL first, and the lexicographic order of two rows by keys, where a
  descending key swaps the rows. Columns that are there need no evaluation.\<close>

definition before :: "golib \<Rightarrow> vptr \<Rightarrow> vptr \<Rightarrow> bool" where
  "before G p q \<longleftrightarrow> \<not> isNil q \<and> (isNil p \<or> value_Compare G (the p) (the q) < 0)"

fun lessKeys :: "golib \<Rightarrow> (bool \<times> (row \<Rightarrow> vptr)) list \<Rightarrow> row \<Rightarrow> row \<Rightarrow> bool" where
  "lessKeys G [] r s = False"
| "lessKeys G ((desc, f) # ks) r s =
     (let (a, b) = (if desc then (f s, f r) else (f r, f s))
      in before G a b \<or> (\<not> before G b a \<and> lessKeys G ks r s))"

definition identName :: "Expr \<Rightarrow> string" where
  "identName e = (case e of IdentExpr _ n \<Rightarrow> n | _ \<Rightarrow> '''')"

definition orderKeys :: "golib \<Rightarrow> string list \<Rightarrow> OrderByExpr list \<Rightarrow> (bool \<times> (row \<Rightarrow> vptr)) list" where
  "orderKeys G names obs = map (\<lambda>ob. (obDesc ob, \<lambda>r. the (orderColumn G names (identName (obExpr ob)) r))) obs"

text \<open>Every key is a name among the columns of the row.\<close>

definition keyed :: "golib \<Rightarrow> string list \<Rightarrow> OrderByExpr list \<Rightarrow> row \<Rightarrow> bool" where
  "keyed G names obs r \<longleftrightarrow>
     (\<forall>ob \<in> set obs. \<exists>t n. obExpr ob = IdentExpr t n \<and> orderColumn G names n r \<noteq> None)"

lemma before_asym: "before G p q \<Longrightarrow> \<not> before G q p"
  using compare_swap [of G "the p" "the q"] by (auto simp: before_def)

lemma orderDecides_before:
  "orderDecides G desc p q =
     (let (a, b) = (if desc then (q, p) else (p, q))
      in if before G a b then Some True else if before G b a then Some False else None)"
  using compare_swap [of G "the p" "the q"] by (auto simp: orderDecides_def before_def Let_def)

lemma lessKeys_asym: "lessKeys G ks r s \<Longrightarrow> \<not> lessKeys G ks s r"
proof (induction ks)
  case (Cons k ks)
  obtain d f where "k = (d, f)" by (cases k)
  with Cons show ?case using before_asym [of G "f r" "f s"] by (cases d) auto
qed simp

lemma lessRow_pure:
  assumes "keyed (xlib X) names obs r" and "keyed (xlib X) names obs s"
  shows "lessRow X schema tabs names obs r s x = (Inr (lessKeys (xlib X) (orderKeys (xlib X) names obs) r s), x)"
  using assms
proof (induction obs)
  case Nil
  then show ?case by (simp add: returnX_def orderKeys_def)
next
  case (Cons ob obs)
  from Cons.prems obtain t n p q where e: "obExpr ob = IdentExpr t n" "orderColumn (xlib X) names n r = Some p"
    "orderColumn (xlib X) names n s = Some q"
    by (auto simp: keyed_def)
  have "evalOrderByExpr X (obExpr ob) r schema tabs names x = (Inr p, x)"
    "evalOrderByExpr X (obExpr ob) s schema tabs names x = (Inr q, x)"
    by (simp_all add: evalOrderByExpr_def e returnX_def)
  moreover have "lessRow X schema tabs names obs r s x = (Inr (lessKeys (xlib X) (orderKeys (xlib X) names obs) r s), x)"
    using Cons by (simp add: keyed_def)
  moreover have "orderKeys (xlib X) names (ob # obs) =
      (obDesc ob, \<lambda>r. the (orderColumn (xlib X) names n r)) # orderKeys (xlib X) names obs"
    by (simp add: orderKeys_def identName_def e(1))
  ultimately show ?case
    using before_asym [of "xlib X"] by (auto simp: bindX_def returnX_def e(2,3) orderDecides_before)
qed

lemma sortRows_sorts:
  assumes "\<And>r. r \<in> set rows \<Longrightarrow> keyed (xlib X) (resolveColumnNames X stmt schema) (selOrderBy stmt) r"
  shows "\<exists>out. sortRows X stmt rows schema tabs x = (Inr out, x) \<and> mset out = mset rows \<and>
    successively (\<lambda>r s. \<not> lessKeys (xlib X) (orderKeys (xlib X) (resolveColumnNames X stmt schema) (selOrderBy stmt)) s r) out"
  unfolding sortRows_def
  by (rule stableSortX_pure) (use lessRow_pure assms lessKeys_asym in blast)+

section \<open>Groups\<close>

lemma addToGroup_props:
  assumes "distinct (map fst gs)"
  shows "distinct (map fst (addToGroup k r gs))"
    and "map_of (addToGroup k r gs) = (map_of gs)(k \<mapsto> (case map_of gs k of None \<Rightarrow> [] | Some rs \<Rightarrow> rs) @ [r])"
    and "map fst (addToGroup k r gs) = map fst gs @ (if k \<in> fst ` set gs then [] else [k])"
  using assms by (induction k r gs rule: addToGroup.induct) (auto simp: fun_eq_iff)

text \<open>The groups of a list by a key.\<close>

definition groupsBy :: "('a \<Rightarrow> string) \<Rightarrow> 'a list \<Rightarrow> (string \<times> 'a list) list" where
  "groupsBy k rows = fold (\<lambda>r gs. addToGroup (k r) r gs) rows []"

lemma groupsBy_snoc: "groupsBy k (rows @ [r]) = addToGroup (k r) r (groupsBy k rows)"
  by (simp add: groupsBy_def)

lemma groupsBy_props:
  "distinct (map fst (groupsBy k rows)) \<and>
   map_of (groupsBy k rows) = (\<lambda>g. if g \<in> k ` set rows then Some (filter (\<lambda>r. k r = g) rows) else None)"
proof (induction rows rule: rev_induct)
  case Nil
  then show ?case by (simp add: groupsBy_def)
next
  case (snoc r rows)
  then have d: "distinct (map fst (groupsBy k rows))" and
    m: "map_of (groupsBy k rows) = (\<lambda>g. if g \<in> k ` set rows then Some (filter (\<lambda>r. k r = g) rows) else None)" by simp_all
  have e: "k r \<notin> k ` set rows \<Longrightarrow> filter (\<lambda>r'. k r' = k r) rows = []" unfolding filter_empty_conv by (metis imageI)
  show ?case
    unfolding groupsBy_snoc using addToGroup_props(1,2) [OF d, of "k r" r] e
    by (auto simp: m fun_eq_iff)
qed

lemma foldX_pure:
  assumes "\<And>a b. a \<in> set as \<Longrightarrow> f a b x = (Inr (g a b), x)"
  shows "foldX f as b x = (Inr (fold g as b), x)"
  using assms by (induction as arbitrary: b) (simp_all add: returnX_def bindX_def)

lemma mapX_pure:
  assumes "\<And>a. a \<in> set as \<Longrightarrow> f a x = (Inr (g a), x)"
  shows "mapX f as x = (Inr (map g as), x)"
  using assms by (induction as) (simp_all add: returnX_def bindX_def)

lemma groupRows_groups:
  assumes "\<And>r. r \<in> set rows \<Longrightarrow> groupKey X gbs (makeCtxForRow r schema (Some tabs)) x = (Inr (k r), x)"
  shows "groupRows X gbs rows schema tabs x = (Inr (groupsBy k rows), x)"
  unfolding groupRows_def groupsBy_def by (rule foldX_pure) (simp add: assms bindX_def returnX_def)

section \<open>Aggregates\<close>

definition aggregateOf :: "golib \<Rightarrow> string \<Rightarrow> vptr list \<Rightarrow> Value" where
  "aggregateOf G name ps = result (fold (accumulate G) ps (newAgg name))"

text \<open>The values among the pointers that are not NULL.\<close>

definition given :: "vptr list \<Rightarrow> Value list" where
  "given ps = map the (filter (\<lambda>p. \<not> isNil p) ps)"

lemma accumulate_given: "fold (accumulate G) ps a = fold (accumulateValue G) (given ps) a"
  by (induction ps arbitrary: a) (auto simp: given_def accumulate_def isNil_def split: option.split)

lemma count_result: "aggregateOf G ''COUNT'' ps = IntValue (of_nat (length (given ps)))"
proof -
  have "agName (fold (accumulateValue G) vs a) = ''COUNT'' \<and> agCount (fold (accumulateValue G) vs a) = agCount a + of_nat (length vs)"
    if "agName a = ''COUNT''" for vs a
    using that
  proof (induction vs arbitrary: a)
    case (Cons v vs)
    then show ?case using Cons.IH [of "a\<lparr>agCount := agCount a + 1\<rparr>"] by (simp add: accumulateValue_def Let_def)
  qed simp
  from this [of "newAgg ''COUNT''" "given ps"] show ?thesis
    by (simp add: aggregateOf_def accumulate_given result_def newAgg_def)
qed

lemma sum_result:
  assumes "\<And>v. v \<in> set (given ps) \<Longrightarrow> \<exists>i. v = IntValue i"
  shows "aggregateOf G ''SUM'' ps = (if given ps = [] then NullValue
    else if (of_nat (length (given ps)) :: 64 word) = 0 then NullValue else IntValue (sum_list (map Integer (given ps))))"
proof -
  have "let b = fold (accumulateValue G) vs a in agName b = ''SUM'' \<and> agCount b = agCount a + of_nat (length vs) \<and>
      agIsum b = agIsum a + sum_list (map Integer vs) \<and> (vs \<noteq> [] \<or> agIsInt a \<longrightarrow> agIsInt b)"
    if "agName a = ''SUM''" "\<And>v. v \<in> set vs \<Longrightarrow> \<exists>i. v = IntValue i" for vs a
    using that
  proof (induction vs arbitrary: a)
    case (Cons v vs)
    then obtain i where i: "v = IntValue i" by auto
    let ?b = "accumulateValue G v a"
    have "agName ?b = ''SUM''" "agCount ?b = agCount a + 1" "agIsum ?b = agIsum a + i" "agIsInt ?b"
      using Cons.prems(1) by (simp_all add: accumulateValue_def i val_types Let_def)
    then show ?case using Cons.IH [of ?b] Cons.prems(2) by (auto simp: Let_def i)
  qed (simp add: Let_def)
  from this [of "newAgg ''SUM''" "given ps"] show ?thesis
    using assms by (auto simp: aggregateOf_def accumulate_given result_def newAgg_def Let_def)
qed


lemma fold_better:
  assumes le: "\<And>v b. \<not> P (value_Compare G v b) \<Longrightarrow> le b v" "\<And>v b. P (value_Compare G v b) \<Longrightarrow> le v b" "\<And>v. le v v"
    and trans: "\<And>u v w. u \<in> A \<Longrightarrow> v \<in> A \<Longrightarrow> w \<in> A \<Longrightarrow> le u v \<Longrightarrow> le v w \<Longrightarrow> le u w"
    and A: "insert b0 (set vs) \<subseteq> A"
  shows "\<exists>b. fold (better G P) vs (Some b0) = Some b \<and> b \<in> insert b0 (set vs) \<and> (\<forall>w \<in> insert b0 (set vs). le b w)"
  using A
proof (induction vs arbitrary: b0)
  case Nil
  then show ?case by (simp add: le(3))
next
  case (Cons v vs)
  define b1 where "b1 = (if P (value_Compare G v b0) then v else b0)"
  have b1: "b1 = v \<or> b1 = b0" "le b1 v" "le b1 b0" using le by (simp_all add: b1_def)
  have "insert b1 (set vs) \<subseteq> A" using Cons.prems b1(1) by auto
  from Cons.IH [OF this] obtain b where b: "fold (better G P) vs (Some b1) = Some b" "b \<in> insert b1 (set vs)"
    "\<forall>w \<in> insert b1 (set vs). le b w" by blast
  have A: "b \<in> A" "b1 \<in> A" "v \<in> A" "b0 \<in> A" using b(2) b1(1) Cons.prems by auto
  have "le b b1" using b(3) by simp
  then have "le b v" "le b b0" using trans [OF A(1,2,3)] trans [OF A(1,2,4)] b1 by simp_all
  moreover have "better G P v (Some b0) = Some b1" by (simp add: better_def b1_def)
  then have "fold (better G P) (v # vs) (Some b0) = Some b" using b(1) by simp
  ultimately show ?case using b(2,3) b1(1) by auto
qed

lemma extreme_fold:
  "agName a = ''MIN'' \<Longrightarrow> agName (fold (accumulateValue G) vs a) = ''MIN'' \<and>
     agMin (fold (accumulateValue G) vs a) = fold (better G (\<lambda>c. c < 0)) vs (agMin a)"
  "agName a = ''MAX'' \<Longrightarrow> agName (fold (accumulateValue G) vs a) = ''MAX'' \<and>
     agMax (fold (accumulateValue G) vs a) = fold (better G (\<lambda>c. c > 0)) vs (agMax a)"
  by (induction vs arbitrary: a) (simp_all add: accumulateValue_def)

lemma min_result:
  assumes "given ps \<noteq> []" and "\<And>v w. v \<in> set (given ps) \<Longrightarrow> w \<in> set (given ps) \<Longrightarrow> same_kind v w"
  shows "aggregateOf G ''MIN'' ps \<in> set (given ps)" and "\<forall>w \<in> set (given ps). value_Compare G (aggregateOf G ''MIN'' ps) w \<le> 0"
proof -
  have tr: "value_Compare G u w \<le> 0" if "u \<in> set (given ps)" "v \<in> set (given ps)" "w \<in> set (given ps)"
    "value_Compare G u v \<le> 0" "value_Compare G v w \<le> 0" for u v w
    by (rule compare_trans [OF assms(2) assms(2)]) (rule that)+
  obtain v vs where v: "given ps = v # vs" using assms(1) by (cases "given ps") auto
  have "\<exists>b. fold (better G (\<lambda>c. c < 0)) vs (Some v) = Some b \<and> b \<in> insert v (set vs) \<and>
      (\<forall>w \<in> insert v (set vs). value_Compare G b w \<le> 0)"
  proof (rule fold_better [where A = "set (given ps)" and le = "\<lambda>v w. value_Compare G v w \<le> 0"])
    fix a b show "\<not> value_Compare G a b < 0 \<Longrightarrow> value_Compare G b a \<le> 0" using compare_swap [of G a b] by linarith
  next
    fix u v w assume "u \<in> set (given ps)" "v \<in> set (given ps)" "w \<in> set (given ps)"
      "value_Compare G u v \<le> 0" "value_Compare G v w \<le> 0"
    then show "value_Compare G u w \<le> 0" by (rule tr)
  qed (simp_all add: compare_refl v)
  then obtain b where b: "fold (better G (\<lambda>c. c < 0)) vs (Some v) = Some b" "b \<in> set (given ps)"
    "\<forall>w \<in> set (given ps). value_Compare G b w \<le> 0" using v by auto
  have "fold (better G (\<lambda>c. c < 0)) (given ps) None = Some b" using b(1) by (simp add: v better_def)
  then have "aggregateOf G ''MIN'' ps = b"
    using extreme_fold(1) [of "newAgg ''MIN''" G "given ps"]
    by (simp add: aggregateOf_def accumulate_given result_def newAgg_def orNull_def Let_def)
  with b show "aggregateOf G ''MIN'' ps \<in> set (given ps)" "\<forall>w \<in> set (given ps). value_Compare G (aggregateOf G ''MIN'' ps) w \<le> 0"
    by simp_all
qed

lemma max_result:
  assumes "given ps \<noteq> []" and "\<And>v w. v \<in> set (given ps) \<Longrightarrow> w \<in> set (given ps) \<Longrightarrow> same_kind v w"
  shows "aggregateOf G ''MAX'' ps \<in> set (given ps)" and "\<forall>w \<in> set (given ps). value_Compare G w (aggregateOf G ''MAX'' ps) \<le> 0"
proof -
  have tr: "value_Compare G u w \<le> 0" if "u \<in> set (given ps)" "v \<in> set (given ps)" "w \<in> set (given ps)"
    "value_Compare G u v \<le> 0" "value_Compare G v w \<le> 0" for u v w
    by (rule compare_trans [OF assms(2) assms(2)]) (rule that)+
  obtain v vs where v: "given ps = v # vs" using assms(1) by (cases "given ps") auto
  have "\<exists>b. fold (better G (\<lambda>c. c > 0)) vs (Some v) = Some b \<and> b \<in> insert v (set vs) \<and>
      (\<forall>w \<in> insert v (set vs). value_Compare G w b \<le> 0)"
  proof (rule fold_better [where A = "set (given ps)" and le = "\<lambda>v w. value_Compare G w v \<le> 0"])
    fix a b show "value_Compare G a b > 0 \<Longrightarrow> value_Compare G b a \<le> 0" using compare_swap [of G a b] by linarith
  next
    fix u v w assume "u \<in> set (given ps)" "v \<in> set (given ps)" "w \<in> set (given ps)"
      "value_Compare G v u \<le> 0" "value_Compare G w v \<le> 0"
    then show "value_Compare G w u \<le> 0" using tr by blast
  qed (simp_all add: compare_refl v)
  then obtain b where b: "fold (better G (\<lambda>c. c > 0)) vs (Some v) = Some b" "b \<in> set (given ps)"
    "\<forall>w \<in> set (given ps). value_Compare G w b \<le> 0" using v by auto
  have "fold (better G (\<lambda>c. c > 0)) (given ps) None = Some b" using b(1) by (simp add: v better_def)
  then have "aggregateOf G ''MAX'' ps = b"
    using extreme_fold(2) [of "newAgg ''MAX''" G "given ps"]
    by (simp add: aggregateOf_def accumulate_given result_def newAgg_def orNull_def Let_def)
  with b show "aggregateOf G ''MAX'' ps \<in> set (given ps)" "\<forall>w \<in> set (given ps). value_Compare G w (aggregateOf G ''MAX'' ps) \<le> 0"
    by simp_all
qed

section \<open>Names and tables in a query\<close>

text \<open>\<open>SELECT t.c FROM name t\<close> and \<open>SELECT * FROM name\<close>.\<close>

definition selectQualified :: "string \<Rightarrow> string \<Rightarrow> string \<Rightarrow> string \<Rightarrow> SelectStmt" where
  "selectQualified t c name ali =
     SelectStmt False [SelectColumn (Some (IdentExpr t c)) '''' False] [TableRef name ali] [] None [] None [] None None None None"

definition selectStar :: "string \<Rightarrow> SelectStmt" where
  "selectStar name =
     SelectStmt False [SelectColumn None '''' True] [TableRef name ''''] [] None [] None [] None None None None"

lemma bindX_Inr: "m x = (Inr a, x') \<Longrightarrow> bindX m k x = k a x'"
  by (simp add: bindX_def)

lemma evalSelect_column:
  assumes rows: "getTableRows X sel name ctes x = (Inr (rs, schema), x')" "rs \<noteq> []"
    and t: "t \<noteq> ''''" "ToLower (xlib X) t = ToLower (xlib X) (if ali = '''' then name else ali)"
    and c: "ColumnIndex (xlib X) c schema = Some i" "i < length (fst (last rs))" "fst (last rs) ! i = Some v"
  shows "evalSelectWith X sel (selectQualified t c name ali) ctes x = (Inr (map (\<lambda>_. [Some v]) rs, [c]), x')"
proof -
  let ?stmt = "selectQualified t c name ali"
  let ?ali = "ToLower (xlib X) (if ali = '''' then name else ali)"
  define tabs where "tabs = bindLast ?ali schema rs []"
  have tabs: "map_of tabs (ToLower (xlib X) t) = Some \<lparr>tbSchema = schema, tbRow = fst (last rs), tbRowID = snd (last rs)\<rparr>"
    using rows(2) t(2) by (simp add: tabs_def bindLast_def update_conv')
  have g: "gatherRows X sel ?stmt ctes x = (Inr (map fst rs, schema, tabs), x')"
    using rows(1) by (simp add: gatherRows_def selectQualified_def bindX_def returnX_def refAliasOf_def tabs_def Let_def)
  have ident: "resolveIdent (xeEval X) (makeCtxForRow r (Some schema) (Some tabs)) t c = ptr (Some v)" for r
    using t(1) tabs c by (simp add: resolveIdent_def makeCtxForRow_def Let_def)
  have "projectRow X (makeCtxForRow r (Some schema) (Some tabs)) ?stmt y = (Inr [Some v], y)" for r y
    by (simp add: projectRow_def selectQualified_def evalColumn_def valueX_def evalX_def ident bindX_def returnX_def
        ptr_def giveV_def)
  then have p: "mapX (\<lambda>r. projectRow X (makeCtxForRow r (Some schema) (Some tabs)) ?stmt) (map fst rs) x'
      = (Inr (map (\<lambda>_. [Some v]) (map fst rs)), x')"
    by (intro mapX_pure)
  have "evalSelectWith X sel ?stmt ctes x = bindX (mapX (\<lambda>r. projectRow X (makeCtxForRow r (Some schema) (Some tabs)) ?stmt) (map fst rs))
      (\<lambda>rows. returnX (rows, [c])) x'"
    unfolding evalSelectWith_def
    by (simp add: bindX_Inr [where m = "gatherRows X sel ?stmt ctes", OF g])
      (simp add: selectQualified_def filterRows_def bindX_def returnX_def hasAggregates_def columnAggregate_def
        resolveColumnNames_def columnName_def exprName_def applyLimitOffset_def limitValue_def dropRows_def takeRows_def)
  also have "\<dots> = (Inr (map (\<lambda>_. [Some v]) rs, [c]), x')" using p by (simp add: bindX_def returnX_def comp_def)
  finally show ?thesis .
qed


section \<open>The rows of a table\<close>

lemma select_star:
  assumes "GetTable (xeEnv X) name s = Some ts" and "GetView (xeEnv X) name s = None" and "s = te_schema (xTable x)"
    and "Scan (xeEnv X) (scanFuel X) name (xTable x) = (Inr found, (xTable x)\<lparr>te_schema := s\<lparr>sm_pager := p\<rparr>\<rparr>)"
    and "viewFuel X = Suc n"
  shows "fst (execSelect X (selectStar name) x) =
    Inr (tableOf (map cName (Columns ts)) (map (map (value_String (xlib X))) (map snd found)))"
proof -
  define x' where "x' = x\<lparr>xTable := (xTable x)\<lparr>te_schema := s\<lparr>sm_pager := p\<rparr>\<rparr>\<rparr>"
  have g: "GetTable (xeEnv X) name (s\<lparr>sm_pager := p\<rparr>) = Some ts" using assms(1) by (simp add: GetTable_def)
  define rs where "rs = map (\<lambda>(rowid, r). (map Some r, rowid)) found"
  have src: "getTableRows X sel name [] x = (Inr (rs, ts), x')" for sel
    using assms(2,3,4) g
    by (simp add: getTableRows_def bindX_def lookupX_def onTable_def returnX_def x'_def rs_def)
  define tabs where "tabs = bindLast (ToLower (xlib X) name) ts rs []"
  have gather: "gatherRows X sel (selectStar name) [] x = (Inr (map fst rs, ts, tabs), x')" for sel
    using src by (simp add: gatherRows_def selectStar_def bindX_def returnX_def refAliasOf_def tabs_def Let_def)
  have "projectRow X (makeCtxForRow r (Some ts) (Some tabs)) (selectStar name) y = (Inr r, y)" for r y
    by (simp add: projectRow_def selectStar_def makeCtxForRow_def bindX_def returnX_def)
  then have proj: "mapX (\<lambda>r. projectRow X (makeCtxForRow r (Some ts) (Some tabs)) (selectStar name)) (map fst rs) x'
      = (Inr (map (\<lambda>r. r) (map fst rs)), x')"
    by (intro mapX_pure)
  have "evalSelectWith X sel (selectStar name) [] x =
      bindX (mapX (\<lambda>r. projectRow X (makeCtxForRow r (Some ts) (Some tabs)) (selectStar name)) (map fst rs))
        (\<lambda>rows. returnX (rows, map cName (Columns ts))) x'" for sel
    unfolding evalSelectWith_def
    by (simp add: bindX_Inr [where m = "gatherRows X sel (selectStar name) []", OF gather])
      (simp add: selectStar_def filterRows_def bindX_def returnX_def hasAggregates_def columnAggregate_def
        resolveColumnNames_def applyLimitOffset_def limitValue_def dropRows_def takeRows_def)
  then have sel: "evalSelect X (Suc n) (selectStar name) [] x = (Inr (map fst rs, map cName (Columns ts)), x')"
    using proj by (simp add: bindX_def returnX_def)
  have "execSelect X (selectStar name) x = execPlain X (selectStar name) x"
    by (subst execSelect.simps) (simp add: selectStar_def evalCTEs_def bindX_def returnX_def)
  also have "\<dots> = (Inr (tableOf (map cName (Columns ts)) (map (map (ptrString (xlib X))) (map fst rs))), x')"
    using sel by (simp add: execPlain_def assms(5) bindX_def returnX_def)
  also have "map (map (ptrString (xlib X))) (map fst rs) = map (map (value_String (xlib X))) (map snd found)"
    by (simp add: rs_def ptrString_def comp_def split_beta)
  finally show ?thesis by simp
qed

end
