(* ===== verification/ParserFuel.thy ===== *)
theory ParserFuel
  imports Parser
begin

text \<open>
  The fuel of the parser is enough. \<open>good ts k m\<close> says that on the tokens \<open>ts\<close>, with at most \<open>k\<close> of
  them left, \<open>m\<close> does not run out of fuel and gives no token back, \<open>strict ts k m\<close> that it also
  consumes one. The grammar functions are strict as soon as the functions that close the recursion
  are strict on fewer tokens; the fuel then decreases with the tokens. Only the column lists of
  table constraints escape: they may really loop for ever.
\<close>

definition good :: "Token list \<Rightarrow> nat \<Rightarrow> 'a pa \<Rightarrow> bool" where
  "good ts k m \<longleftrightarrow> (\<forall>p. tokens p = ts \<and> remaining p \<le> k \<longrightarrow>
     (case m p of Inl e \<Rightarrow> e \<noteq> OutOfFuel | Inr (x, p') \<Rightarrow> tokens p' = ts \<and> remaining p' \<le> remaining p))"

definition strict :: "Token list \<Rightarrow> nat \<Rightarrow> 'a pa \<Rightarrow> bool" where
  "strict ts k m \<longleftrightarrow> (\<forall>p. tokens p = ts \<and> remaining p \<le> k \<longrightarrow>
     (case m p of Inl e \<Rightarrow> e \<noteq> OutOfFuel | Inr (x, p') \<Rightarrow> tokens p' = ts \<and> remaining p' < remaining p))"

lemma tokens_advance [simp]: "tokens (snd (advanceP p)) = tokens p"
  by (simp add: advanceP_def Let_def)

lemma goodD:
  assumes "good ts k m" and "tokens p = ts" and "remaining p \<le> k"
  shows "m p \<noteq> Inl OutOfFuel" "m p = Inr (x, p') \<Longrightarrow> tokens p' = ts \<and> remaining p' \<le> remaining p"
  using assms(1) [unfolded good_def, THEN spec [of _ p], THEN mp, OF conjI [OF assms(2,3)]]
  by (cases "m p", auto)+

lemma strictD:
  assumes "strict ts k m" and "tokens p = ts" and "remaining p \<le> k"
  shows "m p \<noteq> Inl OutOfFuel" "m p = Inr (x, p') \<Longrightarrow> tokens p' = ts \<and> remaining p' < remaining p"
  using assms(1) [unfolded strict_def, THEN spec [of _ p], THEN mp, OF conjI [OF assms(2,3)]]
  by (cases "m p", auto)+

lemma strict_good: "strict ts k m \<Longrightarrow> good ts k m"
  unfolding good_def
proof (intro allI impI)
  fix p assume a: "strict ts k m" "tokens p = ts \<and> remaining p \<le> k"
  show "case m p of Inl e \<Rightarrow> e \<noteq> OutOfFuel | Inr (x, p') \<Rightarrow> tokens p' = ts \<and> remaining p' \<le> remaining p"
    using strictD [OF a(1), of p] a(2) by (cases "m p") (auto intro: less_imp_le)
qed

lemma good_less: "strict ts k m \<Longrightarrow> j < k \<Longrightarrow> good ts j m"
  by (rule strict_good) (auto simp: strict_def)

lemma good_mono: "good ts k m \<Longrightarrow> j \<le> k \<Longrightarrow> good ts j m"
  by (auto simp: good_def)

lemma strict_mono: "strict ts k m \<Longrightarrow> j \<le> k \<Longrightarrow> strict ts j m"
  by (auto simp: strict_def)

lemma bindA_cases:
  obtains (err) e where "m p = Inl e" "bindA m f p = Inl e"
  | (ok) x p' where "m p = Inr (x, p')" "bindA m f p = f x p'"
proof (cases "m p")
  case (Inr r)
  with ok [of "fst r" "snd r"] show ?thesis by (simp add: bindA_def case_prod_unfold)
qed (use err in \<open>simp add: bindA_def\<close>)

lemma good_bind: "good ts k m \<Longrightarrow> (\<And>x. good ts k (f x)) \<Longrightarrow> good ts k (bindA m f)"
  unfolding good_def [of ts k "bindA m f"]
proof (intro allI impI)
  fix p assume a: "good ts k m" "\<And>x. good ts k (f x)" "tokens p = ts \<and> remaining p \<le> k"
  show "case bindA m f p of Inl e \<Rightarrow> e \<noteq> OutOfFuel | Inr (x, p') \<Rightarrow> tokens p' = ts \<and> remaining p' \<le> remaining p"
  proof (cases rule: bindA_cases [of m p f])
    case (err e)
    then show ?thesis using goodD(1) [OF a(1)] a(3) by auto
  next
    case (ok x p')
    have p': "tokens p' = ts" "remaining p' \<le> remaining p" using goodD(2) [OF a(1) _ _ ok(1)] a(3) by auto
    then have "remaining p' \<le> k" using a(3) by simp
    from goodD [OF a(2) p'(1) this] p'(2) ok(2) show ?thesis by (fastforce split: sum.split)
  qed
qed

text \<open>When the first step consumes, the second one may rely on fewer tokens.\<close>

lemma strict_bind: "strict ts k m \<Longrightarrow> (\<And>x j. j < k \<Longrightarrow> good ts j (f x)) \<Longrightarrow> strict ts k (bindA m f)"
  unfolding strict_def [of ts k "bindA m f"]
proof (intro allI impI)
  fix p assume a: "strict ts k m" "\<And>x j. j < k \<Longrightarrow> good ts j (f x)" "tokens p = ts \<and> remaining p \<le> k"
  show "case bindA m f p of Inl e \<Rightarrow> e \<noteq> OutOfFuel | Inr (x, p') \<Rightarrow> tokens p' = ts \<and> remaining p' < remaining p"
  proof (cases rule: bindA_cases [of m p f])
    case (err e)
    then show ?thesis using strictD(1) [OF a(1)] a(3) by auto
  next
    case (ok x p')
    have p': "tokens p' = ts" "remaining p' < remaining p" using strictD(2) [OF a(1) _ _ ok(1)] a(3) by auto
    then have "remaining p' < k" using a(3) by simp
    from goodD [OF a(2) [OF this] p'(1) order_refl] p'(2) ok(2) show ?thesis by (fastforce split: sum.split)
  qed
qed

lemma strict_bind2: "good ts k m \<Longrightarrow> (\<And>x. strict ts k (f x)) \<Longrightarrow> strict ts k (bindA m f)"
  unfolding strict_def [of ts k "bindA m f"]
proof (intro allI impI)
  fix p assume a: "good ts k m" "\<And>x. strict ts k (f x)" "tokens p = ts \<and> remaining p \<le> k"
  show "case bindA m f p of Inl e \<Rightarrow> e \<noteq> OutOfFuel | Inr (x, p') \<Rightarrow> tokens p' = ts \<and> remaining p' < remaining p"
  proof (cases rule: bindA_cases [of m p f])
    case (err e)
    then show ?thesis using goodD(1) [OF a(1)] a(3) by auto
  next
    case (ok x p')
    have p': "tokens p' = ts" "remaining p' \<le> remaining p" using goodD(2) [OF a(1) _ _ ok(1)] a(3) by auto
    then have "remaining p' \<le> k" using a(3) by simp
    from strictD [OF a(2) p'(1) this] p'(2) ok(2) show ?thesis by (fastforce split: sum.split)
  qed
qed

lemma good_bind_strict:
  "strict ts k m \<Longrightarrow> (\<And>x j. j < k \<Longrightarrow> good ts j (f x)) \<Longrightarrow> good ts k (bindA m f)"
  by (rule strict_good) (rule strict_bind)

lemma good_thenA: "good ts k m \<Longrightarrow> good ts k m' \<Longrightarrow> good ts k (thenA m m')"
  unfolding thenA_def by (rule good_bind)

lemma strict_thenA: "strict ts k m \<Longrightarrow> (\<And>j. j < k \<Longrightarrow> good ts j m') \<Longrightarrow> strict ts k (thenA m m')"
  unfolding thenA_def by (rule strict_bind)

lemma strict_thenA2: "good ts k m \<Longrightarrow> strict ts k m' \<Longrightarrow> strict ts k (thenA m m')"
  unfolding thenA_def by (rule strict_bind2)

lemma good_basic:
  "good ts k (returnA x)" "e \<noteq> OutOfFuel \<Longrightarrow> good ts k (failA e)" "good ts k advanceA" "good ts k (failTok msg)"
  "good ts k (failMsg msg)"
  "(\<And>e. r \<noteq> Inl OutOfFuel) \<Longrightarrow> good ts k (liftA r)"
  using remaining_advance_le
  by (auto simp: good_def returnA_def failA_def advanceA_def failTok_def failMsg_def liftA_def Let_def case_prod_unfold
      split: sum.split)

lemma strict_fail: "e \<noteq> OutOfFuel \<Longrightarrow> strict ts k (failA e)" "strict ts k (failTok msg)" "strict ts k (failMsg msg)"
  by (auto simp: strict_def failA_def failTok_def failMsg_def Let_def)

lemma good_ifState: "good ts k a \<Longrightarrow> good ts k b \<Longrightarrow> good ts k (ifState P a b)"
  by (auto simp: good_def ifState_def)

lemma good_ifType: "good ts k a \<Longrightarrow> good ts k b \<Longrightarrow> good ts k (ifType P a b)"
  by (auto simp: good_def ifType_def ifState_def)

lemma strict_ifType: "strict ts k a \<Longrightarrow> strict ts k b \<Longrightarrow> strict ts k (ifType P a b)"
  by (auto simp: strict_def ifType_def ifState_def)


text \<open>Consuming a token that is not the end.\<close>

definition eats :: "'a pa \<Rightarrow> bool" where
  "eats m \<longleftrightarrow> (\<forall>p. tokType p \<noteq> TOKEN_EOF \<longrightarrow> (\<exists>x. m p = Inr (x, snd (advanceP p))))"

lemma eats_basic: "eats advanceA" "eats tokValue"
  by (auto simp: eats_def advanceA_def tokValue_def bindA_def returnA_def case_prod_unfold prod_eq_iff)

lemma strict_eat:
  assumes "\<not> P TOKEN_EOF" and "eats m" and "\<And>x j. j < k \<Longrightarrow> good ts j (f x)" and "strict ts k b"
  shows "strict ts k (ifType P (bindA m f) b)"
proof -
  have "(case bindA m f p of Inl e \<Rightarrow> e \<noteq> OutOfFuel | Inr (x, p') \<Rightarrow> tokens p' = ts \<and> remaining p' < remaining p)"
    if r: "tokens p = ts" "remaining p \<le> k" and p: "P (tokType p)" for p
  proof -
    have n: "tokType p \<noteq> TOKEN_EOF" using assms(1) p by metis
    with assms(2) obtain x where m: "m p = Inr (x, snd (advanceP p))" by (auto simp: eats_def)
    have l: "remaining (snd (advanceP p)) < remaining p" using n by (rule remaining_advance)
    with r have g: "good ts (remaining (snd (advanceP p))) (f x)" by (intro assms(3)) simp
    have "bindA m f p = f x (snd (advanceP p))" using m by (simp add: bindA_def)
    then show ?thesis using goodD [OF g _ order_refl] l r(1) by (cases "f x (snd (advanceP p))") fastforce+
  qed
  moreover have "(case b p of Inl e \<Rightarrow> e \<noteq> OutOfFuel | Inr (x, p') \<Rightarrow> tokens p' = ts \<and> remaining p' < remaining p)"
    if "tokens p = ts" "remaining p \<le> k" for p
    using assms(4) that by (simp add: strict_def)
  ultimately show ?thesis by (simp add: strict_def ifType_def ifState_def)
qed

lemma good_eat:
  assumes "\<not> P TOKEN_EOF" and "eats m" and "\<And>x j. j < k \<Longrightarrow> good ts j (f x)" and "good ts k b"
  shows "good ts k (ifType P (bindA m f) b)"
proof -
  have "strict ts k (ifType P (bindA m f) (failMsg ''''))"
    using assms(1-3) by (intro strict_eat strict_fail)
  then have "good ts k (ifType P (bindA m f) (failMsg ''''))" by (rule strict_good)
  with assms(4) show ?thesis by (auto simp: good_def ifType_def ifState_def)
qed

lemma good_onType: "\<not> P TOKEN_EOF \<Longrightarrow> (\<And>j. j < k \<Longrightarrow> good ts j a) \<Longrightarrow> good ts k b \<Longrightarrow> good ts k (onType P a b)"
  unfolding onType_def thenA_def by (rule good_eat) (auto intro: eats_basic)

lemma strict_onType: "\<not> P TOKEN_EOF \<Longrightarrow> (\<And>j. j < k \<Longrightarrow> good ts j a) \<Longrightarrow> strict ts k b \<Longrightarrow> strict ts k (onType P a b)"
  unfolding onType_def thenA_def by (rule strict_eat) (auto intro: eats_basic)

lemmas good_ifAdvance = good_eat [OF _ eats_basic(1)] good_eat [OF _ eats_basic(2)]
  good_eat [OF _ eats_basic(1), where f = "\<lambda>_. m" for m, folded thenA_def]

lemmas strict_ifAdvance = strict_eat [OF _ eats_basic(1)] strict_eat [OF _ eats_basic(2)]
  strict_eat [OF _ eats_basic(1), where f = "\<lambda>_. m" for m, folded thenA_def]

lemma good_tokens:
  "good ts k tokValue" "TOKEN_EOF \<notin> set us \<Longrightarrow> good ts k (opt us)"
  "good ts k (skipA (skipUntil tt))" "good ts k (skipA (skipDepth d))" "good ts k (\<lambda>p. Inr (defaultText d p))"
proof -
  show "good ts k tokValue" unfolding tokValue_def by (intro good_bind good_basic)
  show "TOKEN_EOF \<notin> set us \<Longrightarrow> good ts k (opt us)"
    unfolding opt_def by (intro good_onType good_basic)
  have "remaining (skipUntil tt p) \<le> remaining p" for p
    by (induction tt p rule: skipUntil.induct) (subst skipUntil.simps, auto intro: le_trans [OF _ remaining_advance_le])
  moreover have "tokens (skipUntil tt p) = tokens p" for p
    by (induction tt p rule: skipUntil.induct) (subst skipUntil.simps, auto)
  ultimately show "good ts k (skipA (skipUntil tt))" by (simp add: good_def skipA_def)
  have "remaining (skipDepth d p) \<le> remaining p" for p
    by (induction d p rule: skipDepth.induct)
      (subst skipDepth.simps, auto split: if_splits intro: le_trans [OF _ remaining_advance_le])
  moreover have "tokens (skipDepth d p) = tokens p" for p
    by (induction d p rule: skipDepth.induct) (subst skipDepth.simps, auto)
  ultimately show "good ts k (skipA (skipDepth d))" by (simp add: good_def skipA_def)
  have "remaining (snd (defaultText d p)) \<le> remaining p" for p
  proof (induction d p rule: defaultText.induct)
    case (1 d p)
    then show ?case
      by (subst defaultText.simps) (auto simp: Let_def case_prod_unfold intro: le_trans [OF _ remaining_advance_le])
  qed
  moreover have "tokens (snd (defaultText d p)) = tokens p" for p
  proof (induction d p rule: defaultText.induct)
    case (1 d p)
    then show ?case by (subst defaultText.simps) (auto simp: Let_def case_prod_unfold)
  qed
  ultimately show "good ts k (\<lambda>p. Inr (defaultText d p))" by (simp add: good_def case_prod_unfold)
qed

lemma strict_tokens: "tt \<noteq> TOKEN_EOF \<Longrightarrow> strict ts k (expect tt)" "strict ts k expectIdent"
proof -
  have "strict ts k (ifTok tt (bindA advanceA returnA) (failTok m))" if "tt \<noteq> TOKEN_EOF" for m
    using that by (intro strict_ifAdvance strict_fail good_basic) auto
  moreover have "bindA advanceA returnA = advanceA"
    by (simp add: bindA_def returnA_def advanceA_def fun_eq_iff case_prod_unfold)
  ultimately show "tt \<noteq> TOKEN_EOF \<Longrightarrow> strict ts k (expect tt)" by (simp add: expect_def)
  show "strict ts k expectIdent"
    unfolding expectIdent_def tokValue_def by (intro strict_ifAdvance strict_fail good_basic) auto
qed

lemma good_ignoreA: "good ts k m \<Longrightarrow> good ts k (ignoreA d m)"
  by (auto simp: good_def ignoreA_def split: sum.split)

lemma good_try: "tt \<noteq> TOKEN_EOF \<Longrightarrow> good ts k (tryExpect tt)" "good ts k tryIdent"
  unfolding tryExpect_def tryIdent_def
  by (intro good_ignoreA good_thenA strict_good [OF strict_tokens(1)] strict_good [OF strict_tokens(2)] good_basic; simp)+


section \<open>Loops\<close>

lemmas good_rules = good_bind good_thenA good_basic good_onType good_ifAdvance good_tokens good_try
lemmas strict_sub = strict_mono [OF _ less_imp_le]

lemma good_expect_then: "tt \<noteq> TOKEN_EOF \<Longrightarrow> (\<And>j. j < k \<Longrightarrow> good ts j m) \<Longrightarrow> good ts k (thenA (expect tt) m)"
  by (rule strict_good) (intro strict_thenA strict_tokens)

lemma strict_commaList: "strict ts k m \<Longrightarrow> k < n \<Longrightarrow> strict ts k (commaList n m)"
proof (induction n arbitrary: k)
  case (Suc n)
  have "good ts i (commaList n m)" if "i < k" for i
    using that Suc.prems by (intro strict_good Suc.IH) (auto intro: strict_mono)
  then show ?case unfolding commaList.simps
    by (intro strict_bind Suc.prems(1) good_onType good_bind good_basic) auto
qed simp

lemma strict_parenList: "strict ts k m \<Longrightarrow> k < n \<Longrightarrow> strict ts k (parenList n m)"
proof (induction n arbitrary: k)
  case (Suc n)
  have "good ts i (parenList n m)" if "i < k" for i
    using that Suc.prems by (intro strict_good Suc.IH) (auto intro: strict_mono)
  then show ?case unfolding parenList.simps
    by (intro strict_bind Suc.prems(1) good_onType good_expect_then good_bind good_basic) auto
qed simp

lemma good_binaryLoop:
  "good ts k m \<Longrightarrow> TOKEN_EOF \<notin> set ops \<Longrightarrow> k < n \<Longrightarrow> good ts k (binaryLoop n ops name m e)"
proof (induction n arbitrary: k e)
  case (Suc n)
  have "good ts i (binaryLoop n ops name m e)" "good ts i m" if "i < k" for i e
    using that Suc.prems by (auto intro!: Suc.IH intro: good_mono)
  then show ?case using Suc.prems(2) unfolding binaryLoop.simps
    by (intro good_ifAdvance good_bind good_basic) auto
qed simp

section \<open>The grammar of expressions\<close>

definition subs :: "Token list \<Rightarrow> nat \<Rightarrow> pctx \<Rightarrow> bool" where
  "subs ts k c \<longleftrightarrow> k < pcFuel c \<and> (\<forall>j < k. strict ts j (pcExpr c) \<and> strict ts j (pcSelect c))"

lemma subs_mono: "subs ts k c \<Longrightarrow> j < k \<Longrightarrow> subs ts j c"
  by (auto simp: subs_def)

lemma subs_strict:
  "subs ts k c \<Longrightarrow> j < k \<Longrightarrow> strict ts j (pcExpr c)" "subs ts k c \<Longrightarrow> j < k \<Longrightarrow> strict ts j (pcSelect c)"
  "subs ts k c \<Longrightarrow> j < k \<Longrightarrow> good ts j (pcExpr c)" "subs ts k c \<Longrightarrow> j < k \<Longrightarrow> good ts j (pcSelect c)"
  "subs ts k c \<Longrightarrow> k < pcFuel c"
  by (auto simp: subs_def intro: strict_good)

lemma good_selectParen: "subs ts k c \<Longrightarrow> j < k \<Longrightarrow> good ts j (selectParen c)"
  unfolding selectParen_def by (intro good_bind good_expect_then good_basic subs_strict) auto

lemma good_parseWhens: "subs ts k c \<Longrightarrow> k < n \<Longrightarrow> good ts k (parseWhens n c)"
proof (induction n arbitrary: k)
  case (Suc n)
  have "good ts i (parseWhens n c)" if "i < k" for i
    using that Suc.prems subs_mono by (intro Suc.IH) auto
  then show ?case using subs_strict(3) [OF Suc.prems(1)] unfolding parseWhens.simps
    by (intro good_onType good_bind good_expect_then good_basic) auto
qed simp

text \<open>The functions below are reached after a token was consumed.\<close>

lemma good_sub:
  assumes "subs ts k c" and "j < k"
  shows "good ts j (parseWhens (pcFuel c) c)" "good ts j (parenList (pcFuel c) (pcExpr c))"
    "good ts j (commaList (pcFuel c) (pcExpr c))"
proof -
  have f: "j < pcFuel c" using assms by (simp add: subs_def)
  show "good ts j (parseWhens (pcFuel c) c)" by (rule good_parseWhens [OF subs_mono [OF assms] f])
  show "good ts j (parenList (pcFuel c) (pcExpr c))" "good ts j (commaList (pcFuel c) (pcExpr c))"
    using f by (auto intro: strict_good strict_parenList strict_commaList subs_strict(1) [OF assms])
qed

lemma good_parseTypeName: "good ts k (parseTypeName G)"
proof -
  let ?parens = "onTok TOKEN_LPAREN (thenA (skipA (skipUntil TOKEN_RPAREN)) (thenA (opt [TOKEN_RPAREN]) (returnA ()))) (returnA ())"
  have p: "good ts j ?parens" for j
    by (intro good_onType good_thenA good_tokens good_basic) auto
  have i: "good ts k (if b then opt [TOKEN_IDENT] else returnA False)" for b
    by (simp add: good_tokens good_basic)
  have u: "good ts k (if b then m else m')" if "good ts k m" "good ts k m'" for b and m m' :: "string pa"
    using that by simp
  show ?thesis
    unfolding parseTypeName_def Let_def
    by (intro good_ifType good_ifState good_bind good_thenA good_tokens(1) good_basic p i u)
qed


lemma strict_parseFuncCall:
  assumes "subs ts k c" and "j < k"
  shows "good ts j (parseFuncCall c name)"
proof -
  have "good ts i (parenList (pcFuel c) (pcExpr c))" if "i \<le> j" for i
    using good_sub(2) [OF assms(1)] that assms(2) by simp
  then show ?thesis unfolding parseFuncCall_def
    by (intro good_thenA good_onType good_expect_then good_bind good_tokens good_basic) auto
qed

lemma good_parseCaseExpr:
  assumes "subs ts k c" and "j < k"
  shows "good ts j (bindA (ifTok (KW ''WHEN'') (returnA None) (bindA (pcExpr c) (\<lambda>b. returnA (Some b)))) (\<lambda>base.
       bindA (parseWhens (pcFuel c) c) (\<lambda>whens.
       bindA (onTok (KW ''ELSE'') (bindA (pcExpr c) (\<lambda>e. returnA (Some e))) (returnA None)) (\<lambda>els.
       thenA (expect (KW ''END'')) (returnA (CaseExpr base whens els))))))"
proof -
  have "good ts i (pcExpr c)" "good ts i (parseWhens (pcFuel c) c)" if "i \<le> j" for i
    using subs_strict(3) [OF assms(1)] good_sub(1) [OF assms(1)] that assms(2) by simp_all
  then show ?thesis
    by (intro good_ifType good_onType good_expect_then good_bind good_basic) auto
qed

lemma strict_parseName:
  assumes "subs ts k c" and "\<not> P TOKEN_EOF" and "strict ts k b"
  shows "strict ts k (ifType P (parseName c) b)"
  unfolding parseName_def
  by (intro strict_ifAdvance assms(2,3))
    (use strict_parseFuncCall [OF assms(1)] in
      \<open>auto intro!: good_onType good_ifType good_bind good_basic strict_good [OF strict_tokens(2)]\<close>)

lemma good_parseParen:
  assumes "subs ts k c" and "j < k"
  shows "good ts j (parseParen c)"
proof -
  have "good ts i (pcExpr c)" "good ts i (selectParen c)" "good ts i (commaList (pcFuel c) (pcExpr c))" if "i \<le> j" for i
    using subs_strict(3) [OF assms(1)] good_selectParen [OF assms(1)] good_sub(3) [OF assms(1)] that assms(2) by simp_all
  then show ?thesis unfolding parseParen_def
    by (intro good_ifType good_onType good_expect_then good_bind good_basic) auto
qed

lemma good_parseCast:
  assumes "subs ts k c" and "j < k"
  shows "good ts j (parseCast c)"
  using subs_strict(3) [OF assms(1)] assms(2) unfolding parseCast_def
  by (intro good_expect_then good_bind good_basic good_parseTypeName) auto

lemma good_parseExists:
  assumes "subs ts k c" and "j < k"
  shows "good ts j (parseExists c isNot)"
  using good_selectParen [OF assms(1)] assms(2) unfolding parseExists_def
  by (intro good_expect_then good_bind good_basic) auto

lemma parseNumber_fuel: "parseNumber G tok \<noteq> Inl OutOfFuel"
  by (auto simp: parseNumber_def parseFloatLit_def Let_def split: option.split)

lemma strict_parsePrimaryExpr: "subs ts k c \<Longrightarrow> k < n \<Longrightarrow> strict ts k (parsePrimaryExpr n c)"
proof (induction n arbitrary: k)
  case (Suc n)
  have IH: "good ts j (parsePrimaryExpr n c)" if "j < k" for j
    using that Suc.prems subs_mono by (intro strict_good Suc.IH) auto
  note S = Suc.prems(1)
  have p: "good ts j (parseParen c)" "good ts j (parseCast c)" "good ts j (parseExists c b)" if "j < k" for j b
    using good_parseParen good_parseCast good_parseExists S that by blast+
  have c: "strict ts k (ifTok (KW ''CASE'') (parseCaseExpr c) m)" if "strict ts k m" for m
    unfolding parseCaseExpr_def using that good_parseCaseExpr [OF S]
    by (intro strict_ifAdvance) auto
  have nt: "good ts j (onTok (KW ''EXISTS'') (parseExists c True)
          (bindA (parsePrimaryExpr n c) (\<lambda>operand. returnA (UnaryExpr ''NOT'' operand))))" if "j < k" for j
    using that p IH by (intro good_onType good_bind good_basic) auto
  have num: "strict ts k (ifTok TOKEN_NUMBER (bindA advanceA (\<lambda>tok. liftA (parseNumber (pcLib c) tok))) m)" if "strict ts k m" for m
    using that by (intro strict_ifAdvance good_basic) (auto simp: parseNumber_fuel)
  have str: "strict ts k (ifTok TOKEN_STRING (bindA tokValue (\<lambda>v. returnA (litE (LitString v)))) m)" if "strict ts k m" for m
    using that by (intro strict_ifAdvance good_basic) auto
  show ?case unfolding parsePrimaryExpr.simps
    by (intro num str c strict_onType strict_parseName [OF S] strict_fail good_basic p nt)
      (auto simp: isIdentLike_def)
qed simp


lemma good_primary: "subs ts k c \<Longrightarrow> j \<le> k \<Longrightarrow> strict ts j (parsePrimaryExpr (pcFuel c) c)"
  by (rule strict_mono [OF strict_parsePrimaryExpr]) (auto simp: subs_def)

lemma good_postfixLoop: "subs ts k c \<Longrightarrow> k < n \<Longrightarrow> good ts k (postfixLoop n c e)"
proof (induction n arbitrary: k e)
  case (Suc n)
  have "good ts i (postfixLoop n c e)" if "i < k" for i e
    using that Suc.prems subs_mono by (intro Suc.IH) auto
  then show ?case using good_primary [OF Suc.prems(1), THEN strict_good] unfolding postfixLoop.simps
    by (intro good_onType good_bind good_tokens good_basic) auto
qed simp

lemma strict_levels:
  assumes "subs ts k c"
  shows "strict ts k (parsePostfix c)" "strict ts k (parseUnary c)" "strict ts k (parseMulDiv c)" "strict ts k (parseAddSub c)"
    "strict ts k (parseBitShift c)" "strict ts k (parseBitAnd c)" "strict ts k (parseBitOr c)" "strict ts k (parseConcat c)"
proof -
  have f: "k < pcFuel c" using assms by (simp add: subs_def)
  show a: "strict ts k (parsePostfix c)"
    unfolding parsePostfix_def
    by (intro strict_bind good_primary [OF assms] good_postfixLoop subs_mono [OF assms]) (use f in auto)
  have g: "good ts j (parsePostfix c)" if "j < k" for j
    by (rule strict_good [OF strict_mono [OF a less_imp_le [OF that]]])
  show u: "strict ts k (parseUnary c)"
    unfolding parseUnary_def using a g by (intro strict_onType good_bind good_basic) auto
  have L: "strict ts k (bindA m (binaryLoop (pcFuel c) ops name m))" if "strict ts k m" "TOKEN_EOF \<notin> set ops" for m ops name
    using that f by (intro strict_bind good_binaryLoop) (auto intro: good_less)
  show m: "strict ts k (parseMulDiv c)" unfolding parseMulDiv_def by (rule L [OF u]) simp
  show s: "strict ts k (parseAddSub c)" unfolding parseAddSub_def by (rule L [OF m]) simp
  show b: "strict ts k (parseBitShift c)" unfolding parseBitShift_def by (rule L [OF s]) simp
  show n: "strict ts k (parseBitAnd c)" unfolding parseBitAnd_def by (rule L [OF b]) simp
  show o: "strict ts k (parseBitOr c)" unfolding parseBitOr_def by (rule L [OF n]) simp
  show "strict ts k (parseConcat c)" unfolding parseConcat_def by (rule L [OF o]) simp
qed

lemma good_concat: "subs ts k c \<Longrightarrow> j < k \<Longrightarrow> good ts j (parseConcat c)"
  by (rule strict_good) (rule strict_levels(8) [OF subs_mono])

lemma good_inItems: "subs ts k c \<Longrightarrow> j < k \<Longrightarrow> j < n \<Longrightarrow> good ts j (inItems n c)"
proof (induction n arbitrary: j)
  case (Suc n)
  have "good ts i (inItems n c)" if "i < j" for i
    using that Suc.prems by (intro Suc.IH) auto
  moreover have "good ts j (pcExpr c)" using subs_strict(3) [OF Suc.prems(1,2)] .
  ultimately show ?case unfolding inItems.simps
    by (intro good_ifType good_bind good_onType good_basic) auto
qed simp

lemma good_operators:
  assumes "subs ts k c" and "j < k"
  shows "good ts j (parseIn c e b)" "good ts j (parseLike c e b)" "good ts j (parseGlob c e b)" "good ts j (parseBetween c e b)"
    "good ts j (parseIs c e)"
proof -
  have cc: "good ts i (parseConcat c)" if "i \<le> j" for i
    using good_concat [OF assms(1)] that assms(2) by simp
  have "good ts i (inItems (pcFuel c) c)" "good ts i (selectParen c)" if "i \<le> j" for i
    using good_inItems [OF assms(1)] good_selectParen [OF assms(1)] subs_strict(5) [OF assms(1)] that assms(2) by simp_all
  then show "good ts j (parseIn c e b)" unfolding parseIn_def
    by (intro good_expect_then good_ifType good_bind good_basic) auto
  show "good ts j (parseLike c e b)" unfolding parseLike_def KW_ESCAPE_def using cc
    by (intro good_bind good_onType good_basic) auto
  show "good ts j (parseGlob c e b)" unfolding parseGlob_def using cc by (intro good_bind good_basic) auto
  show "good ts j (parseBetween c e b)" unfolding parseBetween_def using cc
    by (intro good_bind good_expect_then good_basic) auto
  show "good ts j (parseIs c e)" unfolding parseIs_def Let_def using cc
    by (intro good_bind good_onType good_ifAdvance good_tokens good_basic) auto
qed

lemma good_compLoop: "subs ts k c \<Longrightarrow> k < n \<Longrightarrow> good ts k (compLoop n c e)"
proof (induction n arbitrary: k e)
  case (Suc n)
  have IH: "good ts i (compLoop n c e)" if "i < k" for i e
    using that Suc.prems subs_mono by (intro Suc.IH) auto
  note O = good_operators [OF Suc.prems(1)] and C = good_concat [OF Suc.prems(1)]
  have b: "good ts i (bindA m (compLoop n c))" if "good ts i m" "i < k" for m i
    using that IH by (intro good_bind) auto
  show ?case unfolding compLoop.simps
    by (intro good_ifAdvance good_onType good_bind [OF _ IH] b O C good_basic good_bind) (auto simp: compOps_def IH)
qed simp

lemma strict_parseOr:
  assumes "subs ts k c"
  shows "strict ts k (parseComparison c)" "strict ts k (parseOr c)"
proof -
  have f: "k < pcFuel c" using assms by (simp add: subs_def)
  show c: "strict ts k (parseComparison c)"
    unfolding parseComparison_def
    by (intro strict_bind strict_levels [OF assms] good_compLoop subs_mono [OF assms]) (use f in auto)
  have "good ts j (parseComparison c)" if "j < k" for j
    by (rule strict_good [OF strict_mono [OF c less_imp_le [OF that]]])
  then have n: "strict ts k (parseNot c)"
    unfolding parseNot_def by (intro strict_onType c good_bind good_basic) auto
  have L: "strict ts k (bindA m (binaryLoop (pcFuel c) ops name m))" if "strict ts k m" "TOKEN_EOF \<notin> set ops" for m ops name
    using that f by (intro strict_bind good_binaryLoop) (auto intro: good_less)
  have a: "strict ts k (parseAnd c)" unfolding parseAnd_def by (rule L [OF n]) simp
  show "strict ts k (parseOr c)" unfolding parseOr_def by (rule L [OF a]) simp
qed


section \<open>The grammar of queries\<close>

lemma strict_optAlias: "good ts k optAlias"
  unfolding optAlias_def by (intro good_onType good_ifType good_tokens good_basic strict_good [OF strict_tokens(2)]) auto

lemma strict_tableRef: "strict ts k tableRef"
  unfolding tableRef_def by (intro strict_bind strict_tokens good_bind strict_optAlias good_basic)

lemma good_parseTableRefs: "k < n \<Longrightarrow> good ts k (parseTableRefs n)"
proof (induction n arbitrary: k)
  case (Suc n)
  then show ?case unfolding parseTableRefs.simps
    by (intro good_ifType good_bind good_onType good_basic strict_good [OF strict_tableRef]) auto
qed simp

lemma good_joinType: "good ts k joinType"
  unfolding joinType_def by (intro good_onType good_ifType good_thenA good_tokens good_basic) auto

lemma strict_joinClause:
  assumes "subs ts k c"
  shows "strict ts k (joinClause c jt)"
proof -
  have e: "good ts j (pcExpr c)" if "j < k" for j using subs_strict(3) [OF assms that] .
  have u: "good ts j (parenList (pcFuel c) expectIdent)" if "j < k" for j
    using that subs_strict(5) [OF assms] by (intro strict_good strict_parenList strict_tokens) auto
  show ?thesis unfolding joinClause_def
    by (intro strict_ifAdvance strict_fail good_bind good_onType good_expect_then good_basic
        strict_good [OF strict_tableRef]) (auto intro: e u)
qed

lemma good_parseJoins: "subs ts k c \<Longrightarrow> k < n \<Longrightarrow> good ts k (parseJoins n c)"
proof (induction n arbitrary: k)
  case (Suc n)
  have IH: "good ts i (parseJoins n c)" if "i < k" for i
    using that Suc.prems subs_mono by (intro Suc.IH) auto
  have "good ts k (case jt of None \<Rightarrow> returnA [] | Some t \<Rightarrow>
      bindA (joinClause c t) (\<lambda>j. bindA (parseJoins n c) (\<lambda>js. returnA (j # js))))" for jt
    by (cases jt) (simp_all add: good_basic, intro good_bind_strict strict_joinClause Suc.prems(1) good_bind good_basic IH)
  then show ?case unfolding parseJoins.simps by (intro good_bind good_joinType)
qed simp

text \<open>Inside a query an expression may start at its first token: the fuel of expressions must do for the
  same number of tokens.\<close>

lemma strict_parseSelectBody:
  assumes s: "subs ts k c" and e: "strict ts k (pcExpr c)"
  shows "strict ts k (parseSelectBody c)"
proof -
  have f: "k < pcFuel c" using s by (simp add: subs_def)
  have ge: "good ts j (pcExpr c)" if "j \<le> k" for j
    by (rule strict_good [OF strict_mono [OF e that]])
  have sc: "strict ts k (selectColumn c)"
    unfolding selectColumn_def
    by (intro strict_onType strict_bind e good_bind strict_optAlias good_basic) auto
  have cl: "good ts j (clause c kw)" if "j < k" for j kw
    unfolding clause_def using that ge by (intro good_onType good_bind good_basic) auto
  have oi: "strict ts j (orderItem c)" if "j \<le> k" for j
    unfolding orderItem_def
    by (intro strict_bind strict_mono [OF e that] good_bind good_onType good_basic) auto
  have lists: "good ts j (commaList (pcFuel c) (pcExpr c))" "good ts j (commaList (pcFuel c) (orderItem c))" if "j \<le> k" for j
    using that f by (auto intro!: strict_good [OF strict_commaList] strict_mono [OF e] oi)
  have g: "good ts j (groupBy c)" "good ts j (orderBy c)" if "j < k" for j
    unfolding groupBy_def orderBy_def using lists that
    by (intro good_onType good_expect_then good_basic; simp)+
  have c: "good ts j (compound c)" if "j < k" for j
    unfolding compound_def using subs_strict(4) [OF s] that
    by (intro good_ifAdvance good_bind good_tokens good_basic) auto
  have fr: "good ts j (fromClause c)" if "j < k" for j
    unfolding fromClause_def using that f
    by (intro good_onType good_bind good_parseTableRefs good_parseJoins subs_mono [OF s] good_basic) auto
  have cols: "strict ts k (parseSelectColumns c)"
    unfolding parseSelectColumns_def by (intro strict_commaList sc f)
  have d: "good ts k (onTok (KW ''DISTINCT'') (returnA True) (onTok (KW ''ALL'') (returnA False) (returnA False)))"
    by (intro good_onType good_basic) auto
  have tl: "good ts j (bindA (fromClause c) (\<lambda>(refs, joins). rest refs joins))"
    if "j < k" "\<And>refs joins. good ts j (rest refs joins)" for j and rest :: "_ \<Rightarrow> _ \<Rightarrow> SelectStmt pa"
    using that fr by (auto intro!: good_bind)
  show ?thesis unfolding parseSelectBody_def
    by (intro strict_thenA2 strict_bind2 strict_bind good_basic d cols tl good_bind cl g c; assumption)
qed

section \<open>The recursion\<close>

lemma strict_parser:
  "2 * k + 1 \<le> n \<Longrightarrow> strict ts k (parseExpr G n)"
  "2 * k + 2 \<le> n \<Longrightarrow> strict ts k (parseSelect G n)"
proof (induction n arbitrary: k)
  case (Suc n)
  { case 1
    then have "subs ts k \<lparr>pcLib = G, pcFuel = Suc n, pcExpr = parseExpr G n, pcSelect = parseSelect G n\<rparr>"
      by (auto simp: subs_def intro!: Suc.IH)
    then show ?case by (simp add: parseExpr.simps strict_parseOr)
  next
    case 2
    then have "subs ts k \<lparr>pcLib = G, pcFuel = Suc n, pcExpr = parseExpr G n, pcSelect = parseSelect G n\<rparr>"
      by (auto simp: subs_def intro!: Suc.IH)
    moreover have "strict ts k (parseExpr G n)" using 2 by (intro Suc.IH) simp
    ultimately show ?case by (simp add: parseSelect.simps strict_parseSelectBody)
  }
qed simp_all

lemma subs_grammar: "2 * k + 2 \<le> n \<Longrightarrow> subs ts k (grammar G n)"
  by (auto simp: subs_def grammar_def intro!: strict_parser)


section \<open>Statements\<close>

lemma good_ident: "good ts k expectIdent" and good_expect: "tt \<noteq> TOKEN_EOF \<Longrightarrow> good ts k (expect tt)"
  using strict_tokens strict_good by blast+

lemma good_lists:
  assumes "subs ts k c" and "j < k"
  shows "good ts j (parenList (pcFuel c) expectIdent)" "good ts j (commaList (pcFuel c) (setClause c))"
    "good ts j (commaList (pcFuel c) (valueRow c))" "good ts j (commaList (pcFuel c) (cte c))"
    "good ts j (clause c kw)"
proof -
  have f: "j < pcFuel c" using assms by (simp add: subs_def)
  have e: "good ts i (pcExpr c)" "good ts i (selectParen c)" "good ts i (parenList (pcFuel c) (pcExpr c))" if "i \<le> j" for i
    using subs_strict(3) [OF assms(1)] good_selectParen [OF assms(1)] good_sub(2) [OF assms(1)] that assms(2) by simp_all
  have p: "strict ts i (parenList (pcFuel c) expectIdent)" if "i \<le> j" for i
    using f that by (intro strict_parenList strict_tokens) simp
  then show "good ts j (parenList (pcFuel c) expectIdent)" by (simp add: strict_good)
  show "good ts j (commaList (pcFuel c) (setClause c))"
    unfolding setClause_def using e f
    by (intro strict_good [OF strict_commaList] strict_bind strict_tokens good_expect_then good_bind good_basic) auto
  show "good ts j (commaList (pcFuel c) (valueRow c))"
    unfolding valueRow_def using e f
    by (intro strict_good [OF strict_commaList] strict_thenA strict_tokens) auto
  have "good ts i (onTok TOKEN_LPAREN (parenList (pcFuel c) expectIdent) (returnA []))" if "i \<le> j" for i
    using p that by (intro good_onType good_basic strict_good) auto
  then show "good ts j (commaList (pcFuel c) (cte c))"
    unfolding cte_def using e f
    by (intro strict_good [OF strict_commaList] strict_bind strict_tokens good_bind good_expect_then good_basic) auto
  show "good ts j (clause c kw)"
    unfolding clause_def using e by (intro good_onType good_bind good_basic) auto
qed

lemma good_pointwise: "(\<And>p. \<exists>m. good ts k m \<and> f p = m p) \<Longrightarrow> good ts k f"
  unfolding good_def [of ts k f]
proof (intro allI impI)
  fix p assume a: "\<And>p. \<exists>m. good ts k m \<and> f p = m p" "tokens p = ts \<and> remaining p \<le> k"
  obtain m where m: "good ts k m" "f p = m p" using a(1) by blast
  from m(1) a(2) show "case f p of Inl e \<Rightarrow> e \<noteq> OutOfFuel | Inr (x, p') \<Rightarrow> tokens p' = ts \<and> remaining p' \<le> remaining p"
    unfolding good_def m(2) by blast
qed

lemma good_orWord: "good ts k orWord"
proof -
  have "good ts k (\<lambda>p. case tokType p of KW w \<Rightarrow> thenA advanceA (returnA w) p | _ \<Rightarrow> returnA '''' p)"
  proof (rule good_pointwise)
    fix p
    show "\<exists>m. good ts k m \<and> (case tokType p of KW w \<Rightarrow> thenA advanceA (returnA w) p | _ \<Rightarrow> returnA '''' p) = m p"
    proof (cases "tokType p")
      case (KW w)
      then show ?thesis by (intro exI [of _ "thenA advanceA (returnA w)"] conjI good_thenA good_basic) simp
    qed (intro exI [of _ "returnA ''''"] conjI good_basic; simp)+
  qed
  then show ?thesis unfolding orWord_def by (intro good_ifType good_basic)
qed

lemma strict_dml:
  assumes "subs ts k c" and "t \<noteq> TOKEN_EOF" and "strict ts k b"
  shows "strict ts k (ifTok t (parseWith c) b)" "strict ts k (ifTok t (parseInsert c) b)"
    "strict ts k (ifTok t (parseUpdate c) b)" "strict ts k (ifTok t (parseDelete c) b)"
proof -
  note L = good_lists [OF assms(1)]
  note S = subs_strict(4) [OF assms(1)]
  have o: "t \<noteq> TOKEN_EOF \<Longrightarrow> \<not> (\<lambda>u. u = t) TOKEN_EOF" by simp
  show "strict ts k (ifTok t (parseWith c) b)"
    unfolding parseWith_def using L S assms(2)
    by (intro strict_ifAdvance(3) assms(3) good_bind good_tokens good_basic) auto
  have c: "good ts j (onTok TOKEN_LPAREN (parenList (pcFuel c) expectIdent) (returnA []))"
    "good ts j (onTok (KW ''ON'') (thenA (expect (KW ''CONFLICT'')) (thenA advanceA tokValue)) (returnA ''''))"
    "good ts j (onTok (KW ''OR'') orWord (onTok (KW ''REPLACE'') (returnA ''REPLACE'') (returnA '''')))"
    "good ts j (onTok (KW ''OR'')
              (ifType (\<lambda>u. u \<in> KW ` {''REPLACE'', ''IGNORE'', ''ABORT'', ''FAIL'', ''ROLLBACK''}) tokValue (returnA ''''))
              (returnA ''''))"
    if "j < k" for j
    using that L by (intro good_onType good_expect_then good_thenA good_ifType good_orWord good_tokens good_basic; auto)+
  show "strict ts k (ifTok t (parseInsert c) b)"
    unfolding parseInsert_def Let_def using L S assms(2)
    by (intro strict_ifAdvance(3) assms(3) good_bind good_expect_then good_ifType good_ident c good_basic) auto
  show "strict ts k (ifTok t (parseUpdate c) b)"
    unfolding parseUpdate_def using L assms(2)
    by (intro strict_ifAdvance(3) assms(3) good_bind good_expect_then good_ident c good_basic) auto
  show "strict ts k (ifTok t (parseDelete c) b)"
    unfolding parseDelete_def using L assms(2)
    by (intro strict_ifAdvance(3) assms(3) good_bind good_expect_then good_ident good_basic) auto
qed


text \<open>Branches that look at their first token twice.\<close>

lemma bindA_assoc: "bindA (bindA m f) g = bindA m (\<lambda>x. bindA (f x) g)"
  by (auto simp: bindA_def split: sum.split)

lemma thenA_assoc: "thenA (thenA a b) d = thenA a (thenA b d)"
  by (simp add: thenA_def bindA_assoc)

lemma thenA_returnA: "thenA (returnA x) m = m"
  by (simp add: thenA_def bindA_def returnA_def)

lemma thenA_ifType: "thenA (ifType P a b) m = ifType P (thenA a m) (thenA b m)"
  by (simp add: thenA_def bindA_def ifType_def ifState_def fun_eq_iff)

lemma ifType_known: "(\<And>u. P u \<Longrightarrow> Q u) \<Longrightarrow> ifType P (ifType Q a b) d = ifType P a d"
  by (auto simp: ifType_def ifState_def fun_eq_iff)

lemma ifType_or: "ifType (\<lambda>u. u = s \<or> u = t) (ifTok s a b) d = ifTok s a (ifTok t b d)"
  by (auto simp: ifType_def ifState_def fun_eq_iff)

lemma ref_eq:
  "ifTok (KW ''REFERENCES'') (thenA (skipForeignKeyRef n) m) b =
   onTok (KW ''REFERENCES'') (thenA (thenA tryIdent
       (thenA (onTok TOKEN_LPAREN (thenA (skipA (skipUntil TOKEN_RPAREN)) (opt [TOKEN_RPAREN])) (returnA False))
       (refClauses n))) m) b"
  by (simp add: skipForeignKeyRef_def onType_def thenA_ifType ifType_known thenA_assoc)

lemma not_eq:
  "ifType (\<lambda>u. u = KW ''NOT'' \<or> u = KW ''DEFERRABLE'') (thenA (opt [KW ''NOT'']) (thenA advanceA m)) b =
   onTok (KW ''NOT'') (thenA advanceA m) (onTok (KW ''DEFERRABLE'') m b)"
  by (simp add: opt_def onType_def thenA_ifType thenA_assoc thenA_returnA ifType_or)

lemma tryExpect_known: "ifTok t (thenA (tryExpect t) m) b = onTok t m b"
  by (auto simp: tryExpect_def ignoreA_def thenA_def bindA_def expect_def onType_def ifType_def ifState_def advanceA_def
      returnA_def fun_eq_iff case_prod_unfold)

lemma generated_eq:
  "ifType (\<lambda>u. u = KW ''GENERATED'' \<or> u = KW ''AS'')
     (thenA (onTok (KW ''GENERATED'') a (returnA ())) (thenA (tryExpect (KW ''AS'')) m)) b =
   onTok (KW ''GENERATED'') (thenA a (thenA (tryExpect (KW ''AS'')) m)) (onTok (KW ''AS'') m b)"
  by (simp add: onType_def thenA_ifType thenA_assoc thenA_returnA ifType_or tryExpect_known [unfolded onType_def])

section \<open>Columns\<close>

lemma good_refClauses: "k < n \<Longrightarrow> good ts k (refClauses n)"
proof (induction n arbitrary: k)
  case (Suc n)
  have IH: "good ts i (refClauses n)" if "i < k" for i using that Suc by simp
  show ?case unfolding refClauses.simps not_eq
    by (intro good_onType good_thenA good_basic) (auto simp: IH)
qed simp

lemma good_ref: "k < n \<Longrightarrow> good ts k m \<Longrightarrow> good ts k (thenA (thenA tryIdent
       (thenA (onTok TOKEN_LPAREN (thenA (skipA (skipUntil TOKEN_RPAREN)) (opt [TOKEN_RPAREN])) (returnA False))
       (refClauses n))) m)"
  by (intro good_thenA good_try good_onType good_tokens good_basic good_refClauses) auto

lemma good_parseDefaultValue: "good ts k parseDefaultValue"
  unfolding parseDefaultValue_def
  by (intro good_onType good_bind good_thenA good_tokens good_basic) auto

lemma good_parens: "good ts k skipBalancedParens" "good ts k onConflict"
  unfolding skipBalancedParens_def onConflict_def
  by (intro good_thenA good_onType good_try good_tokens good_basic; simp)+

lemma good_columnConstraints: "k < n \<Longrightarrow> good ts k (columnConstraints n col)"
proof (induction n arbitrary: k col)
  case (Suc n)
  have IH: "good ts i (columnConstraints n col)" if "i < k" for i col using that Suc by simp
  have ref: "good ts i (thenA (thenA tryIdent
       (thenA (onTok TOKEN_LPAREN (thenA (skipA (skipUntil TOKEN_RPAREN)) (opt [TOKEN_RPAREN])) (returnA False))
       (refClauses n))) (columnConstraints n col))" if "i < k" for i col
    using that Suc.prems IH by (intro good_ref) auto
  show ?case unfolding columnConstraints.simps ref_eq generated_eq
    by (intro good_onType good_thenA good_bind good_basic good_tokens good_try good_parens good_expect
        good_parseDefaultValue ref IH) (auto simp: KW_COLLATE_def)
qed simp

lemma good_parseColumnDef: "k < n \<Longrightarrow> good ts k (parseColumnDef G n)"
  unfolding parseColumnDef_def by (intro good_bind good_ident good_parseTypeName good_columnConstraints)

lemma strict_ddl:
  assumes "t \<noteq> TOKEN_EOF" and "k < n" and "strict ts k b"
  shows "strict ts k (ifTok t parseDrop b)" "strict ts k (ifTok t (parseAlter G n) b)" "strict ts k (ifTok t parseShow b)"
    "strict ts k (ifTok t parsePragma b)" "strict ts k (ifTok t parseBegin b)" "strict ts k (ifTok t parseRollback b)"
proof -
  have d: "good ts j (dropRest mk)" for j mk
    unfolding dropRest_def by (intro good_bind good_onType good_thenA good_ident good_basic) auto
  have r: "good ts j alterRename" for j
    unfolding alterRename_def by (intro good_bind good_onType good_thenA good_ident good_expect good_tokens good_basic) auto
  have c: "good ts j (parseColumnDef G n)" if "j < k" for j
    using that assms(2) by (intro good_parseColumnDef) simp
  show "strict ts k (ifTok t parseDrop b)"
    unfolding parseDrop_def using assms(1)
    by (intro strict_ifAdvance(3) assms(3) good_onType d good_basic) auto
  show "strict ts k (ifTok t (parseAlter G n) b)"
    unfolding parseAlter_def using assms(1)
    by (intro strict_ifAdvance(3) assms(3) good_onType good_thenA good_expect good_ident good_bind r c good_tokens good_basic) auto
  show "strict ts k (ifTok t parseShow b)"
    unfolding parseShow_def using assms(1)
    by (intro strict_ifAdvance(3) assms(3) good_onType good_thenA good_ident good_bind good_tokens good_basic) auto
  show "strict ts k (ifTok t parsePragma b)"
    unfolding parsePragma_def using assms(1)
    by (intro strict_ifAdvance(3) assms(3) good_onType good_thenA good_ident good_bind good_tokens good_try good_basic) auto
  show "strict ts k (ifTok t parseBegin b)"
    unfolding parseBegin_def using assms(1)
    by (intro strict_ifAdvance(3) assms(3) good_ifType good_thenA good_bind good_tokens good_basic) auto
  show "strict ts k (ifTok t parseRollback b)"
    unfolding parseRollback_def using assms(1)
    by (intro strict_ifAdvance(3) assms(3) good_onType good_thenA good_bind good_ident good_tokens good_basic) auto
qed

section \<open>All statements but \<open>CREATE\<close>\<close>

lemma strict_absent:
  assumes "t \<notin> tType ` set ts" and "t \<noteq> TOKEN_EOF" and "strict ts k b"
  shows "strict ts k (ifTok t a b)"
proof -
  have "tokType p \<noteq> t" if "tokens p = ts" for p
    using that assms(1,2) by (auto simp: tokType_def peekP_def eofToken_def)
  then show ?thesis using assms(3) by (simp add: strict_def ifType_def ifState_def)
qed

lemma strict_ParseStatement:
  "KW ''CREATE'' \<notin> tType ` set ts \<Longrightarrow> subs ts k c \<Longrightarrow> strict ts k (pcSelect c) \<Longrightarrow> k < n \<Longrightarrow> strict ts k (ParseStatement n c)"
proof (induction n arbitrary: k)
  case (Suc n)
  have f: "k < pcFuel c" using Suc.prems(2) by (simp add: subs_def)
  have IH: "good ts i (ParseStatement n c)" if "i < k" for i
    using that Suc.prems subs_mono strict_mono [OF Suc.prems(3), of i] by (intro strict_good Suc.IH) auto
  have w: "good ts i (onWord G a (onWord G b (returnA ())))" for i G a b
    unfolding onWord_def by (intro good_ifState good_thenA good_basic)
  have s: "strict ts k (bindA (pcSelect c) (\<lambda>s. returnA (SelectSt s)))"
    by (intro strict_bind Suc.prems(3) good_basic)
  show ?case unfolding ParseStatement.simps
    by (intro strict_ifType [OF s] strict_dml [OF Suc.prems(2)] strict_absent [OF Suc.prems(1)] strict_ddl [OF _ f] strict_onType
        good_thenA good_bind w IH good_ident good_tokens good_basic strict_fail) auto
qed simp

lemma good_ParseAll:
  "KW ''CREATE'' \<notin> tType ` set ts \<Longrightarrow> subs ts k c \<Longrightarrow> strict ts k (pcSelect c) \<Longrightarrow> k < n \<Longrightarrow> good ts k (ParseAll n c)"
proof (induction n arbitrary: k)
  case (Suc n)
  have f: "k < pcFuel c" using Suc.prems(2) by (simp add: subs_def)
  have IH: "good ts i (ParseAll n c)" if "i < k" for i
    using that Suc.prems subs_mono strict_mono [OF Suc.prems(3), of i] by (intro Suc.IH) auto
  have s: "strict ts k (ParseStatement (pcFuel c) c)"
    by (rule strict_ParseStatement [OF Suc.prems(1-3) f])
  show ?case unfolding ParseAll.simps
    by (intro good_ifType good_onType good_bind_strict [OF s] good_thenA good_bind good_tokens good_basic IH) auto
qed simp

end
