(* ===== verification/LexerProps.thy ===== *)
theory LexerProps
  imports Lexer
begin

text \<open>
  What the lexer returns: a list of tokens that the end-of-input token closes, no longer than the
  input; a quoted string is read back exactly; and a list of tokens written out with spaces
  between them is read back as that list.
\<close>

section \<open>The end token\<close>

lemma nextToken_not_eof:
  assumes "nextToken U G l = Inr (tok, l')"
  shows "tType tok \<noteq> TOKEN_EOF"
proof -
  let ?Q = "\<lambda>r :: (Token \<times> Lexer) res. \<forall>tok l'. r = Inr (tok, l') \<longrightarrow> tType tok \<noteq> TOKEN_EOF"
  have Qif: "?Q a \<Longrightarrow> ?Q b \<Longrightarrow> ?Q (if c then a else b)" for a b c by simp
  have Qs: "?Q (readString q l)" "?Q (readQuotedIdent q l)" for q
    by (auto simp: readString_def readQuotedIdent_def mkToken_def bindE_eq_Inr)
  have Qt: "?Q (single t l)" "?Q (double t v l)" if "t \<noteq> TOKEN_EOF" for t v
    using that by (auto simp: single_def double_def mkToken_def)
  have Qn: "?Q (Inr (readNumber U l))" "?Q (Inr (readIdent U G l))"
    by (auto simp: readNumber_def readIdent_def Let_def case_prod_unfold mkToken_def keyword_def split: option.splits)
  have "?Q (nextToken U G l)"
    unfolding nextToken_def Let_def
    by (rule Qif Qs Qn Qt TokenType.distinct TokenType.distinct [symmetric])+
  with assms show ?thesis by blast
qed

text \<open>The only errors are lexical.\<close>

lemma body_errors:
  "skipCommentBody l = Inl e \<Longrightarrow> \<exists>m. e = ErrLex m"
  "readStringBody q sb l = Inl e \<Longrightarrow> \<exists>m. e = ErrLex m"
  "readQuotedBody q sb l = Inl e \<Longrightarrow> \<exists>m. e = ErrLex m"
proof -
  show "skipCommentBody l = Inl e \<Longrightarrow> \<exists>m. e = ErrLex m"
  proof (induction l rule: skipCommentBody.induct)
    case (1 l)
    from 1(2,1) show ?case by (subst (asm) skipCommentBody.simps) (auto split: if_splits)
  qed
  show "readStringBody q sb l = Inl e \<Longrightarrow> \<exists>m. e = ErrLex m"
  proof (induction q sb l rule: readStringBody.induct)
    case (1 q sb l)
    show ?case
      using 1(5) by (subst (asm) readStringBody.simps) (auto simp only: Let_def split: if_split_asm dest: 1(1-4) [OF _ refl])
  qed
  show "readQuotedBody q sb l = Inl e \<Longrightarrow> \<exists>m. e = ErrLex m"
  proof (induction q sb l rule: readQuotedBody.induct)
    case (1 q sb l)
    from 1(2,1) show ?case by (subst (asm) readQuotedBody.simps) (auto simp: Let_def split: if_splits)
  qed
qed

lemma nextToken_errors:
  assumes "nextToken U G l = Inl e"
  shows "\<exists>m. e = ErrLex m"
proof -
  let ?Q = "\<lambda>r :: (Token \<times> Lexer) res. \<forall>e. r = Inl e \<longrightarrow> (\<exists>m. e = ErrLex m)"
  have Qif: "?Q a \<Longrightarrow> ?Q b \<Longrightarrow> ?Q (if c then a else b)" for a b c by simp
  have Qs: "?Q (readString q l)" "?Q (readQuotedIdent q l)" for q
    using body_errors(2,3) by (fastforce simp: readString_def readQuotedIdent_def bindE_def split: sum.splits)+
  have Qt: "?Q (single t l)" "?Q (double t v l)" "?Q (Inr r)" for t v r
    by (simp_all add: single_def double_def)
  have "?Q (nextToken U G l)"
    unfolding nextToken_def Let_def by (rule Qif Qs Qt)+
  with assms show ?thesis by blast
qed

lemma tokenizeFrom_shape:
  "(\<exists>m. tokenizeFrom U G l = Inl (ErrLex m)) \<or>
   (\<exists>us. tokenizeFrom U G l = Inr (us @ [eofToken]) \<and> TOKEN_EOF \<notin> tType ` set us \<and> length us \<le> left l)"
proof (induction U G l rule: tokenizeFrom.induct)
  case (1 U G l0)
  define l where "l = skipWhitespace U l0"
  have le: "left l \<le> left l0" by (simp add: l_def left_ws)
  let ?line = "here l (\<lambda>r. r = R (CHR ''-'')) \<and> after l (\<lambda>r. r = R (CHR ''-''))"
  let ?block = "here l (\<lambda>r. r = R (CHR ''/'')) \<and> after l (\<lambda>r. r = R (CHR ''*''))"
  show ?case
  proof (cases "lx_pos l < length (lx_input l)")
    case False
    then have "tokenizeFrom U G l0 = Inr ([] @ [eofToken])" by (subst tokenizeFrom.simps) (auto simp: l_def Let_def)
    then show ?thesis by (intro disjI2 exI [of _ "[]"]) simp
  next
    case pos: True
    show ?thesis
    proof (cases ?line)
      case True
      then have e: "tokenizeFrom U G l0 = tokenizeFrom U G (skipLineComment l)"
        using pos by (subst tokenizeFrom.simps) (auto simp: l_def Let_def)
      have "left (skipLineComment l) \<le> left l" by (simp add: skipLineComment_def left_readWhile)
      with 1(1) [OF l_def _ True] pos le show ?thesis unfolding e by fastforce
    next
      case nl: False
      show ?thesis
      proof (cases ?block)
        case True
        show ?thesis
        proof (cases "skipBlockComment l")
          case (Inl e)
          then have "tokenizeFrom U G l0 = Inl e"
            using pos nl True by (subst tokenizeFrom.simps) (auto simp: l_def Let_def)
          then show ?thesis using Inl body_errors(1) by (fastforce simp: skipBlockComment_def)
        next
          case (Inr l')
          then have e: "tokenizeFrom U G l0 = tokenizeFrom U G l'"
            using pos nl True by (subst tokenizeFrom.simps) (auto simp: l_def Let_def)
          have "left l' \<le> left l"
            using left_skipCommentBody [of "skip (skip l)" l'] Inr skip_skip_left [OF pos] by (simp add: skipBlockComment_def)
          with 1(2) [OF l_def _ nl True Inr] pos le show ?thesis unfolding e by fastforce
        qed
      next
        case nb: False
        show ?thesis
        proof (cases "nextToken U G l")
          case (Inl e)
          then have "tokenizeFrom U G l0 = Inl e"
            using pos nl nb by (subst tokenizeFrom.simps) (auto simp: l_def Let_def)
          then show ?thesis using Inl nextToken_errors by blast
        next
          case (Inr r)
          obtain tok l' where r: "r = (tok, l')" by fastforce
          then have e: "tokenizeFrom U G l0 = bindE (tokenizeFrom U G l') (\<lambda>ts. Inr (tok # ts))"
            using pos nl nb Inr by (subst tokenizeFrom.simps) (auto simp: l_def Let_def)
          note lt = left_nextToken [OF Inr [unfolded r] pos] and ne = nextToken_not_eof [OF Inr [unfolded r]]
          from 1(3) [OF l_def _ nl nb Inr r [symmetric]] pos consider m where "tokenizeFrom U G l' = Inl (ErrLex m)"
            | us where "tokenizeFrom U G l' = Inr (us @ [eofToken])" "TOKEN_EOF \<notin> tType ` set us" "length us \<le> left l'" by auto
          then show ?thesis
          proof cases
            case (2 us)
            then show ?thesis using ne lt le unfolding e by (intro disjI2 exI [of _ "tok # us"]) auto
          qed (simp add: e)
        qed
      qed
    qed
  qed
qed


lemma tokenize_shape:
  "(\<exists>m. Tokenize U G s = Inl (ErrLex m)) \<or>
   (\<exists>us. Tokenize U G s = Inr (us @ [eofToken]) \<and> TOKEN_EOF \<notin> tType ` set us \<and> length us \<le> length (runes s))"
  using tokenizeFrom_shape [of U G "NewLexer s"] by (simp add: Tokenize_def left_def NewLexer_def)

text \<open>\<open>Tokenize\<close> returns for every input: either a lexical error, or a list of tokens no longer than
  the input, which \<open>TOKEN_EOF\<close> closes and which has \<open>TOKEN_EOF\<close> nowhere else.\<close>

theorem tokenize_total:
  "(\<exists>m. Tokenize U G s = Inl (ErrLex m)) \<or>
   (\<exists>us. Tokenize U G s = Inr (us @ [eofToken]) \<and> TOKEN_EOF \<notin> tType ` set us \<and> length us \<le> length (runes s))"
  by (rule tokenize_shape)

section \<open>String literals\<close>

text \<open>The literal that stands for a string: quoted, with every quote in it doubled.\<close>

definition doubled :: "rune list \<Rightarrow> rune list" where
  "doubled rs = concat (map (\<lambda>r. if r = 39 then [39, 39] else [r]) rs)"

definition literal :: "string \<Rightarrow> string" where
  "literal s = CHR 0x27 # concat (map (\<lambda>c. if c = CHR 0x27 then [c, c] else [c]) s) @ [CHR 0x27]"

lemma readStringBody_step:
  assumes "rest l = r # rs" and "r \<noteq> 39"
  shows "readStringBody 39 sb l = readStringBody 39 (sb @ utf8 r) (skip l)"
  using assms by (subst readStringBody.simps) (simp add: rest_Cons Let_def)

lemma readStringBody_quote:
  assumes "rest l = 39 # 39 # rs"
  shows "readStringBody 39 sb l = readStringBody 39 (sb @ utf8 39) (skip (skip l))"
proof -
  have "after l (\<lambda>r. r = 39)" using assms by (simp add: after_rest)
  then show ?thesis using assms by (subst readStringBody.simps) (auto simp: rest_Cons Let_def)
qed

lemma readStringBody_end:
  assumes "rest l = 39 # rs" and "rs = [] \<or> hd rs \<noteq> 39"
  shows "readStringBody 39 sb l = Inr (sb, skip l)"
proof -
  have "\<not> after l (\<lambda>r. r = 39)" using assms by (auto simp: after_rest split: list.split)
  then show ?thesis using assms by (subst readStringBody.simps) (auto simp: rest_Cons Let_def)
qed

lemma readStringBody_doubled:
  assumes "rest l = doubled rs @ 39 # us" and "us = [] \<or> hd us \<noteq> 39"
  shows "\<exists>l'. readStringBody 39 sb l = Inr (sb @ utf8s rs, l') \<and> rest l' = us"
  using assms
proof (induction rs arbitrary: sb l)
  case Nil
  then show ?case using readStringBody_end [of l us sb] by (simp add: doubled_def utf8s_def)
next
  case (Cons r rs)
  show ?case
  proof (cases "r = 39")
    case True
    with Cons.prems(1) have "rest l = 39 # 39 # doubled rs @ 39 # us" by (simp add: doubled_def)
    with Cons.IH [of "skip (skip l)" "sb @ utf8 39"] Cons.prems(2) readStringBody_quote [of l _ sb]
    show ?thesis using True by (simp add: utf8s_def)
  next
    case False
    with Cons.prems(1) have "rest l = r # doubled rs @ 39 # us" by (simp add: doubled_def)
    with Cons.IH [of "skip l" "sb @ utf8 r"] Cons.prems(2) readStringBody_step [of l r _ sb] False
    show ?thesis by (simp add: utf8s_def)
  qed
qed

text \<open>On ASCII the runes are the characters.\<close>

lemma of_char_ascii: "is_ascii (c # s) \<Longrightarrow> (of_char c :: nat) < 128 \<and> is_ascii s"
  by (simp add: is_ascii_def)

lemma firstRune_ascii: "(of_char c :: nat) < 128 \<Longrightarrow> firstRune c s = (of_char c, 0)"
  unfolding firstRune_def Let_def by (simp only: if_True)

lemma runes_ascii: "is_ascii s \<Longrightarrow> runes s = map of_char s"
  by (induction s) (auto simp: firstRune_ascii dest: of_char_ascii)

lemma utf8_ascii: "(of_char c :: nat) < 128 \<Longrightarrow> utf8 (of_char c) = [c]"
  by (simp add: utf8_def)

lemma utf8s_ascii: "is_ascii s \<Longrightarrow> utf8s (map of_char s) = s"
  by (induction s) (auto simp: utf8s_def is_ascii_def utf8_ascii)

lemma of_char_quote: "(of_char c :: nat) = 39 \<longleftrightarrow> c = CHR 0x27"
proof -
  have "(of_char c :: nat) = 39 \<longleftrightarrow> (of_char c :: nat) = of_char (CHR 0x27)" by simp
  then show ?thesis by (simp only: of_char_eq_iff)
qed

lemma literal_runes: "map of_char (literal s) = 39 # doubled (map of_char s) @ [39]"
  by (induction s) (auto simp: literal_def doubled_def of_char_quote)

lemma literal_ascii: "is_ascii s \<Longrightarrow> is_ascii (literal s)"
  by (auto simp: is_ascii_def literal_def)

lemma skipWhitespace_none:
  assumes "rest l = [] \<or> \<not> IsSpace U (hd (rest l))"
  shows "skipWhitespace U l = l"
proof -
  have "\<not> here l (IsSpace U)" using assms by (auto simp: here_rest split: list.split)
  then show ?thesis by (subst skipWhitespace_def, subst readWhile.simps) simp
qed

lemma tokenizeFrom_end:
  assumes "rest l = []"
  shows "tokenizeFrom U G l = Inr [eofToken]"
  using assms skipWhitespace_none [of l U] by (subst tokenizeFrom.simps) (simp add: rest_Nil Let_def)

lemma tokenizeFrom_token:
  assumes "rest l = r # rs" and "\<not> IsSpace U r" and "r \<notin> {45, 47}"
    and n: "nextToken U G l = Inr (tok, l')"
  shows "tokenizeFrom U G l = bindE (tokenizeFrom U G l') (\<lambda>ts. Inr (tok # ts))"
proof -
  have w: "skipWhitespace U l = l" using assms skipWhitespace_none by simp
  have h: "\<not> here l (\<lambda>r. r = 45)" "\<not> here l (\<lambda>r. r = 47)" using assms by (auto simp: here_rest)
  have p: "lx_pos l < length (lx_input l)" using assms(1) by (simp add: rest_Cons)
  show ?thesis using h p n by (subst tokenizeFrom.simps) (simp add: w Let_def)
qed

text \<open>A string in quotes, with the quotes in it doubled, is read back as one string token with
  exactly that string.\<close>

theorem string_literal_roundtrip:
  assumes "is_ascii s"
  shows "Tokenize U G (literal s) = Inr [\<lparr>tType = TOKEN_STRING, tValue = s, tLine = 1, tCol = 1\<rparr>, eofToken]"
proof -
  let ?l = "NewLexer (literal s)"
  have r: "rest ?l = 39 # doubled (map of_char s) @ [39]"
    by (simp add: rest_def NewLexer_def runes_ascii literal_ascii assms literal_runes)
  then have "rest (skip ?l) = doubled (map of_char s) @ [39]" by simp
  from readStringBody_doubled [OF this, of "[]"] obtain l' where
    b: "readStringBody 39 [] (skip ?l) = Inr (s, l')" "rest l' = []" by (auto simp: utf8s_ascii assms)
  have "lx_input ?l ! lx_pos ?l = 39" using r by (simp add: rest_Cons)
  then have "nextToken U G ?l = Inr (mkToken TOKEN_STRING s ?l, l')"
    using b(1) by (simp add: nextToken_def readString_def)
  with tokenizeFrom_token [OF r, of U G] have "Tokenize U G (literal s) = Inr [mkToken TOKEN_STRING s ?l, eofToken]"
    by (simp add: Tokenize_def IsSpace_def tokenizeFrom_end [OF b(2)])
  then show ?thesis by (simp add: mkToken_def NewLexer_def)
qed

definition plainUnicode :: unicode where
  "plainUnicode = \<lparr>uniSpace = (\<lambda>_. False), uniDigit = (\<lambda>_. False), uniLetter = (\<lambda>_. True)\<rparr>"

theorem string_literal_roundtrip_witness:
  "\<forall>G. Tokenize plainUnicode G (literal [CHR ''i'', CHR ''t'', CHR 0x27, CHR ''s'']) =
   Inr [\<lparr>tType = TOKEN_STRING, tValue = [CHR ''i'', CHR ''t'', CHR 0x27, CHR ''s''], tLine = 1, tCol = 1\<rparr>, eofToken]"
  by (intro allI string_literal_roundtrip) (simp add: is_ascii_def)
section \<open>Words, numbers and symbols between spaces\<close>

lemma rest_here: "rest l = r # rs \<Longrightarrow> lx_input l ! lx_pos l = r"
  by (simp add: rest_Cons)

lemma nextToken_word:
  assumes "rest l = r # rs" and "r < 128" and "isWordRune U r" and "\<not> IsDigit U r"
  shows "nextToken U G l = Inr (readIdent U G l)"
proof -
  have c: "lx_input l ! lx_pos l = r" using assms(1) by (rule rest_here)
  have w: "IsLetter U r \<or> r = 95" using assms(3,4) by (simp add: isWordRune_def)
  then have b: "(65 \<le> r \<and> r \<le> 90) \<or> (97 \<le> r \<and> r \<le> 122) \<or> r = 95"
    using assms(2) by (auto simp: IsLetter_def)
  then have "r \<notin> {39, 34, 96, 91, 44, 59, 40, 41, 46, 42, 61, 60, 62, 33, 43, 45, 47, 37, 38, 126, 124}" by auto
  then show ?thesis using w assms(4) by (simp add: nextToken_def c)
qed

lemma nextToken_number:
  assumes "rest l = r # rs" and "r < 128" and "IsDigit U r"
  shows "nextToken U G l = Inr (readNumber U l)"
proof -
  have c: "lx_input l ! lx_pos l = r" using assms(1) by (rule rest_here)
  have "48 \<le> r \<and> r \<le> 57" using assms(2,3) by (simp add: IsDigit_def)
  then have "r \<notin> {39, 34, 96, 91, 44, 59, 40, 41, 46, 42, 61, 60, 62, 33, 43, 45, 47, 37, 38, 126, 124}" by auto
  then show ?thesis using assms(3) by (simp add: nextToken_def c)
qed

definition symbols :: "(string \<times> TokenType) list" where
  "symbols =
     [('','', TOKEN_COMMA), ('';'', TOKEN_SEMICOLON), (''('', TOKEN_LPAREN), ('')'', TOKEN_RPAREN), (''.'', TOKEN_DOT),
      (''*'', TOKEN_STAR), (''='', TOKEN_EQ), (''<='', TOKEN_LTE), (''<>'', TOKEN_NEQ), (''<<'', TOKEN_LSHIFT),
      (''<'', TOKEN_LT), (''>='', TOKEN_GTE), (''>>'', TOKEN_RSHIFT), (''>'', TOKEN_GT), (''!='', TOKEN_NEQ),
      (''+'', TOKEN_PLUS), (''-'', TOKEN_MINUS), (''/'', TOKEN_SLASH), (''%'', TOKEN_PERCENT), (''&'', TOKEN_AMPERSAND),
      (''~'', TOKEN_TILDE), (''||'', TOKEN_PIPE_PIPE), (''|'', TOKEN_PIPE)]"

text \<open>The symbols of one rune and of two; none of the latter starts with a rune that is a symbol for itself
  with the blank after it.\<close>

lemma nextToken_one:
  assumes "(s, t) \<in> set symbols" and "s = [c]" and "rest l = of_char c # us" and "us = [] \<or> hd us = 32"
  shows "nextToken U G l = single t l"
proof -
  have c: "lx_input l ! lx_pos l = of_char c" using assms(3) by (rule rest_here)
  have n: "here (skip l) (\<lambda>r. r = q) = False" if "q \<noteq> 32" for q
    using assms(3,4) that by (auto simp: here_rest split: list.split)
  have "(c, t) \<in> set [(CHR '','', TOKEN_COMMA), (CHR '';'', TOKEN_SEMICOLON), (CHR ''('', TOKEN_LPAREN),
    (CHR '')'', TOKEN_RPAREN), (CHR ''.'', TOKEN_DOT), (CHR ''*'', TOKEN_STAR), (CHR ''='', TOKEN_EQ), (CHR ''<'', TOKEN_LT),
    (CHR ''>'', TOKEN_GT), (CHR ''+'', TOKEN_PLUS), (CHR ''-'', TOKEN_MINUS), (CHR ''/'', TOKEN_SLASH), (CHR ''%'', TOKEN_PERCENT),
    (CHR ''&'', TOKEN_AMPERSAND), (CHR ''~'', TOKEN_TILDE), (CHR ''|'', TOKEN_PIPE)]"
    using assms(1) unfolding assms(2) by (simp add: symbols_def)
  then show ?thesis
    unfolding nextToken_def Let_def c
    by (simp only: list.set insert_iff empty_iff prod.inject HOL.simp_thms, elim disjE conjE) (simp_all add: n)
qed

lemma nextToken_two:
  assumes "(s, t) \<in> set symbols" and "s = [c, d]" and "rest l = of_char c # of_char d # us"
  shows "nextToken U G l = double t s l"
proof -
  have c: "lx_input l ! lx_pos l = of_char c" using assms(3) by (rule rest_here)
  have n: "here (skip l) (\<lambda>r. r = q) \<longleftrightarrow> of_char d = q" for q
    using assms(3) by (simp add: here_rest)
  have "(c, d, t) \<in> set [(CHR ''<'', CHR ''='', TOKEN_LTE), (CHR ''<'', CHR ''>'', TOKEN_NEQ), (CHR ''<'', CHR ''<'', TOKEN_LSHIFT),
    (CHR ''>'', CHR ''='', TOKEN_GTE), (CHR ''>'', CHR ''>'', TOKEN_RSHIFT), (CHR ''!'', CHR ''='', TOKEN_NEQ),
    (CHR ''|'', CHR ''|'', TOKEN_PIPE_PIPE)]"
    using assms(1) unfolding assms(2) by (simp add: symbols_def)
  then show ?thesis
    unfolding nextToken_def Let_def c assms(2)
    by (simp only: list.set insert_iff empty_iff prod.inject HOL.simp_thms, elim disjE conjE) (simp_all add: n)
qed

text \<open>A lexeme, its text, and the type and value of its token.\<close>

datatype lexeme = LWord string | LNumber string | LString string | LSymbol string TokenType

fun lexText :: "lexeme \<Rightarrow> string" where
  "lexText (LWord w) = w"
| "lexText (LNumber n) = n"
| "lexText (LString s) = literal s"
| "lexText (LSymbol s t) = s"

definition word_char :: "char \<Rightarrow> bool" where
  "word_char c \<longleftrightarrow> (let n = of_char c :: nat in (65 \<le> n \<and> n \<le> 90) \<or> (97 \<le> n \<and> n \<le> 122) \<or> (48 \<le> n \<and> n \<le> 57) \<or> n = 95)"

definition digit_char :: "char \<Rightarrow> bool" where
  "digit_char c \<longleftrightarrow> (let n = of_char c :: nat in 48 \<le> n \<and> n \<le> 57)"

fun lexOk :: "lexeme \<Rightarrow> bool" where
  "lexOk (LWord w) \<longleftrightarrow> w \<noteq> [] \<and> list_all word_char w \<and> \<not> digit_char (hd w)"
| "lexOk (LNumber n) \<longleftrightarrow> n \<noteq> [] \<and> list_all digit_char n"
| "lexOk (LString s) \<longleftrightarrow> is_ascii s"
| "lexOk (LSymbol s t) \<longleftrightarrow> (s, t) \<in> set symbols"

fun meaning :: "lexeme \<Rightarrow> TokenType \<times> string" where
  "meaning (LWord w) =
     (let upper = map upper_char w in case keyword upper of Some tt \<Rightarrow> (tt, upper) | None \<Rightarrow> (TOKEN_IDENT, w))"
| "meaning (LNumber n) = (TOKEN_NUMBER, n)"
| "meaning (LString s) = (TOKEN_STRING, s)"
| "meaning (LSymbol s t) = (t, s)"

fun sentence :: "lexeme list \<Rightarrow> string" where
  "sentence [] = []"
| "sentence [x] = lexText x"
| "sentence (x # y # zs) = lexText x @ CHR 0x20 # sentence (y # zs)"

lemma word_rune: "word_char c \<Longrightarrow> isWordRune U (of_char c) \<and> (of_char c :: nat) < 128"
  by (auto simp: word_char_def isWordRune_def IsLetter_def IsDigit_def Let_def)

lemma digit_rune: "(of_char c :: nat) < 128 \<Longrightarrow> IsDigit U (of_char c) \<longleftrightarrow> digit_char c"
  by (simp add: digit_char_def IsDigit_def Let_def)

lemma not_word_blank: "\<not> isWordRune U 32" "\<not> IsDigit U 32"
  by (simp_all add: isWordRune_def IsLetter_def IsDigit_def)

lemma takeWhile_blank:
  assumes "\<And>x. x \<in> set xs \<Longrightarrow> P x" and "\<not> P 32" and "us = [] \<or> hd us = (32 :: nat)"
  shows "takeWhile P (xs @ us) = xs" "dropWhile P (xs @ us) = us"
  using assms by (induction xs) (cases us; auto)+

lemma read_word:
  assumes "rest l = map of_char w @ us" and "us = [] \<or> hd us = 32" and "list_all word_char w"
  shows "\<exists>l'. readWhile (isWordRune U) l = (map of_char w, l') \<and> rest l' = us"
proof -
  have w: "isWordRune U x" if "x \<in> set (map of_char w)" for x
    using that assms(3) word_rune by (auto simp: list_all_iff)
  have "readWhile (isWordRune U) l = (map of_char w, snd (readWhile (isWordRune U) l))"
    "rest (snd (readWhile (isWordRune U) l)) = us"
    using readWhile_rest [of "isWordRune U" l] takeWhile_blank [where P = "isWordRune U" and xs = "map of_char w", OF w not_word_blank(1) assms(2)]
    by (simp_all add: assms(1))
  then show ?thesis by blast
qed

lemma word_ascii: "list_all word_char w \<Longrightarrow> is_ascii w"
  using word_rune by (auto simp: is_ascii_def list_all_iff)

lemma token_word:
  assumes "lexOk (LWord w)" and "rest l = map of_char w @ us" and "us = [] \<or> hd us = 32"
  shows "\<exists>tok l'. nextToken U G l = Inr (tok, l') \<and> (tType tok, tValue tok) = meaning (LWord w) \<and> rest l' = us"
proof -
  obtain c cs where w: "w = c # cs" using assms(1) by (cases w) auto
  have c: "isWordRune U (of_char c)" "(of_char c :: nat) < 128" "\<not> IsDigit U (of_char c)"
    using assms(1) word_rune digit_rune by (auto simp: w)
  have n: "nextToken U G l = Inr (readIdent U G l)"
    by (rule nextToken_word [OF _ c(2,1,3)]) (simp add: assms(2) w)
  obtain l' where r: "readWhile (isWordRune U) l = (map of_char w, l')" "rest l' = us"
    using read_word [OF assms(2,3)] assms(1) by auto
  have a: "is_ascii w" using assms(1) word_ascii by simp
  then have "ToUpper G w = map upper_char w" by (simp add: ToUpper_def)
  then show ?thesis
    using r(2) by (simp add: n readIdent_def r(1) utf8s_ascii a mkToken_def Let_def split: option.split)
qed

lemma token_number:
  assumes "lexOk (LNumber n)" and "rest l = map of_char n @ us" and "us = [] \<or> hd us = 32"
  shows "\<exists>tok l'. nextToken U G l = Inr (tok, l') \<and> (tType tok, tValue tok) = (TOKEN_NUMBER, n) \<and> rest l' = us"
proof -
  obtain c cs where n: "n = c # cs" using assms(1) by (cases n) auto
  have d: "digit_char x \<Longrightarrow> (of_char x :: nat) < 128" for x by (simp add: digit_char_def Let_def)
  have "nextToken U G l = Inr (readNumber U l)"
    by (rule nextToken_number [of _ "of_char c"]) (use assms(1,2) d digit_rune in \<open>auto simp: n\<close>)
  moreover
  let ?P = "\<lambda>r. IsDigit U r \<or> r = R (CHR ''.'')"
  have "?P x" if "x \<in> set (map of_char n)" for x
    using that assms(1) d digit_rune by (auto simp: list_all_iff)
  from takeWhile_blank [where P = ?P and xs = "map of_char n", OF this _ assms(3)]
  have tw: "takeWhile ?P (rest l) = map of_char n" "dropWhile ?P (rest l) = us"
    by (simp_all add: assms(2) not_word_blank)
  obtain l' where l': "l' = snd (readWhile ?P l)" by blast
  have r: "readWhile ?P l = (map of_char n, l')" "rest l' = us"
    using readWhile_rest [of ?P l] tw unfolding l' by simp_all
  have h: "\<not> here l' (\<lambda>r. r = q \<or> r = q')" if "q \<noteq> 32" "q' \<noteq> 32" for q q'
    using assms(3) that by (auto simp: here_rest r(2) split: list.split)
  have e: "readExponent U l' = ([], l')" "readHex xs l' = ([], l')" for xs
    using h by (simp_all add: readExponent_def readHex_def)
  have "is_ascii n" using assms(1) d by (auto simp: is_ascii_def list_all_iff)
  then have "readNumber U l = (mkToken TOKEN_NUMBER n l, l')"
    using r(1) e by (simp add: readNumber_def utf8s_ascii)
  ultimately show ?thesis using r(2) by (simp add: mkToken_def)
qed

lemma token_string:
  assumes "is_ascii s" and "rest l = map of_char (literal s) @ us" and "us = [] \<or> hd us = 32"
  shows "\<exists>tok l'. nextToken U G l = Inr (tok, l') \<and> (tType tok, tValue tok) = (TOKEN_STRING, s) \<and> rest l' = us"
proof -
  have r: "rest l = 39 # doubled (map of_char s) @ 39 # us" using assms(2) by (simp add: literal_runes)
  then have "rest (skip l) = doubled (map of_char s) @ 39 # us" by simp
  from readStringBody_doubled [OF this, of "[]"] assms(3) obtain l' where
    b: "readStringBody 39 [] (skip l) = Inr (s, l')" "rest l' = us" by (auto simp: utf8s_ascii assms(1))
  have "lx_input l ! lx_pos l = 39" using r by (simp add: rest_Cons)
  then show ?thesis using b by (simp add: nextToken_def readString_def mkToken_def)
qed

lemma symbol_length: "(s, t) \<in> set symbols \<Longrightarrow> (\<exists>c. s = [c]) \<or> (\<exists>c d. s = [c, d])"
  by (auto simp: symbols_def)

lemma token_symbol:
  assumes "(s, t) \<in> set symbols" and "rest l = map of_char s @ us" and "us = [] \<or> hd us = 32"
  shows "\<exists>tok l'. nextToken U G l = Inr (tok, l') \<and> (tType tok, tValue tok) = (t, s) \<and> rest l' = us"
proof -
  have a: "list_all (\<lambda>(s, t). is_ascii s) symbols" by (simp add: symbols_def is_ascii_def)
  consider c where "s = [c]" | c d where "s = [c, d]" using symbol_length [OF assms(1)] by blast
  then show ?thesis
  proof cases
    case (1 c)
    have "nextToken U G l = single t l"
      by (rule nextToken_one [OF assms(1) 1 _ assms(3)]) (simp add: assms(2) 1)
    moreover have "lx_input l ! lx_pos l = of_char c" by (rule rest_here [of _ _ us]) (simp add: assms(2) 1)
    moreover have "utf8 (of_char c) = [c]"
      using a assms(1) by (intro utf8_ascii) (auto simp: list_all_iff is_ascii_def 1)
    ultimately show ?thesis by (simp add: single_def mkToken_def 1 assms(2))
  next
    case (2 c d)
    have "nextToken U G l = double t s l"
      by (rule nextToken_two [OF assms(1) 2]) (simp add: assms(2) 2)
    then show ?thesis by (simp add: double_def mkToken_def assms(2) 2)
  qed
qed

lemma token_lexeme:
  assumes "lexOk x" and "rest l = map of_char (lexText x) @ us" and "us = [] \<or> hd us = 32"
  shows "\<exists>tok l'. nextToken U G l = Inr (tok, l') \<and> (tType tok, tValue tok) = meaning x \<and> rest l' = us"
  using assms token_word [of _ l us U G] token_number [of _ l us U G] token_string [of _ l us U G] token_symbol [of _ _ l us U G]
  by (cases x) (simp_all del: lexOk.simps(1,2) meaning.simps(1) add: lexOk.simps(3,4))

text \<open>A lexeme starts with a rune that is no blank, and is no comment when a blank follows it.\<close>

lemma lexeme_start:
  assumes "lexOk x"
  shows "\<exists>r rs. map of_char (lexText x) = r # rs \<and> \<not> IsSpace U r \<and> (r \<in> {45, 47} \<longrightarrow> rs = [])"
proof (cases x)
  case (LWord w)
  then obtain c cs where w: "w = c # cs" "word_char c" using assms by (cases w) auto
  then show ?thesis by (auto simp: LWord word_char_def Let_def IsSpace_def)
next
  case (LNumber n)
  then obtain c cs where w: "n = c # cs" "digit_char c" using assms by (cases n) auto
  then show ?thesis by (auto simp: LNumber digit_char_def Let_def IsSpace_def)
next
  case (LString s)
  then show ?thesis by (simp add: literal_def IsSpace_def)
next
  case (LSymbol s t)
  have "list_all (\<lambda>(s, t). \<exists>r rs. map of_char s = r # rs \<and> \<not> IsSpace U r \<and> (r \<in> {45, 47} \<longrightarrow> rs = [])) symbols"
    by (simp add: symbols_def IsSpace_def)
  then show ?thesis using assms by (auto simp: LSymbol list_all_iff)
qed

lemma tokenizeFrom_ws: "skipWhitespace U l = skipWhitespace U l2 \<Longrightarrow> tokenizeFrom U G l = tokenizeFrom U G l2"
  by (subst (1 2) tokenizeFrom.simps) simp

lemma tokenizeFrom_blank:
  assumes "rest l = 32 # us"
  shows "tokenizeFrom U G l = tokenizeFrom U G (skip l)"
proof (rule tokenizeFrom_ws)
  have "here l (IsSpace U)" using assms by (simp add: here_rest IsSpace_def)
  then have "readWhile (IsSpace U) l = (fst (advance l) # fst (readWhile (IsSpace U) (skip l)), snd (readWhile (IsSpace U) (skip l)))"
    by (subst readWhile.simps) (simp add: case_prod_unfold Let_def)
  then show "skipWhitespace U l = skipWhitespace U (skip l)" by (simp add: skipWhitespace_def)
qed

lemma tokenizeFrom_lexeme:
  assumes "lexOk x" and "rest l = map of_char (lexText x) @ us" and "us = [] \<or> hd us = 32"
  shows "\<exists>tok l'. tokenizeFrom U G l = bindE (tokenizeFrom U G l') (\<lambda>ts. Inr (tok # ts)) \<and>
    (tType tok, tValue tok) = meaning x \<and> rest l' = us"
proof -
  obtain r rs where r: "map of_char (lexText x) = r # rs" "\<not> IsSpace U r" "r \<in> {45, 47} \<longrightarrow> rs = []"
    using lexeme_start [OF assms(1), of U] by (elim exE conjE) (rule that)
  obtain tok l' where t: "nextToken U G l = Inr (tok, l')" "(tType tok, tValue tok) = meaning x" "rest l' = us"
    using token_lexeme [OF assms] by blast
  have l: "rest l = r # rs @ us" by (simp add: assms(2) r(1))
  have w: "skipWhitespace U l = l" using l r(2) skipWhitespace_none by simp
  have "\<not> (here l (\<lambda>r. r = 45) \<and> after l (\<lambda>r. r = 45))" "\<not> (here l (\<lambda>r. r = 47) \<and> after l (\<lambda>r. r = 42))"
    using r(3) assms(3) by (auto simp: here_rest after_rest l split: list.split)
  moreover have "lx_pos l < length (lx_input l)" using l by (simp add: rest_Cons)
  ultimately have "tokenizeFrom U G l = bindE (tokenizeFrom U G l') (\<lambda>ts. Inr (tok # ts))"
    using t(1) by (subst tokenizeFrom.simps) (auto simp: w Let_def)
  with t show ?thesis by blast
qed

lemma tokenizeFrom_sentence:
  assumes "list_all lexOk xs" and "rest l = map of_char (sentence xs)"
  shows "\<exists>ts. tokenizeFrom U G l = Inr ts \<and> map (\<lambda>t. (tType t, tValue t)) ts = map meaning xs @ [(TOKEN_EOF, [])]"
  using assms
proof (induction xs arbitrary: l rule: sentence.induct)
  case 1
  then show ?case by (simp add: tokenizeFrom_end eofToken_def)
next
  case (2 x)
  then obtain tok l' where "tokenizeFrom U G l = bindE (tokenizeFrom U G l') (\<lambda>ts. Inr (tok # ts))"
    "(tType tok, tValue tok) = meaning x" "rest l' = []"
    using tokenizeFrom_lexeme [of x l "[]" U G] by auto
  then show ?case by (simp add: tokenizeFrom_end eofToken_def)
next
  case (3 x y zs)
  then obtain tok l' where t: "tokenizeFrom U G l = bindE (tokenizeFrom U G l') (\<lambda>ts. Inr (tok # ts))"
    "(tType tok, tValue tok) = meaning x" "rest l' = 32 # map of_char (sentence (y # zs))"
    using tokenizeFrom_lexeme [of x l "32 # map of_char (sentence (y # zs))" U G] by auto
  have "rest (skip l') = map of_char (sentence (y # zs))" by (simp add: t(3))
  from "3.IH" [OF _ this] "3.prems"(1) obtain ts where
    "tokenizeFrom U G (skip l') = Inr ts" "map (\<lambda>t. (tType t, tValue t)) ts = map meaning (y # zs) @ [(TOKEN_EOF, [])]"
    by auto
  then show ?case using t(1,2) tokenizeFrom_blank [OF t(3), of U G] by simp
qed

lemma digits_ascii: "list_all digit_char n \<Longrightarrow> is_ascii n"
  by (auto simp: is_ascii_def digit_char_def Let_def list_all_iff)

lemma lexeme_ascii: "lexOk x \<Longrightarrow> is_ascii (lexText x)"
proof (cases x)
  case (LSymbol s t)
  have "list_all (\<lambda>(s, t). is_ascii s) symbols" by (simp add: symbols_def is_ascii_def)
  then show "lexOk x \<Longrightarrow> is_ascii (lexText x)" by (auto simp: LSymbol list_all_iff)
qed (simp_all add: literal_ascii word_ascii digits_ascii)

lemma sentence_ascii: "list_all lexOk xs \<Longrightarrow> is_ascii (sentence xs)"
proof (induction xs rule: sentence.induct)
  case (3 x y zs)
  then show ?case using lexeme_ascii [of x] by (auto simp: is_ascii_def)
qed (simp_all add: lexeme_ascii, simp add: is_ascii_def)

lemma sentence_tokens:
  assumes "list_all lexOk xs"
  shows "\<exists>ts. Tokenize U G (sentence xs) = Inr ts \<and>
    map (\<lambda>t. (tType t, tValue t)) ts = map meaning xs @ [(TOKEN_EOF, [])]"
proof -
  have "rest (NewLexer (sentence xs)) = map of_char (sentence xs)"
    by (simp add: rest_def NewLexer_def runes_ascii sentence_ascii assms)
  from tokenizeFrom_sentence [OF assms this] show ?thesis by (simp add: Tokenize_def)
qed

text \<open>C27. Words, numbers, string literals and operators written with blanks between them are read back
  as exactly these tokens, a word as a keyword when it is one in upper case.\<close>

theorem sentence_roundtrip:
  assumes "list_all lexOk xs"
  shows "\<exists>ts. Tokenize U G (sentence xs) = Inr ts \<and>
    map (\<lambda>t. (tType t, tValue t)) ts = map meaning xs @ [(TOKEN_EOF, [])]"
  by (rule sentence_tokens [OF assms])

theorem sentence_roundtrip_witness:
  "\<forall>G. \<exists>ts. Tokenize plainUnicode G (sentence [LWord ''select'', LNumber ''42'', LSymbol ''<='' TOKEN_LTE, LString ''a b'']) = Inr ts \<and>
    map (\<lambda>t. (tType t, tValue t)) ts =
      [(KW ''SELECT'', ''SELECT''), (TOKEN_NUMBER, ''42''), (TOKEN_LTE, ''<=''), (TOKEN_STRING, ''a b''), (TOKEN_EOF, [])]"
proof -
  let ?xs = "[LWord ''select'', LNumber ''42'', LSymbol ''<='' TOKEN_LTE, LString ''a b'']"
  have "list_all lexOk ?xs"
    by (simp add: word_char_def digit_char_def Let_def symbols_def is_ascii_def)
  moreover have "map upper_char ''select'' = ''SELECT''" by (simp add: upper_char_def Let_def char_of_def bit_0)
  then have "map meaning ?xs = [(KW ''SELECT'', ''SELECT''), (TOKEN_NUMBER, ''42''), (TOKEN_LTE, ''<=''), (TOKEN_STRING, ''a b'')]"
    by (simp add: keyword_def keywords1_def Let_def)
  ultimately show ?thesis using sentence_roundtrip [of ?xs plainUnicode] by simp
qed

end
