(* ===== verification/ParserProps.thy ===== *)
theory ParserProps
  imports ParserFuel LexerProps
begin

text \<open>
  What the parser returns: it ends on every input without a \<open>CREATE\<close> statement, and it does not end on
  a constraint over something that is no column name.
\<close>

section \<open>The parser ends\<close>

lemma Tokenize_no_fuel: "Tokenize U G s \<noteq> Inl OutOfFuel"
  using tokenize_shape [of U G s] by auto

text \<open>C26. \<open>Parse\<close> returns statements or an error on every text in which the word \<open>CREATE\<close> does not
  occur: fuel of twice the number of tokens and two is enough.\<close>

theorem parse_terminates:
  assumes "\<And>ts. Tokenize U G sql = Inr ts \<Longrightarrow> KW ''CREATE'' \<notin> tType ` set ts \<and> 2 * length ts + 2 \<le> n"
  shows "ParseWith n U G sql \<noteq> Inl OutOfFuel"
proof (cases "Tokenize U G sql")
  case (Inl e)
  then show ?thesis using Tokenize_no_fuel [of U G sql] by (simp add: ParseWith_def)
next
  case (Inr ts)
  note a = assms [OF Inr]
  have "good ts (length ts) (ParseAll n (grammar G n))"
    using a by (intro good_ParseAll subs_grammar) (auto simp: grammar_def intro: strict_parser)
  then have "ParseAll n (grammar G n) (NewParser ts) \<noteq> Inl OutOfFuel"
    by (rule goodD(1)) (simp_all add: NewParser_def remaining_def)
  then show ?thesis
    by (cases "ParseAll n (grammar G n) (NewParser ts)") (auto simp: ParseWith_def Inr)
qed


text \<open>\<open>SELECT 1\<close> as tokens.\<close>

lemma select_one:
  "\<exists>a b d. Tokenize U G ''SELECT 1'' = Inr [a, b, d] \<and> tType a = KW ''SELECT'' \<and> tType b = TOKEN_NUMBER \<and>
     tValue b = ''1'' \<and> tType d = TOKEN_EOF"
proof -
  let ?xs = "[LWord ''SELECT'', LNumber ''1'']"
  have "list_all lexOk ?xs" by (simp add: word_char_def digit_char_def Let_def)
  from sentence_tokens [OF this, of U G] obtain ts where
    t: "Tokenize U G ''SELECT 1'' = Inr ts" "map (\<lambda>t. (tType t, tValue t)) ts = map meaning ?xs @ [(TOKEN_EOF, [])]"
    by auto
  have "map upper_char ''SELECT'' = ''SELECT''" by (simp add: upper_char_def Let_def)
  then have "map meaning ?xs = [(KW ''SELECT'', ''SELECT''), (TOKEN_NUMBER, ''1'')]"
    by (simp add: keyword_def keywords1_def Let_def)
  with t show ?thesis by auto
qed

theorem parse_terminates_witness: "\<forall>G. ParseWith 8 plainUnicode G ''SELECT 1'' \<noteq> Inl OutOfFuel"
proof (intro allI parse_terminates)
  fix G ts assume "Tokenize plainUnicode G ''SELECT 1'' = Inr ts"
  with select_one [of plainUnicode G] show "KW ''CREATE'' \<notin> tType ` set ts \<and> 2 * length ts + 2 \<le> 8" by auto
qed

section \<open>The tokens ahead\<close>

definition ahead :: "Parser \<Rightarrow> Token list" where
  "ahead p = drop (pos p) (tokens p)"

lemma ahead_step:
  assumes "ahead p = u # us"
  shows "tokType p = tType u" "tType u \<noteq> TOKEN_EOF \<Longrightarrow> ahead (snd (advanceP p)) = us" "fst (advanceP p) = u"
proof -
  have l: "pos p < length (tokens p)" using assms by (cases "pos p < length (tokens p)") (auto simp: ahead_def)
  from Cons_nth_drop_Suc [OF l] assms have "tokens p ! pos p = u" "drop (Suc (pos p)) (tokens p) = us"
    by (auto simp: ahead_def)
  then show "tokType p = tType u" "tType u \<noteq> TOKEN_EOF \<Longrightarrow> ahead (snd (advanceP p)) = us" "fst (advanceP p) = u"
    using l by (simp_all add: tokType_def peekP_def advanceP_def ahead_def Let_def)
qed

section \<open>The statement of a view\<close>

lemmas step_defs = bindA_def thenA_def onType_def ifType_def ifState_def returnA_def advanceA_def opt_def liftA_def

text \<open>One literal and the end of the text.\<close>

lemma one_levels:
  assumes t: "tokType p = TOKEN_NUMBER" and v: "parseNumber (pcLib c) (fst (advanceP p)) = Inr e"
    and q: "snd (advanceP p) = q" "tokType q = TOKEN_EOF" and n: "pcFuel c = Suc n"
  shows "parseOr c p = Inr (e, q)"
proof -
  have "parsePrimaryExpr (Suc n) c p = Inr (e, q)" using t v q(1) by (simp add: step_defs case_prod_unfold)
  then have "parsePostfix c p = Inr (e, q)" using q(2) by (simp add: parsePostfix_def n step_defs)
  then have "parseUnary c p = Inr (e, q)" using t by (simp add: parseUnary_def step_defs)
  then have "parseMulDiv c p = Inr (e, q)" using q(2) by (simp add: parseMulDiv_def n step_defs)
  then have "parseAddSub c p = Inr (e, q)" using q(2) by (simp add: parseAddSub_def n step_defs)
  then have "parseBitShift c p = Inr (e, q)" using q(2) by (simp add: parseBitShift_def n step_defs)
  then have "parseBitAnd c p = Inr (e, q)" using q(2) by (simp add: parseBitAnd_def n step_defs)
  then have "parseBitOr c p = Inr (e, q)" using q(2) by (simp add: parseBitOr_def n step_defs)
  then have "parseConcat c p = Inr (e, q)" using q(2) by (simp add: parseConcat_def n step_defs)
  then have "parseComparison c p = Inr (e, q)" using q(2) by (simp add: parseComparison_def n step_defs compOps_def)
  then have "parseNot c p = Inr (e, q)" using t by (simp add: parseNot_def step_defs)
  then have "parseAnd c p = Inr (e, q)" using q(2) by (simp add: parseAnd_def n step_defs)
  then show ?thesis using q(2) by (simp add: parseOr_def n step_defs)
qed

definition selectOne :: SelectStmt where
  "selectOne = SelectStmt False [SelectColumn (Some (litE (LitInt 1))) '''' False] [] [] None [] None [] None None None None"

lemma Parse_select_one: "Parse U G ''SELECT 1'' = Inr [SelectSt selectOne]"
proof -
  obtain a b d where t: "Tokenize U G ''SELECT 1'' = Inr [a, b, d]" and ts: "tType a = KW ''SELECT''" "tType b = TOKEN_NUMBER"
    "tValue b = ''1''" "tType d = TOKEN_EOF" using select_one [of U G] by blast
  let ?p0 = "NewParser [a, b, d]"
  define p1 where "p1 = snd (advanceP ?p0)"
  define p2 where "p2 = snd (advanceP p1)"
  have a0: "ahead ?p0 = [a, b, d]" by (simp add: ahead_def NewParser_def)
  have t0: "tokType ?p0 = KW ''SELECT''" and a1: "ahead p1 = [b, d]"
    using ahead_step [OF a0] ts(1) by (simp_all add: p1_def)
  have t1: "tokType p1 = TOKEN_NUMBER" "fst (advanceP p1) = b" and a2: "ahead p2 = [d]"
    using ahead_step [OF a1] ts(2) by (simp_all add: p2_def)
  have t2: "tokType p2 = TOKEN_EOF" using ahead_step(1) [OF a2] ts(4) by simp
  have "ParseInt ''1'' = Some 1" by (simp add: ParseInt_def digit_val_def)
  then have num: "parseNumber G (fst (advanceP p1)) = Inr (litE (LitInt 1))"
    by (simp add: parseNumber_def t1(2) ts(3) ToLower_def is_ascii_def lower_char_def Let_def)
  have expr: "parseExpr G (Suc n) p1 = Inr (litE (LitInt 1), p2)" for n
    unfolding parseExpr.simps by (rule one_levels [OF t1(1)]) (simp_all add: num p2_def [symmetric] t2)
  have "parseSelectBody \<lparr>pcLib = G, pcFuel = Suc (Suc n), pcExpr = parseExpr G (Suc n), pcSelect = parseSelect G (Suc n)\<rparr> ?p0
      = Inr (selectOne, p2)" for n
    by (simp add: parseSelectBody_def step_defs p1_def [symmetric] case_prod_unfold t1(1) parseSelectColumns_def
        selectColumn_def expr optAlias_def t2 fromClause_def clause_def groupBy_def compound_def orderBy_def selectOne_def image_iff)
  then have "parseSelect G (Suc (Suc n)) ?p0 = Inr (selectOne, p2)" for n unfolding parseSelect.simps .
  then have "ParseStatement (Suc m) (grammar G (Suc (Suc n))) ?p0 = Inr (SelectSt selectOne, p2)" for m n
    by (simp add: step_defs t0 grammar_def)
  then have "ParseAll (Suc (Suc m)) (grammar G (Suc (Suc n))) ?p0 = Inr ([SelectSt selectOne], p2)" for m n
    by (simp add: step_defs t0 t2 grammar_def)
  from this [of 6 6] have "ParseAll 8 (grammar G 8) ?p0 = Inr ([SelectSt selectOne], p2)" by (simp only: Suc_numeral semiring_norm)
  then show ?thesis using t by (simp add: Parse_def ParseWith_def bindE_def del: ParseAll.simps)
qed

section \<open>A constraint that never ends\<close>

definition stuck :: "Parser \<Rightarrow> bool" where
  "stuck p \<longleftrightarrow> tokType p \<notin> {TOKEN_IDENT, TOKEN_RPAREN, TOKEN_COMMA, KW ''ASC'', KW ''DESC''} \<union> KW ` set identKeywords"

lemma stuck_ident: "stuck p \<Longrightarrow> tryIdent p = Inr ('''', p)"
  by (simp add: stuck_def tryIdent_def ignoreA_def expectIdent_def ifType_def ifState_def failTok_def Let_def)

lemma stuck_comma: "stuck p \<Longrightarrow> tryExpect TOKEN_COMMA p = Inr ((), p)"
  by (simp add: stuck_def tryExpect_def ignoreA_def expect_def ifType_def ifState_def failTok_def Let_def thenA_def bindA_def)

lemma stuck_columns:
  assumes "stuck p"
  shows "constraintColumns n dir p = Inl OutOfFuel"
proof (induction n)
  case (Suc n)
  have "opt [KW ''ASC'', KW ''DESC''] p = Inr (False, p)" "tokType p \<noteq> TOKEN_RPAREN"
    using assms by (auto simp: stuck_def opt_def onType_def ifType_def ifState_def returnA_def)
  then show ?case using Suc stuck_ident [OF assms] stuck_comma [OF assms]
    by (cases dir) (simp_all add: bindA_def thenA_def onType_def ifType_def ifState_def returnA_def)
qed (simp add: failA_def)

text \<open>The loop over the columns of a table constraint ignores the errors of \<open>expectIdent\<close> and \<open>expect\<close>.
  After \<open>UNIQUE (name\<close>, a token that is no name, comma or closing parenthesis is never consumed.\<close>

lemma constraint_stuck:
  assumes "map tType (ahead p) = KW ''UNIQUE'' # TOKEN_LPAREN # TOKEN_IDENT # t # us"
    and "t \<notin> {TOKEN_IDENT, TOKEN_RPAREN, TOKEN_COMMA, KW ''ASC'', KW ''DESC''} \<union> KW ` set identKeywords"
  shows "parseTableConstraint n p = Inl OutOfFuel"
proof -
  obtain a b c d vs where v: "ahead p = a # b # c # d # vs" "tType a = KW ''UNIQUE''" "tType b = TOKEN_LPAREN"
    "tType c = TOKEN_IDENT" "tType d = t" using assms(1) by auto
  define p1 where "p1 = snd (advanceP p)"
  define p2 where "p2 = snd (advanceP p1)"
  define p3 where "p3 = snd (advanceP p2)"
  have t0: "tokType p = KW ''UNIQUE''" and a1: "ahead p1 = b # c # d # vs"
    using ahead_step [OF v(1)] v(2) by (simp_all add: p1_def)
  have t1: "tokType p1 = TOKEN_LPAREN" and a2: "ahead p2 = c # d # vs"
    using ahead_step [OF a1] v(3) by (simp_all add: p2_def)
  have t2: "tokType p2 = TOKEN_IDENT" and a3: "ahead p3 = d # vs"
    using ahead_step [OF a2] v(4) by (simp_all add: p3_def)
  have t3: "tokType p3 = t" using ahead_step(1) [OF a3] v(5) by simp
  have s: "stuck p3" using assms(2) by (simp add: stuck_def t3)
  have id: "tryIdent p2 = Inr (tValue c, p3)"
    using ahead_step(3) [OF a2] t2
    by (simp add: tryIdent_def ignoreA_def expectIdent_def tokValue_def bindA_def advanceA_def ifType_def ifState_def returnA_def
        p3_def case_prod_unfold)
  have "constraintColumns n False p2 = Inl OutOfFuel"
  proof (cases n)
    case (Suc m)
    have "t \<noteq> TOKEN_RPAREN" using assms(2) by simp
    then show ?thesis using id stuck_comma [OF s] stuck_columns [OF s, of m False]
      by (simp add: Suc bindA_def thenA_def onType_def ifType_def ifState_def returnA_def t3)
  qed (simp add: failA_def)
  moreover have "tryExpect TOKEN_LPAREN p1 = Inr ((), p2)"
    using t1 by (simp add: tryExpect_def ignoreA_def expect_def ifType_def ifState_def thenA_def bindA_def advanceA_def returnA_def
        p2_def case_prod_unfold)
  ultimately show ?thesis
    using t0 by (simp add: parseTableConstraint_def onType_def ifType_def ifState_def thenA_def bindA_def advanceA_def returnA_def
        Let_def case_prod_unfold flip: p1_def)
qed

text \<open>Token types that begin a table whose first element is such a constraint.\<close>

fun endless :: "TokenType list \<Rightarrow> bool" where
  "endless (t0 # t1 # t2 # t3 # t4 # t5 # t6 # t # us) \<longleftrightarrow>
     [t0, t1, t2, t3, t4, t5, t6] =
       [KW ''CREATE'', KW ''TABLE'', TOKEN_IDENT, TOKEN_LPAREN, KW ''UNIQUE'', TOKEN_LPAREN, TOKEN_IDENT] \<and>
     t \<notin> {TOKEN_IDENT, TOKEN_RPAREN, TOKEN_COMMA, KW ''ASC'', KW ''DESC''} \<union> KW ` set identKeywords"
| "endless _ \<longleftrightarrow> False"

lemma table_stuck:
  assumes "endless (map tType (ahead p))"
  shows "tokType p = KW ''CREATE'' \<and> parseCreate c p = Inl OutOfFuel"
proof -
  have "\<exists>y0 y1 y2 y3 y4 y5 y6 y us. map tType (ahead p) = y0 # y1 # y2 # y3 # y4 # y5 # y6 # y # us"
    using assms by (cases rule: endless.elims(2)) iprover
  then obtain x0 x1 x2 x3 x4 x5 x6 x us where xs: "ahead p = x0 # x1 # x2 # x3 # x4 # x5 # x6 # x # us"
    unfolding map_eq_Cons_conv by blast
  have e: "endless (map tType (x0 # x1 # x2 # x3 # x4 # x5 # x6 # x # us))" using assms by (simp only: xs)
  define p1 where "p1 = snd (advanceP p)"
  define p2 where "p2 = snd (advanceP p1)"
  define p3 where "p3 = snd (advanceP p2)"
  define p4 where "p4 = snd (advanceP p3)"
  have t0: "tokType p = KW ''CREATE''" and a1: "ahead p1 = x1 # x2 # x3 # x4 # x5 # x6 # x # us"
    using ahead_step [OF xs] e by (simp_all add: p1_def)
  have t1: "tokType p1 = KW ''TABLE''" and a2: "ahead p2 = x2 # x3 # x4 # x5 # x6 # x # us"
    using ahead_step [OF a1] e by (simp_all add: p2_def)
  have t2: "tokType p2 = TOKEN_IDENT" and a3: "ahead p3 = x3 # x4 # x5 # x6 # x # us"
    using ahead_step [OF a2] e by (simp_all add: p3_def)
  have t3: "tokType p3 = TOKEN_LPAREN" and a4: "ahead p4 = x4 # x5 # x6 # x # us"
    using ahead_step [OF a3] e by (simp_all add: p4_def)
  have t4: "tokType p4 = KW ''UNIQUE''" using ahead_step(1) [OF a4] e by simp
  have c: "parseTableConstraint n p4 = Inl OutOfFuel" for n
    by (rule constraint_stuck [where t = "tType x" and us = "map tType us"]) (use a4 e in simp_all)
  have "tableElems n G stmt p4 = Inl OutOfFuel" for n G stmt
    by (cases n) (simp_all add: step_defs failA_def t4 c)
  then have "parseCreateTable G n b p1 = Inl OutOfFuel" for G n b
    by (simp add: parseCreateTable_def step_defs p2_def [symmetric] ifNotExistsTable_def t2 expectIdent_def tokValue_def
        p3_def [symmetric] expect_def t3 p4_def [symmetric] case_prod_unfold)
  then have "parseCreate c p = Inl OutOfFuel"
    by (simp add: parseCreate_def step_defs p1_def [symmetric] t1 case_prod_unfold)
  with t0 show ?thesis by simp
qed

lemma endless_parse:
  assumes "Tokenize U G sql = Inr ts" and "endless (map tType ts)"
  shows "ParseWith n U G sql = Inl OutOfFuel"
proof -
  have "ahead (NewParser ts) = ts" by (simp add: ahead_def NewParser_def)
  then have s: "tokType (NewParser ts) = KW ''CREATE''" "parseCreate c (NewParser ts) = Inl OutOfFuel" for c
    using table_stuck [of "NewParser ts" c] assms(2) by simp_all
  have "ParseStatement n c (NewParser ts) = Inl OutOfFuel" for n c
    by (cases n) (simp_all add: step_defs failA_def s)
  then have "ParseAll n c (NewParser ts) = Inl OutOfFuel" for n c
    by (cases n) (simp_all add: step_defs failA_def s)
  then show ?thesis using assms(1) by (simp add: ParseWith_def)
qed

text \<open>A text that begins with \<open>CREATE TABLE t (UNIQUE (name\<close> and goes on with a token that is no name,
  comma or closing parenthesis is never parsed: the loop over the columns of the constraint ignores
  the errors of \<open>expectIdent\<close> and \<open>expect\<close> and does not consume the token, whatever the fuel.\<close>

theorem constraint_never_ends:
  assumes "Tokenize U G sql = Inr ts" and "endless (map tType ts)"
  shows "ParseWith n U G sql = Inl OutOfFuel"
  by (rule endless_parse [OF assms])

definition endlessText :: string where
  "endlessText = ''CREATE TABLE t ( UNIQUE ( lower ( a ) ) )''"

lemma endless_text: "\<exists>ts. Tokenize U G endlessText = Inr ts \<and> endless (map tType ts)"
proof -
  let ?xs = "[LWord ''CREATE'', LWord ''TABLE'', LWord ''t'', LSymbol ''('' TOKEN_LPAREN, LWord ''UNIQUE'', LSymbol ''('' TOKEN_LPAREN,
    LWord ''lower'', LSymbol ''('' TOKEN_LPAREN, LWord ''a'', LSymbol '')'' TOKEN_RPAREN, LSymbol '')'' TOKEN_RPAREN,
    LSymbol '')'' TOKEN_RPAREN]"
  have "list_all lexOk ?xs" by (simp add: word_char_def digit_char_def Let_def symbols_def)
  moreover have "sentence ?xs = endlessText" by (simp add: endlessText_def)
  ultimately obtain ts where
    t: "Tokenize U G endlessText = Inr ts" "map (\<lambda>t. (tType t, tValue t)) ts = map meaning ?xs @ [(TOKEN_EOF, [])]"
    using sentence_tokens [of ?xs U G] by auto
  have m: "map tType ts = map fst (map meaning ?xs @ [(TOKEN_EOF, [])])"
    unfolding t(2) [symmetric] by (simp add: comp_def)
  have "map upper_char ''CREATE'' = ''CREATE''" "map upper_char ''TABLE'' = ''TABLE''" "map upper_char ''t'' = ''T''"
    "map upper_char ''UNIQUE'' = ''UNIQUE''" "map upper_char ''lower'' = ''LOWER''" "map upper_char ''a'' = ''A''"
    by (simp_all add: upper_char_def Let_def char_of_def bit_0)
  then have "endless (map tType ts)" unfolding m
    by (simp add: keyword_def keywords1_def keywords2_def Let_def image_iff)
  with t(1) show ?thesis by blast
qed

theorem constraint_never_ends_witness: "\<forall>G n. ParseWith n plainUnicode G endlessText = Inl OutOfFuel"
  using endless_text constraint_never_ends by blast

end
