(* ===== verification/QueryProps.thy ===== *)
theory QueryProps
  imports ExecProps ParserProps
begin

text \<open>
  The properties of the executor: its transactions, compound queries, ordering, grouping and
  aggregates, qualified names, views, and \<open>SELECT\<close> over a stored table. The witnesses run on a small
  outside world, an empty catalogue and the one-row table of the storage properties.
\<close>

definition plainX :: xenv where
  "plainX = \<lparr>xeEnv = plainEnv, xeEval = plainEval, scanFuel = 4, viewFuel = 2, fmtV = (\<lambda>_. ''0''),
     pageOrder = (\<lambda>_. []), statsRows = (\<lambda>_ _. [])\<rparr>"

lemma plainX_simps [simp]:
  "xeEnv plainX = plainEnv" "xeEval plainX = plainEval" "scanFuel plainX = 4" "viewFuel plainX = 2"
  by (simp_all add: plainX_def)

section \<open>Transactions\<close>

text \<open>C19. The transactions of an executor, from any sequence of statements: it has a transaction exactly
  when it says so; \<open>BEGIN\<close> opens one and fails inside one without a change; \<open>COMMIT\<close> and \<open>ROLLBACK\<close> leave
  none, whether they fail or not; \<open>SAVEPOINT\<close> opens one when there is none; and no other statement
  touches it.\<close>

theorem transaction_states:
  assumes "runs X x"
  shows "(xInTx x \<longleftrightarrow> xTx x \<noteq> None) \<and>
    (if xInTx x then execStatement X (BeginStmt m) x = (Inl (ErrTx ''already in a transaction''), x)
     else xInTx (snd (execStatement X (BeginStmt m) x))) \<and>
    \<not> xInTx (snd (execStatement X CommitStmt x)) \<and> \<not> xInTx (snd (execStatement X (RollbackStmt '''') x)) \<and>
    xInTx (snd (execStatement X (SavepointStmt n) x)) \<and>
    (tx_statement st \<or> xTx (snd (execStatement X st x)) = xTx x \<and> xInTx (snd (execStatement X st x)) = xInTx x)"
proof -
  have i: "exec_inv x" using assms by (rule runs_inv)
  have "\<not> xInTx (snd (execStatement X CommitStmt x))"
  proof (cases "xTx x")
    case None
    then have "\<not> xInTx x" using i by (simp add: exec_inv_def)
    then have "execStatement X CommitStmt x = done_with (onStorage FlushAll) x"
      by (simp add: execStatement_def execCommit_def getTx_def bindX_def)
    moreover have "keeps_tx (done_with (onStorage FlushAll))" by (intro keeps)
    ultimately show ?thesis using \<open>\<not> xInTx x\<close> by (simp add: keeps_tx_def)
  next
    case (Some tx)
    then show ?thesis using i
      by (cases "commitTx tx x" rule: prod.exhaust)
        (auto simp: execStatement_def execCommit_def tx_defs exec_inv_def split: sum.split)
  qed
  moreover have "\<not> xInTx (snd (execStatement X (RollbackStmt '''') x))"
    using i
  proof (rule exec_inv_cases)
    assume "xTx x = None" "\<not> xInTx x"
    then show ?thesis by (simp add: execStatement_def execRollback_def tx_defs)
  next
    fix tx assume "xTx x = Some tx" "xInTx x" "holds_nothing tx"
    then show ?thesis by (simp add: execStatement_def execRollback_inv)
  qed
  moreover have "tx_statement st \<or> xTx (snd (execStatement X st x)) = xTx x \<and> xInTx (snd (execStatement X st x)) = xInTx x"
    using keeps_statement [of st X] unfolding keeps_tx_def by blast
  ultimately show ?thesis
    using i by (rule_tac exec_inv_cases [OF i])
      (simp_all add: execStatement_def execBegin_def execSavepoint_def tx_defs Savepoint_def holds_nothing_def NewTransaction_def)
qed

theorem transaction_states_witness:
  "let x = snd (execStatement plainX (SavepointStmt ''a'') (NewExecutor emptyCatalogue))
   in (if xInTx x then execStatement plainX (BeginStmt '''') x = (Inl (ErrTx ''already in a transaction''), x)
       else xInTx (snd (execStatement plainX (BeginStmt '''') x))) \<and>
      \<not> xInTx (snd (execStatement plainX CommitStmt x))"
  unfolding Let_def using transaction_states [OF runs.step [OF runs.start]] by blast

text \<open>C20. \<open>ROLLBACK\<close> and \<open>ROLLBACK TO\<close>, after any statements, leave tables, catalogue, pages and cache as
  they are: nothing ever saves a page into a transaction, so what was changed since \<open>BEGIN\<close> stays
  changed.\<close>

theorem rollback_restores_nothing:
  assumes "runs X x"
  shows "xTable (snd (execStatement X (RollbackStmt to) x)) = xTable x"
  using runs_inv [OF assms]
proof (rule exec_inv_cases)
  assume "xTx x = None" "\<not> xInTx x"
  then show ?thesis by (simp add: execStatement_def execRollback_def tx_defs)
next
  fix tx assume "xTx x = Some tx" "xInTx x" "holds_nothing tx"
  then show ?thesis by (simp add: execStatement_def execRollback_inv split: option.split)
qed

theorem rollback_restores_nothing_witness:
  "\<forall>st. let x = snd (execStatement plainX st (snd (execStatement plainX (BeginStmt '''') (NewExecutor emptyCatalogue))))
     in xTable (snd (execStatement plainX (RollbackStmt '''') x)) = xTable x"
  unfolding Let_def
  by (intro allI rollback_restores_nothing runs.step runs.start)


section \<open>Compound queries\<close>

lemma setCompound_again: "setCompound c (setCompound d s) = setCompound c s" "selWith s = None \<Longrightarrow> setWith None s = s"
  by (cases s; simp)+

lemma compound_words: "ToUpper G ''UNION'' = ''UNION''" "ToUpper G ''INTERSECT'' = ''INTERSECT''" "ToUpper G ''EXCEPT'' = ''EXCEPT''"
  by (simp_all add: ToUpper_ascii is_ascii_def upper_char_def)

lemma execSelect_compound:
  assumes "selWith q = None" and "execPlain X (setCompound None q) x = (Inr l, x1)" and "execSelect X rhs x1 = (Inr r, x2)"
  shows "execSelect X (setCompound (Some (CompoundClause op all rhs)) q) x =
    (Inr (l\<lparr>rsRows := compoundRows (ToUpper (xlib X) op) all (rsRows l) (rsRows r)\<rparr>), x2)"
  using assms
  by (subst execSelect.simps) (simp add: evalCTEs_def bindX_def returnX_def setCompound_again)

text \<open>C13. Compound queries are operations on sets of rows, when no row is empty or has a NUL byte in its
  text: \<open>UNION\<close> gives every row of both sides exactly once, \<open>INTERSECT\<close> and \<open>EXCEPT\<close> give the rows of the
  left side that are, or are not, on the right, and \<open>UNION ALL\<close> puts the two lists together. The
  columns are those of the left side.\<close>

theorem compound_sets:
  assumes "selWith q = None" and "execPlain X (setCompound None q) x = (Inr l, x1)" and "execSelect X rhs x1 = (Inr r, x2)"
    and "\<And>row. row \<in> set (rsRows l) \<union> set (rsRows r) \<Longrightarrow> plain_row row"
  shows "let run = (\<lambda>op all. execSelect X (setCompound (Some (CompoundClause op all rhs)) q) x)
    in (\<exists>rows. run ''UNION'' False = (Inr (l\<lparr>rsRows := rows\<rparr>), x2) \<and>
          set rows = set (rsRows l) \<union> set (rsRows r) \<and> distinct rows) \<and>
       run ''UNION'' True = (Inr (l\<lparr>rsRows := rsRows l @ rsRows r\<rparr>), x2) \<and>
       run ''INTERSECT'' all = (Inr (l\<lparr>rsRows := filter (\<lambda>row. row \<in> set (rsRows r)) (rsRows l)\<rparr>), x2) \<and>
       run ''EXCEPT'' all = (Inr (l\<lparr>rsRows := filter (\<lambda>row. row \<notin> set (rsRows r)) (rsRows l)\<rparr>), x2)"
proof -
  note c = compoundRows_sets [of "rsRows l" "rsRows r", OF assms(4)]
  then have "\<exists>rows. l\<lparr>rsRows := compoundRows ''UNION'' False (rsRows l) (rsRows r)\<rparr> = l\<lparr>rsRows := rows\<rparr> \<and>
      set rows = set (rsRows l) \<union> set (rsRows r) \<and> distinct rows" by blast
  with c show ?thesis by (simp add: execSelect_compound [OF assms(1-3)] compound_words Let_def)
qed

text \<open>\<open>SELECT i\<close>\<close>

definition selectInt :: "64 word \<Rightarrow> SelectStmt" where
  "selectInt i = SelectStmt False [SelectColumn (Some (litE (LitInt i))) '''' False] [] [] None [] None [] None None None None"

lemma evalSelectWith_int:
  "evalSelectWith X sel (selectInt i) ctes x = (Inr ([[Some (IntValue i)]], [FormatInt i]), x)"
  by (simp add: evalSelectWith_def selectInt_def evalSelectNoFrom_def evalColumn_def valueX_def evalX_def litE_def
      literalValue_def bindX_def returnX_def call_defs columnName_def exprName_def Let_def)

lemma execPlain_int:
  "execPlain plainX (selectInt i) x = (Inr (tableOf [FormatInt i] [[FormatInt i]]), x)"
  by (simp add: execPlain_def eval_nat_numeral evalSelectWith_int bindX_def returnX_def ptrString_def value_String_def val_types)

lemma execSelect_int:
  "execSelect plainX (selectInt i) x = (Inr (tableOf [FormatInt i] [[FormatInt i]]), x)"
  using execPlain_int [of i x]
  by (subst execSelect.simps) (simp add: selectInt_def evalCTEs_def bindX_def returnX_def)

theorem compound_sets_witness:
  "\<exists>rows. fst (execSelect plainX (setCompound (Some (CompoundClause ''UNION'' False (selectInt 2))) (selectInt 1))
       (NewExecutor emptyCatalogue)) = Inr (tableOf [''1''] rows) \<and> set rows = {[''1''], [''2'']} \<and> distinct rows"
proof -
  have f: "FormatInt 1 = ''1''" "FormatInt 2 = ''2''" by code_simp+
  have s: "setCompound None (selectInt 1) = selectInt 1" "selWith (selectInt 1) = None" by (simp_all add: selectInt_def)
  have "plain_row row" if "row \<in> {[''1''], [''2'']}" for row using that by (auto simp: plain_row_def)
  then show ?thesis
    using compound_sets [OF s(2), of plainX "NewExecutor emptyCatalogue" _ _ "selectInt 2"] execPlain_int [of 1] execSelect_int [of 2]
    by (force simp: s(1) f tableOf_def emptyResult_def Let_def)
qed


section \<open>Ordering and grouping\<close>

text \<open>C14. \<open>ORDER BY\<close> over names of result columns: the sort gives a permutation of the rows in which no
  row is smaller than the one before it, where the keys decide one after the other, NULL comes
  first, and \<open>DESC\<close> turns a key around.\<close>

theorem order_by_sorts:
  assumes "\<And>r. r \<in> set rows \<Longrightarrow> keyed (xlib X) (resolveColumnNames X stmt schema) (selOrderBy stmt) r"
  shows "\<exists>out. sortRows X stmt rows schema tabs x = (Inr out, x) \<and> mset out = mset rows \<and>
    successively (\<lambda>r s. \<not> lessKeys (xlib X) (orderKeys (xlib X) (resolveColumnNames X stmt schema) (selOrderBy stmt)) s r) out"
  by (rule sortRows_sorts) (rule assms)

text \<open>\<open>SELECT * ... ORDER BY a DESC\<close>\<close>

definition selectDesc :: SelectStmt where
  "selectDesc = SelectStmt False [SelectColumn None '''' True] [TableRef ''t'' ''''] [] None [] None
     [OrderByExpr (IdentExpr '''' ''a'') True ''''] None None None None"

lemma fold_a: "EqualFold plainLib ''a'' ''a''"
  by code_simp

theorem order_by_sorts_witness:
  "\<forall>x. \<exists>out. sortRows plainX selectDesc [[Some (IntValue 1)], [Some NullValue], [Some (IntValue 2)]]
       (Some (fakeSchema ''t'' [''a''])) [] x = (Inr out, x) \<and>
     mset out = {# [Some (IntValue 1)], [Some NullValue], [Some (IntValue 2)] #} \<and>
     successively (\<lambda>r s. \<not> lessKeys plainLib (orderKeys plainLib (resolveColumnNames plainX selectDesc
       (Some (fakeSchema ''t'' [''a'']))) (selOrderBy selectDesc)) s r) out"
proof
  fix x
  have "keyed (xlib plainX) (resolveColumnNames plainX selectDesc (Some (fakeSchema ''t'' [''a'']))) (selOrderBy selectDesc) r"
    if "r \<in> set [[Some (IntValue 1)], [Some NullValue], [Some (IntValue 2)]]" for r
    using that fold_a
    by (auto simp: keyed_def selectDesc_def resolveColumnNames_def fakeSchema_def orderColumn_def upt_rec)
  from order_by_sorts [of "[[Some (IntValue 1)], [Some NullValue], [Some (IntValue 2)]]", OF this, of "[]" x]
  show "\<exists>out. sortRows plainX selectDesc [[Some (IntValue 1)], [Some NullValue], [Some (IntValue 2)]]
       (Some (fakeSchema ''t'' [''a''])) [] x = (Inr out, x) \<and>
     mset out = {# [Some (IntValue 1)], [Some NullValue], [Some (IntValue 2)] #} \<and>
     successively (\<lambda>r s. \<not> lessKeys plainLib (orderKeys plainLib (resolveColumnNames plainX selectDesc
       (Some (fakeSchema ''t'' [''a'']))) (selOrderBy selectDesc)) s r) out" by simp
qed

text \<open>A column of the rows at hand.\<close>

lemma column_value:
  assumes "ToUpper (xlib X) c \<noteq> ''ROWID''" and "ColumnIndex (xlib X) c schema = Some i" and "i < length r"
  shows "valueX (EvalExpr (xeEval X) (makeCtxForRow r (Some schema) (Some tabs)) (IdentExpr '''' c)) x = (Inr (r ! i), x)"
  using assms
  by (simp add: valueX_def evalX_def resolveIdent_def resolveColumn_def makeCtxForRow_def ptr_def giveV_def bindX_def returnX_def)

text \<open>C16. \<open>GROUP BY\<close> a column partitions the rows: every row is in exactly one group, the one of the text
  of its value, each group has the rows with this text in their order, and no group is empty. NULL
  and the word \<open>NULL\<close> have the same text, so they share a group.\<close>

theorem group_by_partition:
  assumes "ToUpper (xlib X) c \<noteq> ''ROWID''" and "ColumnIndex (xlib X) c schema = Some i"
    and "\<And>r. r \<in> set rows \<Longrightarrow> i < length r"
  shows "\<exists>gs. groupRows X [IdentExpr '''' c] rows (Some schema) tabs x = (Inr gs, x) \<and> distinct (map fst gs) \<and>
    (\<forall>g rs. (g, rs) \<in> set gs \<longleftrightarrow> rs = filter (\<lambda>r. ptrString (xlib X) (r ! i) = g) rows \<and> rs \<noteq> [])"
proof -
  let ?k = "\<lambda>r. ptrString (xlib X) (r ! i)" and ?gs = "groupsBy (\<lambda>r. ptrString (xlib X) (r ! i)) rows"
  have "groupKey X [IdentExpr '''' c] (makeCtxForRow r (Some schema) (Some tabs)) x = (Inr (?k r), x)" if "r \<in> set rows" for r
    using column_value [OF assms(1,2) assms(3) [OF that]] by (simp add: groupKey_def bindX_def returnX_def)
  then have g: "groupRows X [IdentExpr '''' c] rows (Some schema) tabs x = (Inr ?gs, x)" by (rule groupRows_groups)
  have p: "distinct (map fst ?gs)" "map_of ?gs = (\<lambda>g. if g \<in> ?k ` set rows then Some (filter (\<lambda>r. ?k r = g) rows) else None)"
    using groupsBy_props [of ?k rows] by simp_all
  have "(g, rs) \<in> set ?gs \<longleftrightarrow> rs = filter (\<lambda>r. ?k r = g) rows \<and> rs \<noteq> []" for g rs
  proof -
    have "(g, rs) \<in> set ?gs \<longleftrightarrow> map_of ?gs g = Some rs" using p(1) by simp
    also have "\<dots> \<longleftrightarrow> rs = filter (\<lambda>r. ?k r = g) rows \<and> g \<in> ?k ` set rows" using p(2) by auto
    also have "g \<in> ?k ` set rows \<longleftrightarrow> filter (\<lambda>r. ?k r = g) rows \<noteq> []" by (auto simp: filter_empty_conv)
    finally show ?thesis by auto
  qed
  with g p(1) show ?thesis by blast
qed

lemma upper_a: "ToUpper plainLib ''a'' = ''A''"
  by code_simp

lemma index_a: "ColumnIndex plainLib ''a'' (fakeSchema ''t'' [''a'']) = Some 0"
  using fold_a by (simp add: ColumnIndex_def fakeSchema_def upt_rec)

theorem group_by_partition_witness:
  "\<forall>x. \<exists>gs. groupRows plainX [IdentExpr '''' ''a''] [[Some NullValue], [Some (TextValue ''NULL'')]]
       (Some (fakeSchema ''t'' [''a''])) [] x = (Inr gs, x) \<and>
     (''NULL'', [[Some NullValue], [Some (TextValue ''NULL'')]]) \<in> set gs"
proof
  fix x
  let ?rows = "[[Some NullValue], [Some (TextValue ''NULL'')]]"
  have "\<exists>gs. groupRows plainX [IdentExpr '''' ''a''] ?rows (Some (fakeSchema ''t'' [''a''])) [] x = (Inr gs, x) \<and>
      distinct (map fst gs) \<and>
      (\<forall>g rs. (g, rs) \<in> set gs \<longleftrightarrow> rs = filter (\<lambda>r. ptrString (xlib plainX) (r ! 0) = g) ?rows \<and> rs \<noteq> [])"
    by (rule group_by_partition) (auto simp: upper_a index_a)
  then show "\<exists>gs. groupRows plainX [IdentExpr '''' ''a''] ?rows (Some (fakeSchema ''t'' [''a''])) [] x = (Inr gs, x) \<and>
     (''NULL'', ?rows) \<in> set gs"
    by (auto simp: ptrString_def value_String_def val_types)
qed


section \<open>Aggregate functions\<close>

text \<open>\<open>SELECT f(c) FROM t\<close>\<close>

definition selectAggregate :: "string \<Rightarrow> string \<Rightarrow> string \<Rightarrow> SelectStmt" where
  "selectAggregate f c t = SelectStmt False [SelectColumn (Some (FuncCallExpr f [IdentExpr '''' c] False False)) '''' False]
     [TableRef t ''''] [] None [] None [] None None None None"

lemma aggregate_words:
  "ToUpper G ''COUNT'' = ''COUNT''" "ToUpper G ''SUM'' = ''SUM''" "ToUpper G ''MIN'' = ''MIN''" "ToUpper G ''MAX'' = ''MAX''"
  by (simp_all add: ToUpper_ascii is_ascii_def upper_char_def)

lemma aggregate_column:
  assumes "ToUpper (xlib X) f = f" and "f \<in> set aggregateNames"
    and "ToUpper (xlib X) c \<noteq> ''ROWID''" and "ColumnIndex (xlib X) c schema = Some i"
    and "\<And>r. r \<in> set rows \<Longrightarrow> i < length r"
  shows "evalAggregate X (selectAggregate f c t) rows (Some schema) tabs x =
    (Inr [[Some (aggregateOf (xlib X) f (map (\<lambda>r. r ! i) rows))]], x)"
proof -
  let ?col = "SelectColumn (Some (FuncCallExpr f [IdentExpr '''' c] False False)) '''' False"
  let ?ctx = "\<lambda>r. makeCtxForRow r (Some schema) (Some tabs)"
  have "stepAgg X (?ctx r) (?col, Some a) x = (Inr (Some (accumulate (xlib X) (r ! i) a)), x)" if "i < length r" for r a
    using column_value [OF assms(3,4) that] by (simp add: stepAgg_def bindX_def returnX_def)
  then have "foldX (\<lambda>r aggs. mapX (stepAgg X (?ctx r)) (zip [?col] aggs)) rs [Some a] x =
      (Inr [Some (fold (accumulate (xlib X)) (map (\<lambda>r. r ! i) rs) a)], x)" if "set rs \<subseteq> set rows" for rs a
    using that assms(5) by (induction rs arbitrary: a) (simp_all add: bindX_def returnX_def)
  from this [of rows "newAgg f"] show ?thesis using assms(1,2)
    by (simp add: evalAggregate_def selectAggregate_def startAgg_def columnAggregate_def finishAgg_def aggregateOf_def
        newAgg_def bindX_def returnX_def Let_def)
qed

text \<open>C15. The aggregates of a column of integers and NULLs are the aggregates of its integers: \<open>COUNT\<close> is
  their number, \<open>SUM\<close> their sum in 64-bit arithmetic, \<open>MIN\<close> and \<open>MAX\<close> are among them and bound
  them all; over no integer at all \<open>COUNT\<close> is 0 and the others are NULL.\<close>

theorem integer_aggregates:
  assumes "ToUpper (xlib X) c \<noteq> ''ROWID''" and "ColumnIndex (xlib X) c schema = Some i"
    and "\<And>r. r \<in> set rows \<Longrightarrow> i < length r" and "length rows < 2 ^ 64"
    and "given (map (\<lambda>r. r ! i) rows) = map IntValue is"
  shows "let agg = (\<lambda>f. evalAggregate X (selectAggregate f c t) rows (Some schema) tabs x); one = (\<lambda>v. (Inr [[Some v]], x))
    in agg ''COUNT'' = one (IntValue (of_nat (length is))) \<and>
       agg ''SUM'' = one (if is = [] then NullValue else IntValue (sum_list is)) \<and>
       (if is = [] then agg ''MIN'' = one NullValue \<and> agg ''MAX'' = one NullValue
        else \<exists>l \<in> set is. \<exists>h \<in> set is. agg ''MIN'' = one (IntValue l) \<and> agg ''MAX'' = one (IntValue h) \<and>
          (\<forall>k \<in> set is. l \<le>s k \<and> k \<le>s h))"
proof -
  let ?ps = "map (\<lambda>r. r ! i) rows" and ?A = "\<lambda>f. aggregateOf (xlib X) f (map (\<lambda>r. r ! i) rows)"
  have agg: "evalAggregate X (selectAggregate f c t) rows (Some schema) tabs x = (Inr [[Some (?A f)]], x)"
    if "f \<in> {''COUNT'', ''SUM'', ''MIN'', ''MAX''}" for f
  proof (rule aggregate_column)
    show "ToUpper (xlib X) f = f" "f \<in> set aggregateNames"
      using that by (auto simp: aggregate_words aggregateNames_def)
  qed (rule assms)+
  have "length is \<le> length rows"
    using arg_cong [OF assms(5), of length] length_filter_le [of "\<lambda>p. \<not> isNil p" ?ps] by (simp add: given_def)
  then have l: "length is < 2 ^ 64" using assms(4) by linarith
  have n: "is \<noteq> [] \<Longrightarrow> (of_nat (length is) :: 64 word) \<noteq> 0"     using l nat_dvd_not_less [of "length is" "2 ^ 64"] by (simp add: word_of_nat_eq_0_iff)
  have s: "?A ''SUM'' = (if is = [] then NullValue else IntValue (sum_list is))"
  proof -
    have "\<exists>k. v = IntValue k" if "v \<in> set (given ?ps)" for v using that assms(5) by auto
    from sum_result [OF this, of ?ps "xlib X"] n show ?thesis by (auto simp: assms(5) comp_def)
  qed
  have c: "?A ''COUNT'' = IntValue (of_nat (length is))" by (simp add: count_result assms(5))
  have cmp: "value_Compare (xlib X) (IntValue a) (IntValue b) \<le> 0 \<longleftrightarrow> a \<le>s b" for a b
    by (simp add: value_Compare_def val_types word_sle_eq word_sless_alt)
  have kind: "same_kind v w" if "v \<in> IntValue ` set is" "w \<in> IntValue ` set is" for v w
    using that by (auto simp: same_kind_def val_types)
  show ?thesis
  proof (cases "is = []")
    case True
    then have "given ?ps = []" using assms(5) by simp
    then have "?A ''MIN'' = NullValue" "?A ''MAX'' = NullValue"
      by (simp_all add: aggregateOf_def accumulate_given result_def newAgg_def orNull_def Let_def)
    then show ?thesis using agg s c True by simp
  next
    case False
    then have ne: "given ?ps \<noteq> []" and g: "set (given ?ps) = IntValue ` set is" using assms(5) by simp_all
    note mn = min_result [OF ne kind [folded g], of "xlib X"] and mx = max_result [OF ne kind [folded g], of "xlib X"]
    obtain l where l: "l \<in> set is" "?A ''MIN'' = IntValue l" "\<forall>k \<in> set is. l \<le>s k"
      using mn unfolding g by (auto simp: cmp)
    obtain h where h: "h \<in> set is" "?A ''MAX'' = IntValue h" "\<forall>k \<in> set is. k \<le>s h"
      using mx unfolding g by (auto simp: cmp)
    have "\<exists>l' \<in> set is. \<exists>h' \<in> set is. ?A ''MIN'' = IntValue l' \<and> ?A ''MAX'' = IntValue h' \<and> (\<forall>k \<in> set is. l' \<le>s k \<and> k \<le>s h')"
      using l h by blast
    then show ?thesis using agg s c False by simp
  qed
qed

theorem integer_aggregates_witness:
  "\<forall>x. evalAggregate plainX (selectAggregate ''SUM'' ''a'' ''t'') [[Some (IntValue 5)], [Some NullValue], [Some (IntValue 2)]]
     (Some (fakeSchema ''t'' [''a''])) [] x = (Inr [[Some (IntValue 7)]], x)"
proof
  fix x
  let ?rows = "[[Some (IntValue 5)], [Some NullValue], [Some (IntValue 2)]]"
  have "\<And>r. r \<in> set ?rows \<Longrightarrow> 0 < length r" "given (map (\<lambda>r. r ! 0) ?rows) = map IntValue [5, 2]"
    by (auto simp: given_def isNil_def isNull_def val_types)
  from integer_aggregates [OF _ _ this(1) _ this(2), of plainX "''a''" "fakeSchema ''t'' [''a'']" "''t''" "[]" x]
  show "evalAggregate plainX (selectAggregate ''SUM'' ''a'' ''t'') ?rows (Some (fakeSchema ''t'' [''a''])) [] x =
      (Inr [[Some (IntValue 7)]], x)"
    by (simp add: upper_a index_a Let_def)
qed


section \<open>Names, views and stored tables\<close>

text \<open>C32. \<open>SELECT t.c FROM name t\<close> does not give the column of each row: the loop over the rows of a table
  binds its name again for every row before any is projected, so every row of the result has the
  value of the last row.\<close>

theorem qualified_name_last_row:
  assumes "getTableRows X sel name ctes x = (Inr (rs, schema), x')" and "rs \<noteq> []"
    and "t \<noteq> ''''" and "ToLower (xlib X) t = ToLower (xlib X) (if ali = '''' then name else ali)"
    and "ColumnIndex (xlib X) c schema = Some i" and "i < length (fst (last rs))" and "fst (last rs) ! i = Some v"
  shows "evalSelectWith X sel (selectQualified t c name ali) ctes x = (Inr (replicate (length rs) [Some v], [c]), x')"
  using evalSelect_column [OF assms] by (simp add: map_replicate_const)

theorem qualified_name_last_row_witness:
  "\<forall>sel x. evalSelectWith plainX sel (selectQualified ''t'' ''a'' ''t'' '''')
     [(''t'', [''a''], [[Some (IntValue 1)], [Some (IntValue 2)]])] x =
     (Inr ([[Some (IntValue 2)], [Some (IntValue 2)]], [''a'']), x)"
proof (intro allI)
  fix sel x
  let ?ctes = "[(''t'', [''a''], [[Some (IntValue 1)], [Some (IntValue 2)]])]"
  have t: "ToLower plainLib ''t'' = ''t''" by code_simp
  have "getTableRows plainX sel ''t'' ?ctes x =
      (Inr (numbered [[Some (IntValue 1)], [Some (IntValue 2)]], fakeSchema ''t'' [''a'']), x)"
    by (simp add: getTableRows_def t returnX_def)
  from qualified_name_last_row [OF this, of "''t''" "''''" "''a''" 0 "IntValue 2"]
  show "evalSelectWith plainX sel (selectQualified ''t'' ''a'' ''t'' '''') ?ctes x =
      (Inr ([[Some (IntValue 2)], [Some (IntValue 2)]], [''a'']), x)"
    by (simp add: numbered_def index_a upt_rec numeral_2_eq_2)
qed

lemma selectOne_int: "selectOne = selectInt 1"
  by (simp add: selectOne_def selectInt_def)

text \<open>C33. A view forgets its query: after a \<open>CREATE VIEW\<close> that succeeds for a new name, the rows of the view
  are the one row of \<open>SELECT 1\<close>, whatever the query was.\<close>

theorem view_is_constant:
  assumes "GetView (xeEnv X) (cvName stmt) (te_schema (xTable x)) = None" and "cvSelect stmt = Some q"
    and "execCreateView X stmt x = (Inr res, x')" and "ctes = []"
  shows "getTableRows X (evalSelect X (Suc n)) (cvName stmt) ctes x' =
    (Inr ([([Some (IntValue 1)], 1)], fakeSchema (cvName stmt) [''1'']), x')"
proof -
  let ?E = "xeEnv X" and ?v = "\<lparr>vName = cvName stmt, SQL = ''SELECT 1''\<rparr>"
  have "execCreateView X stmt x = done_with (onCatalogue (CreateView ?E ?v)) x"
    using assms(1,2) by (simp add: execCreateView_def creating_def lookupX_def bindX_def sqlForView_def)
  with assms(3) obtain s where s: "CreateView ?E ?v (te_schema (xTable x)) = (Inr (), s)" "te_schema (xTable x') = s"
    by (auto simp: done_with_def bindX_def returnX_def onCatalogue_def onTable_def onSchema_def split: prod.splits sum.splits)
  have "map_of (views (te_schema (xTable x))) (ToLower (lib ?E) (cvName stmt)) = None"
    using assms(1) by (simp add: GetView_def)
  then have "GetView ?E (cvName stmt) s = Some ?v"
    using s(1)
    by (auto simp: CreateView_def GetView_def bindS_def modifyS_def update_conv' Let_def split: prod.splits sum.splits)
  then show ?thesis
    by (simp add: assms(4) getTableRows_def bindX_def lookupX_def s(2) Parse_select_one selectOne_int evalSelectWith_int
        returnX_def numbered_def) (code_simp)
qed

theorem view_is_constant_witness:
  "\<exists>x'. execCreateView plainX \<lparr>cvName = ''v'', cvTemp = False, cvIfNotExists = False, cvSelect = Some (selectInt 5)\<rparr> (NewExecutor emptyCatalogue)
      = (Inr emptyResult, x') \<and>
     getTableRows plainX (evalSelect plainX (Suc 0)) ''v'' [] x' = (Inr ([([Some (IntValue 1)], 1)], fakeSchema ''v'' [''1'']), x')"
proof -
  let ?stmt = "\<lparr>cvName = ''v'', cvTemp = False, cvIfNotExists = False, cvSelect = Some (selectInt 5)\<rparr>" and ?x = "NewExecutor emptyCatalogue"
  let ?v = "\<lparr>vName = ''v'', SQL = ''SELECT 1''\<rparr>"
  have v: "ToLower plainLib ''v'' = ''v''" by code_simp
  have none: "GetView (xeEnv plainX) (cvName ?stmt) (te_schema (xTable ?x)) = None"
    by (simp add: GetView_def NewExecutor_def NewTableEngine_def emptyCatalogue_def)
  have "fits (sm_pager emptyCatalogue) (TLeaf 1 []) (viewKey ''v'') (marshalView plainEnv ?v)"
    using newDB_fits by (simp add: emptyCatalogue_def viewKey_def plainEnv_def)
  from schemaInsert_ok [OF emptyCatalogue_ok(1) this] obtain p where
    p: "schemaInsert plainEnv (viewKey ''v'') (marshalView plainEnv ?v) emptyCatalogue = (Inr (), emptyCatalogue\<lparr>sm_pager := p\<rparr>)"
    by metis
  obtain x' where x': "execCreateView plainX ?stmt ?x = (Inr emptyResult, x')"
    using p none
    by (simp add: execCreateView_def creating_def lookupX_def bindX_def sqlForView_def done_with_def returnX_def onCatalogue_def
        onTable_def onSchema_def CreateView_def NewExecutor_def NewTableEngine_def bindS_def modifyS_def plain_lib v
        emptyCatalogue_def Let_def)
  from view_is_constant [OF none _ x', of "selectInt 5" "[]" 0] x' show ?thesis by simp
qed

text \<open>C4. \<open>SELECT * FROM name\<close> over a stored table, without a view of its name. When no leaf of its
  tree is empty (or the tree is one leaf), the keys have eight bytes and the rows decode, the result has
  the columns of the table and the texts of all rows of its tree from left to right, each once. When the
  first leaf is empty, as after the deletion of its rows, the result has the columns and no row, whatever
  the other leaves hold.\<close>

theorem select_star_rows:
  assumes "GetTable (xeEnv X) name s = Some ts" and "GetView (xeEnv X) name s = None" and "s = te_schema (xTable x)"
    and "tree_in (treeFuel (xeEnv X)) tr (sm_pager s)" and "tree_id tr = tRootPage ts"
    and "length (items tr) < scanFuel X" and "viewFuel X = Suc n"
  shows "((full tr \<or> (\<exists>i. tr = TLeaf i [])) \<and>
      (\<forall>(k, d) \<in> set (items tr). 8 \<le> length k \<and> (\<exists>row. DecodeRow d = Inr row)) \<longrightarrow>
      fst (execSelect X (selectStar name) x) =
        Inr (tableOf (map cName (Columns ts)) (map (map (value_String (xlib X))) (map snd (leafRows ts tr))))) \<and>
    (starts_empty tr \<longrightarrow> fst (execSelect X (selectStar name) x) = Inr (tableOf (map cName (Columns ts)) []))"
proof (intro conjI impI; (elim conjE)?)
  note t = assms(1) [unfolded assms(3)] assms(4) [unfolded assms(3)] assms(5)
  note star = select_star [OF assms(1-3) _ assms(7)]
  {
    assume "full tr \<or> (\<exists>i. tr = TLeaf i [])" and "\<forall>(k, d) \<in> set (items tr). 8 \<le> length k \<and> (\<exists>row. DecodeRow d = Inr row)"
    from Scan_ok [OF t this(1) assms(6) this(2), folded leafRows_def] obtain p where
      "Scan (xeEnv X) (scanFuel X) name (xTable x) = (Inr (leafRows ts tr), (xTable x)\<lparr>te_schema := s\<lparr>sm_pager := p\<rparr>\<rparr>)"
      unfolding assms(3) by blast
    from star [OF this] show "fst (execSelect X (selectStar name) x) =
      Inr (tableOf (map cName (Columns ts)) (map (map (value_String (xlib X))) (map snd (leafRows ts tr))))" .
  next
    assume "starts_empty tr"
    from Scan_starts_empty(1) [OF t this, of "scanFuel X"] assms(6) obtain p where
      "Scan (xeEnv X) (scanFuel X) name (xTable x) = (Inr [], (xTable x)\<lparr>te_schema := s\<lparr>sm_pager := p\<rparr>\<rparr>)"
      unfolding assms(3) by auto
    from star [OF this] show "fst (execSelect X (selectStar name) x) = Inr (tableOf (map cName (Columns ts)) [])" by simp
  }
qed

theorem select_star_rows_witness:
  "fst (execSelect plainX (selectStar ''Users'') (NewExecutor (te_schema shop))) = Inr (tableOf [''id'', ''name''] [[''1'', ''ann'']])"
proof -
  have e: "te_schema (xTable (NewExecutor (te_schema shop))) = te_schema shop"
    by (simp add: NewExecutor_def NewTableEngine_def)
  have g: "GetTable (xeEnv plainX) ''Users'' (te_schema shop) = Some shopTable" using shop_table_in by (simp add: table_in_def)
  have v: "GetView (xeEnv plainX) ''Users'' (te_schema shop) = None"
    by (simp add: GetView_def shop_def NewTableEngine_def)
  have t: "tree_in (treeFuel (xeEnv plainX)) rowTree (sm_pager (te_schema shop))"
    using shop_trees(2) by (simp add: plainEnv_def shop_def NewTableEngine_def)
  have "extendRow shopTable annRow = annRow" by (simp add: extendRow_def shopTable_def usersTable_def)
  moreover have "FormatInt 1 = ''1''" by code_simp
  moreover have "map cName (Columns shopTable) = [''id'', ''name'']" by (simp add: shopTable_def usersTable_def)
  ultimately show ?thesis
    using select_star_rows [OF g v e [symmetric] t, of 1] ann_row(1)
    by (simp add: shop_table leafRows_def rowKey_def be64_def value_String_def val_types)
qed

end
