(* ===== verification/ConnectorProps.thy ===== *)
theory ConnectorProps
  imports Command QueryProps
begin

text \<open>
  The properties of authorization, server, client and command: what a credential accepts, that the two
  sides of the handshake agree, what a server that needs a credential does for a client without one,
  its lock, the retries of the client, and the paths it opens.
\<close>

section \<open>Credentials\<close>

lemma sha256Hex_eq: "sha256Hex a = sha256Hex b \<longleftrightarrow> Sum256 (str_bytes a) = Sum256 (str_bytes b)"
  by (simp add: sha256Hex_def hexText_inj)

text \<open>What a credential accepts. One that was made for a password accepts exactly the requests whose
  salted password has the same SHA-256 digest, its own password among them; one that was made for
  tokens accepts exactly the requests whose token has the digest of one of them; the mode \<open>none\<close>
  accepts every request, and a mode the code does not know none.\<close>

theorem credential_accepts:
  "(NewPasswordCredential rnd n pw = Inr cred \<longrightarrow>
      (Check cred req \<longleftrightarrow> Sum256 (str_bytes (Salt cred @ '':'' @ hrPassword req)) = Sum256 (str_bytes (Salt cred @ '':'' @ pw))) \<and>
      Check cred (req\<lparr>hrPassword := pw\<rparr>)) \<and>
   (Check (NewTokenCredential ts) req \<longleftrightarrow> (\<exists>t \<in> set ts. Sum256 (str_bytes (hrToken req)) = Sum256 (str_bytes t))) \<and>
   Check noCredential req \<and>
   (crMode c \<notin> {ModeNone, ModePassword, ModeToken} \<longrightarrow> \<not> Check c req)"
  by (auto simp: NewPasswordCredential_def bindE_eq_Inr Check_def CheckPassword_def HashPassword_def NewTokenCredential_def
      CheckToken_def list_ex_iff noCredential_def ModeNone_def ModePassword_def ModeToken_def sha256Hex_eq)

theorem credential_accepts_witness:
  "\<exists>cred. NewPasswordCredential (\<lambda>_ n. Some (replicate n 7)) 0 ''secret'' = Inr cred \<and>
     Check cred \<lparr>hrVersion = 1, hrPassword = ''secret'', hrToken = ''''\<rparr> \<and>
     \<not> Check (cred\<lparr>crMode := ''other''\<rparr>) \<lparr>hrVersion = 1, hrPassword = ''secret'', hrToken = ''''\<rparr>"
proof -
  let ?req = "\<lparr>hrVersion = 1, hrPassword = ''secret'', hrToken = ''''\<rparr>"
  obtain cred where c: "NewPasswordCredential (\<lambda>_ n. Some (replicate n 7)) 0 ''secret'' = Inr cred"
    by (simp add: NewPasswordCredential_def GenerateSalt_def randomHex_def)
  have "crMode (cred\<lparr>crMode := ''other''\<rparr>) \<notin> {ModeNone, ModePassword, ModeToken}"
    by (simp add: ModeNone_def ModePassword_def ModeToken_def)
  then show ?thesis
    using c credential_accepts [of "\<lambda>_ n. Some (replicate n 7)" 0 "''secret''" cred ?req "[]" "cred\<lparr>crMode := ''other''\<rparr>"]
    by auto
qed

section \<open>The two sides of the handshake\<close>

text \<open>What a client talks to: the lines that wait for it, and the result of the server once it has one.\<close>

definition serverEnd :: "authWire \<Rightarrow> Credential \<Rightarrow> (string list \<times> unit res option) link" where
  "serverEnd J cred = \<lparr>
     lSend = (\<lambda>line (out, verdict).
        case ServerHandshake J scriptLink cred \<lparr>scLines = [line], scSends = [], scSent = []\<rparr> of
          (r, w) \<Rightarrow> (True, out @ tl (scSent w), Some r)),
     lScan = (\<lambda>(out, verdict). case out of [] \<Rightarrow> (None, out, verdict) | line # ls \<Rightarrow> (Some line, ls, verdict))\<rparr>"

definition greeting :: "authWire \<Rightarrow> Credential \<Rightarrow> string" where
  "greeting J cred = encChallenge J protoVersion (crMode cred) (crMode cred \<noteq> ModeNone)"

text \<open>What is left of a string after \<open>encoding/json\<close> has written it and read it again: a byte that is not
  part of a UTF-8 character has become U+FFFD, as the package documents. Valid UTF-8 stays as it is.\<close>

definition jsonText :: "string \<Rightarrow> string" where
  "jsonText s = utf8s (runes s)"

lemma jsonText_valid [simp]: "jsonText (utf8s rs) = utf8s rs"
  unfolding jsonText_def runes_utf8s by (simp add: utf8s_def comp_def utf8_as_valid)

lemma jsonText_Cons [simp]: "(of_char c :: nat) < 128 \<Longrightarrow> jsonText (c # s) = c # jsonText s"
  by (simp add: jsonText_def firstRune_def utf8s_def utf8_def Let_def)

lemma jsonText_Nil [simp]: "jsonText [] = []"
  by (simp add: jsonText_def utf8s_def)

lemma jsonText_jsonText [simp]: "jsonText (jsonText s) = jsonText s"
  by (simp add: jsonText_def runes_runes)

definition jsonReq :: "HandshakeReq \<Rightarrow> HandshakeReq" where
  "jsonReq r = r\<lparr>hrPassword := jsonText (hrPassword r), hrToken := jsonText (hrToken r)\<rparr>"

definition wire_ok :: "authWire \<Rightarrow> bool" where
  "wire_ok J \<longleftrightarrow> (\<forall>v m b. decChallenge J (encChallenge J v m b) = Some b) \<and> (\<forall>r. decReq J (encReq J r) = Some (jsonReq r)) \<and>
     (\<forall>r. decResp J (encResp J r) = Some (r\<lparr>hpMessage := jsonText (hpMessage r)\<rparr>))"

text \<open>C21. The two sides of the handshake agree, when every line arrives and JSON gives back what was
  encoded up to the bytes that are no UTF-8, which become U+FFFD: a client with a password and a token gets
  through exactly when the credential accepts them as JSON gives them to the server (for valid UTF-8:
  unchanged), and then the server accepts the connection too; otherwise both sides report the failure.
  With the mode \<open>none\<close> both are done after the first message.\<close>

theorem handshake_agrees:
  assumes "wire_ok J"
  shows "let req = jsonReq \<lparr>hrVersion = protoVersion, hrPassword = pw, hrToken = tok\<rparr>;
             (r, out, verdict) = ClientHandshake J (serverEnd J cred) pw tok ([greeting J cred], None)
    in out = [] \<and>
       (if crMode cred = ModeNone then r = Inr () \<and> verdict = None \<and>
          fst (ServerHandshake J scriptLink cred \<lparr>scLines = [], scSends = [], scSent = []\<rparr>) = Inr ()
        else if Check cred req then r = Inr () \<and> verdict = Some (Inr ())
        else r = Inl (ErrAuth ''authentication failed'') \<and> verdict = Some (Inl (ErrAuth ''authentication failed'')))"
proof -
  let ?req = "\<lparr>hrVersion = protoVersion, hrPassword = pw, hrToken = tok\<rparr>"
  have w: "decChallenge J (encChallenge J v m b) = Some b" "decReq J (encReq J q) = Some (jsonReq q)"
    "decResp J (encResp J p) = Some (p\<lparr>hpMessage := jsonText (hpMessage p)\<rparr>)"
    for v m b q p using assms by (simp_all add: wire_ok_def)
  have m: "jsonText ''authentication failed'' = ''authentication failed''" by simp
  have s: "ServerHandshake J scriptLink cred \<lparr>scLines = [encReq J ?req], scSends = [], scSent = []\<rparr> =
      (if Check cred (jsonReq ?req) then (Inr (), \<lparr>scLines = [], scSends = [], scSent = [greeting J cred,
          encResp J \<lparr>hpOK = True, hpMessage = ''authenticated''\<rparr>]\<rparr>)
       else (Inl (ErrAuth ''authentication failed''), \<lparr>scLines = [], scSends = [], scSent = [greeting J cred,
          encResp J \<lparr>hpOK = False, hpMessage = ''authentication failed''\<rparr>]\<rparr>))" if "crMode cred \<noteq> ModeNone"
    using that by (simp add: ServerHandshake_def scriptLink_def sendAuthResp_def w greeting_def)
  show ?thesis
  proof (cases "crMode cred = ModeNone")
    case True
    then show ?thesis
      by (simp add: ClientHandshake_def serverEnd_def greeting_def w ServerHandshake_def scriptLink_def)
  next
    case False
    then show ?thesis using s [OF False]
      by (simp add: ClientHandshake_def serverEnd_def greeting_def w m)
  qed
qed


text \<open>Encodings that can be read back.\<close>

definition flagged :: "nat \<Rightarrow> string \<Rightarrow> string" where
  "flagged n s = replicate n CHR ''1'' @ CHR ''0'' # s"

definition unflag :: "string \<Rightarrow> nat \<times> string" where
  "unflag s = (let n = length (takeWhile (\<lambda>c. c = CHR ''1'') s) in (n, drop (n + 1) s))"

lemma unflag_flagged [simp]: "unflag (flagged n s) = (n, s)"
proof -
  have "takeWhile (\<lambda>c. c = CHR ''1'') (replicate n CHR ''1'' @ CHR ''0'' # s) = replicate n CHR ''1''" by (induction n) simp_all
  then show ?thesis by (simp add: unflag_def flagged_def Let_def)
qed

definition plainWire :: authWire where
  "plainWire = \<lparr>encChallenge = (\<lambda>v m b. flagged (of_bool b) m), decChallenge = (\<lambda>s. Some (fst (unflag s) = 1)),
     encReq = (\<lambda>r. case (jsonText (hrPassword r), jsonText (hrToken r)) of (p, t) \<Rightarrow>
       flagged (unat (hrVersion r)) (flagged (length p) (p @ t))),
     decReq = (\<lambda>s. case unflag s of (v, s) \<Rightarrow> case unflag s of (n, s) \<Rightarrow>
       Some \<lparr>hrVersion = of_nat v, hrPassword = take n s, hrToken = drop n s\<rparr>),
     encResp = (\<lambda>r. flagged (of_bool (hpOK r)) (jsonText (hpMessage r))),
     decResp = (\<lambda>s. case unflag s of (n, s) \<Rightarrow> Some \<lparr>hpOK = (n = 1), hpMessage = s\<rparr>),
     encCred = (\<lambda>c. crMode c), decCred = (\<lambda>s. Some \<lparr>crMode = s, PasswordHash = '''', Salt = '''', Tokens = []\<rparr>)\<rparr>"

lemma plainWire_ok: "wire_ok plainWire"
  by (simp add: wire_ok_def plainWire_def jsonReq_def)

theorem handshake_agrees_witness:
  "\<forall>pw. fst (ClientHandshake plainWire (serverEnd plainWire (NewTokenCredential [''t''])) pw ''t''
      ([greeting plainWire (NewTokenCredential [''t''])], None)) = Inr () \<and>
    fst (ClientHandshake plainWire (serverEnd plainWire (NewTokenCredential [])) pw ''t''
      ([greeting plainWire (NewTokenCredential [])], None)) = Inl (ErrAuth ''authentication failed'')"
proof
  fix pw
  have m: "crMode (NewTokenCredential ts) \<noteq> ModeNone" for ts
    by (simp add: NewTokenCredential_def ModeNone_def ModeToken_def)
  have "jsonText ''t'' = ''t''" by simp
  then have c: "Check (NewTokenCredential [''t'']) (jsonReq \<lparr>hrVersion = protoVersion, hrPassword = pw, hrToken = ''t''\<rparr>)"
    "\<not> Check (NewTokenCredential []) (jsonReq \<lparr>hrVersion = protoVersion, hrPassword = pw, hrToken = ''t''\<rparr>)"
    by (simp_all add: jsonReq_def Check_def CheckToken_def NewTokenCredential_def ModeNone_def ModePassword_def ModeToken_def)
  show "fst (ClientHandshake plainWire (serverEnd plainWire (NewTokenCredential [''t''])) pw ''t''
      ([greeting plainWire (NewTokenCredential [''t''])], None)) = Inr () \<and>
    fst (ClientHandshake plainWire (serverEnd plainWire (NewTokenCredential [])) pw ''t''
      ([greeting plainWire (NewTokenCredential [])], None)) = Inl (ErrAuth ''authentication failed'')"
    using handshake_agrees [OF plainWire_ok, of pw "''t''" "NewTokenCredential [''t'']"]
      handshake_agrees [OF plainWire_ok, of pw "''t''" "NewTokenCredential []"] m c
    by (auto simp: Let_def split: prod.splits)
qed

section \<open>The server\<close>

text \<open>The connections that are past the handshake.\<close>

fun executorOf :: "phase \<Rightarrow> Executor option" where
  "executorOf Greeting = None"
| "executorOf (Serving x) = Some x"
| "executorOf (Waiting x _ _) = Some x"
| "executorOf (Running x _ _ _) = Some x"

definition holdsLock :: "phase option \<Rightarrow> bool" where
  "holdsLock ph = (case ph of Some (Running _ _ _ True) \<Rightarrow> True | _ \<Rightarrow> False)"

definition server_inv :: "Server \<Rightarrow> bool" where
  "server_inv s \<longleftrightarrow> finite (dom (svConns s)) \<and> connCount s = of_nat (card (dom (svConns s))) \<and>
     card (dom (svConns s)) \<le> 512 \<and> (\<forall>c. svWriter s = Some c \<longleftrightarrow> holdsLock (svConns s c)) \<and>
     (\<forall>c ph x. svConns s c = Some ph \<longrightarrow> executorOf ph = Some x \<longrightarrow> exec_inv x)"

lemma exec_inv_Execute: "exec_inv x \<Longrightarrow> exec_inv (snd (Execute X sql x))"
proof -
  have "exec_inv (snd (runAll X ss acc x))" if "exec_inv x" for ss acc x
    using that
  proof (induction ss arbitrary: acc x)
    case (Cons s ss)
    have r: "exec_inv (snd (execStatement X s x))" using Cons.prems by (rule exec_inv_statement)
    then show ?case
    proof (cases "execStatement X s x")
      case (Pair res x')
      then show ?thesis using r Cons.IH [of x'] by (cases res) (simp_all add: bindX_def)
    qed
  qed (simp add: returnX_def)
  then show "exec_inv x \<Longrightarrow> exec_inv (snd (Execute X sql x))"
    by (auto simp: Execute_def failX_def split: sum.split)
qed

lemma exec_inv_shared: "exec_inv (onShared m x) \<longleftrightarrow> exec_inv x"
  by (simp add: exec_inv_def onShared_def split: option.split)

lemma exec_inv_new: "exec_inv (NewExecutor m)"
  by (simp add: exec_inv_def NewExecutor_def)

lemma small_sint: "n \<le> 1000 \<Longrightarrow> sint (of_nat n :: 64 word) = int n"
  by (simp add: signed_of_nat signed_take_bit_int_eq_self)

text \<open>A change of one connection.\<close>

lemma server_inv_set:
  assumes "server_inv s" and "svConns s c = Some ph" and "\<And>x. executorOf ph' = Some x \<Longrightarrow> exec_inv x"
    and "svConns s' = (svConns s)(c \<mapsto> ph')" and "connCount s' = connCount s"
    and "svWriter s' = (if holdsLock (Some ph') then Some c else if svWriter s = Some c then None else svWriter s)"
    and "holdsLock (Some ph') \<Longrightarrow> svWriter s = None \<or> svWriter s = Some c"
  shows "server_inv s'"
proof -
  have d: "dom (svConns s') = dom (svConns s)" using assms(2,4) by auto
  have w: "svWriter s = Some k \<longleftrightarrow> holdsLock (svConns s k)" for k using assms(1) by (simp add: server_inv_def)
  have "svWriter s' = Some k \<longleftrightarrow> holdsLock (svConns s' k)" for k
    using assms(4,6,7) w [of k] w [of c] by (cases "k = c") auto
  with assms d show ?thesis unfolding server_inv_def by auto
qed

lemma server_inv_close:
  assumes "server_inv s" and "svConns s c = Some ph" and "\<not> holdsLock (Some ph)"
  shows "server_inv (closeConn c s)"
proof -
  have n: "connCount s = of_nat (card (dom (svConns s)))" "finite (dom (svConns s))"
    using assms(1) by (simp_all add: server_inv_def)
  have w: "svWriter s = Some k \<longleftrightarrow> holdsLock (svConns s k)" for k using assms(1) by (simp add: server_inv_def)
  have "c \<in> dom (svConns s)" using assms(2) by auto
  then have "card (dom (svConns s)) = Suc (card (dom (svConns s) - {c}))" using n(2) by (metis card.remove)
  moreover have "svWriter s = Some k \<longleftrightarrow> holdsLock (((svConns s)(c := None)) k)" for k
    using w [of k] assms(2,3) by (auto simp: holdsLock_def)
  ultimately show ?thesis using assms(1) n
    by (auto simp: closeConn_def setConn_def server_inv_def)
qed

lemma server_inv_new: "server_inv (NewServer m cred)"
  by (simp add: server_inv_def NewServer_def holdsLock_def)

lemma server_inv_accept:
  assumes "server_inv s" and "svConns s c = None"
  shows "server_inv (acceptConn c s)"
proof (cases "maxIdleConns <s connCount s + 1")
  case True
  then show ?thesis using assms(1) by (simp add: acceptConn_def)
next
  case False
  let ?n = "card (dom (svConns s))"
  have n: "connCount s = of_nat ?n" "?n \<le> 512" "finite (dom (svConns s))"
    using assms(1) by (simp_all add: server_inv_def)
  then have e: "connCount s + 1 = of_nat (Suc ?n)" by simp
  have "sint (of_nat (Suc ?n) :: 64 word) = int (Suc ?n)" using n(2) by (intro small_sint) simp
  moreover have "\<not> sint (512 :: 64 word) < sint (of_nat (Suc ?n) :: 64 word)"
    using False unfolding e maxIdleConns_def word_sless_alt .
  ultimately have "Suc ?n \<le> 512" by simp
  moreover have "card (dom ((svConns s)(c \<mapsto> Greeting))) = Suc ?n" using assms(2) n(3) by (simp add: domIff)
  ultimately show ?thesis using assms False n(1,3)
    by (auto simp: acceptConn_def setConn_def server_inv_def holdsLock_def)
qed


lemma server_inv_auth:
  assumes "server_inv s" and "svConns s c = Some Greeting"
  shows "server_inv (authConn J c w s)"
proof (cases "fst (ServerHandshake J scriptLink (svCred s) w)")
  case (Inl e)
  have "server_inv (s\<lparr>authFails := authFails s + 1\<rparr>)" using assms(1) by (simp add: server_inv_def)
  from server_inv_close [OF this, of c Greeting] show ?thesis
    using Inl assms(2) by (simp add: authConn_def holdsLock_def)
next
  case (Inr u)
  have "svWriter s \<noteq> Some c" using assms by (simp add: server_inv_def holdsLock_def)
  then show ?thesis
    using Inr by (intro server_inv_set [OF assms]) (auto simp: authConn_def setConn_def holdsLock_def exec_inv_new)
qed

lemma server_inv_begin:
  assumes "server_inv s" and "svConns s c = Some (Serving x)"
  shows "server_inv (beginRequest X J c line x s)"
proof -
  have w: "svWriter s \<noteq> Some c" using assms by (simp add: server_inv_def holdsLock_def)
  have x: "exec_inv x" using assms by (fastforce simp: server_inv_def)
  define s1 where "s1 = s\<lparr>bytesRecv := bytesRecv s + of_nat (length line)\<rparr>"
  have s1: "server_inv s1" using assms(1) by (simp add: s1_def server_inv_def)
  have set: "server_inv (setConn c (Some ph) (s1\<lparr>queryCount := q\<rparr>))"
    if "ph = Waiting x sql q' \<or> ph = Running x sql q' False" for ph q sql q'
    by (rule server_inv_set [OF assms, of ph]) (use that w x in \<open>auto simp: setConn_def s1_def holdsLock_def\<close>)
  show ?thesis
    unfolding beginRequest_def Let_def s1_def [symmetric] using s1 set by (auto split: prod.split)
qed

lemma server_inv_lock:
  assumes "server_inv s" and "svConns s c = Some (Waiting x sql q)" and "svWriter s = None"
  shows "server_inv (setConn c (Some (Running x sql q True)) (s\<lparr>svWriter := Some c\<rparr>))"
proof (rule server_inv_set [OF assms(1,2), of "Running x sql q True"])
  show "exec_inv y" if "executorOf (Running x sql q True) = Some y" for y
    using that assms(1,2) by (fastforce simp: server_inv_def)
qed (use assms(3) in \<open>simp_all add: setConn_def holdsLock_def\<close>)

lemma server_inv_finish:
  assumes "server_inv s" and "svConns s c = Some (Running x sql q lock)"
  shows "server_inv (snd (finishRequest X J c x sql q lock s))"
proof -
  obtain r x' where e: "Execute X sql (onShared (svSchema s) x) = (r, x')" by fastforce
  have "exec_inv x" using assms by (fastforce simp: server_inv_def)
  then have x': "exec_inv x'"
    using exec_inv_Execute [of "onShared (svSchema s) x" X sql] exec_inv_shared e by simp
  have w: "svWriter s = Some c \<longleftrightarrow> lock" using assms by (cases lock) (simp_all add: server_inv_def holdsLock_def)
  define s1 where "s1 = setConn c (Some (Serving x')) (s\<lparr>svSchema := te_schema (xTable x'), svWriter := (if lock then None else svWriter s)\<rparr>)"
  have s1: "server_inv s1"
    by (rule server_inv_set [OF assms, of "Serving x'"]) (use w x' in \<open>auto simp: s1_def setConn_def holdsLock_def\<close>)
  then have "server_inv (s1\<lparr>svDown := True\<rparr>)" "server_inv (s1\<lparr>errorCount := errorCount s1 + 1\<rparr>)"
    by (simp_all add: server_inv_def)
  with s1 assms(1) show ?thesis
    unfolding finishRequest_def e prod.case Let_def s1_def [symmetric] by (auto split: sum.split option.split)
qed

lemma server_inv_step:
  assumes "server_inv s" and "serverStep X J ev s = Some (resp, s')"
  shows "server_inv s'"
proof (cases ev)
  case (Accept c)
  then show ?thesis using assms by (auto simp: serverStep_def intro: server_inv_accept split: if_splits)
next
  case (Answer c w)
  then show ?thesis using assms by (auto simp: serverStep_def intro: server_inv_auth split: if_splits)
next
  case (Receive c line)
  then show ?thesis using assms
    by (auto simp: serverStep_def intro: server_inv_begin split: if_splits option.splits phase.splits)
next
  case (Lock c)
  then show ?thesis using assms
    by (auto simp: serverStep_def intro: server_inv_lock split: if_splits option.splits phase.splits)
next
  case (Finish c)
  then obtain x sql q lock where "svConns s c = Some (Running x sql q lock)" "s' = snd (finishRequest X J c x sql q lock s)"
    using assms(2) by (auto simp: serverStep_def split: if_splits option.splits phase.splits)
  then show ?thesis using server_inv_finish [OF assms(1)] by blast
next
  case (Hangup c)
  then show ?thesis using assms
    by (auto simp: serverStep_def holdsLock_def intro: server_inv_close split: if_splits option.splits phase.splits)
qed (use assms in \<open>auto simp: serverStep_def server_inv_def StopServer_def split: if_splits\<close>)

lemma serves_inv: "serves X J s0 es s \<Longrightarrow> server_inv s0 \<Longrightarrow> server_inv s"
  by (induction rule: serves.induct) (auto intro: server_inv_step)


text \<open>C9. The server, after any sequence of connections, handshakes, requests and hang-ups: it counts its
  connections, and they are never more than 512; at most one request holds the write lock, and the
  lock is held exactly by a request that is being executed; and the transaction of every
  connection's executor is in order.\<close>

theorem server_invariant:
  assumes "serves X J (NewServer m cred) es s"
  shows "finite (dom (svConns s)) \<and> connCount s = of_nat (card (dom (svConns s))) \<and> card (dom (svConns s)) \<le> 512 \<and>
    (\<forall>c. svWriter s = Some c \<longleftrightarrow> holdsLock (svConns s c)) \<and>
    (\<forall>c d. holdsLock (svConns s c) \<longrightarrow> holdsLock (svConns s d) \<longrightarrow> c = d) \<and>
    (\<forall>c ph x. svConns s c = Some ph \<longrightarrow> executorOf ph = Some x \<longrightarrow> exec_inv x)"
proof -
  have i: "server_inv s" using serves_inv [OF assms server_inv_new] .
  then have "\<forall>c. svWriter s = Some c \<longleftrightarrow> holdsLock (svConns s c)" by (simp add: server_inv_def)
  then have "\<forall>c d. holdsLock (svConns s c) \<longrightarrow> holdsLock (svConns s d) \<longrightarrow> c = d" by (metis option.inject)
  with i show ?thesis by (simp add: server_inv_def)
qed

definition plainServer :: serverWire where
  "plainServer = \<lparr>swAuth = plainWire, decRequest = (\<lambda>s. (True, \<lparr>rqSQL = s, rqReadOnly = False\<rparr>)), errText = (\<lambda>_. ''error'')\<rparr>"

theorem server_invariant_witness:
  "\<exists>s. serves plainX plainServer (NewServer emptyCatalogue None) [Accept 7] s \<and> svConns s 7 = Some Greeting \<and>
     connCount s = of_nat (card (dom (svConns s)))"
proof -
  let ?s0 = "NewServer emptyCatalogue None"
  obtain s where s: "serves plainX plainServer ?s0 [Accept 7] s" "s = acceptConn 7 ?s0"
    using serves.step [OF serves.start, of plainX plainServer "Accept 7" ?s0 None "acceptConn 7 ?s0"]
    by (auto simp: serverStep_def NewServer_def)
  have "\<not> maxIdleConns <s (1 :: 64 word)" by (simp add: maxIdleConns_def word_sless_alt)
  then have "svConns s 7 = Some Greeting" by (simp add: s(2) acceptConn_def setConn_def NewServer_def)
  then show ?thesis using server_invariant [OF s(1)] s(1) by blast
qed

section \<open>Who gets to the database\<close>

text \<open>The answer in a handshake that a credential accepts.\<close>

definition accepted :: "authWire \<Rightarrow> Credential \<Rightarrow> script \<Rightarrow> bool" where
  "accepted J cred w \<longleftrightarrow>
     (case scLines w of [] \<Rightarrow> False | line # _ \<Rightarrow> (case decReq J line of None \<Rightarrow> False | Some req \<Rightarrow> Check cred req))"

lemma handshake_accepted:
  assumes "crMode cred \<noteq> ModeNone" and "fst (ServerHandshake J scriptLink cred w) = Inr r"
  shows "accepted J cred w"
proof -
  have l: "lScan scriptLink v = (case scLines v of [] \<Rightarrow> (None, v) | line # ls \<Rightarrow> (Some line, v\<lparr>scLines := ls\<rparr>))" for v
    by (simp add: scriptLink_def)
  have sd: "scLines (snd (lSend scriptLink line v)) = scLines v" for line v
    by (simp add: scriptLink_def split: list.split)
  obtain b v where v: "lSend scriptLink (encChallenge J protoVersion (crMode cred) True) w = (b, v)" by fastforce
  then have "scLines v = scLines w" using sd by (metis snd_conv)
  then show ?thesis using assms v
    by (cases b; cases "scLines w")
      (auto simp: ServerHandshake_def accepted_def l split: option.splits if_splits)
qed

definition untouched :: "SchemaManager \<Rightarrow> Credential \<Rightarrow> Server \<Rightarrow> bool" where
  "untouched m cred s \<longleftrightarrow> svSchema s = m \<and> svCred s = cred \<and> queryCount s = 0 \<and> bytesRecv s = 0 \<and>
     (\<forall>c ph. svConns s c = Some ph \<longrightarrow> ph = Greeting)"

lemma untouched_step:
  assumes "untouched m cred s" and "crMode cred \<noteq> ModeNone" and "serverStep X J ev s = Some (resp, s')"
    and "ev \<noteq> Shutdown" and "\<And>c w. ev = Answer c w \<Longrightarrow> \<not> accepted (swAuth J) cred w"
  shows "untouched m cred s'"
proof (cases ev)
  case (Answer c w)
  have "\<exists>e. fst (ServerHandshake (swAuth J) scriptLink cred w) = Inl e"
    using handshake_accepted [OF assms(2)] assms(5) [OF Answer] by (metis sum.exhaust)
  then show ?thesis using assms(1,3) Answer
    by (auto simp: serverStep_def authConn_def untouched_def closeConn_def setConn_def split: if_splits)
qed (use assms in \<open>auto simp: serverStep_def untouched_def acceptConn_def setConn_def Let_def
      split: if_splits option.splits phase.splits\<close>)

text \<open>C10. A server with a credential, after any events in which no handshake presents what the credential
  accepts: nobody has executed anything, no byte of a request has been read, no connection is past its
  handshake, and the database is the one the server started with.\<close>

theorem database_guarded:
  assumes "serves X J (NewServer m (Some cred)) es s" and "crMode cred \<noteq> ModeNone"
    and "Shutdown \<notin> set es" and "\<And>c w. Answer c w \<in> set es \<Longrightarrow> \<not> accepted (swAuth J) cred w"
  shows "svSchema s = m \<and> queryCount s = 0 \<and> bytesRecv s = 0 \<and> (\<forall>c ph. svConns s c = Some ph \<longrightarrow> ph = Greeting)"
proof -
  have "untouched m cred s"
    using assms(1,3,4)
  proof (induction rule: serves.induct)
    case start
    then show ?case by (simp add: untouched_def NewServer_def)
  next
    case (step es s ev resp s')
    then show ?case by (intro untouched_step [OF _ assms(2) step.hyps(2)]) auto
  qed
  then show ?thesis by (simp add: untouched_def)
qed


theorem database_guarded_witness:
  "\<exists>s. serves plainX plainServer (NewServer emptyCatalogue (Some (NewTokenCredential [])))
     [Accept 7, Answer 7 \<lparr>scLines = [''0000''], scSends = [], scSent = []\<rparr>, AcceptError] s \<and>
     svSchema s = emptyCatalogue \<and> queryCount s = 0"
proof -
  let ?cred = "NewTokenCredential []" and ?w = "\<lparr>scLines = [''0000''], scSends = [], scSent = []\<rparr> :: script"
  let ?s0 = "NewServer emptyCatalogue (Some ?cred)"
  define s1 where "s1 = acceptConn 7 ?s0"
  define s2 where "s2 = authConn plainWire 7 ?w s1"
  have "\<not> maxIdleConns <s (1 :: 64 word)" by (simp add: maxIdleConns_def word_sless_alt)
  then have 1: "svConns s1 7 = Some Greeting" "\<not> svDown s1" "\<not> svStopped s1"
    by (simp_all add: s1_def acceptConn_def setConn_def NewServer_def)
  then have 2: "\<not> svDown s2" "\<not> svStopped s2"
    by (auto simp: s2_def authConn_def closeConn_def setConn_def split: sum.split)
  have a: "swAuth plainServer = plainWire" by (simp add: plainServer_def)
  have "serves plainX plainServer ?s0 ([] @ [Accept 7]) s1"
    by (rule serves.step [OF serves.start, where resp = None]) (simp add: serverStep_def s1_def NewServer_def)
  then have "serves plainX plainServer ?s0 (([] @ [Accept 7]) @ [Answer 7 ?w]) s2"
    by (rule serves.step [where resp = None]) (simp add: serverStep_def 1 a s2_def)
  then have "serves plainX plainServer ?s0 ((([] @ [Accept 7]) @ [Answer 7 ?w]) @ [AcceptError])
      (s2\<lparr>errorCount := errorCount s2 + 1\<rparr>)"
    by (rule serves.step [where resp = None]) (simp add: serverStep_def 2)
  then have t: "serves plainX plainServer ?s0 [Accept 7, Answer 7 ?w, AcceptError] (s2\<lparr>errorCount := errorCount s2 + 1\<rparr>)"
    by simp
  have m: "crMode ?cred \<noteq> ModeNone" by (simp add: NewTokenCredential_def ModeNone_def ModeToken_def)
  have "\<not> Check ?cred req" for req
    by (simp add: Check_def CheckToken_def NewTokenCredential_def ModeNone_def ModePassword_def ModeToken_def)
  then have "\<not> accepted (swAuth plainServer) ?cred ?w" by (simp add: accepted_def split: option.split)
  then show ?thesis using database_guarded [OF t m] t by auto
qed

section \<open>The write lock\<close>

lemma chunks_ascii: "(of_char a :: nat) < 0x80 \<Longrightarrow> chunks (a # s) = (of_char a, [a]) # chunks s"
  by (simp add: firstRune_def Let_def)

lemma chunks_is_ascii: "is_ascii s \<Longrightarrow> chunks s = map (\<lambda>c. (of_char c, [c])) s"
  by (induction s) (simp_all add: is_ascii_def chunks_ascii del: chunks.simps(2))

lemma TrimSpaces_ascii:
  assumes "is_ascii s" and "s \<noteq> ''''" and "\<not> IsSpace U (of_char (hd s))" and "\<not> IsSpace U (of_char (last s))"
  shows "TrimSpaces U s = s"
proof -
  let ?cs = "map (\<lambda>c. (of_char c :: nat, [c])) s"
  have "trimLeftBy (IsSpace U) ?cs = ?cs" using assms(2,3) by (cases s) (simp_all add: trimLeftBy_def)
  moreover have "trimLeftBy (IsSpace U) (rev ?cs) = rev ?cs"
    using assms(2,4) by (cases s rule: rev_cases) (simp_all add: trimLeftBy_def)
  moreover have "unchunk ?cs = s" by (simp add: unchunk_def comp_def)
  ultimately show ?thesis by (simp add: TrimSpaces_def chunks_is_ascii [OF assms(1)] trimRightBy_def)
qed

lemma trimRight_keep: "\<not> P r \<Longrightarrow> trimRightBy P (as @ (r, c) # bs) = as @ (r, c) # trimRightBy P bs"
  by (simp add: trimRightBy_def trimLeftBy_def dropWhile_append)

lemma read_only_select:
  assumes "is_ascii more_sql"
  shows "isReadOnlySQL U G (''SELECT 1;'' @ more_sql)"
proof -
  define t where "t = map upper_char more_sql"
  have "is_ascii (''SELECT 1;'' @ more_sql)" using assms by (simp add: is_ascii_def)
  then have u: "ToUpper G (''SELECT 1;'' @ more_sql) = ''SELECT 1;'' @ t"
    by (simp add: ToUpper_ascii t_def) (simp add: upper_char_def)
  let ?a = "map (\<lambda>c. (of_char c :: nat, [c])) ''SELECT 1''"
  have "chunks (''SELECT 1;'' @ t) = ?a @ (59, [CHR '';'']) # chunks t"
    by (simp add: chunks_ascii del: chunks.simps)
  moreover have "trimLeftBy (IsSpace U) (?a @ cs) = ?a @ cs" for cs by (simp add: trimLeftBy_def IsSpace_def)
  moreover have "trimRightBy (IsSpace U) (?a @ (59, [CHR '';'']) # chunks t) =
      ?a @ (59, [CHR '';'']) # trimRightBy (IsSpace U) (chunks t)"
    by (rule trimRight_keep) (simp add: IsSpace_def)
  ultimately have "TrimSpaces U (''SELECT 1;'' @ t) = ''SELECT 1'' @ unchunk ((59, [CHR '';'']) # trimRightBy (IsSpace U) (chunks t))"
    by (simp add: TrimSpaces_def unchunk_def del: chunks.simps)
  then show ?thesis unfolding isReadOnlySQL_def u Let_def by simp
qed


text \<open>C29. The write lock does not protect the database from a text that only starts with a query: while one
  request holds the lock, a line with \<open>SELECT 1;\<close> and any further statements behind it is taken for a
  read; its whole text is executed at once, without the lock.\<close>

theorem unlocked_writes:
  assumes "is_ascii more_sql" and "svConns s c = Some (Serving x)" and "\<not> svStopped s" and "\<not> svDown s"
    and "svWriter s = Some d" and "body = TrimSpaces (evUni (xeEval X)) line" and "body \<noteq> ''''"
    and "(if fst (decRequest J body) then body else rqSQL (snd (decRequest J body))) = ''SELECT 1;'' @ more_sql"
  shows "\<exists>s' q. serverStep X J (Receive c line) s = Some (None, s') \<and>
    svConns s' c = Some (Running x (''SELECT 1;'' @ more_sql) q False) \<and> svWriter s' = Some d \<and>
    serverStep X J (Finish c) s' = Some (finishRequest X J c x (''SELECT 1;'' @ more_sql) q False s')"
proof -
  obtain bad req where d: "decRequest J body = (bad, req)" by fastforce
  let ?sql = "''SELECT 1;'' @ more_sql"
  have sql: "(if bad then body else rqSQL req) = ?sql" using assms(8) unfolding d fst_conv snd_conv .
  define s' where "s' = beginRequest X J c line x s"
  have "s' = setConn c (Some (Running x ?sql (queryCount s + 1) False))
      (s\<lparr>bytesRecv := bytesRecv s + of_nat (length line), queryCount := queryCount s + 1\<rparr>)"
    unfolding s'_def beginRequest_def Let_def assms(6) [symmetric] d prod.case sql
    using assms(7) read_only_select [OF assms(1), of "evUni (xeEval X)" "xlib X"] by simp
  then show ?thesis
    using assms(2-5) by (intro exI [of _ s'] exI [of _ "queryCount s + 1"]) (simp add: serverStep_def setConn_def s'_def [symmetric])
qed

theorem unlocked_writes_witness:
  "\<forall>x y. let s = (NewServer emptyCatalogue None)\<lparr>svConns := [0 \<mapsto> Serving x, 1 \<mapsto> Running y ''DELETE FROM t'' 1 True], svWriter := Some 1\<rparr>
   in \<exists>s' q. serverStep plainX plainServer (Receive 0 ''SELECT 1;DROP TABLE t'') s = Some (None, s') \<and>
     svConns s' 0 = Some (Running x (''SELECT 1;'' @ ''DROP TABLE t'') q False) \<and> svWriter s' = Some 1 \<and>
     serverStep plainX plainServer (Finish 0) s' =
       Some (finishRequest plainX plainServer 0 x (''SELECT 1;'' @ ''DROP TABLE t'') q False s')"
proof -
  have t: "TrimSpaces U ''SELECT 1;DROP TABLE t'' = ''SELECT 1;DROP TABLE t''" for U
    by (rule TrimSpaces_ascii) (simp_all add: is_ascii_def IsSpace_def)
  have "is_ascii ''DROP TABLE t''" by (simp add: is_ascii_def)
  then show ?thesis unfolding Let_def
    by (intro allI unlocked_writes [where body = "''SELECT 1;DROP TABLE t''"])
      (simp_all add: t NewServer_def plainServer_def)
qed

text \<open>A text that the parser never finishes, and what it does to the lock.\<close>

lemma endless_Execute:
  assumes "Tokenize (evUni (xeEval X)) (xlib X) sql = Inr ts" and "endless (map tType ts)"
  shows "Execute X sql x = (Inl OutOfFuel, x)"
  using endless_parse [OF assms] assms(1) by (simp add: Execute_def Parse_def failX_def)

lemma endless_step:
  assumes "server_inv s" and "svConns s c = Some (Running x sql q True)" and "\<And>x. Execute X sql x = (Inl OutOfFuel, x)"
    and "serverStep X J ev s = Some (resp, s')"
  shows "svConns s' c = Some (Running x sql q True)"
proof (cases ev)
  case (Finish d)
  then obtain y sql' q' lock where d: "svConns s d = Some (Running y sql' q' lock)" "s' = snd (finishRequest X J d y sql' q' lock s)"
    using assms(4) by (auto simp: serverStep_def split: if_splits option.splits phase.splits)
  show ?thesis
  proof (cases "d = c")
    case True
    then show ?thesis using d assms(2,3) by (simp add: finishRequest_def)
  next
    case False
    then show ?thesis using d(2) assms(2)
      by (auto simp: finishRequest_def setConn_def Let_def split: prod.split sum.split option.split)
  qed
qed (use assms(2,4) in \<open>auto simp: serverStep_def acceptConn_def authConn_def closeConn_def beginRequest_def setConn_def
      StopServer_def Let_def split: if_splits option.splits phase.splits sum.splits prod.splits\<close>)

text \<open>C30. One client blocks all changes for ever: while a request with a \<open>CREATE TABLE\<close> text that the parser
  never finishes holds the write lock, nothing that happens at the server ends that request, and no
  other request gets the lock.\<close>

theorem lock_held_for_ever:
  assumes "serves X J (NewServer m cred) es s" and "svConns s c = Some (Running x sql q True)"
    and "Tokenize (evUni (xeEval X)) (xlib X) sql = Inr ts" and "endless (map tType ts)"
    and "serves X J s es' s'"
  shows "svConns s' c = Some (Running x sql q True) \<and> svWriter s' = Some c \<and> (\<forall>d. serverStep X J (Lock d) s' = None)"
proof -
  have i: "server_inv s" using serves_inv [OF assms(1) server_inv_new] .
  have e: "Execute X sql x = (Inl OutOfFuel, x)" for x by (rule endless_Execute [OF assms(3,4)])
  have "server_inv s' \<and> svConns s' c = Some (Running x sql q True)"
    using assms(5)
  proof (induction rule: serves.induct)
    case (step es s1 ev resp s2)
    then show ?case using endless_step [of s1 c x sql q X J ev resp s2] e server_inv_step by blast
  qed (use i assms(2) in blast)
  then have "svConns s' c = Some (Running x sql q True)" "svWriter s' = Some c"
    by (auto simp: server_inv_def holdsLock_def)
  then show ?thesis by (auto simp: serverStep_def split: option.split phase.split)
qed

text \<open>The events up to the lock, for a server without a credential.\<close>

lemma serves_step: "serves X J s0 es s \<Longrightarrow> serverStep X J ev s = Some (None, s') \<Longrightarrow> serves X J s0 (es @ [ev]) s'"
  by (rule serves.step)

theorem lock_held_for_ever_witness:
  "\<exists>s x q. serves plainX plainServer (NewServer emptyCatalogue None)
       [Accept 0, Answer 0 \<lparr>scLines = [], scSends = [], scSent = []\<rparr>, Receive 0 endlessText, Lock 0] s \<and>
     (\<forall>es' s'. serves plainX plainServer s es' s' \<longrightarrow>
        svConns s' 0 = Some (Running x endlessText q True) \<and> (\<forall>d. serverStep plainX plainServer (Lock d) s' = None))"
proof -
  let ?s0 = "NewServer emptyCatalogue None" and ?w = "\<lparr>scLines = [], scSends = [], scSent = []\<rparr> :: script"
  let ?x = "NewExecutor emptyCatalogue"
  define s1 where "s1 = acceptConn 0 ?s0"
  define s2 where "s2 = authConn plainWire 0 ?w s1"
  define s3 where "s3 = beginRequest plainX plainServer 0 endlessText ?x s2"
  have "\<not> maxIdleConns <s (1 :: 64 word)" by (simp add: maxIdleConns_def word_sless_alt)
  then have 1: "s1 = ?s0\<lparr>svConns := [0 \<mapsto> Greeting], connCount := 1\<rparr>"
    by (simp add: s1_def acceptConn_def setConn_def NewServer_def)
  have 2: "s2 = ?s0\<lparr>svConns := [0 \<mapsto> Serving ?x], connCount := 1\<rparr>"
    by (simp add: s2_def 1 authConn_def ServerHandshake_def noCredential_def scriptLink_def setConn_def NewServer_def)
  have a: "is_ascii endlessText" by (simp add: is_ascii_def endlessText_def)
  have t: "TrimSpaces U endlessText = endlessText" for U
    by (rule TrimSpaces_ascii [OF a]) (simp_all add: endlessText_def IsSpace_def)
  have u: "ToUpper G endlessText = ''CREATE TABLE T ( UNIQUE ( LOWER ( A ) ) )''" for G
    unfolding ToUpper_ascii [OF a] by (simp add: endlessText_def upper_char_def char_of_def bit_0)
  have "is_ascii ''CREATE TABLE T ( UNIQUE ( LOWER ( A ) ) )''" by (simp add: is_ascii_def)
  then have "TrimSpaces U ''CREATE TABLE T ( UNIQUE ( LOWER ( A ) ) )'' = ''CREATE TABLE T ( UNIQUE ( LOWER ( A ) ) )''" for U
    by (rule TrimSpaces_ascii) (simp_all add: IsSpace_def)
  then have r: "\<not> isReadOnlySQL U G endlessText" for U G by (simp add: isReadOnlySQL_def u)
  have n: "endlessText \<noteq> ''''" by (simp add: endlessText_def)
  have 3: "svConns s3 = [0 \<mapsto> Waiting ?x endlessText 1]" "svWriter s3 = None" "\<not> svDown s3"
    by (simp_all add: s3_def beginRequest_def t n r 2 setConn_def plainServer_def NewServer_def Let_def)
  define s4 where "s4 = setConn 0 (Some (Running ?x endlessText 1 True)) (s3\<lparr>svWriter := Some 0\<rparr>)"
  have "serves plainX plainServer ?s0 ([] @ [Accept 0]) s1"
    by (rule serves_step [OF serves.start]) (simp add: serverStep_def s1_def NewServer_def)
  then have "serves plainX plainServer ?s0 (([] @ [Accept 0]) @ [Answer 0 ?w]) s2"
    by (rule serves_step) (simp add: serverStep_def 1 s2_def plainServer_def NewServer_def)
  then have "serves plainX plainServer ?s0 ((([] @ [Accept 0]) @ [Answer 0 ?w]) @ [Receive 0 endlessText]) s3"
    by (rule serves_step) (simp add: serverStep_def 2 s3_def NewServer_def)
  then have "serves plainX plainServer ?s0 (((([] @ [Accept 0]) @ [Answer 0 ?w]) @ [Receive 0 endlessText]) @ [Lock 0]) s4"
    by (rule serves_step) (simp add: serverStep_def 3 s4_def)
  then have s: "serves plainX plainServer ?s0 [Accept 0, Answer 0 ?w, Receive 0 endlessText, Lock 0] s4" by simp
  have c: "svConns s4 0 = Some (Running ?x endlessText 1 True)" by (simp add: s4_def setConn_def)
  obtain ts where "Tokenize (evUni (xeEval plainX)) (xlib plainX) endlessText = Inr ts" "endless (map tType ts)"
    using endless_text by blast
  from lock_held_for_ever [OF s c this] s show ?thesis by blast
qed

section \<open>Retries\<close>

text \<open>A client of a server without a credential: the server's steps for connection 0, and the lines that
  wait for the client.\<close>

definition after :: "xenv \<Rightarrow> serverWire \<Rightarrow> event \<Rightarrow> Server \<Rightarrow> Response option \<times> Server" where
  "after X J ev s = (case serverStep X J ev s of None \<Rightarrow> (None, s) | Some r \<Rightarrow> r)"

definition serverNet :: "xenv \<Rightarrow> serverWire \<Rightarrow> (Response \<Rightarrow> string) \<Rightarrow> (Server \<times> string list) net" where
  "serverNet X J enc = \<lparr>
     nDial = (\<lambda>addr (s, out).
       let s1 = snd (after X J (Accept 0) s); s2 = snd (after X J (Answer 0 \<lparr>scLines = [], scSends = [], scSent = []\<rparr>) s1)
       in (Some 0, s2, [greeting (swAuth J) (svCred s)])),
     nClose = (\<lambda>k (s, out). (snd (after X J (Hangup 0) s), [])),
     nLink = (\<lambda>k. \<lparr>
       lSend = (\<lambda>line (s, out).
         let s1 = snd (after X J (Receive 0 line) s); s2 = snd (after X J (Lock 0) s1);
             (r, s3) = after X J (Finish 0) s2
         in (True, s3, out @ (case r of None \<Rightarrow> [] | Some r \<Rightarrow> [enc r]))),
       lScan = (\<lambda>(s, out). case out of [] \<Rightarrow> (None, s, out) | line # ls \<Rightarrow> (Some line, s, ls))\<rparr>)\<rparr>"


text \<open>The only connection is 0, between two requests; with the executor of a new connection.\<close>

definition idle :: "SchemaManager \<Rightarrow> Server \<Rightarrow> bool" where
  "idle m s \<longleftrightarrow> (\<exists>x. svConns s = [0 \<mapsto> Serving x]) \<and> svSchema s = m \<and> svWriter s = None \<and> connCount s = 1 \<and>
     \<not> svStopped s \<and> \<not> svDown s \<and> svCred s = noCredential"

definition fresh :: "SchemaManager \<Rightarrow> Server \<Rightarrow> bool" where
  "fresh m s \<longleftrightarrow> idle m s \<and> svConns s 0 = Some (Serving (NewExecutor m))"

text \<open>What a text leaves of the database when a new connection executes it.\<close>

definition runText :: "xenv \<Rightarrow> string \<Rightarrow> SchemaManager \<Rightarrow> SchemaManager" where
  "runText X sql m = te_schema (xTable (snd (Execute X sql (NewExecutor m))))"

definition failsOn :: "xenv \<Rightarrow> string \<Rightarrow> SchemaManager \<Rightarrow> bool" where
  "failsOn X sql m \<longleftrightarrow> (\<exists>e. fst (Execute X sql (NewExecutor m)) = Inl e \<and> e \<noteq> Panic \<and> e \<noteq> MemFault \<and> e \<noteq> OutOfFuel)"

text \<open>The client encodes this text so that the server reads it unchanged, as JSON does for valid UTF-8, and
  reads a response with an error text as a result with an error text (bytes that are no UTF-8 may be
  others there).\<close>

definition understands :: "xenv \<Rightarrow> serverWire \<Rightarrow> clientWire \<Rightarrow> (Response \<Rightarrow> string) \<Rightarrow> string \<Rightarrow> bool" where
  "understands X J JC enc sql \<longleftrightarrow> wire_ok (swAuth J) \<and> cwAuth JC = swAuth J \<and> (\<forall>e. errText J e \<noteq> '''') \<and> sql \<noteq> '''' \<and>
     (let body = TrimSpaces (evUni (xeEval X)) (encSQL JC sql)
      in body \<noteq> '''' \<and> (if fst (decRequest J body) then body else rqSQL (snd (decRequest J body))) = sql) \<and>
     (\<forall>r. rpError r \<noteq> '''' \<longrightarrow> (\<exists>res. decResult JC (enc r) = Some res \<and> rError res \<noteq> ''''))"

lemma begin_sql:
  assumes "understands X J JC enc sql"
  shows "beginRequest X J c (encSQL JC sql) x s = setConn c (Some (
      if \<not> rqReadOnly (snd (decRequest J (TrimSpaces (evUni (xeEval X)) (encSQL JC sql)))) \<and> \<not> isReadOnlySQL (evUni (xeEval X)) (xlib X) sql
      then Waiting x sql (queryCount s + 1) else Running x sql (queryCount s + 1) False))
      (s\<lparr>bytesRecv := bytesRecv s + of_nat (length (encSQL JC sql)), queryCount := queryCount s + 1\<rparr>)"
proof -
  let ?body = "TrimSpaces (evUni (xeEval X)) (encSQL JC sql)"
  obtain bad req where d: "decRequest J ?body = (bad, req)" by fastforce
  have u: "?body \<noteq> ''''" "(if fst (decRequest J ?body) then ?body else rqSQL (snd (decRequest J ?body))) = sql" "sql \<noteq> ''''"
    using assms unfolding understands_def Let_def by blast+
  note u = u(1) u(2) [unfolded d fst_conv snd_conv] u(3)
  show ?thesis
    unfolding beginRequest_def Let_def d prod.case u(2) using u(1,3) by simp
qed

lemma one_request:
  assumes u: "understands X J JC enc sql" and f: "fresh m s" "failsOn X sql m"
  shows "\<exists>s' r. lSend (nLink (serverNet X J enc) 0) (encSQL JC sql) (s, []) = (True, s', [enc r]) \<and> rpError r \<noteq> '''' \<and>
    idle (runText X sql m) s' \<and> queryCount s' = queryCount s + 1 \<and> errorCount s' = errorCount s + 1"
proof -
  let ?x = "NewExecutor m" and ?q = "queryCount s + 1"
  define s1 where "s1 = beginRequest X J 0 (encSQL JC sql) ?x s"
  define s2 where "s2 = snd (after X J (Lock 0) s1)"
  have c: "svConns s 0 = Some (Serving ?x)" "svWriter s = None" "\<not> svStopped s" "\<not> svDown s" "svSchema s = m"
    "svConns s = [0 \<mapsto> Serving ?x]" "connCount s = 1" "svCred s = noCredential"
    using f(1) by (auto simp: fresh_def idle_def)
  have a1: "snd (after X J (Receive 0 (encSQL JC sql)) s) = s1"
    using c by (simp add: after_def serverStep_def s1_def)
  define w where "w = (\<not> rqReadOnly (snd (decRequest J (TrimSpaces (evUni (xeEval X)) (encSQL JC sql)))) \<and>
      \<not> isReadOnlySQL (evUni (xeEval X)) (xlib X) sql)"
  define s0 where "s0 = s\<lparr>bytesRecv := bytesRecv s + of_nat (length (encSQL JC sql)), queryCount := ?q\<rparr>"
  have s0: "svConns s0 = [0 \<mapsto> Serving ?x]" "svWriter s0 = None" "svSchema s0 = m" "\<not> svStopped s0" "\<not> svDown s0"
    "queryCount s0 = ?q" "errorCount s0 = errorCount s" "connCount s0 = 1" "svCred s0 = noCredential"
    using c by (simp_all add: s0_def)
  have s1: "s1 = setConn 0 (Some (if w then Waiting ?x sql ?q else Running ?x sql ?q False)) s0"
    unfolding s1_def begin_sql [OF u] w_def s0_def ..
  have s2: "s2 = (if w then setConn 0 (Some (Running ?x sql ?q True)) (s1\<lparr>svWriter := Some 0\<rparr>) else s1)"
    by (cases w) (simp_all add: s2_def after_def serverStep_def s1 setConn_def s0)
  define lock where "lock = w"
  have lock: "svConns s2 = [0 \<mapsto> Running ?x sql ?q lock]" "svWriter s2 = (if lock then Some 0 else None)"
    "svSchema s2 = m" "\<not> svStopped s2" "\<not> svDown s2" "queryCount s2 = ?q" "errorCount s2 = errorCount s" "connCount s2 = 1"
    "svCred s2 = noCredential"
    unfolding s2 s1 lock_def using s0 by (cases w; simp add: setConn_def)+
  have x: "onShared m ?x = ?x" by (simp add: onShared_def NewExecutor_def NewTableEngine_def)
  obtain e x' where e: "Execute X sql ?x = (Inl e, x')" "e \<noteq> Panic" "e \<noteq> MemFault" "e \<noteq> OutOfFuel"
    using f(2) by (auto simp: failsOn_def) (metis prod.collapse)
  define s3 where "s3 = snd (finishRequest X J 0 ?x sql ?q lock s2)"
  have fin: "finishRequest X J 0 ?x sql ?q lock s2 = (Some (emptyResponse\<lparr>rpQueryID := ?q, rpError := errText J e\<rparr>), s3)"
    "svConns s3 = [0 \<mapsto> Serving x']" "svSchema s3 = te_schema (xTable x')" "svWriter s3 = None" "\<not> svStopped s3" "\<not> svDown s3"
    "queryCount s3 = ?q" "errorCount s3 = errorCount s + 1" "connCount s3 = 1" "svCred s3 = noCredential"
    using lock e by (simp_all add: finishRequest_def x s3_def setConn_def emptyResponse_def)
  have "\<exists>x. svConns s3 = [0 \<mapsto> Serving x]" using fin(2) by blast
  then have "idle (runText X sql m) s3" using fin e(1) unfolding idle_def by (simp add: runText_def)
  moreover have "after X J (Finish 0) s2 = (Some (emptyResponse\<lparr>rpQueryID := ?q, rpError := errText J e\<rparr>), s3)"
    using lock fin(1) by (simp add: after_def serverStep_def)
  moreover have "errText J e \<noteq> ''''" using u by (simp add: understands_def)
  ultimately show ?thesis
    using fin(7,8) by (intro exI [of _ s3] exI [of _ "emptyResponse\<lparr>rpQueryID := ?q, rpError := errText J e\<rparr>"])
      (simp add: serverNet_def a1 s2_def [symmetric])
qed


lemma one_try:
  assumes "understands X J JC enc sql" and "fresh m s" and "failsOn X sql m" and "cConn c = Some 0"
  shows "\<exists>s' t. execOnce JC (serverNet X J enc) sql (c, s, []) = (Inl (ErrReply t), c, s', []) \<and> idle (runText X sql m) s' \<and>
    queryCount s' = queryCount s + 1 \<and> errorCount s' = errorCount s + 1"
proof -
  obtain s' r where r: "lSend (nLink (serverNet X J enc) 0) (encSQL JC sql) (s, []) = (True, s', [enc r])"
    "rpError r \<noteq> ''''" "idle (runText X sql m) s'" "queryCount s' = queryCount s + 1" "errorCount s' = errorCount s + 1"
    using one_request [OF assms(1-3)] by blast
  obtain res where res: "decResult JC (enc r) = Some res" "rError res \<noteq> ''''"
    using assms(1) r(2) unfolding understands_def by blast
  have "lScan (nLink (serverNet X J enc) 0) (s', [enc r]) = (Some (enc r), s', [])" by (simp add: serverNet_def)
  with r res assms(4) show ?thesis by (intro exI [of _ s'] exI [of _ "rError res"]) (simp add: execOnce_def)
qed

lemma new_connection:
  assumes "wire_ok (swAuth J)" and "cwAuth JC = swAuth J" and "idle m s" and "cConn c = Some 0"
  shows "\<exists>s'. reconnect JC (serverNet X J enc) (c, s, []) = (Inr (), c, s', []) \<and> fresh m s' \<and>
    queryCount s' = queryCount s \<and> errorCount s' = errorCount s"
proof -
  obtain x where c: "svConns s = [0 \<mapsto> Serving x]" "svSchema s = m" "svWriter s = None" "connCount s = 1" "\<not> svStopped s"
    "\<not> svDown s" "svCred s = noCredential" using assms(3) by (auto simp: idle_def)
  define s1 where "s1 = s\<lparr>svConns := Map.empty, connCount := 0\<rparr>"
  define s2 where "s2 = s\<lparr>svConns := [0 \<mapsto> Greeting], connCount := 1\<rparr>"
  define s3 where "s3 = s\<lparr>svConns := [0 \<mapsto> Serving (NewExecutor m)], connCount := 1\<rparr>"
  have "snd (after X J (Hangup 0) s) = s1"
    using c by (simp add: after_def serverStep_def closeConn_def setConn_def s1_def)
  moreover have "\<not> maxIdleConns <s (1 :: 64 word)" by (simp add: maxIdleConns_def word_sless_alt)
  then have "snd (after X J (Accept 0) s1) = s2"
    using c by (simp add: after_def serverStep_def acceptConn_def setConn_def s1_def s2_def)
  moreover have "snd (after X J (Answer 0 \<lparr>scLines = [], scSends = [], scSent = []\<rparr>) s2) = s3"
    using c by (simp add: after_def serverStep_def authConn_def ServerHandshake_def noCredential_def scriptLink_def setConn_def s2_def s3_def)
  moreover have "svCred s1 = noCredential" using c by (simp add: s1_def)
  ultimately have "nDial (serverNet X J enc) a (nClose (serverNet X J enc) 0 (s, [])) = (Some 0, s3, [greeting (swAuth J) noCredential])" for a
    by (simp add: serverNet_def)
  moreover have "lScan (nLink (serverNet X J enc) 0) (s3, [g]) = (Some g, s3, [])" for g by (simp add: serverNet_def)
  moreover have "decChallenge (swAuth J) (greeting (swAuth J) noCredential) = Some False"
    using assms(1) by (simp add: wire_ok_def greeting_def noCredential_def)
  ultimately have "reconnect JC (serverNet X J enc) (c, s, []) = (Inr (), c, s3, [])"
    using assms(2,4) by (simp add: reconnect_def dial_def ClientHandshake_def)
  moreover have "fresh m s3" using c by (auto simp: fresh_def idle_def s3_def)
  ultimately show ?thesis by (intro exI [of _ s3]) (simp add: s3_def)
qed

lemma all_tries:
  assumes "understands X J JC enc sql" and "fresh m s" and "\<And>i. i \<le> n \<Longrightarrow> failsOn X sql ((runText X sql ^^ i) m)"
    and "cConn c = Some 0"
  shows "\<exists>s' t. execTries JC (serverNet X J enc) sql n (c, s, []) = (Inl (ErrReply t), c, s', []) \<and>
    svSchema s' = (runText X sql ^^ (n + 1)) m \<and> queryCount s' = queryCount s + of_nat (n + 1) \<and>
    errorCount s' = errorCount s + of_nat (n + 1)"
  using assms(2,3)
proof (induction n arbitrary: m s)
  case 0
  then show ?case using one_try [OF assms(1) 0(1) _ assms(4)] 0(2) [of 0] by (auto simp: idle_def)
next
  case (Suc n)
  obtain s1 t where s1: "execOnce JC (serverNet X J enc) sql (c, s, []) = (Inl (ErrReply t), c, s1, [])" "idle (runText X sql m) s1"
    "queryCount s1 = queryCount s + 1" "errorCount s1 = errorCount s + 1"
    using one_try [OF assms(1) Suc.prems(1) _ assms(4)] Suc.prems(2) [of 0] by auto
  have w: "wire_ok (swAuth J)" "cwAuth JC = swAuth J" using assms(1) by (simp_all add: understands_def)
  obtain s2 where s2: "reconnect JC (serverNet X J enc) (c, s1, []) = (Inr (), c, s2, [])" "fresh (runText X sql m) s2"
    "queryCount s2 = queryCount s1" "errorCount s2 = errorCount s1"
    using new_connection [OF w s1(2) assms(4)] by blast
  have "failsOn X sql ((runText X sql ^^ i) (runText X sql m))" if "i \<le> n" for i
    using Suc.prems(2) [of "Suc i"] that by (simp add: funpow_swap1)
  from Suc.IH [OF s2(2) this] obtain s' t' where "execTries JC (serverNet X J enc) sql n (c, s2, []) = (Inl (ErrReply t'), c, s', [])"
    "svSchema s' = (runText X sql ^^ (n + 1)) (runText X sql m)" "queryCount s' = queryCount s2 + of_nat (n + 1)"
    "errorCount s' = errorCount s2 + of_nat (n + 1)" by blast
  then show ?case using s1 s2 by (simp add: funpow_swap1)
qed

text \<open>C31. The client repeats a text whose execution fails at the server: \<open>Exec\<close> takes the error in the answer
  for a broken connection, connects again and sends the text again, four times in all. Whatever the
  text changes before it fails is done four times, and four queries and four errors are counted. The text
  is one that the server reads unchanged (for JSON: valid UTF-8 that is not blank), the client is the only
  one of a server without a credential, every execution fails without a panic, and JSON reads a response with an error text
  as one with an error text.\<close>

theorem failed_text_runs_four_times:
  assumes "understands X J JC enc sql" and "fresh m s" and "\<And>i. i < 4 \<Longrightarrow> failsOn X sql ((runText X sql ^^ i) m)"
    and "cConn c = Some 0"
  shows "\<exists>s' t. Exec JC (serverNet X J enc) sql (c, s, []) = (Inl (ErrReply t), c, s', []) \<and>
    svSchema s' = (runText X sql ^^ 4) m \<and> queryCount s' = queryCount s + 4 \<and> errorCount s' = errorCount s + 4"
  using all_tries [OF assms(1,2) _ assms(4), of 3] assms(3) by (simp add: Exec_def defaultMaxRetries_def)

definition plainClient :: clientWire where
  "plainClient = \<lparr>cwAuth = plainWire, encSQL = id,
     decResult = (\<lambda>s. Some \<lparr>rColumns = [], rRows = [], rError = jsonText s, rAffected = 0, rLastID = 0\<rparr>)\<rparr>"


text \<open>A text that is no statement.\<close>

lemma bad_text: "\<exists>e. Parse U G ''1'' = Inl e \<and> e \<noteq> Panic \<and> e \<noteq> MemFault \<and> e \<noteq> OutOfFuel"
proof -
  let ?xs = "[LNumber ''1'']"
  have "list_all lexOk ?xs" by (simp add: digit_char_def)
  from sentence_tokens [OF this, of U G] obtain ts where
    t: "Tokenize U G ''1'' = Inr ts" "map (\<lambda>t. (tType t, tValue t)) ts = map meaning ?xs @ [(TOKEN_EOF, [])]" by auto
  then obtain a b where ts: "ts = [a, b]" "tType a = TOKEN_NUMBER" by auto
  have p: "tokType (NewParser ts) = TOKEN_NUMBER" by (simp add: tokType_def peekP_def NewParser_def ts)
  have "ParseStatement (Suc n) c (NewParser ts) = failTok ''unexpected token'' (NewParser ts)" for n c
    by (simp add: step_defs p)
  then have "ParseAll (Suc n) c (NewParser ts) = failTok ''unexpected token'' (NewParser ts)" if "pcFuel c = Suc k" for n c k
    using that by (simp add: step_defs p failTok_def Let_def)
  from this [of "grammar G 6" 5 5] have "ParseAll 6 (grammar G 6) (NewParser ts) = failTok ''unexpected token'' (NewParser ts)"
    by (simp only: Suc_numeral semiring_norm grammar_def pctx.select_convs)
  then show ?thesis
    by (simp add: Parse_def ParseWith_def t(1) bindE_def ts(1) failTok_def Let_def del: ParseAll.simps)
qed

theorem failed_text_runs_four_times_witness:
  "let s = (NewServer emptyCatalogue None)\<lparr>svConns := [0 \<mapsto> Serving (NewExecutor emptyCatalogue)], connCount := 1\<rparr>;
       c = \<lparr>cAddr = ''db:5433'', cOpts = DefaultOptions, cConn = Some 0\<rparr>
   in \<exists>s' t. Exec plainClient (serverNet plainX plainServer rpError) ''1'' (c, s, []) = (Inl (ErrReply t), c, s', []) \<and>
     queryCount s' = 4 \<and> errorCount s' = 4"
proof -
  let ?s = "(NewServer emptyCatalogue None)\<lparr>svConns := [0 \<mapsto> Serving (NewExecutor emptyCatalogue)], connCount := 1\<rparr>"
  let ?c = "\<lparr>cAddr = ''db:5433'', cOpts = DefaultOptions, cConn = Some 0\<rparr>"
  have "TrimSpaces (evUni (xeEval plainX)) ''1'' = ''1''"
    by (rule TrimSpaces_ascii) (simp_all add: is_ascii_def IsSpace_def)
  moreover have "jsonText s \<noteq> ''''" if "s \<noteq> ''''" for s :: string
    using that by (cases s) (auto simp: jsonText_def utf8s_def utf8_def Let_def)
  ultimately have u: "understands plainX plainServer plainClient rpError ''1''"
    using plainWire_ok by (simp add: understands_def plainServer_def plainClient_def)
  have f: "fresh emptyCatalogue ?s" by (auto simp: fresh_def idle_def NewServer_def)
  have "failsOn plainX ''1'' m" for m
    using bad_text [of "evUni (xeEval plainX)" "xlib plainX"] by (auto simp: failsOn_def Execute_def failX_def)
  from failed_text_runs_four_times [OF u f this, of ?c]
  have "\<exists>s' t. Exec plainClient (serverNet plainX plainServer rpError) ''1'' (?c, ?s, []) = (Inl (ErrReply t), ?c, s', []) \<and>
      svSchema s' = (runText plainX ''1'' ^^ 4) emptyCatalogue \<and> queryCount s' = queryCount ?s + 4 \<and> errorCount s' = errorCount ?s + 4"
    by simp
  moreover have "queryCount ?s = 0" "errorCount ?s = 0" by (simp_all add: NewServer_def)
  ultimately show ?thesis unfolding Let_def by (metis add_0)
qed

section \<open>Batches\<close>

interpretation localDB: database "local_Exec X" "local_ExecBatch X" exec_inv for X
proof unfold_locales
  show "exec_inv x \<Longrightarrow> exec_inv (snd (local_Exec X sql x))" for x sql
    using exec_inv_Execute [of x X sql] by (auto simp: local_Exec_def split: prod.split sum.split option.split)
qed (simp_all add: local_ExecBatch_def)

text \<open>C35. A batch, on a local database and over a connection: the results are those of the statements
  before the first one that fails, its error is the error of the batch, the statements after it are
  not executed, and without an error there is a result for every statement.\<close>

theorem batch_stops_at_error:
  assumes "local_ExecBatch X sqls x = ((rs, e), x')" and "exec_inv x"
    and "ExecBatch J N texts st = ((rs', e'), st')"
  shows "exec_inv x' \<and> length rs \<le> length sqls \<and> (e = None \<longleftrightarrow> length rs = length sqls) \<and>
    (\<exists>x1. local_ExecBatch X (take (length rs) sqls) x = ((rs, None), x1) \<and>
      (case e of None \<Rightarrow> x' = x1 | Some err \<Rightarrow> local_Exec X (sqls ! length rs) x1 = (Inl err, x'))) \<and>
    cAddr (fst st') = cAddr (fst st) \<and> length rs' \<le> length texts \<and> (e' = None \<longleftrightarrow> length rs' = length texts) \<and>
    (\<exists>st1. ExecBatch J N (take (length rs') texts) st = ((rs', None), st1) \<and>
      (case e' of None \<Rightarrow> st' = st1 | Some err \<Rightarrow> Exec J N (texts ! length rs') st1 = (Inl err, st')))"
proof -
  have "exec_inv x'" using localDB.batch_kept [OF assms(2), of X sqls] assms(1) by simp
  moreover have "targets (cAddr (fst st)) (cOpts (fst st)) st" by (simp add: targets_def)
  then have "targets (cAddr (fst st)) (cOpts (fst st)) st'" using remote.batch_kept [of _ _ st J N texts] assms(3) by simp
  then have "cAddr (fst st') = cAddr (fst st)" by (simp add: targets_def)
  ultimately show ?thesis using localDB.batch_prefix [OF assms(1)] remote.batch_prefix [OF assms(3)] by blast
qed

theorem batch_stops_at_error_witness:
  "\<forall>w :: 'w. let c = \<lparr>cAddr = ''db:5433'', cOpts = DefaultOptions, cConn = None\<rparr>;
       N = \<lparr>nDial = (\<lambda>_ w. (None, w)), nClose = (\<lambda>_ w. w), nLink = (\<lambda>_. \<lparr>lSend = (\<lambda>_ w. (False, w)), lScan = (\<lambda>w. (None, w))\<rparr>)\<rparr>
   in \<exists>e x' st'. local_ExecBatch plainX [''1'', ''SELECT 1''] (NewExecutor emptyCatalogue) = (([], Some e), x') \<and>
     local_Exec plainX ''1'' (NewExecutor emptyCatalogue) = (Inl e, x') \<and>
     ExecBatch plainClient N [''SELECT 1''] (c, w) = (([], Some ErrNet), st') \<and>
     Exec plainClient N ''SELECT 1'' (c, w) = (Inl ErrNet, st')"
proof -
  let ?c = "\<lparr>cAddr = ''db:5433'', cOpts = DefaultOptions, cConn = None\<rparr>"
  let ?N = "\<lparr>nDial = (\<lambda>_ w. (None, w)), nClose = (\<lambda>_ w. w), nLink = (\<lambda>_. \<lparr>lSend = (\<lambda>_ w. (False, w)), lScan = (\<lambda>w. (None, w))\<rparr>)\<rparr> :: 'w net"
  let ?x = "NewExecutor emptyCatalogue"
  obtain e x' where l: "local_Exec plainX ''1'' ?x = (Inl e, x')"
    using bad_text [of "evUni (xeEval plainX)" "xlib plainX"] by (auto simp: local_Exec_def Execute_def failX_def)
  then have b: "local_ExecBatch plainX [''1'', ''SELECT 1''] ?x = (([], Some e), x')" by (simp add: local_ExecBatch_def)
  have r: "reconnect plainClient ?N (?c, w) = (Inl ErrNet, ?c, w)" "execOnce plainClient ?N s (?c, w) = (Inl ErrNet, ?c, w)" for w s
    by (simp_all add: reconnect_def dial_def execOnce_def)
  have "execTries plainClient ?N s n (?c, w) = (Inl ErrNet, ?c, w)" for n s w
    by (induction n) (simp_all add: r)
  then have n: "ExecBatch plainClient ?N [''SELECT 1''] (?c, w) = (([], Some ErrNet), ?c, w)" for w
    by (simp add: ExecBatch_def Exec_def)
  show ?thesis unfolding Let_def
  proof
    fix w
    have t: "take (length []) [''1'', ''SELECT 1''] = ([] :: string list)" by simp
    from batch_stops_at_error [OF b exec_inv_new n, of w] 
    show "\<exists>e x' st'. local_ExecBatch plainX [''1'', ''SELECT 1''] ?x = (([], Some e), x') \<and>
      local_Exec plainX ''1'' ?x = (Inl e, x') \<and> ExecBatch plainClient ?N [''SELECT 1''] (?c, w) = (([], Some ErrNet), st') \<and>
      Exec plainClient ?N ''SELECT 1'' (?c, w) = (Inl ErrNet, st')"
      using b n by (auto simp: localDB.batch_Nil remote.batch_Nil)
  qed
qed

end
