(* ===== verification/Varint.thy ===== *)
theory Varint
  imports Bytes
begin

text \<open>
  The routines of \<open>internal/storage/ops.c\<close> that the Go code declares and never calls: fixed 32-bit
  integers, and variable-length integers of seven bits to a byte, the lowest first. A buffer that is
  too short is a \<open>MemFault\<close>.
\<close>

section \<open>Fixed length\<close>

definition sqlgo_encode_uint32_be :: "byte list \<Rightarrow> 32 word \<Rightarrow> byte list res" where
  "sqlgo_encode_uint32_be buf v = (if 4 \<le> length buf then Inr (put buf 0 (be32 v)) else Inl MemFault)"

definition sqlgo_decode_uint32_be :: "byte list \<Rightarrow> 32 word res" where
  "sqlgo_decode_uint32_be buf = (if 4 \<le> length buf then Inr (rd32 buf 0) else Inl MemFault)"

section \<open>Variable length\<close>

text \<open>The bytes that the loop writes.\<close>

function varintBytes :: "64 word \<Rightarrow> byte list" where
  "varintBytes v =
     (if drop_bit 7 v = 0 then [ucast (v AND 0x7F)]
      else (ucast (v AND 0x7F) OR 0x80) # varintBytes (drop_bit 7 v))"
  by pat_completeness auto
termination
proof (relation "measure unat")
  fix v :: "64 word" assume "drop_bit 7 v \<noteq> 0"
  then have "0 < unat (drop_bit 7 v)" by (simp add: unat_gt_0)
  moreover have e: "unat (drop_bit 7 v) = unat v div 2 ^ 7"
    using unat_drop_bit_eq [of 7 v] drop_bit_eq_div [of 7 "unat v"] by metis
  ultimately have "unat v div 2 ^ 7 < unat v" by (cases "unat v = 0") simp_all
  then show "(drop_bit 7 v, v) \<in> measure unat" unfolding in_measure e .
qed simp

declare varintBytes.simps [simp del]

text \<open>The buffer afterwards, and the number of bytes.\<close>

definition sqlgo_encode_varint :: "byte list \<Rightarrow> 64 word \<Rightarrow> (byte list \<times> nat) res" where
  "sqlgo_encode_varint buf v =
     (let bs = varintBytes v
      in if length bs \<le> length buf then Inr (put buf 0 bs, length bs) else Inl MemFault)"

text \<open>The loop of the decoder, on the bytes from \<open>buf + n\<close> on.\<close>

function varintLoop :: "byte list \<Rightarrow> nat \<Rightarrow> nat \<Rightarrow> 64 word \<Rightarrow> (64 word \<times> nat) res" where
  "varintLoop buf n shift val =
     (case buf of
        [] \<Rightarrow> Inl MemFault
      | b # bs \<Rightarrow>
          let val' = val OR push_bit shift (ucast (b AND 0x7F))
          in if b AND 0x80 = 0 then Inr (val', n + 1)
             else if shift + 7 \<ge> 64 then Inr (val', n + 1)
             else varintLoop bs (n + 1) (shift + 7) val')"
  by pat_completeness auto
termination by (relation "measure (\<lambda>(buf, n, shift, val). length buf)") simp_all

declare varintLoop.simps [simp del]

definition sqlgo_decode_varint :: "byte list \<Rightarrow> (64 word \<times> nat) res" where
  "sqlgo_decode_varint buf = varintLoop buf 0 0 0"

section \<open>Round trips\<close>

lemma bit_high: "bit (0x80 :: byte) n \<longleftrightarrow> n = 7"
proof -
  have "bit (2 ^ 7 :: byte) n \<longleftrightarrow> n = 7" by (simp only: bit_exp_iff) auto
  then show ?thesis by simp
qed

lemma low_seven:
  fixes w :: "64 word"
  shows "(ucast (w AND 0x7F) :: byte) AND 0x7F = ucast (w AND 0x7F)" and "(ucast (w AND 0x7F) :: byte) AND 0x80 = 0"
    and "((ucast (w AND 0x7F) :: byte) OR 0x80) AND 0x7F = ucast (w AND 0x7F)" and "((ucast (w AND 0x7F) :: byte) OR 0x80) AND 0x80 \<noteq> 0"
    and "ucast (ucast (w AND 0x7F) :: byte) = take_bit 7 w"
proof -
  have m: "(0x7F :: 64 word) = mask 7" "(0x7F :: byte) = mask 7"
    by (simp_all add: mask_eq_exp_minus_1)
  show "(ucast (w AND 0x7F) :: byte) AND 0x7F = ucast (w AND 0x7F)" "(ucast (w AND 0x7F) :: byte) AND 0x80 = 0"
    "((ucast (w AND 0x7F) :: byte) OR 0x80) AND 0x7F = ucast (w AND 0x7F)" "ucast (ucast (w AND 0x7F) :: byte) = take_bit 7 w"
    unfolding m by (rule bit_word_eqI; auto simp: bit_and_iff bit_or_iff bit_mask_iff bit_take_bit_iff bit_unsigned_iff bit_high simp del: bit_numeral_word_iff)+
  have "bit (((ucast (w AND 0x7F) :: byte) OR 0x80) AND 0x80) 7" unfolding m by (simp add: bit_and_iff bit_or_iff bit_high del: bit_numeral_word_iff)
  then show "((ucast (w AND 0x7F) :: byte) OR 0x80) AND 0x80 \<noteq> 0" by (metis bit_0_eq bot_apply bot_bool_def)
qed

text \<open>After \<open>shift\<close> bits the decoder has these bits of the value, and the other ones are ahead.\<close>

lemma varintLoop_bytes:
  assumes "shift < 64"
  shows "varintLoop (varintBytes (drop_bit shift v) @ rest) n shift (take_bit shift v) =
    Inr (v, n + length (varintBytes (drop_bit shift v)))"
  using assms
proof (induction "64 - shift" arbitrary: shift n rule: less_induct)
  case less
  let ?w = "drop_bit shift v"
  have d: "drop_bit 7 ?w = drop_bit (shift + 7) v" by (simp add: add.commute)
  have t: "take_bit shift v OR push_bit shift (take_bit 7 ?w) = take_bit (shift + 7) v"
    by (rule bit_word_eqI) (auto simp: bit_simps)
  show ?case
  proof (cases "drop_bit 7 ?w = 0")
    case True
    then have "take_bit (shift + 7) v = v" unfolding d
      by (metis bits_ident push_bit_of_0 add_0)
    moreover have "varintBytes ?w = [ucast (?w AND 0x7F)]" using True by (subst varintBytes.simps) simp
    ultimately show ?thesis using t by (subst varintLoop.simps) (simp add: low_seven Let_def)
  next
    case False
    have s: "shift + 7 < 64"
    proof (rule ccontr)
      assume "\<not> shift + 7 < 64"
      then have "drop_bit (shift + 7) v = 0" by (intro bit_word_eqI) (auto simp: bit_simps)
      with False d show False by simp
    qed
    have "varintLoop (varintBytes (drop_bit (shift + 7) v) @ rest) (n + 1) (shift + 7) (take_bit (shift + 7) v) =
        Inr (v, n + 1 + length (varintBytes (drop_bit (shift + 7) v)))"
      using less.hyps [of "shift + 7" "n + 1"] s less.prems by simp
    with False s t show ?thesis unfolding varintBytes.simps [of ?w]
      by (subst varintLoop.simps) (simp add: low_seven Let_def d add.commute [of 7])
  qed
qed

lemma decode_varint: "sqlgo_decode_varint (varintBytes v @ rest) = Inr (v, length (varintBytes v))"
  using varintLoop_bytes [of 0 v rest 0] by (simp add: sqlgo_decode_varint_def)

lemma varint_length: "length (varintBytes v) \<le> 10"
proof -
  have "length (varintBytes v) \<le> Suc k" if "drop_bit (7 * Suc k) v = 0" for k and v :: "64 word"
    using that
  proof (induction k arbitrary: v)
    case 0
    then show ?case by (subst varintBytes.simps) simp
  next
    case (Suc k)
    have "drop_bit (7 * Suc k) (drop_bit 7 v) = 0" using Suc.prems by (simp add: add.commute)
    from Suc.IH [OF this] show ?case by (subst varintBytes.simps) simp
  qed
  moreover have "drop_bit (7 * Suc 9) v = 0" by (rule bit_word_eqI) (auto simp: bit_simps)
  ultimately have "length (varintBytes v) \<le> Suc 9" by blast
  then show ?thesis by simp
qed

text \<open>A buffer of ten bytes takes every value, and reading it gives the value and its length back.\<close>

lemma varint_round_trip:
  assumes "10 \<le> length buf"
  shows "\<exists>buf' n. sqlgo_encode_varint buf v = Inr (buf', n) \<and> length buf' = length buf \<and> 1 \<le> n \<and> n \<le> 10 \<and>
    sqlgo_decode_varint buf' = Inr (v, n)"
proof -
  let ?bs = "varintBytes v"
  have "put buf 0 ?bs = ?bs @ drop (length ?bs) buf" by (simp add: put_def)
  moreover have "length ?bs \<le> 10" by (rule varint_length)
  moreover have "1 \<le> length ?bs" by (subst varintBytes.simps) simp
  ultimately show ?thesis using assms decode_varint [of v] by (simp add: sqlgo_encode_varint_def Let_def)
qed

interpretation varint: codec varintBytes "\<lambda>b. bindE (sqlgo_decode_varint b) (\<lambda>(v, n). Inr v)" "\<lambda>_. True"
  by unfold_locales (simp add: decode_varint)

interpretation int32: codec be32 sqlgo_decode_uint32_be "\<lambda>_. True"
  by unfold_locales (simp add: sqlgo_decode_uint32_be_def be_prefix)

end
