(* ===== verification/Spec2Isabelle.thy ===== *)
theory Spec2Isabelle
  imports ConnectorProps Varint
begin

text \<open>
  SQLGo: a verification development for the SQL database engine under \<open>src/\<close>.

  \<^bold>\<open>The program.\<close> A file of 4096-byte pages is read and written by the pager
  (\<open>internal/storage/pager.go\<close>) through an LRU cache. On the pages lie slotted cells, on these B-trees
  (\<open>btree.go\<close>, with the C routines of \<open>ops.c\<close> behind \<open>ops.go\<close>). The schema manager (\<open>schema.go\<close>)
  keeps the catalogue in memory and in a tree of its own; the table engine (\<open>table.go\<close>) keeps the
  rows of a table, encoded by \<open>row.go\<close>, in a tree under the row id, and one tree for every index.
  \<open>transaction.go\<close> holds before-images of pages. SQL text goes through the lexer and the parser
  (\<open>internal/engine/parser/\<close>) to the executor (\<open>internal/engine/executor/\<close>), which evaluates expressions
  (\<open>eval.go\<close>) and runs statements (\<open>executor.go\<close>); the connector (\<open>internal/connector/\<close>) offers it to
  local and remote clients, and \<open>cmd/server/main.go\<close> is the command.

  \<^bold>\<open>Conventions.\<close> A Go error is a constructor of \<open>err\<close>, a fallible function returns \<open>err + 'a\<close>
  (\<open>'a res\<close>); a panic is \<open>Panic\<close>, a C access out of bounds \<open>MemFault\<close>. Machine integers are words of
  their width and wrap; doubles are their 64 bits, with rounding written out (\<open>Float\<close>). State is passed
  explicitly: \<open>'a pm\<close> over the pager, \<open>'a sm\<close> over the schema manager, \<open>'a tm\<close> over the table engine,
  \<open>'a xm\<close> over the executor, \<open>'a pa\<close> over the parser, \<open>('a, 'w) cm\<close> over a connection and the world behind
  it. An evaluation, \<open>'a ev\<close>, only counts its requests to the outside; its \<open>None\<close> is a panic. Pointers to
  pages and to schema entries are ids and keys of the map that owns them, so a write through a
  pointer is an update of that map; a value pointer is an option, nil being \<open>None\<close>.

  \<^bold>\<open>Parameters.\<close> Library functions whose code is not under \<open>src/\<close> are arguments: the text form of floats,
  case mapping outside ASCII and JSON (records \<open>golib\<close>, \<open>env\<close>), the Unicode classes above 255
  (\<open>unicode\<close>), regular expressions, the clock, random numbers, the inexact functions of package \<open>math\<close>
  and the order of a range over a map (\<open>evalEnv\<close>, \<open>xenv\<close>), the JSON messages (\<open>authWire\<close>, \<open>serverWire\<close>,
  \<open>clientWire\<close>) and the network (\<open>link\<close>, \<open>net\<close>).

  \<^bold>\<open>Storage.\<close> \<open>Prelude\<close>: errors, the error monad, ranges of an array. \<open>Bytes\<close>, \<open>Varint\<close>: \<open>ops.c\<close>/\<open>ops.go\<close>.
  \<open>Page\<close>: \<open>Page\<close> and \<open>DBHeader\<close> of \<open>pager.go\<close>. \<open>Cells\<close>, \<open>Slotted\<close>, \<open>SlotOps\<close>, \<open>KeyList\<close>, \<open>Leaf\<close>: the cells of a
  page (\<open>EncodeCell\<close> to \<open>removeCellAt\<close> of \<open>btree.go\<close>), the invariant \<open>tight\<close> of a slotted page and the
  refinement of a leaf page to a sorted list of keys and values. \<open>Pager\<close>, \<open>PagerInv\<close>, \<open>PagerOps\<close>,
  \<open>Durable\<close>, \<open>NewDB\<close>: cache, file and header, the invariant \<open>pager_inv\<close>, what every operation keeps
  of it (\<open>keeps\<close>), writing and reopening. \<open>BTree\<close> is the model of \<open>btree.go\<close>; \<open>PageTree\<close> relates the
  pages below a root to a tree (\<open>repr\<close>), \<open>TreeOps\<close> shows that search, insert and delete are the
  operations of a map as long as no page splits, \<open>Split\<close> what the first split does, \<open>Scan\<close> that the
  cursor walks the leaves from left to right when none is empty (\<open>full\<close>), in the order of the keys when each
  cell is where a lookup finds it (\<open>placed\<close>), and that it is at its end at once when the first leaf is empty
  (\<open>starts_empty\<close>). \<open>Transaction\<close> is \<open>transaction.go\<close>.

  \<^bold>\<open>Rows and catalogue.\<close> \<open>GoLib\<close>: strings, doubles, decimal integers. \<open>Row\<close>: \<open>row.go\<close>, with what a column
  lets in (\<open>let_in\<close>) and what coercion makes of a value (\<open>coerced\<close>), blobs in number columns included. \<open>Schema\<close>,
  \<open>SchemaProps\<close>, \<open>Catalogue\<close>: \<open>schema.go\<close>, the invariant on names and the storage of entries. \<open>KVStore\<close>: the
  locale of a key-value store, interpreted by the trees of the pager. \<open>Table\<close>, \<open>TableOps\<close>: \<open>table.go\<close> and
  what its operations do to the map from row ids to rows and to the entries of the indexes
  (\<open>index_entries\<close>), when no page splits and no separator is deleted.

  \<^bold>\<open>SQL text.\<close> \<open>Lexer\<close>: \<open>lexer.go\<close>, over runes. \<open>Ast\<close>: \<open>abstract.go\<close>. \<open>Parser\<close>: \<open>parser.go\<close>, the functions of the
  grammar over two arguments \<open>pcExpr\<close> and \<open>pcSelect\<close> that the functions \<open>parseExpr\<close> and \<open>parseSelect\<close>
  close; \<open>ParserFuel\<close>: how many tokens each of them consumes.

  \<^bold>\<open>Evaluation.\<close> \<open>Utf8\<close>, \<open>GoStrings\<close>, \<open>Float\<close>: what \<open>eval.go\<close> uses of Go's strings and floating point.
  \<open>Pattern\<close>: \<open>LIKE\<close> and \<open>GLOB\<close>, beside a specification of their patterns as lists of items. \<open>Eval\<close>: names,
  operators, \<open>CASE\<close>, \<open>IN\<close>, \<open>BETWEEN\<close>, \<open>CAST\<close>. \<open>Functions\<close>, \<open>Builtins\<close>: the functions of \<open>evalFunc\<close> in the order
  of its cases, one definition for each group of cases, and \<open>EvalExpr\<close>. Nil, a zero divisor, an index or a
  slice out of range and a missing argument panic: division (\<open>int_div\<close>), slices (\<open>sliceV\<close>) and arguments
  (\<open>argAt\<close>) are partial, and the guards of the code stand before them.

  \<^bold>\<open>Execution.\<close> \<open>Query\<close>: the executor's state, contexts, filters, projections, distinct rows, order and
  limits. \<open>Select\<close>: aggregates, groups, the rows behind a name, joins, \<open>evalSelect\<close>. \<open>Executor\<close>: compound
  queries, changes of rows, definitions, transactions, listings, pragmas and \<open>Execute\<close>. \<open>ExecFrame\<close>: which
  statements leave the transaction alone; \<open>ExecProps\<close>: the invariant of an executor and the lemmas about
  sorting, groups, aggregates and scans.

  \<^bold>\<open>Connection.\<close> \<open>Sha256\<close>: the hash. \<open>Auth\<close>: \<open>authorization.go\<close>. \<open>Server\<close>: \<open>server.go\<close> as a state machine over
  numbered connections (\<open>serverStep\<close>, with the traces \<open>serves\<close>). \<open>Client\<close>: \<open>connector.go\<close>, and the locale
  \<open>database\<close> of the Go interface \<open>DB\<close>, interpreted by the remote connection and by the local database.
  \<open>Command\<close>: \<open>main.go\<close>.

  \<^bold>\<open>Properties.\<close> \<open>StorageProps\<close> (pages, trees, files, transactions), \<open>CatalogProps\<close> (values, rows,
  schema), \<open>TableProps\<close> (rows of a table), \<open>LexerProps\<close>, \<open>ParserProps\<close>, \<open>EvalProps\<close> (patterns, expressions),
  \<open>QueryProps\<close> (queries and transactions) and \<open>ConnectorProps\<close> (handshake, server, client) hold the
  theorems numbered C1, C2, ..., each with a concrete instance after it. Of JSON they only use that a
  string is read back with the bytes that are no UTF-8 replaced by U+FFFD (\<open>jsonText\<close>). Some of them show what the
  code does where it does not do what its name says: a rollback that restores nothing, a view that
  forgets its query, a name that reads the last row, a text that keeps the write lock for ever.

  \<^bold>\<open>Fuel.\<close> The recursion along page pointers takes fuel, which the height of the tree bounds; the
  loop of a scan takes fuel, which the number of cells bounds; the grammar takes fuel, for which
  twice the number of tokens and two is enough for texts without \<open>CREATE\<close>; a query over views takes one
  unit for each view below it. The theorems are stated for every fuel above the bound, and show that
  the result is then not \<open>OutOfFuel\<close>. There are texts that the parser never finishes, for every fuel: a
  request with such a text stays running in the model of the server.

  \<^bold>\<open>Not modelled.\<close> Inside one execution the model is sequential: mutexes other than the server's write
  lock, the data races of requests that run without it, and the goroutine of \<open>MarkDirty\<close>. Time:
  deadlines, keep-alive, the slow query log, durations of results. Prompts, the usage text, messages on
  the standard error and the signal handler of the command. The code of JSON, of regular expressions
  and of package \<open>math\<close>. Counters that are only reported.
\<close>

end
